(* ===== verification/Nvx_Prelude.thy ===== *)
theory Nvx_Prelude
  imports Main "HOL-Library.Word"
begin

text \<open>
  Shared vocabulary of the development: the C integer types the firmware uses, the
  NUL character, reads of a C string stored in an array, and the generic facts on
  lists and words that several components rest on.

  The firmware runs on Cortex-M0/M4: \<open>char\<close> is unsigned, \<open>int\<close> has 32 bits, unsigned
  arithmetic wraps. An \<open>n\<close>-bit integer is an \<open>n word\<close>, read with \<open>unat\<close> or \<open>sint\<close>.
\<close>

unbundle bit_operations_syntax

type_synonym u8 = "8 word"
type_synonym u16 = "16 word"
type_synonym u32 = "32 word"
type_synonym u64 = "64 word"

named_theorems nvx_defs \<open>plain definitions unfolded by the component proofs\<close>
named_theorems nvx_inv \<open>preservation of a component invariant by one operation\<close>

section \<open>Characters and C strings\<close>

abbreviation NUL :: char where
  "NUL \<equiv> CHR 0x00"

text \<open>The string that starts at offset \<open>i\<close> of a character array.\<close>

definition cstr_at :: "char list \<Rightarrow> nat \<Rightarrow> string" where
  "cstr_at buf i = takeWhile (\<lambda>c. c \<noteq> NUL) (drop i buf)"

lemma cstr_at_append:
  assumes "NUL \<notin> set w"
  shows "cstr_at (pre @ w @ NUL # rest) (length pre) = w"
proof -
  have "takeWhile (\<lambda>c. c \<noteq> NUL) (w @ NUL # rest) = w"
    using assms by (subst takeWhile_append2) auto
  then show ?thesis by (simp add: cstr_at_def)
qed

lemma cstr_at_shift: "cstr_at (pre @ buf) (length pre + i) = cstr_at buf i"
  by (simp add: cstr_at_def)

section \<open>Lists\<close>

lemma list_update_mid [simp]: "(pre @ x # post)[length pre := y] = pre @ y # post"
  by (simp add: list_update_append)

lemma list_update_mid2 [simp]:
  "(pre @ w @ x # post)[length pre + length w := y] = pre @ w @ y # post"
proof -
  have "((pre @ w) @ x # post)[length (pre @ w) := y] = (pre @ w) @ y # post"
    by (rule list_update_mid)
  then show ?thesis by simp
qed

text \<open>The index of the first occurrence, \<open>-1\<close> when there is none.\<close>

fun first_index :: "'a \<Rightarrow> 'a list \<Rightarrow> int" where
  "first_index x [] = -1"
| "first_index x (y # ys) =
     (if x = y then 0 else let i = first_index x ys in if i = -1 then -1 else i + 1)"

lemma first_index_ge: "-1 \<le> first_index x xs"
  by (induction xs) (auto simp: Let_def)

lemma first_index_none: "first_index x xs = -1 \<longleftrightarrow> x \<notin> set xs"
proof (induction xs)
  case Nil
  then show ?case by simp
next
  case (Cons y ys)
  then show ?case using first_index_ge [of x ys] by (auto simp: Let_def)
qed

lemma first_index_some:
  "x \<in> set xs \<Longrightarrow> \<exists>i. first_index x xs = int i \<and> i < length xs \<and> xs ! i = x \<and> x \<notin> set (take i xs)"
proof (induction xs)
  case Nil
  then show ?case by simp
next
  case (Cons y ys)
  show ?case
  proof (cases "x = y")
    case True
    then show ?thesis by (intro exI [of _ 0]) simp
  next
    case False
    with Cons obtain i where "first_index x ys = int i" "i < length ys" "ys ! i = x"
      "x \<notin> set (take i ys)" by auto
    with False show ?thesis by (intro exI [of _ "Suc i"]) simp
  qed
qed

lemma first_index_less: "first_index x xs < int (length xs)"
  using first_index_some [of x xs] first_index_none [of x xs] by (cases "x \<in> set xs") auto

lemma first_index_eq_nat:
  "first_index x xs = int i \<Longrightarrow> i < length xs \<and> xs ! i = x"
  using first_index_some [of x xs] first_index_none [of x xs] by (cases "x \<in> set xs") auto

section \<open>Words\<close>

lemma u32_bound: "unat (x :: u32) < 4294967296"
  using unsigned_less [of x] by simp

lemma u16_bound: "unat (x :: u16) < 65536"
  using unsigned_less [of x] by simp

lemma u8_bound: "unat (x :: u8) < 256"
  using unsigned_less [of x] by simp

lemma bit31: "bit (x :: u32) 31 \<longleftrightarrow> 2147483648 \<le> unat x"
proof -
  have "bit x 31 \<longleftrightarrow> odd (unat x div 2147483648)"
    using bit_iff_odd [of "unat x" 31] by (simp add: bit_unsigned_iff)
  moreover have "unat x div 2147483648 = (if 2147483648 \<le> unat x then 1 else 0)"
    using u32_bound [of x] by (auto simp: div_eq_0_iff not_le intro: div_nat_eqI)
  ultimately show ?thesis by simp
qed
lemma sint_u32: "sint (x :: u32) = (if unat x < 2147483648 then int (unat x) else int (unat x) - 4294967296)"
proof -
  have "sint x = uint x - (if bit x 31 then 4294967296 else 0)"
  proof -
    have "take_bit 32 (uint x) = uint x"
      using uint_lt2p [of x] by (intro take_bit_int_eq_self) simp_all
    then show ?thesis by (simp add: sint_uint signed_take_bit_eq_take_bit_minus bit_uint_iff)
  qed
  then show ?thesis by (auto simp: bit31 not_le)
qed

lemma sless_u32: "(x :: u32) <s y \<longleftrightarrow> sint x < sint y"
  by (simp add: word_sless_alt)

section \<open>Numerals in a radix\<close>

text \<open>Value of a digit list, most significant digit first.\<close>

definition digits_value :: "nat \<Rightarrow> nat list \<Rightarrow> nat" where
  "digits_value radix ds = foldl (\<lambda>v d. v * radix + d) 0 ds"

lemma foldl_digits: "foldl (\<lambda>v d. v * r + d) a ds = a * r ^ length ds + digits_value r ds"
  for a :: nat
proof (induction ds arbitrary: a)
  case Nil
  then show ?case by (simp add: digits_value_def)
next
  case (Cons d ds)
  have "foldl (\<lambda>v d. v * r + d) a (d # ds) = (a * r + d) * r ^ length ds + digits_value r ds"
    by (simp add: Cons)
  moreover have "digits_value r (d # ds) = d * r ^ length ds + digits_value r ds"
    using Cons [of d] by (simp add: digits_value_def)
  ultimately show ?case by (simp add: algebra_simps)
qed

lemma digits_value_Nil [simp]: "digits_value r [] = 0"
  by (simp add: digits_value_def)

lemma digits_value_Cons: "digits_value r (d # ds) = d * r ^ length ds + digits_value r ds"
  using foldl_digits [of r d ds] by (simp add: digits_value_def)

lemma digits_value_append: "digits_value r (xs @ ys) = digits_value r xs * r ^ length ys + digits_value r ys"
  using foldl_digits [of r "digits_value r xs" ys] by (simp add: digits_value_def)

lemma digits_value_snoc [simp]: "digits_value r (ds @ [d]) = digits_value r ds * r + d"
  by (simp add: digits_value_def)

section \<open>Flags\<close>

text \<open>Testing and setting a flag constant, a power of two.\<close>

lemma and_flag_iff: "2 ^ n = f \<Longrightarrow> x AND f \<noteq> 0 \<longleftrightarrow> bit (x :: 'a::len word) n"
  using and_exp_eq_0_iff_not_bit [of x n] by blast

lemma bit_flag_iff: "2 ^ k = (f :: 'a::len word) \<Longrightarrow> k < LENGTH('a) \<Longrightarrow> bit f n \<longleftrightarrow> n = k"
  using bit_exp_iff [where ?'a = "'a word", of k n] by (auto simp: possible_bit_def)

section \<open>Widening\<close>

lemma unat_widen [simp]:
  "unat (ucast (w :: u16) :: u32) = unat w" "unat (ucast (b :: u8) :: u32) = unat b" "unat (ucast (b :: u8) :: u16) = unat b"
  using u16_bound [of w] u8_bound [of b] by (simp_all add: unsigned_ucast_eq take_bit_nat_eq_self)

end
