(* ===== verification/Common_Text.thy ===== *)
theory Common_Text
  imports Nvx_Prelude
begin

text \<open>
  The text helpers of \<open>src/src/core/common.c\<close>: the two integer parsers, the
  case-insensitive comparison, the option-list lookup, the command-line splitter and
  the byte swap. A C string is its characters without the terminator (\<open>[]\<close> is a pointer
  to the NUL), a mutable line is the whole character array, terminator and what lies
  behind it included, and a read outside the array is \<open>None\<close>.
  \<open>my_atof\<close> works on \<open>float\<close> and is not modelled.
\<close>

section \<open>Integer parsers\<close>

text \<open>\<open>c = *p++ - '0'\<close> in \<open>uint32_t\<close>.\<close>

definition digit_of :: "char \<Rightarrow> u32" where
  "digit_of ch = of_char ch - 48"

fun atoi_loop :: "u32 \<Rightarrow> string \<Rightarrow> u32" where
  "atoi_loop value [] = value"
| "atoi_loop value (ch # p) =
     (let c = digit_of ch in if c < 10 then atoi_loop (value * 10 + c) p else value)"

definition my_atoi :: "string \<Rightarrow> u32" where
  "my_atoi p =
     (let (neg, p) = (case p of ch # q \<Rightarrow> if ch = CHR ''-'' then (True, q) else (False, p)
                              | [] \<Rightarrow> (False, p));
          p = (case p of ch # q \<Rightarrow> if ch = CHR ''+'' then q else p | [] \<Rightarrow> p);
          value = atoi_loop 0 p
      in if neg then - value else value)"

definition atoui_digit :: "char \<Rightarrow> u32" where
  "atoui_digit ch =
     (let c = digit_of ch in if c \<ge> 17 then (c AND NOT 0x20) - 17 + 10 else c)"

fun atoui_loop :: "u32 \<Rightarrow> u32 \<Rightarrow> string \<Rightarrow> u32" where
  "atoui_loop radix value [] = value"
| "atoui_loop radix value (ch # p) =
     (let c = atoui_digit ch
      in if c \<ge> radix then value else atoui_loop radix (value * radix + c) p)"

definition my_atoui :: "string \<Rightarrow> u32" where
  "my_atoui p =
     (let p = (case p of ch # q \<Rightarrow> if ch = CHR ''+'' then q else p | [] \<Rightarrow> p)
      in case p of
           c0 # c1 # q \<Rightarrow>
             if c0 = CHR ''0'' then
               (if c1 = CHR ''x'' then atoui_loop 16 0 q
                else if c1 = CHR ''o'' then atoui_loop 8 0 q
                else if c1 = CHR ''b'' then atoui_loop 2 0 q
                else atoui_loop 10 0 p)
             else atoui_loop 10 0 p
         | _ \<Rightarrow> atoui_loop 10 0 p)"

section \<open>Comparison and option lists\<close>

definition to_lower :: "char \<Rightarrow> char" where
  "to_lower c =
     (if (of_char c :: nat) \<ge> 65 \<and> (of_char c :: nat) \<le> 90
      then char_of ((of_char c :: nat) - 65 + 97) else c)"

fun strcmpi :: "string \<Rightarrow> string \<Rightarrow> bool" where
  "strcmpi [] [] = True"
| "strcmpi (a # t1) (b # t2) = (if to_lower a \<noteq> to_lower b then False else strcmpi t1 t2)"
| "strcmpi _ _ = False"

text \<open>
  The inner loop of \<open>get_str_index\<close>: \<open>Inl ()\<close> when the item matched, \<open>Inr list\<close> with the
  advanced list pointer on a mismatch. A bar reads as the terminator.
\<close>

definition item_char :: "string \<Rightarrow> char option" where
  "item_char list = (case list of [] \<Rightarrow> None | c # _ \<Rightarrow> if c = CHR ''|'' then None else Some c)"

fun gsi_match :: "string \<Rightarrow> string \<Rightarrow> unit + string" where
  "gsi_match [] list = (if item_char list = None then Inl () else Inr list)"
| "gsi_match (x # p) [] = Inr []"
| "gsi_match (x # p) (c # list) =
     (if item_char (c # list) = Some x then gsi_match p list else Inr (c # list))"

fun gsi_skip :: "string \<Rightarrow> string option" where
  "gsi_skip [] = None"
| "gsi_skip (c # list) = (if c = CHR ''|'' then Some list else gsi_skip list)"

lemma gsi_match_length: "gsi_match p list = Inr list' \<Longrightarrow> length list' \<le> length list"
  by (induction p list rule: gsi_match.induct) (auto split: if_splits)

lemma gsi_skip_length: "gsi_skip list = Some list' \<Longrightarrow> length list' < length list"
  by (induction list) (auto split: if_splits)

function gsi_loop :: "int \<Rightarrow> string \<Rightarrow> string \<Rightarrow> int" where
  "gsi_loop i v list =
     (case gsi_match v list of
        Inl _ \<Rightarrow> i
      | Inr l \<Rightarrow> (case gsi_skip l of None \<Rightarrow> -1 | Some l' \<Rightarrow> gsi_loop (i + 1) v l'))"
  by pat_completeness auto
termination
  by (relation "measure (\<lambda>(i, v, list). length list)")
     (auto dest!: gsi_match_length gsi_skip_length)

definition get_str_index :: "string \<Rightarrow> string \<Rightarrow> int" where
  "get_str_index v list = gsi_loop 0 v list"

declare gsi_loop.simps [simp del]

section \<open>The command-line splitter\<close>

function strpbrk :: "char list \<Rightarrow> nat \<Rightarrow> string \<Rightarrow> nat option" where
  "strpbrk buf s1 s2 =
     (if s1 < length buf then
        if buf ! s1 \<in> set s2 then Some s1
        else if Suc s1 < length buf then
          (if buf ! Suc s1 = NUL then Some (Suc s1) else strpbrk buf (Suc s1) s2)
        else None
      else None)"
  by pat_completeness auto
termination
  by (relation "measure (\<lambda>(buf, s1, s2). length buf - s1)") auto

declare strpbrk.simps [simp del]

lemma strpbrk_ge: "strpbrk buf s1 s2 = Some e \<Longrightarrow> s1 \<le> e"
proof (induction buf s1 s2 rule: strpbrk.induct)
  case (1 buf s1 s2)
  show ?case
    using "1.prems" "1.IH" by (subst (asm) strpbrk.simps) (auto split: if_splits)
qed

abbreviation is_ws :: "char \<Rightarrow> bool" where
  "is_ws c \<equiv> c = CHR '' '' \<or> c = CHR 0x09"

definition brk_of :: "char \<Rightarrow> string" where
  "brk_of c = (if c = CHR 0x22 then [CHR 0x22] else [CHR '' '', CHR 0x09])"

function parse_loop :: "char list \<Rightarrow> nat \<Rightarrow> nat list \<Rightarrow> nat \<Rightarrow> (char list \<times> nat list) option" where
  "parse_loop line lp args max_cnt =
     (if lp < length line then
        let c = line ! lp in
        if c = NUL then Some (line, args)
        else if \<not> is_ws c then
          let start = (if c = CHR 0x22 then Suc lp else lp);
              brk = brk_of c
          in if length args < max_cnt then
               (case strpbrk line start brk of
                  None \<Rightarrow> None
                | Some e \<Rightarrow>
                    if line ! e \<noteq> NUL
                    then parse_loop (line[e := NUL]) (if c = CHR 0x22 then e + 2 else e + 1)
                           (args @ [start]) max_cnt
                    else Some (line, args @ [start]))
             else
               (case strpbrk line start brk of
                  None \<Rightarrow> None
                | Some e \<Rightarrow> if line ! e \<noteq> NUL then Some (line[e := NUL], args)
                           else Some (line, args))
        else parse_loop line (Suc lp) args max_cnt
      else None)"
  by pat_completeness auto
termination
proof (relation "measure (\<lambda>(line, lp, args, max_cnt). length line - lp)", goal_cases)
  case 1
  then show ?case by simp
next
  case (2 line lp args max_cnt c start brk e)
  then show ?case by (auto dest: strpbrk_ge split: if_splits)
next
  case 3
  then show ?case by simp
qed

definition parse_line :: "char list \<Rightarrow> int \<Rightarrow> (char list \<times> nat list) option" where
  "parse_line line max_cnt = (if max_cnt \<le> 0 then Some (line, []) else parse_loop line 0 [] (nat max_cnt))"

declare parse_loop.simps [simp del]

section \<open>Byte swap\<close>

text \<open>\<open>__REVSH\<close> reverses the two bytes (and sign-extends, which the 16-bit store drops).\<close>

definition revsh :: "u16 \<Rightarrow> u16" where
  "revsh x = (push_bit 8 x) OR (drop_bit 8 x)"

definition swap_bytes :: "u16 list \<Rightarrow> nat \<Rightarrow> u16 list" where
  "swap_bytes buf sz = map revsh (take sz buf) @ drop sz buf"


section \<open>Digits\<close>

lemma unat_of_char [simp]: "unat (of_char c :: u32) = of_char c"
proof -
  have "(of_char c :: u32) = word_of_nat (of_char c)"
    by (simp add: of_nat_of_char)
  moreover have "(of_char c :: nat) < 2 ^ 32"
    by (rule less_trans [OF nat_of_char_less_256]) simp
  ultimately show ?thesis by (simp add: unat_of_nat take_bit_nat_eq_self)
qed

definition is_dec :: "char \<Rightarrow> bool" where
  "is_dec ch \<longleftrightarrow> 48 \<le> (of_char ch :: nat) \<and> (of_char ch :: nat) \<le> 57"

definition dec_digit :: "char \<Rightarrow> nat" where
  "dec_digit ch = of_char ch - 48"

lemma unat_digit_of: "48 \<le> (of_char ch :: nat) \<Longrightarrow> unat (digit_of ch) = of_char ch - 48"
  by (simp add: digit_of_def unat_sub_if')

lemma digit_of_less: "digit_of ch < 10 \<longleftrightarrow> is_dec ch"
  using nat_of_char_less_256 [of ch]
  by (auto simp: digit_of_def is_dec_def word_less_nat_alt unat_sub_if')

text \<open>The number a C decimal literal with optional sign denotes (unbounded).\<close>

definition dec_prefix :: "string \<Rightarrow> nat" where
  "dec_prefix p = digits_value 10 (map dec_digit (takeWhile is_dec p))"

definition skip_char :: "char \<Rightarrow> string \<Rightarrow> string" where
  "skip_char x p = (case p of [] \<Rightarrow> [] | c # q \<Rightarrow> if c = x then q else p)"

definition atoi_value :: "string \<Rightarrow> int" where
  "atoi_value p =
     (let q = skip_char CHR ''+'' (skip_char CHR ''-'' p)
      in if p \<noteq> [] \<and> hd p = CHR ''-'' then - int (dec_prefix q) else int (dec_prefix q))"

lemma atoi_loop_eq:
  "atoi_loop v p = v * 10 ^ length (takeWhile is_dec p) + of_nat (dec_prefix p)"
proof (induction v p rule: atoi_loop.induct)
  case (1 v)
  then show ?case by (simp add: dec_prefix_def)
next
  case (2 v ch p)
  show ?case
  proof (cases "is_dec ch")
    case True
    then have d: "digit_of ch = of_nat (dec_digit ch)"
      by (simp add: is_dec_def dec_digit_def unat_digit_of [symmetric])
    have "atoi_loop v (ch # p) = atoi_loop (v * 10 + digit_of ch) p"
      using True by (simp add: Let_def digit_of_less)
    also have "\<dots> = (v * 10 + digit_of ch) * 10 ^ length (takeWhile is_dec p) + of_nat (dec_prefix p)"
      using "2" [OF refl] True by (simp add: digit_of_less)
    finally show ?thesis using True
      by (simp add: d dec_prefix_def digits_value_Cons algebra_simps)
  next
    case False
    then show ?thesis by (simp add: Let_def digit_of_less dec_prefix_def)
  qed
qed

lemma and_exp_word: "x AND 2 ^ k = (if bit x k then 2 ^ k else (0 :: 'a::len word))"
  by (rule bit_word_eqI) (auto simp: bit_simps)

lemma unat_clear_bit5: "unat (x AND NOT 0x20 :: u32) = unat x - 32 * (unat x div 32 mod 2)"
proof -
  have and32: "x AND 0x20 = (if bit x 5 then 32 else 0)"
    using and_exp_word [of x 5] by simp
  have bit: "bit x 5 \<longleftrightarrow> unat x div 32 mod 2 = 1"
    using bit_iff_odd [of "unat x" 5] by (simp add: bit_unsigned_iff odd_iff_mod_2_eq_one)
  have "x AND NOT 0x20 = x - (x AND 0x20)"
  proof -
    have "x - (x AND 0x20) = x AND NOT (x AND 0x20)"
      by (rule disjunctive_diff) (simp add: bit_simps)
    also have "\<dots> = x AND NOT 0x20"
      by (rule bit_word_eqI) (auto simp: bit_simps)
    finally show ?thesis by simp
  qed
  then show ?thesis
    using and32 bit by (auto simp: unat_sub_if')
qed


lemmas unat_clear_bit5' = unat_clear_bit5 [simplified]

text \<open>The digits \<open>my_atoui\<close> documents: \<open>0-9\<close> below the radix, and \<open>a-f\<close>/\<open>A-F\<close> in radix 16.\<close>

definition doc_digit :: "nat \<Rightarrow> char \<Rightarrow> nat option" where
  "doc_digit radix ch =
     (let n = of_char ch
      in if 48 \<le> n \<and> n \<le> 57 \<and> n - 48 < radix then Some (n - 48)
         else if radix = 16 \<and> 97 \<le> n \<and> n \<le> 102 then Some (n - 87)
         else if radix = 16 \<and> 65 \<le> n \<and> n \<le> 70 then Some (n - 55)
         else None)"

text \<open>The characters the folding \<open>(c & ~0x20) - 17 + 10\<close> takes besides them.\<close>

definition stray_digit :: "nat \<Rightarrow> char \<Rightarrow> nat option" where
  "stray_digit radix ch =
     (let n = of_char ch
      in if 87 \<le> n \<and> n \<le> 96 \<and> n - 87 < radix then Some (n - 87)
         else if 58 \<le> n \<and> n \<le> 63 \<and> n - 48 < radix then Some (n - 48)
         else None)"

definition accepted_digit :: "nat \<Rightarrow> char \<Rightarrow> nat option" where
  "accepted_digit radix ch =
     (if atoui_digit ch \<ge> of_nat radix then None else Some (unat (atoui_digit ch)))"

lemma atoui_digit_unat:
  "unat (atoui_digit ch) =
     (let n = of_char ch; c = (if 48 \<le> n then n - 48 else 2 ^ 32 + n - 48);
          c' = c - 32 * (c div 32 mod 2)
      in if 17 \<le> c then (if 7 \<le> c' then c' - 7 else 2 ^ 32 + c' - 7) else c)"
proof -
  have c: "unat (digit_of ch) = (if 48 \<le> (of_char ch :: nat) then of_char ch - 48 else 2 ^ 32 + of_char ch - 48)"
    by (simp add: digit_of_def unat_sub_if')
  have f: "x - 17 + 10 = x - (7 :: u32)" for x by simp
  show ?thesis
    unfolding atoui_digit_def Let_def f
    by (simp add: word_le_nat_alt unat_clear_bit5' unat_sub_if' c)
qed

lemma atoui_digit_ranges:
  fixes ch defines "n \<equiv> (of_char ch :: nat)"
  shows "unat (atoui_digit ch) =
    (if n < 48 then unat (atoui_digit ch)
     else if n \<le> 64 then n - 48 else if n \<le> 79 then n - 55
     else if 87 \<le> n \<and> n \<le> 111 then n - 87 else unat (atoui_digit ch))"
  and "(n < 48 \<or> 80 \<le> n \<and> n < 87 \<or> 112 \<le> n) \<Longrightarrow> 57 \<le> unat (atoui_digit ch)"
proof -
  have n: "n < 256" by (simp add: n_def)
  have div0: "(n - 48) div 32 = 0" if "n \<le> 79" using that by auto
  have div1: "(n - 48) div 32 = 1" if "80 \<le> n" "n \<le> 111" using that by auto
  note [simp] = atoui_digit_unat [of ch, folded n_def] Let_def
  show "unat (atoui_digit ch) =
    (if n < 48 then unat (atoui_digit ch)
     else if n \<le> 64 then n - 48 else if n \<le> 79 then n - 55
     else if 87 \<le> n \<and> n \<le> 111 then n - 87 else unat (atoui_digit ch))"
    using div0 div1 by auto
  show "57 \<le> unat (atoui_digit ch)" if h: "n < 48 \<or> 80 \<le> n \<and> n < 87 \<or> 112 \<le> n"
  proof -
    consider "n < 48" | "80 \<le> n" "n < 87" | "112 \<le> n" "n < 144" | "144 \<le> n" using h by linarith
    then show ?thesis
    proof cases
      case 1
      have "(4294967248 + n) div 32 mod 2 \<le> 1" by simp
      with "1" show ?thesis by simp linarith
    next
      case 2
      then show ?thesis using div1 by simp arith
    next
      case 3
      then have "(n - 48) div 32 = 2" by auto
      with "3" show ?thesis by simp arith
    next
      case 4
      have "(n - 48) div 32 mod 2 \<le> 1" by simp
      with "4" show ?thesis by simp arith
    qed
  qed
qed


lemma accepted_digit_iff:
  assumes r: "radix \<in> {2, 8, 10, 16}"
  shows "accepted_digit radix ch =
    (case doc_digit radix ch of Some d \<Rightarrow> Some d | None \<Rightarrow> stray_digit radix ch)"
proof -
  define n where "n = (of_char ch :: nat)"
  have u: "unat (of_nat radix :: u32) = radix" using r by auto
  have acc: "accepted_digit radix ch =
    (if radix \<le> unat (atoui_digit ch) then None else Some (unat (atoui_digit ch)))"
    by (simp add: accepted_digit_def word_le_nat_alt u)
  note rng = atoui_digit_ranges [of ch, folded n_def]
  show ?thesis
  proof (cases "n < 48 \<or> 80 \<le> n \<and> n < 87 \<or> 112 \<le> n")
    case True
    then have "accepted_digit radix ch = None" using rng(2) r acc by auto
    then show ?thesis
      using True by (auto simp: doc_digit_def stray_digit_def Let_def n_def)
  next
    case False
    then have eq: "unat (atoui_digit ch) =
      (if n \<le> 64 then n - 48 else if n \<le> 79 then n - 55 else n - 87)" using rng(1) by auto
    show ?thesis
      unfolding acc eq doc_digit_def stray_digit_def Let_def n_def [symmetric]
      using False r by auto
  qed
qed

lemma doc_accepted: "radix \<in> {2, 8, 10, 16} \<Longrightarrow> doc_digit radix ch = Some d \<Longrightarrow> accepted_digit radix ch = Some d"
  by (simp add: accepted_digit_iff)

lemma doc_digit_less: "doc_digit radix ch = Some d \<Longrightarrow> d < radix"
  by (auto simp: doc_digit_def Let_def split: if_splits)

lemma atoui_loop_eq:
  assumes "\<forall>c \<in> set ds. accepted_digit r c \<noteq> None"
    and "rest = [] \<or> accepted_digit r (hd rest) = None"
  shows "atoui_loop (of_nat r) v (ds @ rest) =
    v * of_nat r ^ length ds + of_nat (digits_value r (map (the \<circ> accepted_digit r) ds))"
  using assms(1)
proof (induction ds arbitrary: v)
  case Nil
  then show ?case using assms(2)
    by (cases rest) (auto simp: Let_def accepted_digit_def split: if_splits)
next
  case (Cons d ds)
  from Cons.prems have d: "\<not> of_nat r \<le> atoui_digit d"
    by (auto simp: accepted_digit_def split: if_splits)
  then have "the (accepted_digit r d) = unat (atoui_digit d)"
    by (simp add: accepted_digit_def)
  with Cons d show ?case
    by (simp add: Let_def digits_value_Cons algebra_simps)
qed

section \<open>Option lists\<close>

function split_bar :: "string \<Rightarrow> string list" where
  "split_bar l = takeWhile (\<lambda>c. c \<noteq> CHR ''|'') l #
     (case dropWhile (\<lambda>c. c \<noteq> CHR ''|'') l of [] \<Rightarrow> [] | _ # r \<Rightarrow> split_bar r)"
  by pat_completeness auto
termination
proof (relation "measure length", goal_cases)
  case 1
  then show ?case by simp
next
  case (2 l b r)
  then have "length (b # r) \<le> length l" by (metis length_dropWhile_le)
  then show ?case by simp
qed

declare split_bar.simps [simp del]

lemma gsi_match_iff: "gsi_match v l = Inl u \<longleftrightarrow> v = takeWhile (\<lambda>c. c \<noteq> CHR ''|'') l"
  by (induction v l rule: gsi_match.induct) (auto simp: item_char_def split: list.splits)

lemma gsi_match_skip: "gsi_match v l = Inr l' \<Longrightarrow> gsi_skip l' = gsi_skip l"
  by (induction v l rule: gsi_match.induct) (auto simp: item_char_def split: if_splits)

lemma gsi_skip_eq:
  "gsi_skip l = (case dropWhile (\<lambda>c. c \<noteq> CHR ''|'') l of [] \<Rightarrow> None | _ # r \<Rightarrow> Some r)"
  by (induction l) auto

lemma gsi_loop_eq:
  "gsi_loop i v l = (let k = first_index v (split_bar l) in if k = -1 then -1 else i + k)"
proof (induction i v l rule: gsi_loop.induct)
  case (1 i v l)
  show ?case
  proof (cases "gsi_match v l")
    case (Inl u)
    then show ?thesis
      using gsi_match_iff [of v l u]
      by (subst gsi_loop.simps, subst split_bar.simps) (simp add: Let_def)
  next
    case (Inr l')
    then have ne: "v \<noteq> takeWhile (\<lambda>c. c \<noteq> CHR ''|'') l" using gsi_match_iff [of v l] by force
    from Inr have sk: "gsi_skip l' = gsi_skip l" by (rule gsi_match_skip)
    show ?thesis
    proof (cases "dropWhile (\<lambda>c. c \<noteq> CHR ''|'') l")
      case Nil
      then have s: "gsi_skip l' = None" by (simp only: sk gsi_skip_eq [of l] list.case)
      moreover from Nil have "split_bar l = [takeWhile (\<lambda>c. c \<noteq> CHR ''|'') l]"
        by (subst split_bar.simps) (simp only: list.case)
      ultimately show ?thesis using Inr ne by (subst gsi_loop.simps) simp
    next
      case (Cons b r)
      then have s: "gsi_skip l' = Some r" by (simp only: sk gsi_skip_eq [of l] list.case)
      have "gsi_loop i v l = gsi_loop (i + 1) v r"
        using Inr s by (subst gsi_loop.simps) simp
      moreover have "split_bar l = takeWhile (\<lambda>c. c \<noteq> CHR ''|'') l # split_bar r"
        using Cons by (subst split_bar.simps) simp
      ultimately show ?thesis
        using "1" [OF Inr s] ne first_index_ge [of v "split_bar r"] by (simp add: Let_def)
    qed
  qed
qed

section \<open>Words of a line\<close>

text \<open>The white-space separated words of a line.\<close>

function words :: "string \<Rightarrow> string list" where
  "words [] = []"
| "words (c # s) = (if is_ws c then words s
     else (c # takeWhile (\<lambda>d. \<not> is_ws d) s) # words (dropWhile (\<lambda>d. \<not> is_ws d) s))"
  by pat_completeness auto
termination
  by (relation "measure length") (auto simp: less_Suc_eq_le length_dropWhile_le)

lemma strpbrk_hit: "i < length buf \<Longrightarrow> buf ! i \<in> set s2 \<Longrightarrow> strpbrk buf i s2 = Some i"
  by (subst strpbrk.simps) simp

lemma strpbrk_end:
  "Suc i < length buf \<Longrightarrow> buf ! i \<notin> set s2 \<Longrightarrow> buf ! Suc i = NUL \<Longrightarrow> strpbrk buf i s2 = Some (Suc i)"
  by (subst strpbrk.simps) simp

lemma strpbrk_step:
  "Suc i < length buf \<Longrightarrow> buf ! i \<notin> set s2 \<Longrightarrow> buf ! Suc i \<noteq> NUL
    \<Longrightarrow> strpbrk buf i s2 = strpbrk buf (Suc i) s2"
  by (subst strpbrk.simps) simp

lemma strpbrk_word:
  assumes "\<forall>c \<in> set w. c \<notin> set s2 \<and> c \<noteq> NUL" "x = NUL \<or> x \<in> set s2" "w = [] \<longrightarrow> x \<in> set s2"
    "length pre = i"
  shows "strpbrk (pre @ w @ x # rest) i s2 = Some (i + length w)"
  using assms
proof (induction w arbitrary: pre i)
  case Nil
  then show ?case by (intro trans [OF strpbrk_hit]) (simp_all add: nth_append)
next
  case (Cons c w)
  let ?b = "pre @ c # w @ x # rest"
  have len: "Suc i < length ?b" using Cons.prems(4) by simp
  have at: "?b ! i = c" "?b ! Suc i = (w @ x # rest) ! 0"
    using Cons.prems(4) by (simp_all add: nth_append)
  have c: "?b ! i \<notin> set s2" using Cons.prems(1) at(1) by simp
  show ?case
  proof (cases "w = [] \<and> x = NUL")
    case True
    then have "?b ! Suc i = NUL" using at(2) by simp
    with strpbrk_end [OF len c] True show ?thesis by simp
  next
    case False
    then have "?b ! Suc i \<noteq> NUL \<or> x \<in> set s2 \<and> w = []" and h: "w = [] \<longrightarrow> x \<in> set s2"
      using at(2) Cons.prems(1,2) by (cases w; auto)+
    have "strpbrk ((pre @ [c]) @ w @ x # rest) (Suc i) s2 = Some (Suc i + length w)"
      using Cons.prems h by (intro Cons.IH) auto
    moreover have "?b ! Suc i \<noteq> NUL"
      using at(2) False Cons.prems(1) by (cases w) auto
    ultimately show ?thesis using strpbrk_step [OF len c] by simp
  qed
qed

section \<open>Correctness of the splitter on lines without quotes\<close>

lemma parse_loop_ws:
  "lp < length line \<Longrightarrow> is_ws (line ! lp) \<Longrightarrow> parse_loop line lp args m = parse_loop line (Suc lp) args m"
  by (subst parse_loop.simps) auto

lemma parse_loop_nul:
  "lp < length line \<Longrightarrow> line ! lp = NUL \<Longrightarrow> parse_loop line lp args m = Some (line, args)"
  by (subst parse_loop.simps) simp

lemma parse_loop_word:
  assumes "lp < length line" "line ! lp \<noteq> NUL" "\<not> is_ws (line ! lp)" "line ! lp \<noteq> CHR 0x22"
    "strpbrk line lp [CHR '' '', CHR 0x09] = Some e"
  shows "parse_loop line lp args m =
    (if length args < m then
       (if line ! e \<noteq> NUL then parse_loop (line[e := NUL]) (Suc e) (args @ [lp]) m
        else Some (line, args @ [lp]))
     else if line ! e \<noteq> NUL then Some (line[e := NUL], args) else Some (line, args))"
  using assms by (subst parse_loop.simps) (simp add: Let_def brk_of_def)

definition plain_char :: "char \<Rightarrow> bool" where
  "plain_char c \<longleftrightarrow> c \<noteq> NUL \<and> c \<noteq> CHR 0x22"

text \<open>
  What the loop promises from position \<open>length pre\<close> on: the words of the rest of the
  line, up to the free argument slots, are the strings its offsets point at, and nothing
  but the characters of the line is written.
\<close>

definition splits :: "nat \<Rightarrow> string \<Rightarrow> string \<Rightarrow> nat list \<Rightarrow> string \<Rightarrow> bool" where
  "splits m rest pre args z \<longleftrightarrow>
     (\<exists>t offs. parse_loop (pre @ z @ NUL # rest) (length pre) args m =
        Some (pre @ t @ NUL # rest, args @ offs) \<and> length t = length z \<and>
      map (cstr_at (pre @ t @ NUL # rest)) offs = take (m - length args) (words z))"

lemma splitsI:
  assumes "parse_loop (pre @ z @ NUL # rest) (length pre) args m =
      Some (pre @ t @ NUL # rest, args @ offs)" "length t = length z"
    "map (cstr_at (pre @ t @ NUL # rest)) offs = take (m - length args) (words z)"
  shows "splits m rest pre args z"
  using assms unfolding splits_def by blast

lemma splits_ws:
  assumes "is_ws c" "splits m rest (pre @ [c]) args s"
  shows "splits m rest pre args (c # s)"
proof -
  from assms(2) obtain t offs where t: "parse_loop (pre @ c # s @ NUL # rest) (Suc (length pre)) args m =
      Some (pre @ c # t @ NUL # rest, args @ offs)" "length t = length s"
    "map (cstr_at (pre @ c # t @ NUL # rest)) offs = take (m - length args) (words s)"
    unfolding splits_def by auto
  have "parse_loop (pre @ (c # s) @ NUL # rest) (length pre) args m =
      parse_loop (pre @ (c # s) @ NUL # rest) (Suc (length pre)) args m"
    using assms(1) by (intro parse_loop_ws) (auto simp: nth_append)
  then show ?thesis
    using t assms(1) by (intro splitsI [where t = "c # t" and offs = offs]) auto
qed

lemma splits_word:
  assumes plain: "\<forall>d \<in> set (c # s). plain_char d" and c: "\<not> is_ws c"
    and IH: "\<And>z pre args. length z \<le> length s \<Longrightarrow> \<forall>d \<in> set z. plain_char d \<Longrightarrow> splits m rest pre args z"
  shows "splits m rest pre args (c # s)"
proof -
  define w where "w = c # takeWhile (\<lambda>d. \<not> is_ws d) s"
  define r where "r = dropWhile (\<lambda>d. \<not> is_ws d) s"
  have cs: "c # s = w @ r" and ws: "words (c # s) = w # words r"
    using c by (simp_all add: w_def r_def)
  have rs: "length r \<le> length s" by (simp add: r_def length_dropWhile_le)
  have wp: "\<forall>c \<in> set w. c \<notin> set [CHR '' '', CHR 0x09] \<and> c \<noteq> NUL"
    using plain c by (auto simp: w_def plain_char_def dest: set_takeWhileD)
  have w0: "w \<noteq> []" "hd w = c" by (auto simp: w_def)
  consider (last) "r = []" | (more) y r' where "r = y # r'" "is_ws y"
    using hd_dropWhile [of "\<lambda>d. \<not> is_ws d" s] by (cases r) (auto simp: r_def)
  then obtain x tail where xt: "r @ NUL # rest = x # tail"
    and x: "x = NUL \<and> r = [] \<or> x \<in> set [CHR '' '', CHR 0x09]"
    by cases auto
  let ?b = "pre @ w @ x # tail" and ?e = "length pre + length w"
  have b: "pre @ (c # s) @ NUL # rest = ?b" using cs xt by simp
  have sb: "strpbrk ?b (length pre) [CHR '' '', CHR 0x09] = Some ?e"
    using wp x w0 by (intro strpbrk_word) auto
  have at: "?b ! length pre = c" "?b ! ?e = x" using w0 by (auto simp: nth_append neq_Nil_conv)
  have step: "parse_loop ?b (length pre) args m =
    (if length args < m then
       (if x \<noteq> NUL then parse_loop (pre @ w @ NUL # tail) (Suc ?e) (args @ [length pre]) m
        else Some (?b, args @ [length pre]))
     else if x \<noteq> NUL then Some (pre @ w @ NUL # tail, args) else Some (?b, args))"
    using parse_loop_word [OF _ _ _ _ sb, of args m] at plain c by (simp add: plain_char_def)
  have wc: "cstr_at (pre @ w @ NUL # z) (length pre) = w" for z
    using wp by (intro cstr_at_append) auto
  have len: "length (c # s) = length w + length r" using cs by (metis length_append)
  show ?thesis
  proof (cases "r = []")
    case True
    then have xn: "x = NUL" "tail = rest" using xt by auto
    show ?thesis
    proof (cases "m - length args")
      case 0
      show ?thesis
        by (rule splitsI [where t = w and offs = "[]"])
           (use step xn True 0 b len in auto)
    next
      case (Suc k)
      show ?thesis
        by (rule splitsI [where t = w and offs = "[length pre]"])
           (use step xn True Suc b len ws wc in auto)
    qed
  next
    case False
    then obtain r' where r': "r = x # r'" and tail: "tail = r' @ NUL # rest" and xw: "is_ws x"
      using x xt by (cases r) auto
    then have xn: "x \<noteq> NUL" by auto
    show ?thesis
    proof (cases "m - length args")
      case 0
      show ?thesis
        by (rule splitsI [where t = "w @ NUL # r'" and offs = "[]"])
           (use step xn tail r' 0 b len in auto)
    next
      case (Suc k)
      have "\<forall>d \<in> set r'. plain_char d"
        using plain cs r' by (metis Un_iff list.set_intros(2) set_append)
      from IH [OF _ this, of "pre @ w @ [NUL]" "args @ [length pre]"] rs r'
      obtain t offs where t: "parse_loop (pre @ w @ NUL # r' @ NUL # rest) (Suc ?e) (args @ [length pre]) m =
          Some (pre @ w @ NUL # t @ NUL # rest, args @ length pre # offs)" "length t = length r'"
        "map (cstr_at (pre @ w @ NUL # t @ NUL # rest)) offs = take (m - Suc (length args)) (words r')"
        unfolding splits_def by auto
      have wds: "words (c # s) = w # words r'" using ws r' xw by auto
      have k: "m - Suc (length args) = k" using Suc by simp
      show ?thesis
        by (rule splitsI [where t = "w @ NUL # t" and offs = "length pre # offs"])
           (use step xn tail Suc t b len r' wc wds k in \<open>auto simp del: words.simps\<close>)
    qed
  qed
qed

lemma splits_plain: "\<forall>c \<in> set z. plain_char c \<Longrightarrow> splits m rest pre args z"
proof (induction z arbitrary: pre args rule: length_induct)
  case (1 z)
  show ?case
  proof (cases z)
    case Nil
    then show ?thesis
      by (intro splitsI [where t = "[]" and offs = "[]"]) (auto simp: parse_loop_nul)
  next
    case (Cons c s)
    have IH: "splits m rest pre args y" if "length y \<le> length s" "\<forall>d \<in> set y. plain_char d" for y pre args
      using "1.IH" that Cons by auto
    show ?thesis
    proof (cases "is_ws c")
      case True
      then show ?thesis using splits_ws IH "1.prems" Cons by auto
    next
      case False
      then show ?thesis using splits_word [OF _ False IH] "1.prems" Cons by auto
    qed
  qed
qed

section \<open>Properties\<close>

lemma my_atoi_word: "my_atoi p = word_of_int (atoi_value p)"
proof -
  have l: "atoi_loop 0 q = word_of_int (int (dec_prefix q))" for q
    by (simp add: atoi_loop_eq)
  show ?thesis
    by (auto simp: my_atoi_def atoi_value_def skip_char_def Let_def l split: list.splits)
qed

text \<open>
  : whenever the decimal literal at the start of the argument (an optional \<open>-\<close>, an
  optional \<open>+\<close>, digits up to the first other character) denotes a number of magnitude
  below \<open>2 ^ 31\<close>, \<open>my_atoi\<close> returns that number.
\<close>

theorem my_atoi_correct:
  assumes "\<bar>atoi_value p\<bar> < 2 ^ 31"
  shows "sint (my_atoi p) = atoi_value p"
proof -
  have "- (2 ^ 31) \<le> atoi_value p" "atoi_value p < 2 ^ 31" using assms by linarith+
  then show ?thesis
    by (simp add: my_atoi_word sint_sbintrunc' signed_take_bit_int_eq_self)
qed

theorem my_atoi_correct_witness: "sint (my_atoi ''-2048 Hz'') = -2048"
proof -
  have v: "atoi_value ''-2048 Hz'' = -2048" by code_simp
  then show ?thesis using my_atoi_correct [of "''-2048 Hz''"] by simp
qed

definition radix_prefix :: "nat \<Rightarrow> string" where
  "radix_prefix radix = (if radix = 16 then ''0x'' else if radix = 8 then ''0o''
     else if radix = 2 then ''0b'' else [])"

definition looks_prefixed :: "string \<Rightarrow> bool" where
  "looks_prefixed p \<longleftrightarrow> take 2 p \<in> {''0x'', ''0o'', ''0b''}"

lemma my_atoui_prefixed:
  "radix \<in> {2, 8, 16} \<Longrightarrow> my_atoui (radix_prefix radix @ p) = atoui_loop (of_nat radix) 0 p"
  by (auto simp: my_atoui_def radix_prefix_def)

lemma my_atoui_plain:
  assumes "p = c # q" "c \<noteq> CHR ''+''" "\<not> looks_prefixed p"
  shows "my_atoui p = atoui_loop 10 0 p"
  using assms
  by (cases q) (auto simp: my_atoui_def looks_prefixed_def Let_def simp del: atoui_loop.simps)

lemma doc_digit_not_plus: "doc_digit r c \<noteq> None \<Longrightarrow> c \<noteq> CHR ''+''"
  by (auto simp: doc_digit_def Let_def)

text \<open>
  : on a literal of documented digits, with the \<open>0x\<close>, \<open>0o\<close> or \<open>0b\<close> prefix of
  its radix (none for decimal), ended by the terminator or a character \<open>my_atoui\<close> does not
  take, the result is the number the digits denote, modulo \<open>2 ^ 32\<close>.
\<close>

theorem my_atoui_literal:
  assumes radix: "radix \<in> {2, 8, 10, 16}"
    and ds: "ds \<noteq> []" "\<forall>c \<in> set ds. doc_digit radix c \<noteq> None"
    and rest: "rest = [] \<or> accepted_digit radix (hd rest) = None"
    and plain: "radix = 10 \<Longrightarrow> \<not> looks_prefixed (ds @ rest)"
  shows "my_atoui (radix_prefix radix @ ds @ rest) =
    of_nat (digits_value radix (map (the \<circ> doc_digit radix) ds))"
proof -
  have acc: "accepted_digit radix c = doc_digit radix c" if "c \<in> set ds" for c
    using ds(2) that doc_accepted [OF radix] by fastforce
  have "atoui_loop (of_nat radix) 0 (ds @ rest) =
      of_nat (digits_value radix (map (the \<circ> accepted_digit radix) ds))"
    using atoui_loop_eq [of ds radix rest 0] ds(2) acc rest by simp
  moreover have "map (the \<circ> accepted_digit radix) ds = map (the \<circ> doc_digit radix) ds"
    using acc by simp
  moreover have "my_atoui (radix_prefix radix @ ds @ rest) = atoui_loop (of_nat radix) 0 (ds @ rest)"
  proof (cases "radix = 10")
    case True
    from ds obtain c q where c: "ds = c # q" "c \<noteq> CHR ''+''"
      by (cases ds) (use doc_digit_not_plus in auto)
    then have "my_atoui (ds @ rest) = atoui_loop 10 0 (ds @ rest)"
      using plain True by (intro my_atoui_plain) auto
    then show ?thesis using True by (simp add: radix_prefix_def)
  next
    case False
    then show ?thesis using radix by (intro my_atoui_prefixed) auto
  qed
  ultimately show ?thesis by simp
qed

theorem my_atoui_literal_witness: "my_atoui ''0x1F g'' = 31"
proof -
  have "my_atoui (radix_prefix 16 @ ''1F'' @ '' g'') =
      of_nat (digits_value 16 (map (the \<circ> doc_digit 16) ''1F''))"
    by (rule my_atoui_literal) (auto simp: doc_digit_def accepted_digit_iff stray_digit_def)
  then show ?thesis
    by (simp add: radix_prefix_def doc_digit_def digits_value_def)
qed

text \<open>
  : the characters \<open>my_atoui\<close> consumes as digits are exactly the
  documented ones plus the ones its case folding lets through: \<open>W\<close> up to the backquote
  with the values 0 to 9, in every radix, and colon up to question mark in radix 16. So
  \<open>12W\<close> reads as 120.
\<close>

theorem atoui_accepts_exactly:
  assumes "radix \<in> {2, 8, 10, 16}"
  shows "accepted_digit radix ch =
    (case doc_digit radix ch of Some d \<Rightarrow> Some d | None \<Rightarrow> stray_digit radix ch)"
  using assms by (rule accepted_digit_iff)

theorem atoui_accepts_exactly_witness:
  "accepted_digit 10 CHR ''W'' = Some 0 \<and> doc_digit 10 CHR ''W'' = None"
  using atoui_accepts_exactly [of 10 "CHR ''W''"] by (simp add: doc_digit_def stray_digit_def)

lemma my_atoui_12W: "my_atoui ''12W'' = 120"
  by code_simp

lemma strcmpi_correct: "strcmpi s t \<longleftrightarrow> map to_lower s = map to_lower t"
  by (induction s t rule: strcmpi.induct) auto

text \<open>
  : \<open>get_str_index\<close> returns the position of its argument among the
  bar-separated items of the list, the first one if there are several, and \<open>-1\<close> exactly
  when it is none of them (a proper prefix of an item is not a match).
\<close>

theorem get_str_index_correct:
  "get_str_index v l = first_index v (split_bar l)"
  using gsi_loop_eq [of 0 v l] by (simp add: get_str_index_def Let_def)

lemma get_str_index_example: "get_str_index ''center'' ''start|stop|center|span|cw'' = 2"
  by code_simp

text \<open>
  : on a line without quotes, whatever bytes lie behind its terminator, the
  splitter stays inside the line, stores the offsets of the first \<open>max_cnt\<close> words, each
  terminated in place, and leaves the bytes behind the terminator alone.
\<close>

theorem parse_line_words:
  assumes "\<forall>c \<in> set line. plain_char c" and "0 < max_cnt"
  shows "\<exists>t offs. parse_line (line @ NUL # rest) max_cnt = Some (t @ NUL # rest, offs) \<and>
    length t = length line \<and>
    map (cstr_at (t @ NUL # rest)) offs = take (nat max_cnt) (words line)"
  using splits_plain [OF assms(1), of "nat max_cnt" rest "[]" "[]"] assms(2)
  by (simp add: splits_def parse_line_def)

theorem parse_line_words_witness:
  "\<exists>t offs. parse_line (''scan 10  20'' @ NUL # ''old'') 4 = Some (t @ NUL # ''old'', offs) \<and>
    length t = length ''scan 10  20'' \<and> map (cstr_at (t @ NUL # ''old'')) offs = [''scan'', ''10'', ''20'']"
  using parse_line_words [of "''scan 10  20''" 4 "''old''"]
  by (simp add: plain_char_def)

text \<open>
  : with a quoted last argument the splitter steps over the closing
  quote twice and goes on behind the terminator: it hands out an argument made of the
  bytes found there, and reads outside the array when there are none.
\<close>

theorem parse_line_quote_overrun:
  "parse_line (''msg 9 '' @ [CHR 0x22] @ ''hi'' @ [CHR 0x22, NUL] @ ''stale'' @ [NUL]) 5 =
     Some (''msg'' @ [NUL] @ ''9'' @ [NUL, CHR 0x22] @ ''hi'' @ [NUL, NUL] @ ''stale'' @ [NUL],
           [0, 4, 7, 11]) \<and>
   parse_line (''msg 9 '' @ [CHR 0x22] @ ''hi'' @ [CHR 0x22, NUL]) 5 = None"
  by code_simp

lemma revsh_revsh [simp]: "revsh (revsh x) = x"
  by (rule bit_word_eqI) (auto simp: revsh_def bit_simps)

lemma swap_bytes_involution: "swap_bytes (swap_bytes buf sz) sz = buf"
  by (simp add: swap_bytes_def min_def comp_def)

end
