(* ===== verification/Packbits.thy ===== *)
theory Packbits
  imports Nvx_Prelude
begin

text \<open>
  The PackBits run-length encoder \<open>packbits\<close> of \<open>src/src/core/common.c\<close>, on an explicit
  byte memory: the screenshot writer hands it a source and a destination that overlap.
  \<open>pack\<close> is the same algorithm on lists, \<open>unpackbits\<close> the decoder of
  \<open>src/tests/unit/test_common.c\<close> with its bounds checked. The memory model refines the
  list model whenever the source lies far enough ahead of the destination, and decoding
  gives the source back.
\<close>

section \<open>The encoder on a byte memory\<close>

text \<open>The scan \<open>for (rle = 0; rle < max_rle && (i + rle) < size && source[i + rle] == c; rle++)\<close>.\<close>

function run_scan :: "u8 list \<Rightarrow> nat \<Rightarrow> nat \<Rightarrow> nat \<Rightarrow> u8 \<Rightarrow> nat \<Rightarrow> nat \<Rightarrow> nat" where
  "run_scan mem source sz_in i c max_rle rle =
     (if rle < max_rle \<and> i + rle < sz_in \<and> mem ! (source + i + rle) = c
      then run_scan mem source sz_in i c max_rle (Suc rle) else rle)"
  by pat_completeness auto
termination
  by (relation "measure (\<lambda>(mem, source, sz_in, i, c, max_rle, rle). max_rle - rle)") auto

declare run_scan.simps [simp del]

text \<open>
  One pass of the \<open>while\<close> loop: the memory, \<open>i\<close>, \<open>pk\<close> and \<open>sz\<close> after it. \<open>char\<close> is
  unsigned, so the header of a run is stored as \<open>256 - rle\<close> and the comparison with 127
  is on values 0 to 255.
\<close>

definition packbits_step :: "nat \<Rightarrow> nat \<Rightarrow> nat \<Rightarrow> u8 list \<times> nat \<times> nat \<times> nat \<Rightarrow> u8 list \<times> nat \<times> nat \<times> nat" where
  "packbits_step source dest sz_in st =
     (let (mem, i, pk, sz) = st;
          l = min 128 (sz_in - i);
          c = mem ! (source + i); i = i + 1;
          max_rle = l - 1;
          rle = run_scan mem source sz_in i c max_rle 0;
          (rle, sz, pk) = (if sz \<noteq> 0 \<and> rle < 2 then (0, sz, pk)
                           else if sz = 0 \<or> rle > 0 then (rle, pk, pk + 1)
                           else (rle, sz, pk));
          mem = mem[dest + pk := c]; pk = pk + 1
      in if rle > 0 then (mem[dest + sz := - word_of_nat rle], i + rle, pk, 0)
         else let hdr = word_of_nat (pk - sz - 2); mem = mem[dest + sz := hdr]
              in if hdr < 127 then (mem, i, pk, sz) else (mem, i, pk, 0))"

lemma run_scan_le: "rle \<le> max_rle \<Longrightarrow> run_scan mem source sz_in i c max_rle rle \<le> max_rle"
  by (induction mem source sz_in i c max_rle rle rule: run_scan.induct)
     (subst run_scan.simps, auto)

lemma packbits_step_i: "packbits_step source dest sz_in (mem, i, pk, sz) = (mem', i', pk', sz') \<Longrightarrow> i < i'"
  by (auto simp: packbits_step_def Let_def split: if_splits)

function packbits_loop :: "nat \<Rightarrow> nat \<Rightarrow> nat \<Rightarrow> u8 list \<times> nat \<times> nat \<times> nat \<Rightarrow> u8 list \<times> nat" where
  "packbits_loop source dest sz_in (mem, i, pk, sz) =
     (if i < sz_in then packbits_loop source dest sz_in (packbits_step source dest sz_in (mem, i, pk, sz))
      else (mem, pk))"
  by pat_completeness auto
termination
  by (relation "measure (\<lambda>(source, dest, sz_in, mem, i, pk, sz). sz_in - i)")
     (auto dest: packbits_step_i  split: prod.splits intro: diff_less_mono2)

declare packbits_loop.simps [simp del]

definition packbits :: "u8 list \<Rightarrow> nat \<Rightarrow> nat \<Rightarrow> nat \<Rightarrow> u8 list \<times> nat" where
  "packbits mem source dest sz_in = packbits_loop source dest sz_in (mem, 0, 0, 0)"

section \<open>The encoder on lists\<close>

definition run_len :: "u8 \<Rightarrow> nat \<Rightarrow> u8 list \<Rightarrow> nat" where
  "run_len c n s = length (takeWhile (\<lambda>x. x = c) (take n s))"

definition pack_step :: "u8 list \<times> nat \<times> u8 list \<Rightarrow> u8 list \<times> nat \<times> u8 list" where
  "pack_step st =
     (let (s, sz, out) = st; c = hd s; s = tl s;
          rle = run_len c (min 127 (length s)) s;
          (rle, sz, out) = (if sz \<noteq> 0 \<and> rle < 2 then (0, sz, out)
                            else (rle, length out, out @ [0]));
          out = out @ [c]
      in if rle > 0 then (drop rle s, 0, out[sz := - word_of_nat rle])
         else let hdr = word_of_nat (length out - sz - 2)
              in (s, if hdr < (127 :: u8) then sz else 0, out[sz := hdr]))"

lemma pack_step_shorter: "pack_step (c # s, sz, out) = (s', sz', out') \<Longrightarrow> length s' \<le> length s"
  by (auto simp: pack_step_def Let_def split: if_splits)

function pack_loop :: "u8 list \<times> nat \<times> u8 list \<Rightarrow> u8 list" where
  "pack_loop ([], sz, out) = out"
| "pack_loop (c # s, sz, out) = pack_loop (pack_step (c # s, sz, out))"
  by pat_completeness auto
termination
  by (relation "measure (\<lambda>(s, sz, out). length s)")
     (auto dest!: pack_step_shorter  simp: less_Suc_eq_le split: prod.splits)

declare pack_loop.simps(2) [simp del]

definition pack :: "u8 list \<Rightarrow> u8 list" where
  "pack s = pack_loop (s, 0, [])"

section \<open>The decoder\<close>

function unpackbits :: "u8 list \<Rightarrow> u8 list option" where
  "unpackbits [] = Some []"
| "unpackbits (h # r) =
     (if 0 \<le> sint h then
        (let n = unat h + 1
         in if length r < n then None
            else map_option (\<lambda>out. take n r @ out) (unpackbits (drop n r)))
      else
        (case r of [] \<Rightarrow> None
         | v # r' \<Rightarrow> map_option (\<lambda>out. replicate (nat (- sint h) + 1) v @ out) (unpackbits r')))"
  by pat_completeness auto
termination
  by (relation "measure length") auto

declare unpackbits.simps(2) [simp del]

lemma unpack_append: "unpackbits a = Some x \<Longrightarrow> unpackbits (a @ b) = map_option ((@) x) (unpackbits b)"
proof (induction a arbitrary: x rule: unpackbits.induct)
  case 1
  then show ?case by (simp add: map_option.identity [unfolded id_def])
next
  case (2 h r)
  show ?case
  proof (cases "0 \<le> sint h")
    case True
    let ?n = "unat h + 1"
    from "2.prems" True have len: "\<not> length r < ?n" and "\<exists>y. unpackbits (drop ?n r) = Some y \<and> x = take ?n r @ y"
      by (auto simp: unpackbits.simps Let_def split: if_splits)
    then obtain y where y: "unpackbits (drop ?n r) = Some y" "x = take ?n r @ y" by blast
    from "2.IH"(1) [OF True refl len y(1)]
    show ?thesis using True len y
      by (simp add: unpackbits.simps Let_def option.map_comp comp_def)
  next
    case False
    with "2.prems" obtain v r' y where r: "r = v # r'" and y: "unpackbits r' = Some y"
      "x = replicate (nat (- sint h) + 1) v @ y"
      by (auto simp: unpackbits.simps split: list.splits)
    from "2.IH"(2) [OF False r y(1)]
    show ?thesis using False r y
      by (simp add: unpackbits.simps Let_def option.map_comp comp_def)
  qed
qed

lemma unpack_literals:
  assumes "lits \<noteq> []" "length lits \<le> 128"
  shows "unpackbits (word_of_nat (length lits - 1) # lits) = Some lits"
proof -
  let ?h = "word_of_nat (length lits - 1) :: u8"
  have u: "unat ?h = length lits - 1" using assms by (simp add: unat_of_nat take_bit_nat_eq_self)
  moreover have "0 \<le> sint ?h"
  proof -
    have "sint ?h = int (length lits - 1)"
      using assms by (simp add: sint_sbintrunc' [of "int (length lits - 1)", simplified] signed_take_bit_int_eq_self)
    then show ?thesis by simp
  qed
  ultimately show ?thesis using assms by (simp add: unpackbits.simps)
qed

lemma unpack_run:
  assumes "0 < n" "n \<le> 127"
  shows "unpackbits [- word_of_nat n, c] = Some (replicate (n + 1) c)"
proof -
  have "sint (- word_of_nat n :: u8) = - int n"
  proof -
    have "(- word_of_nat n :: u8) = word_of_int (- int n)" by simp
    then show ?thesis using assms by (simp only: sint_sbintrunc') (simp add: signed_take_bit_int_eq_self)
  qed
  then show ?thesis using assms by (simp add: unpackbits.simps)
qed


section \<open>Decoding the encoder's output\<close>

text \<open>
  What the output so far decodes to, after the input \<open>done\<close>: complete blocks when \<open>sz\<close>
  is 0, and otherwise complete blocks followed by an open literal block whose header is
  at \<open>sz\<close>.
\<close>

definition pack_inv :: "nat \<Rightarrow> u8 list \<Rightarrow> u8 list \<Rightarrow> bool" where
  "pack_inv sz out done \<longleftrightarrow>
     (if sz = 0 then unpackbits out = Some done
      else \<exists>D x lits. out = D @ word_of_nat (length lits - 1) # lits \<and> length D = sz \<and>
             unpackbits D = Some x \<and> done = x @ lits \<and> lits \<noteq> [] \<and> length lits < 128)"

lemma unpack_snoc_literals:
  "unpackbits D = Some x \<Longrightarrow> lits \<noteq> [] \<Longrightarrow> length lits \<le> 128
    \<Longrightarrow> unpackbits (D @ word_of_nat (length lits - 1) # lits) = Some (x @ lits)"
  using unpack_append [of D x] unpack_literals [of lits] by simp

lemma pack_inv_closed: "pack_inv sz out done \<Longrightarrow> unpackbits out = Some done"
  using unpack_snoc_literals by (auto simp: pack_inv_def split: if_splits)

lemma run_len_le: "run_len c n s \<le> n" "run_len c n s \<le> length s"
proof -
  have "run_len c n s \<le> length (take n s)" unfolding run_len_def by (rule length_takeWhile_le)
  then show "run_len c n s \<le> n" "run_len c n s \<le> length s" by simp_all
qed

lemma run_len_replicate: "take (run_len c n s) s = replicate (run_len c n s) c"
proof -
  have "takeWhile (\<lambda>x. x = c) (take n s) = replicate (run_len c n s) c"
    unfolding run_len_def by (rule replicate_length_same [symmetric]) (auto dest: set_takeWhileD)
  moreover have "take (run_len c n s) s = takeWhile (\<lambda>x. x = c) (take n s)"
    unfolding run_len_def by (metis length_takeWhile_le length_take min.bounded_iff take_take
        takeWhile_eq_take min.absorb1)
  ultimately show ?thesis by simp
qed

text \<open>The three outcomes of a pass: a longer literal block, a run, a new literal block.\<close>

lemma pack_step_literal:
  assumes "sz \<noteq> 0" "run_len c (min 127 (length s)) s < 2"
  shows "pack_step (c # s, sz, out) =
    (let hdr = word_of_nat (length out + 1 - sz - 2)
     in (s, if hdr < (127 :: u8) then sz else 0, (out @ [c])[sz := hdr]))"
  using assms by (simp add: pack_step_def Let_def)

lemma pack_step_run:
  assumes "\<not> (sz \<noteq> 0 \<and> run_len c (min 127 (length s)) s < 2)" "0 < run_len c (min 127 (length s)) s"
  shows "pack_step (c # s, sz, out) =
    (drop (run_len c (min 127 (length s)) s) s, 0,
     out @ [- word_of_nat (run_len c (min 127 (length s)) s), c])"
  using assms by (simp add: pack_step_def Let_def del: de_Morgan_conj)

lemma pack_step_fresh:
  assumes "\<not> (sz \<noteq> 0 \<and> run_len c (min 127 (length s)) s < 2)" "run_len c (min 127 (length s)) s = 0"
  shows "pack_step (c # s, sz, out) = (s, length out, out @ [0, c])"
  using assms by (simp add: pack_step_def Let_def)

lemma unat_u8: "n < 256 \<Longrightarrow> unat (word_of_nat n :: u8) = n"
  by (simp add: unat_of_nat take_bit_nat_eq_self)

lemma pack_step_inv:
  assumes inv: "pack_inv sz out done" and step: "pack_step (c # s, sz, out) = (s', sz', out')"
  shows "\<exists>p. c # s = p @ s' \<and> pack_inv sz' out' (done @ p)"
proof -
  let ?r = "run_len c (min 127 (length s)) s"
  note closed = pack_inv_closed [OF inv]
  consider (lit) "sz \<noteq> 0" "?r < 2" | (run) "\<not> (sz \<noteq> 0 \<and> ?r < 2)" "0 < ?r"
    | (fresh) "\<not> (sz \<noteq> 0 \<and> ?r < 2)" "?r = 0" by linarith
  then show ?thesis
  proof cases
    case lit
    from inv lit obtain D x lits where d: "out = D @ word_of_nat (length lits - 1) # lits"
      "length D = sz" "unpackbits D = Some x" "done = x @ lits" "lits \<noteq> []" "length lits < 128"
      by (auto simp: pack_inv_def)
    let ?h = "word_of_nat (length lits) :: u8"
    have "s' = s" "sz' = (if ?h < 127 then sz else 0)" "out' = D @ ?h # lits @ [c]"
      using step pack_step_literal [OF lit, of out] d(1,2) by (auto simp: Let_def)
    moreover have "?h < 127 \<longleftrightarrow> length lits < 127"
      using d(6) by (simp add: word_less_nat_alt unat_u8)
    moreover have "unpackbits (D @ ?h # lits @ [c]) = Some (done @ [c])"
      using unpack_snoc_literals [OF d(3), of "lits @ [c]"] d by simp
    moreover have "pack_inv sz (D @ ?h # lits @ [c]) (done @ [c])" if "length lits < 127"
    proof -
      have "D @ ?h # lits @ [c] = D @ word_of_nat (length (lits @ [c]) - 1) # (lits @ [c]) \<and>
        length D = sz \<and> unpackbits D = Some x \<and> done @ [c] = x @ (lits @ [c]) \<and>
        lits @ [c] \<noteq> [] \<and> length (lits @ [c]) < 128"
        using d that by simp
      with lit(1) show ?thesis unfolding pack_inv_def by (simp only: if_False) blast
    qed
    ultimately show ?thesis
      by (intro exI [of _ "[c]"]) (auto simp: pack_inv_def)
  next
    case run
    have s: "s = replicate ?r c @ s'" and sz': "sz' = 0" and out': "out' = out @ [- word_of_nat ?r, c]"
      using step pack_step_run [OF run, of out] run_len_replicate [of c _ s]
        append_take_drop_id [of ?r s] by auto
    have r127: "?r \<le> 127" using run_len_le(1) [of c "min 127 (length s)" s] by simp
    have "unpackbits out' = Some (done @ replicate (?r + 1) c)"
      using unpack_append [OF closed] unpack_run [OF run(2) r127, of c]
      by (simp add: out')
    then show ?thesis
      using s sz' by (intro exI [of _ "replicate (?r + 1) c"]) (auto simp: pack_inv_def)
  next
    case fresh
    have e: "s' = s" "sz' = length out" "out' = out @ [0, c]"
      using step pack_step_fresh [OF fresh, of out] by auto
    have "unpackbits out' = Some (done @ [c])"
      using unpack_append [OF closed] unpack_literals [of "[c]"] by (simp add: e)
    moreover have "\<exists>D x lits. out @ [0, c] = D @ word_of_nat (length lits - 1) # lits \<and> length D = length out \<and>
        unpackbits D = Some x \<and> done @ [c] = x @ lits \<and> lits \<noteq> [] \<and> length lits < 128"
      by (rule exI [of _ out], rule exI [of _ "done"], rule exI [of _ "[c]"]) (simp add: closed)
    ultimately show ?thesis
      using e by (intro exI [of _ "[c]"], cases "out = []") (simp_all add: pack_inv_def)
  qed
qed

lemma unpack_pack_loop: "pack_inv sz out done \<Longrightarrow> unpackbits (pack_loop (s, sz, out)) = Some (done @ s)"
proof (induction "length s" arbitrary: s sz out "done" rule: less_induct)
  case less
  show ?case
  proof (cases s)
    case Nil
    then show ?thesis using pack_inv_closed [OF less.prems] by simp
  next
    case (Cons c r)
    obtain s' sz' out' where st: "pack_step (c # r, sz, out) = (s', sz', out')" by (metis prod_cases3)
    from pack_step_inv [OF less.prems st] obtain p where "c # r = p @ s'" "pack_inv sz' out' (done @ p)"
      by blast
    moreover from pack_step_shorter [OF st] have "length s' < length s" using Cons by simp
    ultimately have "unpackbits (pack_loop (s', sz', out')) = Some (done @ s)"
      using less.hyps [of s' sz' out' "done @ p"] Cons by simp
    moreover have "pack_loop (s, sz, out) = pack_loop (s', sz', out')"
      by (simp add: Cons pack_loop.simps st)
    ultimately show ?thesis by simp
  qed
qed

lemma unpack_pack: "unpackbits (pack s) = Some s"
  unfolding pack_def using unpack_pack_loop [of 0 "[]" "[]" s] by (simp add: pack_inv_def)

section \<open>Size of the output\<close>

text \<open>Worst-case size after \<open>i\<close> input bytes: every literal block pays for its header with its 128 bytes.\<close>

definition pack_size :: "nat \<Rightarrow> nat \<Rightarrow> nat \<Rightarrow> bool" where
  "pack_size i pk sz \<longleftrightarrow>
     (if sz = 0 then 128 * pk \<le> 129 * i + 127
      else sz + 2 \<le> pk \<and> pk \<le> sz + 128 \<and> 128 * pk + (pk - sz - 1) \<le> 129 * i + 255)"

lemma pack_size_bound: "pack_size i pk sz \<Longrightarrow> 128 * pk \<le> 129 * i + 254"
  by (auto simp: pack_size_def split: if_splits)

lemma pack_step_size:
  assumes inv: "pack_size i (length out) sz" and step: "pack_step (c # s, sz, out) = (s', sz', out')"
  shows "pack_size (i + (length (c # s) - length s')) (length out') sz' \<and> length s' \<le> length s"
proof -
  let ?r = "run_len c (min 127 (length s)) s"
  consider (lit) "sz \<noteq> 0" "?r < 2" | (run) "\<not> (sz \<noteq> 0 \<and> ?r < 2)" "0 < ?r"
    | (fresh) "\<not> (sz \<noteq> 0 \<and> ?r < 2)" "?r = 0" by linarith
  then show ?thesis
  proof cases
    case lit
    have k: "sz + 2 \<le> length out" "length out \<le> sz + 128" using inv lit by (auto simp: pack_size_def)
    let ?h = "word_of_nat (length out + 1 - sz - 2) :: u8"
    have "?h < 127 \<longleftrightarrow> length out + 1 - sz - 2 < 127"
    proof -
      have "unat ?h = length out + 1 - sz - 2" by (rule unat_u8) (use k in simp)
      then show ?thesis by (simp only: word_less_nat_alt) simp
    qed
    then show ?thesis
      using step pack_step_literal [OF lit, of out] inv lit k
      by (auto simp: Let_def pack_size_def split: if_splits)
  next
    case run
    then show ?thesis
      using step pack_step_run [OF run, of out] inv run_len_le(2) [of c "min 127 (length s)" s]
      by (auto simp: pack_size_def split: if_splits)
  next
    case fresh
    then show ?thesis
      using step pack_step_fresh [OF fresh, of out] inv
      by (auto simp: pack_size_def split: if_splits)
  qed
qed


section \<open>The memory encoder refines the list encoder\<close>

text \<open>The bytes from \<open>at\<close> on are \<open>bs\<close>.\<close>

definition holds :: "u8 list \<Rightarrow> nat \<Rightarrow> u8 list \<Rightarrow> bool" where
  "holds mem at bs \<longleftrightarrow> at + length bs \<le> length mem \<and> (\<forall>k < length bs. mem ! (at + k) = bs ! k)"

lemma holds_take: "holds mem at bs \<Longrightarrow> take (length bs) (drop at mem) = bs"
  by (intro nth_equalityI) (auto simp: holds_def)

lemma holds_slice: "at + n \<le> length mem \<Longrightarrow> holds mem at (take n (drop at mem))"
  by (auto simp: holds_def)

lemma holds_Cons: "holds mem at (c # s) \<longleftrightarrow> at < length mem \<and> mem ! at = c \<and> holds mem (Suc at) s"
  by (auto simp: holds_def nth_Cons less_Suc_eq_0_disj split: nat.splits)

lemma holds_drop: "holds mem at s \<Longrightarrow> n \<le> length s \<Longrightarrow> holds mem (at + n) (drop n s)"
  by (auto simp: holds_def add.assoc)

lemma holds_below: "holds mem at s \<Longrightarrow> k < at \<Longrightarrow> holds (mem[k := v]) at s"
  by (auto simp: holds_def)

lemma holds_write: "holds mem at out \<Longrightarrow> k < length out \<Longrightarrow> holds (mem[at + k := v]) at (out[k := v])"
  by (auto simp: holds_def nth_list_update)

lemma holds_snoc:
  "holds mem at out \<Longrightarrow> at + length out < length mem \<Longrightarrow> holds (mem[at + length out := c]) at (out @ [c])"
  by (auto simp: holds_def nth_list_update nth_append)

lemma holds_two:
  "holds mem at out \<Longrightarrow> at + length out + 1 < length mem
    \<Longrightarrow> holds (mem[Suc (at + length out) := c, at + length out := h]) at (out @ [h, c])"
  by (auto simp: holds_def nth_list_update nth_append nth_Cons split: nat.splits)

lemma run_len_Suc: "run_len c (Suc k) (x # xs) = (if x = c then Suc (run_len c k xs) else 0)"
  by (simp add: run_len_def)

lemma run_scan_eq:
  assumes "holds mem (source + i) s" "length s = n - i" "m \<le> length s" "rle \<le> m"
  shows "run_scan mem source n i c m rle = rle + run_len c (m - rle) (drop rle s)"
  using assms(4)
proof (induction "m - rle" arbitrary: rle)
  case 0
  then show ?case by (subst run_scan.simps) (simp add: run_len_def)
next
  case (Suc k)
  then have lt: "rle < m" "rle < length s" "i + rle < n" using assms by auto
  have at: "mem ! (source + i + rle) = s ! rle" using assms(1) lt(2) by (auto simp: holds_def)
  have "m - rle = Suc (m - Suc rle)" "drop rle s = s ! rle # drop (Suc rle) s"
    using lt by (simp_all add: Cons_nth_drop_Suc)
  then have "run_len c (m - rle) (drop rle s) =
      (if s ! rle = c then Suc (run_len c (m - Suc rle) (drop (Suc rle) s)) else 0)"
    by (simp add: run_len_Suc)
  then show ?case
    using Suc.hyps(1) [of "Suc rle"] Suc.hyps(2) lt at by (subst run_scan.simps) simp
qed

text \<open>The states the two encoders go through together, \<open>gap\<close> bytes between the buffers.\<close>

definition sim :: "nat \<Rightarrow> nat \<Rightarrow> nat \<Rightarrow> u8 list \<times> nat \<times> nat \<times> nat \<Rightarrow> u8 list \<times> nat \<times> u8 list \<Rightarrow> bool" where
  "sim source dest n cst ast \<longleftrightarrow>
     (case (cst, ast) of ((mem, i, pk, sz), (s, sz', out)) \<Rightarrow>
        sz' = sz \<and> pk = length out \<and> i + length s = n \<and> source + n \<le> length mem \<and>
        holds mem (source + i) s \<and> holds mem dest out \<and> pack_size i pk sz)"

lemma packbits_step_sim:
  assumes sim: "sim source dest n (mem, i, pk, sz) (c # s, sz, out)"
    and gap: "dest + gap = source" "n + 254 \<le> 128 * gap"
  shows "sim source dest n (packbits_step source dest n (mem, i, pk, sz)) (pack_step (c # s, sz, out))"
proof -
  from sim have pk: "pk = length out" and n: "i + Suc (length s) = n" and len: "source + n \<le> length mem"
    and src: "mem ! (source + i) = c" "holds mem (source + (i + 1)) s" and out: "holds mem dest out"
    and size: "pack_size i (length out) sz"
    by (auto simp: sim_def holds_Cons)
  let ?r = "run_len c (min 127 (length s)) s"
  obtain s' sz' out' where st: "pack_step (c # s, sz, out) = (s', sz', out')" by (metis prod_cases3)
  from pack_step_size [OF size st]
  have size': "pack_size (n - length s') (length out') sz'" and le: "length s' \<le> length s"
    using n by (auto simp: add_diff_assoc)
  have room: "length out' \<le> gap + (n - length s')"
    using pack_size_bound [OF size'] gap(2) by linarith
  have m: "min 128 (n - i) - 1 = min 127 (length s)" using n by auto
  have scan: "run_scan mem source n (i + 1) c (min 127 (length s)) 0 = ?r"
  proof -
    have ls: "length s = n - (i + 1)" using n by simp
    show ?thesis using run_scan_eq [OF src(2) ls, of "min 127 (length s)" 0 c] by simp
  qed
  have step: "packbits_step source dest n (mem, i, pk, sz) =
     (let (rle, sz, pk) = (if sz \<noteq> 0 \<and> ?r < 2 then (0, sz, pk) else (?r, pk, pk + 1));
          mem = mem[dest + pk := c]; pk = pk + 1
      in if rle > 0 then (mem[dest + sz := - word_of_nat rle], i + 1 + rle, pk, 0)
         else let hdr = word_of_nat (pk - sz - 2); mem = mem[dest + sz := hdr]
              in if hdr < 127 then (mem, i + 1, pk, sz) else (mem, i + 1, pk, 0))"
    unfolding packbits_step_def Let_def prod.case by (simp only: m src(1) scan) auto
  consider (lit) "sz \<noteq> 0" "?r < 2" | (run) "\<not> (sz \<noteq> 0 \<and> ?r < 2)" "0 < ?r"
    | (fresh) "\<not> (sz \<noteq> 0 \<and> ?r < 2)" "?r = 0" by linarith
  then show ?thesis
  proof cases
    case lit
    let ?h = "word_of_nat (length out + 1 - sz - 2) :: u8"
    have a: "s' = s" "sz' = (if ?h < 127 then sz else 0)" "out' = (out @ [c])[sz := ?h]"
      using st pack_step_literal [OF lit, of out] by (auto simp: Let_def)
    have b: "packbits_step source dest n (mem, i, pk, sz) =
        (mem[dest + length out := c, dest + sz := ?h], i + 1, Suc (length out), sz')"
      using step lit by (simp add: Let_def a(2) pk)
    have szl: "sz < length (out @ [c])" using size lit(1) by (auto simp: pack_size_def)
    have r: "length out + 1 \<le> gap + (i + 1)" using room a n by auto
    have "holds (mem[dest + length out := c, dest + sz := ?h]) dest out'"
      unfolding a(3) using r gap(1) n len szl by (intro holds_write holds_snoc out) auto
    moreover have "holds (mem[dest + length out := c, dest + sz := ?h]) (source + (i + 1)) s"
      using r gap(1) szl by (intro holds_below src(2)) auto
    ultimately show ?thesis
      unfolding b st sim_def using a size' n len by (auto simp: pk)
  next
    case run
    have a: "s' = drop ?r s" "sz' = 0" "out' = out @ [- word_of_nat ?r, c]"
      using st pack_step_run [OF run, of out] by auto
    have b: "packbits_step source dest n (mem, i, pk, sz) =
        (mem[Suc (dest + length out) := c, dest + length out := - word_of_nat ?r], i + 1 + ?r,
         length out + 2, 0)"
      using step run by (simp add: Let_def pk del: de_Morgan_conj)
    have r: "length out + 2 \<le> gap + (i + 1 + ?r)" and rl: "?r \<le> length s"
      using room a n run_len_le(2) [of c "min 127 (length s)" s] by auto
    have "holds (mem[Suc (dest + length out) := c, dest + length out := - word_of_nat ?r]) dest out'"
      unfolding a(3) using r gap(1) n len rl by (intro holds_two out) auto
    moreover have "holds (mem[Suc (dest + length out) := c, dest + length out := - word_of_nat ?r])
        (source + (i + 1) + ?r) s'"
      unfolding a(1) using r gap(1) rl by (intro holds_below holds_drop src(2)) auto
    ultimately show ?thesis
      unfolding b st sim_def using a size' n len rl by (auto simp: add.assoc)
  next
    case fresh
    have a: "s' = s" "sz' = length out" "out' = out @ [0, c]"
      using st pack_step_fresh [OF fresh, of out] by auto
    have b: "packbits_step source dest n (mem, i, pk, sz) =
        (mem[Suc (dest + length out) := c, dest + length out := 0], i + 1, length out + 2, length out)"
      using step fresh by (simp add: Let_def pk del: de_Morgan_conj)
    have r: "length out + 2 \<le> gap + (i + 1)" using room a n by auto
    have "holds (mem[Suc (dest + length out) := c, dest + length out := 0]) dest out'"
      unfolding a(3) using r gap(1) n len by (intro holds_two out) auto
    moreover have "holds (mem[Suc (dest + length out) := c, dest + length out := 0]) (source + (i + 1)) s"
      using r gap(1) by (intro holds_below src(2)) auto
    ultimately show ?thesis
      unfolding b st sim_def using a size' n len by auto
  qed
qed

lemma packbits_loop_sim:
  assumes "sim source dest n (mem, i, pk, sz) (s, sz, out)" "dest + gap = source" "n + 254 \<le> 128 * gap"
  shows "\<exists>mem' pk'. packbits_loop source dest n (mem, i, pk, sz) = (mem', pk') \<and>
    pk' = length (pack_loop (s, sz, out)) \<and> holds mem' dest (pack_loop (s, sz, out)) \<and> 128 * pk' \<le> 129 * n + 254"
  using assms(1)
proof (induction "n - i" arbitrary: mem i pk sz s out rule: less_induct)
  case less
  show ?case
  proof (cases s)
    case Nil
    with less.prems show ?thesis
      using pack_size_bound by (auto simp: sim_def packbits_loop.simps)
  next
    case (Cons c r)
    then have i: "i < n" using less.prems by (auto simp: sim_def)
    obtain mem' i' pk' sz' where c: "packbits_step source dest n (mem, i, pk, sz) = (mem', i', pk', sz')"
      by (metis prod_cases4)
    obtain s' out' where a: "pack_step (c # r, sz, out) = (s', sz', out')"
      using packbits_step_sim [OF less.prems [unfolded Cons] assms(2,3)] c
      by (cases "pack_step (c # r, sz, out)") (auto simp: sim_def)
    have "sim source dest n (mem', i', pk', sz') (s', sz', out')"
      using packbits_step_sim [OF less.prems [unfolded Cons] assms(2,3)] a c by simp
    moreover have "n - i' < n - i" using packbits_step_i [OF c] i by simp
    ultimately obtain mem'' pk'' where "packbits_loop source dest n (mem', i', pk', sz') = (mem'', pk'')"
      "pk'' = length (pack_loop (s', sz', out'))" "holds mem'' dest (pack_loop (s', sz', out'))"
      "128 * pk'' \<le> 129 * n + 254"
      using less.hyps by blast
    then show ?thesis using i c a Cons by (simp add: packbits_loop.simps pack_loop.simps)
  qed
qed

section \<open>Properties\<close>

text \<open>
  C24 : compressing \<open>n\<close> bytes that lie \<open>gap\<close> bytes ahead of the destination, in one
  memory and with overlap allowed as long as \<open>n + 254 \<le> 128 * gap\<close>, leaves at the
  destination a stream that decodes to those bytes; its length is the returned one and
  exceeds \<open>n\<close> by at most \<open>(n + 254) / 128\<close>.
\<close>

theorem packbits_roundtrip:
  assumes "dest + gap = source" "n + 254 \<le> 128 * gap" "source + n \<le> length mem"
  shows "\<exists>mem' pk. packbits mem source dest n = (mem', pk) \<and>
    unpackbits (take pk (drop dest mem')) = Some (take n (drop source mem)) \<and>
    128 * pk \<le> 129 * n + 254"
proof -
  let ?s = "take n (drop source mem)"
  have "sim source dest n (mem, 0, 0, 0) (?s, 0, [])"
    using assms holds_slice [of source n mem] by (auto simp: sim_def holds_def pack_size_def)
  from packbits_loop_sim [OF this assms(1,2)] obtain mem' pk where
    r: "packbits mem source dest n = (mem', pk)" "pk = length (pack ?s)" "holds mem' dest (pack ?s)"
      "128 * pk \<le> 129 * n + 254"
    unfolding packbits_def pack_def by blast
  have "take pk (drop dest mem') = pack ?s" using holds_take [OF r(3)] r(2) by simp
  then show ?thesis using r unpack_pack [of ?s] by auto
qed

theorem packbits_roundtrip_witness:
  "\<exists>mem' pk. packbits ([0, 0, 0] @ [7, 7, 7, 7, 1, 2]) 3 0 6 = (mem', pk) \<and>
    unpackbits (take pk (drop 0 mem')) = Some [7, 7, 7, 7, 1, 2] \<and> 128 * pk \<le> 129 * 6 + 254"
  using packbits_roundtrip [of 0 3 3 6 "[0, 0, 0] @ [7, 7, 7, 7, 1, 2]"] by simp

lemma packbits_example:
  "packbits ([0, 0, 0] @ [7, 7, 7, 7, 1, 2]) 3 0 6 = ([253, 7, 1, 1, 2, 7, 7, 1, 2], 5)"
  by code_simp

end
