(* ===== verification/Chprintf.thy ===== *)
theory Chprintf
  imports Common_Text
begin

text \<open>
  The formatter of \<open>src/src/sys/chprintf.c\<close>: integer and frequency conversion, the
  \<open>chvprintf\<close> engine and the two buffer front ends. Output is the list of characters
  handed to \<open>streamPut\<close>; the returned count is its length. A read behind the end of the
  format string or of the digit buffer, and an argument of the wrong kind, are \<open>None\<close>.
  The conversions \<open>f\<close> and \<open>F\<close> work on \<open>float\<close>; they are not modelled and give \<open>None\<close>.
\<close>

section \<open>Integers\<close>

definition digit_char :: "u8 \<Rightarrow> char" where
  "digit_char c = char_of (unat (c + (if c > 9 then 65 - 10 else 48)))"

text \<open>
  \<open>q\<close> collects what \<open>*--q = \<dots>\<close> writes. A radix below 2 does not occur (the callers pass
  8, 10 or 16); the guard makes the function total.
\<close>

function lts_loop :: "u32 \<Rightarrow> nat \<Rightarrow> u32 \<Rightarrow> string \<Rightarrow> string" where
  "lts_loop radix precision num q =
     (if radix < 2 then q else
      let c = ucast (num mod radix) :: u8;
          num = num div radix;
          q = digit_char c # q;
          go = (precision \<noteq> 0 \<and> precision - 1 \<noteq> 0) \<or> num \<noteq> 0;
          precision = precision - 1
      in if go then lts_loop radix precision num q else q)"
  by pat_completeness auto
termination
proof (relation "measure (\<lambda>(radix, precision, num, q). precision + unat num)", goal_cases)
  case 1
  then show ?case by simp
next
  case (2 radix precision num c x q' go y)
  have r: "2 \<le> unat radix" using "2"(1) by (simp add: word_less_nat_alt)
  have d: "unat (num div radix) = unat num div unat radix" by (simp add: unat_div)
  show ?case
  proof (cases "num div radix = 0")
    case True
    then show ?thesis using "2" by auto
  next
    case False
    then have "unat num \<noteq> 0" using d by (metis div_0 unat_0 word_unat_eq_iff)
    then have "unat num div unat radix < unat num" using r by simp
    then show ?thesis using "2" d by auto
  qed
qed

declare lts_loop.simps [simp del]

definition long_to_string_with_divisor :: "string \<Rightarrow> u32 \<Rightarrow> u32 \<Rightarrow> nat \<Rightarrow> string" where
  "long_to_string_with_divisor p num radix precision = p @ lts_loop radix precision num []"

section \<open>Frequencies\<close>

text \<open>\<open>while (c >= 10) { freq++; c -= 10; }\<close>\<close>

function div10_fix :: "u32 \<Rightarrow> u32 \<Rightarrow> u32 \<times> u32" where
  "div10_fix freq c = (if c \<ge> 10 then div10_fix (freq + 1) (c - 10) else (freq, c))"
  by pat_completeness auto
termination
  by (relation "measure (\<lambda>(freq, c). unat c)") (auto simp: word_le_nat_alt unat_sub_if' word_less_nat_alt)

declare div10_fix.simps [simp del]

text \<open>Quotient and remainder by 10: the M4 build divides, the M0 build shifts and corrects.\<close>

definition div10_shift :: "u32 \<Rightarrow> u32 \<times> u32" where
  "div10_shift freq =
     (let c = freq;
          freq = drop_bit 1 freq;
          freq = freq + drop_bit 1 freq;
          freq = freq + drop_bit 4 freq;
          freq = freq + drop_bit 8 freq;
          freq = freq + drop_bit 16 freq;
          freq = drop_bit 3 freq;
          c = c - freq * 10
      in div10_fix freq c)"

definition div10 :: "bool \<Rightarrow> u32 \<Rightarrow> u32 \<times> u32" where
  "div10 cm4 freq = (if cm4 then (freq div 10, freq mod 10) else div10_shift freq)"

lemma div10_fix_eq:
  "unat c + 10 * unat freq < 2 ^ 32 \<Longrightarrow> div10_fix freq c = (freq + c div 10, c mod 10)"
proof (induction freq c rule: div10_fix.induct)
  case (1 freq c)
  show ?case
  proof (cases "c \<ge> 10")
    case True
    then have u: "unat c \<ge> 10" "unat (c - 10) = unat c - 10"
      by (simp_all add: word_le_nat_alt unat_sub_if')
    have f: "unat (freq + 1) = unat freq + 1" using "1.prems" u by (simp add: unat_plus_if')
    have IH: "div10_fix (freq + 1) (c - 10) = (freq + 1 + (c - 10) div 10, (c - 10) mod 10)"
      using "1.prems" u f by (intro "1.IH" True) simp
    have q: "unat c div 10 = Suc ((unat c - 10) div 10)" and r: "unat c mod 10 = (unat c - 10) mod 10"
      using u(1) by (rule le_div_geq [OF zero_less_numeral], rule le_mod_geq)
    have "unat ((c - 10) div 10 + 1) = unat (c div 10)"
    proof -
      have "unat ((c - 10) div 10) = (unat c - 10) div 10" by (simp add: unat_div u)
      moreover have "(unat c - 10) div 10 + 1 < 2 ^ 32" using "1.prems" u(1) by simp
      ultimately show ?thesis using q by (simp add: unat_plus_if' unat_div)
    qed
    moreover have "unat ((c - 10) mod 10) = unat (c mod 10)" using r by (simp add: unat_mod u)
    ultimately have "(c - 10) div 10 + 1 = c div 10" "(c - 10) mod 10 = c mod 10"
      by (simp_all only: word_unat_eq_iff)
    then show ?thesis using IH True by (subst div10_fix.simps) (simp add: algebra_simps)
  next
    case False
    then have "unat c < 10" by (simp add: word_le_nat_alt)
    then have "c div 10 = 0" "c mod 10 = c" by (simp_all add: word_unat_eq_iff unat_div unat_mod)
    then show ?thesis using False by (subst div10_fix.simps) simp
  qed
qed

lemma unat_drop_bit: "unat (drop_bit n w) = unat w div 2 ^ n"
  by (metis drop_bit_eq_div unat_drop_bit_eq)

lemma shift_quotient:
  fixes f :: nat
  defines "a1 \<equiv> f div 2" defines "a2 \<equiv> a1 + a1 div 2" defines "a3 \<equiv> a2 + a2 div 16"
  defines "a4 \<equiv> a3 + a3 div 256" defines "a5 \<equiv> a4 + a4 div 65536"
  shows "a5 \<le> f" and "10 * (a5 div 8) \<le> f" and "a2 \<le> f" and "a3 \<le> f" and "a4 \<le> f"
proof -
  have d: "n * (x + x div n) \<le> m * x" if "m = Suc n" for m n x :: nat
    using times_div_less_eq_dividend [of n x] that by (simp add: distrib_left)
  have 1: "2 * a1 \<le> f" unfolding a1_def by (rule times_div_less_eq_dividend)
  have 2: "2 * a2 \<le> 3 * a1" unfolding a2_def by (rule d) simp
  have 3: "16 * a3 \<le> 17 * a2" unfolding a3_def by (rule d) simp
  have 4: "256 * a4 \<le> 257 * a3" unfolding a4_def by (rule d) simp
  have 5: "65536 * a5 \<le> 65537 * a4" unfolding a5_def by (rule d) simp
  define q where "q = a5 div 8"
  have 6: "8 * q \<le> a5" unfolding q_def by (rule times_div_less_eq_dividend)
  have b2: "4 * a2 \<le> 3 * f" using "1" "2" by simp
  have b3: "64 * a3 \<le> 51 * f" using "3" b2 by simp
  have b4: "16384 * a4 \<le> 13107 * f" using "4" b3 by simp
  have b5: "1073741824 * a5 \<le> 858993459 * f" using "5" b4 by simp
  have "a5 \<le> f \<and> 10 * q \<le> f \<and> a2 \<le> f \<and> a3 \<le> f \<and> a4 \<le> f" using b2 b3 b4 b5 "6" by simp
  then show "a5 \<le> f" "10 * (a5 div 8) \<le> f" "a2 \<le> f" "a3 \<le> f" "a4 \<le> f" by (simp_all add: q_def)
qed

lemma div10_eq: "div10 cm4 f = (f div 10, f mod 10)"
proof -
  define a1 where "a1 = drop_bit 1 f"
  define a2 where "a2 = a1 + drop_bit 1 a1"
  define a3 where "a3 = a2 + drop_bit 4 a2"
  define a4 where "a4 = a3 + drop_bit 8 a3"
  define a5 where "a5 = a4 + drop_bit 16 a4"
  define q where "q = drop_bit 3 a5"
  note le = shift_quotient [of "unat f"]
  have f: "unat f < 2 ^ 32" using u32_bound [of f] by simp
  have u1: "unat a1 = unat f div 2" by (simp add: a1_def unat_drop_bit)
  have u2: "unat a2 = unat f div 2 + unat f div 2 div 2"
    using le(3) f by (simp add: a2_def unat_plus_if' unat_drop_bit u1)
  have u3: "unat a3 = unat a2 + unat a2 div 16"
    using le(4) f by (simp add: a3_def unat_plus_if' unat_drop_bit u2)
  have u4: "unat a4 = unat a3 + unat a3 div 256"
    using le(5) f by (simp add: a4_def unat_plus_if' unat_drop_bit u2 u3)
  have u5: "unat a5 = unat a4 + unat a4 div 65536"
    using le(1) f by (simp add: a5_def unat_plus_if' unat_drop_bit u2 u3 u4)
  have uq: "unat q = unat a5 div 8" by (simp add: q_def unat_drop_bit)
  have b: "10 * unat q \<le> unat f" unfolding uq u5 u4 u3 u2 by (rule le(2))
  have m: "unat (q * 10) = 10 * unat q" using b f by (simp add: unat_word_ariths)
  have c: "unat (f - q * 10) = unat f - 10 * unat q" using b by (simp add: unat_sub_if' m)
  have fx: "div10_fix q (f - q * 10) = (q + (f - q * 10) div 10, (f - q * 10) mod 10)"
    using b f c by (intro div10_fix_eq) simp
  have dv: "(x - 10 * y) div 10 = x div 10 - y" "(x - 10 * y) mod 10 = x mod 10" if le: "10 * y \<le> x" for x y :: nat
  proof -
    from le obtain k where k: "x = 10 * y + k" using le_Suc_ex by blast
    show "(x - 10 * y) div 10 = x div 10 - y" "(x - 10 * y) mod 10 = x mod 10" by (simp_all add: k)
  qed
  have le': "unat q \<le> unat f div 10" using b by (simp add: less_eq_div_iff_mult_less_eq mult.commute)
  have "unat f div 10 < 2 ^ 32" using f by simp
  then have "unat (q + (f - q * 10) div 10) = unat (f div 10)"
    using le' by (simp add: unat_plus_if' unat_div c dv [OF b])
  moreover have "unat ((f - q * 10) mod 10) = unat (f mod 10)" by (simp add: unat_mod c dv [OF b])
  ultimately have "div10_fix q (f - q * 10) = (f div 10, f mod 10)"
    using fx by (simp only: word_unat_eq_iff prod.inject)
  then have "div10_shift f = (f div 10, f mod 10)"
    unfolding div10_shift_def Let_def a1_def a2_def a3_def a4_def a5_def q_def .
  then show ?thesis by (simp add: div10_def)
qed

text \<open>
  The digit loop of \<open>ulong_freq\<close>: the digits and the separating spaces written backwards
  in front of \<open>q\<close>, and the number \<open>s\<close> of separators.
\<close>

function freq_loop :: "bool \<Rightarrow> u32 \<Rightarrow> u32 \<Rightarrow> nat \<Rightarrow> string \<Rightarrow> string \<times> nat" where
  "freq_loop cm4 freq format s q =
     (let (freq', c) = div10 cm4 freq;
          q = char_of (unat c + 48) # q
      in if freq' = 0 then (q, s)
         else if format AND 1 \<noteq> 0 then freq_loop cm4 freq' (drop_bit 1 format) (s + 1) (CHR '' '' # q)
         else freq_loop cm4 freq' (drop_bit 1 format) s q)"
  by pat_completeness auto
termination
  by (relation "measure (\<lambda>(cm4, freq, format, s, q). unat freq)")
    (auto simp: div10_eq unat_div word_unat_eq_iff)

declare freq_loop.simps [simp del]

definition bigPrefix :: string where
  "bigPrefix = '' kMGTPEZY'' @ [NUL]"

text \<open>
  The copy loop. \<open>src\<close> is what is left of the digit buffer, \<open>i\<close> the loop counter, \<open>None\<close>
  a read behind the last digit.
\<close>

fun freq_copy :: "string \<Rightarrow> nat \<Rightarrow> bool \<Rightarrow> bool \<Rightarrow> int \<Rightarrow> string option" where
  "freq_copy src i pset pspace precision =
     (case src of [] \<Rightarrow> None
      | c # src \<Rightarrow>
        case (if c = CHR '' ''
              then if pset then Some (CHR ''.'', False, src)
                   else if \<not> pspace then (case src of [] \<Rightarrow> None | c # src \<Rightarrow> Some (c, pset, src))
                   else Some (c, pset, src)
              else Some (c, pset, src)) of
          None \<Rightarrow> None
        | Some (c, pset, src) \<Rightarrow>
          if \<not> pset \<and> precision < 0 then Some []
          else let precision = (if pset then precision else precision - 1)
               in if i \<le> 1 then Some [c]
                  else map_option ((#) c) (freq_copy src (i - 1) pset pspace precision))"

declare freq_copy.simps [simp del]

definition ulong_freq :: "bool \<Rightarrow> u32 \<Rightarrow> int \<Rightarrow> string option" where
  "ulong_freq cm4 freq precision =
     (let pspace = (precision = 0);
          precision = (if precision = 0 \<or> precision > 14 then 14 else precision);
          (src, s) = freq_loop cm4 freq 0x4924 0 [];
          pre = bigPrefix ! s
      in case freq_copy src (length src) True pspace precision of
           None \<Rightarrow> None
         | Some out \<Rightarrow> Some (out @ (if pspace \<and> pre \<noteq> CHR '' '' then '' '' else []) @ [pre]))"

section \<open>What a frequency text is\<close>

definition dec_char :: "nat \<Rightarrow> char" where
  "dec_char d = char_of (d + 48)"

fun dec_str :: "nat \<Rightarrow> string" where
  "dec_str n = (if n < 10 then [dec_char n] else dec_str (n div 10) @ [dec_char (n mod 10)])"

definition pad3 :: "nat \<Rightarrow> string" where
  "pad3 n = [dec_char (n div 100 mod 10), dec_char (n div 10 mod 10), dec_char (n mod 10)]"

text \<open>Digits in groups of three, and the first separator turned into the decimal point.\<close>

fun thousands :: "nat \<Rightarrow> string" where
  "thousands n = (if n < 1000 then dec_str n else thousands (n div 1000) @ CHR '' '' # pad3 (n mod 1000))"

fun thousand_steps :: "nat \<Rightarrow> nat" where
  "thousand_steps n = (if n < 1000 then 0 else Suc (thousand_steps (n div 1000)))"

declare dec_str.simps [simp del] thousands.simps [simp del] thousand_steps.simps [simp del]

fun point :: "string \<Rightarrow> string" where
  "point [] = []"
| "point (c # cs) = (if c = CHR '' '' then CHR ''.'' # cs else c # point cs)"

lemma dec_char_inj: "d < 10 \<Longrightarrow> of_char (dec_char d) = d + 48"
  by (simp add: dec_char_def)

lemma dec_char_not_space: "d < 10 \<Longrightarrow> dec_char d \<noteq> CHR '' ''"
  using dec_char_inj [of d] by auto

lemma freq_step:
  "freq_loop cm4 f fm s q =
     (if unat f < 10 then (dec_char (unat f) # q, s)
      else if fm AND 1 \<noteq> 0 then freq_loop cm4 (f div 10) (drop_bit 1 fm) (s + 1) (CHR '' '' # dec_char (unat f mod 10) # q)
      else freq_loop cm4 (f div 10) (drop_bit 1 fm) s (dec_char (unat f mod 10) # q))"
proof -
  have z: "f div 10 = 0 \<longleftrightarrow> unat f < 10" by (simp add: word_unat_eq_iff unat_div div_eq_0_iff)
  show ?thesis
    by (subst freq_loop.simps) (simp add: div10_eq z unat_mod dec_char_def)
qed

lemma freq_group:
  assumes "fm AND 1 = 0" "drop_bit 1 fm AND 1 = 0" "drop_bit 2 fm AND 1 \<noteq> 0"
  shows "freq_loop cm4 f fm s q =
     (if unat f < 1000 then (dec_str (unat f) @ q, s)
      else freq_loop cm4 (f div 1000) (drop_bit 3 fm) (s + 1) (CHR '' '' # pad3 (unat f mod 1000) @ q))"
proof -
  have u: "unat (f div 10) = unat f div 10" "unat (f div 10 div 10) = unat f div 100"
    by (simp_all add: unat_div div_mult2_eq [symmetric])
  have d: "f div 10 div 10 div 10 = f div 1000"
    by (simp add: word_unat_eq_iff unat_div div_mult2_eq [symmetric])
  have p: "pad3 (unat f mod 1000) = [dec_char (unat f div 100 mod 10), dec_char (unat f div 10 mod 10), dec_char (unat f mod 10)]"
  proof -
    have d: "unat f = 1000 * (unat f div 1000) + unat f mod 1000" by simp
    have "(1000 * k + r) div 100 mod 10 = r div 100 mod 10" "(1000 * k + r) div 10 mod 10 = r div 10 mod 10"
      "(1000 * k + r) mod 10 = r mod 10" for k r :: nat
    proof -
      have "(1000 * k + r) div 100 = 10 * k + r div 100" "(1000 * k + r) div 10 = 100 * k + r div 10"
        using div_mult_self2 [of 100 r "10 * k"] div_mult_self2 [of 10 r "100 * k"] by simp_all
      moreover have "(10 * k + x) mod 10 = x mod 10" "(100 * k + x) mod 10 = x mod 10" "(1000 * k + x) mod 10 = x mod 10" for x
        using mod_mult_self2 [of x 10 k] mod_mult_self2 [of x 10 "10 * k"] mod_mult_self2 [of x 10 "100 * k"]
        by (simp_all add: add.commute)
      ultimately show "(1000 * k + r) div 100 mod 10 = r div 100 mod 10" "(1000 * k + r) div 10 mod 10 = r div 10 mod 10"
        "(1000 * k + r) mod 10 = r mod 10" by simp_all
    qed
    from this [of "unat f div 1000" "unat f mod 1000"]
    have "unat f mod 1000 div 100 mod 10 = unat f div 100 mod 10" "unat f mod 1000 div 10 mod 10 = unat f div 10 mod 10"
      "unat f mod 1000 mod 10 = unat f mod 10" unfolding d [symmetric] by simp_all
    then show ?thesis by (simp add: pad3_def)
  qed
  have b: "drop_bit (Suc (Suc 0)) fm = drop_bit 2 fm" "drop_bit (Suc (Suc (Suc 0))) fm = drop_bit 3 fm"
    by (simp_all add: numeral_2_eq_2 numeral_3_eq_3)
  note fs = freq_step [of _ f] freq_step [of _ "f div 10"] freq_step [of _ "f div 10 div 10"]
  consider "unat f < 10" | "10 \<le> unat f" "unat f < 100" | "100 \<le> unat f" "unat f < 1000" | "1000 \<le> unat f"
    by linarith
  then show ?thesis
  proof cases
    case 1
    then show ?thesis by (subst freq_step) (simp add: dec_str.simps)
  next
    case 2
    then have "unat f div 10 < 10" by simp
    with 2 show ?thesis
      by (simp add: fs assms u dec_str.simps [of "unat f"] dec_str.simps [of "unat f div 10"])
  next
    case 3
    then have "unat f div 100 < 10" "\<not> unat f div 10 < 10" by simp_all
    with 3 show ?thesis
      by (simp add: fs assms [simplified] u b dec_str.simps [of "unat f"] dec_str.simps [of "unat f div 10"]
          dec_str.simps [of "unat f div 100"] div_mult2_eq [symmetric])
  next
    case 4
    then have "\<not> unat f div 100 < 10" "\<not> unat f div 10 < 10" by simp_all
    with 4 show ?thesis
      by (simp add: fs assms [simplified] u b p d)
  qed
qed

lemma freq_loop_text:
  "freq_loop cm4 f 0x4924 0 [] = (thousands (unat f), thousand_steps (unat f))"
proof -
  have u: "unat (f div 1000) = unat f div 1000" "unat (f div 1000 div 1000) = unat f div 1000000"
    "unat (f div 1000 div 1000 div 1000) = unat f div 1000000000"
    by (simp_all add: unat_div div_mult2_eq [symmetric])
  have g: "unat f div 1000000000 < 1000" using u32_bound [of f] by simp
  have n: "unat f div 1000 div 1000 = unat f div 1000000" "unat f div 1000000 div 1000 = unat f div 1000000000"
    by (simp_all add: div_mult2_eq [symmetric])
  note gs = freq_group [of "0x4924"] freq_group [of "0x924"] freq_group [of "0x124"] freq_group [of "0x24"]
  note th = thousands.simps [of "unat f"] thousands.simps [of "unat f div 1000"]
    thousands.simps [of "unat f div 1000000"] thousands.simps [of "unat f div 1000000000"]
    thousand_steps.simps [of "unat f"] thousand_steps.simps [of "unat f div 1000"]
    thousand_steps.simps [of "unat f div 1000000"] thousand_steps.simps [of "unat f div 1000000000"]
  show ?thesis by (simp add: gs th u g n)
qed

subsection \<open>The copy loop\<close>

lemma freq_copy_rest:
  assumes "src \<noteq> []" "int (length src) \<le> p + 1"
  shows "freq_copy src (length src) False True p = Some src"
  using assms
proof (induction src arbitrary: p)
  case Nil
  then show ?case by simp
next
  case (Cons c src)
  then show ?case by (cases src) (auto simp: freq_copy.simps [of "_ # _"])
qed

lemma freq_copy_point:
  assumes "src \<noteq> []" "int (length src) \<le> p + 1"
  shows "freq_copy src (length src) True True p = Some (point src)"
  using assms
proof (induction src)
  case Nil
  then show ?case by simp
next
  case (Cons c src)
  show ?case
  proof (cases "src = []")
    case True
    with Cons.prems show ?thesis by (auto simp: freq_copy.simps [of "_ # _"])
  next
    case False
    with Cons have "freq_copy src (length src) True True p = Some (point src)" by simp
    moreover have "freq_copy src (length src) False True (p - 1) = Some src"
      using False Cons.prems by (intro freq_copy_rest) auto
    ultimately show ?thesis using False Cons.prems by (auto simp: freq_copy.simps [of "_ # _"] Suc_le_eq)
  qed
qed

abbreviation unspaced :: "string \<Rightarrow> string" where
  "unspaced \<equiv> filter (\<lambda>c. c \<noteq> CHR '' '')"

text \<open>Every separator stands before a digit.\<close>

fun single_spaced :: "string \<Rightarrow> bool" where
  "single_spaced [] = True"
| "single_spaced (c # cs) = ((c = CHR '' '' \<longrightarrow> cs \<noteq> [] \<and> hd cs \<noteq> CHR '' '') \<and> single_spaced cs)"

lemma single_spaced_plain: "CHR '' '' \<notin> set xs \<Longrightarrow> single_spaced (xs @ ys) = single_spaced ys"
  by (induction xs) auto

lemma freq_copy_take:
  assumes "single_spaced src" "-1 \<le> p" "p + 1 < int (length (unspaced src))" "length src \<le> i"
  shows "freq_copy src i False False p = Some (take (nat (p + 1)) (unspaced src))"
  using assms
proof (induction src arbitrary: i p rule: length_induct)
  case (1 src)
  obtain c cs where src: "src = c # cs" using "1.prems"(3) by (cases src) (use "1.prems"(2) in auto)
  consider (space) d ds where "c = CHR '' ''" "cs = d # ds" | (plain) "c \<noteq> CHR '' ''"
    using "1.prems"(1) src by (cases cs) auto
  then obtain d ds where u: "unspaced src = d # unspaced ds" "d \<noteq> CHR '' ''" "single_spaced ds" "length ds < length src"
    and fc: "freq_copy src i False False p =
      (if p < 0 then Some [] else if i \<le> 1 then Some [d] else map_option ((#) d) (freq_copy ds (i - 1) False False (p - 1)))"
  proof cases
    case space
    show thesis using "1.prems"(1) unfolding src space
      by (intro that [of d ds]) (simp_all add: src space freq_copy.simps [of "CHR '' '' # _"])
  next
    case plain
    show thesis using "1.prems"(1) plain unfolding src
      by (intro that [of c cs]) (simp_all add: src freq_copy.simps [of "c # _"])
  qed
  show ?case
  proof (cases "p < 0")
    case True
    then show ?thesis using fc "1.prems"(2) by simp
  next
    case False
    then have "nat (p + 1) = Suc (nat p)" by simp
    have "length (unspaced ds) \<le> length ds" by (rule length_filter_le)
    then have "1 < i" using False "1.prems"(3,4) u(1,4) by (cases ds) auto
    moreover have "freq_copy ds (i - 1) False False (p - 1) = Some (take (nat p) (unspaced ds))"
      using "1.IH" [rule_format, OF u(4), of "p - 1" "i - 1"] u(1,3,4) "1.prems"(3,4) False by auto
    ultimately show ?thesis using False fc u(1) \<open>nat (p + 1) = _\<close> by simp
  qed
qed

lemma freq_copy_cut:
  assumes "CHR '' '' \<notin> set g" "single_spaced frac" "0 < p" "p < int (length (unspaced frac))"
    "length g + Suc (length frac) \<le> i"
  shows "freq_copy (g @ CHR '' '' # frac) i True False p = Some (g @ CHR ''.'' # take (nat p) (unspaced frac))"
  using assms(1,5)
proof (induction g arbitrary: i)
  case Nil
  have "length (unspaced frac) \<le> length frac" by (rule length_filter_le)
  then have "\<not> i \<le> 1" using Nil assms(3,4) by linarith
  moreover have "freq_copy frac (i - 1) False False (p - 1) = Some (take (nat p) (unspaced frac))"
    using freq_copy_take [of frac "p - 1" "i - 1"] assms Nil by auto
  ultimately show ?case using assms(3) by (subst freq_copy.simps) simp
next
  case (Cons c g)
  from Cons.IH [of "i - 1"] Cons.prems show ?case by (subst freq_copy.simps) auto
qed

subsection \<open>Frequency texts\<close>

lemma dec_str_digits: "c \<in> set (dec_str n) \<Longrightarrow> \<exists>d < 10. c = dec_char d"
proof (induction n rule: dec_str.induct)
  case (1 n)
  show ?case
  proof (cases "n < 10")
    case True
    with "1.prems" show ?thesis by (auto simp: dec_str.simps)
  next
    case False
    with "1.prems" have "c \<in> set (dec_str (n div 10)) \<or> c = dec_char (n mod 10)"
      by (auto simp: dec_str.simps [of n])
    then show ?thesis using "1.IH" [OF False] by (metis mod_less_divisor zero_less_numeral)
  qed
qed

lemma dec_str_no_space: "CHR '' '' \<notin> set (dec_str n)"
  using dec_str_digits [of "CHR '' ''" n] dec_char_not_space by metis

lemma dec_str_split: "1000 \<le> n \<Longrightarrow> dec_str n = dec_str (n div 1000) @ pad3 (n mod 1000)"
proof -
  assume n: "1000 \<le> n"
  have d: "n div 10 div 10 = n div 100" "n div 100 div 10 = n div 1000" by (simp_all add: div_mult2_eq [symmetric])
  have m: "n mod 1000 div 100 mod 10 = n div 100 mod 10" "n mod 1000 div 10 mod 10 = n div 10 mod 10" "n mod 1000 mod 10 = n mod 10"
  proof -
    show "n mod 1000 mod 10 = n mod 10" by (simp add: mod_mod_cancel)
    show "n mod 1000 div 10 mod 10 = n div 10 mod 10" 
      using mod_mult2_eq [of n 10 100] by (simp add: mod_mod_cancel)
    show "n mod 1000 div 100 mod 10 = n div 100 mod 10"
      using mod_mult2_eq [of n 100 10] by (simp add: mod_mod_cancel)
  qed
  have "\<not> n < 10" "\<not> n div 10 < 10" "\<not> n div 100 < 10" using n by simp_all
  then show ?thesis
    by (simp add: dec_str.simps [of n] dec_str.simps [of "n div 10"] dec_str.simps [of "n div 100"] d pad3_def m)
qed

lemma pad3_plain: "CHR '' '' \<notin> set (pad3 n)"
  by (simp add: pad3_def dec_char_not_space [symmetric])

lemma thousands_unspaced: "unspaced (thousands n) = dec_str n"
proof (induction n rule: thousands.induct)
  case (1 n)
  have f: "unspaced xs = xs" if "CHR '' '' \<notin> set xs" for xs using that by (auto intro!: filter_True)
  show ?case
  proof (cases "n < 1000")
    case True
    then show ?thesis by (simp add: thousands.simps f dec_str_no_space)
  next
    case False
    then show ?thesis using 1 by (subst thousands.simps) (simp add: f pad3_plain dec_str_split)
  qed
qed

lemma thousands_shape:
  "1000 \<le> n \<Longrightarrow> \<exists>g frac. thousands n = g @ CHR '' '' # frac \<and> g = dec_str (n div 1000 ^ thousand_steps n) \<and>
     single_spaced frac \<and> length (unspaced frac) = 3 * thousand_steps n"
proof (induction n rule: thousands.induct)
  case (1 n)
  note th = thousands.simps [of n] thousand_steps.simps [of n]
  have pad: "single_spaced (pad3 m)" "length (unspaced (pad3 m)) = 3" "hd (pad3 m) \<noteq> CHR '' ''" "pad3 m \<noteq> []" for m
    by (simp_all add: pad3_def dec_char_not_space dec_char_not_space [symmetric])
  show ?case
  proof (cases "n div 1000 < 1000")
    case True
    then have "thousand_steps n = 1" using "1.prems" by (simp add: th thousand_steps.simps [of "n div 1000"])
    moreover have "thousands n = dec_str (n div 1000) @ CHR '' '' # pad3 (n mod 1000)"
      using True "1.prems" by (simp add: th thousands.simps [of "n div 1000"])
    ultimately show ?thesis using pad by (intro exI [of _ "dec_str (n div 1000)"] exI [of _ "pad3 (n mod 1000)"]) simp
  next
    case False
    then obtain g frac where h: "thousands (n div 1000) = g @ CHR '' '' # frac"
      "g = dec_str (n div 1000 div 1000 ^ thousand_steps (n div 1000))" "single_spaced frac"
      "length (unspaced frac) = 3 * thousand_steps (n div 1000)"
      using 1 by auto
    have ss: "single_spaced (frac @ CHR '' '' # pad3 m)" for m
    proof -
      have "single_spaced (xs @ CHR '' '' # pad3 m)" if "single_spaced xs" for xs
        using that by (induction xs) (use pad in \<open>auto simp: hd_append\<close>)
      then show ?thesis using h(3) .
    qed
    have t: "thousands n = g @ CHR '' '' # frac @ CHR '' '' # pad3 (n mod 1000)"
      using "1.prems" h(1) by (subst thousands.simps) simp
    have k: "thousand_steps n = Suc (thousand_steps (n div 1000))" using "1.prems" by (simp add: th)
    have "length (unspaced (frac @ CHR '' '' # pad3 (n mod 1000))) = 3 * thousand_steps n"
      using h(4) pad(2) by (simp add: k)
    moreover have "g = dec_str (n div 1000 ^ thousand_steps n)"
      by (simp only: h(2) k power_Suc div_mult2_eq)
    ultimately show ?thesis using t ss by blast
  qed
qed

lemma thousand_steps_le: "n < 1000 ^ Suc k \<Longrightarrow> thousand_steps n \<le> k"
proof (induction k arbitrary: n)
  case 0
  then show ?case by (simp add: thousand_steps.simps)
next
  case (Suc k)
  then have "n div 1000 < 1000 ^ Suc k" by (simp add: less_mult_imp_div_less mult.commute)
  with Suc.IH [of "n div 1000"] show ?case by (subst thousand_steps.simps) simp
qed

lemma thousands_length: "length (thousands n) \<le> 3 + 4 * thousand_steps n"
proof (induction n rule: thousands.induct)
  case (1 n)
  show ?case
  proof (cases "n < 1000")
    case True
    then have "n div 10 div 10 < 10" by simp
    then have "length (dec_str n) \<le> 3"
      by (simp add: dec_str.simps [of n] dec_str.simps [of "n div 10"] dec_str.simps [of "n div 10 div 10"])
    with True show ?thesis by (simp add: thousands.simps)
  next
    case False
    then show ?thesis
      using 1 by (simp add: thousands.simps [of n] thousand_steps.simps [of n] pad3_def)
  qed
qed

lemma dec_str_ne [simp]: "dec_str n \<noteq> []"
  by (subst dec_str.simps) simp

lemma thousands_ne: "thousands n \<noteq> []"
  by (subst thousands.simps) simp

lemma thousands_small: "length (thousands (unat (f :: u32))) \<le> 15"
proof -
  have "thousand_steps (unat f) \<le> 3" by (rule thousand_steps_le) (use u32_bound [of f] in simp)
  then show ?thesis using thousands_length [of "unat f"] by linarith
qed

lemma bigPrefix_space: "k < 9 \<Longrightarrow> bigPrefix ! k = CHR '' '' \<longleftrightarrow> k = 0"
  by (auto simp: bigPrefix_def less_Suc_eq numeral_eq_Suc)

text \<open>
  Both builds of \<open>ulong_freq\<close> print a frequency the same way. With no
  precision the text is the decimal number in groups of three with the first separator
  turned into a point, a space and the SI prefix of the leading group (a lone space below
  1000). With a precision smaller than the number of places below the leading group it is
  the leading group, a point, exactly that many further digits and the prefix: the
  number is truncated, never rounded, and no byte is read behind the digits.
\<close>

theorem ulong_freq_text:
  fixes freq :: u32
  defines "n \<equiv> unat freq"
  defines "k \<equiv> thousand_steps n"
  shows "ulong_freq cm4 freq 0 =
      Some (point (thousands n) @ (if k = 0 then '' '' else [CHR '' '', bigPrefix ! k])) \<and>
    (0 < p \<and> p \<le> 14 \<and> p < 3 * k \<longrightarrow>
      ulong_freq cm4 freq (int p) =
        Some (dec_str (n div 1000 ^ k) @ CHR ''.'' #
              take p (drop (length (dec_str (n div 1000 ^ k))) (dec_str n)) @ [bigPrefix ! k]))"
proof -
  have k: "k \<le> 3" unfolding k_def n_def by (rule thousand_steps_le) (use u32_bound [of freq] in simp)
  have sm: "int (length (thousands n)) \<le> 14 + 1" using thousands_small [of freq] by (simp add: n_def)
  have one: "ulong_freq cm4 freq 0 = Some (point (thousands n) @ (if k = 0 then '' '' else [CHR '' '', bigPrefix ! k]))"
    using k freq_copy_point [OF thousands_ne sm] bigPrefix_space [of k]
    by (auto simp: ulong_freq_def freq_loop_text n_def [symmetric] k_def [symmetric] bigPrefix_def)
  have two: "ulong_freq cm4 freq (int p) =
      Some (dec_str (n div 1000 ^ k) @ CHR ''.'' #
            take p (drop (length (dec_str (n div 1000 ^ k))) (dec_str n)) @ [bigPrefix ! k])"
    if p: "0 < p" "p \<le> 14" "p < 3 * k"
  proof -
    from p have "1000 \<le> n" by (auto simp: k_def thousand_steps.simps [of n] split: if_splits)
    then obtain g frac where t: "thousands n = g @ CHR '' '' # frac" "g = dec_str (n div 1000 ^ k)"
      "single_spaced frac" "length (unspaced frac) = 3 * k"
      using thousands_shape [of n] by (auto simp: k_def)
    have g: "CHR '' '' \<notin> set g" using dec_str_no_space by (simp add: t(2))
    then have "unspaced g = g" by (auto intro!: filter_True)
    then have "g @ unspaced frac = dec_str n" using thousands_unspaced [of n] by (simp add: t(1))
    then have fr: "unspaced frac = drop (length g) (dec_str n)" by (metis append_eq_conv_conj)
    have "freq_copy (thousands n) (length (thousands n)) True False (int p) = Some (g @ CHR ''.'' # take p (unspaced frac))"
      unfolding t(1) using freq_copy_cut [of g frac "int p" "length (g @ CHR '' '' # frac)"] g t(3,4) p by simp
    then show ?thesis
      using p by (simp add: ulong_freq_def freq_loop_text n_def [symmetric] k_def [symmetric] fr t(2) [symmetric])
  qed
  show ?thesis using one two by blast
qed

theorem ulong_freq_text_witness:
  "ulong_freq False 1456789012 (int 5) = Some ''1.45678G''"
proof -
  have k: "thousand_steps 1456789012 = 3" by (simp add: thousand_steps.simps)
  have d: "dec_str 1456789012 = ''1456789012''" "dec_str (Suc 0) = ''1''"
    by (simp_all add: dec_str.simps dec_char_def char_of_def bit_0)
  show ?thesis
    using ulong_freq_text [of False 1456789012 5] by (simp add: k d bigPrefix_def)
qed

section \<open>The format engine\<close>

text \<open>The flag bits of \<open>state\<close>; \<open>IS_LONG\<close> needs \<open>CHPRINTF_USE_INT_64\<close>, which is off.\<close>

record fmt_state =
  left_align :: bool
  positive :: bool
  negative :: bool
  pad_zero :: bool
  plus_space :: bool
  default_prec :: bool
  complexj :: bool
  short_float :: bool

definition fmt_state0 :: fmt_state where
  "fmt_state0 = \<lparr>left_align = False, positive = False, negative = False, pad_zero = False,
     plus_space = False, default_prec = False, complexj = False, short_float = False\<rparr>"

text \<open>
  One variable argument: an \<open>int\<close>-sized value, a string pointer (\<open>None\<close> is the null
  pointer), or a \<open>double\<close> (carried, never interpreted).
\<close>

datatype arg = AInt u32 | AStr "string option" | AFloat

definition flag_of :: "char \<Rightarrow> (fmt_state \<Rightarrow> fmt_state) option" where
  "flag_of c =
     (if c = CHR ''-'' then Some (left_align_update (\<lambda>_. True))
      else if c = CHR ''+'' then Some (positive_update (\<lambda>_. True))
      else if c = CHR ''0'' then Some (pad_zero_update (\<lambda>_. True))
      else if c = CHR ''j'' then Some (complexj_update (\<lambda>_. True))
      else if c = CHR '' '' then Some (plus_space_update (\<lambda>_. True))
      else if c = CHR ''b'' then Some (short_float_update (\<lambda>_. True))
      else None)"

fun parse_flags :: "fmt_state \<Rightarrow> string \<Rightarrow> fmt_state \<times> string" where
  "parse_flags st [] = (st, [])"
| "parse_flags st (c # fmt) =
     (case flag_of c of Some f \<Rightarrow> parse_flags (f st) fmt | None \<Rightarrow> (st, c # fmt))"

text \<open>
  Width and precision: digits, and \<open>*\<close> for an argument cut to a \<open>char\<close>. The result holds
  the value, the character that ended the field, the format behind it and the arguments
  left. \<open>int\<close> overflow is undefined in C: \<open>None\<close>.
\<close>

fun parse_num :: "int \<Rightarrow> string \<Rightarrow> arg list \<Rightarrow> (int \<times> char \<times> string \<times> arg list) option" where
  "parse_num v [] args = Some (v, NUL, [], args)"
| "parse_num v (c # fmt) args =
     (if 48 \<le> (of_char c :: nat) \<and> of_char c \<le> (57 :: nat)
      then let v = v * 10 + int (of_char c - 48)
           in if v < 2 ^ 31 then parse_num v fmt args else None
      else if c = CHR ''*''
      then (case args of
              AInt a # args \<Rightarrow>
                let v = v * 10 + uint (ucast a :: u8)
                in if v < 2 ^ 31 then parse_num v fmt args else None
            | _ \<Rightarrow> None)
      else Some (v, c, fmt, args))"

definition sign_chars :: "fmt_state \<Rightarrow> bool \<Rightarrow> string" where
  "sign_chars st neg =
     (if neg then ''-'' else if positive st then ''+'' else if plus_space st then '' '' else [])
     @ (if complexj st then ''j'' else [])"

definition fmt_unsigned :: "u32 \<Rightarrow> arg list \<Rightarrow> fmt_state \<Rightarrow> (string \<times> fmt_state \<times> arg list) option" where
  "fmt_unsigned radix args st =
     (case args of AInt v # args \<Rightarrow> Some (long_to_string_with_divisor [] v radix 0, st, args)
                 | _ \<Rightarrow> None)"

text \<open>The \<open>switch\<close>: the text between \<open>s\<close> and \<open>p\<close>, the flags and the arguments left.\<close>

definition convert :: "bool \<Rightarrow> char \<Rightarrow> int \<Rightarrow> fmt_state \<Rightarrow> arg list \<Rightarrow> (string \<times> fmt_state \<times> arg list) option" where
  "convert cm4 c precision st args =
     (if c = CHR ''c'' then
        (case args of AInt v # args \<Rightarrow> Some ([char_of (unat (ucast v :: u8))], st\<lparr>pad_zero := False\<rparr>, args)
                    | _ \<Rightarrow> None)
      else if c = CHR ''s'' then
        (case args of
           AStr s # args \<Rightarrow>
             let s = (case s of None \<Rightarrow> ''(null)'' | Some s \<Rightarrow> s);
                 precision = (if default_prec st then 32767 else precision)
             in Some (take (nat precision) s, st\<lparr>pad_zero := False\<rparr>, args)
         | _ \<Rightarrow> None)
      else if c \<in> {CHR ''D'', CHR ''d'', CHR ''I'', CHR ''i''} then
        (case args of
           AInt v # args \<Rightarrow>
             let neg = v <s 0;
                 st' = (if neg then st\<lparr>negative := True\<rparr> else st);
                 v = (if neg then - v else v)
             in Some (long_to_string_with_divisor (sign_chars st neg) v 10 0, st', args)
         | _ \<Rightarrow> None)
      else if c = CHR ''q'' then
        (case args of AInt v # args \<Rightarrow> map_option (\<lambda>s. (s, st, args)) (ulong_freq cm4 v precision)
                    | _ \<Rightarrow> None)
      else if c \<in> {CHR ''F'', CHR ''f''} then None
      else if c \<in> {CHR ''X'', CHR ''x''} then fmt_unsigned 16 args st
      else if c \<in> {CHR ''U'', CHR ''u''} then fmt_unsigned 10 args st
      else if c \<in> {CHR ''O'', CHR ''o''} then fmt_unsigned 8 args st
      else Some ([c], st, args))"

text \<open>Alignment: the sign first when zeros follow it, the filler left or right.\<close>

definition emit :: "fmt_state \<Rightarrow> int \<Rightarrow> string \<Rightarrow> string" where
  "emit st width s =
     (let n = nat (width - int (length s));
          filler = (if pad_zero st then CHR ''0'' else CHR '' '');
          signed = (negative st \<or> positive st \<or> plus_space st) \<and> pad_zero st
      in if left_align st then s @ replicate n filler
         else if signed then take 1 s @ replicate n filler @ drop 1 s
         else replicate n filler @ s)"

text \<open>
  One conversion behind a \<open>%\<close>. A format that ends inside the conversion makes the code
  print its NUL and read on behind it: \<open>None\<close>.
\<close>

definition directive :: "bool \<Rightarrow> string \<Rightarrow> arg list \<Rightarrow> (string \<times> string \<times> arg list) option" where
  "directive cm4 fmt args =
     (let (st, fmt) = parse_flags fmt_state0 fmt
      in case parse_num 0 fmt args of
           None \<Rightarrow> None
         | Some (width, c, fmt, args) \<Rightarrow>
           case (if c = CHR ''.'' then map_option (\<lambda>r. (st, r)) (parse_num 0 fmt args)
                 else Some (st\<lparr>default_prec := True\<rparr>, 0, c, fmt, args)) of
             None \<Rightarrow> None
           | Some (st, precision, c, fmt, args) \<Rightarrow>
             if c = NUL then None
             else case convert cm4 c precision st args of
                    None \<Rightarrow> None
                  | Some (s, st, args) \<Rightarrow> Some (emit st width s, fmt, args))"

lemma parse_flags_length: "length (snd (parse_flags st fmt)) \<le> length fmt"
  by (induction st fmt rule: parse_flags.induct) (auto split: option.splits)

lemma parse_num_length:
  "parse_num v fmt args = Some (w, c, fmt', args') \<Longrightarrow> length fmt' \<le> length fmt"
proof (induction fmt arbitrary: v args)
  case Nil
  then show ?case by simp
next
  case (Cons c0 fmt)
  have le: "length fmt' \<le> length fmt" if "(if x < 2 ^ 31 then parse_num x fmt as else None) = Some (w, c, fmt', args')" for x as
    using that Cons.IH [of x as] by (cases "x < 2 ^ 31") simp_all
  show ?case
  proof (cases "48 \<le> (of_char c0 :: nat) \<and> of_char c0 \<le> (57 :: nat)")
    case True
    show ?thesis using le [OF Cons.prems [unfolded parse_num.simps Let_def if_P [OF True]]] by simp
  next
    case False
    note np = Cons.prems [unfolded parse_num.simps Let_def if_not_P [OF False]]
    show ?thesis
    proof (cases "c0 = CHR ''*''")
      case True
      note np = np [unfolded if_P [OF True]]
      show ?thesis
      proof (cases args)
        case (Cons x as)
        with np le show ?thesis by (cases x) (auto intro!: le_SucI)
      qed (use np in simp)
    qed (use np in simp)
  qed
qed

lemma directive_length:
  "directive cm4 fmt args = Some (s, fmt', args') \<Longrightarrow> length fmt' \<le> length fmt"
proof -
  assume *: "directive cm4 fmt args = Some (s, fmt', args')"
  obtain st f1 where f1: "parse_flags fmt_state0 fmt = (st, f1)" by (cases "parse_flags fmt_state0 fmt")
  with * obtain w c f2 a2 where f2: "parse_num 0 f1 args = Some (w, c, f2, a2)"
    by (auto simp: directive_def split: option.splits)
  from * f1 f2 have "fmt' = f2 \<or> (\<exists>p c a. parse_num 0 f2 a2 = Some (p, c, fmt', a))"
    by (auto simp: directive_def split: option.splits if_splits)
  then have "length fmt' \<le> length f2" using parse_num_length by auto
  then show ?thesis using parse_flags_length [of fmt_state0 fmt] parse_num_length [OF f2] f1 by simp
qed

text \<open>\<open>chvprintf\<close>: the characters put on the stream, in order; their number is the result.\<close>

function chvprintf :: "bool \<Rightarrow> string \<Rightarrow> arg list \<Rightarrow> string option" where
  "chvprintf cm4 fmt args =
     (case fmt of
        [] \<Rightarrow> Some []
      | c # fmt \<Rightarrow>
        if c \<noteq> CHR ''%'' then map_option ((#) c) (chvprintf cm4 fmt args)
        else case directive cm4 fmt args of
               None \<Rightarrow> None
             | Some (s, fmt, args) \<Rightarrow> map_option ((@) s) (chvprintf cm4 fmt args))"
  by pat_completeness auto
termination
  by (relation "measure (\<lambda>(cm4, fmt, args). length fmt)") (auto dest!: directive_length)

declare chvprintf.simps [simp del]

section \<open>Numbers print as they parse\<close>

definition hex_char :: "nat \<Rightarrow> char" where
  "hex_char d = char_of (if d > 9 then d + 55 else d + 48)"

fun radix_str :: "nat \<Rightarrow> nat \<Rightarrow> string" where
  "radix_str r n = (if r < 2 \<or> n < r then [hex_char n] else radix_str r (n div r) @ [hex_char (n mod r)])"

declare radix_str.simps [simp del]

lemma digit_char_hex: "n < 16 \<Longrightarrow> digit_char (of_nat n) = hex_char n"
proof -
  assume n: "n < 16"
  then have u: "unat (of_nat n :: u8) = n" by (simp add: unat_of_nat take_bit_nat_eq_self)
  then have "(9 :: u8) < of_nat n \<longleftrightarrow> 9 < n" by (simp add: word_less_nat_alt)
  moreover have "unat ((of_nat n :: u8) + (if 9 < n then 65 - 10 else 48)) = (if 9 < n then n + 55 else n + 48)"
    using n u by (simp add: unat_plus_if')
  ultimately show ?thesis by (simp add: digit_char_def hex_char_def)
qed

lemma lts_loop_radix:
  assumes "2 \<le> unat r" "unat r \<le> 16"
  shows "lts_loop r 0 v q = radix_str (unat r) (unat v) @ q"
proof (induction "unat v" arbitrary: v q rule: less_induct)
  case less
  define d where "d = unat v mod unat r"
  have d: "d < 16" using assms by (simp add: d_def) (metis mod_less_divisor less_le_trans not_numeral_le_zero gr0I)
  have c: "(ucast (v mod r) :: u8) = of_nat d"
    by (simp add: d_def word_unat_eq_iff unsigned_ucast_eq unat_mod unsigned_of_nat)
  have z: "v div r = 0 \<longleftrightarrow> unat v < unat r" using assms(1)
    by (simp add: word_unat_eq_iff unat_div div_eq_0_iff)
  have nr: "\<not> r < 2" using assms(1) by (simp add: word_less_nat_alt)
  have step: "lts_loop r 0 v q =
      (if unat v < unat r then hex_char d # q else lts_loop r 0 (v div r) (hex_char d # q))"
    by (subst lts_loop.simps) (simp add: nr c z digit_char_hex [OF d] Let_def)
  show ?case
  proof (cases "unat v < unat r")
    case True
    then show ?thesis using assms(1) by (subst step) (simp add: radix_str.simps d_def)
  next
    case False
    have "unat v div unat r < unat v" using False assms(1) by (intro div_less_dividend) auto
    then have "lts_loop r 0 (v div r) (hex_char d # q) = radix_str (unat r) (unat v div unat r) @ hex_char d # q"
      using less [of "v div r"] by (simp add: unat_div)
    then show ?thesis using False assms(1) by (subst step) (simp add: radix_str.simps [of _ "unat v"] d_def)
  qed
qed

lemma hex_char_nat: "d < 16 \<Longrightarrow> of_char (hex_char d) = (if d > 9 then d + 55 else d + 48)"
  by (simp add: hex_char_def)

lemma hex_char_doc: "d < r \<Longrightarrow> r \<in> {2, 8, 10, 16} \<Longrightarrow> doc_digit r (hex_char d) = Some d"
  by (auto simp: doc_digit_def hex_char_nat Let_def)

lemma radix_str_doc:
  assumes "r \<in> {2, 8, 10, 16}"
  shows "(\<forall>c \<in> set (radix_str r n). accepted_digit r c \<noteq> None) \<and>
    digits_value r (map (the \<circ> accepted_digit r) (radix_str r n)) = n"
proof (induction n rule: less_induct)
  case (less n)
  have a: "accepted_digit r (hex_char d) = Some d" if "d < r" for d
    using doc_accepted [OF assms hex_char_doc [OF that assms]] .
  show ?case
  proof (cases "n < r")
    case True
    then show ?thesis by (simp add: radix_str.simps a digits_value_Cons)
  next
    case False
    then have "n div r < n" and r: "n mod r < r" "\<not> r < 2" using assms by auto
    with less [of "n div r"] False show ?thesis
      by (subst (1 2) radix_str.simps) (auto simp: a o_def)
  qed
qed

lemma atoui_loop_radix:
  assumes "unat r \<in> {2, 8, 10, 16}"
  shows "atoui_loop r 0 (radix_str (unat r) (unat v)) = v"
proof -
  have "atoui_loop (of_nat (unat r)) 0 (radix_str (unat r) (unat v) @ []) = of_nat (unat v)"
    using radix_str_doc [OF assms, of "unat v"] by (subst atoui_loop_eq) auto
  then show ?thesis by simp
qed

subsection \<open>Signed decimals\<close>

lemma radix10_chars: "c \<in> set (radix_str 10 n) \<Longrightarrow> is_dec c"
proof (induction n rule: less_induct)
  case (less n)
  have d: "is_dec (hex_char k)" if "k < 10" for k using that by (simp add: is_dec_def hex_char_nat)
  show ?case
  proof (cases "n < 10")
    case True
    then show ?thesis using less.prems d by (simp add: radix_str.simps)
  next
    case False
    then show ?thesis using less.prems less.IH [of "n div 10"] d by (auto simp: radix_str.simps [of _ n])
  qed
qed

lemma radix_str_ne [simp]: "radix_str r n \<noteq> []"
  by (subst radix_str.simps) simp

lemma atoui_digit_dec: "is_dec c \<Longrightarrow> atoui_digit c = digit_of c \<and> digit_of c < 10"
  using digit_of_less [of c] by (auto simp: atoui_digit_def is_dec_def word_le_nat_alt word_less_nat_alt unat_digit_of)

lemma atoi_loop_atoui: "\<forall>c \<in> set s. is_dec c \<Longrightarrow> atoi_loop v s = atoui_loop 10 v s"
proof (induction s arbitrary: v)
  case Nil
  then show ?case by simp
next
  case (Cons a s)
  then have "atoui_digit a = digit_of a" "digit_of a < 10" using atoui_digit_dec by auto
  moreover from this have "\<not> 10 \<le> digit_of a" by (simp add: not_le)
  ultimately show ?case using Cons by (simp add: Let_def)
qed

lemma atoi_loop_printed: "atoi_loop 0 (replicate k (CHR ''0'') @ radix_str 10 (unat v)) = v"
proof (induction k)
  case 0
  have "atoi_loop 0 (radix_str 10 (unat v)) = atoui_loop 10 0 (radix_str 10 (unat v))"
    by (rule atoi_loop_atoui) (use radix10_chars in blast)
  also have "\<dots> = v" using atoui_loop_radix [of 10 v] by simp
  finally show ?case by simp
next
  case (Suc k)
  then show ?case by (simp add: digit_of_def)
qed

lemma printed_head: "\<exists>c q. replicate k (CHR ''0'') @ radix_str 10 n = c # q \<and> c \<noteq> CHR ''-'' \<and> c \<noteq> CHR ''+''"
proof -
  obtain c q where cq: "replicate k (CHR ''0'') @ radix_str 10 n = c # q"
    by (cases "replicate k (CHR ''0'') @ radix_str 10 n") auto
  then have "c \<in> set (replicate k (CHR ''0'') @ radix_str 10 n)" by simp
  then have "is_dec c" using radix10_chars by (auto simp: is_dec_def split: if_splits)
  then show ?thesis using cq by (auto simp: is_dec_def)
qed

lemma my_atoi_printed:
  assumes "sg \<in> {[], ''+'', ''-''}"
  shows "my_atoi (sg @ replicate k (CHR ''0'') @ radix_str 10 (unat v)) = (if sg = ''-'' then - v else v)"
proof -
  obtain c q where cq: "replicate k (CHR ''0'') @ radix_str 10 (unat v) = c # q" "c \<noteq> CHR ''-''" "c \<noteq> CHR ''+''"
    using printed_head by blast
  have "atoi_loop 0 (c # q) = v" using atoi_loop_printed [of k v] cq(1) by simp
  then show ?thesis using assms cq(2,3)
    unfolding cq(1) my_atoi_def by (auto simp del: atoi_loop.simps)
qed

lemma lts10: "long_to_string_with_divisor p v 10 0 = p @ radix_str 10 (unat v)"
  by (simp add: long_to_string_with_divisor_def lts_loop_radix)

lemma emit_zero_padded:
  assumes "pad_zero st" "\<not> left_align st" "length sg = (if negative st \<or> positive st \<or> plus_space st then 1 else 0)"
  shows "emit st w (sg @ s) = sg @ replicate (nat (w - int (length (sg @ s)))) (CHR ''0'') @ s"
  using assms by (cases sg) (auto simp: emit_def Let_def)

text \<open>
  : the decimal conversions print what \<open>my_atoi\<close> reads back, for
  every 32-bit value, the most negative one included: plain, zero padded to any width and
  with an explicit sign (the zeros go between the sign and the digits). The text is never
  shorter than the width asked for.
\<close>

theorem printed_decimal_parses:
  "(\<exists>s. chvprintf cm4 ''%d'' [AInt v] = Some s \<and> my_atoi s = v) \<and>
   (\<exists>s. chvprintf cm4 ''%0*d'' [AInt w, AInt v] = Some s \<and> my_atoi s = v \<and> unat (ucast w :: u8) \<le> length s) \<and>
   (\<exists>s. chvprintf cm4 ''%+0*d'' [AInt w, AInt v] = Some s \<and> my_atoi s = v \<and> unat (ucast w :: u8) \<le> length s)"
proof -
  have w: "uint (ucast w :: u8) < 2147483648" "uint (ucast w :: u8) = int (unat (ucast w :: u8))"
    using uint_lt2p [of "ucast w :: u8"] by simp_all
  define u where "u = (if v <s 0 then - v else v)"
  have pl: "my_atoi (radix_str 10 (unat u)) = u" "my_atoi (CHR ''-'' # radix_str 10 (unat u)) = - u"
    using my_atoi_printed [of "[]" 0 u] my_atoi_printed [of "''-''" 0 u] by simp_all
  have z: "my_atoi (sg @ replicate k (CHR ''0'') @ radix_str 10 (unat u)) = (if sg = ''-'' then - u else u)"
    if "sg \<in> {[], ''+'', ''-''}" for sg k by (rule my_atoi_printed [OF that])
  note ev = chvprintf.simps [of _ "_ # _"] chvprintf.simps [of _ "[]"] directive_def flag_of_def fmt_state0_def
    convert_def lts10 Let_def
  have "chvprintf cm4 ''%d'' [AInt v] = Some ((if v <s 0 then ''-'' else []) @ radix_str 10 (unat u))"
    by (simp add: ev sign_chars_def emit_def u_def)
  then have 1: "\<exists>s. chvprintf cm4 ''%d'' [AInt v] = Some s \<and> my_atoi s = v"
    using pl by (auto simp: u_def)
  define sg where "sg pos = (if v <s 0 then ''-'' else if pos then ''+'' else [])" for pos
  define st where "st pos = fmt_state0\<lparr>pad_zero := True, positive := pos, default_prec := True, negative := v <s 0\<rparr>" for pos
  have em: "emit (st pos) wd (sg pos @ s) = sg pos @ replicate (nat (wd - int (length (sg pos @ s)))) (CHR ''0'') @ s" for pos wd s
    by (rule emit_zero_padded) (auto simp: st_def sg_def fmt_state0_def)
  define wd where "wd = uint (ucast w :: u8)"
  have pn: "parse_num 0 ''*d'' [AInt w, AInt v] = Some (wd, CHR ''d'', [], [AInt v])"
    using w(1) by (simp add: wd_def [symmetric])
  have cv: "convert cm4 CHR ''d'' 0 (fmt_state0\<lparr>pad_zero := True, positive := pos, default_prec := True\<rparr>) [AInt v]
      = Some (sg pos @ radix_str 10 (unat u), st pos, [])" for pos
    by (simp add: convert_def lts10 sign_chars_def u_def sg_def st_def fmt_state0_def)
  have "parse_flags fmt_state0 ''0*d'' = (fmt_state0\<lparr>pad_zero := True, positive := False\<rparr>, ''*d'')"
    by (simp add: flag_of_def fmt_state0_def)
  then have "directive cm4 ''0*d'' [AInt w, AInt v] = Some (emit (st False) wd (sg False @ radix_str 10 (unat u)), [], [])"
    by (simp only: directive_def Let_def prod.case pn option.case) (simp add: cv)
  then have 2: "chvprintf cm4 ''%0*d'' [AInt w, AInt v] = Some (emit (st False) wd (sg False @ radix_str 10 (unat u)))"
    by (simp add: chvprintf.simps)
  have "parse_flags fmt_state0 ''+0*d'' = (fmt_state0\<lparr>pad_zero := True, positive := True\<rparr>, ''*d'')"
    by (simp add: flag_of_def fmt_state0_def)
  then have "directive cm4 ''+0*d'' [AInt w, AInt v] = Some (emit (st True) wd (sg True @ radix_str 10 (unat u)), [], [])"
    by (simp only: directive_def Let_def prod.case pn option.case) (simp add: cv)
  then have 3: "chvprintf cm4 ''%+0*d'' [AInt w, AInt v] = Some (emit (st True) wd (sg True @ radix_str 10 (unat u)))"
    by (simp add: chvprintf.simps)
  have "my_atoi (emit (st pos) wd (sg pos @ radix_str 10 (unat u))) = v" for pos wd
    unfolding em by (subst z) (auto simp: sg_def u_def)
  moreover have "unat (ucast w :: u8) \<le> length (emit (st pos) wd (sg pos @ radix_str 10 (unat u)))" for pos
  proof -
    have "unat (ucast w :: u8) = nat wd" unfolding wd_def w(2) by (rule nat_int [symmetric])
    then show ?thesis unfolding em by simp
  qed
  ultimately show ?thesis using 1 2 3 by blast
qed

lemma lts_radix: "unat r \<in> {8, 10, 16} \<Longrightarrow> long_to_string_with_divisor p v r 0 = p @ radix_str (unat r) (unat v)"
  by (auto simp: long_to_string_with_divisor_def lts_loop_radix)

lemma radix10_plain: "\<not> looks_prefixed (radix_str 10 n)"
proof -
  have "CHR ''x'' \<notin> set (radix_str 10 n)" "CHR ''o'' \<notin> set (radix_str 10 n)" "CHR ''b'' \<notin> set (radix_str 10 n)"
    using radix10_chars by (auto simp: is_dec_def dest!: radix10_chars)
  then show ?thesis
    unfolding looks_prefixed_def by (metis in_set_takeD insert_iff empty_iff list.set_intros)
qed

text \<open>
  : every unsigned value printed in decimal, or in hexadecimal or
  octal behind the prefix of its radix, is read back by \<open>my_atoui\<close>.
\<close>

theorem printed_unsigned_parses:
  "(\<exists>s. chvprintf cm4 ''%u'' [AInt v] = Some s \<and> my_atoui s = v) \<and>
   (\<exists>s. chvprintf cm4 ''0x%x'' [AInt v] = Some s \<and> my_atoui s = v) \<and>
   (\<exists>s. chvprintf cm4 ''0o%o'' [AInt v] = Some s \<and> my_atoui s = v)"
proof -
  note ev = chvprintf.simps [of _ "_ # _"] chvprintf.simps [of _ "[]"] directive_def flag_of_def fmt_state0_def
    convert_def fmt_unsigned_def lts_radix emit_def Let_def
  have "chvprintf cm4 ''%u'' [AInt v] = Some (radix_str 10 (unat v))" by (simp add: ev)
  moreover have "my_atoui (radix_str 10 (unat v)) = v"
  proof -
    obtain c q where cq: "radix_str 10 (unat v) = c # q" "c \<noteq> CHR ''+''" using printed_head [of 0 "unat v"] by auto
    show ?thesis using my_atoui_plain [OF cq radix10_plain] atoui_loop_radix [of 10 v] by simp
  qed
  moreover have "chvprintf cm4 ''0x%x'' [AInt v] = Some (radix_prefix 16 @ radix_str 16 (unat v))"
    by (simp add: ev radix_prefix_def)
  moreover have "my_atoui (radix_prefix 16 @ radix_str 16 (unat v)) = v"
    using atoui_loop_radix [of 16 v] by (subst my_atoui_prefixed) auto
  moreover have "chvprintf cm4 ''0o%o'' [AInt v] = Some (radix_prefix 8 @ radix_str 8 (unat v))"
    by (simp add: ev radix_prefix_def)
  moreover have "my_atoui (radix_prefix 8 @ radix_str 8 (unat v)) = v"
    using atoui_loop_radix [of 8 v] by (subst my_atoui_prefixed) auto
  ultimately show ?thesis by blast
qed

text \<open>
  The sign branch of the padding takes the first character for a sign whenever the \<open>+\<close> or
  space flag is set; an unsigned conversion has none, so its first digit is split off.
\<close>

lemma plus_zero_unsigned: "chvprintf cm4 ''%+05u'' [AInt 42] = Some ''40002''"
proof -
  have r: "radix_str 10 42 = ''42''" by (simp add: radix_str.simps hex_char_def char_of_def bit_0)
  have l: "long_to_string_with_divisor [] 42 10 0 = ''42''" using lts_radix [of 10 "[]" 42] r by simp
  show ?thesis
    by (simp add: chvprintf.simps [of _ "_ # _"] chvprintf.simps [of _ "[]"] directive_def flag_of_def fmt_state0_def
      convert_def fmt_unsigned_def l emit_def Let_def numeral_3_eq_3)
qed

section \<open>Buffer front ends\<close>

text \<open>\<open>printStream\<close>: the next free byte and the bytes left, the terminator's included.\<close>

record print_stream =
  ps_mem :: "char list"
  ps_buffer :: nat
  ps_size :: u16

definition mem_put :: "char list \<Rightarrow> nat \<Rightarrow> char \<Rightarrow> char list option" where
  "mem_put mem a c = (if a < length mem then Some (mem[a := c]) else None)"

definition ps_put :: "print_stream \<Rightarrow> char \<Rightarrow> print_stream option" where
  "ps_put ps b =
     (if ps_size ps > 1
      then map_option (\<lambda>m. ps\<lparr>ps_mem := m, ps_buffer := ps_buffer ps + 1, ps_size := ps_size ps - 1\<rparr>)
             (mem_put (ps_mem ps) (ps_buffer ps) b)
      else Some ps)"

fun ps_puts :: "print_stream \<Rightarrow> string \<Rightarrow> print_stream option" where
  "ps_puts ps [] = Some ps"
| "ps_puts ps (c # s) = (case ps_put ps c of None \<Rightarrow> None | Some ps \<Rightarrow> ps_puts ps s)"

text \<open>The memory after the call and the returned count; \<open>None\<close> is a write outside.\<close>

definition plot_printf :: "bool \<Rightarrow> char list \<Rightarrow> nat \<Rightarrow> int \<Rightarrow> string \<Rightarrow> arg list \<Rightarrow> (char list \<times> int) option" where
  "plot_printf cm4 mem str sz fmt args =
     (if sz \<le> 0 then Some (mem, 0)
      else case chvprintf cm4 fmt args of
             None \<Rightarrow> None
           | Some out \<Rightarrow>
             (case ps_puts \<lparr>ps_mem = mem, ps_buffer = str, ps_size = word_of_int sz\<rparr> out of
                None \<Rightarrow> None
              | Some ps \<Rightarrow>
                map_option (\<lambda>m. (m, if int (length out) > sz - 1 then sz - 1 else int (length out)))
                  (mem_put (ps_mem ps) (ps_buffer ps) NUL)))"

text \<open>\<open>MemoryStream\<close> of ChibiOS (\<open>size - eos <= 0\<close> in \<open>size_t\<close> is equality): \<open>put\<close> answers \<open>MSG_RESET\<close> when full, which nobody reads.\<close>

record memory_stream =
  ms_mem :: "char list"
  ms_buffer :: nat
  ms_size :: nat
  ms_eos :: nat

definition ms_put :: "memory_stream \<Rightarrow> char \<Rightarrow> memory_stream option" where
  "ms_put ms b =
     (if ms_size ms = ms_eos ms then Some ms
      else map_option (\<lambda>m. ms\<lparr>ms_mem := m, ms_eos := ms_eos ms + 1\<rparr>)
             (mem_put (ms_mem ms) (ms_buffer ms + ms_eos ms) b))"

fun ms_puts :: "memory_stream \<Rightarrow> string \<Rightarrow> memory_stream option" where
  "ms_puts ms [] = Some ms"
| "ms_puts ms (c # s) = (case ms_put ms c of None \<Rightarrow> None | Some ms \<Rightarrow> ms_puts ms s)"

definition chsnprintf :: "bool \<Rightarrow> char list \<Rightarrow> nat \<Rightarrow> nat \<Rightarrow> string \<Rightarrow> arg list \<Rightarrow> (char list \<times> int) option" where
  "chsnprintf cm4 mem str sz fmt args =
     (let size_wo_nul = (if sz > 0 then sz - 1 else 0)
      in case chvprintf cm4 fmt args of
           None \<Rightarrow> None
         | Some out \<Rightarrow>
           (case ms_puts \<lparr>ms_mem = mem, ms_buffer = str, ms_size = size_wo_nul, ms_eos = 0\<rparr> out of
              None \<Rightarrow> None
            | Some ms \<Rightarrow>
              if ms_eos ms < sz
              then map_option (\<lambda>m. (m, int (length out))) (mem_put (ms_mem ms) (str + ms_eos ms) NUL)
              else Some (ms_mem ms, int (length out))))"

lemma ps_puts_eq:
  assumes "a + unat k \<le> length mem" "0 < unat k"
  shows "ps_puts \<lparr>ps_mem = mem, ps_buffer = a, ps_size = k\<rparr> s =
    Some \<lparr>ps_mem = take a mem @ take (unat k - 1) s @ drop (a + min (unat k - 1) (length s)) mem,
          ps_buffer = a + min (unat k - 1) (length s), ps_size = k - of_nat (min (unat k - 1) (length s))\<rparr>"
  using assms
proof (induction s arbitrary: mem a k)
  case Nil
  then show ?case by simp
next
  case (Cons c s)
  show ?case
  proof (cases "k > 1")
    case True
    then have u: "1 < unat k" "unat (k - 1) = unat k - 1" by (simp_all add: word_less_nat_alt unat_sub_if')
    then have m: "min (unat k - 1) (length (c # s)) = Suc (min (unat (k - 1) - 1) (length s))" by simp
    have "ps_puts \<lparr>ps_mem = mem[a := c], ps_buffer = Suc a, ps_size = k - 1\<rparr> s =
      Some \<lparr>ps_mem = take (Suc a) (mem[a := c]) @ take (unat (k - 1) - 1) s @ drop (Suc a + min (unat (k - 1) - 1) (length s)) (mem[a := c]),
          ps_buffer = Suc a + min (unat (k - 1) - 1) (length s), ps_size = k - 1 - of_nat (min (unat (k - 1) - 1) (length s))\<rparr>"
      using Cons.prems u by (intro Cons.IH) auto
    moreover have "take (Suc a) (mem[a := c]) = take a mem @ [c]"
      using Cons.prems u by (simp add: take_Suc_conv_app_nth)
    moreover have "take (unat k - 1) (c # s) = c # take (unat (k - 1) - 1) s"
      using u by (cases "unat k - 1") auto
    ultimately show ?thesis
      using True Cons.prems u(1) unfolding m by (simp add: ps_put_def mem_put_def)
  next
    case False
    then have "unat k = 1" using Cons.prems by (simp add: word_less_nat_alt)
    moreover have "ps_puts \<lparr>ps_mem = mem, ps_buffer = a, ps_size = k\<rparr> s =
      Some \<lparr>ps_mem = take a mem @ take (unat k - 1) s @ drop (a + min (unat k - 1) (length s)) mem,
          ps_buffer = a + min (unat k - 1) (length s), ps_size = k - of_nat (min (unat k - 1) (length s))\<rparr>"
      by (rule Cons.IH [OF Cons.prems])
    ultimately show ?thesis using False by (simp add: ps_put_def)
  qed
qed

lemma ms_puts_eq:
  assumes "a + n \<le> length mem" "e \<le> n"
  shows "ms_puts \<lparr>ms_mem = mem, ms_buffer = a, ms_size = n, ms_eos = e\<rparr> s =
    Some \<lparr>ms_mem = take (a + e) mem @ take (n - e) s @ drop (a + e + min (n - e) (length s)) mem,
          ms_buffer = a, ms_size = n, ms_eos = e + min (n - e) (length s)\<rparr>"
  using assms
proof (induction s arbitrary: mem e)
  case Nil
  then show ?case by simp
next
  case (Cons c s)
  show ?case
  proof (cases "n = e")
    case True
    then show ?thesis using Cons.IH [OF Cons.prems] by (simp add: ms_put_def)
  next
    case False
    have m: "min (n - e) (length (c # s)) = Suc (min (n - Suc e) (length s))" using False Cons.prems by simp
    have "ms_puts \<lparr>ms_mem = mem[a + e := c], ms_buffer = a, ms_size = n, ms_eos = Suc e\<rparr> s =
      Some \<lparr>ms_mem = take (a + Suc e) (mem[a + e := c]) @ take (n - Suc e) s @ drop (a + Suc e + min (n - Suc e) (length s)) (mem[a + e := c]),
          ms_buffer = a, ms_size = n, ms_eos = Suc e + min (n - Suc e) (length s)\<rparr>"
      using Cons.prems False by (intro Cons.IH) auto
    moreover have "take (a + Suc e) (mem[a + e := c]) = take (a + e) mem @ [c]"
      using Cons.prems False by (simp add: take_Suc_conv_app_nth)
    moreover have "take (n - e) (c # s) = c # take (n - Suc e) s"
    proof -
      have "n - e = Suc (n - Suc e)" using False Cons.prems by simp
      then show ?thesis by simp
    qed
    ultimately show ?thesis
      using False Cons.prems unfolding m by (simp add: ms_put_def mem_put_def)
  qed
qed

lemma update_at_cut: "a + n < length mem \<Longrightarrow> length s = n \<Longrightarrow>
    (take a mem @ s @ drop (a + n) mem)[a + n := x] = take a mem @ s @ x # drop (Suc (a + n)) mem"
  by (simp add: list_update_append Cons_nth_drop_Suc [symmetric])

text \<open>
  Both buffer front ends write the text cut to one byte less than the
  buffer and its terminator, and touch nothing outside the buffer: \<open>plot_printf\<close> for every
  size its 16-bit counter can hold, \<open>chsnprintf\<close> for every positive size. \<open>plot_printf\<close>
  returns the number of characters stored, \<open>chsnprintf\<close> the length of the whole text.
\<close>

theorem bounded_printers:
  assumes "chvprintf cm4 fmt args = Some out" "0 < n" "str + n \<le> length mem"
  defines "kept \<equiv> take (n - 1) out"
  shows "(n < 2 ^ 16 \<longrightarrow> plot_printf cm4 mem str (int n) fmt args =
            Some (take str mem @ kept @ NUL # drop (str + length kept + 1) mem, int (length kept))) \<and>
         chsnprintf cm4 mem str n fmt args =
            Some (take str mem @ kept @ NUL # drop (str + length kept + 1) mem, int (length out))"
proof -
  have lk: "length kept = min (n - 1) (length out)" by (simp add: kept_def)
  have lt: "str + length kept < length mem" using assms lk by auto
  let ?m = "take str mem @ kept @ drop (str + length kept) mem"
  have put: "mem_put ?m (str + length kept) NUL = Some (take str mem @ kept @ NUL # drop (str + length kept + 1) mem)"
    using update_at_cut [OF lt refl] lt by (simp add: mem_put_def)
  have "plot_printf cm4 mem str (int n) fmt args =
      Some (take str mem @ kept @ NUL # drop (str + length kept + 1) mem, int (length kept))" if n: "n < 2 ^ 16"
  proof -
    have u: "unat (word_of_int (int n) :: u16) = n" using n by (simp add: unat_of_nat take_bit_nat_eq_self)
    have "ps_puts \<lparr>ps_mem = mem, ps_buffer = str, ps_size = word_of_int (int n)\<rparr> out =
      Some \<lparr>ps_mem = ?m, ps_buffer = str + length kept, ps_size = word_of_int (int n) - of_nat (length kept)\<rparr>"
      using ps_puts_eq [of str "word_of_int (int n)" mem out] assms unfolding u kept_def by (simp add: min.commute)
    moreover have "(if int (length out) > int n - 1 then int n - 1 else int (length out)) = int (length kept)"
      using assms(2) lk by auto
    ultimately show ?thesis using assms(1,2) by (simp add: plot_printf_def put del: of_nat_less_iff)
  qed
  moreover have "chsnprintf cm4 mem str n fmt args =
      Some (take str mem @ kept @ NUL # drop (str + length kept + 1) mem, int (length out))"
  proof -
    have "ms_puts \<lparr>ms_mem = mem, ms_buffer = str, ms_size = n - 1, ms_eos = 0\<rparr> out =
      Some \<lparr>ms_mem = ?m, ms_buffer = str, ms_size = n - 1, ms_eos = length kept\<rparr>"
      using ms_puts_eq [of str "n - 1" mem 0 out] assms unfolding kept_def by (simp add: min.commute)
    moreover have "length kept < n" using assms(2) lk by simp
    ultimately show ?thesis using assms(1,2) put by (simp add: chsnprintf_def)
  qed
  ultimately show ?thesis by blast
qed

theorem bounded_printers_witness:
  "plot_printf True ''######'' 1 4 ''ab%%cd'' [] = Some (''#ab%'' @ [NUL] @ ''#'', 3)"
proof -
  have "chvprintf True ''ab%%cd'' [] = Some ''ab%cd''"
    by (simp add: chvprintf.simps [of _ "_ # _"] chvprintf.simps [of _ "[]"] directive_def flag_of_def fmt_state0_def convert_def emit_def)
  then show ?thesis
    using bounded_printers [of True "''ab%%cd''" "[]" "''ab%cd''" 4 1 "''######''"] by simp
qed

end
