(* ===== verification/Mailbox.thy ===== *)
theory Mailbox
  imports Nvx_Prelude
begin

text \<open>
  The mailbox of ChibiOS (\<open>third_party/ChibiOS/os/common/oslib/src/chmboxes.c\<close>) the event
  bus queues its nodes in: a circular buffer with a semaphore counter for the free and one
  for the used slots. The calls the firmware makes never wait for a slot
  (\<open>chMBPost\<close> with \<open>TIME_IMMEDIATE\<close>, \<open>chMBPostI\<close>), and a fetch that finds nothing gives up
  when its time is over: \<open>False\<close> and \<open>None\<close> are \<open>MSG_TIMEOUT\<close>.

  The interface the event bus relies on is the locale \<open>bounded_fifo\<close>; the mailbox is an
  instance of it.
\<close>

section \<open>A bounded first-in first-out queue\<close>

datatype 'm queue_op = Post 'm | Fetch

locale bounded_fifo =
  fixes post :: "'q \<Rightarrow> 'm \<Rightarrow> bool \<times> 'q"
    and fetch :: "'q \<Rightarrow> 'm option \<times> 'q"
    and ok :: "'q \<Rightarrow> bool"
    and contents :: "'q \<Rightarrow> 'm list"
    and room :: "'q \<Rightarrow> nat"
  assumes post_full: "ok q \<Longrightarrow> length (contents q) = room q \<Longrightarrow>
      \<exists>q'. post q m = (False, q') \<and> ok q' \<and> contents q' = contents q \<and> room q' = room q"
    and post_room: "ok q \<Longrightarrow> length (contents q) < room q \<Longrightarrow>
      \<exists>q'. post q m = (True, q') \<and> ok q' \<and> contents q' = contents q @ [m] \<and> room q' = room q"
    and fetch_nil: "ok q \<Longrightarrow> contents q = [] \<Longrightarrow> fetch q = (None, q)"
    and fetch_cons: "ok q \<Longrightarrow> contents q = m # ms \<Longrightarrow>
      \<exists>q'. fetch q = (Some m, q') \<and> ok q' \<and> contents q' = ms \<and> room q' = room q"
    and bounded: "ok q \<Longrightarrow> length (contents q) \<le> room q"
begin

lemma post_result:
  assumes "ok q" "post q m = (b, q')"
  shows "ok q' \<and> room q' = room q \<and> b = (length (contents q) < room q) \<and>
    contents q' = (if b then contents q @ [m] else contents q)"
  using post_full [OF assms(1), of m] post_room [OF assms(1), of m] bounded [OF assms(1)] assms(2)
  by (cases "length (contents q) < room q") auto

lemma fetch_result:
  assumes "ok q" "fetch q = (r, q')"
  shows "ok q' \<and> room q' = room q \<and> contents q = (case r of None \<Rightarrow> [] | Some m \<Rightarrow> [m]) @ contents q'
    \<and> (r = None \<longleftrightarrow> contents q = [])"
  using fetch_nil [OF assms(1)] fetch_cons [OF assms(1)] assms
  by (cases "contents q") fastforce+

text \<open>A run of operations, refused ones included: what was accepted and what came out.\<close>

fun run :: "'q \<Rightarrow> 'm queue_op list \<Rightarrow> 'q \<times> 'm list \<times> 'm list" where
  "run q [] = (q, [], [])"
| "run q (Post m # ops) =
     (let (b, q) = post q m; (q, acc, out) = run q ops in (q, (if b then [m] else []) @ acc, out))"
| "run q (Fetch # ops) =
     (let (r, q) = fetch q; (q, acc, out) = run q ops
      in (q, acc, (case r of None \<Rightarrow> [] | Some m \<Rightarrow> [m]) @ out))"

lemma run_fifo:
  "ok q \<Longrightarrow> run q ops = (q', acc, out) \<Longrightarrow>
     ok q' \<and> room q' = room q \<and> out @ contents q' = contents q @ acc"
proof (induction ops arbitrary: q acc out)
  case Nil
  then show ?case by simp
next
  case (Cons a ops)
  show ?case
  proof (cases a)
    case (Post m)
    obtain b q1 where q1: "post q m = (b, q1)" by (cases "post q m")
    obtain q2 acc' out' where "run q1 ops = (q2, acc', out')" by (cases "run q1 ops")
    then show ?thesis using Cons Post q1 post_result [OF Cons.prems(1) q1] by (fastforce split: if_splits)
  next
    case Fetch
    obtain r q1 where q1: "fetch q = (r, q1)" by (cases "fetch q")
    obtain q2 acc' out' where "run q1 ops = (q2, acc', out')" by (cases "run q1 ops")
    then show ?thesis using Cons Fetch q1 fetch_result [OF Cons.prems(1) q1] by fastforce
  qed
qed

end

section \<open>The circular buffer\<close>

record 'm mailbox =
  mb_buffer :: "'m list"
  mb_rdptr :: nat
  mb_wrptr :: nat
  mb_emptysem :: int
  mb_fullsem :: int

definition mb_init :: "'m list \<Rightarrow> 'm mailbox" where
  "mb_init buf = \<lparr>mb_buffer = buf, mb_rdptr = 0, mb_wrptr = 0,
     mb_emptysem = int (length buf), mb_fullsem = 0\<rparr>"

definition mb_reset :: "'m mailbox \<Rightarrow> 'm mailbox" where
  "mb_reset mb = mb\<lparr>mb_wrptr := 0, mb_rdptr := 0,
     mb_emptysem := int (length (mb_buffer mb)), mb_fullsem := 0\<rparr>"

definition mb_post :: "'m mailbox \<Rightarrow> 'm \<Rightarrow> bool \<times> 'm mailbox" where
  "mb_post mb msg =
     (if mb_emptysem mb \<le> 0 then (False, mb)
      else let wr = mb_wrptr mb + 1
           in (True, mb\<lparr>mb_emptysem := mb_emptysem mb - 1,
                       mb_buffer := (mb_buffer mb)[mb_wrptr mb := msg],
                       mb_wrptr := (if wr \<ge> length (mb_buffer mb) then 0 else wr),
                       mb_fullsem := mb_fullsem mb + 1\<rparr>))"

definition mb_post_ahead :: "'m mailbox \<Rightarrow> 'm \<Rightarrow> bool \<times> 'm mailbox" where
  "mb_post_ahead mb msg =
     (if mb_emptysem mb \<le> 0 then (False, mb)
      else let rd = (if mb_rdptr mb = 0 then length (mb_buffer mb) - 1 else mb_rdptr mb - 1)
           in (True, mb\<lparr>mb_emptysem := mb_emptysem mb - 1, mb_rdptr := rd,
                       mb_buffer := (mb_buffer mb)[rd := msg],
                       mb_fullsem := mb_fullsem mb + 1\<rparr>))"

definition mb_fetch :: "'m mailbox \<Rightarrow> 'm option \<times> 'm mailbox" where
  "mb_fetch mb =
     (if mb_fullsem mb \<le> 0 then (None, mb)
      else let rd = mb_rdptr mb + 1
           in (Some (mb_buffer mb ! mb_rdptr mb),
                    mb\<lparr>mb_fullsem := mb_fullsem mb - 1,
                       mb_rdptr := (if rd \<ge> length (mb_buffer mb) then 0 else rd),
                       mb_emptysem := mb_emptysem mb + 1\<rparr>))"

text \<open>The pointers stay in the buffer and the two counters account for every slot.\<close>

definition mb_ok :: "'m mailbox \<Rightarrow> bool" where
  "mb_ok mb \<longleftrightarrow>
     mb_rdptr mb < length (mb_buffer mb) \<and>
     0 \<le> mb_fullsem mb \<and> 0 \<le> mb_emptysem mb \<and>
     mb_emptysem mb + mb_fullsem mb = int (length (mb_buffer mb)) \<and>
     mb_wrptr mb = (mb_rdptr mb + nat (mb_fullsem mb)) mod length (mb_buffer mb)"

definition mb_contents :: "'m mailbox \<Rightarrow> 'm list" where
  "mb_contents mb =
     map (\<lambda>i. mb_buffer mb ! ((mb_rdptr mb + i) mod length (mb_buffer mb))) [0..<nat (mb_fullsem mb)]"

lemma mb_init_ok: "buf \<noteq> [] \<Longrightarrow> mb_ok (mb_init buf) \<and> mb_contents (mb_init buf) = []"
  by (simp add: mb_init_def mb_ok_def mb_contents_def)

lemma mb_reset_ok: "mb_ok mb \<Longrightarrow> mb_ok (mb_reset mb) \<and> mb_contents (mb_reset mb) = []"
  by (auto simp: mb_reset_def mb_ok_def mb_contents_def)

lemma wrap_mod: "p < n \<Longrightarrow> (if n \<le> p + 1 then 0 else p + 1) = (p + 1) mod (n :: nat)"
  by (cases "p + 1 = n") auto

lemma ring_apart:
  assumes "i < k" "k < (n :: nat)"
  shows "(r + i) mod n \<noteq> (r + k) mod n"
proof
  assume "(r + i) mod n = (r + k) mod n"
  then have "(r + k) mod n = (r + i) mod n" by (rule sym)
  then have "n dvd (k - i)" using assms by (subst (asm) mod_eq_dvd_iff_nat) auto
  then show False using assms by (auto dest: dvd_imp_le)
qed

lemma mb_post_some:
  assumes "mb_ok mb" "0 < mb_emptysem mb"
  shows "\<exists>mb'. mb_post mb m = (True, mb') \<and> mb_ok mb' \<and> mb_contents mb' = mb_contents mb @ [m] \<and>
    length (mb_buffer mb') = length (mb_buffer mb)"
proof -
  define n k r where "n = length (mb_buffer mb)" and "k = nat (mb_fullsem mb)" and "r = mb_rdptr mb"
  have k: "k < n" "r < n" "mb_wrptr mb = (r + k) mod n" "nat (mb_fullsem mb + 1) = Suc k"
    using assms by (auto simp: mb_ok_def n_def k_def r_def)
  have w: "(if n \<le> mb_wrptr mb + 1 then 0 else mb_wrptr mb + 1) = (r + Suc k) mod n"
    using k by (subst wrap_mod) (simp_all add: mod_simps)
  have "map (\<lambda>i. (mb_buffer mb)[(r + k) mod n := m] ! ((r + i) mod n)) [0..<Suc k] =
      map (\<lambda>i. mb_buffer mb ! ((r + i) mod n)) [0..<k] @ [m]"
    using k ring_apart [of _ k n r] by (auto simp: nth_list_update_neq [OF not_sym] n_def [symmetric])
  then show ?thesis
    using assms k w
    by (auto simp: mb_post_def mb_ok_def mb_contents_def Let_def n_def [symmetric] k_def [symmetric] r_def [symmetric])
qed

lemma mb_fetch_some:
  assumes "mb_ok mb" "0 < mb_fullsem mb"
  shows "\<exists>m mb'. mb_fetch mb = (Some m, mb') \<and> mb_ok mb' \<and> mb_contents mb = m # mb_contents mb' \<and>
    length (mb_buffer mb') = length (mb_buffer mb)"
proof -
  define n k r where "n = length (mb_buffer mb)" and "k = nat (mb_fullsem mb) - 1" and "r = mb_rdptr mb"
  have k: "k < n" "r < n" "nat (mb_fullsem mb) = Suc k" "mb_wrptr mb = (r + Suc k) mod n" "nat (mb_fullsem mb - 1) = k"
    using assms by (auto simp: mb_ok_def n_def k_def r_def)
  define r' where "r' = (if n \<le> r + 1 then 0 else r + 1)"
  have r': "r' = (r + 1) mod n" "r' < n" unfolding r'_def using wrap_mod [OF k(2)] k(2) by simp_all
  let ?mb = "mb\<lparr>mb_fullsem := mb_fullsem mb - 1, mb_rdptr := r', mb_emptysem := mb_emptysem mb + 1\<rparr>"
  have "mb_fetch mb = (Some (mb_buffer mb ! r), ?mb)"
    using assms by (simp add: mb_fetch_def Let_def r'_def n_def r_def)
  moreover have "mb_ok ?mb"
    using assms k r'(2) unfolding mb_ok_def by (auto simp: n_def [symmetric] r'(1) mod_simps)
  moreover have "map (\<lambda>i. mb_buffer mb ! ((r + i) mod n)) [0..<Suc k] =
      mb_buffer mb ! r # map (\<lambda>i. mb_buffer mb ! ((r' + i) mod n)) [0..<k]"
    using k by (simp add: r'(1) upt_rec [of 0] map_Suc_upt [symmetric] mod_simps del: upt_Suc)
  then have "mb_contents mb = mb_buffer mb ! r # mb_contents ?mb"
    by (simp add: mb_contents_def k(3,5) n_def [symmetric] r_def [symmetric] del: upt_Suc)
  ultimately show ?thesis by (intro exI [of _ "mb_buffer mb ! r"] exI [of _ ?mb]) (simp add: n_def)
qed

text \<open>Room is the length of the buffer handed to \<open>chMBObjectInit\<close>.\<close>

definition mb_room :: "'m mailbox \<Rightarrow> nat" where
  "mb_room mb = length (mb_buffer mb)"

lemma mb_contents_length: "mb_ok mb \<Longrightarrow> length (mb_contents mb) = nat (mb_fullsem mb)"
  by (simp add: mb_contents_def)

interpretation mbox: bounded_fifo mb_post mb_fetch mb_ok mb_contents mb_room
proof
  fix q :: "'a mailbox" and m
  assume ok: "mb_ok q"
  show "length (mb_contents q) \<le> mb_room q" using ok by (auto simp: mb_contents_length mb_room_def mb_ok_def)
  show "\<exists>q'. mb_post q m = (False, q') \<and> mb_ok q' \<and> mb_contents q' = mb_contents q \<and> mb_room q' = mb_room q" if "length (mb_contents q) = mb_room q"
    using ok that by (auto simp: mb_post_def mb_contents_length mb_room_def mb_ok_def)
  show "\<exists>q'. mb_post q m = (True, q') \<and> mb_ok q' \<and> mb_contents q' = mb_contents q @ [m] \<and> mb_room q' = mb_room q"
    if "length (mb_contents q) < mb_room q"
    using ok that mb_post_some [OF ok] by (auto simp: mb_contents_length mb_room_def mb_ok_def)
  show "mb_fetch q = (None, q)" if "mb_contents q = []"
    using ok that by (auto simp: mb_fetch_def mb_contents_def)
  show "\<exists>q'. mb_fetch q = (Some m, q') \<and> mb_ok q' \<and> mb_contents q' = ms \<and> mb_room q' = mb_room q"
    if "mb_contents q = m # ms" for ms
  proof -
    have "0 < mb_fullsem q" using that ok by (cases "mb_fullsem q \<le> 0") (auto simp: mb_contents_def)
    then show ?thesis using mb_fetch_some [OF ok] that by (auto simp: mb_room_def)
  qed
qed

end
