(* ===== verification/Event_Bus.thy ===== *)
theory Event_Bus
  imports Mailbox "HOL-Library.Multiset"
begin

text \<open>
  \<open>src/src/sys/event_bus.c\<close>: a subscription table, a pool of message nodes and a mailbox
  of node pointers. A pointer is its index in the array it points into; a null array
  pointer is \<open>None\<close>. A listener is a name; calling it is recorded as an \<open>invocation\<close>, in
  order. The bus itself is never \<open>NULL\<close> here (the guards against it need no branch). What a listener does to the bus (it may publish again) is an interleaving of the
  bus' own critical sections, the subject of the last section.
\<close>

section \<open>Data\<close>

datatype event_bus_topic =
    EVENT_SWEEP_STARTED
  | EVENT_SWEEP_COMPLETED
  | EVENT_TOUCH_INPUT
  | EVENT_STORAGE_UPDATED
  | EVENT_CONFIGURATION_CHANGED
  | EVENT_USB_COMMAND_PENDING
  | EVENT_SWEEP_PROGRESS

type_synonym payload = u32
type_synonym listener = nat

record event_bus_message =
  msg_topic :: event_bus_topic
  msg_payload :: payload

record event_bus_subscription =
  sub_callback :: "listener option"
  sub_user_data :: u32
  sub_topic :: event_bus_topic

record event_bus_queue_node =
  node_message :: event_bus_message
  node_in_use :: bool

record event_bus =
  eb_subscriptions :: "event_bus_subscription list option"
  eb_capacity :: nat
  eb_count :: nat
  eb_mailbox :: "nat mailbox"
  eb_mailbox_ready :: bool
  eb_queue_length :: nat
  eb_nodes :: "event_bus_queue_node list option"
  eb_node_count :: nat

text \<open>A call \<open>callback(message, user_data)\<close>.\<close>

type_synonym invocation = "listener \<times> event_bus_message \<times> u32"

section \<open>Operations\<close>

fun eb_scan :: "event_bus_subscription list \<Rightarrow> event_bus_message \<Rightarrow> invocation list" where
  "eb_scan [] message = []"
| "eb_scan (slot # slots) message =
     (case sub_callback slot of
        None \<Rightarrow> eb_scan slots message
      | Some cb \<Rightarrow> if sub_topic slot \<noteq> msg_topic message then eb_scan slots message
                  else (cb, message, sub_user_data slot) # eb_scan slots message)"

definition event_bus_dispatch_to_subscribers ::
  "event_bus \<Rightarrow> event_bus_message \<Rightarrow> bool \<times> invocation list" where
  "event_bus_dispatch_to_subscribers bus message =
     (case eb_subscriptions bus of
        None \<Rightarrow> (False, [])
      | Some subs \<Rightarrow> let calls = eb_scan (take (eb_count bus) subs) message in (calls \<noteq> [], calls))"

definition event_bus_init ::
  "event_bus \<Rightarrow> event_bus_subscription list option \<Rightarrow> nat \<Rightarrow> nat list option \<Rightarrow> nat \<Rightarrow>
   event_bus_queue_node list option \<Rightarrow> nat \<Rightarrow> event_bus" where
  "event_bus_init bus storage capacity queue_storage queue_length nodes node_count =
     (let bus = bus\<lparr>eb_subscriptions := storage,
                    eb_capacity := (if storage = None then 0 else capacity),
                    eb_count := 0, eb_queue_length := queue_length, eb_nodes := nodes,
                    eb_node_count := node_count, eb_mailbox_ready := False\<rparr>;
          bus = (case queue_storage of
                   None \<Rightarrow> bus
                 | Some q \<Rightarrow> if queue_length > 0
                            then bus\<lparr>eb_mailbox := mb_init (take queue_length q), eb_mailbox_ready := True\<rparr>
                            else bus)
      in bus\<lparr>eb_nodes :=
           map_option (\<lambda>ns. map (\<lambda>node. node\<lparr>node_in_use := False,
               node_message := \<lparr>msg_topic = EVENT_SWEEP_STARTED, msg_payload = 0\<rparr>\<rparr>) (take node_count ns)
             @ drop node_count ns) nodes\<rparr>)"

definition event_bus_subscribe ::
  "event_bus \<Rightarrow> event_bus_topic \<Rightarrow> listener option \<Rightarrow> u32 \<Rightarrow> bool \<times> event_bus" where
  "event_bus_subscribe bus topic listener user_data =
     (case (listener, eb_subscriptions bus) of
        (Some cb, Some subs) \<Rightarrow>
          if eb_count bus \<ge> eb_capacity bus then (False, bus)
          else (True, bus\<lparr>eb_count := eb_count bus + 1,
                          eb_subscriptions := Some (subs[eb_count bus :=
                            \<lparr>sub_callback = Some cb, sub_user_data = user_data, sub_topic = topic\<rparr>])\<rparr>)
      | _ \<Rightarrow> (False, bus))"

text \<open>The index of the first free node among the first \<open>n\<close>.\<close>

fun find_free :: "event_bus_queue_node list \<Rightarrow> nat option" where
  "find_free [] = None"
| "find_free (candidate # ns) = (if \<not> node_in_use candidate then Some 0 else map_option Suc (find_free ns))"

definition event_bus_alloc_node ::
  "event_bus \<Rightarrow> event_bus_topic \<Rightarrow> payload \<Rightarrow> nat option \<times> event_bus" where
  "event_bus_alloc_node bus topic payload =
     (case eb_nodes bus of
        None \<Rightarrow> (None, bus)
      | Some ns \<Rightarrow>
          if eb_node_count bus = 0 then (None, bus)
          else case find_free (take (eb_node_count bus) ns) of
                 None \<Rightarrow> (None, bus)
               | Some i \<Rightarrow> (Some i, bus\<lparr>eb_nodes := Some (ns[i :=
                   \<lparr>node_message = \<lparr>msg_topic = topic, msg_payload = payload\<rparr>, node_in_use = True\<rparr>])\<rparr>))"

definition eb_release :: "event_bus \<Rightarrow> nat \<Rightarrow> event_bus" where
  "eb_release bus i =
     bus\<lparr>eb_nodes := map_option (\<lambda>ns. ns[i := (ns ! i)\<lparr>node_in_use := False\<rparr>]) (eb_nodes bus)\<rparr>"

text \<open>
  Both calls post without waiting; \<open>from_isr\<close> only selects the lock, so the model keeps it
  as an argument that changes nothing here.
\<close>

definition event_bus_enqueue :: "event_bus \<Rightarrow> nat option \<Rightarrow> bool \<Rightarrow> bool \<times> event_bus" where
  "event_bus_enqueue bus node from_isr =
     (case node of
        None \<Rightarrow> (False, bus)
      | Some i \<Rightarrow>
          if \<not> eb_mailbox_ready bus then (False, bus)
          else case mb_post (eb_mailbox bus) i of
                 (False, mb) \<Rightarrow> (False, eb_release (bus\<lparr>eb_mailbox := mb\<rparr>) i)
               | (True, mb) \<Rightarrow> (True, bus\<lparr>eb_mailbox := mb\<rparr>))"

definition event_bus_publish_common ::
  "event_bus \<Rightarrow> event_bus_topic \<Rightarrow> payload \<Rightarrow> bool \<Rightarrow> bool \<times> event_bus \<times> invocation list" where
  "event_bus_publish_common bus topic payload from_isr =
     (let message = \<lparr>msg_topic = topic, msg_payload = payload\<rparr>
      in if \<not> eb_mailbox_ready bus
         then (True, bus, snd (event_bus_dispatch_to_subscribers bus message))
         else case event_bus_alloc_node bus topic payload of
                (None, bus) \<Rightarrow> (False, bus, [])
              | (Some node, bus) \<Rightarrow>
                  (let (success, bus) = event_bus_enqueue bus (Some node) from_isr
                   in if \<not> success \<and> \<not> from_isr
                      then (True, bus, snd (event_bus_dispatch_to_subscribers bus message))
                      else (success, bus, [])))"

definition event_bus_publish :: "event_bus \<Rightarrow> event_bus_topic \<Rightarrow> payload \<Rightarrow> bool \<times> event_bus \<times> invocation list" where
  "event_bus_publish bus topic payload = event_bus_publish_common bus topic payload False"

definition event_bus_publish_from_isr :: "event_bus \<Rightarrow> event_bus_topic \<Rightarrow> payload \<Rightarrow> bool \<times> event_bus \<times> invocation list" where
  "event_bus_publish_from_isr bus topic payload = event_bus_publish_common bus topic payload True"

definition event_bus_dispatch :: "event_bus \<Rightarrow> bool \<times> event_bus \<times> invocation list" where
  "event_bus_dispatch bus =
     (if \<not> eb_mailbox_ready bus then (False, bus, [])
      else case mb_fetch (eb_mailbox bus) of
             (None, mb) \<Rightarrow> (False, bus\<lparr>eb_mailbox := mb\<rparr>, [])
           | (Some node, mb) \<Rightarrow>
               let bus = bus\<lparr>eb_mailbox := mb\<rparr>;
                   message = (case eb_nodes bus of Some ns \<Rightarrow> node_message (ns ! node) | None \<Rightarrow> undefined)
               in (True, eb_release bus node, snd (event_bus_dispatch_to_subscribers bus message)))"

section \<open>The bus as a bounded queue of messages\<close>

definition eb_ns :: "event_bus \<Rightarrow> event_bus_queue_node list" where
  "eb_ns bus = the (eb_nodes bus)"

definition eb_pending :: "event_bus \<Rightarrow> nat list" where
  "eb_pending bus = mb_contents (eb_mailbox bus)"

definition eb_queue :: "event_bus \<Rightarrow> event_bus_message list" where
  "eb_queue bus = map (\<lambda>i. node_message (eb_ns bus ! i)) (eb_pending bus)"

definition eb_room :: "event_bus \<Rightarrow> nat" where
  "eb_room bus = min (eb_node_count bus) (mb_room (eb_mailbox bus))"

text \<open>The nodes \<open>held\<close> besides the queued ones are in the hands of a running call.\<close>

definition eb_wf :: "nat list \<Rightarrow> event_bus \<Rightarrow> bool" where
  "eb_wf held bus \<longleftrightarrow>
     eb_mailbox_ready bus \<and> mb_ok (eb_mailbox bus) \<and> eb_nodes bus \<noteq> None \<and>
     eb_node_count bus \<le> length (eb_ns bus) \<and>
     distinct (eb_pending bus @ held) \<and>
     set (eb_pending bus @ held) = {i. i < eb_node_count bus \<and> node_in_use (eb_ns bus ! i)}"

abbreviation eb_ok :: "event_bus \<Rightarrow> bool" where
  "eb_ok \<equiv> eb_wf []"

text \<open>The calls a message leads to: its topic's listeners in the order they subscribed.\<close>

definition eb_calls :: "event_bus \<Rightarrow> event_bus_message \<Rightarrow> invocation list" where
  "eb_calls bus m = snd (event_bus_dispatch_to_subscribers bus m)"

definition eb_static :: "event_bus \<Rightarrow> event_bus_subscription list option \<times> nat \<times> nat \<times> nat" where
  "eb_static bus = (eb_subscriptions bus, eb_count bus, eb_node_count bus, mb_room (eb_mailbox bus))"

lemma eb_calls_static: "eb_static bus = eb_static bus' \<Longrightarrow> eb_calls bus m = eb_calls bus' m"
  by (simp add: eb_static_def eb_calls_def event_bus_dispatch_to_subscribers_def split: option.split)

lemma eb_room_static: "eb_static bus = eb_static bus' \<Longrightarrow> eb_room bus = eb_room bus'"
  by (simp add: eb_static_def eb_room_def)

lemma eb_scan_filter:
  "eb_scan subs m = map (\<lambda>s. (the (sub_callback s), m, sub_user_data s))
     (filter (\<lambda>s. sub_callback s \<noteq> None \<and> sub_topic s = msg_topic m) subs)"
  by (induction subs) (auto split: option.splits)

lemma find_free_none: "find_free ns = None \<longleftrightarrow> (\<forall>i < length ns. node_in_use (ns ! i))"
  by (induction ns) (auto simp: All_less_Suc2)

lemma find_free_some: "find_free ns = Some i \<Longrightarrow> i < length ns \<and> \<not> node_in_use (ns ! i)"
  by (induction ns arbitrary: i) (auto split: if_splits)

subsection \<open>Allocation and release\<close>

lemma alloc_none:
  assumes "eb_wf held bus"
  shows "fst (event_bus_alloc_node bus t p) = None \<longleftrightarrow> length (eb_pending bus @ held) = eb_node_count bus"
    and "fst (event_bus_alloc_node bus t p) = None \<Longrightarrow> snd (event_bus_alloc_node bus t p) = bus"
proof -
  let ?S = "{i. i < eb_node_count bus \<and> node_in_use (eb_ns bus ! i)}"
  have len: "length (eb_pending bus @ held) = card ?S" and le: "eb_node_count bus \<le> length (eb_ns bus)"
    using assms distinct_card [of "eb_pending bus @ held"] unfolding eb_wf_def by metis+
  obtain ns where ns: "eb_nodes bus = Some ns" using assms by (auto simp: eb_wf_def)
  have "card ?S = eb_node_count bus \<longleftrightarrow> (\<forall>i < eb_node_count bus. node_in_use (ns ! i))"
  proof
    assume "card ?S = eb_node_count bus"
    then have "?S = {..<eb_node_count bus}" by (intro card_subset_eq) auto
    then show "\<forall>i < eb_node_count bus. node_in_use (ns ! i)" using ns by (auto simp: eb_ns_def)
  next
    assume "\<forall>i < eb_node_count bus. node_in_use (ns ! i)"
    then have "?S = {..<eb_node_count bus}" using ns by (auto simp: eb_ns_def)
    then show "card ?S = eb_node_count bus" by simp
  qed
  moreover have "fst (event_bus_alloc_node bus t p) = None \<longleftrightarrow> (\<forall>i < eb_node_count bus. node_in_use (ns ! i))"
    using le ns find_free_none [of "take (eb_node_count bus) ns"]
    by (auto simp: event_bus_alloc_node_def eb_ns_def split: option.splits)
  ultimately show "fst (event_bus_alloc_node bus t p) = None \<longleftrightarrow> length (eb_pending bus @ held) = eb_node_count bus"
    using len by simp
  show "snd (event_bus_alloc_node bus t p) = bus" if "fst (event_bus_alloc_node bus t p) = None"
    using that by (auto simp: event_bus_alloc_node_def split: option.splits if_splits)
qed

lemma alloc_some:
  assumes "eb_wf held bus" "event_bus_alloc_node bus t p = (Some i, bus')"
  shows "eb_wf (i # held) bus' \<and> eb_static bus' = eb_static bus \<and> eb_mailbox bus' = eb_mailbox bus \<and>
    node_message (eb_ns bus' ! i) = \<lparr>msg_topic = t, msg_payload = p\<rparr> \<and> i \<notin> set (eb_pending bus @ held) \<and>
    (\<forall>j. j \<noteq> i \<longrightarrow> eb_ns bus' ! j = eb_ns bus ! j) \<and> eb_queue bus' = eb_queue bus"
proof -
  obtain ns where ns: "eb_nodes bus = Some ns" using assms by (auto simp: eb_wf_def)
  then have i: "find_free (take (eb_node_count bus) ns) = Some i"
    and bus': "bus' = bus\<lparr>eb_nodes := Some (ns[i := \<lparr>node_message = \<lparr>msg_topic = t, msg_payload = p\<rparr>, node_in_use = True\<rparr>])\<rparr>"
    using assms(2) by (auto simp: event_bus_alloc_node_def split: option.splits if_splits)
  have le: "i < eb_node_count bus" "i < length ns" "\<not> node_in_use (ns ! i)"
    using find_free_some [OF i] by auto
  then have new: "i \<notin> set (eb_pending bus @ held)" using assms(1) ns by (auto simp: eb_wf_def eb_ns_def)
  have p: "eb_pending bus' = eb_pending bus" by (simp add: bus' eb_pending_def)
  have n: "eb_ns bus' = ns[i := \<lparr>node_message = \<lparr>msg_topic = t, msg_payload = p\<rparr>, node_in_use = True\<rparr>]" "eb_ns bus = ns"
    by (simp_all add: bus' eb_ns_def ns)
  have other: "eb_ns bus' ! j = eb_ns bus ! j" if "j \<noteq> i" for j using that by (simp add: n)
  have s: "set (eb_pending bus @ held) = {j. j < eb_node_count bus \<and> node_in_use (ns ! j)}"
    using assms(1) by (simp add: eb_wf_def n)
  have nc: "eb_node_count bus' = eb_node_count bus" by (simp add: bus')
  have "set (eb_pending bus' @ i # held) = insert i (set (eb_pending bus @ held))" by (auto simp: p)
  also have "\<dots> = {j. j < eb_node_count bus' \<and> node_in_use (eb_ns bus' ! j)}"
    unfolding s nc n using le by (auto simp: nth_list_update)
  finally have set': "set (eb_pending bus' @ i # held) = {j. j < eb_node_count bus' \<and> node_in_use (eb_ns bus' ! j)}" .
  have "eb_mailbox_ready bus'" "mb_ok (eb_mailbox bus')" "eb_nodes bus' \<noteq> None" "eb_node_count bus' \<le> length (eb_ns bus')"
    using assms(1) ns by (auto simp: eb_wf_def bus' eb_ns_def)
  moreover have "distinct (eb_pending bus' @ i # held)" using assms(1) new by (auto simp: eb_wf_def p)
  ultimately have "eb_wf (i # held) bus'" using set' by (simp add: eb_wf_def)
  moreover have "eb_queue bus' = eb_queue bus"
    unfolding eb_queue_def p by (rule map_cong [OF refl]) (metis new other Un_iff set_append)
  moreover have "node_message (eb_ns bus' ! i) = \<lparr>msg_topic = t, msg_payload = p\<rparr>" using le by (simp add: n)
  ultimately show ?thesis using new other by (simp add: bus' eb_static_def)
qed

lemma release_wf:
  assumes "eb_wf held bus" "i \<in> set held"
  shows "eb_wf (remove1 i held) (eb_release bus i) \<and> eb_static (eb_release bus i) = eb_static bus \<and>
    (\<forall>j. node_message (eb_ns (eb_release bus i) ! j) = node_message (eb_ns bus ! j)) \<and>
    eb_queue (eb_release bus i) = eb_queue bus \<and> eb_mailbox (eb_release bus i) = eb_mailbox bus"
proof -
  let ?b = "eb_release bus i"
  obtain ns where ns: "eb_nodes bus = Some ns" using assms by (auto simp: eb_wf_def)
  have n: "eb_ns ?b = ns[i := (ns ! i)\<lparr>node_in_use := False\<rparr>]" "eb_ns bus = ns"
    by (simp_all add: eb_release_def eb_ns_def ns)
  have p: "eb_pending ?b = eb_pending bus" "eb_node_count ?b = eb_node_count bus"
    by (simp_all add: eb_release_def eb_pending_def)
  have d: "distinct (eb_pending bus @ held)" and s: "set (eb_pending bus @ held) = {j. j < eb_node_count bus \<and> node_in_use (ns ! j)}"
    and le: "eb_node_count bus \<le> length ns"
    using assms(1) by (simp_all add: eb_wf_def n)
  have i: "i < length ns" "i \<notin> set (eb_pending bus)" using s assms(2) d le by auto
  have "set (eb_pending bus @ remove1 i held) = set (eb_pending bus @ held) - {i}"
    using d i(2) by (auto simp: set_remove1_eq)
  also have "\<dots> = {j. j < eb_node_count ?b \<and> node_in_use (eb_ns ?b ! j)}"
    unfolding s p(2) n using i(1) by (auto simp: nth_list_update)
  finally have "eb_wf (remove1 i held) ?b"
    using assms(1) d n by (auto simp: eb_wf_def eb_release_def eb_pending_def distinct_remove1 dest: notin_set_remove1)
  moreover have m: "node_message (eb_ns ?b ! j) = node_message (eb_ns bus ! j)" for j
    using i(1) by (simp add: n nth_list_update)
  moreover have "eb_queue ?b = eb_queue bus" by (simp add: eb_queue_def p m)
  ultimately show ?thesis by (simp add: eb_release_def eb_static_def)
qed

subsection \<open>The public operations\<close>

lemma enqueue_spec:
  assumes "eb_wf (i # held) bus" "event_bus_enqueue bus (Some i) isr = (b, bus')"
  shows "eb_wf held bus' \<and> eb_static bus' = eb_static bus \<and>
    b = (length (eb_pending bus) < mb_room (eb_mailbox bus)) \<and>
    eb_queue bus' = (if b then eb_queue bus @ [node_message (eb_ns bus ! i)] else eb_queue bus) \<and>
    eb_pending bus' = (if b then eb_pending bus @ [i] else eb_pending bus)"
proof -
  obtain b' mb where mb: "mb_post (eb_mailbox bus) i = (b', mb)" by (cases "mb_post (eb_mailbox bus) i")
  have ok: "mb_ok (eb_mailbox bus)" using assms(1) by (simp add: eb_wf_def)
  note r = mbox.post_result [OF ok mb]
  let ?bus = "bus\<lparr>eb_mailbox := mb\<rparr>"
  show ?thesis
  proof (cases b')
    case True
    have b: "b" "bus' = ?bus" using assms mb True by (auto simp: event_bus_enqueue_def eb_wf_def)
    have p: "eb_pending ?bus = eb_pending bus @ [i]" using r True by (simp add: eb_pending_def)
    have w: "eb_wf held ?bus"
      using assms(1) r unfolding eb_wf_def p by (auto simp: eb_ns_def)
    have "eb_queue ?bus = eb_queue bus @ [node_message (eb_ns bus ! i)]"
      unfolding eb_queue_def p by (simp add: eb_ns_def)
    then show ?thesis using b r True w p by (simp add: eb_static_def eb_pending_def)
  next
    case False
    have b: "\<not> b" "bus' = eb_release ?bus i" using assms mb False by (auto simp: event_bus_enqueue_def eb_wf_def)
    have p: "eb_pending ?bus = eb_pending bus" using r False by (simp add: eb_pending_def)
    have "eb_wf (i # held) ?bus" using assms(1) r unfolding eb_wf_def p by (simp add: eb_ns_def)
    from release_wf [OF this, of i] have rel: "eb_wf held bus'" "eb_static bus' = eb_static ?bus"
      "eb_queue bus' = eb_queue ?bus" "eb_pending bus' = eb_pending ?bus"
      unfolding b(2) by (simp_all add: eb_pending_def)
    have "eb_queue ?bus = eb_queue bus" unfolding eb_queue_def p by (simp add: eb_ns_def)
    then show ?thesis using b r False rel p by (simp add: eb_static_def eb_pending_def)
  qed
qed

lemma eb_queue_length [simp]: "length (eb_queue bus) = length (eb_pending bus)"
  by (simp add: eb_queue_def)

lemma publish_spec:
  assumes "eb_ok bus" "event_bus_publish_common bus t p isr = (b, bus', calls)"
  defines "m \<equiv> \<lparr>msg_topic = t, msg_payload = p\<rparr>"
  shows "eb_ok bus' \<and> eb_static bus' = eb_static bus \<and>
    (if length (eb_queue bus) = eb_node_count bus then \<not> b \<and> bus' = bus \<and> calls = []
     else if length (eb_queue bus) < mb_room (eb_mailbox bus) then b \<and> eb_queue bus' = eb_queue bus @ [m] \<and> calls = []
     else b = (\<not> isr) \<and> eb_queue bus' = eb_queue bus \<and> calls = (if isr then [] else eb_calls bus m))"
proof -
  have rdy: "eb_mailbox_ready bus" using assms(1) by (simp add: eb_wf_def)
  obtain node bus1 where a: "event_bus_alloc_node bus t p = (node, bus1)" by (cases "event_bus_alloc_node bus t p")
  note none = alloc_none [OF assms(1), of t p, unfolded a fst_conv snd_conv append_Nil2]
  show ?thesis
  proof (cases node)
    case None
    then have "b = False" "bus' = bus" "calls = []"
      using assms(2) rdy a none(2) by (simp_all add: event_bus_publish_common_def)
    then show ?thesis using None none(1) assms(1) by simp
  next
    case (Some i)
    note al = alloc_some [OF assms(1) a [unfolded Some]]
    obtain s bus2 where e: "event_bus_enqueue bus1 (Some i) isr = (s, bus2)"
      by (cases "event_bus_enqueue bus1 (Some i) isr")
    note en = enqueue_spec [OF conjunct1 [OF al] e]
    have p: "eb_pending bus1 = eb_pending bus" using al by (simp add: eb_pending_def)
    have st: "eb_static bus2 = eb_static bus" using al en by simp
    have res: "b = (s \<or> \<not> isr)" "bus' = bus2" "calls = (if \<not> s \<and> \<not> isr then eb_calls bus m else [])"
      using assms(2) rdy a Some e eb_calls_static [OF st]
      by (auto simp: event_bus_publish_common_def eb_calls_def m_def split: if_splits)
    have "s = (length (eb_pending bus) < mb_room (eb_mailbox bus))"
      using en al p by (simp add: eb_static_def)
    moreover have "length (eb_pending bus) \<noteq> eb_node_count bus" using none(1) Some by simp
    moreover have "eb_ok bus2" using en by simp
    ultimately show ?thesis using res en al st m_def by (simp split: if_splits)
  qed
qed

lemma dispatch_spec:
  assumes "eb_ok bus" "event_bus_dispatch bus = (b, bus', calls)"
  shows "eb_ok bus' \<and> eb_static bus' = eb_static bus \<and>
    (case eb_queue bus of [] \<Rightarrow> \<not> b \<and> bus' = bus \<and> calls = []
     | m # ms \<Rightarrow> b \<and> eb_queue bus' = ms \<and> calls = eb_calls bus m)"
proof -
  have w: "eb_mailbox_ready bus" "mb_ok (eb_mailbox bus)" using assms(1) by (simp_all add: eb_wf_def)
  obtain r mb where mb: "mb_fetch (eb_mailbox bus) = (r, mb)" by (cases "mb_fetch (eb_mailbox bus)")
  note f = mbox.fetch_result [OF w(2) mb]
  let ?bus = "bus\<lparr>eb_mailbox := mb\<rparr>"
  show ?thesis
  proof (cases r)
    case None
    then have n: "eb_pending bus = []" using f by (simp add: eb_pending_def)
    then have "mb = eb_mailbox bus" using mb w(2) mbox.fetch_nil by (fastforce simp: eb_pending_def)
    then show ?thesis using assms w mb None n by (auto simp: event_bus_dispatch_def eb_queue_def)
  next
    case (Some i)
    have p: "eb_pending bus = i # eb_pending ?bus" using f Some by (simp add: eb_pending_def)
    obtain ns where ns: "eb_nodes bus = Some ns" using assms(1) by (auto simp: eb_wf_def)
    have "eb_wf [i] ?bus" using assms(1) f unfolding eb_wf_def p by (auto simp: eb_ns_def)
    from release_wf [OF this, of i] have rel: "eb_ok (eb_release ?bus i)"
      "eb_static (eb_release ?bus i) = eb_static ?bus" "eb_queue (eb_release ?bus i) = eb_queue ?bus" by simp_all
    have res: "b" "bus' = eb_release ?bus i" "calls = eb_calls ?bus (node_message (ns ! i))"
      using assms(2) w mb Some ns by (auto simp: event_bus_dispatch_def eb_calls_def Let_def)
    have st: "eb_static ?bus = eb_static bus" using f by (simp add: eb_static_def)
    have "eb_queue bus = node_message (ns ! i) # eb_queue ?bus"
      unfolding eb_queue_def p by (simp add: eb_ns_def ns)
    then show ?thesis using res rel st eb_calls_static [OF st] by simp
  qed
qed

subsection \<open>First in, first out\<close>

definition eb_post :: "event_bus \<Rightarrow> event_bus_message \<Rightarrow> bool \<times> event_bus" where
  "eb_post bus m = (case event_bus_publish_from_isr bus (msg_topic m) (msg_payload m) of (b, bus, _) \<Rightarrow> (b, bus))"

definition eb_fetch :: "event_bus \<Rightarrow> event_bus_message option \<times> event_bus" where
  "eb_fetch bus = (case event_bus_dispatch bus of (b, bus', _) \<Rightarrow> (if b then Some (hd (eb_queue bus)) else None, bus'))"

interpretation bus: bounded_fifo eb_post eb_fetch eb_ok eb_queue eb_room
proof
  fix q :: event_bus and m :: event_bus_message
  assume ok: "eb_ok q"
  obtain b q' calls where pub: "event_bus_publish_common q (msg_topic m) (msg_payload m) True = (b, q', calls)"
    by (cases "event_bus_publish_common q (msg_topic m) (msg_payload m) True")
  have ep: "eb_post q m = (b, q')" by (simp add: eb_post_def event_bus_publish_from_isr_def pub)
  note ps = publish_spec [OF ok pub]
  have rm: "eb_room q' = eb_room q" using ps eb_room_static by blast
  have le: "length (eb_queue q) \<le> mb_room (eb_mailbox q)"
    using ok mbox.bounded by (auto simp: eb_wf_def eb_pending_def)
  have ln: "length (eb_queue q) \<le> eb_node_count q"
  proof -
    have s: "set (eb_pending q) \<subseteq> {..<eb_node_count q}" "distinct (eb_pending q)" using ok by (auto simp: eb_wf_def)
    then show ?thesis using card_mono [OF _ s(1)] by (simp add: distinct_card)
  qed
  show "length (eb_queue q) \<le> eb_room q" using le ln by (simp add: eb_room_def)
  show "\<exists>q'. eb_post q m = (False, q') \<and> eb_ok q' \<and> eb_queue q' = eb_queue q \<and> eb_room q' = eb_room q"
    if "length (eb_queue q) = eb_room q"
    using ps ep rm that le ln by (auto simp: eb_room_def min_def split: if_splits)
  show "\<exists>q'. eb_post q m = (True, q') \<and> eb_ok q' \<and> eb_queue q' = eb_queue q @ [m] \<and> eb_room q' = eb_room q"
    if "length (eb_queue q) < eb_room q"
    using ps ep rm that by (auto simp: eb_room_def)
  obtain b1 q1 c1 where dis: "event_bus_dispatch q = (b1, q1, c1)" by (cases "event_bus_dispatch q")
  note ds = dispatch_spec [OF ok dis]
  have rm1: "eb_room q1 = eb_room q" using ds eb_room_static by blast
  show "eb_fetch q = (None, q)" if "eb_queue q = []"
    using ds that by (simp add: eb_fetch_def dis)
  show "\<exists>q'. eb_fetch q = (Some m, q') \<and> eb_ok q' \<and> eb_queue q' = ms \<and> eb_room q' = eb_room q"
    if "eb_queue q = m # ms" for ms
    using ds that rm1 by (simp add: eb_fetch_def dis)
qed

text \<open>
  A run of the bus: publications from threads and interrupts, and dispatches, each with its result and the
  calls it makes. \<open>bus_fate\<close> says what becomes of the operation, from the lengths of the queue, the
  pool of nodes and the mailbox alone.
\<close>

datatype bus_op = Publish event_bus_message | Publish_From_Isr event_bus_message | Dispatch

fun eb_do :: "event_bus \<Rightarrow> bus_op \<Rightarrow> bool \<times> event_bus \<times> invocation list" where
  "eb_do bus (Publish m) = event_bus_publish bus (msg_topic m) (msg_payload m)"
| "eb_do bus (Publish_From_Isr m) = event_bus_publish_from_isr bus (msg_topic m) (msg_payload m)"
| "eb_do bus Dispatch = event_bus_dispatch bus"

datatype fate =
    Queued event_bus_message | Direct event_bus_message | Refused event_bus_message
  | Delivered event_bus_message | Nothing_Queued

fun bus_fate :: "event_bus \<Rightarrow> bus_op \<Rightarrow> fate" where
  "bus_fate bus (Publish m) =
     (if length (eb_queue bus) = eb_node_count bus then Refused m
      else if length (eb_queue bus) < mb_room (eb_mailbox bus) then Queued m else Direct m)"
| "bus_fate bus (Publish_From_Isr m) = (if length (eb_queue bus) < eb_room bus then Queued m else Refused m)"
| "bus_fate bus Dispatch = (case eb_queue bus of [] \<Rightarrow> Nothing_Queued | m # _ \<Rightarrow> Delivered m)"

fun fate_result :: "event_bus \<Rightarrow> fate \<Rightarrow> bool \<times> invocation list" where
  "fate_result bus (Queued m) = (True, [])"
| "fate_result bus (Direct m) = (True, eb_calls bus m)"
| "fate_result bus (Refused m) = (False, [])"
| "fate_result bus (Delivered m) = (True, eb_calls bus m)"
| "fate_result bus Nothing_Queued = (False, [])"

fun fate_queued :: "fate \<Rightarrow> event_bus_message list" where
  "fate_queued (Queued m) = [m]" | "fate_queued _ = []"

fun fate_delivered :: "fate \<Rightarrow> event_bus_message list" where
  "fate_delivered (Delivered m) = [m]" | "fate_delivered _ = []"

fun eb_run :: "event_bus \<Rightarrow> bus_op list \<Rightarrow> event_bus \<times> (bool \<times> invocation list) list \<times> fate list" where
  "eb_run bus [] = (bus, [], [])"
| "eb_run bus (op # ops) =
     (let (b, bus', calls) = eb_do bus op; (bus', results, fates) = eb_run bus' ops
      in (bus', (b, calls) # results, bus_fate bus op # fates))"

lemma eb_do_fate:
  assumes "eb_ok bus" "eb_do bus op = (b, bus', calls)"
  shows "eb_ok bus' \<and> eb_static bus' = eb_static bus \<and> (b, calls) = fate_result bus (bus_fate bus op) \<and>
    fate_delivered (bus_fate bus op) @ eb_queue bus' = eb_queue bus @ fate_queued (bus_fate bus op)"
proof (cases op)
  case (Publish m)
  then have "event_bus_publish_common bus (msg_topic m) (msg_payload m) False = (b, bus', calls)"
    using assms(2) by (simp add: event_bus_publish_def)
  note publish_spec [OF assms(1) this]
  moreover have msg: "\<lparr>msg_topic = msg_topic m, msg_payload = msg_payload m\<rparr> = m" by simp
  ultimately show ?thesis by (auto simp: Publish msg split: if_splits)
next
  case (Publish_From_Isr m)
  then have "event_bus_publish_common bus (msg_topic m) (msg_payload m) True = (b, bus', calls)"
    using assms(2) by (simp add: event_bus_publish_from_isr_def)
  note publish_spec [OF assms(1) this]
  moreover have "length (eb_queue bus) \<le> eb_room bus" by (rule bus.bounded [OF assms(1)])
  ultimately show ?thesis by (auto simp: Publish_From_Isr eb_room_def min_def split: if_splits)
next
  case Dispatch
  then have "event_bus_dispatch bus = (b, bus', calls)" using assms(2) by simp
  from dispatch_spec [OF assms(1) this] show ?thesis by (auto simp: Dispatch split: list.splits)
qed

lemma fate_result_static: "eb_static bus = eb_static bus' \<Longrightarrow> fate_result bus = fate_result bus'"
proof (intro ext)
  fix f
  assume "eb_static bus = eb_static bus'"
  then have "eb_calls bus = eb_calls bus'" by (intro ext eb_calls_static)
  then show "fate_result bus f = fate_result bus' f" by (cases f) simp_all
qed

text \<open>
  C10 In every run of publications from threads (\<open>event_bus_publish\<close>) and interrupts and of
  dispatches, each made while no other is under way, every operation returns what its fate says and makes exactly the calls of it:
  a dispatch calls the listeners of the oldest message in the queue, and the messages delivered
  so, followed by those still queued, are the ones queued before followed by those the run has
  queued, in order, each once. A publication with a free node goes to the queue; from an interrupt or with every node in use it
  is otherwise refused; a thread that gets a node but finds the mailbox full calls the listeners
  at once, ahead of the queue, which a bus with no more nodes than mailbox slots, such as that of the firmware, never does.
\<close>

theorem event_bus_fifo:
  assumes "eb_ok b0" "eb_run b0 ops = (b1, results, fates)"
  shows "results = map (fate_result b0) fates \<and>
    concat (map fate_delivered fates) @ eb_queue b1 = eb_queue b0 @ concat (map fate_queued fates) \<and>
    (eb_node_count b0 \<le> mb_room (eb_mailbox b0) \<longrightarrow> (\<forall>m. Direct m \<notin> set fates))"
  using assms
proof (induction ops arbitrary: b0 results fates)
  case (Cons op ops)
  obtain b b' calls where d: "eb_do b0 op = (b, b', calls)" by (cases "eb_do b0 op")
  obtain b1' rs fs where r: "eb_run b' ops = (b1', rs, fs)" by (cases "eb_run b' ops")
  have e: "b1' = b1" "results = (b, calls) # rs" "fates = bus_fate b0 op # fs" using Cons.prems(2) d r by simp_all
  note f = eb_do_fate [OF Cons.prems(1) d]
  note ih = Cons.IH [OF conjunct1 [OF f] r [unfolded e(1)]]
  have s: "eb_static b' = eb_static b0" using f by blast
  have st: "fate_result b' = fate_result b0" by (rule fate_result_static [OF s])
  have st2: "eb_node_count b' = eb_node_count b0" "mb_room (eb_mailbox b') = mb_room (eb_mailbox b0)"
    using s by (simp_all add: eb_static_def)
  have le: "length (eb_queue b0) \<le> eb_room b0" by (rule bus.bounded [OF Cons.prems(1)])
  have "bus_fate b0 op \<noteq> Direct m" if "eb_node_count b0 \<le> mb_room (eb_mailbox b0)" for m
    using that le by (cases op) (auto simp: eb_room_def split: list.splits)
  moreover have "fate_delivered (bus_fate b0 op) @ concat (map fate_delivered fs) @ eb_queue b1 =
      eb_queue b0 @ fate_queued (bus_fate b0 op) @ concat (map fate_queued fs)"
  proof -
    have "fate_delivered (bus_fate b0 op) @ concat (map fate_delivered fs) @ eb_queue b1 =
        (fate_delivered (bus_fate b0 op) @ eb_queue b') @ concat (map fate_queued fs)"
      using ih by simp
    also have "\<dots> = (eb_queue b0 @ fate_queued (bus_fate b0 op)) @ concat (map fate_queued fs)" using f by simp
    finally show ?thesis by simp
  qed
  moreover have "results = map (fate_result b0) fates" using ih f e st by simp
  ultimately show ?case using ih e st2 by (metis append.assoc concat.simps(2) list.simps(9) set_ConsD)
qed simp

definition eb_node0 :: event_bus_queue_node where
  "eb_node0 = \<lparr>node_message = \<lparr>msg_topic = EVENT_TOUCH_INPUT, msg_payload = 7\<rparr>, node_in_use = True\<rparr>"

definition eb_blank :: event_bus where
  "eb_blank = \<lparr>eb_subscriptions = None, eb_capacity = 0, eb_count = 0, eb_mailbox = mb_init [],
     eb_mailbox_ready = False, eb_queue_length = 0, eb_nodes = None, eb_node_count = 0\<rparr>"

lemma event_bus_init_ok:
  assumes "0 < n" "n \<le> length q" "k \<le> length ns"
  shows "eb_ok (event_bus_init bus storage cap (Some q) n (Some ns) k) \<and>
    eb_queue (event_bus_init bus storage cap (Some q) n (Some ns) k) = []"
proof -
  have "mb_ok (mb_init (take n q))" "mb_contents (mb_init (take n q)) = []"
    using mb_init_ok [of "take n q"] assms by (cases q; auto)+
  then show ?thesis
    using assms by (auto simp: eb_wf_def event_bus_init_def eb_pending_def eb_ns_def eb_queue_def nth_append)
qed

text \<open>A bus with one listener on storage updates, a queue of two and a pool of three.\<close>

definition eb_demo :: event_bus where
  "eb_demo = snd (event_bus_subscribe
     (event_bus_init eb_blank (Some [\<lparr>sub_callback = None, sub_user_data = 0, sub_topic = EVENT_TOUCH_INPUT\<rparr>]) 1
        (Some [9, 9]) 2 (Some [eb_node0, eb_node0, eb_node0]) 3)
     EVENT_STORAGE_UPDATED (Some 4) 11)"

abbreviation eb_msg :: "u32 \<Rightarrow> event_bus_message" where
  "eb_msg p \<equiv> \<lparr>msg_topic = EVENT_STORAGE_UPDATED, msg_payload = p\<rparr>"

lemma event_bus_subscribe_wf:
  assumes "event_bus_subscribe bus topic cb ud = (b, bus')"
  shows "eb_wf held bus' = eb_wf held bus \<and> eb_queue bus' = eb_queue bus"
proof -
  have "eb_mailbox_ready bus' = eb_mailbox_ready bus" "eb_mailbox bus' = eb_mailbox bus"
    "eb_nodes bus' = eb_nodes bus" "eb_node_count bus' = eb_node_count bus"
    using assms by (auto simp: event_bus_subscribe_def split: option.splits if_splits)
  then show ?thesis by (simp add: eb_wf_def eb_queue_def eb_pending_def eb_ns_def)
qed

lemma eb_demo_ok: "eb_ok eb_demo \<and> eb_queue eb_demo = []"
proof -
  let ?b = "event_bus_init eb_blank (Some [\<lparr>sub_callback = None, sub_user_data = 0, sub_topic = EVENT_TOUCH_INPUT\<rparr>]) 1
        (Some [9, 9]) 2 (Some [eb_node0, eb_node0, eb_node0]) 3"
  have "eb_ok ?b \<and> eb_queue ?b = []" by (rule event_bus_init_ok) simp_all
  moreover obtain b bus' where s: "event_bus_subscribe ?b EVENT_STORAGE_UPDATED (Some 4) 11 = (b, bus')"
    by (cases "event_bus_subscribe ?b EVENT_STORAGE_UPDATED (Some 4) 11")
  ultimately show ?thesis
    unfolding eb_demo_def s snd_conv using event_bus_subscribe_wf [OF s, of "[]"] by simp
qed

theorem event_bus_fifo_witness:
  "\<exists>b1 results fates. eb_run eb_demo [Publish (eb_msg 1), Publish_From_Isr (eb_msg 2), Publish (eb_msg 3), Dispatch, Dispatch] = (b1, results, fates) \<and>
    concat (map fate_delivered fates) @ eb_queue b1 = concat (map fate_queued fates)"
proof -
  let ?ops = "[Publish (eb_msg 1), Publish_From_Isr (eb_msg 2), Publish (eb_msg 3), Dispatch, Dispatch]"
  obtain b1 results fates where r: "eb_run eb_demo ?ops = (b1, results, fates)" using prod_cases3 by blast
  show ?thesis using event_bus_fifo [OF conjunct1 [OF eb_demo_ok] r] r eb_demo_ok by auto
qed

text \<open>
  A thread's \<open>event_bus_publish\<close> either queues the message, or
  finds the mailbox full and calls the listeners itself at once (ahead of everything
  queued) leaving the queue as it was, or, with every node of the pool in use, reports
  failure with nothing changed. From an interrupt the second case reports failure and
  calls nobody. A dispatch takes exactly the oldest message.
\<close>

theorem event_bus_publish_contract:
  fixes t :: event_bus_topic and p :: payload
  assumes "eb_ok bus"
  defines "q \<equiv> eb_queue bus" and "m \<equiv> \<lparr>msg_topic = t, msg_payload = p\<rparr>"
  shows "(case event_bus_publish bus t p of (b, bus', calls) \<Rightarrow>
      eb_ok bus' \<and> (b \<longleftrightarrow> length q \<noteq> eb_node_count bus) \<and>
      eb_queue bus' = (if length q < eb_room bus then q @ [m] else q) \<and>
      calls = (if length q < eb_node_count bus \<and> length q = mb_room (eb_mailbox bus) then eb_calls bus m else [])) \<and>
    (case event_bus_publish_from_isr bus t p of (b, bus', calls) \<Rightarrow>
      eb_ok bus' \<and> (b \<longleftrightarrow> length q < eb_room bus) \<and> calls = [] \<and>
      eb_queue bus' = (if length q < eb_room bus then q @ [m] else q)) \<and>
    (case event_bus_dispatch bus of (b, bus', calls) \<Rightarrow>
      eb_ok bus' \<and> (b \<longleftrightarrow> q \<noteq> []) \<and> eb_queue bus' = tl q \<and>
      calls = (if q = [] then [] else eb_calls bus (hd q)))"
proof -
  have bd: "length q \<le> eb_room bus" unfolding q_def by (rule bus.bounded [OF assms(1)])
  have 1: "case event_bus_publish bus t p of (b, bus', calls) \<Rightarrow>
      eb_ok bus' \<and> (b \<longleftrightarrow> length q \<noteq> eb_node_count bus) \<and>
      eb_queue bus' = (if length q < eb_room bus then q @ [m] else q) \<and>
      calls = (if length q < eb_node_count bus \<and> length q = mb_room (eb_mailbox bus) then eb_calls bus m else [])"
  proof (cases "event_bus_publish_common bus t p False")
    case (fields b bus' calls)
    show ?thesis
      using publish_spec [OF assms(1) fields] bd
      by (auto simp: event_bus_publish_def fields q_def m_def eb_room_def min_def split: if_splits)
  qed
  have 2: "case event_bus_publish_from_isr bus t p of (b, bus', calls) \<Rightarrow>
      eb_ok bus' \<and> (b \<longleftrightarrow> length q < eb_room bus) \<and> calls = [] \<and>
      eb_queue bus' = (if length q < eb_room bus then q @ [m] else q)"
  proof (cases "event_bus_publish_common bus t p True")
    case (fields b bus' calls)
    show ?thesis
      using publish_spec [OF assms(1) fields] bd
      by (auto simp: event_bus_publish_from_isr_def fields q_def m_def eb_room_def min_def split: if_splits)
  qed
  have 3: "case event_bus_dispatch bus of (b, bus', calls) \<Rightarrow>
      eb_ok bus' \<and> (b \<longleftrightarrow> q \<noteq> []) \<and> eb_queue bus' = tl q \<and>
      calls = (if q = [] then [] else eb_calls bus (hd q))"
  proof (cases "event_bus_dispatch bus")
    case (fields b bus' calls)
    show ?thesis
      using dispatch_spec [OF assms(1) fields] by (auto simp: fields q_def split: list.splits)
  qed
  show ?thesis using 1 2 3 by blast
qed

theorem event_bus_publish_contract_witness:
  "\<exists>bus'. event_bus_publish eb_demo EVENT_STORAGE_UPDATED 5 = (True, bus', []) \<and> eb_queue bus' = [eb_msg 5]"
proof -
  have st: "eb_node_count eb_demo = 3" "eb_room eb_demo = 2" "mb_room (eb_mailbox eb_demo) = 2"
    by (simp_all add: eb_demo_def event_bus_subscribe_def event_bus_init_def eb_room_def mb_room_def mb_init_def)
  show ?thesis
    using event_bus_publish_contract [OF conjunct1 [OF eb_demo_ok], of EVENT_STORAGE_UPDATED 5] eb_demo_ok st
    by (auto split: prod.splits)
qed

section \<open>Interleaved publishers and dispatchers\<close>

text \<open>
  \<open>event_bus_publish_common\<close> and \<open>event_bus_dispatch\<close> hold the system lock only around
  the allocation, the mailbox call and the release. Between those sections any thread or
  interrupt may run, a listener that publishes included. \<open>bs_publishing\<close> are the nodes
  allocated and not yet posted, \<open>bs_delivering\<close> the nodes fetched and not yet released,
  each with the message its publisher passed or its fetch found. The logs
  are specification only.
\<close>

record bus_system =
  bs_bus :: event_bus
  bs_publishing :: "(nat \<times> event_bus_message) list"
  bs_delivering :: "(nat \<times> event_bus_message) list"
  bs_posted :: "event_bus_message list"
  bs_fetched :: "event_bus_message list"

inductive bus_step :: "bus_system \<Rightarrow> bus_system \<Rightarrow> bool" where
  alloc: "event_bus_alloc_node (bs_bus s) t p = (Some i, b) \<Longrightarrow>
    bus_step s (s\<lparr>bs_bus := b, bs_publishing := (i, \<lparr>msg_topic = t, msg_payload = p\<rparr>) # bs_publishing s\<rparr>)"
| post: "(i, m) \<in> set (bs_publishing s) \<Longrightarrow> event_bus_enqueue (bs_bus s) (Some i) isr = (True, b) \<Longrightarrow>
    bus_step s (s\<lparr>bs_bus := b, bs_publishing := remove1 (i, m) (bs_publishing s), bs_posted := bs_posted s @ [m]\<rparr>)"
| refuse: "(i, m) \<in> set (bs_publishing s) \<Longrightarrow> event_bus_enqueue (bs_bus s) (Some i) isr = (False, b) \<Longrightarrow>
    bus_step s (s\<lparr>bs_bus := b, bs_publishing := remove1 (i, m) (bs_publishing s)\<rparr>)"
| fetch: "mb_fetch (eb_mailbox (bs_bus s)) = (Some i, mb) \<Longrightarrow> m = node_message (eb_ns (bs_bus s) ! i) \<Longrightarrow>
    bus_step s (s\<lparr>bs_bus := (bs_bus s)\<lparr>eb_mailbox := mb\<rparr>, bs_delivering := (i, m) # bs_delivering s,
      bs_fetched := bs_fetched s @ [m]\<rparr>)"
| release: "(i, m) \<in> set (bs_delivering s) \<Longrightarrow>
    bus_step s (s\<lparr>bs_bus := eb_release (bs_bus s) i, bs_delivering := remove1 (i, m) (bs_delivering s)\<rparr>)"
| subscribe: "event_bus_subscribe (bs_bus s) t cb ud = (r, b) \<Longrightarrow> bus_step s (s\<lparr>bs_bus := b\<rparr>)"

definition bus_start :: "event_bus \<Rightarrow> bus_system" where
  "bus_start b = \<lparr>bs_bus = b, bs_publishing = [], bs_delivering = [], bs_posted = [], bs_fetched = []\<rparr>"

inductive bus_reach :: "event_bus \<Rightarrow> bus_system \<Rightarrow> bool" for b where
  start: "bus_reach b (bus_start b)"
| step: "bus_reach b s \<Longrightarrow> bus_step s s' \<Longrightarrow> bus_reach b s'"

definition bus_held :: "bus_system \<Rightarrow> (nat \<times> event_bus_message) list" where
  "bus_held s = bs_publishing s @ bs_delivering s"

definition bus_inv :: "bus_system \<Rightarrow> bool" where
  "bus_inv s \<longleftrightarrow> eb_wf (map fst (bus_held s)) (bs_bus s) \<and>
     (\<forall>i m. (i, m) \<in> set (bus_held s) \<longrightarrow> node_message (eb_ns (bs_bus s) ! i) = m) \<and>
     bs_fetched s @ eb_queue (bs_bus s) = bs_posted s"

lemma remove1_fst:
  assumes "distinct (map fst xs)" "(i, m) \<in> set xs"
  shows "map fst (remove1 (i, m) xs) = remove1 i (map fst xs)"
  using assms by (induction xs) (auto simp: image_iff)

lemma eb_wf_perm:
  assumes "mset h = mset h'"
  shows "eb_wf h b = eb_wf h' b"
proof -
  have "set h = set h'" "distinct h = distinct h'"
    using assms mset_eq_setD mset_eq_imp_distinct_iff by blast+
  then show ?thesis by (simp add: eb_wf_def)
qed

lemma clear_in_use: "node_message (ns[i := (ns ! i)\<lparr>node_in_use := False\<rparr>] ! j) = node_message (ns ! j)"
  by (cases "i < length ns") (auto simp: nth_list_update list_update_beyond not_less)

lemma release_messages:
  "eb_nodes b \<noteq> None \<Longrightarrow> node_message (eb_ns (eb_release b i) ! j) = node_message (eb_ns b ! j)"
  by (auto simp: eb_release_def eb_ns_def clear_in_use)

lemma enqueue_messages:
  "event_bus_enqueue b (Some i) isr = (r, b') \<Longrightarrow> eb_nodes b \<noteq> None \<Longrightarrow>
    node_message (eb_ns b' ! j) = node_message (eb_ns b ! j)"
  by (auto simp: event_bus_enqueue_def eb_release_def eb_ns_def clear_in_use split: if_splits prod.splits bool.splits)

lemma bus_step_inv [nvx_inv]:
  assumes "bus_step s s'" "bus_inv s"
  shows "bus_inv s'"
  using assms
proof cases
  case (alloc t p i b)
  let ?h = "map fst (bus_held s)"
  note al = alloc_some [OF _ alloc(2), of ?h]
  have wf: "eb_wf ?h (bs_bus s)" using assms(2) by (simp add: bus_inv_def)
  note al = al [OF wf]
  let ?m = "\<lparr>msg_topic = t, msg_payload = p\<rparr>"
  have "node_message (eb_ns b ! j) = m" if "(j, m) \<in> set (bus_held s)" for j m
  proof -
    have "j \<in> set ?h" using that by force
    then have "eb_ns b ! j = eb_ns (bs_bus s) ! j" using al by auto
    then show ?thesis using assms(2) that by (auto simp: bus_inv_def)
  qed
  moreover have "bus_held s' = (i, ?m) # bus_held s" by (simp add: alloc(1) bus_held_def)
  moreover have "eb_wf (i # ?h) b" "node_message (eb_ns b ! i) = ?m" "eb_queue b = eb_queue (bs_bus s)" using al by auto
  ultimately show ?thesis
    using assms(2) unfolding bus_inv_def by (auto simp: alloc(1))
next
  case (post i m isr b)
  let ?rest = "remove1 (i, m) (bs_publishing s) @ bs_delivering s"
  have wf: "eb_wf (map fst (bus_held s)) (bs_bus s)" and ns: "eb_nodes (bs_bus s) \<noteq> None"
    using assms(2) by (auto simp: bus_inv_def eb_wf_def)
  have "mset (bus_held s) = mset ((i, m) # ?rest)" using post(2) by (simp add: bus_held_def)
  then have "eb_wf (i # map fst ?rest) (bs_bus s)"
    using wf eb_wf_perm [of "map fst (bus_held s)" "map fst ((i, m) # ?rest)"] by (simp add: mset_map)
  from enqueue_spec [OF this post(3)] enqueue_messages [OF post(3) ns] show ?thesis
    using assms(2) post(2) unfolding post(1) bus_inv_def
    by (auto simp: bus_held_def dest!: set_remove1_subset [THEN subsetD])
next
  case (refuse i m isr b)
  let ?rest = "remove1 (i, m) (bs_publishing s) @ bs_delivering s"
  have wf: "eb_wf (map fst (bus_held s)) (bs_bus s)" and ns: "eb_nodes (bs_bus s) \<noteq> None"
    using assms(2) by (auto simp: bus_inv_def eb_wf_def)
  have "mset (bus_held s) = mset ((i, m) # ?rest)" using refuse(2) by (simp add: bus_held_def)
  then have "eb_wf (i # map fst ?rest) (bs_bus s)"
    using wf eb_wf_perm [of "map fst (bus_held s)" "map fst ((i, m) # ?rest)"] by (simp add: mset_map)
  from enqueue_spec [OF this refuse(3)] enqueue_messages [OF refuse(3) ns] show ?thesis
    using assms(2) refuse(2) unfolding refuse(1) bus_inv_def
    by (auto simp: bus_held_def dest!: set_remove1_subset [THEN subsetD])
next
  case (fetch i mb m)
  let ?b = "(bs_bus s)\<lparr>eb_mailbox := mb\<rparr>"
  have wf: "eb_wf (map fst (bus_held s)) (bs_bus s)" using assms(2) by (auto simp: bus_inv_def)
  then have "mb_ok (eb_mailbox (bs_bus s))" by (simp add: eb_wf_def)
  note f = mbox.fetch_result [OF this fetch(2)]
  have p: "eb_pending (bs_bus s) = i # eb_pending ?b" using f by (simp add: eb_pending_def)
  have "eb_wf (i # map fst (bus_held s)) ?b"
    using wf f unfolding eb_wf_def p by (auto simp: eb_ns_def)
  then have "eb_wf (map fst (bs_publishing s @ (i, m) # bs_delivering s)) ?b"
    using eb_wf_perm [of "i # map fst (bus_held s)" "map fst (bs_publishing s @ (i, m) # bs_delivering s)" ?b]
    by (simp add: bus_held_def)
  moreover have "eb_queue (bs_bus s) = m # eb_queue ?b" unfolding eb_queue_def p using fetch(3) by (simp add: eb_ns_def)
  ultimately show ?thesis
    using assms(2) fetch(3) unfolding fetch(1) bus_inv_def by (auto simp: bus_held_def eb_ns_def)
next
  case (release i m)
  let ?rest = "bs_publishing s @ remove1 (i, m) (bs_delivering s)"
  have wf: "eb_wf (map fst (bus_held s)) (bs_bus s)" and ns: "eb_nodes (bs_bus s) \<noteq> None"
    using assms(2) by (auto simp: bus_inv_def eb_wf_def)
  have "mset (bus_held s) = mset ((i, m) # ?rest)" using release(2) by (simp add: bus_held_def)
  then have "eb_wf (i # map fst ?rest) (bs_bus s)"
    using wf eb_wf_perm [of "map fst (bus_held s)" "map fst ((i, m) # ?rest)"] by (simp add: mset_map)
  from release_wf [OF this, of i] release_messages [OF ns] show ?thesis
    using assms(2) release(2) unfolding release(1) bus_inv_def
    by (auto simp: bus_held_def dest!: set_remove1_subset [THEN subsetD])
next
  case (subscribe t cb ud r b)
  have "eb_nodes b = eb_nodes (bs_bus s)"
    using subscribe(2) by (auto simp: event_bus_subscribe_def split: option.splits if_splits)
  then show ?thesis
    using assms(2) event_bus_subscribe_wf [OF subscribe(2)] unfolding subscribe(1) bus_inv_def
    by (auto simp: bus_held_def eb_ns_def)
qed

text \<open>
  C9 Whatever the interleaving of publishers, listeners and dispatchers,
  the messages fetched followed by those still queued are the messages posted, in order
  and unchanged, and a node that was fetched keeps its message until it is released: the
  copy a dispatcher takes after the fetch is the message that was posted. No node is in
  two hands.
\<close>

theorem bus_interleaving:
  assumes "bus_reach b s" "eb_ok b" "eb_queue b = []"
  shows "bs_fetched s @ eb_queue (bs_bus s) = bs_posted s \<and>
    (\<forall>(i, m) \<in> set (bs_delivering s). node_message (eb_ns (bs_bus s) ! i) = m) \<and>
    distinct (map fst (bs_publishing s) @ map fst (bs_delivering s) @ eb_pending (bs_bus s))"
proof -
  have "bus_inv s"
    using assms(1)
  proof induction
    case start
    then show ?case using assms by (simp add: bus_inv_def bus_start_def bus_held_def)
  next
    case (step s s')
    then show ?case by (blast intro: bus_step_inv)
  qed
  then show ?thesis by (auto simp: bus_inv_def bus_held_def eb_wf_def)
qed

theorem bus_interleaving_witness:
  "\<exists>s. bus_reach eb_demo s \<and> bs_publishing s \<noteq> [] \<and> bs_fetched s @ eb_queue (bs_bus s) = bs_posted s"
proof -
  obtain b bus' where a: "event_bus_alloc_node eb_demo EVENT_STORAGE_UPDATED 1 = (b, bus')"
    by (cases "event_bus_alloc_node eb_demo EVENT_STORAGE_UPDATED 1")
  have "b \<noteq> None"
    using alloc_none(1) [OF conjunct1 [OF eb_demo_ok], of EVENT_STORAGE_UPDATED 1] eb_demo_ok a
    by (auto simp: eb_queue_def eb_demo_def event_bus_subscribe_def event_bus_init_def)
  then obtain i where i: "event_bus_alloc_node (bs_bus (bus_start eb_demo)) EVENT_STORAGE_UPDATED 1 = (Some i, bus')"
    using a by (auto simp: bus_start_def)
  note r = bus_reach.step [OF bus_reach.start bus_step.alloc [OF i]]
  show ?thesis
    using bus_interleaving [OF r] eb_demo_ok r by (intro exI [of _ "_ :: bus_system"] conjI) auto
qed

end
