(* ===== verification/Scheduler.thy ===== *)
theory Scheduler
  imports Nvx_Prelude
begin

text \<open>
  The task table of \<open>src/src/sys/scheduler.c\<close>. A call of \<open>scheduler_start\<close> or
  \<open>scheduler_stop\<close> is a sequence of critical sections with other threads in between, so the
  model is a step function on the table, the calls under way and the threads. Thread
  creation belongs to ChibiOS: a step may create a thread or fail; thread identifiers are
  fresh. Entries and user data are opaque numbers; \<open>sc_runs\<close> records what each thread
  called, for the specifications.
\<close>

definition SCHEDULER_MAX_TASKS :: nat where
  "SCHEDULER_MAX_TASKS = 4"

record scheduler_slot =
  slot_thread :: "nat option"
  slot_entry :: "nat option"
  slot_user_data :: "nat option"

definition empty_slot :: scheduler_slot where
  "empty_slot = \<lparr>slot_thread = None, slot_entry = None, slot_user_data = None\<rparr>"

text \<open>
  A starting call holds a slot pointer and, after the creation, the new thread; the entry
  and user data are its arguments. A stopping call waits for the thread it read.
\<close>

datatype sched_call =
    Claimed nat nat nat
  | Created nat nat
  | Waiting nat nat

datatype thread_phase = Born | Called "nat option" | Ended

record sched_thread =
  th_id :: nat
  th_slot :: nat
  th_phase :: thread_phase

record scheduler =
  sc_slots :: "scheduler_slot list"
  sc_calls :: "sched_call list"
  sc_threads :: "sched_thread list"
  sc_runs :: "(nat \<times> nat \<times> nat option) list"

definition scheduler0 :: scheduler where
  "scheduler0 = \<lparr>sc_slots = replicate SCHEDULER_MAX_TASKS empty_slot, sc_calls = [], sc_threads = [], sc_runs = []\<rparr>"

fun free_slot :: "scheduler_slot list \<Rightarrow> nat option" where
  "free_slot [] = None"
| "free_slot (s # ss) = (if slot_thread s = None then Some 0 else map_option Suc (free_slot ss))"

text \<open>The first critical section of \<open>scheduler_start\<close>: \<open>None\<close> for the empty task.\<close>

definition start_claim :: "nat option \<Rightarrow> nat \<Rightarrow> scheduler \<Rightarrow> nat option \<times> scheduler" where
  "start_claim entry ud s =
     (case entry of
        None \<Rightarrow> (None, s)
      | Some e \<Rightarrow>
          (case free_slot (sc_slots s) of
             None \<Rightarrow> (None, s)
           | Some i \<Rightarrow>
               (Some i, s\<lparr>sc_slots := (sc_slots s)[i := (sc_slots s ! i)\<lparr>slot_entry := Some e, slot_user_data := Some ud\<rparr>],
                          sc_calls := sc_calls s @ [Claimed i e ud]\<rparr>)))"

definition clear_slot :: "nat \<Rightarrow> scheduler \<Rightarrow> scheduler" where
  "clear_slot i s = s\<lparr>sc_slots := (sc_slots s)[i := empty_slot]\<rparr>"

definition drop_call :: "nat \<Rightarrow> scheduler \<Rightarrow> scheduler" where
  "drop_call k s = s\<lparr>sc_calls := take k (sc_calls s) @ drop (Suc k) (sc_calls s)\<rparr>"

text \<open>\<open>chThdCreateStatic\<close> succeeded, or returned null and the slot is given back.\<close>

definition start_create :: "nat \<Rightarrow> bool \<Rightarrow> scheduler \<Rightarrow> scheduler option" where
  "start_create k ok s =
     (if k < length (sc_calls s) then
        case sc_calls s ! k of
          Claimed i e ud \<Rightarrow>
            if ok then
              let t = length (sc_threads s)
              in Some (s\<lparr>sc_threads := sc_threads s @ [\<lparr>th_id = t, th_slot = i, th_phase = Born\<rparr>],
                         sc_calls := (sc_calls s)[k := Created i t]\<rparr>)
            else Some (drop_call k (s\<lparr>sc_slots := (sc_slots s)[i := (sc_slots s ! i)\<lparr>slot_entry := None, slot_user_data := None\<rparr>]\<rparr>))
        | _ \<Rightarrow> None
      else None)"

text \<open>The last critical section: \<open>slot->thread = thread\<close>; the task handle is the slot.\<close>

definition start_store :: "nat \<Rightarrow> scheduler \<Rightarrow> scheduler option" where
  "start_store k s =
     (if k < length (sc_calls s) then
        case sc_calls s ! k of
          Created i t \<Rightarrow> Some (drop_call k (s\<lparr>sc_slots := (sc_slots s)[i := (sc_slots s ! i)\<lparr>slot_thread := Some t\<rparr>]\<rparr>))
        | _ \<Rightarrow> None
      else None)"

text \<open>The adapter reads its slot without the lock, runs the entry, then clears the slot.\<close>

definition adapter_call :: "nat \<Rightarrow> scheduler \<Rightarrow> scheduler option" where
  "adapter_call t s =
     (if t < length (sc_threads s) \<and> th_phase (sc_threads s ! t) = Born then
        let th = sc_threads s ! t; slot = sc_slots s ! th_slot th
        in Some (s\<lparr>sc_threads := (sc_threads s)[t := th\<lparr>th_phase := Called (slot_entry slot)\<rparr>],
                   sc_runs := (case slot_entry slot of None \<Rightarrow> sc_runs s
                               | Some e \<Rightarrow> sc_runs s @ [(t, e, slot_user_data slot)])\<rparr>)
      else None)"

definition adapter_exit :: "nat \<Rightarrow> scheduler \<Rightarrow> scheduler option" where
  "adapter_exit t s =
     (if t < length (sc_threads s) then
        (case th_phase (sc_threads s ! t) of
           Called _ \<Rightarrow>
             let th = sc_threads s ! t
             in Some (clear_slot (th_slot th) (s\<lparr>sc_threads := (sc_threads s)[t := th\<lparr>th_phase := Ended\<rparr>]\<rparr>))
         | _ \<Rightarrow> None)
      else None)"

text \<open>\<open>scheduler_stop\<close>: read the thread, wait for its end, clear the slot.\<close>

definition stop_begin :: "nat option \<Rightarrow> scheduler \<Rightarrow> scheduler" where
  "stop_begin task s =
     (case task of
        None \<Rightarrow> s
      | Some i \<Rightarrow> (case slot_thread (sc_slots s ! i) of None \<Rightarrow> s
                  | Some t \<Rightarrow> s\<lparr>sc_calls := sc_calls s @ [Waiting i t]\<rparr>))"

definition stop_end :: "nat \<Rightarrow> scheduler \<Rightarrow> scheduler option" where
  "stop_end k s =
     (if k < length (sc_calls s) then
        case sc_calls s ! k of
          Waiting i t \<Rightarrow> if th_phase (sc_threads s ! t) = Ended then Some (drop_call k (clear_slot i s)) else None
        | _ \<Rightarrow> None
      else None)"

datatype sched_step =
    StartClaim "nat option" nat
  | StartCreate nat bool
  | StartStore nat
  | AdapterCall nat
  | AdapterExit nat
  | StopBegin "nat option"
  | StopEnd nat

fun sched_exec :: "sched_step \<Rightarrow> scheduler \<Rightarrow> scheduler option" where
  "sched_exec (StartClaim e ud) s = Some (snd (start_claim e ud s))"
| "sched_exec (StartCreate k ok) s = start_create k ok s"
| "sched_exec (StartStore k) s = start_store k s"
| "sched_exec (AdapterCall t) s = adapter_call t s"
| "sched_exec (AdapterExit t) s = adapter_exit t s"
| "sched_exec (StopBegin task) s = Some (stop_begin task s)"
| "sched_exec (StopEnd k) s = stop_end k s"

fun sched_run :: "sched_step list \<Rightarrow> scheduler \<Rightarrow> scheduler option" where
  "sched_run [] s = Some s"
| "sched_run (a # as) s = (case sched_exec a s of None \<Rightarrow> None | Some s' \<Rightarrow> sched_run as s')"

section \<open>Properties\<close>

lemma free_slot_none: "free_slot ss = None \<longleftrightarrow> (\<forall>s \<in> set ss. slot_thread s \<noteq> None)"
  by (induction ss) auto

lemma free_slot_some: "free_slot ss = Some i \<Longrightarrow> i < length ss \<and> slot_thread (ss ! i) = None"
  by (induction ss arbitrary: i) (auto split: if_splits)

definition sched_wf :: "scheduler \<Rightarrow> bool" where
  "sched_wf s \<longleftrightarrow> length (sc_slots s) = SCHEDULER_MAX_TASKS \<and>
     (\<forall>k < length (sc_threads s). th_slot (sc_threads s ! k) < SCHEDULER_MAX_TASKS)"

text \<open>
  A \<open>scheduler_start\<close> that nothing interrupts takes the first slot
  without a thread and hands back that slot; the new thread runs exactly the entry and
  user data of the call, shows in the slot until it ends, and its end gives the slot back
  empty with every other slot untouched. With a thread in each of the four slots, or
  without an entry, the call returns the empty task and changes nothing.
\<close>

theorem scheduler_start_alone:
  fixes e :: nat and ud :: nat
  assumes "sched_wf s"
  defines "k \<equiv> length (sc_calls s)" and "t \<equiv> length (sc_threads s)"
  shows "(case free_slot (sc_slots s) of
      None \<Rightarrow> start_claim (Some e) ud s = (None, s)
    | Some i \<Rightarrow>
        i < SCHEDULER_MAX_TASKS \<and> slot_thread (sc_slots s ! i) = None \<and>
        fst (start_claim (Some e) ud s) = Some i \<and>
        (\<exists>s1 s2. sched_run [StartClaim (Some e) ud, StartCreate k True, StartStore k] s = Some s1 \<and>
          slot_thread (sc_slots s1 ! i) = Some t \<and> sc_calls s1 = sc_calls s \<and>
          sched_run [AdapterCall t, AdapterExit t] s1 = Some s2 \<and>
          sc_runs s2 = sc_runs s @ [(t, e, Some ud)] \<and>
          sc_slots s2 = (sc_slots s)[i := empty_slot])) \<and>
    start_claim None ud s = (None, s)"
proof (cases "free_slot (sc_slots s)")
  case None
  then show ?thesis by (simp add: start_claim_def)
next
  case (Some i)
  then have i: "i < length (sc_slots s)" "slot_thread (sc_slots s ! i) = None"
    using free_slot_some by auto
  then show ?thesis
    using Some assms(1)
    by (auto simp: start_claim_def start_create_def start_store_def adapter_call_def adapter_exit_def
        clear_slot_def drop_call_def Let_def k_def t_def nth_append sched_wf_def)
qed

theorem scheduler_start_alone_witness:
  "fst (start_claim (Some 7) 1 scheduler0) = Some 0 \<and>
   (\<exists>s1. sched_run [StartClaim (Some 7) 1, StartCreate 0 True, StartStore 0] scheduler0 = Some s1 \<and>
     slot_thread (sc_slots s1 ! 0) = Some 0)"
proof -
  have "sched_wf scheduler0" by (simp add: sched_wf_def scheduler0_def)
  moreover have "free_slot (sc_slots scheduler0) = Some 0" "length (sc_calls scheduler0) = 0" "length (sc_threads scheduler0) = 0"
    by (simp_all add: scheduler0_def SCHEDULER_MAX_TASKS_def empty_slot_def numeral_eq_Suc)
  ultimately show ?thesis using scheduler_start_alone [of scheduler0 7 1] by auto
qed

text \<open>
  The slot is not reserved between the two critical sections of
  \<open>scheduler_start\<close>. Two calls that overlap both take slot 0: both threads run the second
  caller's entry, the first caller's entry never runs. And a thread that ends before its
  creator stores it leaves its identifier in the slot, which stays taken although no thread
  is alive.
\<close>

theorem scheduler_start_race:
  "(\<exists>s. sched_run [StartClaim (Some 1) 10, StartClaim (Some 2) 20, StartCreate 0 True, StartCreate 1 True,
        StartStore 0, StartStore 0, AdapterCall 0, AdapterCall 1] scheduler0 = Some s \<and>
      sc_runs s = [(0, 2, Some 20), (1, 2, Some 20)] \<and> slot_thread (sc_slots s ! 1) = None) \<and>
   (\<exists>s. sched_run [StartClaim (Some 1) 10, StartCreate 0 True, AdapterCall 0, AdapterExit 0, StartStore 0] scheduler0
        = Some s \<and>
      slot_thread (sc_slots s ! 0) = Some 0 \<and> th_phase (sc_threads s ! 0) = Ended \<and> sc_calls s = [])"
  by (simp add: scheduler0_def SCHEDULER_MAX_TASKS_def empty_slot_def numeral_eq_Suc start_claim_def start_create_def
      start_store_def adapter_call_def adapter_exit_def clear_slot_def drop_call_def Let_def)

end
