(* ===== verification/Flash.thy ===== *)
theory Flash
  imports Nvx_Prelude
begin

text \<open>
  The flash driver of \<open>boards/STM32F072/flash.c\<close> (and its F303 twin) and the layout of
  the reserved sector from \<open>include/driver/stm32_peripherals.h\<close>. Flash is a map from
  half-word number (byte address divided by 2) to half-word. The controller's status
  decides per half-word whether \<open>flash_wait_for_last_operation\<close> succeeded before it is
  written; that outcome is the parameter \<open>ready\<close>. Erasure is taken to succeed. The critical
  sections and the lock bit leave no trace here.
\<close>

type_synonym flash = "nat \<Rightarrow> u16"

definition FLASH_PAGESIZE :: nat where
  "FLASH_PAGESIZE = 0x800"

definition flash_erase_page0 :: "nat \<Rightarrow> flash \<Rightarrow> flash" where
  "flash_erase_page0 page_address fl =
     (\<lambda>i. if 2 * i div FLASH_PAGESIZE = page_address div FLASH_PAGESIZE then 0xFFFF else fl i)"

function erase_loop :: "nat \<Rightarrow> nat \<Rightarrow> flash \<Rightarrow> flash" where
  "erase_loop page_address e fl =
     (if page_address < e then erase_loop (page_address + FLASH_PAGESIZE) e (flash_erase_page0 page_address fl)
      else fl)"
  by pat_completeness auto
termination
  by (relation "measure (\<lambda>(a, e, fl). e - a)") (auto simp: FLASH_PAGESIZE_def)

declare erase_loop.simps [simp del]

definition flash_erase_pages :: "nat \<Rightarrow> nat \<Rightarrow> flash \<Rightarrow> flash" where
  "flash_erase_pages page_address sz fl = erase_loop page_address (sz + page_address) fl"

definition flash_program_half_word_buffer :: "(nat \<Rightarrow> bool) \<Rightarrow> nat \<Rightarrow> (nat \<Rightarrow> u16) \<Rightarrow> nat \<Rightarrow> flash \<Rightarrow> flash" where
  "flash_program_half_word_buffer ready dst data sz fl =
     foldl (\<lambda>fl i. if ready i then fl(dst div 2 + i := data i) else fl)
       (flash_erase_pages dst sz fl) [0..<sz div 2]"

text \<open>A structure of 32-bit words as its half-words, and read back from an address.\<close>

definition half :: "u32 list \<Rightarrow> nat \<Rightarrow> u16" where
  "half ws i = (if even i then ucast (ws ! (i div 2)) else ucast (drop_bit 16 (ws ! (i div 2))))"

definition read_word :: "flash \<Rightarrow> nat \<Rightarrow> u32" where
  "read_word fl a = ucast (fl (a div 2)) OR push_bit 16 (ucast (fl (a div 2 + 1)))"

definition read_words :: "flash \<Rightarrow> nat \<Rightarrow> nat \<Rightarrow> u32 list" where
  "read_words fl a n = map (\<lambda>k. read_word fl (a + 4 * k)) [0..<n]"

section \<open>Layout\<close>

record flash_layout =
  savearea_max :: nat
  save_config_size :: nat
  save_prop_config_size :: nat
  sector_start :: nat
  sector_size :: nat

definition layout_F072 :: flash_layout where
  "layout_F072 = \<lparr>savearea_max = 4, save_config_size = 0x800, save_prop_config_size = 0x1800,
     sector_start = 0x08018800, sector_size = 0x7800\<rparr>"

definition layout_F303 :: flash_layout where
  "layout_F303 = \<lparr>savearea_max = 7, save_config_size = 0x800, save_prop_config_size = 0x4000,
     sector_start = 0x0801C800, sector_size = 0x1C800\<rparr>"

definition save_full_area_size :: "flash_layout \<Rightarrow> nat" where
  "save_full_area_size l = save_config_size l + savearea_max l * save_prop_config_size l"

definition save_config_addr :: "flash_layout \<Rightarrow> nat" where
  "save_config_addr l = sector_start l + sector_size l - save_config_size l"

definition save_prop_config_addr :: "flash_layout \<Rightarrow> nat" where
  "save_prop_config_addr l = save_config_addr l - savearea_max l * save_prop_config_size l"

definition calibration_slot_area :: "flash_layout \<Rightarrow> nat \<Rightarrow> nat" where
  "calibration_slot_area l i = save_prop_config_addr l + i * save_prop_config_size l"

text \<open>What the preprocessor checks of a layout, and what both boards have.\<close>

definition layout_ok :: "flash_layout \<Rightarrow> bool" where
  "layout_ok l \<longleftrightarrow> save_full_area_size l \<le> sector_size l \<and> sector_start l \<le> save_prop_config_addr l \<and>
     save_config_addr l mod FLASH_PAGESIZE = 0 \<and> save_config_size l mod FLASH_PAGESIZE = 0 \<and>
     save_prop_config_size l mod FLASH_PAGESIZE = 0 \<and> 0 < save_prop_config_size l \<and> 0 < save_config_size l \<and>
     savearea_max l < 8"

lemma layouts_ok: "layout_ok layout_F072" "layout_ok layout_F303"
  by (simp_all add: layout_ok_def layout_F072_def layout_F303_def save_full_area_size_def
      save_prop_config_addr_def save_config_addr_def FLASH_PAGESIZE_def)

section \<open>Erasing and programming\<close>

lemma erase_loop_eq:
  assumes "a mod FLASH_PAGESIZE = 0"
  shows "erase_loop a e fl i =
    (if a div FLASH_PAGESIZE \<le> 2 * i div FLASH_PAGESIZE \<and> 2 * i div FLASH_PAGESIZE * FLASH_PAGESIZE < e
     then 0xFFFF else fl i)"
  using assms
proof (induction a e fl rule: erase_loop.induct)
  case (1 a e fl)
  define p where "p = 2 * i div FLASH_PAGESIZE"
  have ps: "0 < FLASH_PAGESIZE" by (simp add: FLASH_PAGESIZE_def)
  have a: "a = a div FLASH_PAGESIZE * FLASH_PAGESIZE" using "1.prems" by (simp add: mod_0_imp_dvd)
  show ?case
  proof (cases "a < e")
    case True
    have "erase_loop a e fl i = erase_loop (a + FLASH_PAGESIZE) e (flash_erase_page0 a fl) i"
      using True by (subst erase_loop.simps) simp
    also have "\<dots> = (if a div FLASH_PAGESIZE + 1 \<le> p \<and> p * FLASH_PAGESIZE < e then 0xFFFF else flash_erase_page0 a fl i)"
    proof -
      have "(a + FLASH_PAGESIZE) div FLASH_PAGESIZE = a div FLASH_PAGESIZE + 1" by (simp add: FLASH_PAGESIZE_def)
      then show ?thesis using "1.IH" [OF True] "1.prems" by (simp add: p_def)
    qed
    also have "\<dots> = (if a div FLASH_PAGESIZE \<le> p \<and> p * FLASH_PAGESIZE < e then 0xFFFF else fl i)"
      using True a by (cases "p = a div FLASH_PAGESIZE") (auto simp: flash_erase_page0_def p_def)
    finally show ?thesis by (simp add: p_def)
  next
    case False
    have "\<not> p * FLASH_PAGESIZE < e" if "a div FLASH_PAGESIZE \<le> p"
      using False a mult_le_mono1 [OF that, of FLASH_PAGESIZE] by simp
    then show ?thesis using False by (subst erase_loop.simps) (auto simp: p_def)
  qed
qed

text \<open>An area: page aligned at both ends.\<close>

definition area_ok :: "nat \<Rightarrow> nat \<Rightarrow> bool" where
  "area_ok a len \<longleftrightarrow> a mod FLASH_PAGESIZE = 0 \<and> len mod FLASH_PAGESIZE = 0"

lemma erase_outside:
  assumes "area_ok a len" "sz \<le> len" "2 * i < a \<or> a + len \<le> 2 * i"
  shows "flash_erase_pages a sz fl i = fl i"
proof -
  let ?p = "2 * i div FLASH_PAGESIZE"
  have "\<not> (a div FLASH_PAGESIZE \<le> ?p \<and> ?p * FLASH_PAGESIZE < a + sz)"
  proof
    assume h: "a div FLASH_PAGESIZE \<le> ?p \<and> ?p * FLASH_PAGESIZE < a + sz"
    obtain k m where a: "a = FLASH_PAGESIZE * k" and l: "len = FLASH_PAGESIZE * m"
      using assms(1) by (metis area_ok_def dvd_def mod_0_imp_dvd)
    have pg: "?p * FLASH_PAGESIZE \<le> 2 * i" "2 * i < (?p + 1) * FLASH_PAGESIZE" "k \<le> ?p"
      using h a by (simp_all add: FLASH_PAGESIZE_def)
    from assms(3) show False
    proof
      assume "2 * i < a"
      moreover have "a \<le> ?p * FLASH_PAGESIZE"
        using mult_le_mono2 [OF pg(3), of FLASH_PAGESIZE] by (simp only: a mult.commute)
      ultimately show False using pg(1) by linarith
    next
      assume "a + len \<le> 2 * i"
      then have "FLASH_PAGESIZE * (k + m) < FLASH_PAGESIZE * (?p + 1)" using pg a l by (simp add: algebra_simps)
      then have "k + m < ?p + 1" by (rule mult_less_cancel1 [THEN iffD1, THEN conjunct2])
      then have "FLASH_PAGESIZE * (k + m) \<le> FLASH_PAGESIZE * ?p" by (intro mult_le_mono2) simp
      then have "a + len \<le> ?p * FLASH_PAGESIZE" using a l by (simp add: algebra_simps)
      then show False using h assms(2) by simp
    qed
  qed
  then show ?thesis using assms(1) by (auto simp: flash_erase_pages_def erase_loop_eq area_ok_def add.commute)
qed

lemma erase_inside:
  assumes "area_ok a len" "sz \<le> len" "a \<le> 2 * i" "2 * i < a + sz"
  shows "flash_erase_pages a sz fl i = 0xFFFF"
proof -
  have "a div FLASH_PAGESIZE \<le> 2 * i div FLASH_PAGESIZE" using assms(3) by (rule div_le_mono)
  moreover have "2 * i div FLASH_PAGESIZE * FLASH_PAGESIZE < sz + a" using assms(4) by (simp add: le_less_trans [of _ "2 * i"] div_times_less_eq_dividend)
  ultimately show ?thesis using assms(1) by (simp add: flash_erase_pages_def erase_loop_eq area_ok_def)
qed

lemma program_loop:
  "foldl (\<lambda>fl i. if ready i then fl(b + i := data i) else fl) fl [0..<n] j =
     (if b \<le> j \<and> j < b + n \<and> ready (j - b) then data (j - b) else (fl j :: u16))"
  by (induction n) auto

lemma program_outside:
  assumes "area_ok a len" "sz \<le> len" "2 * i < a \<or> a + len \<le> 2 * i"
  shows "flash_program_half_word_buffer ready a data sz fl i = fl i"
proof -
  have "\<not> (a div 2 \<le> i \<and> i < a div 2 + sz div 2)"
  proof -
    have "even a" using assms(1) by (auto simp: area_ok_def FLASH_PAGESIZE_def dest!: mod_0_imp_dvd intro: dvd_trans [of 2 2048])
    then show ?thesis using assms(2,3) by auto
  qed
  then show ?thesis
    using erase_outside [OF assms] by (auto simp: flash_program_half_word_buffer_def program_loop)
qed

lemma read_word_half: "fl (a div 2) = ucast w \<Longrightarrow> fl (a div 2 + 1) = ucast (drop_bit 16 w) \<Longrightarrow> read_word fl a = w"
proof -
  have "ucast (ucast w :: u16) OR push_bit 16 (ucast (ucast (drop_bit 16 w) :: u16)) = w" for w :: u32
    by (rule bit_word_eqI) (auto simp: bit_simps)
  then show "fl (a div 2) = ucast w \<Longrightarrow> fl (a div 2 + 1) = ucast (drop_bit 16 w) \<Longrightarrow> read_word fl a = w"
    by (simp add: read_word_def)
qed

lemma program_read:
  assumes "\<forall>i < 2 * length ws. ready i" "even a" "4 * length ws \<le> sz"
  shows "read_words (flash_program_half_word_buffer ready a (half ws) (4 * length ws) fl) a (length ws) = ws"
proof (rule nth_equalityI)
  fix k assume "k < length (read_words (flash_program_half_word_buffer ready a (half ws) (4 * length ws) fl) a (length ws))"
  then have k: "k < length ws" by (simp add: read_words_def)
  have h: "flash_program_half_word_buffer ready a (half ws) (4 * length ws) fl (a div 2 + j) = half ws j" if "j < 2 * length ws" for j
    using that assms(1) by (simp add: flash_program_half_word_buffer_def program_loop)
  have d: "(a + 4 * k) div 2 = a div 2 + 2 * k" using assms(2) by auto
  show "read_words (flash_program_half_word_buffer ready a (half ws) (4 * length ws) fl) a (length ws) ! k = ws ! k"
    using k h [of "2 * k"] h [of "2 * k + 1"] by (simp add: read_words_def) (rule read_word_half; simp add: d half_def)
qed (simp add: read_words_def)

lemma read_words_cong:
  assumes "\<And>i. a \<le> 2 * i \<Longrightarrow> 2 * i < a + 4 * n \<Longrightarrow> fl i = fl' i" "even a"
  shows "read_words fl a n = read_words fl' a n"
proof -
  have "read_word fl (a + 4 * k) = read_word fl' (a + 4 * k)" if "k < n" for k
  proof -
    have d: "(a + 4 * k) div 2 = a div 2 + 2 * k" "2 * (a div 2) = a" using assms(2) by auto
    have "fl (a div 2 + 2 * k) = fl' (a div 2 + 2 * k)" by (rule assms(1)) (use that d in simp_all)
    moreover have "fl (a div 2 + 2 * k + 1) = fl' (a div 2 + 2 * k + 1)" by (rule assms(1)) (use that d in simp_all)
    ultimately show ?thesis by (simp add: read_word_def d)
  qed
  then show ?thesis by (simp add: read_words_def)
qed

end
