(* ===== verification/Config_Service.thy ===== *)
theory Config_Service
  imports Flash Event_Bus
begin

text \<open>
  \<open>src/src/sys/config_service.c\<close>: saving and recalling the configuration and the
  calibration slots, each a structure of 32-bit words with a magic word first and a
  checksum last, in the reserved flash sector. \<open>config_t\<close> and \<open>properties_t\<close> are their
  words; the service looks at nothing else in them. The semaphore is its counter: a wait
  is granted when the counter is positive and times out otherwise (nobody else runs during
  a call). \<open>ready\<close> is the outcome of the flash controller per half-word.
\<close>

section \<open>State\<close>

definition CONFIG_MAGIC :: u32 where "CONFIG_MAGIC = 0x434f4e56"
definition PROPERTIES_MAGIC :: u32 where "PROPERTIES_MAGIC = 0x434f4e54"
definition NO_SAVE_SLOT :: u16 where "NO_SAVE_SLOT = 0xFFFF"

record config_service =
  cs_layout :: flash_layout
  cs_flash :: flash
  cs_config :: "u32 list"
  cs_props :: "u32 list"
  cs_sem :: int
  lastsaveid :: u16
  checksum_ok :: u8
  cs_bus :: "event_bus option"
  cs_initialized :: bool
  calibration_in_progress :: bool
  cs_calls :: "invocation list"

definition with_magic :: "u32 \<Rightarrow> u32 list \<Rightarrow> u32 list" where
  "with_magic m ws = ws[0 := m]"

text \<open>\<open>len\<close> is a number of words here: both structures are whole words.\<close>

definition checksum :: "u32 list \<Rightarrow> u32" where
  "checksum ws = foldl (\<lambda>value w. word_rotr 31 value + w) 0 ws"

definition seal :: "u32 \<Rightarrow> u32 list \<Rightarrow> u32 list" where
  "seal m ws = (let ws = with_magic m ws in ws[length ws - 1 := checksum (butlast ws)])"

definition sealed :: "u32 \<Rightarrow> u32 list \<Rightarrow> bool" where
  "sealed m ws \<longleftrightarrow> ws ! 0 = m \<and> checksum (butlast ws) = last ws"

section \<open>Operations\<close>

definition sem_wait :: "config_service \<Rightarrow> bool \<times> config_service" where
  "sem_wait s = (if cs_sem s > 0 then (True, s\<lparr>cs_sem := cs_sem s - 1\<rparr>) else (False, s))"

definition sem_signal :: "config_service \<Rightarrow> config_service" where
  "sem_signal s = s\<lparr>cs_sem := cs_sem s + 1\<rparr>"

definition cs_publish :: "event_bus_topic \<Rightarrow> config_service \<Rightarrow> config_service" where
  "cs_publish topic s =
     (case cs_bus s of
        None \<Rightarrow> s
      | Some bus \<Rightarrow> (case event_bus_publish bus topic 0 of
          (_, bus, calls) \<Rightarrow> s\<lparr>cs_bus := Some bus, cs_calls := cs_calls s @ calls\<rparr>))"

definition config_save_impl :: "(nat \<Rightarrow> bool) \<Rightarrow> config_service \<Rightarrow> int \<times> config_service" where
  "config_save_impl ready s =
     (case sem_wait s of
        (False, s) \<Rightarrow> (-1, s)
      | (True, s) \<Rightarrow>
          let s = s\<lparr>cs_config := seal CONFIG_MAGIC (cs_config s)\<rparr>;
              s = s\<lparr>cs_flash := flash_program_half_word_buffer ready (save_config_addr (cs_layout s))
                      (half (cs_config s)) (4 * length (cs_config s)) (cs_flash s)\<rparr>;
              s = sem_signal s
          in (0, cs_publish EVENT_STORAGE_UPDATED s))"

definition config_recall_impl :: "config_service \<Rightarrow> int \<times> config_service" where
  "config_recall_impl s =
     (let src = read_words (cs_flash s) (save_config_addr (cs_layout s)) (length (cs_config s))
      in if src ! 0 \<noteq> CONFIG_MAGIC \<or> checksum (butlast src) \<noteq> last src then (-1, s)
         else (0, s\<lparr>cs_config := src\<rparr>))"

definition caldata_save_impl :: "(nat \<Rightarrow> bool) \<Rightarrow> nat \<Rightarrow> config_service \<Rightarrow> int \<times> config_service" where
  "caldata_save_impl ready i s =
     (if i \<ge> savearea_max (cs_layout s) then (-1, s)
      else if calibration_in_progress s then (-1, s)
      else case sem_wait s of
        (False, s) \<Rightarrow> (-1, s)
      | (True, s) \<Rightarrow>
          let s = s\<lparr>cs_props := seal PROPERTIES_MAGIC (cs_props s)\<rparr>;
              s = s\<lparr>cs_flash := flash_program_half_word_buffer ready (calibration_slot_area (cs_layout s) i)
                      (half (cs_props s)) (4 * length (cs_props s)) (cs_flash s)\<rparr>;
              s = s\<lparr>lastsaveid := of_nat i\<rparr>
          in (0, sem_signal s))"

text \<open>The pointer \<open>get_properties\<close> returns is the slot's content when it is not null.\<close>

definition get_properties :: "nat \<Rightarrow> config_service \<Rightarrow> u32 list option \<times> config_service" where
  "get_properties i s =
     (if i \<ge> savearea_max (cs_layout s) then (None, s)
      else let src = read_words (cs_flash s) (calibration_slot_area (cs_layout s) i) (length (cs_props s))
           in if bit (checksum_ok s) i then (Some src, s)
              else if src ! 0 \<noteq> PROPERTIES_MAGIC \<or> checksum (butlast src) \<noteq> last src then (None, s)
              else (Some src, s\<lparr>checksum_ok := checksum_ok s OR push_bit i 1\<rparr>))"

definition caldata_recall_impl :: "nat \<Rightarrow> config_service \<Rightarrow> int \<times> config_service" where
  "caldata_recall_impl i s =
     (let s = s\<lparr>lastsaveid := NO_SAVE_SLOT\<rparr>
      in if i = unat NO_SAVE_SLOT then (0, s)
         else case sem_wait s of
           (False, s) \<Rightarrow> (-1, s)
         | (True, s) \<Rightarrow>
             (case get_properties i s of
                (None, s) \<Rightarrow> (1, sem_signal s)
              | (Some src, s) \<Rightarrow> (0, sem_signal (s\<lparr>lastsaveid := of_nat i, cs_props := src\<rparr>))))"

definition clear_all_config_prop_data_impl :: "config_service \<Rightarrow> config_service" where
  "clear_all_config_prop_data_impl s =
     (case sem_wait s of
        (False, s) \<Rightarrow> s
      | (True, s) \<Rightarrow>
          let s = s\<lparr>lastsaveid := NO_SAVE_SLOT, checksum_ok := 0\<rparr>;
              s = s\<lparr>cs_flash := flash_erase_pages (save_prop_config_addr (cs_layout s))
                      (save_full_area_size (cs_layout s)) (cs_flash s)\<rparr>
          in cs_publish EVENT_STORAGE_UPDATED (sem_signal s))"

text \<open>The listener the service subscribes under; its name on the bus is 1.\<close>

definition config_on_configuration_changed ::
  "(nat \<Rightarrow> bool) \<Rightarrow> event_bus_message \<Rightarrow> config_service \<Rightarrow> config_service" where
  "config_on_configuration_changed ready message s =
     (if msg_topic message \<noteq> EVENT_CONFIGURATION_CHANGED then s
      else if cs_initialized s then snd (config_save_impl ready s) else s)"

definition config_service_init :: "config_service \<Rightarrow> config_service" where
  "config_service_init s = s\<lparr>cs_sem := 1, cs_initialized := True\<rparr>"

text \<open>The firmware has one bus: two bus pointers differ only if one of them is null.\<close>

definition config_service_attach_event_bus :: "event_bus option \<Rightarrow> config_service \<Rightarrow> config_service" where
  "config_service_attach_event_bus bus s =
     (if (cs_bus s = None) = (bus = None) then s
      else s\<lparr>cs_bus := map_option
        (\<lambda>b. snd (event_bus_subscribe b EVENT_CONFIGURATION_CHANGED (Some 1) 0)) bus\<rparr>)"

definition config_service_notify_configuration_changed :: "config_service \<Rightarrow> config_service" where
  "config_service_notify_configuration_changed s = cs_publish EVENT_CONFIGURATION_CHANGED s"

definition config_save :: "(nat \<Rightarrow> bool) \<Rightarrow> config_service \<Rightarrow> int \<times> config_service" where
  "config_save ready s = (if cs_initialized s then config_save_impl ready s else (-1, s))"

definition config_recall :: "config_service \<Rightarrow> int \<times> config_service" where
  "config_recall s = (if cs_initialized s then config_recall_impl s else (-1, s))"

definition caldata_save :: "(nat \<Rightarrow> bool) \<Rightarrow> nat \<Rightarrow> config_service \<Rightarrow> int \<times> config_service" where
  "caldata_save ready i s = (if cs_initialized s then caldata_save_impl ready i s else (-1, s))"

definition caldata_recall :: "nat \<Rightarrow> config_service \<Rightarrow> int \<times> config_service" where
  "caldata_recall i s = (if cs_initialized s then caldata_recall_impl i s else (-1, s))"

definition clear_all_config_prop_data :: "config_service \<Rightarrow> config_service" where
  "clear_all_config_prop_data s = (if cs_initialized s then clear_all_config_prop_data_impl s else s)"

section \<open>Regions of a store\<close>

locale region_store =
  fixes ok :: "'l \<Rightarrow> bool"
    and valid :: "'l \<Rightarrow> 'r \<Rightarrow> bool"
    and room :: "'l \<Rightarrow> 'r \<Rightarrow> nat"
    and wr :: "'l \<Rightarrow> 'r \<Rightarrow> 'w list \<Rightarrow> 'm \<Rightarrow> 'm"
    and rd :: "'l \<Rightarrow> 'r \<Rightarrow> nat \<Rightarrow> 'm \<Rightarrow> 'w list"
  assumes rd_wr: "ok l \<Longrightarrow> valid l r \<Longrightarrow> length ws \<le> room l r \<Longrightarrow> rd l r (length ws) (wr l r ws m) = ws"
    and rd_wr_other: "ok l \<Longrightarrow> valid l r \<Longrightarrow> valid l r' \<Longrightarrow> r \<noteq> r' \<Longrightarrow> length ws \<le> room l r \<Longrightarrow> n \<le> room l r' \<Longrightarrow>
      rd l r' n (wr l r ws m) = rd l r' n m"
begin

text \<open>A sequence of writes leaves in each region what was last written to it.\<close>

definition wr_all :: "'l \<Rightarrow> ('r \<times> 'w list) list \<Rightarrow> 'm \<Rightarrow> 'm" where
  "wr_all l ops m = foldl (\<lambda>m (r, ws). wr l r ws m) m ops"

lemma last_write:
  assumes "ok l" "\<forall>(r, ws) \<in> set ops. valid l r \<and> length ws \<le> room l r" "valid l r" "n \<le> room l r"
    and "\<forall>ws. (r, ws) \<in> set ops \<longrightarrow> length ws = n"
  shows "rd l r n (wr_all l ops m) =
    (case filter (\<lambda>(r', ws). r' = r) (rev ops) of [] \<Rightarrow> rd l r n m | (_, ws) # _ \<Rightarrow> ws)"
  using assms(2,5)
proof (induction ops rule: rev_induct)
  case Nil
  then show ?case by (simp add: wr_all_def)
next
  case (snoc op ops)
  obtain r' ws where op: "op = (r', ws)" by (cases op)
  have step: "wr_all l (ops @ [op]) m = wr l r' ws (wr_all l ops m)" by (simp add: wr_all_def op)
  show ?case
  proof (cases "r' = r")
    case True
    then have "length ws = n" "length ws \<le> room l r" using snoc.prems op by auto
    then show ?thesis
      unfolding step using rd_wr [OF assms(1,3), of ws "wr_all l ops m"] True by (simp add: op)
  next
    case False
    have "rd l r n (wr_all l (ops @ [op]) m) = rd l r n (wr_all l ops m)"
      unfolding step using snoc.prems False assms(1,3,4) op by (intro rd_wr_other) auto
    also have "\<dots> = (case filter (\<lambda>(r', ws). r' = r) (rev ops) of [] \<Rightarrow> rd l r n m | (_, ws) # _ \<Rightarrow> ws)"
      using snoc by simp
    finally show ?thesis using False by (simp add: op)
  qed
qed

end

datatype region = Config_Area | Slot nat

fun fl_addr :: "flash_layout \<Rightarrow> region \<Rightarrow> nat" where
  "fl_addr l Config_Area = save_config_addr l"
| "fl_addr l (Slot i) = calibration_slot_area l i"

fun fl_size :: "flash_layout \<Rightarrow> region \<Rightarrow> nat" where
  "fl_size l Config_Area = save_config_size l"
| "fl_size l (Slot i) = save_prop_config_size l"

fun fl_valid :: "flash_layout \<Rightarrow> region \<Rightarrow> bool" where
  "fl_valid l Config_Area = True"
| "fl_valid l (Slot i) = (i < savearea_max l)"

definition fl_room :: "flash_layout \<Rightarrow> region \<Rightarrow> nat" where
  "fl_room l r = fl_size l r div 4"

definition fl_write :: "flash_layout \<Rightarrow> region \<Rightarrow> u32 list \<Rightarrow> flash \<Rightarrow> flash" where
  "fl_write l r ws fl = flash_program_half_word_buffer (\<lambda>_. True) (fl_addr l r) (half ws) (4 * length ws) fl"

definition fl_read :: "flash_layout \<Rightarrow> region \<Rightarrow> nat \<Rightarrow> flash \<Rightarrow> u32 list" where
  "fl_read l r n fl = read_words fl (fl_addr l r) n"

lemma prop_addr_split:
  assumes "layout_ok l"
  shows "save_prop_config_addr l + savearea_max l * save_prop_config_size l = save_config_addr l"
proof -
  have "0 < savearea_max l * save_prop_config_size l \<or> savearea_max l = 0" using assms by (auto simp: layout_ok_def)
  then show ?thesis using assms by (auto simp: layout_ok_def save_prop_config_addr_def save_full_area_size_def save_config_addr_def)
qed

lemma fl_area:
  assumes "layout_ok l" "fl_valid l r"
  shows "area_ok (fl_addr l r) (fl_size l r)"
proof (cases r)
  case Config_Area
  then show ?thesis using assms by (simp add: area_ok_def layout_ok_def)
next
  case (Slot i)
  have "FLASH_PAGESIZE dvd save_config_addr l" "FLASH_PAGESIZE dvd save_prop_config_size l"
    using assms by (auto simp: layout_ok_def)
  then have "FLASH_PAGESIZE dvd save_prop_config_addr l" using prop_addr_split [OF assms(1)]
    by (metis dvd_add_left_iff dvd_mult)
  then show ?thesis
    using Slot \<open>FLASH_PAGESIZE dvd save_prop_config_size l\<close> by (simp add: area_ok_def calibration_slot_area_def)
qed

lemma fl_even:
  assumes "layout_ok l" "fl_valid l r"
  shows "even (fl_addr l r)"
proof -
  have "FLASH_PAGESIZE dvd fl_addr l r" using fl_area [OF assms] by (auto simp: area_ok_def)
  moreover have "2 dvd FLASH_PAGESIZE" by (simp add: FLASH_PAGESIZE_def)
  ultimately show ?thesis by (rule dvd_trans [rotated])
qed

lemma slot_end:
  assumes "i < j"
  shows "calibration_slot_area l i + save_prop_config_size l \<le> calibration_slot_area l j"
proof -
  have "Suc i * save_prop_config_size l \<le> j * save_prop_config_size l" using assms by (intro mult_le_mono1) simp
  then show ?thesis by (simp add: calibration_slot_area_def)
qed

lemma fl_apart:
  assumes "layout_ok l" "fl_valid l r" "fl_valid l r'" "r \<noteq> r'"
  shows "fl_addr l r + fl_size l r \<le> fl_addr l r' \<or> fl_addr l r' + fl_size l r' \<le> fl_addr l r"
proof -
  have c: "calibration_slot_area l i + save_prop_config_size l \<le> save_config_addr l" if "i < savearea_max l" for i
    using slot_end [OF that, of l] prop_addr_split [OF assms(1)] by (simp add: calibration_slot_area_def)
  show ?thesis
    using assms c slot_end by (cases r; cases r') (auto simp: neq_iff)
qed

interpretation store: region_store layout_ok fl_valid fl_room fl_write fl_read
proof
  fix l r and ws :: "u32 list" and m
  assume h: "layout_ok l" "fl_valid l r" "length ws \<le> fl_room l r"
  show "fl_read l r (length ws) (fl_write l r ws m) = ws"
    unfolding fl_read_def fl_write_def
    by (rule program_read [where sz = "4 * length ws"]) (use fl_even [OF h(1,2)] in simp_all)
next
  fix l r r' and ws :: "u32 list" and n m
  assume h: "layout_ok l" "fl_valid l r" "fl_valid l r'" "r \<noteq> r'" "length ws \<le> fl_room l r" "n \<le> fl_room l r'"
  have len: "4 * length ws \<le> fl_size l r" "4 * n \<le> fl_size l r'" using h(5,6) by (simp_all add: fl_room_def)
  show "fl_read l r' n (fl_write l r ws m) = fl_read l r' n m"
    unfolding fl_read_def fl_write_def
  proof (rule read_words_cong)
    fix i assume i: "fl_addr l r' \<le> 2 * i" "2 * i < fl_addr l r' + 4 * n"
    show "flash_program_half_word_buffer (\<lambda>_. True) (fl_addr l r) (half ws) (4 * length ws) m i = m i"
      by (rule program_outside [OF fl_area [OF h(1,2)] len(1)]) (use fl_apart [OF h(1-4)] i len in auto)
  qed (use fl_even [OF h(1,3)] in simp)
qed

section \<open>The service\<close>

definition cs_wf :: "config_service \<Rightarrow> bool" where
  "cs_wf s \<longleftrightarrow> layout_ok (cs_layout s) \<and>
     2 \<le> length (cs_config s) \<and> length (cs_config s) \<le> fl_room (cs_layout s) Config_Area \<and>
     2 \<le> length (cs_props s) \<and> length (cs_props s) \<le> fl_room (cs_layout s) (Slot 0)"

lemma fl_room_slot: "fl_room l (Slot i) = fl_room l (Slot 0)"
  by (simp add: fl_room_def)

lemma seal_length [simp]: "length (seal m ws) = length ws"
  by (simp add: seal_def with_magic_def Let_def)

lemma seal_sealed:
  assumes "2 \<le> length ws"
  shows "sealed m (seal m ws)"
proof -
  let ?w = "ws[0 := m]"
  have "?w \<noteq> []" using assms by auto
  then have "last (?w[length ?w - 1 := x]) = x" for x by (subst last_list_update) auto
  moreover have "butlast (?w[length ?w - 1 := x]) = butlast ?w" for x by (simp add: butlast_list_update)
  moreover have "?w[length ?w - 1 := x] ! 0 = m" for x
  proof -
    have "?w ! 0 = m" using assms by (cases ws) auto
    then show ?thesis using assms by simp
  qed
  ultimately show ?thesis unfolding sealed_def seal_def with_magic_def Let_def by simp
qed

text \<open>The payload between the magic word and the checksum is kept as it is.\<close>

lemma seal_payload: "0 < i \<Longrightarrow> i < length ws - 1 \<Longrightarrow> seal m ws ! i = ws ! i"
  by (simp add: seal_def with_magic_def Let_def)

lemma cs_publish_same:
  "cs_flash (cs_publish t s) = cs_flash s" "cs_config (cs_publish t s) = cs_config s"
  "cs_props (cs_publish t s) = cs_props s" "cs_sem (cs_publish t s) = cs_sem s"
  "cs_layout (cs_publish t s) = cs_layout s" "lastsaveid (cs_publish t s) = lastsaveid s"
  "checksum_ok (cs_publish t s) = checksum_ok s" "cs_initialized (cs_publish t s) = cs_initialized s"
  "calibration_in_progress (cs_publish t s) = calibration_in_progress s"
  by (simp_all add: cs_publish_def split: option.split prod.split)

lemma config_save_ok:
  assumes "cs_initialized s" "0 < cs_sem s" "\<forall>i. ready i"
  obtains s1 where "config_save ready s = (0, s1)" "cs_layout s1 = cs_layout s" "cs_initialized s1"
    "cs_config s1 = seal CONFIG_MAGIC (cs_config s)" "cs_props s1 = cs_props s" "cs_sem s1 = cs_sem s"
    "cs_flash s1 = fl_write (cs_layout s) Config_Area (seal CONFIG_MAGIC (cs_config s)) (cs_flash s)"
    "lastsaveid s1 = lastsaveid s" "checksum_ok s1 = checksum_ok s"
proof -
  have all: "ready = (\<lambda>_. True)" using assms(3) by auto
  have "config_save ready s = (0, snd (config_save ready s))"
    "cs_layout (snd (config_save ready s)) = cs_layout s" "cs_initialized (snd (config_save ready s))"
    "cs_config (snd (config_save ready s)) = seal CONFIG_MAGIC (cs_config s)"
    "cs_props (snd (config_save ready s)) = cs_props s" "cs_sem (snd (config_save ready s)) = cs_sem s"
    "lastsaveid (snd (config_save ready s)) = lastsaveid s" "checksum_ok (snd (config_save ready s)) = checksum_ok s"
    using assms by (simp_all add: config_save_def config_save_impl_def sem_wait_def sem_signal_def Let_def cs_publish_same)
  moreover have "cs_flash (snd (config_save ready s)) =
      fl_write (cs_layout s) Config_Area (seal CONFIG_MAGIC (cs_config s)) (cs_flash s)"
    using assms(1,2) unfolding all
    by (simp add: fl_write_def config_save_def config_save_impl_def sem_wait_def sem_signal_def Let_def cs_publish_same)
  ultimately show thesis using that by blast
qed

lemma caldata_save_ok:
  assumes "cs_initialized s" "0 < cs_sem s" "\<forall>i. ready i" "i < savearea_max (cs_layout s)" "\<not> calibration_in_progress s"
  obtains s1 where "caldata_save ready i s = (0, s1)" "cs_layout s1 = cs_layout s" "cs_initialized s1"
    "cs_props s1 = seal PROPERTIES_MAGIC (cs_props s)" "cs_config s1 = cs_config s" "cs_sem s1 = cs_sem s"
    "cs_flash s1 = fl_write (cs_layout s) (Slot i) (seal PROPERTIES_MAGIC (cs_props s)) (cs_flash s)"
    "lastsaveid s1 = of_nat i" "checksum_ok s1 = checksum_ok s"
proof -
  have all: "ready = (\<lambda>_. True)" using assms(3) by auto
  let ?s1 = "snd (caldata_save ready i s)"
  have "caldata_save ready i s = (0, ?s1)" "cs_layout ?s1 = cs_layout s" "cs_initialized ?s1"
    "cs_props ?s1 = seal PROPERTIES_MAGIC (cs_props s)" "cs_config ?s1 = cs_config s" "cs_sem ?s1 = cs_sem s"
    "lastsaveid ?s1 = of_nat i" "checksum_ok ?s1 = checksum_ok s"
    using assms by (simp_all add: caldata_save_def caldata_save_impl_def sem_wait_def sem_signal_def Let_def)
  moreover have "cs_flash ?s1 = fl_write (cs_layout s) (Slot i) (seal PROPERTIES_MAGIC (cs_props s)) (cs_flash s)"
    using assms(1,2,4,5) unfolding all
    by (simp add: fl_write_def caldata_save_def caldata_save_impl_def sem_wait_def sem_signal_def Let_def)
  ultimately show thesis using that by blast
qed

lemma config_recall_eq:
  "config_recall s = (if \<not> cs_initialized s then (-1, s)
     else let src = fl_read (cs_layout s) Config_Area (length (cs_config s)) (cs_flash s)
          in if sealed CONFIG_MAGIC src then (0, s\<lparr>cs_config := src\<rparr>) else (-1, s))"
  by (auto simp: config_recall_def config_recall_impl_def fl_read_def sealed_def Let_def)

lemma get_properties_eq:
  "fst (get_properties i s) = (if savearea_max (cs_layout s) \<le> i then None
     else let src = fl_read (cs_layout s) (Slot i) (length (cs_props s)) (cs_flash s)
          in if bit (checksum_ok s) i \<or> sealed PROPERTIES_MAGIC src then Some src else None)"
  by (auto simp: get_properties_def fl_read_def sealed_def Let_def)

text \<open>
  C6 After a successful \<open>config_save\<close>, whatever the working copy becomes
  meanwhile, \<open>config_recall\<close> brings back the saved configuration with its magic word and
  checksum in place, and saving the configuration disturbs no calibration slot.
\<close>

theorem config_save_recall:
  assumes "cs_wf s" "cs_initialized s" "0 < cs_sem s" "\<forall>i. ready i"
  shows "\<exists>s1. config_save ready s = (0, s1) \<and>
    (\<forall>c. length c = length (cs_config s) \<longrightarrow>
      config_recall (s1\<lparr>cs_config := c\<rparr>) = (0, s1\<lparr>cs_config := seal CONFIG_MAGIC (cs_config s)\<rparr>)) \<and>
    (\<forall>i. fst (get_properties i s1) = fst (get_properties i s))"
proof -
  let ?ws = "seal CONFIG_MAGIC (cs_config s)"
  obtain s1 where s1: "config_save ready s = (0, s1)" "cs_layout s1 = cs_layout s" "cs_initialized s1"
    "cs_props s1 = cs_props s" "cs_flash s1 = fl_write (cs_layout s) Config_Area ?ws (cs_flash s)"
    "checksum_ok s1 = checksum_ok s"
    using config_save_ok [OF assms(2-4)] by metis
  have wf: "layout_ok (cs_layout s)" "2 \<le> length (cs_config s)" "length ?ws \<le> fl_room (cs_layout s) Config_Area"
    "length (cs_props s) \<le> fl_room (cs_layout s) (Slot i)" for i
    using assms(1) fl_room_slot [of "cs_layout s" i] by (auto simp: cs_wf_def)
  have rd: "fl_read (cs_layout s) Config_Area (length (cs_config s)) (cs_flash s1) = ?ws"
    using store.rd_wr [OF wf(1) _ wf(3), of "cs_flash s"] by (simp add: s1)
  have other: "fl_read (cs_layout s) (Slot i) (length (cs_props s)) (cs_flash s1) =
      fl_read (cs_layout s) (Slot i) (length (cs_props s)) (cs_flash s)" if "i < savearea_max (cs_layout s)" for i
    unfolding s1(5) by (rule store.rd_wr_other [OF wf(1) _ _ _ wf(3,4)]) (use that in simp_all)
  show ?thesis
    using s1 rd other seal_sealed [OF wf(2)] by (auto simp: config_recall_eq get_properties_eq Let_def)
qed

text \<open>A blank F072 board whose configuration has four words.\<close>

definition cs_demo :: config_service where
  "cs_demo = config_service_init \<lparr>cs_layout = layout_F072, cs_flash = (\<lambda>_. 0xFFFF), cs_config = [0, 5, 6, 0],
     cs_props = [0, 8, 9, 0], cs_sem = 0, lastsaveid = 0, checksum_ok = 0, cs_bus = None, cs_initialized = False,
     calibration_in_progress = False, cs_calls = []\<rparr>"

lemma cs_demo_wf: "cs_wf cs_demo" "cs_initialized cs_demo" "0 < cs_sem cs_demo" "\<not> calibration_in_progress cs_demo"
  "savearea_max (cs_layout cs_demo) = 4" "length (cs_config cs_demo) = 4" "length (cs_props cs_demo) = 4"
  using layouts_ok(1)
  by (simp_all add: cs_wf_def cs_demo_def config_service_init_def fl_room_def layout_F072_def)

theorem config_save_recall_witness:
  "\<exists>s1. config_save (\<lambda>_. True) cs_demo = (0, s1) \<and>
    fst (config_recall (s1\<lparr>cs_config := [1, 2, 3, 4]\<rparr>)) = 0"
  using config_save_recall [of cs_demo "\<lambda>_. True"] cs_demo_wf by force

text \<open>
  C12 A calibration saved in a slot comes back from that slot, sealed,
  with \<open>lastsaveid\<close> naming the slot; every other slot and the saved configuration read as
  before.
\<close>

theorem caldata_save_recall:
  assumes "cs_wf s" "cs_initialized s" "0 < cs_sem s" "\<forall>i. ready i"
    and "i < savearea_max (cs_layout s)" "\<not> calibration_in_progress s"
  shows "\<exists>s1. caldata_save ready i s = (0, s1) \<and> lastsaveid s1 = of_nat i \<and>
    (\<forall>p. length p = length (cs_props s) \<longrightarrow> (\<exists>s2. caldata_recall i (s1\<lparr>cs_props := p\<rparr>) = (0, s2) \<and>
      cs_props s2 = seal PROPERTIES_MAGIC (cs_props s) \<and> lastsaveid s2 = of_nat i \<and> cs_sem s2 = cs_sem s)) \<and>
    (\<forall>j. j \<noteq> i \<longrightarrow> fst (get_properties j s1) = fst (get_properties j s)) \<and>
    fst (config_recall s1) = fst (config_recall s)"
proof -
  let ?ws = "seal PROPERTIES_MAGIC (cs_props s)"
  obtain s1 where s1: "caldata_save ready i s = (0, s1)" "cs_layout s1 = cs_layout s" "cs_initialized s1"
    "cs_config s1 = cs_config s" "cs_flash s1 = fl_write (cs_layout s) (Slot i) ?ws (cs_flash s)"
    "checksum_ok s1 = checksum_ok s" "lastsaveid s1 = of_nat i" "cs_sem s1 = cs_sem s" "cs_props s1 = ?ws"
    using caldata_save_ok [OF assms(2-6)] by metis
  have wf: "layout_ok (cs_layout s)" "2 \<le> length (cs_props s)" "length ?ws \<le> fl_room (cs_layout s) (Slot i)"
    "length (cs_props s) \<le> fl_room (cs_layout s) (Slot j)" "length (cs_config s) \<le> fl_room (cs_layout s) Config_Area"
    "savearea_max (cs_layout s) < 8" for j
    using assms(1) fl_room_slot [of "cs_layout s" i] fl_room_slot [of "cs_layout s" j]
    by (simp_all add: cs_wf_def layout_ok_def)
  have rd: "fl_read (cs_layout s) (Slot i) (length (cs_props s)) (cs_flash s1) = ?ws"
    using store.rd_wr [OF wf(1) _ wf(3), of "cs_flash s"] assms(5) by (simp add: s1)
  have other: "fl_read (cs_layout s) (Slot j) (length (cs_props s)) (cs_flash s1) =
      fl_read (cs_layout s) (Slot j) (length (cs_props s)) (cs_flash s)" if "j < savearea_max (cs_layout s)" "j \<noteq> i" for j
    unfolding s1(5) by (rule store.rd_wr_other [OF wf(1) _ _ _ wf(3,4)]) (use that assms(5) in simp_all)
  have conf: "fl_read (cs_layout s) Config_Area (length (cs_config s)) (cs_flash s1) =
      fl_read (cs_layout s) Config_Area (length (cs_config s)) (cs_flash s)"
    unfolding s1(5) by (rule store.rd_wr_other [OF wf(1) _ _ _ wf(3,5)]) (use assms(5) in simp_all)
  have cr: "fst (config_recall s1) = fst (config_recall s)"
    using s1(2-4) conf assms(2) by (simp add: config_recall_eq Let_def)
  have rec: "\<exists>s2. caldata_recall i (s1\<lparr>cs_props := p\<rparr>) = (0, s2) \<and> cs_props s2 = ?ws \<and> lastsaveid s2 = of_nat i \<and>
      cs_sem s2 = cs_sem s" if p: "length p = length (cs_props s)" for p
  proof -
    let ?s = "(s1\<lparr>cs_props := p\<rparr>)\<lparr>lastsaveid := NO_SAVE_SLOT, cs_sem := cs_sem s1 - 1\<rparr>"
    have "fst (get_properties i ?s) = Some ?ws"
      using rd s1(2) assms(5) p seal_sealed [OF wf(2)] by (simp add: get_properties_eq Let_def)
    then obtain s3 where g: "get_properties i ?s = (Some ?ws, s3)" by (metis prod.collapse)
    then have "cs_sem s3 = cs_sem s1 - 1"
      by (auto simp: get_properties_def Let_def split: if_splits)
    moreover have "i \<noteq> unat NO_SAVE_SLOT" using assms(5) wf(6) by (simp add: NO_SAVE_SLOT_def)
    ultimately show ?thesis
      using g s1(3,8) assms(3)
      by (simp add: caldata_recall_def caldata_recall_impl_def sem_wait_def sem_signal_def Let_def)
  qed
  have gp: "fst (get_properties j s1) = fst (get_properties j s)" if "j \<noteq> i" for j
    using s1(2,6,9) other [of j] that by (simp add: get_properties_eq Let_def)
  show ?thesis using s1(1,7) rec gp cr by blast
qed

theorem caldata_save_recall_witness:
  "\<exists>s1. caldata_save (\<lambda>_. True) 2 cs_demo = (0, s1) \<and> lastsaveid s1 = 2"
  using caldata_save_recall [of cs_demo "\<lambda>_. True" 2] cs_demo_wf by auto

text \<open>
  No operation hands out or keeps the flash semaphore: its
  counter is the same after every call. A call that is refused (service not initialised,
  semaphore busy, a slot number out of range, a save during a calibration) reports it and
  leaves flash and both working copies alone; a recall of a slot without a valid image
  says so, leaves the working copy and forgets the current slot.
\<close>

theorem config_service_refusals:
  "cs_sem (snd (config_save ready s)) = cs_sem s \<and> cs_sem (snd (caldata_save ready i s)) = cs_sem s \<and>
   cs_sem (snd (config_recall s)) = cs_sem s \<and> cs_sem (snd (caldata_recall i s)) = cs_sem s \<and>
   cs_sem (clear_all_config_prop_data s) = cs_sem s \<and>
   (if cs_initialized s \<and> 0 < cs_sem s then fst (config_save ready s) = 0 else config_save ready s = (-1, s)) \<and>
   (if cs_initialized s \<and> i < savearea_max (cs_layout s) \<and> \<not> calibration_in_progress s \<and> 0 < cs_sem s
    then fst (caldata_save ready i s) = 0 else caldata_save ready i s = (-1, s)) \<and>
   (if cs_initialized s \<and> 0 < cs_sem s \<and> i \<noteq> 65535 \<and> fst (get_properties i s) = None
    then fst (caldata_recall i s) = 1 \<and> cs_props (snd (caldata_recall i s)) = cs_props s \<and>
         lastsaveid (snd (caldata_recall i s)) = NO_SAVE_SLOT
    else fst (caldata_recall i s) \<noteq> 1) \<and>
   cs_flash (snd (caldata_recall i s)) = cs_flash s"
proof -
  have gs: "cs_sem (snd (get_properties j t)) = cs_sem t" "cs_flash (snd (get_properties j t)) = cs_flash t"
    "cs_props (snd (get_properties j t)) = cs_props t" "lastsaveid (snd (get_properties j t)) = lastsaveid t" for j t
    by (simp_all add: get_properties_def Let_def)
  have gf: "fst (get_properties j (t\<lparr>lastsaveid := x, cs_sem := y\<rparr>)) = fst (get_properties j t)" for j t y x
    by (simp add: get_properties_def Let_def)
  obtain r t where g: "get_properties i (s\<lparr>lastsaveid := NO_SAVE_SLOT, cs_sem := cs_sem s - 1\<rparr>) = (r, t)"
    by (cases "get_properties i (s\<lparr>lastsaveid := NO_SAVE_SLOT, cs_sem := cs_sem s - 1\<rparr>)")
  have t: "cs_sem t = cs_sem s - 1" "cs_flash t = cs_flash s" "cs_props t = cs_props s" "lastsaveid t = NO_SAVE_SLOT"
    "r = fst (get_properties i s)"
    using gs [of i "s\<lparr>lastsaveid := NO_SAVE_SLOT, cs_sem := cs_sem s - 1\<rparr>"]
      gf [where j = i and t = s and x = NO_SAVE_SLOT and y = "cs_sem s - 1"] g by simp_all
  have n: "unat NO_SAVE_SLOT = 65535" by (simp add: NO_SAVE_SLOT_def)
  have save: "cs_sem (snd (config_save ready s)) = cs_sem s"
    "if cs_initialized s \<and> 0 < cs_sem s then fst (config_save ready s) = 0 else config_save ready s = (-1, s)"
    by (auto simp: config_save_def config_save_impl_def sem_wait_def sem_signal_def Let_def cs_publish_same)
  have csave: "cs_sem (snd (caldata_save ready i s)) = cs_sem s"
    "if cs_initialized s \<and> i < savearea_max (cs_layout s) \<and> \<not> calibration_in_progress s \<and> 0 < cs_sem s
     then fst (caldata_save ready i s) = 0 else caldata_save ready i s = (-1, s)"
    by (auto simp: caldata_save_def caldata_save_impl_def sem_wait_def sem_signal_def Let_def)
  have rec: "cs_sem (snd (config_recall s)) = cs_sem s"
    by (auto simp: config_recall_def config_recall_impl_def Let_def)
  have clr: "cs_sem (clear_all_config_prop_data s) = cs_sem s"
    by (auto simp: clear_all_config_prop_data_def clear_all_config_prop_data_impl_def sem_wait_def sem_signal_def
        Let_def cs_publish_same)
  have crec: "cs_sem (snd (caldata_recall i s)) = cs_sem s" "cs_flash (snd (caldata_recall i s)) = cs_flash s"
    using g t by (auto simp: caldata_recall_def caldata_recall_impl_def sem_wait_def sem_signal_def Let_def split: option.split)
  have crec2: "if cs_initialized s \<and> 0 < cs_sem s \<and> i \<noteq> 65535 \<and> fst (get_properties i s) = None
    then fst (caldata_recall i s) = 1 \<and> cs_props (snd (caldata_recall i s)) = cs_props s \<and>
         lastsaveid (snd (caldata_recall i s)) = NO_SAVE_SLOT
    else fst (caldata_recall i s) \<noteq> 1"
    using g t n by (auto simp: caldata_recall_def caldata_recall_impl_def sem_wait_def sem_signal_def Let_def split: option.split)
  show ?thesis using save csave rec clr crec crec2 by blast
qed

lemma read_blank:
  assumes "\<And>i. a \<le> 2 * i \<Longrightarrow> 2 * i < a + 4 * n \<Longrightarrow> fl i = 0xFFFF" "even a"
  shows "read_words fl a n = replicate n 0xFFFFFFFF"
proof -
  have b: "(0xFFFF :: u32) OR push_bit 16 0xFFFF = 0xFFFFFFFF" by simp
  have "read_words fl a n = read_words (\<lambda>_. 0xFFFF) a n" by (rule read_words_cong) (use assms in auto)
  also have "\<dots> = replicate n 0xFFFFFFFF"
    by (rule nth_equalityI) (simp_all add: read_words_def read_word_def unsigned_ucast_eq b)
  finally show ?thesis .
qed

lemma blank_unsealed: "0 < n \<Longrightarrow> m \<noteq> 0xFFFFFFFF \<Longrightarrow> \<not> sealed m (replicate n 0xFFFFFFFF)"
  by (simp add: sealed_def)

text \<open>
  \<open>clear_all_config_prop_data\<close> empties every slot and the configuration,
  the cache of verified slots included, forgets the current slot, and erases nothing
  outside the reserved area.
\<close>

theorem clear_all_erases:
  assumes "cs_wf s" "cs_initialized s" "0 < cs_sem s"
  shows "(\<forall>i. fst (get_properties i (clear_all_config_prop_data s)) = None) \<and>
    fst (config_recall (clear_all_config_prop_data s)) = -1 \<and>
    lastsaveid (clear_all_config_prop_data s) = NO_SAVE_SLOT \<and>
    (\<forall>h. 2 * h < save_prop_config_addr (cs_layout s) \<or>
         save_config_addr (cs_layout s) + save_config_size (cs_layout s) \<le> 2 * h \<longrightarrow>
       cs_flash (clear_all_config_prop_data s) h = cs_flash s h)"
proof -
  let ?l = "cs_layout s" and ?s1 = "clear_all_config_prop_data s"
  have s1: "cs_flash ?s1 = flash_erase_pages (save_prop_config_addr ?l) (save_full_area_size ?l) (cs_flash s)"
    "cs_layout ?s1 = ?l" "checksum_ok ?s1 = 0" "lastsaveid ?s1 = NO_SAVE_SLOT" "cs_props ?s1 = cs_props s"
    "cs_config ?s1 = cs_config s" "cs_initialized ?s1"
    using assms(2,3) by (simp_all add: clear_all_config_prop_data_def clear_all_config_prop_data_impl_def
        sem_wait_def sem_signal_def Let_def cs_publish_same)
  have l: "layout_ok ?l" using assms(1) by (simp add: cs_wf_def)
  have d: "FLASH_PAGESIZE dvd save_config_addr ?l" "FLASH_PAGESIZE dvd save_config_size ?l" "FLASH_PAGESIZE dvd save_prop_config_size ?l"
    using l by (auto simp: layout_ok_def)
  then have "FLASH_PAGESIZE dvd save_prop_config_addr ?l" using prop_addr_split [OF l] by (metis dvd_add_left_iff dvd_mult)
  then have ar: "area_ok (save_prop_config_addr ?l) (save_full_area_size ?l)"
    using d by (simp add: area_ok_def save_full_area_size_def)
  have en: "save_prop_config_addr ?l + save_full_area_size ?l = save_config_addr ?l + save_config_size ?l"
    using prop_addr_split [OF l] by (simp add: save_full_area_size_def)
  have blank: "fl_read ?l r n (cs_flash ?s1) = replicate n 0xFFFFFFFF"
    if r: "fl_valid ?l r" "n \<le> fl_room ?l r" for r n
    unfolding fl_read_def
  proof (rule read_blank)
    fix i assume i: "fl_addr ?l r \<le> 2 * i" "2 * i < fl_addr ?l r + 4 * n"
    have "save_prop_config_addr ?l \<le> fl_addr ?l r" using prop_addr_split [OF l] by (cases r) (auto simp: calibration_slot_area_def)
    moreover have "fl_addr ?l r + fl_size ?l r \<le> save_config_addr ?l + save_config_size ?l"
    proof (cases r)
      case (Slot k)
      then show ?thesis using fl_apart [OF l, of "Slot k" Config_Area] r(1) slot_end [of k "savearea_max ?l" ?l] prop_addr_split [OF l]
        by (simp add: calibration_slot_area_def)
    qed simp
    moreover have "4 * n \<le> fl_size ?l r" using r(2) by (simp add: fl_room_def)
    ultimately show "cs_flash ?s1 i = 0xFFFF"
      unfolding s1 using i en by (intro erase_inside [OF ar le_refl]) auto
  qed (use fl_even [OF l r(1)] in simp)
  have "fst (get_properties i ?s1) = None" for i
  proof (cases "i < savearea_max ?l")
    case True
    then have "fl_read ?l (Slot i) (length (cs_props s)) (cs_flash ?s1) = replicate (length (cs_props s)) 0xFFFFFFFF"
      using assms(1) fl_room_slot [of ?l i] by (intro blank) (auto simp: cs_wf_def)
    moreover have "\<not> sealed PROPERTIES_MAGIC (replicate (length (cs_props s)) 0xFFFFFFFF)"
      using assms(1) by (intro blank_unsealed) (auto simp: cs_wf_def PROPERTIES_MAGIC_def)
    ultimately show ?thesis using s1 by (simp add: get_properties_eq Let_def)
  qed (simp add: get_properties_def s1)
  moreover have "fst (config_recall ?s1) = -1"
  proof -
    have "fl_read ?l Config_Area (length (cs_config s)) (cs_flash ?s1) = replicate (length (cs_config s)) 0xFFFFFFFF"
      using assms(1) by (intro blank) (auto simp: cs_wf_def)
    moreover have "\<not> sealed CONFIG_MAGIC (replicate (length (cs_config s)) 0xFFFFFFFF)"
      using assms(1) by (intro blank_unsealed) (auto simp: cs_wf_def CONFIG_MAGIC_def)
    ultimately show ?thesis using s1 by (simp add: config_recall_eq Let_def)
  qed
  moreover have "cs_flash ?s1 h = cs_flash s h"
    if "2 * h < save_prop_config_addr ?l \<or> save_config_addr ?l + save_config_size ?l \<le> 2 * h" for h
    unfolding s1 by (rule erase_outside [OF ar le_refl]) (use that en in simp)
  ultimately show ?thesis using s1(4) by blast
qed

theorem clear_all_erases_witness:
  "fst (get_properties 3 (clear_all_config_prop_data cs_demo)) = None"
  using clear_all_erases [of cs_demo] cs_demo_wf by blast

lemma foldl_skip: "foldl (\<lambda>x _. x) a ys = a"
  by (induction ys) simp_all

text \<open>
  C37 \<open>flash_program_half_word_buffer\<close> has no result: when the
  controller refuses every half-word, \<open>caldata_save\<close> still returns 0 and makes the slot
  current. If the slot was read successfully before, its bit in \<open>checksum_ok\<close> is set, so
  \<open>get_properties\<close> hands the erased words out without looking at magic word or checksum.
\<close>

theorem failed_save_reported_ok:
  assumes "cs_wf s" "cs_initialized s" "0 < cs_sem s" "\<not> calibration_in_progress s" "i < savearea_max (cs_layout s)"
  shows "fst (caldata_save (\<lambda>_. False) i s) = 0 \<and> lastsaveid (snd (caldata_save (\<lambda>_. False) i s)) = of_nat i \<and>
    fst (get_properties i (snd (caldata_save (\<lambda>_. False) i s))) =
      (if bit (checksum_ok s) i then Some (replicate (length (cs_props s)) 0xFFFFFFFF) else None)"
proof -
  let ?s1 = "snd (caldata_save (\<lambda>_. False) i s)" and ?l = "cs_layout s"
  have s1: "fst (caldata_save (\<lambda>_. False) i s) = 0" "lastsaveid ?s1 = of_nat i" "cs_layout ?s1 = ?l"
    "checksum_ok ?s1 = checksum_ok s" "length (cs_props ?s1) = length (cs_props s)"
    "cs_flash ?s1 = flash_erase_pages (fl_addr ?l (Slot i)) (4 * length (cs_props s)) (cs_flash s)"
    using assms by (simp_all add: caldata_save_def caldata_save_impl_def sem_wait_def sem_signal_def Let_def
        flash_program_half_word_buffer_def foldl_skip)
  have l: "layout_ok ?l" "2 \<le> length (cs_props s)" "4 * length (cs_props s) \<le> fl_size ?l (Slot i)"
    using assms(1) by (auto simp: cs_wf_def fl_room_def)
  have v: "fl_valid ?l (Slot i)" using assms(5) by simp
  have "fl_read ?l (Slot i) (length (cs_props s)) (cs_flash ?s1) = replicate (length (cs_props s)) 0xFFFFFFFF"
    unfolding fl_read_def s1
    by (rule read_blank) (use erase_inside [OF fl_area [OF l(1) v] l(3)] fl_even [OF l(1) v] in simp_all)
  moreover have "\<not> sealed PROPERTIES_MAGIC (replicate (length (cs_props s)) 0xFFFFFFFF)"
    using l(2) by (intro blank_unsealed) (auto simp: PROPERTIES_MAGIC_def)
  ultimately show ?thesis
    using s1 assms(5) by (simp add: get_properties_eq Let_def)
qed

theorem failed_save_reported_ok_witness:
  "fst (caldata_save (\<lambda>_. False) 1 (cs_demo\<lparr>checksum_ok := 2\<rparr>)) = 0 \<and>
   fst (get_properties 1 (snd (caldata_save (\<lambda>_. False) 1 (cs_demo\<lparr>checksum_ok := 2\<rparr>)))) =
     Some (replicate 4 0xFFFFFFFF)"
proof -
  have "cs_wf (cs_demo\<lparr>checksum_ok := 2\<rparr>)" using cs_demo_wf(1) by (simp add: cs_wf_def)
  moreover have "bit (2 :: u8) 1" by (simp add: bit_numeral_rec)
  ultimately show ?thesis using failed_save_reported_ok [of "cs_demo\<lparr>checksum_ok := 2\<rparr>" 1] cs_demo_wf by simp
qed

end
