(* ===== verification/State_Manager.thy ===== *)
theory State_Manager
  imports Config_Service
begin

text \<open>
  \<open>src/src/sys/state_manager.c\<close>: default and stored settings at start-up, the copy of the
  sweep settings in the backup registers of the RTC, and the delayed save of a changed
  sweep. \<open>config_t\<close> and \<open>properties_t\<close> are the word lists of \<open>Config_Service\<close>; their
  members are bit ranges of those words, at the offsets the structures of
  \<open>include/core/data_types.h\<close> have on the 32-bit little-endian target. A \<open>float\<close> constant
  is its IEEE pattern. Calls that leave this file are recorded in order.
\<close>

section \<open>Members of a structure\<close>

text \<open>A member: word number, lowest bit, width.\<close>

type_synonym member = "nat \<times> nat \<times> nat"

definition fget :: "u32 list \<Rightarrow> member \<Rightarrow> u32" where
  "fget ws f = (case f of (k, lo, n) \<Rightarrow> take_bit n (drop_bit lo (ws ! k)))"

definition fset :: "member \<Rightarrow> u32 \<Rightarrow> u32 list \<Rightarrow> u32 list" where
  "fset f v ws = (case f of (k, lo, n) \<Rightarrow>
     ws[k := (ws ! k AND NOT (push_bit lo (mask n))) OR push_bit lo (take_bit n v)])"

definition in_words :: "nat \<Rightarrow> member \<Rightarrow> bool" where
  "in_words len f = (case f of (k, lo, n) \<Rightarrow> k < len \<and> lo + n \<le> 32)"

definition apart :: "member \<Rightarrow> member \<Rightarrow> bool" where
  "apart f g = (case f of (k, lo, n) \<Rightarrow> case g of (k', lo', n') \<Rightarrow> k \<noteq> k' \<or> lo + n \<le> lo' \<or> lo' + n' \<le> lo)"

lemma fset_length [simp]: "length (fset f v ws) = length ws"
  by (simp add: fset_def split: prod.split)

lemma fget_fset: "in_words (length ws) f \<Longrightarrow> fget (fset f v ws) f = take_bit (snd (snd f)) v"
  by (cases f) (auto simp: fget_def fset_def in_words_def bit_simps intro!: bit_word_eqI)

lemma fget_fset_apart:
  assumes "in_words (length ws) f" "apart f g"
  shows "fget (fset f v ws) g = fget ws g"
proof -
  obtain k lo n k' lo' n' where f: "f = (k, lo, n)" "g = (k', lo', n')" by (cases f; cases g)
  show ?thesis
  proof (cases "k = k'")
    case True
    then have "lo + n \<le> lo' \<or> lo' + n' \<le> lo" using assms(2) f by (simp add: apart_def)
    then have a: "\<not> (lo \<le> lo' + i \<and> lo' + i - lo < n)" if "i < n'" for i using that by arith
    have "bit (fget (fset f v ws) g) i = bit (fget ws g) i" if "i < 32" for i
      using True assms(1) f a [of i] by (auto simp: fget_def fset_def in_words_def bit_simps dest: bit_imp_le_length)
    then show ?thesis by (intro bit_word_eqI) simp
  next
    case False
    then show ?thesis using f by (simp add: fget_def fset_def)
  qed
qed

subsection \<open>config_t\<close>

abbreviation "c_harmonic_freq_threshold \<equiv> (1, 0, 32) :: member"
abbreviation "c_IF_freq \<equiv> (2, 0, 32) :: member"
abbreviation "c_vna_mode \<equiv> (5, 0, 16) :: member"
abbreviation "c_bandwidth \<equiv> (6, 16, 16) :: member"
abbreviation "c_lever_mode \<equiv> (7, 0, 8) :: member"
abbreviation "c_brightness \<equiv> (7, 8, 8) :: member"

subsection \<open>properties_t\<close>

abbreviation "p_magic \<equiv> (0, 0, 32) :: member"
abbreviation "p_frequency0 \<equiv> (1, 0, 32) :: member"
abbreviation "p_frequency1 \<equiv> (2, 0, 32) :: member"
abbreviation "p_cal_frequency0 \<equiv> (3, 0, 32) :: member"
abbreviation "p_cal_frequency1 \<equiv> (4, 0, 32) :: member"
abbreviation "p_var_freq \<equiv> (5, 0, 32) :: member"
abbreviation "p_mode \<equiv> (6, 0, 16) :: member"
abbreviation "p_sweep_points \<equiv> (6, 16, 16) :: member"
abbreviation "p_current_trace \<equiv> (7, 0, 8) :: member"
abbreviation "p_active_marker \<equiv> (7, 8, 8) :: member"
abbreviation "p_previous_marker \<equiv> (7, 16, 8) :: member"
abbreviation "p_power \<equiv> (7, 24, 8) :: member"
abbreviation "p_cal_power \<equiv> (8, 0, 8) :: member"
abbreviation "p_measure \<equiv> (8, 8, 8) :: member"
abbreviation "p_cal_sweep_points \<equiv> (8, 16, 16) :: member"
abbreviation "p_cal_status \<equiv> (9, 0, 16) :: member"

text \<open>\<open>_trace[t]\<close> takes three words from word 10, \<open>_markers[i]\<close> two from word 22.\<close>

definition p_trace :: "nat \<Rightarrow> u32 list \<Rightarrow> (member \<times> u32) list" where
  "p_trace t v = (let k = 10 + 3 * t in
     zip [(k, 0, 8), (k, 8, 8), (k, 16, 8), (k, 24, 8), (k + 1, 0, 32), (k + 2, 0, 32)] v)"

definition p_marker :: "nat \<Rightarrow> u32 list \<Rightarrow> (member \<times> u32) list" where
  "p_marker i v = (let k = 22 + 2 * i in zip [(k, 0, 8), (k, 8, 8), (k, 16, 16), (k + 1, 0, 32)] v)"

definition MARKERS_MAX :: nat where "MARKERS_MAX = 8"

definition fset_all :: "(member \<times> u32) list \<Rightarrow> u32 list \<Rightarrow> u32 list" where
  "fset_all fs ws = foldl (\<lambda>ws (f, v). fset f v ws) ws fs"

section \<open>State\<close>

datatype sm_call = Update_Frequencies | Set_Measure_Mode u32 | Request_Redraw u32

record state_manager =
  sm_cs :: config_service
  sm_backup :: "u32 list"
  sweep_state_dirty :: bool
  sweep_state_deadline :: u32
  sweep_state_last_save :: u32
  sm_calls :: "sm_call list"

definition cfg :: "member \<Rightarrow> state_manager \<Rightarrow> u32" where
  "cfg f s = fget (cs_config (sm_cs s)) f"

definition prp :: "member \<Rightarrow> state_manager \<Rightarrow> u32" where
  "prp f s = fget (cs_props (sm_cs s)) f"

definition set_cfg :: "member \<Rightarrow> u32 \<Rightarrow> state_manager \<Rightarrow> state_manager" where
  "set_cfg f v s = s\<lparr>sm_cs := (sm_cs s)\<lparr>cs_config := fset f v (cs_config (sm_cs s))\<rparr>\<rparr>"

definition set_prop :: "member \<Rightarrow> u32 \<Rightarrow> state_manager \<Rightarrow> state_manager" where
  "set_prop f v s = s\<lparr>sm_cs := (sm_cs s)\<lparr>cs_props := fset f v (cs_props (sm_cs s))\<rparr>\<rparr>"

definition VNA_MODE_BACKUP :: nat where "VNA_MODE_BACKUP = 5"

definition vna_mode_backup :: "state_manager \<Rightarrow> bool" where
  "vna_mode_backup s = bit (cfg c_vna_mode s) VNA_MODE_BACKUP"

section \<open>Defaults and limits\<close>

text \<open>\<open>IF_OFFSET_MIN\<close> is 4000 and \<open>IF_OFFSET_MAX\<close> half of the 192 kHz sample rate.\<close>

definition clamp_if_offset :: "u32 \<Rightarrow> u32" where
  "clamp_if_offset offset = (if offset <s 4000 then 4000 else if 96000 <s offset then 96000 else offset)"

definition clamp_harmonic_threshold :: "u32 \<Rightarrow> u32" where
  "clamp_harmonic_threshold v = (if v < 600 then 600 else if v > 2700000000 then 2700000000 else v)"

definition sanitize_rf_preferences :: "state_manager \<Rightarrow> state_manager" where
  "sanitize_rf_preferences s =
     (let s = set_cfg c_IF_freq (clamp_if_offset (cfg c_IF_freq s)) s
      in set_cfg c_harmonic_freq_threshold (clamp_harmonic_threshold (cfg c_harmonic_freq_threshold s)) s)"

text \<open>The stores of \<open>load_default_properties\<close> in order, for \<open>pts = SWEEP_POINTS_MAX\<close>.\<close>

definition default_properties :: "nat \<Rightarrow> (member \<times> u32) list" where
  "default_properties pts =
     [(p_magic, PROPERTIES_MAGIC), (p_frequency0, 50000), (p_frequency1, 900000000), (p_var_freq, 0),
      (p_sweep_points, of_nat pts), (p_cal_frequency0, 50000), (p_cal_frequency1, 900000000),
      (p_cal_sweep_points, of_nat pts), (p_cal_status, 0)] @
     p_trace 0 [1, 0, 0, 3, 0x41200000, 0x40E00000] @
     p_trace 1 [1, 0, 1, 2, 0x41200000, 0x40E00000] @
     p_trace 2 [1, 3, 0, 3, 0x3F800000, 0] @
     p_trace 3 [1, 1, 1, 2, 0x42B40000, 0x40800000] @
     concat (map (\<lambda>i. p_marker i [if i = 0 then 1 else 0, 0, of_nat (10 * (i + 1) * pts div 100 - 1), 0]) [0..<MARKERS_MAX]) @
     [((39, 0, 32), 0), ((40, 0, 32), 0), ((41, 0, 32), 0), ((42, 0, 32), 0),
      ((43, 0, 32), 0x42480000), ((44, 0, 32), 0x42480000), ((38, 8, 8), 70),
      (p_current_trace, 0), (p_active_marker, 0), (p_previous_marker, -1), (p_mode, 0), ((38, 0, 8), 0),
      (p_power, 0xFF), (p_cal_power, 0xFF), (p_measure, 0)]"

definition load_default_properties :: "nat \<Rightarrow> state_manager \<Rightarrow> state_manager" where
  "load_default_properties pts s =
     s\<lparr>sm_cs := (sm_cs s)\<lparr>cs_props := fset_all (default_properties pts) (cs_props (sm_cs s))\<rparr>\<rparr>"

section \<open>Backup registers\<close>

abbreviation "bk_points \<equiv> (0, 0, 9) :: member"
abbreviation "bk_bw \<equiv> (0, 9, 9) :: member"
abbreviation "bk_id \<equiv> (0, 18, 4) :: member"
abbreviation "bk_leveler \<equiv> (0, 22, 3) :: member"
abbreviation "bk_brightness \<equiv> (0, 25, 7) :: member"

definition get_backup_data32 :: "nat \<Rightarrow> state_manager \<Rightarrow> u32" where
  "get_backup_data32 i s = (if i \<le> 4 then sm_backup s ! i else 0)"

definition set_backup_data32 :: "nat \<Rightarrow> u32 \<Rightarrow> state_manager \<Rightarrow> state_manager" where
  "set_backup_data32 i v s = (if i \<le> 4 then s\<lparr>sm_backup := (sm_backup s)[i := v]\<rparr> else s)"

definition active_calibration_slot :: "config_service \<Rightarrow> nat" where
  "active_calibration_slot cs =
     (let slot = lastsaveid cs
      in if slot = NO_SAVE_SLOT \<or> unat slot \<ge> savearea_max (cs_layout cs) then 0 else unat slot)"

definition backup_word :: "state_manager \<Rightarrow> u32" where
  "backup_word s = hd (fset_all
     [(bk_points, prp p_sweep_points s), (bk_bw, cfg c_bandwidth s), (bk_id, ucast (lastsaveid (sm_cs s))),
      (bk_leveler, cfg c_lever_mode s), (bk_brightness, cfg c_brightness s)] [0])"

definition update_backup_data :: "state_manager \<Rightarrow> state_manager" where
  "update_backup_data s =
     (let s = set_backup_data32 0 (backup_word s) s;
          s = set_backup_data32 1 (prp p_frequency0 s) s;
          s = set_backup_data32 2 (prp p_frequency1 s) s;
          s = set_backup_data32 3 (prp p_var_freq s) s
      in set_backup_data32 4 (cfg c_vna_mode s) s)"

text \<open>\<open>set_bandwidth\<close> of \<open>src/src/runtime/runtime_entry.c\<close> (redraw flags 1 shl 10 and 1 shl 3).\<close>

definition set_bandwidth :: "u32 \<Rightarrow> state_manager \<Rightarrow> state_manager" where
  "set_bandwidth bw s =
     (let s = set_cfg c_bandwidth (bw AND 0x1FF) s;
          s = s\<lparr>sm_calls := sm_calls s @ [Request_Redraw 0x408]\<rparr>
      in update_backup_data s)"

section \<open>Start-up\<close>

definition sm_caldata_recall :: "nat \<Rightarrow> state_manager \<Rightarrow> int \<times> state_manager" where
  "sm_caldata_recall i s = (case caldata_recall i (sm_cs s) of (r, cs) \<Rightarrow> (r, s\<lparr>sm_cs := cs\<rparr>))"

definition load_settings :: "nat \<Rightarrow> state_manager \<Rightarrow> state_manager" where
  "load_settings pts s =
     (let s = load_default_properties pts s;
          (r, cs) = config_recall (sm_cs s);
          s = s\<lparr>sm_cs := cs\<rparr>;
          s = (if r = 0 \<and> vna_mode_backup s then
                 (let s = sanitize_rf_preferences s;
                      bk = get_backup_data32 0 s
                  in if bk \<noteq> 0 then
                       (let (r, s') = (if unat (fget [bk] bk_id) < savearea_max (cs_layout (sm_cs s))
                                       then sm_caldata_recall (unat (fget [bk] bk_id)) s else (-1, s));
                            s = (if r = 0 then
                                   (let s = set_prop p_sweep_points (fget [bk] bk_points) s';
                                        s = set_prop p_frequency0 (get_backup_data32 1 s) s;
                                        s = set_prop p_frequency1 (get_backup_data32 2 s) s
                                    in set_prop p_var_freq (get_backup_data32 3 s) s)
                                 else snd (sm_caldata_recall 0 s'));
                            s = set_cfg c_brightness (fget [bk] bk_brightness) s;
                            s = set_cfg c_lever_mode (fget [bk] bk_leveler) s;
                            backup_mode = get_backup_data32 4 s;
                            s = (if backup_mode \<noteq> 0xFFFFFFFF
                                 then set_cfg c_vna_mode (backup_mode OR push_bit VNA_MODE_BACKUP 1) s
                                 else set_cfg c_vna_mode (cfg c_vna_mode s OR push_bit VNA_MODE_BACKUP 1) s)
                        in set_bandwidth (fget [bk] bk_bw) s)
                     else snd (sm_caldata_recall 0 s))
               else sanitize_rf_preferences (snd (sm_caldata_recall 0 s)))
      in s\<lparr>sm_calls := sm_calls s @ [Update_Frequencies, Set_Measure_Mode (prp p_measure s)]\<rparr>)"

section \<open>Delayed save\<close>

text \<open>\<open>MS2ST(750)\<close> and \<open>S2ST(3)\<close> at 100000 ticks per second.\<close>

definition SWEEP_STATE_AUTOSAVE_DELAY :: u32 where "SWEEP_STATE_AUTOSAVE_DELAY = 75000"
definition SWEEP_STATE_AUTOSAVE_MIN_GAP :: u32 where "SWEEP_STATE_AUTOSAVE_MIN_GAP = 300000"

definition state_manager_mark_dirty :: "u32 \<Rightarrow> state_manager \<Rightarrow> state_manager" where
  "state_manager_mark_dirty now s =
     s\<lparr>sweep_state_dirty := True, sweep_state_deadline := now + SWEEP_STATE_AUTOSAVE_DELAY\<rparr>"

definition state_manager_force_save :: "(nat \<Rightarrow> bool) \<Rightarrow> u32 \<Rightarrow> state_manager \<Rightarrow> state_manager" where
  "state_manager_force_save ready now s =
     (let s = (if \<not> calibration_in_progress (sm_cs s)
               then s\<lparr>sm_cs := snd (caldata_save ready (active_calibration_slot (sm_cs s)) (sm_cs s))\<rparr> else s)
      in s\<lparr>sweep_state_dirty := False, sweep_state_last_save := now\<rparr>)"

definition state_manager_service :: "(nat \<Rightarrow> bool) \<Rightarrow> u32 \<Rightarrow> state_manager \<Rightarrow> state_manager" where
  "state_manager_service ready now s =
     (if \<not> vna_mode_backup s \<or> \<not> sweep_state_dirty s then s
      else if now - sweep_state_deadline s <s 0 then s
      else if now - sweep_state_last_save s <s SWEEP_STATE_AUTOSAVE_MIN_GAP then s
      else state_manager_force_save ready now s)"

section \<open>Properties\<close>

text \<open>
  \<open>state_manager_service\<close> saves exactly when backup is on, the state is
  dirty, the deadline lies within the last \<open>2 ^ 31\<close> ticks, and between 3 s and \<open>2 ^ 31\<close>
  ticks (about six hours) have passed since the last save; otherwise it does nothing. So a
  mark at time \<open>t\<close> is saved no earlier than 750 ms later, also across the wrap of the
  tick counter, but a change made more than \<open>2 ^ 31\<close> ticks after the last save is not
  saved until the counter has come round. During a calibration the dirty flag is dropped
  although nothing is written.
\<close>

theorem autosave_when:
  "state_manager_service ready now s =
     (if vna_mode_backup s \<and> sweep_state_dirty s \<and> unat (now - sweep_state_deadline s) < 2 ^ 31 \<and>
         300000 \<le> unat (now - sweep_state_last_save s) \<and> unat (now - sweep_state_last_save s) < 2 ^ 31
      then state_manager_force_save ready now s else s) \<and>
   sweep_state_deadline (state_manager_mark_dirty t s) = t + 75000 \<and>
   (unat d < 75000 \<longrightarrow> state_manager_service ready (t + d) (state_manager_mark_dirty t s) = state_manager_mark_dirty t s) \<and>
   (calibration_in_progress (sm_cs s) \<longrightarrow>
      sm_cs (state_manager_force_save ready now s) = sm_cs s \<and> \<not> sweep_state_dirty (state_manager_force_save ready now s))"
proof -
  have neg: "x <s 0 \<longleftrightarrow> 2 ^ 31 \<le> unat x" for x :: u32
    using u32_bound [of x] uint_lt2p [of x] by (auto simp: sless_u32 sint_u32)
  have lt: "x <s 300000 \<longleftrightarrow> 2 ^ 31 \<le> unat x \<or> unat x < 300000" for x :: u32
  proof (cases "unat x < 2147483648")
    case True
    have "x <s 300000 \<longleftrightarrow> int (unat x) < int 300000"
      using True by (simp only: sless_u32 sint_u32 [of x] if_True) simp
    then show ?thesis using True by (simp only: of_nat_less_iff) simp
  next
    case False
    then show ?thesis using uint_lt2p [of x] by (auto simp: sless_u32 sint_u32)
  qed
  have 1: "state_manager_service ready now s =
     (if vna_mode_backup s \<and> sweep_state_dirty s \<and> unat (now - sweep_state_deadline s) < 2 ^ 31 \<and>
         300000 \<le> unat (now - sweep_state_last_save s) \<and> unat (now - sweep_state_last_save s) < 2 ^ 31
      then state_manager_force_save ready now s else s)" for now s
    by (auto simp: state_manager_service_def SWEEP_STATE_AUTOSAVE_MIN_GAP_def neg lt)
  have 2: "state_manager_service ready (t + d) (state_manager_mark_dirty t s) = state_manager_mark_dirty t s"
    if "unat d < 75000"
  proof -
    have "unat (d - 75000) \<ge> 2 ^ 31" using that by (simp add: unat_sub_if')
    then show ?thesis
      by (simp add: 1 state_manager_mark_dirty_def SWEEP_STATE_AUTOSAVE_DELAY_def)
  qed
  show ?thesis using 1 2
    by (simp add: state_manager_mark_dirty_def SWEEP_STATE_AUTOSAVE_DELAY_def state_manager_force_save_def)
qed

subsection \<open>Settings survive a power cycle\<close>

lemma set_prop_simps [simp]:
  "cs_config (sm_cs (set_prop f v s)) = cs_config (sm_cs s)" "cs_layout (sm_cs (set_prop f v s)) = cs_layout (sm_cs s)"
  "lastsaveid (sm_cs (set_prop f v s)) = lastsaveid (sm_cs s)" "sm_backup (set_prop f v s) = sm_backup s"
  "length (cs_props (sm_cs (set_prop f v s))) = length (cs_props (sm_cs s))" "cfg g (set_prop f v s) = cfg g s"
  by (simp_all add: set_prop_def cfg_def)

lemma set_cfg_simps [simp]:
  "cs_props (sm_cs (set_cfg f v s)) = cs_props (sm_cs s)" "cs_layout (sm_cs (set_cfg f v s)) = cs_layout (sm_cs s)"
  "lastsaveid (sm_cs (set_cfg f v s)) = lastsaveid (sm_cs s)" "sm_backup (set_cfg f v s) = sm_backup s"
  "length (cs_config (sm_cs (set_cfg f v s))) = length (cs_config (sm_cs s))" "prp g (set_cfg f v s) = prp g s"
  by (simp_all add: set_cfg_def prp_def)

lemma prp_set_prop:
  "in_words (length (cs_props (sm_cs s))) f \<Longrightarrow> prp f (set_prop f v s) = take_bit (snd (snd f)) v"
  "in_words (length (cs_props (sm_cs s))) f \<Longrightarrow> apart f g \<Longrightarrow> prp g (set_prop f v s) = prp g s"
  by (simp_all add: prp_def set_prop_def fget_fset fget_fset_apart)

lemma cfg_set_cfg:
  "in_words (length (cs_config (sm_cs s))) f \<Longrightarrow> cfg f (set_cfg f v s) = take_bit (snd (snd f)) v"
  "in_words (length (cs_config (sm_cs s))) f \<Longrightarrow> apart f g \<Longrightarrow> cfg g (set_cfg f v s) = cfg g s"
  by (simp_all add: cfg_def set_cfg_def fget_fset fget_fset_apart)

lemma fset_all_length: "length (fset_all fs ws) = length ws"
  unfolding fset_all_def by (induction fs arbitrary: ws) (auto split: prod.split)

lemma backup_word_list: "[backup_word s] = fset_all
     [(bk_points, prp p_sweep_points s), (bk_bw, cfg c_bandwidth s), (bk_id, ucast (lastsaveid (sm_cs s))),
      (bk_leveler, cfg c_lever_mode s), (bk_brightness, cfg c_brightness s)] [0]"
proof -
  have hd1: "[hd xs] = xs" if "length xs = 1" for xs :: "u32 list" using that by (cases xs) auto
  show ?thesis unfolding backup_word_def by (rule hd1) (simp add: fset_all_length)
qed

lemma backup_word_fields:
  "fget [backup_word s] bk_points = take_bit 9 (prp p_sweep_points s)"
  "fget [backup_word s] bk_bw = take_bit 9 (cfg c_bandwidth s)"
  "fget [backup_word s] bk_id = take_bit 4 (ucast (lastsaveid (sm_cs s)))"
  "fget [backup_word s] bk_leveler = take_bit 3 (cfg c_lever_mode s)"
  "fget [backup_word s] bk_brightness = take_bit 7 (cfg c_brightness s)"
  unfolding backup_word_list
  by (simp_all add: fset_all_def fget_fset fget_fset_apart in_words_def apart_def)

lemma small_field: "unat v < 2 ^ n \<Longrightarrow> take_bit n (v :: u32) = v"
  by (simp add: word_unat_eq_iff unsigned_take_bit_eq take_bit_nat_eq_self)

lemma caldata_recall_ok:
  assumes "cs_initialized c" "0 < cs_sem c" "fst (get_properties i c) = Some src" "savearea_max (cs_layout c) < 8"
  obtains c' where "caldata_recall i c = (0, c')" "cs_props c' = src" "lastsaveid c' = of_nat i"
    "cs_config c' = cs_config c" "cs_layout c' = cs_layout c" "i < savearea_max (cs_layout c)"
proof -
  have i: "i < savearea_max (cs_layout c)" using assms(3) by (auto simp: get_properties_def split: if_splits)
  let ?c = "c\<lparr>lastsaveid := NO_SAVE_SLOT, cs_sem := cs_sem c - 1\<rparr>"
  obtain c1 where g: "get_properties i ?c = (Some src, c1)"
    using assms(3) by (cases "get_properties i ?c") (auto simp: get_properties_def Let_def split: if_splits)
  have c1: "cs_config c1 = cs_config c" "cs_layout c1 = cs_layout c"
    using g by (auto simp: get_properties_def Let_def split: if_splits)
  have "i \<noteq> unat NO_SAVE_SLOT" using i assms(4) by (simp add: NO_SAVE_SLOT_def)
  then have "caldata_recall i c = (0, sem_signal (c1\<lparr>lastsaveid := of_nat i, cs_props := src\<rparr>))"
    using assms g by (simp add: caldata_recall_def caldata_recall_impl_def sem_wait_def Let_def)
  then show thesis by (rule that) (simp_all add: sem_signal_def c1 i)
qed

lemma get_properties_length: "fst (get_properties i c) = Some src \<Longrightarrow> length src = length (cs_props c)"
  by (auto simp: get_properties_def Let_def read_words_def split: if_splits)

definition sm_wf :: "state_manager \<Rightarrow> bool" where
  "sm_wf s \<longleftrightarrow> cs_wf (sm_cs s) \<and> cs_initialized (sm_cs s) \<and> 0 < cs_sem (sm_cs s) \<and>
     8 \<le> length (cs_config (sm_cs s)) \<and> 10 \<le> length (cs_props (sm_cs s)) \<and> length (sm_backup s) = 5"

definition config_in_flash :: "state_manager \<Rightarrow> u32 list" where
  "config_in_flash s = fl_read (cs_layout (sm_cs s)) Config_Area (length (cs_config (sm_cs s))) (cs_flash (sm_cs s))"

lemma update_backup_regs:
  "length (sm_backup s) = 5 \<Longrightarrow> sm_backup (update_backup_data s) =
     [backup_word s, prp p_frequency0 s, prp p_frequency1 s, prp p_var_freq s, cfg c_vna_mode s]"
  by (cases "sm_backup s"; cases "tl (sm_backup s)"; cases "tl (tl (sm_backup s))"; cases "tl (tl (tl (sm_backup s)))";
      cases "tl (tl (tl (tl (sm_backup s))))")
    (auto simp: update_backup_data_def set_backup_data32_def Let_def prp_def cfg_def backup_word_def)

text \<open>The part of \<open>load_settings\<close> behind the recall of the slot.\<close>

lemma load_tail:
  fixes s t :: state_manager
  assumes "9 \<le> length (cs_props (sm_cs t))" "8 \<le> length (cs_config (sm_cs t))" "length (sm_backup t) = 5"
    and "unat (prp p_sweep_points s) < 512" "unat (cfg c_bandwidth s) < 512" "unat (cfg c_lever_mode s) < 8"
    and "unat (cfg c_brightness s) < 128" "vna_mode_backup s"
  defines "t1 \<equiv> set_prop p_var_freq (prp p_var_freq s) (set_prop p_frequency1 (prp p_frequency1 s)
      (set_prop p_frequency0 (prp p_frequency0 s) (set_prop p_sweep_points (take_bit 9 (prp p_sweep_points s)) t)))"
  defines "t2 \<equiv> set_cfg c_vna_mode (cfg c_vna_mode s OR push_bit VNA_MODE_BACKUP 1)
      (set_cfg c_lever_mode (take_bit 3 (cfg c_lever_mode s)) (set_cfg c_brightness (take_bit 7 (cfg c_brightness s)) t1))"
  defines "t3 \<equiv> set_bandwidth (take_bit 9 (cfg c_bandwidth s)) t2"
  shows "prp p_sweep_points t3 = prp p_sweep_points s" "prp p_frequency0 t3 = prp p_frequency0 s"
    "prp p_frequency1 t3 = prp p_frequency1 s" "prp p_var_freq t3 = prp p_var_freq s"
    "cfg c_bandwidth t3 = cfg c_bandwidth s" "cfg c_lever_mode t3 = cfg c_lever_mode s"
    "cfg c_brightness t3 = cfg c_brightness s" "cfg c_vna_mode t3 = cfg c_vna_mode s"
    "lastsaveid (sm_cs t3) = lastsaveid (sm_cs t)"
    "lastsaveid (sm_cs t) = lastsaveid (sm_cs s) \<Longrightarrow> sm_backup t3 =
       [backup_word s, prp p_frequency0 s, prp p_frequency1 s, prp p_var_freq s, cfg c_vna_mode s]"
proof -
  have tb: "take_bit 9 (prp p_sweep_points s) = prp p_sweep_points s" "take_bit 9 (cfg c_bandwidth s) = cfg c_bandwidth s"
    "take_bit 3 (cfg c_lever_mode s) = cfg c_lever_mode s" "take_bit 7 (cfg c_brightness s) = cfg c_brightness s"
    using assms(4-7) by (auto intro!: small_field)
  have own: "take_bit n (fget ws (k, lo, n)) = fget ws (k, lo, n)" for ws k lo n
    by (simp add: fget_def)
  have own': "take_bit 16 (prp p_sweep_points s) = prp p_sweep_points s" "take_bit 16 (cfg c_bandwidth s) = cfg c_bandwidth s"
    "take_bit 8 (cfg c_lever_mode s) = cfg c_lever_mode s" "take_bit 8 (cfg c_brightness s) = cfg c_brightness s"
    "take_bit 16 (cfg c_vna_mode s) = cfg c_vna_mode s"
    by (simp_all add: prp_def cfg_def own)
  have bw: "cfg c_bandwidth s AND 0x1FF = cfg c_bandwidth s"
    using tb(2) by (simp add: take_bit_eq_mask mask_eq_exp_minus_1)
  have vm: "cfg c_vna_mode s OR push_bit VNA_MODE_BACKUP 1 = cfg c_vna_mode s"
    using assms(8) by (intro bit_word_eqI) (auto simp: vna_mode_backup_def bit_simps)
  have vm2: "cfg c_vna_mode s OR take_bit 16 (2 ^ VNA_MODE_BACKUP) = cfg c_vna_mode s"
    using assms(8) by (intro bit_word_eqI) (auto simp: vna_mode_backup_def bit_simps)
  have t32: "take_bit 32 x = x" for x :: u32 by (rule bit_word_eqI) (simp add: bit_simps)
  note iw = in_words_def apart_def
  have P: "prp p_sweep_points t1 = prp p_sweep_points s" "prp p_frequency0 t1 = prp p_frequency0 s"
    "prp p_frequency1 t1 = prp p_frequency1 s" "prp p_var_freq t1 = prp p_var_freq s"
    "length (cs_config (sm_cs t1)) = length (cs_config (sm_cs t))"
    using assms(1) unfolding t1_def by (simp_all add: prp_set_prop iw tb own' t32)
  have C: "cfg c_lever_mode t2 = cfg c_lever_mode s" "cfg c_brightness t2 = cfg c_brightness s" "cfg c_vna_mode t2 = cfg c_vna_mode s"
    "length (cs_config (sm_cs t2)) = length (cs_config (sm_cs t))"
    using assms(2) P(5) unfolding t2_def by (simp_all add: cfg_set_cfg iw tb own' vm vm2)
  let ?t = "(set_cfg c_bandwidth (cfg c_bandwidth s) t2)\<lparr>sm_calls := sm_calls t2 @ [Request_Redraw 0x408]\<rparr>"
  have t3: "t3 = update_backup_data ?t"
    unfolding t3_def set_bandwidth_def Let_def tb(2) bw by (simp add: set_cfg_def)
  have D: "cfg c_bandwidth ?t = cfg c_bandwidth s" "cfg c_lever_mode ?t = cfg c_lever_mode s"
    "cfg c_brightness ?t = cfg c_brightness s" "cfg c_vna_mode ?t = cfg c_vna_mode s"
  proof -
    have "cfg f ?t = cfg f (set_cfg c_bandwidth (cfg c_bandwidth s) t2)" for f by (simp add: cfg_def)
    then show "cfg c_bandwidth ?t = cfg c_bandwidth s" "cfg c_lever_mode ?t = cfg c_lever_mode s"
      "cfg c_brightness ?t = cfg c_brightness s" "cfg c_vna_mode ?t = cfg c_vna_mode s"
      using assms(2) C by (simp_all add: cfg_set_cfg iw own')
  qed
  have E: "prp f ?t = prp f t1" for f by (simp add: prp_def set_cfg_def t2_def)
  have up: "cfg f (update_backup_data x) = cfg f x" "prp f (update_backup_data x) = prp f x"
    "sm_cs (update_backup_data x) = sm_cs x" for f x
    by (simp_all add: update_backup_data_def set_backup_data32_def Let_def cfg_def prp_def)
  show "prp p_sweep_points t3 = prp p_sweep_points s" "prp p_frequency0 t3 = prp p_frequency0 s"
    "prp p_frequency1 t3 = prp p_frequency1 s" "prp p_var_freq t3 = prp p_var_freq s"
    "cfg c_bandwidth t3 = cfg c_bandwidth s" "cfg c_lever_mode t3 = cfg c_lever_mode s"
    "cfg c_brightness t3 = cfg c_brightness s" "cfg c_vna_mode t3 = cfg c_vna_mode s"
    unfolding t3 up E by (simp_all only: P D)
  have ls: "lastsaveid (sm_cs ?t) = lastsaveid (sm_cs t)" by (simp add: set_cfg_def t2_def t1_def set_prop_def)
  show "lastsaveid (sm_cs t3) = lastsaveid (sm_cs t)" unfolding t3 up by (rule ls)
  have lb: "length (sm_backup ?t) = 5" using assms(3) by (simp add: set_cfg_def t2_def t1_def set_prop_def)
  show "sm_backup t3 = [backup_word s, prp p_frequency0 s, prp p_frequency1 s, prp p_var_freq s, cfg c_vna_mode s]"
    if "lastsaveid (sm_cs t) = lastsaveid (sm_cs s)"
  proof -
    have "backup_word ?t = backup_word s"
      unfolding backup_word_def E P D using that ls by simp
    then show ?thesis unfolding t3 update_backup_regs [OF lb] E P D by simp
  qed
qed

text \<open>
  C11 What \<open>update_backup_data\<close> put into the backup registers
  comes back at the next start: with a valid configuration in flash that has backup on,
  and a valid image in the current slot, \<open>load_settings\<close> restores sweep points,
  frequencies, bandwidth, brightness, leveler mode, mode bits and the current slot,
  whatever RAM held, and leaves the registers as they were. The bounds are those of the
  bit fields.
\<close>

theorem settings_survive_power_cycle:
  fixes s r :: state_manager and pts :: nat
  assumes before: "length (sm_backup s) = 5" "0 < unat (prp p_sweep_points s)" "unat (prp p_sweep_points s) < 512"
      "unat (cfg c_bandwidth s) < 512" "unat (cfg c_lever_mode s) < 8" "unat (cfg c_brightness s) < 128"
      "vna_mode_backup s" "lastsaveid (sm_cs s) = of_nat i"
    and after: "sm_wf r" "sm_backup r = sm_backup (update_backup_data s)"
      "sealed CONFIG_MAGIC (config_in_flash r)" "bit (fget (config_in_flash r) c_vna_mode) VNA_MODE_BACKUP"
      "fst (get_properties i (sm_cs r)) \<noteq> None"
  defines "t \<equiv> load_settings pts r"
  shows "prp p_sweep_points t = prp p_sweep_points s \<and> prp p_frequency0 t = prp p_frequency0 s \<and>
    prp p_frequency1 t = prp p_frequency1 s \<and> prp p_var_freq t = prp p_var_freq s \<and>
    cfg c_bandwidth t = cfg c_bandwidth s \<and> cfg c_lever_mode t = cfg c_lever_mode s \<and>
    cfg c_brightness t = cfg c_brightness s \<and> cfg c_vna_mode t = cfg c_vna_mode s \<and>
    lastsaveid (sm_cs t) = of_nat i \<and> sm_backup t = sm_backup r"
proof -
  note regs = update_backup_regs [OF before(1)]
  have L: "layout_ok (cs_layout (sm_cs r))" and max: "savearea_max (cs_layout (sm_cs r)) < 8"
    using after(1) by (auto simp: sm_wf_def cs_wf_def layout_ok_def)
  define r0 where "r0 = load_default_properties pts r"
  have r0: "cs_config (sm_cs r0) = cs_config (sm_cs r)" "cs_layout (sm_cs r0) = cs_layout (sm_cs r)"
    "cs_flash (sm_cs r0) = cs_flash (sm_cs r)" "cs_sem (sm_cs r0) = cs_sem (sm_cs r)" "cs_initialized (sm_cs r0)"
    "length (cs_props (sm_cs r0)) = length (cs_props (sm_cs r))" "sm_backup r0 = sm_backup r" "checksum_ok (sm_cs r0) = checksum_ok (sm_cs r)"
    using after(1) by (simp_all add: r0_def load_default_properties_def fset_all_length sm_wf_def)
  define c1 where "c1 = (sm_cs r0)\<lparr>cs_config := config_in_flash r\<rparr>"
  have rec: "config_recall (sm_cs r0) = (0, c1)"
    using after(3) r0 by (simp add: config_recall_eq Let_def c1_def config_in_flash_def)
  define r1 where "r1 = r0\<lparr>sm_cs := c1\<rparr>"
  have bk1: "vna_mode_backup r1" using after(4) by (simp add: vna_mode_backup_def r1_def c1_def cfg_def)
  define r2 where "r2 = sanitize_rf_preferences r1"
  have r2: "cs_layout (sm_cs r2) = cs_layout (sm_cs r)" "sm_backup r2 = sm_backup r" "cs_flash (sm_cs r2) = cs_flash (sm_cs r)"
    "cs_sem (sm_cs r2) = cs_sem (sm_cs r)" "cs_initialized (sm_cs r2)" "checksum_ok (sm_cs r2) = checksum_ok (sm_cs r)"
    "length (cs_props (sm_cs r2)) = length (cs_props (sm_cs r))" "length (cs_config (sm_cs r2)) = length (cs_config (sm_cs r))"
    using r0 by (simp_all add: r2_def sanitize_rf_preferences_def Let_def r1_def c1_def set_cfg_def config_in_flash_def fl_read_def read_words_def)
  have gp: "fst (get_properties i (sm_cs r2)) = fst (get_properties i (sm_cs r))"
    by (simp add: get_properties_eq r2 Let_def)
  obtain src where src: "fst (get_properties i (sm_cs r)) = Some src" using after(5) by blast
  obtain c' where c': "caldata_recall i (sm_cs r2) = (0, c')" "cs_props c' = src" "lastsaveid c' = of_nat i"
    "cs_config c' = cs_config (sm_cs r2)" "cs_layout c' = cs_layout (sm_cs r2)" "i < savearea_max (cs_layout (sm_cs r2))"
    using caldata_recall_ok [of "sm_cs r2" i src] gp src r2 max after(1) by (auto simp: sm_wf_def)
  define r3 where "r3 = r2\<lparr>sm_cs := c'\<rparr>"
  have i: "i < 8" using c'(6) r2(1) max by simp
  let ?bk = "backup_word s"
  have g0: "get_backup_data32 0 r2 = ?bk" using r2(2) after(2) regs by (simp add: get_backup_data32_def)
  have nz: "?bk \<noteq> 0"
  proof
    assume "?bk = 0"
    then have "fget [?bk] bk_points = 0" by (simp add: fget_def)
    then show False using backup_word_fields(1) [of s] small_field [of "prp p_sweep_points s" 9] before(2,3) by simp
  qed
  have bid: "unat (fget [?bk] bk_id) = i"
  proof -
    have "unat (ucast (of_nat i :: u16) :: u32) = i"
      using i by (simp add: unsigned_ucast_eq unsigned_of_nat take_bit_nat_eq_self)
    then show ?thesis using i unfolding backup_word_fields before(8)
      by (simp add: unsigned_take_bit_eq take_bit_nat_eq_self)
  qed
  have scr: "sm_caldata_recall i r2 = (0, r3)" by (simp add: sm_caldata_recall_def c'(1) r3_def)
  define t1 where "t1 = set_prop p_var_freq (prp p_var_freq s) (set_prop p_frequency1 (prp p_frequency1 s)
      (set_prop p_frequency0 (prp p_frequency0 s) (set_prop p_sweep_points (take_bit 9 (prp p_sweep_points s)) r3)))"
  define t2 where "t2 = set_cfg c_vna_mode (cfg c_vna_mode s OR push_bit VNA_MODE_BACKUP 1)
      (set_cfg c_lever_mode (take_bit 3 (cfg c_lever_mode s)) (set_cfg c_brightness (take_bit 7 (cfg c_brightness s)) t1))"
  define t3 where "t3 = set_bandwidth (take_bit 9 (cfg c_bandwidth s)) t2"
  have bkr: "sm_backup r3 = [?bk, prp p_frequency0 s, prp p_frequency1 s, prp p_var_freq s, cfg c_vna_mode s]"
    using r2(2) after(2) regs by (simp add: r3_def)
  have vne: "cfg c_vna_mode s \<noteq> 0xFFFFFFFF"
  proof
    assume "cfg c_vna_mode s = 0xFFFFFFFF"
    moreover have "unat (cfg c_vna_mode s) < 2 ^ 16"
      using take_bit_nat_less_exp [of 16] by (simp add: cfg_def fget_def unsigned_take_bit_eq)
    ultimately show False by simp
  qed
  have load: "t = t3\<lparr>sm_calls := sm_calls t3 @ [Update_Frequencies, Set_Measure_Mode (prp p_measure t3)]\<rparr>"
  proof -
    have g: "get_backup_data32 j x = sm_backup r3 ! j" if "j \<le> 4" "sm_backup x = sm_backup r3" for j x
      using that by (simp add: get_backup_data32_def)
    show ?thesis
      unfolding t_def load_settings_def Let_def r0_def [symmetric] rec prod.case r1_def [symmetric]
        r2_def [symmetric] g0 bid t3_def t2_def t1_def
      using bk1 nz c'(6) vne
      by (simp add: scr g bkr backup_word_fields)
  qed
  note tail = load_tail [of r3 s, folded t1_def, folded t2_def, folded t3_def]
  have len: "9 \<le> length (cs_props (sm_cs r3))" "8 \<le> length (cs_config (sm_cs r3))" "length (sm_backup r3) = 5"
    using get_properties_length [OF src] after(1) r2 c'(2,4) bkr by (auto simp: r3_def sm_wf_def)
  note tail = tail [OF len before(3-7)]
  have ls: "lastsaveid (sm_cs r3) = of_nat i" by (simp add: r3_def c'(3))
  have same: "prp f t = prp f t3" "cfg f t = cfg f t3" "sm_cs t = sm_cs t3" "sm_backup t = sm_backup t3" for f
    by (simp_all add: load prp_def cfg_def)
  show ?thesis unfolding same using tail ls before(8) after(2) regs by simp
qed

text \<open>A unit with 101 points, bandwidth 100, brightness 50 and backup on.\<close>

definition pc_conf :: "u32 list" where
  "pc_conf = [0, 300000100, 12000, 0, 0, 32, 6553600, 12801, 0]"

definition pc_props :: "u32 list" where
  "pc_props = [0, 1000000, 2000000, 0, 0, 0, 6619136, 0, 0, 0, 0, 0]"

definition pc_flash :: flash where
  "pc_flash = fl_write layout_F072 (Slot 0) (seal PROPERTIES_MAGIC pc_props)
     (fl_write layout_F072 Config_Area (seal CONFIG_MAGIC pc_conf) (\<lambda>_. 0xFFFF))"

definition pc_state :: "u32 list \<Rightarrow> u32 list \<Rightarrow> u32 list \<Rightarrow> state_manager" where
  "pc_state conf props bk = \<lparr>sm_cs = \<lparr>cs_layout = layout_F072, cs_flash = pc_flash, cs_config = conf,
       cs_props = props, cs_sem = 1, lastsaveid = 0, checksum_ok = 0, cs_bus = None, cs_initialized = True,
       calibration_in_progress = False, cs_calls = []\<rparr>,
     sm_backup = bk, sweep_state_dirty = False, sweep_state_deadline = 0, sweep_state_last_save = 0, sm_calls = []\<rparr>"

theorem settings_survive_power_cycle_witness:
  "prp p_sweep_points (load_settings 101 (pc_state (replicate 9 0) (replicate 12 0)
     (sm_backup (update_backup_data (pc_state pc_conf pc_props [0, 0, 0, 0, 0]))))) = 101"
proof -
  let ?s = "pc_state pc_conf pc_props [0, 0, 0, 0, 0]"
  let ?bk = "sm_backup (update_backup_data ?s)"
  let ?r = "pc_state (replicate 9 0) (replicate 12 0) ?bk"
  have fields: "prp p_sweep_points ?s = 101" "cfg c_bandwidth ?s = 100" "cfg c_lever_mode ?s = 1"
    "cfg c_brightness ?s = 50" "cfg c_vna_mode ?s = 32"
    by (simp_all add: prp_def cfg_def fget_def pc_state_def pc_conf_def pc_props_def take_bit_eq_mod)
  have L: "layout_ok layout_F072" by (rule layouts_ok)
  have len: "length (seal CONFIG_MAGIC pc_conf) = 9" "length (seal PROPERTIES_MAGIC pc_props) = 12"
    by (simp_all add: pc_conf_def pc_props_def)
  have room: "fl_room layout_F072 r = (case r of Config_Area \<Rightarrow> 512 | Slot _ \<Rightarrow> 1536)" for r
    by (cases r) (simp_all add: fl_room_def layout_F072_def)
  have slot: "fl_read layout_F072 (Slot 0) 12 pc_flash = seal PROPERTIES_MAGIC pc_props"
    using store.rd_wr [OF L, of "Slot 0" "seal PROPERTIES_MAGIC pc_props"] room len
    by (simp add: pc_flash_def layout_F072_def)
  have "fl_read layout_F072 Config_Area 9 pc_flash =
      fl_read layout_F072 Config_Area 9 (fl_write layout_F072 Config_Area (seal CONFIG_MAGIC pc_conf) (\<lambda>_. 0xFFFF))"
    unfolding pc_flash_def by (rule store.rd_wr_other [OF L]) (simp_all add: room len pc_props_def, simp add: layout_F072_def)
  also have "\<dots> = seal CONFIG_MAGIC pc_conf"
    using store.rd_wr [OF L, of Config_Area "seal CONFIG_MAGIC pc_conf"] room len by simp
  finally have conf: "fl_read layout_F072 Config_Area 9 pc_flash = seal CONFIG_MAGIC pc_conf" .
  have cf: "config_in_flash ?r = seal CONFIG_MAGIC pc_conf" using conf by (simp add: config_in_flash_def pc_state_def)
  have "fst (get_properties 0 (sm_cs ?r)) \<noteq> None"
    using slot seal_sealed [of pc_props PROPERTIES_MAGIC]
    by (simp add: get_properties_eq Let_def pc_state_def) (simp add: pc_props_def layout_F072_def)
  moreover have "sm_wf ?r"
    using L room by (simp add: sm_wf_def cs_wf_def pc_state_def update_backup_data_def set_backup_data32_def Let_def)
  moreover have "sealed CONFIG_MAGIC (config_in_flash ?r)"
    unfolding cf by (rule seal_sealed) (simp add: pc_conf_def)
  moreover have "bit (fget (config_in_flash ?r) c_vna_mode) VNA_MODE_BACKUP"
    unfolding cf using seal_payload [of 5 pc_conf CONFIG_MAGIC]
    by (simp add: fget_def pc_conf_def VNA_MODE_BACKUP_def bit_numeral_rec bit_take_bit_iff)
  moreover have "sm_backup ?r = ?bk" by (simp add: pc_state_def)
  moreover have "vna_mode_backup ?s" by (simp add: vna_mode_backup_def fields VNA_MODE_BACKUP_def bit_numeral_rec)
  moreover have "length (sm_backup ?s) = 5" "lastsaveid (sm_cs ?s) = of_nat 0" by (simp_all add: pc_state_def)
  ultimately have "prp p_sweep_points (load_settings 101 ?r) = prp p_sweep_points ?s"
    using settings_survive_power_cycle [of ?s 0 ?r 101] fields by simp
  then show ?thesis using fields by simp
qed

theorem autosave_when_witness:
  "state_manager_service (\<lambda>_. True) (5 + 4) (state_manager_mark_dirty 5 (pc_state pc_conf pc_props [0, 0, 0, 0, 0])) =
     state_manager_mark_dirty 5 (pc_state pc_conf pc_props [0, 0, 0, 0, 0]) \<and>
   sm_cs (state_manager_force_save (\<lambda>_. True) 7 (pc_state pc_conf pc_props [] \<lparr>sm_cs := cs_demo\<lparr>calibration_in_progress := True\<rparr>\<rparr>)) =
     cs_demo\<lparr>calibration_in_progress := True\<rparr>"
  using autosave_when [of "\<lambda>_. True" 9 "pc_state pc_conf pc_props [0, 0, 0, 0, 0]" 5 4]
    autosave_when [of "\<lambda>_. True" 7 "pc_state pc_conf pc_props [] \<lparr>sm_cs := cs_demo\<lparr>calibration_in_progress := True\<rparr>\<rparr>" 5 4]
  by simp

end
