(* ===== verification/Shell_Service.thy ===== *)
theory Shell_Service
  imports Chprintf Event_Bus
begin

text \<open>
  The command shell of \<open>src/src/sys/shell_service.c\<close> (builds without the serial console). The
  USB channel belongs to ChibiOS and is scripted: \<open>sh_in\<close> is what successive
  \<open>chnReadTimeout\<close> calls find (the empty burst is a timeout), \<open>sh_room\<close> how much successive
  \<open>chnWriteTimeout\<close> calls accept, \<open>sh_polls\<close> whether successive polls find the port active
  with a terminal connected. When a script ends the calls time out and the port is gone, so
  every loop ends. Callbacks and command functions are opaque numbers; \<open>sh_log\<close> records what
  was called, for the specifications.
\<close>

section \<open>State\<close>

definition VNA_SHELL_MAX_ARGUMENTS :: nat where "VNA_SHELL_MAX_ARGUMENTS = 4"
definition VNA_SHELL_NEWLINE_STR :: string where "VNA_SHELL_NEWLINE_STR = [CHR 0x0D, CHR 0x0A]"

definition CMD_WAIT_MUTEX :: u16 where "CMD_WAIT_MUTEX = 1"
definition CMD_BREAK_SWEEP :: u16 where "CMD_BREAK_SWEEP = 2"
definition CMD_RUN_IN_UI :: u16 where "CMD_RUN_IN_UI = 4"
definition CMD_RUN_IN_LOAD :: u16 where "CMD_RUN_IN_LOAD = 8"
definition CMD_NO_AUTO_RESUME :: u16 where "CMD_NO_AUTO_RESUME = 16"

record vna_shell_command =
  sc_name :: string
  sc_function :: nat
  sc_flags :: u16

datatype shell_event =
    Session_Start nat
  | Session_Stop nat
  | Pause_Sweep
  | Resume_Sweep
  | Run_Command nat "string list"

text \<open>
  There is one channel, so \<open>shell_stream\<close> is either null or that channel. \<open>sh_line\<close> is the
  caller's line buffer, \<open>sh_args\<close> the offsets in \<open>shell_args\<close>; \<open>sh_waiting\<close> says that the
  shell thread sits in the queue \<open>shell_thread\<close>.
\<close>

record shell_service =
  sh_in :: "char list list"
  sh_room :: "nat list"
  sh_polls :: "bool list"
  sh_out :: "char list"
  sh_stream :: bool
  sh_print_buffer :: "char list"
  shell_session_active :: bool
  shell_session_start_cb :: "nat option"
  shell_session_stop_cb :: "nat option"
  shell_skip_linefeed :: bool
  command_table :: "vna_shell_command list option"
  sh_line :: "char list"
  sh_args :: "nat list"
  pending_command :: "vna_shell_command option"
  pending_argc :: nat
  pending_argv :: bool
  shell_auto_resume :: bool
  sh_waiting :: bool
  sh_bus :: "event_bus option"
  sh_bus_calls :: "invocation list"
  sh_log :: "shell_event list"

definition log_event :: "shell_event \<Rightarrow> shell_service \<Rightarrow> shell_service" where
  "log_event e s = s\<lparr>sh_log := sh_log s @ [e]\<rparr>"

section \<open>Sessions\<close>

definition shell_handle_session_transition :: "bool \<Rightarrow> shell_service \<Rightarrow> shell_service" where
  "shell_handle_session_transition active s =
     (if active \<and> \<not> shell_session_active s
      then let s = s\<lparr>shell_session_active := True\<rparr>
           in (case shell_session_start_cb s of None \<Rightarrow> s | Some cb \<Rightarrow> log_event (Session_Start cb) s)
      else if \<not> active \<and> shell_session_active s
      then let s = s\<lparr>shell_session_active := False\<rparr>
           in (case shell_session_stop_cb s of None \<Rightarrow> s | Some cb \<Rightarrow> log_event (Session_Stop cb) s)
      else s)"

definition shell_check_connect :: "shell_service \<Rightarrow> bool \<times> shell_service" where
  "shell_check_connect s =
     (case sh_polls s of
        [] \<Rightarrow> (False, shell_handle_session_transition False s)
      | p # ps \<Rightarrow> (p, shell_handle_session_transition p (s\<lparr>sh_polls := ps\<rparr>)))"

definition shell_register_session_start_callback :: "nat option \<Rightarrow> shell_service \<Rightarrow> shell_service" where
  "shell_register_session_start_callback callback s =
     (let s = s\<lparr>shell_session_start_cb := callback\<rparr>
      in if shell_session_active s
         then (case callback of None \<Rightarrow> s | Some cb \<Rightarrow> log_event (Session_Start cb) s) else s)"

definition shell_register_session_stop_callback :: "nat option \<Rightarrow> shell_service \<Rightarrow> shell_service" where
  "shell_register_session_stop_callback callback s = s\<lparr>shell_session_stop_cb := callback\<rparr>"

definition shell_set_auto_resume :: "bool \<Rightarrow> shell_service \<Rightarrow> shell_service" where
  "shell_set_auto_resume enable s = s\<lparr>shell_auto_resume := enable\<rparr>"

definition shell_restore_stream :: "shell_service \<Rightarrow> shell_service" where
  "shell_restore_stream s = s\<lparr>sh_stream := True\<rparr>"

definition shell_wake_all_waiting_threadsI :: "shell_service \<Rightarrow> shell_service" where
  "shell_wake_all_waiting_threadsI s = s\<lparr>sh_waiting := False\<rparr>"

definition shell_register_commands :: "vna_shell_command list \<Rightarrow> shell_service \<Rightarrow> shell_service" where
  "shell_register_commands table s = s\<lparr>command_table := Some table\<rparr>"

definition shell_attach_event_bus :: "event_bus option \<Rightarrow> shell_service \<Rightarrow> shell_service" where
  "shell_attach_event_bus bus s =
     (if (sh_bus s = None) = (bus = None) then s
      else s\<lparr>sh_bus := map_option
        (\<lambda>b. snd (event_bus_subscribe b EVENT_USB_COMMAND_PENDING (Some 2) 0)) bus\<rparr>)"

lemma check_connect_polls:
  "shell_check_connect s = (True, t) \<Longrightarrow> length (sh_polls t) < length (sh_polls s)"
  by (auto simp: shell_check_connect_def shell_handle_session_transition_def log_event_def Let_def
      split: list.splits if_splits option.splits)

section \<open>Channel\<close>

definition chn_write_timeout :: "char list \<Rightarrow> shell_service \<Rightarrow> nat \<times> shell_service" where
  "chn_write_timeout buf s =
     (case sh_room s of
        [] \<Rightarrow> (0, s)
      | r # rs \<Rightarrow> (min r (length buf), s\<lparr>sh_room := rs, sh_out := sh_out s @ take r buf\<rparr>))"

definition chn_read_timeout :: "nat \<Rightarrow> shell_service \<Rightarrow> char list \<times> shell_service" where
  "chn_read_timeout n s =
     (case sh_in s of
        [] \<Rightarrow> ([], s)
      | b # bs \<Rightarrow> (take n b, s\<lparr>sh_in := (if length b \<le> n then bs else drop n b # bs)\<rparr>))"

function write_loop :: "char list \<Rightarrow> shell_service \<Rightarrow> bool \<times> shell_service" where
  "write_loop buf s =
     (if buf = [] then (True, s)
      else case chn_write_timeout buf s of (sent, s) \<Rightarrow>
        if sent > 0 then write_loop (drop sent buf) s
        else case shell_check_connect s of (active, s) \<Rightarrow>
          if active then write_loop buf s else (False, s))"
  by pat_completeness auto
termination
  by (relation "measures [\<lambda>(buf, s). length buf, \<lambda>(buf, s). length (sh_polls s)]")
    (auto simp: chn_write_timeout_def split: list.splits dest!: sym [of "(True, _)"] check_connect_polls)

definition shell_io_write :: "char list \<Rightarrow> shell_service \<Rightarrow> bool \<times> shell_service" where
  "shell_io_write buf s = (if \<not> sh_stream s then (False, s) else write_loop buf s)"

function read_loop :: "nat \<Rightarrow> shell_service \<Rightarrow> char list \<times> shell_service" where
  "read_loop n s =
     (if n = 0 then ([], s)
      else case chn_read_timeout n s of (chunk, s) \<Rightarrow>
        if chunk = []
        then case shell_check_connect s of (active, s) \<Rightarrow>
          if active then read_loop n s else ([], s)
        else case read_loop (n - length chunk) s of (rest, s) \<Rightarrow> (chunk @ rest, s))"
  by pat_completeness auto
termination
  by (relation "measures [\<lambda>(n, s). n, \<lambda>(n, s). length (sh_polls s)]")
    (auto simp: chn_read_timeout_def split: list.splits if_splits dest!: sym [of "(True, _)"] check_connect_polls)

definition shell_io_read :: "nat \<Rightarrow> shell_service \<Rightarrow> char list \<times> shell_service" where
  "shell_io_read n s = (if \<not> sh_stream s then ([], s) else read_loop n s)"

definition shell_write :: "char list \<Rightarrow> shell_service \<Rightarrow> shell_service" where
  "shell_write buf s = snd (shell_io_write buf s)"

declare write_loop.simps [simp del] read_loop.simps [simp del]

text \<open>\<open>shell_printf\<close>: the text cut to 95 bytes, the count sent; \<open>None\<close> is a write outside the print buffer.\<close>

definition shell_printf :: "bool \<Rightarrow> string \<Rightarrow> arg list \<Rightarrow> shell_service \<Rightarrow> (nat \<times> shell_service) option" where
  "shell_printf cm4 fmt args s =
     (if \<not> sh_stream s then Some (0, s)
      else case chvprintf cm4 fmt args of
        None \<Rightarrow> None
      | Some out \<Rightarrow>
        (case ms_puts \<lparr>ms_mem = sh_print_buffer s, ms_buffer = 0, ms_size = 95, ms_eos = 0\<rparr> out of
           None \<Rightarrow> None
         | Some ms \<Rightarrow>
           (case mem_put (ms_mem ms) (ms_eos ms) NUL of
              None \<Rightarrow> None
            | Some m \<Rightarrow>
              let s = s\<lparr>sh_print_buffer := m\<rparr>
              in if ms_eos ms = 0 then Some (0, s)
                 else case shell_io_write (take (ms_eos ms) m) s of (sent, s) \<Rightarrow>
                   Some (if sent then ms_eos ms else 0, s))))"

lemma session_same [simp]:
  "sh_in (shell_handle_session_transition a s) = sh_in s"
  "sh_out (shell_handle_session_transition a s) = sh_out s"
  "sh_room (shell_handle_session_transition a s) = sh_room s"
  "sh_polls (shell_handle_session_transition a s) = sh_polls s"
  "sh_stream (shell_handle_session_transition a s) = sh_stream s"
  "sh_line (shell_handle_session_transition a s) = sh_line s"
  "sh_print_buffer (shell_handle_session_transition a s) = sh_print_buffer s"
  "shell_skip_linefeed (shell_handle_session_transition a s) = shell_skip_linefeed s"
  by (auto simp: shell_handle_session_transition_def log_event_def Let_def split: option.splits)

lemma write_loop_same:
  "sh_in (snd (write_loop buf s)) = sh_in s \<and> sh_stream (snd (write_loop buf s)) = sh_stream s \<and>
   sh_line (snd (write_loop buf s)) = sh_line s \<and> sh_print_buffer (snd (write_loop buf s)) = sh_print_buffer s \<and>
   shell_skip_linefeed (snd (write_loop buf s)) = shell_skip_linefeed s"
  by (induction buf s rule: write_loop.induct)
    (subst (1 2 3 4 5) write_loop.simps,
     auto simp: chn_write_timeout_def shell_check_connect_def split: list.splits prod.splits if_splits)

lemma shell_write_same [simp]:
  "sh_in (shell_write buf s) = sh_in s" "sh_stream (shell_write buf s) = sh_stream s"
  "sh_line (shell_write buf s) = sh_line s" "sh_print_buffer (shell_write buf s) = sh_print_buffer s"
  "shell_skip_linefeed (shell_write buf s) = shell_skip_linefeed s"
  using write_loop_same [of buf s] by (simp_all add: shell_write_def shell_io_write_def)

lemma read_loop_input:
  "fst (read_loop n s) @ concat (sh_in (snd (read_loop n s))) = concat (sh_in s) \<and>
   length (fst (read_loop n s)) \<le> n \<and>
   sh_stream (snd (read_loop n s)) = sh_stream s \<and> sh_line (snd (read_loop n s)) = sh_line s \<and>
   sh_print_buffer (snd (read_loop n s)) = sh_print_buffer s \<and>
   shell_skip_linefeed (snd (read_loop n s)) = shell_skip_linefeed s"
proof (induction n s rule: read_loop.induct)
  case (1 n s)
  show ?case
  proof (cases "n = 0")
    case True
    then show ?thesis by (simp add: read_loop.simps)
  next
    case False
    obtain chunk s1 where r: "chn_read_timeout n s = (chunk, s1)" by (cases "chn_read_timeout n s")
    then have s1: "chunk @ concat (sh_in s1) = concat (sh_in s)" "length chunk \<le> n" "sh_stream s1 = sh_stream s"
      "sh_line s1 = sh_line s" "sh_print_buffer s1 = sh_print_buffer s" "shell_skip_linefeed s1 = shell_skip_linefeed s"
      by (auto simp: chn_read_timeout_def split: list.splits if_splits)
    show ?thesis
    proof (cases "chunk = []")
      case True
      obtain a s2 where c: "shell_check_connect s1 = (a, s2)" by (cases "shell_check_connect s1")
      then have s2: "sh_in s2 = sh_in s1" "sh_stream s2 = sh_stream s1" "sh_line s2 = sh_line s1"
        "sh_print_buffer s2 = sh_print_buffer s1" "shell_skip_linefeed s2 = shell_skip_linefeed s1"
        by (auto simp: shell_check_connect_def split: list.splits)
      show ?thesis
        using "1.IH"(1) [OF False r [symmetric] True c [symmetric]] False r c True s1 s2
        by (cases a) (simp_all add: read_loop.simps [of n s])
    next
      case nonempty: False
      then show ?thesis
        using "1.IH"(2) [OF False r [symmetric] nonempty] False r s1
        by (auto simp: read_loop.simps [of n s] case_prod_beta)
    qed
  qed
qed

lemma io_read_one:
  assumes "shell_io_read 1 s = (cs, t)"
  shows "cs @ concat (sh_in t) = concat (sh_in s)" "length cs \<le> 1" "sh_stream t = sh_stream s"
    "sh_line t = sh_line s" "sh_print_buffer t = sh_print_buffer s" "shell_skip_linefeed t = shell_skip_linefeed s"
  using assms read_loop_input [of 1 s] by (auto simp: shell_io_read_def split: if_splits)

lemma shell_printf_same:
  assumes "shell_printf cm4 fmt args s = Some (n, t)"
  shows "sh_in t = sh_in s" "sh_stream t = sh_stream s" "sh_line t = sh_line s"
    "shell_skip_linefeed t = shell_skip_linefeed s"
proof -
  have "sh_in t = sh_in s \<and> sh_stream t = sh_stream s \<and> sh_line t = sh_line s \<and> shell_skip_linefeed t = shell_skip_linefeed s"
  proof -
    have w: "sh_in (snd (shell_io_write b (s\<lparr>sh_print_buffer := m\<rparr>))) = sh_in s \<and>
      sh_stream (snd (shell_io_write b (s\<lparr>sh_print_buffer := m\<rparr>))) = sh_stream s \<and>
      sh_line (snd (shell_io_write b (s\<lparr>sh_print_buffer := m\<rparr>))) = sh_line s \<and>
      shell_skip_linefeed (snd (shell_io_write b (s\<lparr>sh_print_buffer := m\<rparr>))) = shell_skip_linefeed s" for b m
      using write_loop_same [of b "s\<lparr>sh_print_buffer := m\<rparr>"] by (simp add: shell_io_write_def)
    show ?thesis
      using assms w by (auto simp: shell_printf_def Let_def split: if_splits option.splits prod.splits) (metis snd_conv)+
  qed
  then show "sh_in t = sh_in s" "sh_stream t = sh_stream s" "sh_line t = sh_line s"
    "shell_skip_linefeed t = shell_skip_linefeed s" by blast+
qed

section \<open>Reading a line\<close>

definition backspace :: "char list" where
  "backspace = [CHR 0x08, CHR 0x20, CHR 0x08, NUL]"

datatype line_step = Line_More nat shell_service | Line_Done shell_service

text \<open>What \<open>vna_shell_read_line\<close> does with one received character, \<open>j\<close> characters into the line.\<close>

definition line_char :: "bool \<Rightarrow> int \<Rightarrow> char \<Rightarrow> nat \<Rightarrow> shell_service \<Rightarrow> line_step option" where
  "line_char cm4 max_size c j s =
     (if shell_skip_linefeed s \<and> c = CHR 0x0A then Some (Line_More j (s\<lparr>shell_skip_linefeed := False\<rparr>))
      else let s = s\<lparr>shell_skip_linefeed := False\<rparr> in
      if c = CHR 0x08 \<or> c = CHR 0x7F then
        Some (if j > 0 then Line_More (j - 1) (shell_write backspace s) else Line_More j s)
      else if c = CHR 0x0D \<or> c = CHR 0x0A then
        (case shell_printf cm4 VNA_SHELL_NEWLINE_STR [] (s\<lparr>shell_skip_linefeed := c = CHR 0x0D\<rparr>) of
           None \<Rightarrow> None
         | Some (_, s) \<Rightarrow> map_option (\<lambda>m. Line_Done (s\<lparr>sh_line := m\<rparr>)) (mem_put (sh_line s) j NUL))
      else if (of_char c :: nat) < 32 \<or> int j \<ge> max_size - 1 then Some (Line_More j s)
      else let s = shell_write [c] s
           in map_option (\<lambda>m. Line_More (j + 1) (s\<lparr>sh_line := m\<rparr>)) (mem_put (sh_line s) j c))"

function line_loop :: "bool \<Rightarrow> int \<Rightarrow> nat \<Rightarrow> shell_service \<Rightarrow> (int \<times> shell_service) option" where
  "line_loop cm4 max_size j s =
     (case shell_io_read 1 s of (cs, s) \<Rightarrow>
        if cs = [] then Some (0, s)
        else case line_char cm4 max_size (hd cs) j s of
          None \<Rightarrow> None
        | Some (Line_Done s) \<Rightarrow> Some (1, s)
        | Some (Line_More j s) \<Rightarrow> line_loop cm4 max_size j s)"
  by pat_completeness auto

lemma line_char_input:
  "line_char cm4 max_size c j s = Some (Line_More j' t) \<Longrightarrow> sh_in t = sh_in s"
  "line_char cm4 max_size c j s = Some (Line_Done t) \<Longrightarrow> sh_in t = sh_in s"
  by (auto simp: line_char_def Let_def split: if_splits option.splits dest!: shell_printf_same(1))

lemma line_char_shrinks:
  assumes "(cs, t) = shell_io_read (Suc 0) s" "cs \<noteq> []" "line_char cm4 max_size c j t = Some (Line_More j' u)"
  shows "length (concat (sh_in u)) < length (concat (sh_in s))"
proof -
  have "cs @ concat (sh_in u) = concat (sh_in s)"
    using io_read_one(1) [of s cs t] assms line_char_input(1) [OF assms(3)] by simp
  then have "length cs + length (concat (sh_in u)) = length (concat (sh_in s))" by (metis length_append)
  then show ?thesis using assms(2) by (cases cs) simp_all
qed

termination line_loop
  by (relation "measure (\<lambda>(cm4, max_size, j, s). length (concat (sh_in s)))")
    (auto intro: line_char_shrinks simp del: length_concat)

declare line_loop.simps [simp del]

definition vna_shell_read_line :: "bool \<Rightarrow> int \<Rightarrow> shell_service \<Rightarrow> (int \<times> shell_service) option" where
  "vna_shell_read_line cm4 max_size s = line_loop cm4 max_size 0 s"

section \<open>Printing sends the text cut to 95 bytes\<close>

lemma shell_printf_text:
  assumes "sh_stream s" "96 \<le> length (sh_print_buffer s)" "chvprintf cm4 fmt args = Some out"
  shows "\<exists>m. length m = length (sh_print_buffer s) \<and>
    shell_printf cm4 fmt args s =
      (if out = [] then Some (0, s\<lparr>sh_print_buffer := m\<rparr>)
       else case shell_io_write (take 95 out) (s\<lparr>sh_print_buffer := m\<rparr>) of (sent, t) \<Rightarrow>
         Some (if sent then min 95 (length out) else 0, t))"
proof -
  define e where "e = min 95 (length out)"
  define m where "m = (take 95 out @ drop e (sh_print_buffer s))[e := NUL]"
  have p: "ms_puts \<lparr>ms_mem = sh_print_buffer s, ms_buffer = 0, ms_size = 95, ms_eos = 0\<rparr> out =
      Some \<lparr>ms_mem = take 95 out @ drop e (sh_print_buffer s), ms_buffer = 0, ms_size = 95, ms_eos = e\<rparr>"
    using ms_puts_eq [of 0 95 "sh_print_buffer s" 0 out] assms(2) by (simp add: e_def)
  have len: "length (take 95 out @ drop e (sh_print_buffer s)) = length (sh_print_buffer s)" and e: "e < length (sh_print_buffer s)"
    using assms(2) by (auto simp: e_def min_def)
  have "take e m = take e (take 95 out)" unfolding m_def by (simp add: e_def)
  then have t: "take e m = take 95 out" by (simp add: e_def min_def)
  have "length m = length (sh_print_buffer s)" using len by (simp add: m_def)
  moreover have "mem_put (take 95 out @ drop e (sh_print_buffer s)) e NUL = Some m"
    using len e by (simp add: mem_put_def m_def)
  moreover have "e = 0 \<longleftrightarrow> out = []" by (cases out) (auto simp: e_def)
  ultimately show ?thesis
    using assms(1,3) p t by (intro exI [of _ m]) (auto simp: shell_printf_def e_def case_prod_beta)
qed

lemma printf_newline:
  assumes "sh_stream s" "96 \<le> length (sh_print_buffer s)"
  shows "\<exists>n t. shell_printf cm4 VNA_SHELL_NEWLINE_STR [] s = Some (n, t) \<and>
    length (sh_print_buffer t) = length (sh_print_buffer s)"
proof -
  have c: "chvprintf cm4 VNA_SHELL_NEWLINE_STR [] = Some VNA_SHELL_NEWLINE_STR"
    by (simp add: VNA_SHELL_NEWLINE_STR_def chvprintf.simps [of _ "_ # _"] chvprintf.simps [of _ "[]"])
  obtain m where "length m = length (sh_print_buffer s)" and p: "shell_printf cm4 VNA_SHELL_NEWLINE_STR [] s =
      (if VNA_SHELL_NEWLINE_STR = [] then Some (0, s\<lparr>sh_print_buffer := m\<rparr>)
       else case shell_io_write (take 95 VNA_SHELL_NEWLINE_STR) (s\<lparr>sh_print_buffer := m\<rparr>) of (sent, t) \<Rightarrow>
         Some (if sent then min 95 (length VNA_SHELL_NEWLINE_STR) else 0, t))"
    using shell_printf_text [OF assms c] by blast
  then show ?thesis
    using write_loop_same [of "take 95 VNA_SHELL_NEWLINE_STR" "s\<lparr>sh_print_buffer := m\<rparr>"]
    by (auto simp: VNA_SHELL_NEWLINE_STR_def shell_io_write_def assms(1) split: prod.splits)
qed

section \<open>The line editor\<close>

text \<open>
  What a terminal user expects: \<open>acc\<close> is the text so far, last character first. The result
  is the line, whether a line feed that follows belongs to its end, and the input left.
\<close>

fun edit_line :: "int \<Rightarrow> bool \<Rightarrow> string \<Rightarrow> string \<Rightarrow> (string \<times> bool \<times> string) option" where
  "edit_line n skip acc [] = None"
| "edit_line n skip acc (c # cs) =
     (if skip \<and> c = CHR 0x0A then edit_line n False acc cs
      else if c = CHR 0x08 \<or> c = CHR 0x7F then edit_line n False (tl acc) cs
      else if c = CHR 0x0D \<or> c = CHR 0x0A then Some (rev acc, c = CHR 0x0D, cs)
      else if (of_char c :: nat) < 32 \<or> int (length acc) \<ge> n - 1 then edit_line n False acc cs
      else edit_line n False (c # acc) cs)"

definition sh_ready :: "int \<Rightarrow> shell_service \<Rightarrow> bool" where
  "sh_ready n s \<longleftrightarrow> sh_stream s \<and> 96 \<le> length (sh_print_buffer s) \<and> n \<le> int (length (sh_line s)) \<and> 1 \<le> n"

definition typed :: "nat \<Rightarrow> shell_service \<Rightarrow> string" where
  "typed j s = rev (take j (sh_line s))"

lemma line_char_edit:
  assumes r: "sh_ready n s" and j: "int j < n" "NUL \<notin> set (typed j s)"
  shows "(\<exists>j' t. line_char cm4 n c j s = Some (Line_More j' t) \<and> sh_ready n t \<and> int j' < n \<and> NUL \<notin> set (typed j' t) \<and>
            length (sh_line t) = length (sh_line s) \<and> drop (nat n) (sh_line t) = drop (nat n) (sh_line s) \<and>
            (\<forall>cs. edit_line n (shell_skip_linefeed s) (typed j s) (c # cs) =
                  edit_line n (shell_skip_linefeed t) (typed j' t) cs)) \<or>
         (\<exists>t. line_char cm4 n c j s = Some (Line_Done t) \<and>
            length (sh_line t) = length (sh_line s) \<and> drop (nat n) (sh_line t) = drop (nat n) (sh_line s) \<and>
            cstr_at (sh_line t) 0 = rev (typed j s) \<and>
            (\<forall>cs. edit_line n (shell_skip_linefeed s) (typed j s) (c # cs) =
                  Some (rev (typed j s), shell_skip_linefeed t, cs)))"
proof -
  note wf = r [unfolded sh_ready_def]
  have tl: "tl (typed j s) = typed (j - 1) s" if "0 < j"
    using that j wf by (cases j) (auto simp: typed_def take_Suc_conv_app_nth)
  have len: "length (typed j s) = j" using j wf by (simp add: typed_def)
  consider (lf) "shell_skip_linefeed s \<and> c = CHR 0x0A"
    | (bs) "c = CHR 0x08 \<or> c = CHR 0x7F" "\<not> (shell_skip_linefeed s \<and> c = CHR 0x0A)"
    | (nl) "c = CHR 0x0D \<or> c = CHR 0x0A" "\<not> (c = CHR 0x08 \<or> c = CHR 0x7F)" "\<not> (shell_skip_linefeed s \<and> c = CHR 0x0A)"
    | (skip) "(of_char c :: nat) < 32 \<or> int j \<ge> n - 1" "\<not> (c = CHR 0x0D \<or> c = CHR 0x0A)" "\<not> (c = CHR 0x08 \<or> c = CHR 0x7F)"
    | (store) "\<not> ((of_char c :: nat) < 32 \<or> int j \<ge> n - 1)" "\<not> (c = CHR 0x0D \<or> c = CHR 0x0A)" "\<not> (c = CHR 0x08 \<or> c = CHR 0x7F)"
    by blast
  then show ?thesis
  proof cases
    case lf
    then show ?thesis using r j by (auto simp: line_char_def sh_ready_def typed_def)
  next
    case bs
    have "NUL \<notin> set (typed (j - 1) s)" using j(2) set_take_subset_set_take [of "j - 1" j "sh_line s"] by (auto simp: typed_def)
    then show ?thesis using bs r j tl len
      by (intro disjI1) (auto simp: line_char_def sh_ready_def typed_def Let_def)
  next
    case nl
    define s' where "s' = s\<lparr>shell_skip_linefeed := c = CHR 0x0D\<rparr>"
    obtain k t where t: "shell_printf cm4 VNA_SHELL_NEWLINE_STR [] s' = Some (k, t)"
      using printf_newline [of s' cm4] wf by (auto simp: s'_def)
    note same = shell_printf_same [OF t]
    have l: "j < length (sh_line t)" using same wf j by (simp add: s'_def)
    have "cstr_at ((sh_line t)[j := NUL]) 0 = rev (typed j s)"
      using cstr_at_append [of "rev (typed j s)" "[]" "drop (j + 1) (sh_line t)"] j(2) l same
      by (simp add: typed_def s'_def upd_conv_take_nth_drop)
    moreover have "drop (nat n) ((sh_line t)[j := NUL]) = drop (nat n) (sh_line s)"
      using j same by (simp add: s'_def nat_less_iff)
    ultimately show ?thesis using nl t l same
      by (intro disjI2 exI [of _ "t\<lparr>sh_line := (sh_line t)[j := NUL]\<rparr>"])
        (auto simp: line_char_def Let_def mem_put_def s'_def)
  next
    case skip
    then show ?thesis using r j len
      by (intro disjI1) (auto simp: line_char_def sh_ready_def typed_def Let_def)
  next
    case store
    define t where "t = shell_write [c] (s\<lparr>shell_skip_linefeed := False\<rparr>)"
    have l: "j < length (sh_line t)" "sh_line t = sh_line s" using wf j by (auto simp: t_def)
    have "typed (j + 1) (t\<lparr>sh_line := (sh_line t)[j := c]\<rparr>) = c # typed j s"
      using l by (simp add: typed_def take_Suc_conv_app_nth)
    moreover have "drop (nat n) ((sh_line t)[j := c]) = drop (nat n) (sh_line s)"
      using j l by (simp add: nat_less_iff)
    moreover have "c \<noteq> NUL" using store by auto
    moreover have "sh_ready n (t\<lparr>sh_line := (sh_line t)[j := c]\<rparr>)" using wf by (simp add: sh_ready_def t_def)
    ultimately show ?thesis using store l j len
      by (intro disjI1 exI [of _ "j + 1"] exI [of _ "t\<lparr>sh_line := (sh_line t)[j := c]\<rparr>"])
        (auto simp: line_char_def Let_def mem_put_def t_def [symmetric], auto simp: t_def)
  qed
qed

lemma io_read_none:
  assumes "shell_io_read 1 s = ([], t)" "sh_stream s" "[] \<notin> set (sh_in s)"
  shows "sh_in s = []"
proof (rule ccontr)
  assume "sh_in s \<noteq> []"
  then obtain b bs where "sh_in s = b # bs" "b \<noteq> []" using assms(3) by (cases "sh_in s") auto
  then show False using assms(1,2)
    by (auto simp: shell_io_read_def read_loop.simps chn_read_timeout_def split: if_splits prod.splits)
qed

lemma io_read_bursts:
  assumes "shell_io_read 1 s = (cs, t)" "[] \<notin> set (sh_in s)"
  shows "[] \<notin> set (sh_in t)"
proof -
  have "[] \<notin> set (sh_in s) \<Longrightarrow> [] \<notin> set (sh_in (snd (read_loop n s)))" for n s
  proof (induction n s rule: read_loop.induct)
    case (1 n s)
    obtain chunk s1 where r: "chn_read_timeout n s = (chunk, s1)" by (cases "chn_read_timeout n s")
    obtain a s2 where c: "shell_check_connect s1 = (a, s2)" by (cases "shell_check_connect s1")
    have "[] \<notin> set (sh_in s1)" using "1.prems" r
      by (auto simp: chn_read_timeout_def split: list.splits if_splits)
    moreover have "sh_in s2 = sh_in s1" using c by (auto simp: shell_check_connect_def split: list.splits)
    ultimately show ?case
      using "1.IH"(1) [OF _ r [symmetric] _ c [symmetric]] "1.IH"(2) [OF _ r [symmetric]] "1.prems"
      by (cases "n = 0"; cases "chunk = []"; cases a) (auto simp: read_loop.simps [of n s] read_loop.simps [of 0 s] r c case_prod_beta)
  qed
  then show ?thesis using assms by (auto simp: shell_io_read_def split: if_splits) (metis snd_conv)
qed

lemma line_loop_edit:
  assumes "sh_ready n s" "int j < n" "NUL \<notin> set (typed j s)"
  shows "\<exists>r t used. line_loop cm4 n j s = Some (r, t) \<and> concat (sh_in s) = used @ concat (sh_in t) \<and>
    length (sh_line t) = length (sh_line s) \<and> drop (nat n) (sh_line t) = drop (nat n) (sh_line s) \<and>
    (if r = 1 then edit_line n (shell_skip_linefeed s) (typed j s) used = Some (cstr_at (sh_line t) 0, shell_skip_linefeed t, [])
     else r = 0 \<and> edit_line n (shell_skip_linefeed s) (typed j s) used = None \<and>
       ([] \<notin> set (sh_in s) \<longrightarrow> sh_in t = []))"
  using assms
proof (induction cm4 n j s rule: line_loop.induct)
  case (1 cm4 n j s)
  obtain cs t where r: "shell_io_read 1 s = (cs, t)" by (cases "shell_io_read 1 s")
  note io = io_read_one [OF r]
  have t: "sh_ready n t" "typed j t = typed j s" using "1.prems"(1) io by (auto simp: sh_ready_def typed_def)
  show ?case
  proof (cases "cs = []")
    case True
    then have l: "line_loop cm4 n j s = Some (0, t)" using r by (simp add: line_loop.simps [of cm4 n j s])
    have "[] \<notin> set (sh_in s) \<longrightarrow> sh_in t = []" 
    proof
      assume b: "[] \<notin> set (sh_in s)"
      then have "concat (sh_in t) = []" using io_read_none [of s t] r True "1.prems"(1) io(1) by (simp add: sh_ready_def)
      then show "sh_in t = []" using io_read_bursts [OF r b] by (cases "sh_in t") auto
    qed
    then show ?thesis using True io l by (intro exI [of _ 0] exI [of _ t] exI [of _ "[]"]) simp
  next
    case False
    then obtain c where c: "cs = [c]" using io(2) by (cases cs) auto
    have inp: "concat (sh_in s) = c # concat (sh_in t)" using io(1) c by simp
    from line_char_edit [OF t(1) "1.prems"(2), where c = c and ?cm4.0 = cm4] "1.prems"(3) t(2)
    consider (more) j' u where "line_char cm4 n c j t = Some (Line_More j' u)" "sh_ready n u" "int j' < n" "NUL \<notin> set (typed j' u)"
        "length (sh_line u) = length (sh_line t)" "drop (nat n) (sh_line u) = drop (nat n) (sh_line t)"
        "\<And>cs. edit_line n (shell_skip_linefeed t) (typed j t) (c # cs) = edit_line n (shell_skip_linefeed u) (typed j' u) cs"
      | (fin) u where "line_char cm4 n c j t = Some (Line_Done u)"
        "length (sh_line u) = length (sh_line t)" "drop (nat n) (sh_line u) = drop (nat n) (sh_line t)"
        "cstr_at (sh_line u) 0 = rev (typed j t)"
        "\<And>cs. edit_line n (shell_skip_linefeed t) (typed j t) (c # cs) = Some (rev (typed j t), shell_skip_linefeed u, cs)"
      by (auto simp: t(2))
    then show ?thesis
    proof cases
      case more
      have l: "line_loop cm4 n j s = line_loop cm4 n j' u" using r c more(1) by (simp add: line_loop.simps [of cm4 n j s])
      have i: "sh_in u = sh_in t" using line_char_input(1) [OF more(1)] .
      obtain k v used where v: "line_loop cm4 n j' u = Some (k, v)" "concat (sh_in u) = used @ concat (sh_in v)"
        "length (sh_line v) = length (sh_line u)" "drop (nat n) (sh_line v) = drop (nat n) (sh_line u)"
        "if k = 1 then edit_line n (shell_skip_linefeed u) (typed j' u) used = Some (cstr_at (sh_line v) 0, shell_skip_linefeed v, [])
         else k = 0 \<and> edit_line n (shell_skip_linefeed u) (typed j' u) used = None \<and> ([] \<notin> set (sh_in u) \<longrightarrow> sh_in v = [])"
        using "1.IH" [OF r [symmetric] False, of "Line_More j' u" j' u] more c by auto
      show ?thesis
        using v l i inp more io t(2) io_read_bursts [OF r]
        by (intro exI [of _ k] exI [of _ v] exI [of _ "c # used"]) (auto split: if_splits)
    next
      case fin
      have "line_loop cm4 n j s = Some (1, u)" using r c fin(1) by (simp add: line_loop.simps [of cm4 n j s])
      moreover have "sh_in u = sh_in t" using line_char_input(2) [OF fin(1)] .
      ultimately show ?thesis using inp fin io t(2)
        by (intro exI [of _ 1] exI [of _ u] exI [of _ "[c]"]) auto
    qed
  qed
qed

text \<open>
  C36 Whatever bursts, timeouts and write failures the channel produces,
  \<open>vna_shell_read_line\<close> returns the line a terminal user typed: the characters it consumed,
  with backspace and delete undone, control characters and the excess over \<open>max_size - 1\<close>
  dropped, ended by CR, LF or CR LF (the line feed of a CR LF is taken by the next call). It
  writes nothing behind \<open>max_size\<close>. It gives up only without a terminator, and then, unless
  a read timed out, after the last byte received.
\<close>

theorem read_line_edits:
  assumes "sh_ready n s"
  shows "\<exists>r t used. vna_shell_read_line cm4 n s = Some (r, t) \<and> concat (sh_in s) = used @ concat (sh_in t) \<and>
    length (sh_line t) = length (sh_line s) \<and> drop (nat n) (sh_line t) = drop (nat n) (sh_line s) \<and>
    (if r = 1 then edit_line n (shell_skip_linefeed s) [] used = Some (cstr_at (sh_line t) 0, shell_skip_linefeed t, [])
     else r = 0 \<and> edit_line n (shell_skip_linefeed s) [] used = None \<and> ([] \<notin> set (sh_in s) \<longrightarrow> sh_in t = []))"
proof -
  have t: "typed 0 s = []" and p: "int 0 < n" "NUL \<notin> set (typed 0 s)" using assms by (simp_all add: typed_def sh_ready_def)
  show ?thesis using line_loop_edit [OF assms p, of cm4] unfolding t vna_shell_read_line_def .
qed

definition sh_demo :: shell_service where
  "sh_demo = \<lparr>sh_in = [''infox'', [CHR 0x08, CHR 0x0D], [CHR 0x0A]], sh_room = [64, 64, 64], sh_polls = [True, True],
     sh_out = [], sh_stream = True, sh_print_buffer = replicate 96 NUL, shell_session_active = True,
     shell_session_start_cb = Some 7, shell_session_stop_cb = Some 8, shell_skip_linefeed = False,
     command_table = Some [\<lparr>sc_name = ''scan'', sc_function = 3, sc_flags = 3\<rparr>, \<lparr>sc_name = ''info'', sc_function = 5, sc_flags = 0\<rparr>],
     sh_line = replicate 64 NUL, sh_args = replicate 5 0, pending_command = None, pending_argc = 0, pending_argv = False,
     shell_auto_resume = False, sh_waiting = False, sh_bus = None, sh_bus_calls = [], sh_log = []\<rparr>"

lemma edit_line_example: "edit_line 64 False [] (''infox'' @ [CHR 0x08, CHR 0x0D]) = Some (''info'', True, [])"
  by code_simp

theorem read_line_edits_witness:
  "\<exists>r t used. vna_shell_read_line True 64 sh_demo = Some (r, t) \<and>
     ''infox'' @ [CHR 0x08, CHR 0x0D, CHR 0x0A] = used @ concat (sh_in t) \<and> length (sh_line t) = 64 \<and>
     (r = 1 \<longrightarrow> edit_line 64 False [] used = Some (cstr_at (sh_line t) 0, shell_skip_linefeed t, []))"
proof -
  have "sh_ready 64 sh_demo" by (simp add: sh_ready_def sh_demo_def)
  from read_line_edits [OF this, of True] obtain r t used where
    "vna_shell_read_line True 64 sh_demo = Some (r, t)" "concat (sh_in sh_demo) = used @ concat (sh_in t)"
    "length (sh_line t) = length (sh_line sh_demo)"
    "if r = 1 then edit_line 64 (shell_skip_linefeed sh_demo) [] used = Some (cstr_at (sh_line t) 0, shell_skip_linefeed t, [])
     else r = 0 \<and> edit_line 64 (shell_skip_linefeed sh_demo) [] used = None \<and> ([] \<notin> set (sh_in sh_demo) \<longrightarrow> sh_in t = [])"
    by blast
  then have "vna_shell_read_line True 64 sh_demo = Some (r, t) \<and>
     ''infox'' @ [CHR 0x08, CHR 0x0D, CHR 0x0A] = used @ concat (sh_in t) \<and> length (sh_line t) = 64 \<and>
     (r = 1 \<longrightarrow> edit_line 64 False [] used = Some (cstr_at (sh_line t) 0, shell_skip_linefeed t, []))"
    by (auto simp: sh_demo_def split: if_splits)
  then show ?thesis by blast
qed

section \<open>Writing and sessions\<close>

text \<open>The callbacks a sequence of polls causes, from a session that is \<open>active\<close>.\<close>

fun session_edges :: "bool \<Rightarrow> bool list \<Rightarrow> bool list" where
  "session_edges active [] = []"
| "session_edges active (p # ps) = (if p = active then session_edges p ps else p # session_edges p ps)"

definition session_events :: "nat option \<Rightarrow> nat option \<Rightarrow> bool list \<Rightarrow> shell_event list" where
  "session_events start stop es =
     concat (map (\<lambda>e. if e then (case start of None \<Rightarrow> [] | Some cb \<Rightarrow> [Session_Start cb])
                      else (case stop of None \<Rightarrow> [] | Some cb \<Rightarrow> [Session_Stop cb])) es)"

lemma session_edges_append:
  "session_edges a (ps @ qs) = session_edges a ps @ session_edges (last (a # ps)) qs"
  by (induction ps arbitrary: a) auto

lemma session_edges_alternate:
  "i < length (session_edges a ps) \<Longrightarrow> session_edges a ps ! i = (if even i then \<not> a else a)"
proof (induction ps arbitrary: a i)
  case (Cons p ps)
  then show ?case by (cases i) (auto split: if_splits)
qed simp

text \<open>The polls a call made: a piece of the script, with \<open>False\<close> when it went past the end.\<close>

definition polled :: "bool list \<Rightarrow> shell_service \<Rightarrow> shell_service \<Rightarrow> bool" where
  "polled ps s t \<longleftrightarrow> take (length ps) (sh_polls s @ [False]) = ps \<and> sh_polls t = drop (length ps) (sh_polls s)"

definition session_step :: "bool list \<Rightarrow> shell_service \<Rightarrow> shell_service \<Rightarrow> bool" where
  "session_step ps s t \<longleftrightarrow> polled ps s t \<and> shell_session_active t = last (shell_session_active s # ps) \<and>
     shell_session_start_cb t = shell_session_start_cb s \<and> shell_session_stop_cb t = shell_session_stop_cb s \<and>
     sh_log t = sh_log s @ session_events (shell_session_start_cb s) (shell_session_stop_cb s)
       (session_edges (shell_session_active s) ps)"

lemma session_step_refl: "sh_polls t = sh_polls s \<Longrightarrow> shell_session_active t = shell_session_active s \<Longrightarrow>
    shell_session_start_cb t = shell_session_start_cb s \<Longrightarrow> shell_session_stop_cb t = shell_session_stop_cb s \<Longrightarrow>
    sh_log t = sh_log s \<Longrightarrow> session_step [] s t"
  by (simp add: session_step_def polled_def session_events_def)

lemma polled_trans:
  assumes "polled ps s t" "polled qs t u" "length ps \<le> length (sh_polls s)"
  shows "polled (ps @ qs) s u"
proof -
  have "take (length (ps @ qs)) (sh_polls s @ [False]) =
      take (length ps) (sh_polls s @ [False]) @ take (length qs) (drop (length ps) (sh_polls s @ [False]))"
    unfolding length_append by (rule take_add)
  also have "\<dots> = ps @ take (length qs) (sh_polls t @ [False])" using assms by (simp add: polled_def)
  finally show ?thesis using assms by (simp add: polled_def add.commute)
qed

lemma session_step_trans:
  assumes "session_step ps s t" "session_step qs t u" "length ps \<le> length (sh_polls s)"
  shows "session_step (ps @ qs) s u"
  using assms polled_trans [of ps s t qs u] unfolding session_step_def
  by (cases qs) (simp_all add: session_edges_append session_events_def)

lemma check_connect_effect:
  assumes "shell_check_connect s = (a, t)"
  shows "session_step [a] s t \<and> sh_out t = sh_out s \<and> sh_room t = sh_room s \<and> sh_in t = sh_in s \<and>
    sh_stream t = sh_stream s \<and> (a \<longrightarrow> sh_polls s \<noteq> [])"
  using assms
  by (cases "sh_polls s")
    (auto simp: shell_check_connect_def shell_handle_session_transition_def log_event_def session_events_def
      session_step_def polled_def Let_def split: option.splits)

lemma write_loop_effect:
  "\<exists>ps k. session_step ps s (snd (write_loop buf s)) \<and>
    sh_out (snd (write_loop buf s)) = sh_out s @ take k buf \<and> k \<le> length buf \<and>
    (if fst (write_loop buf s) then k = length buf \<and> False \<notin> set ps
     else k < length buf \<and> ps \<noteq> [] \<and> \<not> last ps \<and> False \<notin> set (butlast ps))"
proof (induction buf s rule: write_loop.induct)
  case (1 buf s)
  show ?case
  proof (cases "buf = []")
    case True
    then show ?thesis by (intro exI [of _ "[]"] exI [of _ 0]) (simp add: write_loop.simps session_step_refl)
  next
    case False
    obtain sent s1 where w: "chn_write_timeout buf s = (sent, s1)" by (cases "chn_write_timeout buf s")
    then have s1: "sh_out s1 = sh_out s @ take sent buf" "sent \<le> length buf" "session_step [] s s1" "sh_polls s1 = sh_polls s"
      by (auto simp: chn_write_timeout_def min_def split: list.splits if_splits intro: session_step_refl)
    show ?thesis
    proof (cases "sent > 0")
      case True
      obtain ps k where ih: "session_step ps s1 (snd (write_loop (drop sent buf) s1))"
        "sh_out (snd (write_loop (drop sent buf) s1)) = sh_out s1 @ take k (drop sent buf)" "k \<le> length (drop sent buf)"
        "if fst (write_loop (drop sent buf) s1) then k = length (drop sent buf) \<and> False \<notin> set ps
         else k < length (drop sent buf) \<and> ps \<noteq> [] \<and> \<not> last ps \<and> False \<notin> set (butlast ps)"
        using "1.IH"(1) [OF False w [symmetric] True] by blast
      have l: "write_loop buf s = write_loop (drop sent buf) s1" using w False True by (simp add: write_loop.simps [of buf s])
      show ?thesis unfolding l
        using session_step_trans [OF s1(3) ih(1)] ih s1
        by (intro exI [of _ ps] exI [of _ "sent + k"]) (auto simp: take_add split: if_splits)
    next
      case none: False
      obtain a s2 where c: "shell_check_connect s1 = (a, s2)" by (cases "shell_check_connect s1")
      note e = check_connect_effect [OF c]
      have step: "session_step [a] s s2" using session_step_trans [OF s1(3)] e by simp
      show ?thesis
      proof (cases a)
        case True
        obtain ps k where ih: "session_step ps s2 (snd (write_loop buf s2))"
          "sh_out (snd (write_loop buf s2)) = sh_out s2 @ take k buf" "k \<le> length buf"
          "if fst (write_loop buf s2) then k = length buf \<and> False \<notin> set ps
           else k < length buf \<and> ps \<noteq> [] \<and> \<not> last ps \<and> False \<notin> set (butlast ps)"
          using "1.IH"(2) [OF False w [symmetric] none c [symmetric] True] by blast
        have l: "write_loop buf s = write_loop buf s2" using w False none c True by (simp add: write_loop.simps [of buf s])
        show ?thesis unfolding l
          using session_step_trans [OF step ih(1)] ih s1 e none True
          by (intro exI [of _ "True # ps"] exI [of _ k]) (cases "sh_polls s", auto split: if_splits)
      next
        case False
        then show ?thesis using step w c none e s1 \<open>buf \<noteq> []\<close>
          by (intro exI [of _ "[False]"] exI [of _ 0]) (simp add: write_loop.simps [of buf s])
      qed
    qed
  qed
qed

text \<open>
  \<open>shell_io_write\<close> sends the whole buffer, in order and once, or stops
  after a prefix because a poll found the port gone; it never stops while the polls find it
  there. Each poll on the way moves the session, and the callbacks called are exactly the
  edges of the polled sequence: start and stop calls alternate.
\<close>

theorem io_write_or_hangup:
  assumes "sh_stream s" "shell_session_start_cb s = Some a" "shell_session_stop_cb s = Some b"
  shows "\<exists>ps k es. shell_io_write buf s = (k = length buf, snd (shell_io_write buf s)) \<and>
    sh_out (snd (shell_io_write buf s)) = sh_out s @ take k buf \<and>
    ps = take (length ps) (sh_polls s @ [False]) \<and>
    (if k = length buf then False \<notin> set ps else ps \<noteq> [] \<and> \<not> last ps \<and> False \<notin> set (butlast ps)) \<and>
    shell_session_active (snd (shell_io_write buf s)) = last (shell_session_active s # ps) \<and>
    sh_log (snd (shell_io_write buf s)) = sh_log s @ map (\<lambda>e. if e then Session_Start a else Session_Stop b) es \<and>
    (\<forall>i < length es. es ! i = (if even i then \<not> shell_session_active s else shell_session_active s))"
proof -
  obtain ps k where e: "session_step ps s (snd (write_loop buf s))"
    "sh_out (snd (write_loop buf s)) = sh_out s @ take k buf" "k \<le> length buf"
    "if fst (write_loop buf s) then k = length buf \<and> False \<notin> set ps
     else k < length buf \<and> ps \<noteq> [] \<and> \<not> last ps \<and> False \<notin> set (butlast ps)"
    using write_loop_effect by blast
  have ev: "session_events (Some a) (Some b) es = map (\<lambda>e. if e then Session_Start a else Session_Stop b) es" for es
    by (induction es) (auto simp: session_events_def)
  have w: "shell_io_write buf s = write_loop buf s" using assms(1) by (simp add: shell_io_write_def)
  have f: "fst (write_loop buf s) = (k = length buf)" using e(3,4) by (simp split: if_splits)
  note st = e(1) [unfolded session_step_def polled_def]
  show ?thesis unfolding w
  proof (rule exI [of _ ps], rule exI [of _ k], rule exI [of _ "session_edges (shell_session_active s) ps"], intro conjI allI impI)
    show "write_loop buf s = (k = length buf, snd (write_loop buf s))" using f by (cases "write_loop buf s") simp
    show "if k = length buf then False \<notin> set ps else ps \<noteq> [] \<and> \<not> last ps \<and> False \<notin> set (butlast ps)"
      using e(4) f by (simp split: if_splits)
    show "sh_log (snd (write_loop buf s)) = sh_log s @
        map (\<lambda>e. if e then Session_Start a else Session_Stop b) (session_edges (shell_session_active s) ps)"
      using st assms ev by simp
  qed (use e st session_edges_alternate in auto)
qed

theorem io_write_or_hangup_witness:
  "\<exists>k. shell_io_write ''hello'' (sh_demo\<lparr>sh_room := [2, 0]\<rparr>) =
      (k = 5, snd (shell_io_write ''hello'' (sh_demo\<lparr>sh_room := [2, 0]\<rparr>))) \<and>
     sh_out (snd (shell_io_write ''hello'' (sh_demo\<lparr>sh_room := [2, 0]\<rparr>))) = take k ''hello''"
proof -
  have "sh_stream (sh_demo\<lparr>sh_room := [2, 0]\<rparr>)" "shell_session_start_cb (sh_demo\<lparr>sh_room := [2, 0]\<rparr>) = Some 7"
    "shell_session_stop_cb (sh_demo\<lparr>sh_room := [2, 0]\<rparr>) = Some 8" and o: "sh_out (sh_demo\<lparr>sh_room := [2, 0]\<rparr>) = []"
    and l: "length ''hello'' = 5"
    by (simp_all add: sh_demo_def)
  from io_write_or_hangup [OF this(1-3), of "''hello''"] show ?thesis unfolding o l append_Nil by blast
qed

section \<open>Parsing and running commands\<close>

fun find_command :: "vna_shell_command list \<Rightarrow> string \<Rightarrow> vna_shell_command option" where
  "find_command [] name = None"
| "find_command (cmd # cmds) name =
     (if get_str_index (sc_name cmd) name = 0 then Some cmd else find_command cmds name)"

text \<open>
  \<open>shell_parse_command\<close> on the caller's line: the command, the argument count, whether
  \<open>*argv\<close> is set, and the name's offset. \<open>parse_line\<close> fills the first slots of
  \<open>shell_args\<close> only; \<open>None\<close> is an access outside the line.
\<close>

definition shell_parse_command :: "bool \<Rightarrow> shell_service \<Rightarrow>
    (vna_shell_command option \<times> nat \<times> bool \<times> nat option \<times> shell_service) option" where
  "shell_parse_command cm4 s =
     (case parse_line (sh_line s) (int VNA_SHELL_MAX_ARGUMENTS + 1) of
        None \<Rightarrow> None
      | Some (line, offs) \<Rightarrow>
        let s = s\<lparr>sh_line := line, sh_args := offs @ drop (length offs) (sh_args s)\<rparr> in
        if length offs > VNA_SHELL_MAX_ARGUMENTS + 1
        then map_option (\<lambda>(_, s). (None, 0, False, None, s))
               (shell_printf cm4 (''too many arguments, max 4'' @ VNA_SHELL_NEWLINE_STR) [] s)
        else if offs = [] then Some (None, 0, False, None, s)
        else Some (case command_table s of None \<Rightarrow> None | Some table \<Rightarrow> find_command table (cstr_at line (hd offs)),
                   length offs - 1, True, Some (hd offs), s))"

text \<open>What a command function finds in \<open>argv\<close> when it is called.\<close>

definition argv_strings :: "nat \<Rightarrow> shell_service \<Rightarrow> string list" where
  "argv_strings argc s = map (cstr_at (sh_line s)) (take argc (tl (sh_args s)))"

definition run_command :: "vna_shell_command \<Rightarrow> nat \<Rightarrow> shell_service \<Rightarrow> shell_service" where
  "run_command cmd argc s = log_event (Run_Command (sc_function cmd) (argv_strings argc s)) s"

text \<open>The part before the wait in \<open>shell_request_deferred_execution\<close>, and the part after it.\<close>

definition request_begin :: "vna_shell_command \<Rightarrow> nat \<Rightarrow> bool \<Rightarrow> shell_service \<Rightarrow> shell_service" where
  "request_begin command argc argv s =
     s\<lparr>pending_command := Some command, pending_argc := argc, pending_argv := argv, sh_waiting := True\<rparr>"

definition request_end :: "shell_service \<Rightarrow> shell_service" where
  "request_end s =
     (case sh_bus s of
        None \<Rightarrow> s
      | Some bus \<Rightarrow> (case event_bus_publish bus EVENT_USB_COMMAND_PENDING 0 of
          (_, bus, calls) \<Rightarrow> s\<lparr>sh_bus := Some bus, sh_bus_calls := sh_bus_calls s @ calls\<rparr>))"

text \<open>The first critical section of a round, the command, and the wake-up of the waiting thread.\<close>

definition service_take :: "shell_service \<Rightarrow> (vna_shell_command \<times> nat) option \<times> shell_service" where
  "service_take s =
     (case pending_command s of
        None \<Rightarrow> (None, s)
      | Some command \<Rightarrow> (Some (command, pending_argc s), s\<lparr>pending_command := None\<rparr>))"

definition service_run :: "vna_shell_command \<Rightarrow> nat \<Rightarrow> shell_service \<Rightarrow> shell_service" where
  "service_run command argc s =
     (let s = (if sc_flags command AND CMD_BREAK_SWEEP \<noteq> 0 \<or> sc_flags command AND CMD_WAIT_MUTEX \<noteq> 0
               then log_event Pause_Sweep s else s);
          s = run_command command argc s
      in if shell_auto_resume s
         then (if sc_flags command AND CMD_NO_AUTO_RESUME = 0 then log_event Resume_Sweep s else s)
                \<lparr>shell_auto_resume := False\<rparr>
         else s)"

definition service_wake :: "shell_service \<Rightarrow> shell_service" where
  "service_wake s = s\<lparr>sh_waiting := False\<rparr>"

lemma service_clears [simp]:
  "pending_command (service_wake s) = pending_command s" "pending_command (log_event e s) = pending_command s"
  "pending_command (service_run c n s) = pending_command s"
  by (simp_all add: service_wake_def log_event_def service_run_def run_command_def Let_def)

function shell_service_pending_commands :: "shell_service \<Rightarrow> shell_service" where
  "shell_service_pending_commands s =
     (case service_take s of
        (None, s) \<Rightarrow> s
      | (Some (command, argc), s) \<Rightarrow> shell_service_pending_commands (service_wake (service_run command argc s)))"
  by pat_completeness auto
termination
  by (relation "measure (\<lambda>s. if pending_command s = None then 0 else 1)")
    (auto simp: service_take_def split: option.splits)

declare shell_service_pending_commands.simps [simp del]

definition shell_on_event :: "event_bus_message \<Rightarrow> shell_service \<Rightarrow> shell_service" where
  "shell_on_event message s =
     (if msg_topic message \<noteq> EVENT_USB_COMMAND_PENDING then s else shell_service_pending_commands s)"

definition vna_shell_execute_cmd_line :: "bool \<Rightarrow> char list \<Rightarrow> shell_service \<Rightarrow> shell_service option" where
  "vna_shell_execute_cmd_line cm4 line s =
     (let previous = sh_stream s
      in case shell_parse_command cm4 (s\<lparr>sh_line := line, sh_stream := False\<rparr>) of
           None \<Rightarrow> None
         | Some (cmd, argc, argv, name, s) \<Rightarrow>
           let s = (case cmd of
                      None \<Rightarrow> s
                    | Some cmd \<Rightarrow> if sc_flags cmd AND CMD_RUN_IN_LOAD \<noteq> 0 then run_command cmd argc s else s);
               s = s\<lparr>sh_stream := previous\<rparr>
           in Some (if sh_stream s then s else shell_restore_stream s))"

section \<open>Dispatch\<close>

lemma find_command_first:
  "find_command cmds name =
    (case filter (\<lambda>c. sc_name c = hd (split_bar name)) cmds of [] \<Rightarrow> None | c # _ \<Rightarrow> Some c)"
proof (induction cmds)
  case (Cons c cmds)
  obtain y ys where sb: "split_bar name = y # ys" by (simp add: split_bar.simps [of name])
  have "get_str_index (sc_name c) name = 0 \<longleftrightarrow> sc_name c = y"
    using gsi_loop_eq [of 0 "sc_name c" name] first_index_ge [of "sc_name c" ys] sb by (auto simp: get_str_index_def Let_def)
  then show ?case using Cons sb by simp
qed simp

definition dispatch :: "shell_service \<Rightarrow> string \<Rightarrow> vna_shell_command option" where
  "dispatch s name =
     (case command_table s of
        None \<Rightarrow> None
      | Some table \<Rightarrow> (case filter (\<lambda>c. sc_name c = hd (split_bar name)) table of [] \<Rightarrow> None | c # _ \<Rightarrow> Some c))"

lemma parse_command_words:
  assumes "sh_line s = line @ NUL # rest" "\<forall>c \<in> set line. plain_char c" "length (sh_args s) = 5"
  shows "\<exists>t offs. shell_parse_command cm4 s =
      Some (if words line = [] then (None, 0, False, None, s\<lparr>sh_line := t\<rparr>)
            else (dispatch s (hd (words line)), length offs - 1, True, Some (hd offs),
              s\<lparr>sh_line := t, sh_args := offs @ drop (length offs) (sh_args s)\<rparr>)) \<and>
    length t = length (sh_line s) \<and> length offs = min 5 (length (words line)) \<and>
    map (cstr_at t) offs = take 5 (words line)"
proof -
  obtain t offs where p: "parse_line (line @ NUL # rest) 5 = Some (t @ NUL # rest, offs)" "length t = length line"
    "map (cstr_at (t @ NUL # rest)) offs = take 5 (words line)"
    using splits_plain [OF assms(2), of 5 rest "[]" "[]"] by (auto simp: splits_def parse_line_def)
  have len: "length offs = min 5 (length (words line))" using arg_cong [OF p(3), of length] by simp
  then have e: "offs = [] \<longleftrightarrow> words line = []" by (cases "words line") auto
  have "cstr_at (t @ NUL # rest) (hd offs) = hd (words line)" if "words line \<noteq> []"
    using p(3) that e by (cases offs; cases "words line") auto
  then show ?thesis
    using p len e assms
    by (intro exI [of _ "t @ NUL # rest"] exI [of _ offs])
      (auto simp: shell_parse_command_def VNA_SHELL_MAX_ARGUMENTS_def Let_def find_command_first dispatch_def
        split: option.splits)
qed

lemma command_dispatch_aux:
  assumes "sh_line s = line @ NUL # rest" "\<forall>c \<in> set line. plain_char c" "length (sh_args s) = 5"
  shows "\<exists>cmd argc argv name t. shell_parse_command cm4 s = Some (cmd, argc, argv, name, t) \<and>
    (case words line of
       [] \<Rightarrow> cmd = None \<and> argc = 0 \<and> \<not> argv \<and> name = None
     | w # ws \<Rightarrow> cmd = dispatch s w \<and> argv \<and> argc = min 4 (length ws) \<and> argv_strings argc t = take 4 ws \<and>
         map_option (cstr_at (sh_line t)) name = Some w)"
proof -
  obtain t offs where p: "shell_parse_command cm4 s =
      Some (if words line = [] then (None, 0, False, None, s\<lparr>sh_line := t\<rparr>)
            else (dispatch s (hd (words line)), length offs - 1, True, Some (hd offs),
              s\<lparr>sh_line := t, sh_args := offs @ drop (length offs) (sh_args s)\<rparr>))"
    "length offs = min 5 (length (words line))" "map (cstr_at t) offs = take 5 (words line)"
    using parse_command_words [OF assms] by blast
  show ?thesis
  proof (cases "words line")
    case Nil
    then show ?thesis using p by (auto intro: exI [of _ False])
  next
    case (Cons w ws)
    then obtain o1 os where o: "offs = o1 # os" "cstr_at t o1 = w" "map (cstr_at t) os = take 4 ws"
      using p(3) by (cases offs) auto
    then have "length os = min 4 (length ws)" by (metis length_map length_take min.commute)
    then show ?thesis using p Cons o by (auto simp: argv_strings_def intro: exI [of _ True])
  qed
qed

text \<open>
  On a line without quotes \<open>shell_parse_command\<close> takes the words of the
  line: the command is the first entry of the table whose name is the first word up to a
  bar, and a command function called with the returned count finds the following words, at
  most four, as its arguments. A blank line gives no command and clears \<open>argc\<close> and \<open>argv\<close>.
\<close>

theorem command_dispatch:
  assumes "sh_line s = line @ NUL # rest" "\<forall>c \<in> set line. plain_char c" "length (sh_args s) = 5"
  shows "\<exists>cmd argc argv name t. shell_parse_command cm4 s = Some (cmd, argc, argv, name, t) \<and>
    (case words line of
       [] \<Rightarrow> cmd = None \<and> argc = 0 \<and> \<not> argv \<and> name = None
     | w # ws \<Rightarrow> cmd = dispatch s w \<and> argv \<and> argc = min 4 (length ws) \<and> argv_strings argc t = take 4 ws \<and>
         map_option (cstr_at (sh_line t)) name = Some w)"
  using command_dispatch_aux [OF assms] .

theorem command_dispatch_witness:
  "\<exists>cmd argc argv name t. shell_parse_command True (sh_demo\<lparr>sh_line := ''info 1 2'' @ NUL # replicate 5 NUL\<rparr>) =
     Some (cmd, argc, argv, name, t) \<and> map_option sc_function cmd = Some 5 \<and> argc = 2 \<and> argv_strings argc t = [''1'', ''2'']"
proof -
  define d where "d = sh_demo\<lparr>sh_line := ''info 1 2'' @ NUL # replicate 5 NUL\<rparr>"
  have w: "words ''info 1 2'' = [''info'', ''1'', ''2'']" by code_simp
  have m: "map_option sc_function (dispatch d ''info'') = Some 5"
    by (simp add: d_def dispatch_def sh_demo_def split_bar.simps [of "''info''"])
  have h: "sh_line d = ''info 1 2'' @ NUL # replicate 5 NUL" "\<forall>c \<in> set ''info 1 2''. plain_char c" "length (sh_args d) = 5"
    by (simp_all add: d_def sh_demo_def plain_char_def)
  from command_dispatch [OF h, of True] obtain cmd argc argv name t where
    "shell_parse_command True d = Some (cmd, argc, argv, name, t)" "cmd = dispatch d ''info''" "argc = 2"
    "argv_strings argc t = [''1'', ''2'']"
    unfolding w by (auto simp: eval_nat_numeral)
  with m show ?thesis unfolding d_def [symmetric] by (intro exI [of _ cmd] exI [of _ argc] exI [of _ argv] exI [of _ name] exI [of _ t]) simp
qed

text \<open>
  The commands a service round runs: the pending one, once, between a pause for the
  commands that need the sweep stopped and a resume where the shell asked for one.
\<close>

lemma service_pending_eq:
  "shell_service_pending_commands s =
    (case pending_command s of
       None \<Rightarrow> s
     | Some c \<Rightarrow> service_wake (service_run c (pending_argc s) (s\<lparr>pending_command := None\<rparr>)))"
proof (cases "pending_command s")
  case None
  then show ?thesis by (simp add: shell_service_pending_commands.simps [of s] service_take_def)
next
  case (Some c)
  let ?t = "service_wake (service_run c (pending_argc s) (s\<lparr>pending_command := None\<rparr>))"
  have "shell_service_pending_commands s = shell_service_pending_commands ?t"
    using Some by (simp add: shell_service_pending_commands.simps [of s] service_take_def)
  also have "\<dots> = ?t" by (simp add: shell_service_pending_commands.simps [of ?t] service_take_def)
  finally show ?thesis using Some by simp
qed

text \<open>
  A deferred command whose request is still waited for runs once, in
  the servicing thread, with the words of its line; the sweep is paused first when its flags
  say so and resumed afterwards when the shell recorded a running sweep and the command
  allows it, and the waiting thread is woken. A second service finds nothing to do.
\<close>

theorem deferred_command_runs:
  assumes "sh_line s = line @ NUL # rest" "\<forall>c \<in> set line. plain_char c" "length (sh_args s) = 5"
    and "words line = w # ws" "dispatch s w = Some c"
    and "shell_parse_command cm4 s = Some (cmd, argc, argv, name, t)"
    and "u = shell_service_pending_commands (request_begin c argc argv t)"
  shows "sh_log u = sh_log s @
      (if sc_flags c AND (CMD_BREAK_SWEEP OR CMD_WAIT_MUTEX) \<noteq> 0 then [Pause_Sweep] else []) @
      [Run_Command (sc_function c) (take 4 ws)] @
      (if shell_auto_resume s \<and> sc_flags c AND CMD_NO_AUTO_RESUME = 0 then [Resume_Sweep] else []) \<and>
    \<not> sh_waiting u \<and> \<not> shell_auto_resume u \<and> shell_service_pending_commands u = u"
proof -
  obtain cmd' argc' argv' name' t' where d: "shell_parse_command cm4 s = Some (cmd', argc', argv', name', t')"
    "argv_strings argc' t' = take 4 ws"
    using command_dispatch_aux [OF assms(1-3), of cm4] assms(4) by auto
  have t: "argv_strings argc t = take 4 ws" "sh_log t = sh_log s" "shell_auto_resume t = shell_auto_resume s"
    using d assms(6) parse_command_words [OF assms(1-3), of cm4] by (auto split: if_splits)
  have fl: "sc_flags c AND (CMD_BREAK_SWEEP OR CMD_WAIT_MUTEX) \<noteq> 0 \<longleftrightarrow>
      sc_flags c AND CMD_BREAK_SWEEP \<noteq> 0 \<or> sc_flags c AND CMD_WAIT_MUTEX \<noteq> 0"
    by (simp add: bit.conj_disj_distrib or_eq_0_iff)
  have a: "argv_strings argc (s'\<lparr>pending_command := x, pending_argc := y, pending_argv := z, sh_waiting := v\<rparr>) = argv_strings argc s'"
    "argv_strings argc (log_event e s') = argv_strings argc s'" "argv_strings argc (s'\<lparr>pending_command := x\<rparr>) = argv_strings argc s'"
    for s' x y z v e by (simp_all add: argv_strings_def log_event_def)
  have u: "u = service_wake (service_run c argc (t\<lparr>pending_argc := argc, pending_argv := argv, sh_waiting := True, pending_command := None\<rparr>))"
    by (simp add: assms(7) service_pending_eq request_begin_def)
  show ?thesis
    unfolding u fl using t
    by (auto simp: service_run_def service_wake_def run_command_def Let_def service_pending_eq argv_strings_def log_event_def)
qed

definition scan_command :: vna_shell_command where
  "scan_command = \<lparr>sc_name = ''scan'', sc_function = 3, sc_flags = 3\<rparr>"

definition typed_at :: "string \<Rightarrow> shell_service \<Rightarrow> shell_service" where
  "typed_at line s = s\<lparr>sh_line := line @ NUL # replicate (63 - length line) NUL\<rparr>"

theorem deferred_command_runs_witness:
  "\<exists>cmd argc argv name t. shell_parse_command True (typed_at ''scan 100 200'' sh_demo) = Some (cmd, argc, argv, name, t) \<and>
     sh_log (shell_service_pending_commands (request_begin scan_command argc argv t)) =
       [Pause_Sweep, Run_Command 3 [''100'', ''200'']]"
proof -
  define d where "d = typed_at ''scan 100 200'' sh_demo"
  have w: "words ''scan 100 200'' = [''scan'', ''100'', ''200'']" by code_simp
  have h: "sh_line d = ''scan 100 200'' @ NUL # replicate 51 NUL" "\<forall>c \<in> set ''scan 100 200''. plain_char c" "length (sh_args d) = 5"
    by (simp_all add: d_def sh_demo_def plain_char_def typed_at_def)
  have m: "dispatch d ''scan'' = Some scan_command"
    by (simp add: d_def dispatch_def sh_demo_def typed_at_def scan_command_def split_bar.simps [of "''scan''"])
  obtain cmd argc argv name t where p: "shell_parse_command True d = Some (cmd, argc, argv, name, t)"
    using command_dispatch_aux [OF h, of True] by blast
  from deferred_command_runs [OF h w m p refl]
  have "sh_log (shell_service_pending_commands (request_begin scan_command argc argv t)) =
       [Pause_Sweep, Run_Command 3 [''100'', ''200'']]"
    by (simp add: scan_command_def CMD_BREAK_SWEEP_def CMD_WAIT_MUTEX_def d_def typed_at_def sh_demo_def)
  then show ?thesis using p unfolding d_def by blast
qed

text \<open>
  The arguments are looked up when the command runs, through the static
  \<open>shell_args\<close> and the line buffer. When the wait of the request times out, the prompt comes
  back and the next line, even a blank or unknown one, replaces them: the pending scan then
  runs with that line's words. Publishing \<open>EVENT_USB_COMMAND_PENDING\<close> only after the wait
  cannot help, since by then the command has run or the wait was given up.
\<close>

theorem stale_arguments:
  "\<exists>argc t u v. shell_parse_command True (typed_at ''scan 100 200'' sh_demo) = Some (Some scan_command, argc, True, Some 0, t) \<and>
     u = request_end (shell_wake_all_waiting_threadsI (request_begin scan_command argc True t)) \<and>
     shell_parse_command True (typed_at ''help 7 8 9'' u) = Some (None, 3, True, Some 0, v) \<and>
     sh_log (shell_service_pending_commands v) = [Pause_Sweep, Run_Command 3 [''7'', ''8'']]"
proof -
  define t where "t = (sh_demo\<lparr>sh_line := ''scan'' @ NUL # ''100'' @ NUL # ''200'' @ NUL # replicate 51 NUL, sh_args := [0, 5, 9, 0, 0]\<rparr>)"
  define u where "u = request_end (shell_wake_all_waiting_threadsI (request_begin scan_command 2 True t))"
  have f1: "find_command [\<lparr>sc_name = ''scan'', sc_function = 3, sc_flags = 3\<rparr>, \<lparr>sc_name = ''info'', sc_function = 5, sc_flags = 0\<rparr>] ''scan'' = Some scan_command"
    by (simp add: find_command_first split_bar.simps [of "''scan''"] scan_command_def)
  have f2: "find_command [\<lparr>sc_name = ''scan'', sc_function = 3, sc_flags = 3\<rparr>, \<lparr>sc_name = ''info'', sc_function = 5, sc_flags = 0\<rparr>] ''help'' = None"
    by (simp add: find_command_first split_bar.simps [of "''help''"])
  have p1: "parse_line (''scan 100 200'' @ NUL # replicate 51 NUL) 5 =
      Some (''scan'' @ NUL # ''100'' @ NUL # ''200'' @ NUL # replicate 51 NUL, [0, 5, 9])" by code_simp
  have p2: "parse_line (''help 7 8 9'' @ NUL # replicate 53 NUL) 5 =
      Some (''help'' @ NUL # ''7'' @ NUL # ''8'' @ NUL # ''9'' @ NUL # replicate 53 NUL, [0, 5, 7, 9])" by code_simp
  have z: "replicate 2 (0 :: nat) = [0, 0]" by (simp add: eval_nat_numeral)
  have 1: "shell_parse_command True (typed_at ''scan 100 200'' sh_demo) = Some (Some scan_command, 2, True, Some 0, t)"
    using p1 f1 by (simp add: shell_parse_command_def typed_at_def VNA_SHELL_MAX_ARGUMENTS_def t_def cstr_at_def sh_demo_def z)
  have u: "sh_args u = [0, 5, 9, 0, 0]" "command_table u = command_table sh_demo" "pending_command u = Some scan_command"
    "pending_argc u = 2" "sh_log u = []" "shell_auto_resume u = False"
    by (simp_all add: u_def request_end_def shell_wake_all_waiting_threadsI_def request_begin_def t_def sh_demo_def)
  define v where "v = u\<lparr>sh_line := ''help'' @ NUL # ''7'' @ NUL # ''8'' @ NUL # ''9'' @ NUL # replicate 53 NUL, sh_args := [0, 5, 7, 9, 0]\<rparr>"
  have 2: "shell_parse_command True (typed_at ''help 7 8 9'' u) = Some (None, 3, True, Some 0, v)"
    using p2 f2 u by (simp add: shell_parse_command_def typed_at_def VNA_SHELL_MAX_ARGUMENTS_def v_def cstr_at_def sh_demo_def)
  have "sh_log (shell_service_pending_commands v) = [Pause_Sweep, Run_Command 3 [''7'', ''8'']]"
    using u by (simp add: service_pending_eq v_def service_wake_def service_run_def run_command_def log_event_def
        argv_strings_def cstr_at_def scan_command_def CMD_BREAK_SWEEP_def CMD_WAIT_MUTEX_def Let_def)
  with 1 2 show ?thesis unfolding u_def by blast
qed

text \<open>
  \<open>vna_shell_execute_cmd_line\<close>, which runs the lines of a script file, sends
  nothing and polls nothing, runs a command only if it is marked \<open>CMD_RUN_IN_LOAD\<close> (with the
  words of the line), and leaves the shell with its stream.
\<close>

theorem script_line_silent:
  assumes "line = text @ NUL # rest" "\<forall>c \<in> set text. plain_char c" "length (sh_args s) = 5"
  shows "\<exists>t. vna_shell_execute_cmd_line cm4 line s = Some t \<and> sh_stream t \<and> sh_out t = sh_out s \<and> sh_polls t = sh_polls s \<and>
    sh_log t = sh_log s @
      (case words text of [] \<Rightarrow> []
       | w # ws \<Rightarrow> (case dispatch s w of
           None \<Rightarrow> []
         | Some c \<Rightarrow> if sc_flags c AND CMD_RUN_IN_LOAD \<noteq> 0 then [Run_Command (sc_function c) (take 4 ws)] else []))"
proof -
  let ?s = "s\<lparr>sh_line := line, sh_stream := False\<rparr>"
  have s: "sh_line ?s = text @ NUL # rest" "length (sh_args ?s) = 5" using assms by simp_all
  obtain cmd argc argv name t where d: "shell_parse_command cm4 ?s = Some (cmd, argc, argv, name, t)"
    "case words text of [] \<Rightarrow> cmd = None \<and> argc = 0 \<and> \<not> argv \<and> name = None
     | w # ws \<Rightarrow> cmd = dispatch ?s w \<and> argv \<and> argc = min 4 (length ws) \<and> argv_strings argc t = take 4 ws \<and>
         map_option (cstr_at (sh_line t)) name = Some w"
    using command_dispatch_aux [OF s(1) assms(2) s(2), of cm4] by blast
  have t: "sh_log t = sh_log s" "sh_out t = sh_out s" "sh_polls t = sh_polls s"
    using d(1) parse_command_words [OF s(1) assms(2) s(2), of cm4] by (auto split: if_splits)
  have ds: "dispatch ?s w = dispatch s w" for w by (simp add: dispatch_def)
  have e: "vna_shell_execute_cmd_line cm4 line s = Some (let s' = (case cmd of None \<Rightarrow> t
        | Some c \<Rightarrow> if sc_flags c AND CMD_RUN_IN_LOAD \<noteq> 0 then run_command c argc t else t)\<lparr>sh_stream := sh_stream s\<rparr>
      in if sh_stream s' then s' else shell_restore_stream s')"
    by (simp add: vna_shell_execute_cmd_line_def d(1) Let_def)
  show ?thesis unfolding e using d(2) t
    by (cases "words text"; cases cmd; cases "dispatch s (hd (words text))")
      (auto simp: ds shell_restore_stream_def run_command_def log_event_def Let_def)
qed

theorem script_line_silent_witness:
  "\<exists>t. vna_shell_execute_cmd_line True (''scan 1'' @ [NUL]) sh_demo = Some t \<and> sh_stream t \<and> sh_out t = [] \<and> sh_log t = []"
proof -
  have w: "words ''scan 1'' = [''scan'', ''1'']" by code_simp
  have m: "dispatch sh_demo ''scan'' = Some scan_command"
    by (simp add: dispatch_def sh_demo_def scan_command_def split_bar.simps [of "''scan''"])
  have h: "''scan 1'' @ [NUL] = ''scan 1'' @ NUL # []" "\<forall>c \<in> set ''scan 1''. plain_char c" "length (sh_args sh_demo) = 5"
    by (simp_all add: sh_demo_def plain_char_def)
  from script_line_silent [OF h, of True] show ?thesis
    by (auto simp: w m scan_command_def CMD_RUN_IN_LOAD_def) (auto simp: sh_demo_def)
qed

end
