(* ===== verification/Freq_Grid.thy ===== *)
theory Freq_Grid
  imports Nvx_Prelude
begin

text \<open>
  The frequency grid of a sweep over \<open>D\<close> Hz in \<open>n\<close> steps: the offset of point \<open>j\<close> is its exact
  position \<open>D * j / n\<close> rounded to the nearest hertz. The frequency plan computes it and the
  interpolation of the calibration reads it backwards.
\<close>

definition grid :: "nat \<Rightarrow> nat \<Rightarrow> nat \<Rightarrow> nat" where
  "grid D n j = (D * j + n div 2) div n"

lemma grid_split: "0 < n \<Longrightarrow> grid D n j = D div n * j + (D mod n * j + n div 2) div n"
proof -
  assume n: "0 < n"
  have "D * j = D div n * n * j + D mod n * j" by (metis div_mult_mod_eq distrib_right)
  then have e: "D * j + n div 2 = (D mod n * j + n div 2) + (D div n * j) * n" by (simp add: algebra_simps)
  show ?thesis unfolding grid_def e using n by simp
qed

lemma grid_mono: "i \<le> j \<Longrightarrow> grid D n i \<le> grid D n j"
  unfolding grid_def by (intro div_le_mono) simp

lemma grid_ends: "0 < n \<Longrightarrow> grid D n 0 = 0" "0 < n \<Longrightarrow> grid D n n = D"
  by (simp_all add: grid_def)

lemma grid_le: "0 < n \<Longrightarrow> j \<le> n \<Longrightarrow> grid D n j \<le> D"
  using grid_mono [of j n D n] grid_ends(2) [of n D] by simp

lemma grid_nearest: "0 < n \<Longrightarrow> \<bar>int n * int (grid D n j) - int D * int j\<bar> \<le> int n div 2"
proof -
  assume n: "0 < n"
  let ?q = "grid D n j"
  have a: "?q * n \<le> D * j + n div 2" unfolding grid_def by (metis div_times_less_eq_dividend)
  have b: "D * j + n div 2 < ?q * n + n" unfolding grid_def using n by (metis add.commute dividend_less_div_times)
  have "int ?q * int n \<le> int D * int j + int n div 2" using a by (metis of_nat_add of_nat_le_iff of_nat_mult zdiv_int of_nat_numeral)
  moreover have "int D * int j + int n div 2 < int ?q * int n + int n" using b by (metis of_nat_add of_nat_less_iff of_nat_mult zdiv_int of_nat_numeral)
  ultimately show ?thesis by (simp add: mult.commute abs_le_iff)
qed

lemma grid_below:
  assumes "0 < n" "0 < D" "j = x * n div D"
  shows "grid D n j \<le> x" "x \<le> grid D n (j + 1)"
proof -
  have "D * j \<le> x * n" using assms by simp
  then have "grid D n j \<le> (x * n + n div 2) div n" unfolding grid_def by (intro div_le_mono) simp
  also have "\<dots> = x" using assms(1) by simp
  finally show "grid D n j \<le> x" .
  have "x * n < D * (j + 1)" using assms dividend_less_times_div [of D "x * n"] by (simp add: algebra_simps)
  then have "x * n div n \<le> grid D n (j + 1)" unfolding grid_def by (intro div_le_mono) simp
  then show "x \<le> grid D n (j + 1)" using assms(1) by simp
qed

lemma grid_index:
  assumes "0 < n" "n \<le> D"
  shows "grid D n j * n div D \<in> {j - 1, j}"
proof -
  define x where "x = grid D n j"
  have "x * n \<le> D * j + n div 2" unfolding x_def grid_def by (metis div_times_less_eq_dividend)
  also have "\<dots> < D * (j + 1)" using assms by (simp add: algebra_simps)
  finally have up: "x * n < D * (j + 1)" .
  have "D * j + n div 2 < x * n + n" unfolding x_def grid_def using assms(1) by (metis add.commute dividend_less_div_times)
  then have "D * j < x * n + D" using assms(2) by linarith
  then have lo: "D * (j - 1) \<le> x * n" by (cases j) (auto simp: algebra_simps)
  have "0 < D" using assms by linarith
  then have "x * n div D < j + 1" using up by (simp only: div_less_iff_less_mult mult.commute)
  then have "x * n div D \<le> j" by simp
  moreover have "j - 1 \<le> x * n div D" using lo assms by (simp add: less_eq_div_iff_mult_less_eq mult.commute)
  ultimately show ?thesis unfolding x_def by auto
qed

lemma grid_strict: "0 < n \<Longrightarrow> n \<le> D \<Longrightarrow> i < j \<Longrightarrow> grid D n i < grid D n j"
proof -
  assume a: "0 < n" "n \<le> D" "i < j"
  then have "D * i + n \<le> D * j" by (metis Suc_leI add.commute le_trans mult_Suc_right mult_le_mono2 nat_add_left_cancel_le)
  then have "D * i + n div 2 + n \<le> D * j + n div 2" by simp
  then have "(D * i + n div 2 + n) div n \<le> grid D n j" unfolding grid_def by (rule div_le_mono)
  moreover have "(D * i + n div 2 + n) div n = grid D n i + 1" using a(1) by (simp add: grid_def div_add_self2 del: add.assoc)
  ultimately show ?thesis by simp
qed

end
