(* ===== verification/Stimulus.thy ===== *)
theory Stimulus
  imports Freq_Grid
begin

text \<open>
  The sweep range, its frequency grid and the markers on it: the stimulus settings of
  \<open>src/src/runtime/runtime_entry.c\<close> and the frequency plan of \<open>src/src/rf/sweep.c\<close> (both builds,
  with and without \<open>__USE_FREQ_TABLE__\<close>). \<open>freq_t\<close> is a 32 bit word. Division of a word by
  zero is 0, as the divide instruction of these processors has it; C leaves it undefined.
  \<open>st_redraw\<close> collects the flags of \<open>request_to_redraw\<close>; the other notifications are
  recorded in \<open>st_calls\<close> in the order they are made.
\<close>

section \<open>State\<close>

definition FREQUENCY_MIN :: u32 where "FREQUENCY_MIN = 600"
definition FREQUENCY_MAX :: u32 where "FREQUENCY_MAX = 2700000000"
definition SWEEP_POINTS_MIN :: u16 where "SWEEP_POINTS_MIN = 21"
definition TD_CENTER_SPAN :: u16 where "TD_CENTER_SPAN = 64"
definition CAL_INTERPOLATED :: u16 where "CAL_INTERPOLATED = 512"

definition REDRAW_PLOT :: u16 where "REDRAW_PLOT = 1"
definition REDRAW_AREA :: u16 where "REDRAW_AREA = 2"
definition REDRAW_FREQUENCY :: u16 where "REDRAW_FREQUENCY = 8"
definition REDRAW_CAL_STATUS :: u16 where "REDRAW_CAL_STATUS = 16"
definition REDRAW_MARKER :: u16 where "REDRAW_MARKER = 32"
definition REDRAW_BACKUP :: u16 where "REDRAW_BACKUP = 1024"

datatype stimulus_type = ST_START | ST_STOP | ST_CENTER | ST_CW | ST_SPAN | ST_STEP | ST_VAR

datatype stimulus_call =
    Update_Grid u32 u32
  | Update_Backup
  | Mark_Dirty
  | Reset_Progress
  | Draw_Marker u16

record marker =
  mk_enabled :: bool
  mk_index :: u16
  mk_frequency :: u32

record frequency_plan =
  f_start :: u32
  f_delta :: u32
  f_error :: u32
  f_points :: u16

record stimulus =
  frequency0 :: u32
  frequency1 :: u32
  var_freq :: u32
  sweep_points :: u16
  props_mode :: u16
  st_cal_status :: u16
  st_cal_frequency0 :: u32
  st_cal_frequency1 :: u32
  st_cal_points :: u16
  markers :: "marker list"
  st_plan :: frequency_plan
  st_redraw :: u16
  st_calls :: "stimulus_call list"
  st_div0 :: "u32 \<Rightarrow> u32"

definition request_to_redraw :: "u16 \<Rightarrow> stimulus \<Rightarrow> stimulus" where
  "request_to_redraw flags s = s\<lparr>st_redraw := st_redraw s OR flags\<rparr>"

definition st_call :: "stimulus_call \<Rightarrow> stimulus \<Rightarrow> stimulus" where
  "st_call c s = s\<lparr>st_calls := st_calls s @ [c]\<rparr>"

section \<open>The frequency grid\<close>

definition app_measurement_set_frequencies :: "u32 \<Rightarrow> u32 \<Rightarrow> u16 \<Rightarrow> frequency_plan" where
  "app_measurement_set_frequencies start stop points =
     (let span = stop - start; n = points - 1
      in \<lparr>f_start = start, f_delta = span div ucast n, f_error = span mod ucast n, f_points = n\<rparr>)"

definition get_frequency :: "frequency_plan \<Rightarrow> u16 \<Rightarrow> u32" where
  "get_frequency p idx =
     f_start p + f_delta p * ucast idx + (ucast (f_points p) div 2 + f_error p * ucast idx) div ucast (f_points p)"

definition get_frequency_step :: "frequency_plan \<Rightarrow> u32" where
  "get_frequency_step p = f_delta p"

text \<open>
  The build with a table: the first loop runs \<open>step + 1\<close> times with \<open>k\<close> passes left, the
  second pads with zeros to the \<open>max_points\<close> entries of the array.
\<close>

fun table_loop :: "nat \<Rightarrow> u32 \<Rightarrow> u32 \<Rightarrow> u32 \<Rightarrow> u32 \<Rightarrow> u32 \<Rightarrow> u32 list" where
  "table_loop 0 f df delta err step = []"
| "table_loop (Suc k) f df delta err step =
     (let entry = f;
          df = df + err;
          (f, df) = (if df \<ge> step then (f + 1, df - step) else (f, df))
      in entry # table_loop k (f + delta) df delta err step)"

definition frequency_table :: "nat \<Rightarrow> u32 \<Rightarrow> u32 \<Rightarrow> u16 \<Rightarrow> u32 list" where
  "frequency_table max_points start stop points =
     (let step = ucast (points - 1); span = stop - start
      in table_loop (unat step + 1) start (step div 2) (span div step) (span mod step) step @
         replicate (max_points - (unat step + 1)) 0)"

section \<open>Range and markers\<close>

definition sweep_get_ordered :: "stimulus \<Rightarrow> u32 \<times> u32" where
  "sweep_get_ordered s =
     (if frequency0 s \<le> frequency1 s then (frequency0 s, frequency1 s) else (frequency1 s, frequency0 s))"

definition get_sweep_frequency :: "stimulus_type \<Rightarrow> stimulus \<Rightarrow> u32" where
  "get_sweep_frequency type s =
     (let (start, stop) = (if frequency0 s > frequency1 s then (frequency1 s, frequency0 s) else (frequency0 s, frequency1 s))
      in case type of
           ST_START \<Rightarrow> start
         | ST_STOP \<Rightarrow> stop
         | ST_CENTER \<Rightarrow> of_nat ((unat start + unat stop) div 2)
         | ST_SPAN \<Rightarrow> stop - start
         | ST_CW \<Rightarrow> frequency0 s
         | _ \<Rightarrow> 0)"

definition st_need_interpolate :: "u32 \<Rightarrow> u32 \<Rightarrow> u16 \<Rightarrow> stimulus \<Rightarrow> bool" where
  "st_need_interpolate start stop points s \<longleftrightarrow>
     start \<noteq> st_cal_frequency0 s \<or> stop \<noteq> st_cal_frequency1 s \<or> points \<noteq> st_cal_points s"

definition set_marker_index :: "nat \<Rightarrow> int \<Rightarrow> stimulus \<Rightarrow> stimulus" where
  "set_marker_index m idx s =
     (let idx = (if idx < 0 then 0 else idx);
          idx = (if idx \<ge> int (unat (sweep_points s)) then int (unat (sweep_points s)) - 1 else idx);
          s = (if mk_enabled (markers s ! m) then st_call (Draw_Marker (mk_index (markers s ! m))) s else s);
          s = s\<lparr>markers := (markers s)[m := (markers s ! m)
                 \<lparr>mk_index := word_of_int idx, mk_frequency := get_frequency (st_plan s) (word_of_int idx)\<rparr>]\<rparr>
      in request_to_redraw REDRAW_MARKER s)"

definition get_marker_frequency :: "nat \<Rightarrow> stimulus \<Rightarrow> u32" where
  "get_marker_frequency m s = mk_frequency (markers s ! m)"

text \<open>
  One pass of the loop of \<open>update_marker_index\<close>. The difference is converted to \<open>int32_t\<close> and
  back to \<open>freq_t\<close> by the division, so the division is unsigned. For a range of fewer hertz than steps, CW among
  them, the step is 0 and the quotient undefined in C; the processor has no divide instruction, and \<open>st_div0\<close>
  stands for whatever its library routine returns.
\<close>

definition freq_div :: "(u32 \<Rightarrow> u32) \<Rightarrow> u32 \<Rightarrow> u32 \<Rightarrow> u32" where
  "freq_div by_zero a b = (if b = 0 then by_zero a else a div b)"

definition marker_pass :: "u32 \<Rightarrow> u32 \<Rightarrow> u16 \<Rightarrow> nat \<Rightarrow> stimulus \<Rightarrow> stimulus" where
  "marker_pass start step points i s =
     (if mk_enabled (markers s ! i)
      then let index = sint (freq_div (st_div0 s) (mk_frequency (markers s ! i) - start) step);
               index = (if index < 0 then 0 else index);
               index = (if index \<ge> int (unat points) then int (unat points) - 1 else index)
           in set_marker_index i index s
      else s)"

definition update_marker_index :: "u32 \<Rightarrow> u32 \<Rightarrow> u16 \<Rightarrow> stimulus \<Rightarrow> stimulus" where
  "update_marker_index start stop points s =
     (let step = (if points > 1 then (stop - start) div ucast (points - 1) else 1)
      in fold (marker_pass start step points) [0..<8] s)"

definition set_interpolated :: "u32 \<Rightarrow> u32 \<Rightarrow> stimulus \<Rightarrow> stimulus" where
  "set_interpolated start stop s =
     s\<lparr>st_cal_status := (if st_need_interpolate start stop (sweep_points s) s
        then st_cal_status s OR CAL_INTERPOLATED else st_cal_status s AND NOT CAL_INTERPOLATED)\<rparr>"

definition REDRAW_STIMULUS :: u16 where
  "REDRAW_STIMULUS = REDRAW_BACKUP OR REDRAW_PLOT OR REDRAW_CAL_STATUS OR REDRAW_FREQUENCY OR REDRAW_AREA"

definition app_measurement_update_frequencies :: "stimulus \<Rightarrow> stimulus" where
  "app_measurement_update_frequencies s =
     (case sweep_get_ordered s of (start, stop) \<Rightarrow>
        let s = s\<lparr>st_plan := app_measurement_set_frequencies start stop (sweep_points s)\<rparr>;
            s = update_marker_index start stop (sweep_points s) s;
            s = st_call (Update_Grid start stop) s;
            s = set_interpolated start stop s;
            s = request_to_redraw REDRAW_STIMULUS s
        in st_call Reset_Progress s)"

text \<open>The tail \<open>set_sweep_points\<close> and \<open>reset_sweep_frequency\<close> share: the same steps once more.\<close>

definition refresh_range :: "stimulus \<Rightarrow> stimulus" where
  "refresh_range s =
     (let s = st_call Mark_Dirty (st_call Update_Backup (app_measurement_update_frequencies s))
      in case sweep_get_ordered s of (start, stop) \<Rightarrow>
        let s = update_marker_index start stop (sweep_points s) s;
            s = st_call (Update_Grid start stop) s;
            s = set_interpolated start stop s;
            s = request_to_redraw REDRAW_STIMULUS s
        in st_call Reset_Progress s)"

definition set_sweep_points :: "u16 \<Rightarrow> u16 \<Rightarrow> stimulus \<Rightarrow> stimulus" where
  "set_sweep_points max_points points s =
     (let points = (if points > max_points then max_points else points);
          points = (if points < SWEEP_POINTS_MIN then SWEEP_POINTS_MIN else points)
      in if points = sweep_points s then s else refresh_range (s\<lparr>sweep_points := points\<rparr>))"

definition reset_sweep_frequency :: "stimulus \<Rightarrow> stimulus" where
  "reset_sweep_frequency s =
     refresh_range (s\<lparr>frequency0 := st_cal_frequency0 s, frequency1 := st_cal_frequency1 s, sweep_points := st_cal_points s\<rparr>)"

definition is_centerspan :: "stimulus \<Rightarrow> bool" where
  "is_centerspan s \<longleftrightarrow> props_mode s AND TD_CENTER_SPAN \<noteq> 0"

definition freq_startstop :: "stimulus \<Rightarrow> stimulus" where
  "freq_startstop s = s\<lparr>props_mode := props_mode s AND NOT TD_CENTER_SPAN\<rparr>"

definition freq_centerspan :: "stimulus \<Rightarrow> stimulus" where
  "freq_centerspan s = s\<lparr>props_mode := props_mode s OR TD_CENTER_SPAN\<rparr>"

definition apply_center_span :: "u32 \<Rightarrow> u32 \<Rightarrow> stimulus \<Rightarrow> stimulus" where
  "apply_center_span center span s = s\<lparr>frequency0 := center - span, frequency1 := center + span\<rparr>"

definition clamp_span :: "u32 \<Rightarrow> u32 \<Rightarrow> u32" where
  "clamp_span center span =
     (let span = (if span > center - FREQUENCY_MIN then center - FREQUENCY_MIN else span)
      in if span > FREQUENCY_MAX - center then FREQUENCY_MAX - center else span)"

definition clamp_center :: "u32 \<Rightarrow> u32 \<Rightarrow> u32" where
  "clamp_center span center =
     (let center = (if center < FREQUENCY_MIN + span then FREQUENCY_MIN + span else center)
      in if center > FREQUENCY_MAX - span then FREQUENCY_MAX - span else center)"

definition set_sweep_frequency_internal :: "stimulus_type \<Rightarrow> u32 \<Rightarrow> bool \<Rightarrow> stimulus \<Rightarrow> stimulus" where
  "set_sweep_frequency_internal type freq enforce_order s =
     (let freq = (if type \<in> {ST_START, ST_STOP, ST_CENTER, ST_CW} \<and> freq < FREQUENCY_MIN then FREQUENCY_MIN else freq);
          (type, freq) =
            (if type = ST_STEP
             then let freq = freq * (ucast (sweep_points s) - 1);
                      type = (if is_centerspan s then ST_SPAN else ST_STOP)
                  in (type, if type = ST_STOP then freq + frequency0 s else freq)
             else (type, freq));
          freq = (if type \<noteq> ST_VAR \<and> freq > FREQUENCY_MAX then FREQUENCY_MAX else freq);
          finish = (\<lambda>s. st_call Mark_Dirty (st_call Update_Backup (app_measurement_update_frequencies s)))
      in case type of
           ST_START \<Rightarrow>
             let s = (freq_startstop s)\<lparr>frequency0 := freq\<rparr>
             in finish (if enforce_order \<and> frequency1 s < freq then s\<lparr>frequency1 := freq\<rparr> else s)
         | ST_STOP \<Rightarrow>
             let s = (freq_startstop s)\<lparr>frequency1 := freq\<rparr>
             in finish (if enforce_order \<and> frequency0 s > freq then s\<lparr>frequency0 := freq\<rparr> else s)
         | ST_CENTER \<Rightarrow>
             let s = freq_centerspan s;
                 (start, stop) = sweep_get_ordered s;
                 span = clamp_span freq (drop_bit 1 (stop - start + 1))
             in finish (apply_center_span freq span s)
         | ST_SPAN \<Rightarrow>
             let s = freq_centerspan s;
                 (start, stop) = sweep_get_ordered s;
                 span = drop_bit 1 freq;
                 center = clamp_center span (of_nat ((unat start + unat stop) div 2))
             in finish (apply_center_span center span s)
         | ST_CW \<Rightarrow> finish ((freq_centerspan s)\<lparr>frequency0 := freq, frequency1 := freq\<rparr>)
         | ST_VAR \<Rightarrow> st_call Update_Backup (request_to_redraw REDRAW_BACKUP (s\<lparr>var_freq := freq\<rparr>))
         | ST_STEP \<Rightarrow> finish s)"

definition set_sweep_frequency :: "stimulus_type \<Rightarrow> u32 \<Rightarrow> stimulus \<Rightarrow> stimulus" where
  "set_sweep_frequency type freq s = set_sweep_frequency_internal type freq True s"

section \<open>The grid\<close>

lemma plan_frequency:
  assumes "start \<le> stop" "2 \<le> unat points" "n = unat points - 1" "D = unat stop - unat start" "unat idx \<le> n"
  shows "unat (get_frequency (app_measurement_set_frequencies start stop points) idx) = unat start + grid D n (unat idx)"
proof -
  let ?j = "unat idx"
  have up: "unat (points - 1) = n" using assms(2,3) by (simp add: unat_sub_if')
  have n: "0 < n" "n < 65536" using assms(2,3) u16_bound [of points] by auto
  have span: "unat (stop - start) = D" using assms(1,4) by (simp add: unat_sub word_le_nat_alt)
  have nw: "unat (ucast (points - 1) :: u32) = n" using up by simp
  have jw: "unat (ucast idx :: u32) = ?j" by simp
  have top: "unat start + D < 2 ^ 32" using assms(1,4) u32_bound [of stop] by (simp add: word_le_nat_alt)
  have g: "grid D n ?j \<le> D" using grid_le n assms(5) by blast
  have split: "grid D n ?j = D div n * ?j + (D mod n * ?j + n div 2) div n" using grid_split n by blast
  have e: "D mod n * ?j + n div 2 < 2 ^ 32"
  proof -
    have "D mod n * ?j \<le> 65535 * 65535" using n assms(5) by (intro mult_le_mono) (auto intro: order.trans [OF less_imp_le [OF mod_less_divisor]])
    then show ?thesis using n by simp
  qed
  have 1: "unat ((ucast (points - 1) div 2 :: u32) + (stop - start) mod ucast (points - 1) * ucast idx) = D mod n * ?j + n div 2"
  proof -
    have "unat ((stop - start) mod ucast (points - 1)) = D mod n" "unat (ucast (points - 1) div 2 :: u32) = n div 2"
      by (simp_all add: unat_mod_distrib unat_div span up)
    moreover from this(1) e have "unat ((stop - start) mod ucast (points - 1) * (ucast idx :: u32)) = D mod n * ?j"
      by (simp only: unat_word_ariths jw) simp
    ultimately show ?thesis using e by (simp only: unat_word_ariths) simp
  qed
  have 2: "unat ((stop - start) div ucast (points - 1) * (ucast idx :: u32)) = D div n * ?j"
  proof -
    have "unat ((stop - start) div ucast (points - 1)) = D div n" by (simp add: unat_div span up)
    then show ?thesis using g split top by (simp only: unat_word_ariths jw) simp
  qed
  have 3: "unat ((ucast (points - 1) div 2 + (stop - start) mod ucast (points - 1) * ucast idx) div (ucast (points - 1) :: u32)) =
      (D mod n * ?j + n div 2) div n"
    using 1 by (simp add: unat_div up)
  show ?thesis
    unfolding get_frequency_def app_measurement_set_frequencies_def Let_def frequency_plan.select_convs
    using g split top by (simp only: unat_word_ariths(1) 2 3) simp
qed

text \<open>
  C8 The points of a sweep from \<open>start\<close> to \<open>stop\<close> begin at \<open>start\<close>, end at \<open>stop\<close>,
  never decrease, and each is the exact position rounded to the nearest hertz; no step of
  the 32 bit computation wraps.
\<close>

theorem frequency_grid:
  assumes "start \<le> stop" "2 \<le> unat points" "n = unat points - 1" "D = unat stop - unat start"
    and "p = app_measurement_set_frequencies start stop points"
  shows "get_frequency p 0 = start \<and> get_frequency p (points - 1) = stop \<and>
    (unat idx \<le> n \<longrightarrow> \<bar>int n * (int (unat (get_frequency p idx)) - int (unat start)) - int D * int (unat idx)\<bar> \<le> int n div 2) \<and>
    (idx \<le> idx' \<and> unat idx' \<le> n \<longrightarrow> get_frequency p idx \<le> get_frequency p idx')"
proof -
  note f = plan_frequency [OF assms(1-4), folded assms(5)]
  have n: "0 < n" and up: "unat (points - 1) = n" using assms(2,3) by (auto simp: unat_sub_if')
  have "get_frequency p 0 = start" using f [of 0] grid_ends(1) [OF n] by (simp add: word_unat_eq_iff)
  moreover have "get_frequency p (points - 1) = stop"
    using f [of "points - 1"] grid_ends(2) [OF n] up assms(1,4) by (simp add: word_unat_eq_iff word_le_nat_alt)
  moreover have "idx \<le> idx' \<and> unat idx' \<le> n \<Longrightarrow> get_frequency p idx \<le> get_frequency p idx'"
    using f [of idx] f [of idx'] grid_mono [of "unat idx" "unat idx'" D n] by (simp add: word_le_nat_alt)
  moreover have "unat idx \<le> n \<Longrightarrow> \<bar>int n * (int (unat (get_frequency p idx)) - int (unat start)) - int D * int (unat idx)\<bar> \<le> int n div 2"
    using f [of idx] grid_nearest [OF n, of D "unat idx"] by simp
  ultimately show ?thesis by blast
qed

theorem frequency_grid_witness:
  "get_frequency (app_measurement_set_frequencies 50000 900000000 101) 100 = 900000000"
  using frequency_grid [OF _ _ refl refl refl, of 50000 900000000 101 0 0] by simp

lemma table_loop_grid:
  assumes "0 < n" "unat step = n" "unat err < n" "unat delta = D div n" "unat err = D mod n" "n < 65536"
    and "unat df = (D mod n * j + n div 2) mod n"
    and "unat f = s + grid D n j" "j + k \<le> n + 1" "s + D < 2 ^ 32"
  shows "table_loop k f df delta err step = map (\<lambda>i. of_nat (s + grid D n i)) [j..<j + k]"
  using assms(7-9)
proof (induction k arbitrary: f df j)
  case 0
  then show ?case by simp
next
  case (Suc k)
  have dn: "unat df < n" using Suc.prems(1) assms(1) by simp
  have s1: "unat (df + err) = unat df + unat err" using dn assms(3,6) by (simp add: unat_word_ariths)
  have e: "(D mod n * (j + 1) + n div 2) = (D mod n * j + n div 2) + D mod n" by (simp add: algebra_simps)
  have up: "(D mod n * (j + 1) + n div 2) div n = (D mod n * j + n div 2) div n + (if unat df + unat err \<ge> n then 1 else 0)"
    "(D mod n * (j + 1) + n div 2) mod n = (if unat df + unat err \<ge> n then unat df + unat err - n else unat df + unat err)"
  proof -
    have m: "D mod n * j + n div 2 = (D mod n * j + n div 2) div n * n + unat df" unfolding Suc.prems(1) by simp
    have x: "(a * n + b) div n = a + (if b \<ge> n then 1 else 0) \<and> (a * n + b) mod n = (if b \<ge> n then b - n else b)" if "b < 2 * n" for a b
    proof (cases "b \<ge> n")
      case True
      then have eq: "a * n + b = (b - n) + (a + 1) * n" and lt: "b - n < n" using that by simp_all
      have "(a * n + b) div n = a + 1" unfolding eq using lt assms(1) by (simp only: div_mult_self1) simp
      moreover have "(a * n + b) mod n = b - n" unfolding eq using lt by (simp only: mod_mult_self1) simp
      ultimately show ?thesis using True by simp
    next
      case False
      then show ?thesis using assms(1) by simp
    qed
    have "unat df + unat err < 2 * n" using dn assms(3) by simp
    from x [OF this, of "(D mod n * j + n div 2) div n", THEN conjunct1] x [OF this, of "(D mod n * j + n div 2) div n", THEN conjunct2] show
      "(D mod n * (j + 1) + n div 2) div n = (D mod n * j + n div 2) div n + (if unat df + unat err \<ge> n then 1 else 0)"
      "(D mod n * (j + 1) + n div 2) mod n = (if unat df + unat err \<ge> n then unat df + unat err - n else unat df + unat err)"
      unfolding e using m assms(5) by (metis add.assoc)+
  qed
  have c: "df + err \<ge> step \<longleftrightarrow> unat df + unat err \<ge> n" using s1 assms(2) by (simp add: word_le_nat_alt)
  have gs: "grid D n (j + 1) = grid D n j + D div n + (if unat df + unat err \<ge> n then 1 else 0)"
    using grid_split [OF assms(1), of D j] grid_split [OF assms(1), of D "j + 1"] up(1) by simp
  have d': "unat (if df + err \<ge> step then df + err - step else df + err) = (D mod n * (j + 1) + n div 2) mod n"
    using up(2) c s1 assms(2) by (simp add: unat_sub)
  have "table_loop (Suc k) f df delta err step = f # table_loop k ((if df + err \<ge> step then f + 1 else f) + delta)
      (if df + err \<ge> step then df + err - step else df + err) delta err step"
    by (simp add: Let_def)
  also have "\<dots> = map (\<lambda>i. of_nat (s + grid D n i)) [j..<j + Suc k]"
  proof -
    have hd: "f = of_nat (s + grid D n j)" by (metis Suc.prems(2) of_nat_unat ucast_id)
    have r: "[j..<j + Suc k] = j # [j + 1..<j + 1 + k]" by (simp add: upt_conv_Cons)
    have "table_loop k ((if df + err \<ge> step then f + 1 else f) + delta)
        (if df + err \<ge> step then df + err - step else df + err) delta err step = map (\<lambda>i. of_nat (s + grid D n i)) [j + 1..<j + 1 + k]"
    proof (cases k)
      case 0
      then show ?thesis by simp
    next
      case (Suc k')
      have gl: "grid D n (j + 1) \<le> D" using grid_le [OF assms(1), of "j + 1" D] Suc Suc.prems(3) by simp
      have "unat ((if df + err \<ge> step then f + 1 else f) + delta) = s + grid D n (j + 1)"
      proof (cases "df + err \<ge> step")
        case True
        then have "s + grid D n j + 1 + D div n = s + grid D n (j + 1)" using gs c by simp
        moreover have "s + grid D n (j + 1) < 2 ^ 32" using gl assms(10) by simp
        ultimately show ?thesis using True by (simp only: unat_word_ariths(1) Suc.prems(2) assms(4) if_True) simp
      next
        case False
        then have "s + grid D n j + D div n = s + grid D n (j + 1)" using gs c by simp
        moreover have "s + grid D n (j + 1) < 2 ^ 32" using gl assms(10) by simp
        ultimately show ?thesis using False by (simp only: unat_word_ariths(1) Suc.prems(2) assms(4) if_False) simp
      qed
      from Suc.IH [OF d' this] show ?thesis using Suc.prems(3) by simp
    qed
    then show ?thesis unfolding r using hd by simp
  qed
  finally show ?case .
qed

text \<open>
  The build with a frequency table and the build that computes each
  frequency on demand give the same frequencies: the error accumulated entry by entry
  overflows exactly where the closed formula rounds up. The rest of the table is zero.
\<close>

theorem frequency_table_agrees:
  assumes "start \<le> stop" "2 \<le> unat points" "unat points \<le> max_points"
  shows "length (frequency_table max_points start stop points) = max_points \<and>
    (\<forall>i < max_points. frequency_table max_points start stop points ! i =
       (if i < unat points then get_frequency (app_measurement_set_frequencies start stop points) (of_nat i) else 0))"
proof -
  define n where "n = unat points - 1"
  define D where "D = unat stop - unat start"
  have n: "0 < n" "n < 65536" using assms(2) u16_bound [of points] by (auto simp: n_def)
  have up: "unat (points - 1) = n" using assms(2) by (simp add: unat_sub_if' n_def)
  have span: "unat (stop - start) = D" using assms(1) by (simp add: unat_sub word_le_nat_alt D_def)
  have top: "unat start + D < 2 ^ 32" using assms(1) u32_bound [of stop] by (simp add: word_le_nat_alt D_def)
  have "table_loop (n + 1) start (ucast (points - 1) div 2) ((stop - start) div ucast (points - 1))
      ((stop - start) mod ucast (points - 1)) (ucast (points - 1)) = map (\<lambda>i. of_nat (unat start + grid D n i)) [0..<0 + (n + 1)]"
    by (rule table_loop_grid) (use n top grid_ends(1) [of n D] in \<open>simp_all add: unat_mod_distrib unat_div span up\<close>)
  then have t: "frequency_table max_points start stop points =
      map (\<lambda>i. of_nat (unat start + grid D n i)) [0..<n + 1] @ replicate (max_points - (n + 1)) 0"
    by (simp add: frequency_table_def Let_def up)
  have g: "get_frequency (app_measurement_set_frequencies start stop points) (of_nat i) = of_nat (unat start + grid D n i)" if "i < n + 1" for i
  proof -
    have "unat (of_nat i :: u16) = i" using that n by (simp add: unat_of_nat)
    then show ?thesis using plan_frequency [OF assms(1,2) n_def D_def, of "of_nat i"] that
      by (metis Suc_eq_plus1 less_Suc_eq_le of_nat_unat ucast_id)
  qed
  have p: "unat points = n + 1" using assms(2) by (simp add: n_def)
  show ?thesis unfolding t using g assms(3) p by (auto simp: nth_append simp del: upt_Suc)
qed

theorem frequency_table_agrees_witness:
  "frequency_table 5 100 110 4 = [100, 103, 107, 110, 0] \<and> get_frequency (app_measurement_set_frequencies 100 110 4) 2 = 107"
proof -
  have "frequency_table 5 100 110 4 = [100, 103, 107, 110, 0]" by code_simp
  then show ?thesis using frequency_table_agrees [of 100 110 4 5, simplified, THEN conjunct2, THEN spec, of 2] by simp
qed

section \<open>Ranges stay inside the limits\<close>

definition range_ok :: "stimulus \<Rightarrow> bool" where
  "range_ok s \<longleftrightarrow> FREQUENCY_MIN \<le> frequency0 s \<and> frequency0 s \<le> FREQUENCY_MAX \<and>
     FREQUENCY_MIN \<le> frequency1 s \<and> frequency1 s \<le> FREQUENCY_MAX"

lemma set_marker_index_range [simp]:
  "frequency0 (set_marker_index m i s) = frequency0 s" "frequency1 (set_marker_index m i s) = frequency1 s"
  "sweep_points (set_marker_index m i s) = sweep_points s" "st_plan (set_marker_index m i s) = st_plan s"
  "length (markers (set_marker_index m i s)) = length (markers s)" "st_div0 (set_marker_index m i s) = st_div0 s"
  by (simp_all add: set_marker_index_def st_call_def request_to_redraw_def Let_def)

lemma marker_pass_range [simp]:
  "frequency0 (marker_pass a b n m s) = frequency0 s" "frequency1 (marker_pass a b n m s) = frequency1 s"
  "sweep_points (marker_pass a b n m s) = sweep_points s" "st_plan (marker_pass a b n m s) = st_plan s"
  "length (markers (marker_pass a b n m s)) = length (markers s)" "st_div0 (marker_pass a b n m s) = st_div0 s"
  by (simp_all add: marker_pass_def Let_def)

lemma fold_keeps: "(\<And>i s. g (f i s) = g s) \<Longrightarrow> g (fold f xs s) = g s"
  by (induction xs arbitrary: s) simp_all

lemma update_marker_range [simp]:
  "frequency0 (update_marker_index a b n s) = frequency0 s" "frequency1 (update_marker_index a b n s) = frequency1 s"
  "sweep_points (update_marker_index a b n s) = sweep_points s" "st_plan (update_marker_index a b n s) = st_plan s"
  "length (markers (update_marker_index a b n s)) = length (markers s)"
  unfolding update_marker_index_def Let_def
  by (rule fold_keeps, simp)+

lemma update_frequencies_range [simp]:
  "frequency0 (app_measurement_update_frequencies s) = frequency0 s" "frequency1 (app_measurement_update_frequencies s) = frequency1 s"
  "sweep_points (app_measurement_update_frequencies s) = sweep_points s"
  by (simp_all add: app_measurement_update_frequencies_def sweep_get_ordered_def st_call_def set_interpolated_def request_to_redraw_def Let_def)

lemma st_call_range [simp]: "frequency0 (st_call c s) = frequency0 s" "frequency1 (st_call c s) = frequency1 s"
  by (simp_all add: st_call_def)

lemmas st_limits = FREQUENCY_MIN_def FREQUENCY_MAX_def

lemma center_span_range:
  fixes center span :: u32
  assumes "unat span + 600 \<le> unat center" "unat center + unat span \<le> 2700000000"
  shows "range_ok (apply_center_span center span s)"
proof -
  have "unat (center - span) = unat center - unat span" using assms by (simp add: unat_sub word_le_nat_alt)
  moreover have "unat (center + span) = unat center + unat span" using assms by (simp add: unat_word_ariths)
  ultimately show ?thesis using assms by (auto simp: range_ok_def apply_center_span_def st_limits word_le_nat_alt)
qed

lemma center_span_ordered:
  fixes center span :: u32
  assumes "unat span \<le> unat center" "unat center + unat span \<le> 2700000000"
  shows "center - span \<le> center + span"
  using assms by (simp add: word_le_nat_alt unat_sub unat_word_ariths)

lemma clamp_word:
  fixes a b :: u32
  shows "unat (if a > b then b else a) = min (unat a) (unat b)" "unat (if a < b then b else a) = max (unat a) (unat b)"
  by (auto simp: min_def max_def word_less_nat_alt)

lemma half_word: "unat (drop_bit 1 (x :: u32)) = unat x div 2"
  by (simp add: drop_bit_Suc unat_div)

lemma center_fits:
  assumes "600 \<le> unat freq" "unat freq \<le> 2700000000"
  shows "unat (clamp_span freq span) + 600 \<le> unat freq" "unat freq + unat (clamp_span freq span) \<le> 2700000000"
proof -
  have "unat (freq - FREQUENCY_MIN) = unat freq - 600" "unat (FREQUENCY_MAX - freq) = 2700000000 - unat freq"
    using assms by (simp_all add: st_limits unat_sub word_le_nat_alt)
  then have "unat (clamp_span freq span) = min (min (unat span) (unat freq - 600)) (2700000000 - unat freq)"
    unfolding clamp_span_def Let_def clamp_word by simp
  then show "unat (clamp_span freq span) + 600 \<le> unat freq" "unat freq + unat (clamp_span freq span) \<le> 2700000000"
    using assms by auto
qed

lemma span_fits:
  assumes "unat span \<le> 1349999700"
  shows "unat span + 600 \<le> unat (clamp_center span center)" "unat (clamp_center span center) + unat span \<le> 2700000000"
proof -
  have "unat (FREQUENCY_MIN + span) = 600 + unat span" "unat (FREQUENCY_MAX - span) = 2700000000 - unat span"
    using assms by (simp_all add: st_limits unat_sub word_le_nat_alt unat_word_ariths)
  then have "unat (clamp_center span center) = min (max (unat center) (600 + unat span)) (2700000000 - unat span)"
    unfolding clamp_center_def Let_def clamp_word by simp
  then show "unat span + 600 \<le> unat (clamp_center span center)" "unat (clamp_center span center) + unat span \<le> 2700000000"
    using assms by auto
qed

lemma apply_center_span_ordered:
  "unat span \<le> unat center \<Longrightarrow> unat center + unat span \<le> 2700000000 \<Longrightarrow>
    frequency0 (apply_center_span center span s) \<le> frequency1 (apply_center_span center span s)"
  using center_span_ordered by (simp add: apply_center_span_def)

lemma range_kept:
  assumes "range_ok s" "type \<in> {ST_START, ST_STOP, ST_CENTER, ST_CW, ST_VAR} \<or> type = ST_SPAN \<and> unat freq \<le> 2699999400"
  shows "range_ok (set_sweep_frequency_internal type freq ord s) \<and>
    (frequency0 s \<le> frequency1 s \<longrightarrow> frequency0 (set_sweep_frequency type freq s) \<le> frequency1 (set_sweep_frequency type freq s))"
proof -
  define fr where "fr = (if freq < FREQUENCY_MIN then FREQUENCY_MIN else freq)"
  define fq where "fq = (if fr > FREQUENCY_MAX then FREQUENCY_MAX else fr)"
  have fq: "600 \<le> unat fq" "unat fq \<le> 2700000000" "FREQUENCY_MIN \<le> fq" "fq \<le> FREQUENCY_MAX"
    unfolding fq_def fr_def by (auto simp: st_limits word_le_nat_alt word_less_nat_alt)
  note d = set_sweep_frequency_internal_def set_sweep_frequency_def Let_def
  have ok: "range_ok (st_call c t) = range_ok t" "range_ok (app_measurement_update_frequencies t) = range_ok t" for c t
    by (simp_all add: range_ok_def)
  consider (start) "type = ST_START" | (stop) "type = ST_STOP" | (center) "type = ST_CENTER" | (cw) "type = ST_CW"
    | (var) "type = ST_VAR" | (span) "type = ST_SPAN" "unat freq \<le> 2699999400"
    using assms(2) by blast
  then show ?thesis
  proof cases
    case start
    then show ?thesis using assms(1) fq
      by (simp add: d fr_def [symmetric] fq_def [symmetric] ok) (auto simp: range_ok_def freq_startstop_def)
  next
    case stop
    then show ?thesis using assms(1) fq
      by (simp add: d fr_def [symmetric] fq_def [symmetric] ok) (auto simp: range_ok_def freq_startstop_def)
  next
    case center
    then have "\<exists>t span. \<forall>ord. set_sweep_frequency_internal type freq ord s =
        st_call Mark_Dirty (st_call Update_Backup (app_measurement_update_frequencies (apply_center_span fq (clamp_span fq span) t)))"
      by (auto simp: d fr_def [symmetric] fq_def [symmetric] split: prod.splits)
    then obtain t span where e: "set_sweep_frequency_internal type freq ord' s =
        st_call Mark_Dirty (st_call Update_Backup (app_measurement_update_frequencies (apply_center_span fq (clamp_span fq span) t)))" for ord'
      by blast
    note fit = center_fits [OF fq(1,2), of span]
    show ?thesis unfolding set_sweep_frequency_def e
      using center_span_range [OF fit, of t] apply_center_span_ordered [OF add_leD1 [OF fit(1)] fit(2), of t] by (simp add: ok)
  next
    case cw
    then show ?thesis using fq
      by (simp add: d fr_def [symmetric] fq_def [symmetric] ok) (auto simp: range_ok_def)
  next
    case var
    then show ?thesis using assms(1) by (simp add: d ok) (simp add: range_ok_def request_to_redraw_def)
  next
    case span
    define w where "w = drop_bit 1 (if freq > FREQUENCY_MAX then FREQUENCY_MAX else freq)"
    have w: "unat w \<le> 1349999700" using span(2) unfolding w_def half_word clamp_word by simp
    have "\<exists>t c. \<forall>ord. set_sweep_frequency_internal type freq ord s =
        st_call Mark_Dirty (st_call Update_Backup (app_measurement_update_frequencies (apply_center_span (clamp_center w c) w t)))"
      using span by (auto simp: d w_def split: prod.splits)
    then obtain t c where e: "set_sweep_frequency_internal type freq ord' s =
        st_call Mark_Dirty (st_call Update_Backup (app_measurement_update_frequencies (apply_center_span (clamp_center w c) w t)))" for ord'
      by blast
    note fit = span_fits [OF w, of c]
    show ?thesis unfolding set_sweep_frequency_def e
      using center_span_range [OF fit, of t] apply_center_span_ordered [OF add_leD1 [OF fit(1)] fit(2), of t] by (simp add: ok)
  qed
qed

text \<open>
  C29 Start, stop, center and CW settings of any frequency, and spans of at most
  \<open>FREQUENCY_MAX - FREQUENCY_MIN\<close>, keep both ends of the sweep between \<open>FREQUENCY_MIN\<close> and
  \<open>FREQUENCY_MAX\<close>; a start or stop set through \<open>set_sweep_frequency\<close> keeps them ordered.
\<close>

theorem range_limits:
  assumes "range_ok s" "type \<in> {ST_START, ST_STOP, ST_CENTER, ST_CW, ST_VAR} \<or> type = ST_SPAN \<and> unat freq \<le> 2699999400"
  shows "range_ok (set_sweep_frequency_internal type freq ord s) \<and>
    (frequency0 s \<le> frequency1 s \<longrightarrow> frequency0 (set_sweep_frequency type freq s) \<le> frequency1 (set_sweep_frequency type freq s))"
  using assms by (rule range_kept)

definition st_demo :: stimulus where
  "st_demo = \<lparr>frequency0 = 50000, frequency1 = 900000000, var_freq = 0, sweep_points = 101, props_mode = 0, st_cal_status = 0,
     st_cal_frequency0 = 50000, st_cal_frequency1 = 900000000, st_cal_points = 101,
     markers = replicate 8 \<lparr>mk_enabled = False, mk_index = 0, mk_frequency = 0\<rparr>,
     st_plan = app_measurement_set_frequencies 50000 900000000 101, st_redraw = 0, st_calls = [], st_div0 = (\<lambda>x. 0)\<rparr>"

theorem range_limits_witness:
  "range_ok (set_sweep_frequency_internal ST_CENTER 1000 False st_demo) \<and>
   frequency0 (set_sweep_frequency ST_STOP 100 st_demo) \<le> frequency1 (set_sweep_frequency ST_STOP 100 st_demo)"
proof -
  have "range_ok st_demo" "frequency0 st_demo \<le> frequency1 st_demo" by (simp_all add: range_ok_def st_demo_def st_limits)
  then show ?thesis using range_limits [of st_demo ST_CENTER 1000 False] range_limits [of st_demo ST_STOP 100 True] by blast
qed

text \<open>
  Two settings leave the limits. A span of the whole range (half of it is
  larger than the room below the highest allowed centre) puts the start at 0 Hz. A step is
  multiplied by the number of steps in 32 bits and only compared with the upper limit, so a
  step of 43 MHz over 100 steps wraps to a stop of 5.1 MHz, below the start, and the start is
  pulled down with it.
\<close>

theorem range_limits_missed:
  "frequency0 (set_sweep_frequency ST_SPAN 2700000000 st_demo) = 0 \<and>
   frequency1 (set_sweep_frequency ST_SPAN 2700000000 st_demo) = 2700000000 \<and>
   frequency1 (set_sweep_frequency ST_STEP 43000000 st_demo) = 5082704"
proof -
  have k: "frequency0 (finish' s) = frequency0 s" "frequency1 (finish' s) = frequency1 s"
    if "finish' = (\<lambda>s. st_call Mark_Dirty (st_call Update_Backup (app_measurement_update_frequencies s)))" for finish' s
    using that by simp_all
  show ?thesis
    by (simp add: set_sweep_frequency_def set_sweep_frequency_internal_def st_demo_def is_centerspan_def TD_CENTER_SPAN_def
        freq_startstop_def freq_centerspan_def sweep_get_ordered_def clamp_center_def apply_center_span_def st_limits Let_def
        drop_bit_Suc)
qed

section \<open>Markers\<close>







text \<open>
  The test \<open>index < 0\<close> in \<open>update_marker_index\<close> is never true for a marker
  below the new start, because the division by the unsigned step is unsigned: such a marker
  jumps to the last point of the sweep instead of the first.
\<close>

theorem marker_below_start:
  "map (\<lambda>m. (mk_index m, mk_frequency m)) (take 1 (markers (app_measurement_update_frequencies
     (st_demo\<lparr>frequency0 := 200000000, frequency1 := 300000000,
       markers := (markers st_demo)[0 := \<lparr>mk_enabled = True, mk_index = 0, mk_frequency = 100000000\<rparr>]\<rparr>)))) = [(100, 300000000)]"
  by code_simp

end
