(* ===== verification/Calibration.thy ===== *)
theory Calibration
  imports Freq_Grid Complex_Main
begin

text \<open>
  Collecting standards, solving for the error terms and applying them:
  \<open>src/src/processing/calibration.c\<close> and the correction routines of \<open>src/src/rf/sweep.c\<close>.
  Values of C type \<open>float\<close> are modelled as reals (rounding and overflow of binary32 are not
  modelled), pairs are real and imaginary part in the order of the arrays. The error terms
  share the rows of \<open>cal_data\<close> with the standards, as in the code.
\<close>

section \<open>Data\<close>

definition CAL_LOAD :: nat where "CAL_LOAD = 0"
definition CAL_OPEN :: nat where "CAL_OPEN = 1"
definition CAL_SHORT :: nat where "CAL_SHORT = 2"
definition CAL_THRU :: nat where "CAL_THRU = 3"
definition CAL_ISOLN :: nat where "CAL_ISOLN = 4"
definition ETERM_ED :: nat where "ETERM_ED = 0"
definition ETERM_ES :: nat where "ETERM_ES = 1"
definition ETERM_ER :: nat where "ETERM_ER = 2"
definition ETERM_ET :: nat where "ETERM_ET = 3"
definition ETERM_EX :: nat where "ETERM_EX = 4"

definition CALSTAT_LOAD :: u16 where "CALSTAT_LOAD = 1"
definition CALSTAT_OPEN :: u16 where "CALSTAT_OPEN = 2"
definition CALSTAT_SHORT :: u16 where "CALSTAT_SHORT = 4"
definition CALSTAT_THRU :: u16 where "CALSTAT_THRU = 8"
definition CALSTAT_ISOLN :: u16 where "CALSTAT_ISOLN = 16"
definition CALSTAT_ES :: u16 where "CALSTAT_ES = 32"
definition CALSTAT_ER :: u16 where "CALSTAT_ER = 64"
definition CALSTAT_ET :: u16 where "CALSTAT_ET = 128"
definition CALSTAT_APPLY :: u16 where "CALSTAT_APPLY = 256"
definition CALSTAT_INTERPOLATED :: u16 where "CALSTAT_INTERPOLATED = 512"
definition CALSTAT_ENHANCED_RESPONSE :: u16 where "CALSTAT_ENHANCED_RESPONSE = 1024"

lemmas cal_rows = CAL_LOAD_def CAL_OPEN_def CAL_SHORT_def CAL_THRU_def CAL_ISOLN_def
  ETERM_ED_def ETERM_ES_def ETERM_ER_def ETERM_ET_def ETERM_EX_def

lemmas cal_flags = CALSTAT_LOAD_def CALSTAT_OPEN_def CALSTAT_SHORT_def CALSTAT_THRU_def CALSTAT_ISOLN_def
  CALSTAT_ES_def CALSTAT_ER_def CALSTAT_ET_def CALSTAT_APPLY_def

type_synonym cpair = "real \<times> real"
type_synonym cal_table = "nat \<Rightarrow> nat \<Rightarrow> cpair"

record calibration =
  cal_data :: cal_table
  cal_status :: u16
  cal_sweep_points :: u16
  cal_frequency0 :: u32
  cal_frequency1 :: u32
  cal_power :: u8
  ca_points :: u16
  ca_frequency0 :: u32
  ca_frequency1 :: u32
  ca_power :: u8
  ca_bandwidth :: u16
  ca_measured :: cal_table
  ca_lastsaveid :: u16
  ca_in_progress :: bool

section \<open>Solving for the error terms\<close>

definition cal_put :: "nat \<Rightarrow> nat \<Rightarrow> cpair \<Rightarrow> cal_table \<Rightarrow> cal_table" where
  "cal_put term i v d = d(term := (d term)(i := v))"

definition for_points :: "(nat \<Rightarrow> cal_table \<Rightarrow> cal_table) \<Rightarrow> u16 \<Rightarrow> cal_table \<Rightarrow> cal_table" where
  "for_points f n d = fold f [0..<unat n] d"

definition eterm_set :: "nat \<Rightarrow> real \<Rightarrow> real \<Rightarrow> calibration \<Rightarrow> calibration" where
  "eterm_set term re im s =
     s\<lparr>cal_data := for_points (\<lambda>i. cal_put term i (re, im)) (ca_points s) (cal_data s)\<rparr>"

definition eterm_copy :: "nat \<Rightarrow> nat \<Rightarrow> calibration \<Rightarrow> calibration" where
  "eterm_copy dst src s = s\<lparr>cal_data := (cal_data s)(dst := cal_data s src)\<rparr>"

definition es_point :: "nat \<Rightarrow> cal_table \<Rightarrow> cal_table" where
  "es_point i d =
     (let open_r = fst (d CAL_OPEN i) - fst (d ETERM_ED i);
          open_i = snd (d CAL_OPEN i) - snd (d ETERM_ED i);
          short_r = fst (d CAL_SHORT i) - fst (d ETERM_ED i);
          short_i = snd (d CAL_SHORT i) - snd (d ETERM_ED i);
          num_r = open_r + short_r;
          num_i = open_i + short_i;
          den_r = open_r - short_r;
          den_i = open_i - short_i;
          denom = den_r * den_r + den_i * den_i
      in if denom > 1 / 10 ^ 20
         then cal_put ETERM_ES i ((num_r * den_r + num_i * den_i) / denom, (num_i * den_r - num_r * den_i) / denom) d
         else cal_put ETERM_ES i (0, 0) d)"

definition eterm_calc_es :: "calibration \<Rightarrow> calibration" where
  "eterm_calc_es s =
     s\<lparr>cal_data := for_points es_point (ca_points s) (cal_data s),
       cal_status := (cal_status s AND NOT CALSTAT_OPEN) OR CALSTAT_ES\<rparr>"

definition er_point :: "int \<Rightarrow> nat \<Rightarrow> cal_table \<Rightarrow> cal_table" where
  "er_point sign i d =
     (let s11sr = fst (d CAL_SHORT i) - fst (d ETERM_ED i);
          s11si = snd (d CAL_SHORT i) - snd (d ETERM_ED i);
          esr = fst (d ETERM_ES i);
          esi = snd (d ETERM_ES i);
          (esr, esi) = (if sign > 0 then (- esr, - esi) else (esr, esi));
          esr = 1 + esr;
          err = esr * s11sr - esi * s11si;
          eri = esr * s11si + esi * s11sr;
          (err, eri) = (if sign < 0 then (- err, - eri) else (err, eri))
      in cal_put ETERM_ER i (err, eri) d)"

definition eterm_calc_er :: "int \<Rightarrow> calibration \<Rightarrow> calibration" where
  "eterm_calc_er sign s =
     s\<lparr>cal_data := for_points (er_point sign) (ca_points s) (cal_data s),
       cal_status := (cal_status s AND NOT CALSTAT_SHORT) OR CALSTAT_ER\<rparr>"

definition et_point :: "nat \<Rightarrow> cal_table \<Rightarrow> cal_table" where
  "et_point i d =
     (let etr = fst (d CAL_THRU i) - fst (d CAL_ISOLN i);
          eti = snd (d CAL_THRU i) - snd (d CAL_ISOLN i);
          sq = etr * etr + eti * eti
      in if sq > 1 / 10 ^ 20 then cal_put ETERM_ET i (etr / sq, - eti / sq) d else cal_put ETERM_ET i (1, 0) d)"

definition eterm_calc_et :: "calibration \<Rightarrow> calibration" where
  "eterm_calc_et s =
     s\<lparr>cal_data := for_points et_point (ca_points s) (cal_data s),
       cal_status := (cal_status s AND NOT CALSTAT_THRU) OR CALSTAT_ET\<rparr>"

definition cal_has :: "u16 \<Rightarrow> calibration \<Rightarrow> bool" where
  "cal_has flag s \<longleftrightarrow> cal_status s AND flag \<noteq> 0"

definition cal_solve :: "calibration \<Rightarrow> calibration" where
  "cal_solve s =
     (if cal_has CALSTAT_SHORT s \<and> cal_has CALSTAT_OPEN s then eterm_calc_er (-1) (eterm_calc_es s)
      else if cal_has CALSTAT_OPEN s then
        (let s = eterm_copy CAL_SHORT CAL_OPEN s;
             s = s\<lparr>cal_status := cal_status s AND NOT CALSTAT_OPEN\<rparr>;
             s = eterm_set ETERM_ES 0 0 s
         in eterm_calc_er 1 s)
      else if cal_has CALSTAT_SHORT s then eterm_calc_er (-1) (eterm_set ETERM_ES 0 0 s)
      else s)"

definition cal_done :: "calibration \<Rightarrow> calibration" where
  "cal_done s =
     (let s = s\<lparr>ca_in_progress := True\<rparr>;
          s = (if \<not> cal_has CALSTAT_LOAD s then eterm_set ETERM_ED 0 0 s else s);
          s = (if \<not> cal_has CALSTAT_ISOLN s then eterm_set ETERM_EX 0 0 s else s);
          s = cal_solve s;
          s = (if cal_has CALSTAT_THRU s then eterm_calc_et s else s);
          s = (if \<not> cal_has CALSTAT_ET s then eterm_set ETERM_ET 1 0 s else s);
          s = (if \<not> cal_has CALSTAT_ER s then eterm_set ETERM_ER 1 0 s else s);
          s = (if \<not> cal_has CALSTAT_ES s then eterm_set ETERM_ES 0 0 s else s)
      in s\<lparr>cal_status := cal_status s OR CALSTAT_APPLY, ca_lastsaveid := 0xFFFF, ca_in_progress := False\<rparr>)"

section \<open>Applying them\<close>

definition apply_ch0_error_term :: "cpair \<Rightarrow> (nat \<Rightarrow> cpair) \<Rightarrow> cpair" where
  "apply_ch0_error_term data c =
     (let s11mr = fst data - fst (c ETERM_ED);
          s11mi = snd data - snd (c ETERM_ED);
          err = fst (c ETERM_ER) + s11mr * fst (c ETERM_ES) - s11mi * snd (c ETERM_ES);
          eri = snd (c ETERM_ER) + s11mr * snd (c ETERM_ES) + s11mi * fst (c ETERM_ES);
          sq = err * err + eri * eri
      in if sq \<noteq> 0
         then let inv = 1 / sq in ((s11mr * err + s11mi * eri) * inv, (s11mi * err - s11mr * eri) * inv)
         else (0, 0))"

text \<open>The second channel; \<open>s11\<close> is the corrected reflection, \<open>enhanced\<close> the status flag.\<close>

definition apply_ch1_error_term :: "bool \<Rightarrow> cpair \<Rightarrow> cpair \<Rightarrow> (nat \<Rightarrow> cpair) \<Rightarrow> cpair" where
  "apply_ch1_error_term enhanced s11 data c =
     (let s21mr = fst data - fst (c ETERM_EX);
          s21mi = snd data - snd (c ETERM_EX);
          d2 = s21mr * fst (c ETERM_ET) - s21mi * snd (c ETERM_ET);
          d3 = s21mi * fst (c ETERM_ET) + s21mr * snd (c ETERM_ET)
      in if enhanced
         then let esr = 1 - (fst (c ETERM_ES) * fst s11 - snd (c ETERM_ES) * snd s11);
                  esi = 0 - (snd (c ETERM_ES) * fst s11 + fst (c ETERM_ES) * snd s11)
              in (esr * d2 - esi * d3, esi * d2 + esr * d3)
         else (d2, d3))"

section \<open>One point at a time\<close>

text \<open>
  A routine that treats point \<open>i\<close> on its own: it changes column \<open>i\<close> only and reads nothing
  else. The loops of the solver are such routines, so their result is known point by point.
\<close>

definition pointwise :: "(nat \<Rightarrow> cal_table \<Rightarrow> cal_table) \<Rightarrow> bool" where
  "pointwise f \<longleftrightarrow> (\<forall>i d t j. j \<noteq> i \<longrightarrow> f i d t j = d t j) \<and>
     (\<forall>i d d'. (\<forall>t. d t i = d' t i) \<longrightarrow> (\<forall>t. f i d t i = f i d' t i))"

lemma fold_pointwise:
  assumes "pointwise f"
  shows "fold f [0..<n] d t i = (if i < n then f i d t i else d t i)"
proof (induction n arbitrary: t)
  case 0
  then show ?case by simp
next
  case (Suc n)
  have other: "j \<noteq> k \<Longrightarrow> f k e t j = e t j" for j k e t using assms by (simp add: pointwise_def)
  have same: "(\<forall>t. e t k = e' t k) \<Longrightarrow> f k e t k = f k e' t k" for k e e' t using assms by (simp add: pointwise_def)
  show ?case
  proof (cases "i = n")
    case True
    have "fold f [0..<n] d t' n = d t' n" for t' using Suc.IH unfolding True by simp
    then show ?thesis using same [of "fold f [0..<n] d" n d t] True by simp
  next
    case False
    then show ?thesis using other [of i n "fold f [0..<n] d" t] Suc.IH by auto
  qed
qed

lemma for_points_apply:
  "pointwise f \<Longrightarrow> for_points f n d t i = (if i < unat n then f i d t i else d t i)"
  by (simp add: for_points_def fold_pointwise)

lemma pointwise_put: "pointwise (\<lambda>i. cal_put term i v)"
  by (simp add: pointwise_def cal_put_def)

lemma pointwise_es: "pointwise es_point"
  unfolding pointwise_def es_point_def Let_def cal_put_def by (simp add: ETERM_ES_def)

lemma pointwise_er: "pointwise (er_point sign)"
  unfolding pointwise_def er_point_def Let_def cal_put_def by (simp add: ETERM_ER_def case_prod_beta)

lemma pointwise_et: "pointwise et_point"
  unfolding pointwise_def et_point_def Let_def cal_put_def by (simp add: ETERM_ET_def)

section \<open>In the complex plane\<close>

definition cx :: "cpair \<Rightarrow> complex" where
  "cx p = Complex (fst p) (snd p)"

lemma cx_eq_iff: "cx p = cx q \<longleftrightarrow> p = q"
  by (auto simp: cx_def prod_eq_iff)

lemma cx_Pair: "cx (Re z, Im z) = z"
  by (simp add: cx_def)

lemma cx_zero [simp]: "cx (0, 0) = 0" "cx (1, 0) = 1"
  by (simp_all add: cx_def complex_eq_iff)

lemma complex_divide_parts:
  "Complex a b / Complex c d = Complex ((a * c + b * d) / (c * c + d * d)) ((b * c - a * d) / (c * c + d * d))"
  by (simp add: complex_eq_iff Re_divide Im_divide power2_eq_square)

lemma cmod_cx:
  "(cmod (cx p - cx q))\<^sup>2 = (fst p - fst q) * (fst p - fst q) + (snd p - snd q) * (snd p - snd q)"
  by (simp add: cx_def cmod_power2 power2_eq_square [symmetric])

lemma Complex_arith:
  "Complex a b - Complex c d = Complex (a - c) (b - d)" "Complex a b + Complex c d = Complex (a + c) (b + d)"
  by (simp_all add: complex_eq_iff)

lemma es_point_complex:
  assumes "1 / 10 ^ 20 < (cmod (cx (d CAL_OPEN i) - cx (d CAL_SHORT i)))\<^sup>2"
  shows "cx (es_point i d ETERM_ES i) =
    ((cx (d CAL_OPEN i) - cx (d ETERM_ED i)) + (cx (d CAL_SHORT i) - cx (d ETERM_ED i))) /
    (cx (d CAL_OPEN i) - cx (d CAL_SHORT i))"
proof -
  let ?o = "d CAL_OPEN i" and ?s = "d CAL_SHORT i" and ?e = "d ETERM_ED i"
  have den: "(fst ?o - fst ?e) - (fst ?s - fst ?e) = fst ?o - fst ?s" "(snd ?o - snd ?e) - (snd ?s - snd ?e) = snd ?o - snd ?s"
    by simp_all
  have c: "1 / 10 ^ 20 < (fst ?o - fst ?s) * (fst ?o - fst ?s) + (snd ?o - snd ?s) * (snd ?o - snd ?s)"
    using assms unfolding cmod_cx .
  have "es_point i d ETERM_ES i =
     (let n_r = fst ?o - fst ?e + (fst ?s - fst ?e); n_i = snd ?o - snd ?e + (snd ?s - snd ?e);
          d_r = fst ?o - fst ?s; d_i = snd ?o - snd ?s
      in ((n_r * d_r + n_i * d_i) / (d_r * d_r + d_i * d_i), (n_i * d_r - n_r * d_i) / (d_r * d_r + d_i * d_i)))"
    unfolding es_point_def Let_def den using c by (simp add: cal_put_def)
  then show ?thesis
    by (simp add: cx_def Let_def complex_divide_parts [symmetric] Complex_arith)
qed

lemma er_point_complex:
  assumes "sign \<noteq> 0"
  shows "cx (er_point sign i d ETERM_ER i) =
    of_int (sgn sign) * (1 - of_int (sgn sign) * cx (d ETERM_ES i)) * (cx (d CAL_SHORT i) - cx (d ETERM_ED i))"
  using assms
  by (cases "sign > 0")
    (auto simp: er_point_def Let_def cal_put_def cx_def complex_eq_iff algebra_simps sgn_if)

lemma et_point_complex:
  assumes "1 / 10 ^ 20 < (cmod (cx (d CAL_THRU i) - cx (d CAL_ISOLN i)))\<^sup>2"
  shows "cx (et_point i d ETERM_ET i) = 1 / (cx (d CAL_THRU i) - cx (d CAL_ISOLN i))"
proof -
  let ?r = "fst (d CAL_THRU i) - fst (d CAL_ISOLN i)" and ?i = "snd (d CAL_THRU i) - snd (d CAL_ISOLN i)"
  have c: "1 / 10 ^ 20 < ?r * ?r + ?i * ?i" using assms unfolding cmod_cx .
  have one: "1 = Complex 1 0" by (simp add: complex_eq_iff)
  have "et_point i d ETERM_ET i = (?r / (?r * ?r + ?i * ?i), - ?i / (?r * ?r + ?i * ?i))"
    unfolding et_point_def Let_def using c by (simp add: cal_put_def)
  then show ?thesis unfolding one by (simp add: cx_def complex_divide_parts Complex_arith)
qed

lemma ch0_complex:
  "cx (apply_ch0_error_term data c) =
    (cx data - cx (c ETERM_ED)) / (cx (c ETERM_ER) + (cx data - cx (c ETERM_ED)) * cx (c ETERM_ES))"
proof -
  define m where "m = cx data - cx (c ETERM_ED)"
  define e where "e = cx (c ETERM_ER) + m * cx (c ETERM_ES)"
  have m: "m = Complex (fst data - fst (c ETERM_ED)) (snd data - snd (c ETERM_ED))" by (simp add: m_def cx_def Complex_arith)
  let ?mr = "fst data - fst (c ETERM_ED)" and ?mi = "snd data - snd (c ETERM_ED)"
  let ?er = "fst (c ETERM_ER) + ?mr * fst (c ETERM_ES) - ?mi * snd (c ETERM_ES)"
  let ?ei = "snd (c ETERM_ER) + ?mr * snd (c ETERM_ES) + ?mi * fst (c ETERM_ES)"
  have e: "e = Complex ?er ?ei" by (simp add: e_def m cx_def complex_eq_iff)
  have "m / e = cx (apply_ch0_error_term data c)"
    unfolding m e complex_divide_parts by (simp add: apply_ch0_error_term_def Let_def cx_def complex_eq_iff)
  then show ?thesis by (simp add: e_def m_def)
qed

lemma ch1_complex:
  "cx (apply_ch1_error_term enh s11 data c) =
    (cx data - cx (c ETERM_EX)) * cx (c ETERM_ET) * (if enh then 1 - cx (c ETERM_ES) * cx s11 else 1)"
  by (simp add: apply_ch1_error_term_def Let_def cx_def complex_eq_iff algebra_simps)

section \<open>The solved table\<close>

lemma cal_has_bits:
  "cal_has CALSTAT_LOAD s = bit (cal_status s) 0" "cal_has CALSTAT_OPEN s = bit (cal_status s) 1"
  "cal_has CALSTAT_SHORT s = bit (cal_status s) 2" "cal_has CALSTAT_THRU s = bit (cal_status s) 3"
  "cal_has CALSTAT_ISOLN s = bit (cal_status s) 4" "cal_has CALSTAT_ES s = bit (cal_status s) 5"
  "cal_has CALSTAT_ER s = bit (cal_status s) 6" "cal_has CALSTAT_ET s = bit (cal_status s) 7"
  "cal_has CALSTAT_APPLY s = bit (cal_status s) 8" "cal_has CALSTAT_INTERPOLATED s = bit (cal_status s) 9"
proof -
  have *: "x AND 1 \<noteq> 0 \<longleftrightarrow> bit x 0" "x AND 2 \<noteq> 0 \<longleftrightarrow> bit x 1" "x AND 4 \<noteq> 0 \<longleftrightarrow> bit x 2" "x AND 8 \<noteq> 0 \<longleftrightarrow> bit x 3"
    "x AND 16 \<noteq> 0 \<longleftrightarrow> bit x 4" "x AND 32 \<noteq> 0 \<longleftrightarrow> bit x 5" "x AND 64 \<noteq> 0 \<longleftrightarrow> bit x 6" "x AND 128 \<noteq> 0 \<longleftrightarrow> bit x 7"
    "x AND 256 \<noteq> 0 \<longleftrightarrow> bit x 8" "x AND 512 \<noteq> 0 \<longleftrightarrow> bit x 9" for x :: u16
    by (rule and_flag_iff, simp)+
  show "cal_has CALSTAT_LOAD s = bit (cal_status s) 0" "cal_has CALSTAT_OPEN s = bit (cal_status s) 1"
    "cal_has CALSTAT_SHORT s = bit (cal_status s) 2" "cal_has CALSTAT_THRU s = bit (cal_status s) 3"
    "cal_has CALSTAT_ISOLN s = bit (cal_status s) 4" "cal_has CALSTAT_ES s = bit (cal_status s) 5"
    "cal_has CALSTAT_ER s = bit (cal_status s) 6" "cal_has CALSTAT_ET s = bit (cal_status s) 7"
    "cal_has CALSTAT_APPLY s = bit (cal_status s) 8" "cal_has CALSTAT_INTERPOLATED s = bit (cal_status s) 9"
    by (simp_all only: cal_has_def cal_flags CALSTAT_INTERPOLATED_def *)
qed

lemma flag_bits:
  "bit (CALSTAT_OPEN) n \<longleftrightarrow> n = 1" "bit (CALSTAT_SHORT) n \<longleftrightarrow> n = 2" "bit (CALSTAT_THRU) n \<longleftrightarrow> n = 3"
  "bit (CALSTAT_ES) n \<longleftrightarrow> n = 5" "bit (CALSTAT_ER) n \<longleftrightarrow> n = 6" "bit (CALSTAT_ET) n \<longleftrightarrow> n = 7" "bit (CALSTAT_APPLY) n \<longleftrightarrow> n = 8"
  unfolding cal_flags by (rule bit_flag_iff, simp, simp)+

lemmas cal_steps = eterm_set_def eterm_copy_def eterm_calc_es_def eterm_calc_er_def eterm_calc_et_def
lemmas cal_bits = cal_has_bits flag_bits bit_or_iff bit_and_iff bit_not_iff possible_bit_def

lemma solve_points:
  assumes "i < unat (ca_points s)"
  shows "cal_data (eterm_set t0 re im s) t i = cal_put t0 i (re, im) (cal_data s) t i"
    "cal_data (eterm_calc_es s) t i = es_point i (cal_data s) t i"
    "cal_data (eterm_calc_er sign s) t i = er_point sign i (cal_data s) t i"
    "cal_data (eterm_calc_et s) t i = et_point i (cal_data s) t i"
  using assms by (simp_all add: cal_steps for_points_apply pointwise_put pointwise_es pointwise_er pointwise_et)

lemma row_kept:
  "t \<noteq> ETERM_ES \<Longrightarrow> es_point i d t j = d t j" "t \<noteq> ETERM_ER \<Longrightarrow> er_point sign i d t j = d t j"
  "t \<noteq> ETERM_ET \<Longrightarrow> et_point i d t j = d t j" "t \<noteq> t0 \<Longrightarrow> cal_put t0 i v d t j = d t j" "cal_put t0 i v d t0 i = v"
  by (simp_all add: es_point_def er_point_def et_point_def cal_put_def Let_def case_prod_beta)

lemma solve_same [simp]:
  "ca_points (eterm_set t re im s) = ca_points s" "ca_points (eterm_calc_es s) = ca_points s"
  "ca_points (eterm_calc_er sign s) = ca_points s" "ca_points (eterm_calc_et s) = ca_points s"
  "ca_points (eterm_copy a b s) = ca_points s"
  "cal_status (eterm_set t re im s) = cal_status s" "cal_status (eterm_copy a b s) = cal_status s"
  by (simp_all add: cal_steps)

text \<open>With all five standards collected nothing is defaulted.\<close>

lemma cal_done_full:
  assumes i: "i < unat (ca_points s)"
    and flags: "cal_has CALSTAT_LOAD s" "cal_has CALSTAT_OPEN s" "cal_has CALSTAT_SHORT s" "cal_has CALSTAT_THRU s" "cal_has CALSTAT_ISOLN s"
  shows "cal_data (cal_done s) ETERM_ED i = cal_data s CAL_LOAD i"
    "cal_data (cal_done s) ETERM_EX i = cal_data s CAL_ISOLN i"
    "cal_data (cal_done s) ETERM_ES i = es_point i (cal_data s) ETERM_ES i"
    "cal_data (cal_done s) ETERM_ER i = er_point (-1) i (es_point i (cal_data s)) ETERM_ER i"
    "cal_data (cal_done s) ETERM_ET i = et_point i (cal_data s) ETERM_ET i"
    "cal_has CALSTAT_APPLY (cal_done s)"
proof -
  define s0 where "s0 = s\<lparr>ca_in_progress := True\<rparr>"
  define s1 where "s1 = eterm_calc_es s0"
  define s2 where "s2 = eterm_calc_er (-1) s1"
  define s3 where "s3 = eterm_calc_et s2"
  have b: "bit (cal_status s) 0" "bit (cal_status s) 1" "bit (cal_status s) 2" "bit (cal_status s) 3" "bit (cal_status s) 4"
    using flags by (simp_all add: cal_has_bits)
  have st: "cal_status s0 = cal_status s" "ca_points s0 = ca_points s" "cal_data s0 = cal_data s" by (simp_all add: s0_def)
  have solve: "cal_solve s0 = s2" using b st by (simp add: cal_solve_def s2_def s1_def cal_has_bits)
  have t: "cal_has CALSTAT_THRU s2" using b st by (simp add: s2_def s1_def cal_steps cal_bits)
  have d: "cal_has CALSTAT_ET s3" "cal_has CALSTAT_ER s3" "cal_has CALSTAT_ES s3"
    by (simp_all add: s3_def s2_def s1_def cal_steps cal_bits)
  have done': "cal_done s = s3\<lparr>cal_status := cal_status s3 OR CALSTAT_APPLY, ca_lastsaveid := 0xFFFF, ca_in_progress := False\<rparr>"
    unfolding cal_done_def s0_def [symmetric] Let_def using b st solve t d by (simp add: cal_has_bits s3_def)
  have data: "cal_data (cal_done s) t i = et_point i (cal_data s2) t i" for t
    using i by (simp add: done' s3_def solve_points s2_def s1_def st)
  have d2: "cal_data s2 t i = er_point (-1) i (cal_data s1) t i" "cal_data s1 t i = es_point i (cal_data s) t i" for t
    using i by (simp_all add: s2_def s1_def solve_points st)
  have cong: "(\<And>t. d t i = d' t i) \<Longrightarrow> et_point i d t i = et_point i d' t i" "(\<And>t. d t i = d' t i) \<Longrightarrow> er_point sign i d t i = er_point sign i d' t i"
    for d d' t sign using pointwise_et pointwise_er by (auto simp: pointwise_def)
  show "cal_has CALSTAT_APPLY (cal_done s)" by (simp add: done' cal_bits)
  show "cal_data (cal_done s) ETERM_ED i = cal_data s CAL_LOAD i" "cal_data (cal_done s) ETERM_EX i = cal_data s CAL_ISOLN i"
    "cal_data (cal_done s) ETERM_ES i = es_point i (cal_data s) ETERM_ES i"
    by (simp_all add: data d2 row_kept cal_rows)
  show "cal_data (cal_done s) ETERM_ER i = er_point (-1) i (es_point i (cal_data s)) ETERM_ER i"
    using cong(2) [of "cal_data s1" "es_point i (cal_data s)"] by (simp add: data d2 row_kept cal_rows)
  show "cal_data (cal_done s) ETERM_ET i = et_point i (cal_data s) ETERM_ET i"
  proof -
    have "cal_data s2 CAL_THRU i = cal_data s CAL_THRU i" "cal_data s2 CAL_ISOLN i = cal_data s CAL_ISOLN i"
      by (simp_all add: d2 row_kept cal_rows)
    then show ?thesis by (simp add: data et_point_def cal_put_def Let_def)
  qed
qed

section \<open>Calibration inverts the error model\<close>

text \<open>
  The error model of the instrument: a one port of reflection \<open>g\<close> is measured as
  \<open>raw_reflection\<close>, a transmission \<open>t\<close> behind that port as \<open>raw_transmission\<close>. Ideal open,
  short and load have the reflections 1, -1 and 0.
\<close>

definition raw_reflection :: "complex \<Rightarrow> complex \<Rightarrow> complex \<Rightarrow> complex \<Rightarrow> complex" where
  "raw_reflection ed es er g = ed + er * g / (1 - es * g)"

definition raw_transmission :: "complex \<Rightarrow> complex \<Rightarrow> complex \<Rightarrow> complex" where
  "raw_transmission ex et t = ex + et * t"

text \<open>
  C4 When the five standards of a point were measured through an error
  model, \<open>cal_done\<close> solves for its terms and the correction routines invert it: the corrected
  reflection and transmission of any device are the true ones. (Open and short must differ by
  more than the solver's threshold, and the thru from the isolation.)
\<close>

theorem calibration_recovers:
  assumes "i < unat (ca_points s)"
    and "cal_has CALSTAT_LOAD s" "cal_has CALSTAT_OPEN s" "cal_has CALSTAT_SHORT s" "cal_has CALSTAT_THRU s" "cal_has CALSTAT_ISOLN s"
    and "cx (cal_data s CAL_LOAD i) = raw_reflection ed es er 0"
    and "cx (cal_data s CAL_OPEN i) = raw_reflection ed es er 1"
    and "cx (cal_data s CAL_SHORT i) = raw_reflection ed es er (-1)"
    and "cx (cal_data s CAL_THRU i) = raw_transmission ex et 1"
    and "cx (cal_data s CAL_ISOLN i) = raw_transmission ex et 0"
    and "es \<noteq> 1" "es \<noteq> -1" "1 / 10 ^ 20 < (cmod (raw_reflection ed es er 1 - raw_reflection ed es er (-1)))\<^sup>2" "1 / 10 ^ 20 < (cmod et)\<^sup>2"
    and "es * cx g \<noteq> 1" "cx m1 = raw_reflection ed es er (cx g)" "cx m2 = raw_transmission ex et (cx t)"
  shows "apply_ch0_error_term m1 (\<lambda>k. cal_data (cal_done s) k i) = g \<and>
    apply_ch1_error_term False g m2 (\<lambda>k. cal_data (cal_done s) k i) = t"
proof -
  note full = cal_done_full [OF assms(1-6)]
  have er0: "er \<noteq> 0"
  proof
    assume "er = 0"
    then show False using assms(14) by (simp add: raw_reflection_def)
  qed
  have diff: "raw_reflection ed es er 1 - raw_reflection ed es er (-1) = 2 * er / ((1 - es) * (1 + es))"
    and sum: "(raw_reflection ed es er 1 - ed) + (raw_reflection ed es er (-1) - ed) = 2 * er * es / ((1 - es) * (1 + es))"
  proof -
    have n: "1 - es \<noteq> 0" "1 + es \<noteq> 0" using assms(12,13) by (auto simp: add_eq_0_iff)
    show "raw_reflection ed es er 1 - raw_reflection ed es er (-1) = 2 * er / ((1 - es) * (1 + es))"
      "(raw_reflection ed es er 1 - ed) + (raw_reflection ed es er (-1) - ed) = 2 * er * es / ((1 - es) * (1 + es))"
      using n by (simp_all add: raw_reflection_def field_simps)
  qed
  have ed: "cx (cal_data s ETERM_ED i) = ed" using assms(7) by (simp add: raw_reflection_def cal_rows)
  have es: "cx (es_point i (cal_data s) ETERM_ES i) = es"
  proof -
    have "cx (es_point i (cal_data s) ETERM_ES i) =
        (2 * er * es / ((1 - es) * (1 + es))) / (2 * er / ((1 - es) * (1 + es)))"
      using es_point_complex [of "cal_data s" i] assms(8,9,14) sum diff ed by simp
    also have "\<dots> = es"
    proof -
      have n: "1 - es \<noteq> 0" "1 + es \<noteq> 0" using assms(12,13) by (auto simp: add_eq_0_iff)
      have "2 * er * es / ((1 - es) * (1 + es)) = es * (2 * er / ((1 - es) * (1 + es)))" by simp
      with er0 n show ?thesis by (simp only: nonzero_mult_div_cancel_right divide_eq_0_iff mult_eq_0_iff) simp
    qed
    finally show ?thesis .
  qed
  have er: "cx (er_point (-1) i (es_point i (cal_data s)) ETERM_ER i) = er"
  proof -
    have "es_point i (cal_data s) CAL_SHORT i = cal_data s CAL_SHORT i" "es_point i (cal_data s) ETERM_ED i = cal_data s ETERM_ED i"
      by (simp_all add: row_kept cal_rows)
    then have "cx (er_point (-1) i (es_point i (cal_data s)) ETERM_ER i) = - ((1 + es) * (raw_reflection ed es er (-1) - ed))"
      using er_point_complex [of "-1" i "es_point i (cal_data s)"] es ed assms(9) by (simp add: algebra_simps)
    also have "\<dots> = er" using assms(13) by (simp add: raw_reflection_def field_simps add_eq_0_iff)
    finally show ?thesis .
  qed
  have et: "cx (et_point i (cal_data s) ETERM_ET i) = 1 / et"
    using et_point_complex [of "cal_data s" i] assms(10,11,15) by (simp add: raw_transmission_def)
  have et0: "et \<noteq> 0" using assms(15) by auto
  let ?c = "\<lambda>k. cal_data (cal_done s) k i"
  have c: "cx (?c ETERM_ED) = ed" "cx (?c ETERM_ES) = es" "cx (?c ETERM_ER) = er" "cx (?c ETERM_ET) = 1 / et" "cx (?c ETERM_EX) = ex"
    using full es er et assms(7,11) by (simp_all add: raw_reflection_def raw_transmission_def)
  have "cx (apply_ch0_error_term m1 ?c) = (er * cx g / (1 - es * cx g)) / (er + er * cx g / (1 - es * cx g) * es)"
    by (simp add: ch0_complex c assms(17) raw_reflection_def)
  also have "er + er * cx g / (1 - es * cx g) * es = er / (1 - es * cx g)" using assms(16) by (simp add: field_simps)
  also have "(er * cx g / (1 - es * cx g)) / (er / (1 - es * cx g)) = cx g" using er0 assms(16) by simp
  finally have 1: "apply_ch0_error_term m1 ?c = g" by (simp add: cx_eq_iff)
  have "cx (apply_ch1_error_term False g m2 ?c) = cx t"
    using et0 by (simp add: ch1_complex c assms(18) raw_transmission_def)
  then show ?thesis using 1 by (simp add: cx_eq_iff)
qed

definition cal_demo :: calibration where
  "cal_demo = \<lparr>cal_data = (\<lambda>t i. [(0, 0), (2, 0), (-2, 0), (1, 0), (0, 0)] ! t), cal_status = 31, cal_sweep_points = 2,
     cal_frequency0 = 1000, cal_frequency1 = 2000, cal_power = 0, ca_points = 2, ca_frequency0 = 1000,
     ca_frequency1 = 2000, ca_power = 0, ca_bandwidth = 7, ca_measured = (\<lambda>_ _. (0, 0)), ca_lastsaveid = 0, ca_in_progress = False\<rparr>"

theorem calibration_recovers_witness:
  "apply_ch0_error_term (1, 0) (\<lambda>k. cal_data (cal_done cal_demo) k 1) = (1 / 2, 0)"
proof -
  have c: "cx (1, 0) = 1" "cx (2, 0) = 2" "cx (-2, 0) = -2" "cx (1 / 2, 0) = 1 / 2"
    by (simp_all add: cx_def complex_eq_iff)
  have "apply_ch0_error_term (1, 0) (\<lambda>k. cal_data (cal_done cal_demo) k 1) = (1 / 2, 0) \<and>
      apply_ch1_error_term False (1 / 2, 0) (1, 0) (\<lambda>k. cal_data (cal_done cal_demo) k 1) = (1, 0)"
  proof (rule calibration_recovers [of 1 cal_demo 0 0 2 0 1])
    show "cx (cal_data cal_demo CAL_LOAD 1) = raw_reflection 0 0 2 0" "cx (cal_data cal_demo CAL_OPEN 1) = raw_reflection 0 0 2 1"
      "cx (cal_data cal_demo CAL_SHORT 1) = raw_reflection 0 0 2 (- 1)"
      "cx (cal_data cal_demo CAL_THRU 1) = raw_transmission 0 1 1" "cx (cal_data cal_demo CAL_ISOLN 1) = raw_transmission 0 1 0"
      by (simp_all add: cal_demo_def raw_reflection_def raw_transmission_def c cal_rows)
  qed (simp_all add: cal_demo_def cal_has_def cal_flags raw_reflection_def raw_transmission_def c)
  then show ?thesis by simp
qed

text \<open>
  With only an open or only a short collected (and a load), \<open>cal_done\<close>
  falls back to a source match of zero and solves for the reflection tracking from the
  standard it has, although the slots of the missing ones hold stale data.
\<close>

theorem partial_calibration:
  assumes "i < unat (ca_points s)" "cal_has CALSTAT_LOAD s"
    and "cx (cal_data s CAL_LOAD i) = raw_reflection ed 0 er 0"
    and "cal_has CALSTAT_OPEN s \<noteq> cal_has CALSTAT_SHORT s"
    and "if cal_has CALSTAT_OPEN s then cx (cal_data s CAL_OPEN i) = raw_reflection ed 0 er 1
         else cx (cal_data s CAL_SHORT i) = raw_reflection ed 0 er (-1)"
    and "er \<noteq> 0" "cx m = raw_reflection ed 0 er (cx g)"
  shows "apply_ch0_error_term m (\<lambda>k. cal_data (cal_done s) k i) = g"
proof -
  define s0 where "s0 = s\<lparr>ca_in_progress := True\<rparr>"
  define s1 where "s1 = (if \<not> cal_has CALSTAT_ISOLN s0 then eterm_set ETERM_EX 0 0 s0 else s0)"
  define s2 where "s2 = cal_solve s1"
  define s3 where "s3 = (if cal_has CALSTAT_THRU s2 then eterm_calc_et s2 else s2)"
  define s4 where "s4 = (if \<not> cal_has CALSTAT_ET s3 then eterm_set ETERM_ET 1 0 s3 else s3)"
  have s0: "cal_status s0 = cal_status s" "ca_points s0 = ca_points s" "cal_data s0 = cal_data s" by (simp_all add: s0_def)
  have s1: "cal_status s1 = cal_status s" "ca_points s1 = ca_points s" by (simp_all add: s1_def s0)
  have rows1: "cal_data s1 t j = cal_data s t j" if "t \<noteq> ETERM_EX" for t j
    using that by (simp add: s1_def s0 eterm_set_def for_points_apply pointwise_put row_kept)
  have rows2: "cal_data s2 ETERM_ED i = cal_data s ETERM_ED i \<and> cal_data s2 ETERM_ES i = (0, 0) \<and> cx (cal_data s2 ETERM_ER i) = er \<and>
      cal_has CALSTAT_ER s2"
  proof (cases "cal_has CALSTAT_OPEN s")
    case True
    define t where "t = eterm_set ETERM_ES 0 0 ((eterm_copy CAL_SHORT CAL_OPEN s1)\<lparr>cal_status := cal_status s1 AND NOT CALSTAT_OPEN\<rparr>)"
    have t: "cal_data t ETERM_ED i = cal_data s ETERM_ED i" "cal_data t ETERM_ES i = (0, 0)" "cal_data t CAL_SHORT i = cal_data s CAL_OPEN i"
      "ca_points t = ca_points s"
      using assms(1) by (simp_all add: t_def eterm_set_def eterm_copy_def for_points_apply pointwise_put s1 row_kept rows1 cal_rows)
    have "s2 = eterm_calc_er 1 t"
      using True assms(4) by (simp add: s2_def cal_solve_def cal_has_bits s1 t_def Let_def)
    then show ?thesis
      using t assms er_point_complex [of 1 i "cal_data t"] True
      by (simp add: solve_points row_kept cal_rows raw_reflection_def) (simp add: eterm_calc_er_def cal_bits)
  next
    case False
    define t where "t = eterm_set ETERM_ES 0 0 s1"
    have t: "cal_data t ETERM_ED i = cal_data s ETERM_ED i" "cal_data t ETERM_ES i = (0, 0)" "cal_data t CAL_SHORT i = cal_data s CAL_SHORT i"
      "ca_points t = ca_points s"
      using assms(1) by (simp_all add: t_def eterm_set_def for_points_apply pointwise_put s1 row_kept rows1 cal_rows)
    have "s2 = eterm_calc_er (-1) t"
      using False assms(4) by (simp add: s2_def cal_solve_def cal_has_bits s1 t_def Let_def)
    then show ?thesis
      using t assms er_point_complex [of "-1" i "cal_data t"] False
      by (simp add: solve_points row_kept cal_rows raw_reflection_def) (simp add: eterm_calc_er_def cal_bits)
  qed
  have rows3: "cal_data s4 t j = cal_data s2 t j" if "t \<noteq> ETERM_ET" for t j
    using that by (simp add: s4_def s3_def eterm_set_def eterm_calc_et_def for_points_apply pointwise_put pointwise_et row_kept)
  have st4: "cal_has CALSTAT_ER s4" "cal_has CALSTAT_ES s4 = cal_has CALSTAT_ES s2" "ca_points s4 = ca_points s"
    using rows2 by (auto simp: s4_def s3_def eterm_set_def eterm_calc_et_def cal_bits)
      (simp_all add: s2_def cal_solve_def cal_steps Let_def s1)
  have d: "cal_data (cal_done s) t i = (if \<not> cal_has CALSTAT_ES s4 then cal_put ETERM_ES i (0, 0) (cal_data s4) t i else cal_data s4 t i)" for t
  proof -
    have "cal_has CALSTAT_LOAD s0" using assms(2) s0 by (simp add: cal_has_def)
    then have "cal_done s = (let s = if \<not> cal_has CALSTAT_ES s4 then eterm_set ETERM_ES 0 0 s4 else s4
        in s\<lparr>cal_status := cal_status s OR CALSTAT_APPLY, ca_lastsaveid := 0xFFFF, ca_in_progress := False\<rparr>)"
      using st4(1) by (simp only: cal_done_def Let_def s0_def [symmetric] not_True_eq_False if_False s1_def [symmetric]
          s2_def [symmetric] s3_def [symmetric] s4_def [symmetric])
    then show ?thesis using assms(1) st4 by (simp add: Let_def solve_points)
  qed
  have c: "cx (cal_data (cal_done s) ETERM_ED i) = ed" "cx (cal_data (cal_done s) ETERM_ER i) = er" "cx (cal_data (cal_done s) ETERM_ES i) = 0"
    using rows2 rows3 assms(3) by (simp_all add: d row_kept cal_rows raw_reflection_def)
  have "cx (apply_ch0_error_term m (\<lambda>k. cal_data (cal_done s) k i)) = cx g"
    using assms(6) by (simp add: ch0_complex c assms(7) raw_reflection_def)
  then show ?thesis by (simp add: cx_eq_iff)
qed

theorem partial_calibration_witness:
  "apply_ch0_error_term (1, 0) (\<lambda>k. cal_data (cal_done (cal_demo\<lparr>cal_status := 3\<rparr>)) k 1) = (1 / 2, 0)"
proof -
  have c: "cx (1, 0) = 1" "cx (2, 0) = 2" "cx (1 / 2, 0) = 1 / 2" by (simp_all add: cx_def complex_eq_iff)
  show ?thesis
    by (rule partial_calibration [of 1 "cal_demo\<lparr>cal_status := 3\<rparr>" 0 2])
      (simp_all add: cal_demo_def cal_has_def cal_flags raw_reflection_def c cal_rows)
qed

section \<open>Collecting a standard\<close>

definition need_interpolate :: "u32 \<Rightarrow> u32 \<Rightarrow> u16 \<Rightarrow> calibration \<Rightarrow> bool" where
  "need_interpolate start stop points s \<longleftrightarrow>
     start \<noteq> cal_frequency0 s \<or> stop \<noteq> cal_frequency1 s \<or> points \<noteq> cal_sweep_points s"

text \<open>The table \<open>calibration_set\<close>: flag to set, mask of the flags kept, destination row, measured channel.\<close>

definition calibration_set :: "nat \<Rightarrow> (u16 \<times> u16 \<times> nat \<times> nat) option" where
  "calibration_set type =
     (if type = CAL_LOAD then Some (CALSTAT_LOAD, NOT CALSTAT_APPLY, CAL_LOAD, 0)
      else if type = CAL_OPEN then Some (CALSTAT_OPEN, NOT (CALSTAT_ES OR CALSTAT_ER OR CALSTAT_APPLY), CAL_OPEN, 0)
      else if type = CAL_SHORT then Some (CALSTAT_SHORT, NOT (CALSTAT_ES OR CALSTAT_ER OR CALSTAT_APPLY), CAL_SHORT, 0)
      else if type = CAL_THRU then Some (CALSTAT_THRU, NOT (CALSTAT_ET OR CALSTAT_APPLY), CAL_THRU, 1)
      else if type = CAL_ISOLN then Some (CALSTAT_ISOLN, NOT CALSTAT_APPLY, CAL_ISOLN, 1)
      else None)"

text \<open>
  \<open>cal_collect\<close>. The sweep is a parameter: the bandwidth and the channel mask it runs with,
  and what it leaves in \<open>measured\<close>; its success is ignored, as in the code. \<open>bw100\<close> is the
  board's \<open>BANDWIDTH_100\<close>. The averaging loop runs \<open>count - 1 = 0\<close> times.
\<close>

definition cal_collect :: "(u16 \<Rightarrow> u16 \<Rightarrow> cal_table \<Rightarrow> bool \<times> cal_table) \<Rightarrow> u16 \<Rightarrow> nat \<Rightarrow> calibration \<Rightarrow> calibration" where
  "cal_collect sweep bw100 type s =
     (case calibration_set type of
        None \<Rightarrow> s
      | Some (set_flag, clr_flag, dst, src) \<Rightarrow>
        let (cal_start, cal_stop) =
              (if ca_frequency0 s \<le> ca_frequency1 s then (ca_frequency0 s, ca_frequency1 s)
               else (ca_frequency1 s, ca_frequency0 s));
            s = (if need_interpolate cal_start cal_stop (ca_points s) s
                 then s\<lparr>cal_status := 0, cal_frequency0 := cal_start, cal_frequency1 := cal_stop, cal_sweep_points := ca_points s\<rparr>
                 else s);
            s = s\<lparr>cal_power := ca_power s\<rparr>;
            s = s\<lparr>cal_status := (cal_status s AND clr_flag) OR set_flag\<rparr>;
            bw = (ucast (ca_bandwidth s) :: u8);
            s = (if (ucast bw :: u16) < bw100 then s\<lparr>ca_bandwidth := bw100\<rparr> else s);
            mask = (if src = 0 then 1 else 2);
            s = s\<lparr>ca_measured := snd (sweep (ca_bandwidth s) mask (ca_measured s))\<rparr>;
            s = s\<lparr>ca_in_progress := True\<rparr>;
            s = s\<lparr>cal_data := (cal_data s)(dst := ca_measured s src)\<rparr>
        in s\<lparr>ca_in_progress := False, ca_bandwidth := (ucast bw :: u16)\<rparr>)"

text \<open>
  \<open>cal_collect\<close> stores one channel of one sweep in the standard's row and
  touches no other row; it marks the standard collected and drops \<open>CALSTAT_APPLY\<close> and the
  terms solved from that standard. When the sweep range differs from the calibrated one all
  earlier flags go and the new range is recorded, so standards of different ranges are never
  combined. The bandwidth is restored only modulo 256 although it has nine bits, and a
  failed sweep is stored and flagged like a good one.
\<close>

theorem collect_effect:
  assumes "calibration_set type = Some (set_flag, clr_flag, dst, src)"
    and "t = cal_collect sweep bw100 type s"
    and "lo = min (ca_frequency0 s) (ca_frequency1 s)" "hi = max (ca_frequency0 s) (ca_frequency1 s)"
  shows "(\<exists>bw mask. cal_data t = (cal_data s)(dst := snd (sweep bw mask (ca_measured s)) src)) \<and> dst = type \<and>
    cal_frequency0 t = lo \<and> cal_frequency1 t = hi \<and> cal_sweep_points t = ca_points s \<and> cal_power t = ca_power s \<and>
    \<not> need_interpolate lo hi (ca_points s) t \<and> \<not> ca_in_progress t \<and>
    cal_status t = ((if need_interpolate lo hi (ca_points s) s then 0 else cal_status s) AND clr_flag) OR set_flag \<and>
    \<not> cal_has CALSTAT_APPLY t \<and>
    unat (ca_bandwidth t) = unat (ca_bandwidth s) mod 256"
proof -
  have lohi: "(if ca_frequency0 s \<le> ca_frequency1 s then (ca_frequency0 s, ca_frequency1 s)
               else (ca_frequency1 s, ca_frequency0 s)) = (lo, hi)"
    using assms(3,4) by (auto simp: min_def max_def)
  have "\<not> bit clr_flag 8" "\<not> bit set_flag 8" "dst = type"
    using assms(1) by (auto simp: calibration_set_def cal_bits cal_rows bit_flag_iff [of _ CALSTAT_LOAD] split: if_splits)
      (simp_all add: cal_flags bit_numeral_rec)
  then show ?thesis
    unfolding assms(2) cal_collect_def assms(1) option.case prod.case lohi Let_def
    by (auto simp: need_interpolate_def cal_has_bits bit_or_iff bit_and_iff unsigned_ucast_eq take_bit_eq_mod unat_mod_distrib)
qed

theorem collect_effect_witness:
  "ca_bandwidth (cal_collect (\<lambda>bw mask m. (False, m)) 39 CAL_OPEN (cal_demo\<lparr>ca_bandwidth := 300\<rparr>)) = 44"
proof -
  let ?t = "cal_collect (\<lambda>bw mask m. (False, m)) 39 CAL_OPEN (cal_demo\<lparr>ca_bandwidth := 300\<rparr>)"
  have "calibration_set CAL_OPEN = Some (CALSTAT_OPEN, NOT (CALSTAT_ES OR CALSTAT_ER OR CALSTAT_APPLY), CAL_OPEN, 0)"
    by (simp add: calibration_set_def cal_rows)
  from collect_effect [OF this refl refl refl, of "\<lambda>bw mask m. (False, m)" 39 "cal_demo\<lparr>ca_bandwidth := 300\<rparr>"]
  have "unat (ca_bandwidth ?t) = 300 mod 256" by simp
  then show ?thesis by (simp add: word_unat_eq_iff)
qed

section \<open>Interpolating the error terms\<close>

text \<open>
  \<open>cal_interpolate\<close>: the terms for point \<open>idx\<close>, or for frequency \<open>f\<close> when \<open>idx\<close> is negative.
  \<open>lvl\<close> is \<open>si5351_get_harmonic_lvl\<close>. The 64 bit products cannot overflow and are naturals.
\<close>

definition lerp :: "real \<Rightarrow> cpair \<Rightarrow> cpair \<Rightarrow> cpair" where
  "lerp k p q = (fst p + k * (fst q - fst p), snd p + k * (snd q - snd p))"

definition cal_interpolate :: "(u32 \<Rightarrow> u32) \<Rightarrow> int \<Rightarrow> u32 \<Rightarrow> calibration \<Rightarrow> nat \<Rightarrow> cpair" where
  "cal_interpolate lvl idx f s eterm =
     (let src_points = unat (cal_sweep_points s - 1) in
      if idx \<ge> 0 then cal_data s eterm (nat idx)
      else if f \<le> cal_frequency0 s then cal_data s eterm 0
      else if f \<ge> cal_frequency1 s then cal_data s eterm src_points
      else
        let span = cal_frequency1 s - cal_frequency0 s;
            idx = unat (f - cal_frequency0 s) * src_points div unat span;
            v = unat span * idx + src_points div 2;
            src_f0 = cal_frequency0 s + of_nat (v div src_points);
            src_f1 = cal_frequency0 s + of_nat ((v + unat span) div src_points);
            delta = src_f1 - src_f0
        in if f = src_f0 then cal_data s eterm idx
           else
             let k = (if delta = 0 then 0 else real (unat (f - src_f0)) / real (unat delta));
                 hf0 = lvl src_f0
             in if hf0 \<noteq> lvl src_f1
                then if hf0 = lvl f
                     then if idx < 1 then cal_data s eterm idx
                          else lerp (k + 1) (cal_data s eterm (idx - 1)) (cal_data s eterm idx)
                     else if int idx \<ge> int src_points - 1 then cal_data s eterm idx
                          else lerp (k - 1) (cal_data s eterm (idx + 1)) (cal_data s eterm (idx + 2))
                else lerp k (cal_data s eterm idx) (cal_data s eterm (idx + 1)))"

lemma lerp_ends [simp]: "lerp 0 p q = p" "lerp 1 p q = q"
  by (simp_all add: lerp_def)

text \<open>What the routine computes strictly inside the calibrated range.\<close>

lemma interpolate_inside:
  assumes n: "n = unat (cal_sweep_points s) - 1" "0 < n"
    and D: "D = unat (cal_frequency1 s) - unat (cal_frequency0 s)"
    and f: "unat f = unat (cal_frequency0 s) + x" "0 < x" "x < D"
    and i: "i = x * n div D"
  shows "i < n" "grid D n i \<le> x" "x \<le> grid D n (i + 1)"
    "cal_interpolate lvl (-1) f s t =
      (if x = grid D n i then cal_data s t i
       else let k = real (x - grid D n i) / real (grid D n (i + 1) - grid D n i);
                g = (\<lambda>j. cal_frequency0 s + of_nat (grid D n j))
       in if lvl (g i) \<noteq> lvl (g (i + 1))
          then if lvl (g i) = lvl f
               then if i < 1 then cal_data s t i else lerp (k + 1) (cal_data s t (i - 1)) (cal_data s t i)
               else if n \<le> i + 1 then cal_data s t i else lerp (k - 1) (cal_data s t (i + 1)) (cal_data s t (i + 2))
          else lerp k (cal_data s t i) (cal_data s t (i + 1)))"
proof -
  let ?f0 = "cal_frequency0 s" and ?f1 = "cal_frequency1 s"
  show gi: "grid D n i \<le> x" "x \<le> grid D n (i + 1)" using grid_below [of n D i x] n f i by simp_all
  have "x * n < D * n" using f n by simp
  then show "i < n" unfolding i using f by (simp add: div_less_iff_less_mult mult.commute)
  have sp: "unat (cal_sweep_points s - 1) = n"
    using n u16_bound [of "cal_sweep_points s"] by (simp add: unat_sub_if')
  have u1: "unat ?f0 + D = unat ?f1" using D f by simp
  have span: "unat (?f1 - ?f0) = D" using u1 by (simp add: unat_sub_if')
  have fx: "unat (f - ?f0) = x" using f by (simp add: unat_sub_if')
  have lt: "\<not> f \<le> ?f0" "\<not> f \<ge> ?f1" using f u1 by (simp_all add: word_le_nat_alt)
  have gD: "grid D n j \<le> D" if "j \<le> n" for j
    using grid_ends(2) [of n D] n that by (metis div_le_mono grid_def mult_le_mono2 nat_add_left_cancel_le add.commute)
  have ug: "unat (?f0 + of_nat (grid D n j)) = unat ?f0 + grid D n j" if "j \<le> n" for j
    using gD [OF that] u1 u32_bound [of ?f1] by (simp add: unat_word_ariths unat_of_nat)
  have v1: "(D * i + n div 2 + D) div n = grid D n (i + 1)" by (simp add: grid_def algebra_simps)
  have v0: "(D * i + n div 2) div n = grid D n i" by (simp add: grid_def)
  have eq: "f = ?f0 + of_nat (grid D n i) \<longleftrightarrow> x = grid D n i"
    using ug [of i] \<open>i < n\<close> f(1) by (simp add: word_unat_eq_iff)
  let ?g0 = "?f0 + of_nat (grid D n i)" and ?g1 = "?f0 + of_nat (grid D n (i + 1))"
  have d1: "unat (f - ?g0) = x - grid D n i" using ug [of i] \<open>i < n\<close> gi f(1) by (simp add: unat_sub_if')
  have mono: "grid D n i \<le> grid D n (i + 1)" using gi by simp
  have d2: "unat (?g1 - ?g0) = grid D n (i + 1) - grid D n i"
  proof -
    have u: "unat ?g0 = unat ?f0 + grid D n i" "unat ?g1 = unat ?f0 + grid D n (i + 1)"
      using ug [of i] ug [of "i + 1"] \<open>i < n\<close> by simp_all
    then have "?g0 \<le> ?g1" using mono by (simp only: word_le_nat_alt)
    then show ?thesis using u by (simp only: unat_sub)
  qed
  have d0: "?g1 - ?g0 = 0 \<Longrightarrow> x = grid D n i" using d2 gi by (metis diff_is_0_eq le_antisym le_trans unat_0)
  show "cal_interpolate lvl (-1) f s t =
      (if x = grid D n i then cal_data s t i
       else let k = real (x - grid D n i) / real (grid D n (i + 1) - grid D n i);
                g = (\<lambda>j. cal_frequency0 s + of_nat (grid D n j))
       in if lvl (g i) \<noteq> lvl (g (i + 1))
          then if lvl (g i) = lvl f
               then if i < 1 then cal_data s t i else lerp (k + 1) (cal_data s t (i - 1)) (cal_data s t i)
               else if n \<le> i + 1 then cal_data s t i else lerp (k - 1) (cal_data s t (i + 1)) (cal_data s t (i + 2))
          else lerp k (cal_data s t i) (cal_data s t (i + 1)))"
  proof (cases "x = grid D n i")
    case True
    then show ?thesis
      unfolding cal_interpolate_def Let_def sp span fx i [symmetric] v0 v1 using lt eq by simp
  next
    case False
    then have "?g1 - ?g0 \<noteq> 0" using d0 by blast
    moreover have "int i \<ge> int n - 1 \<longleftrightarrow> n \<le> i + 1" by linarith
    ultimately show ?thesis
      unfolding cal_interpolate_def Let_def sp span fx i [symmetric] v0 v1 using lt eq False
      by (simp only: d1 d2 if_False if_True simp_thms) simp
  qed
qed

lemma cx_lerp: "cx (lerp k p q) = cx p + of_real k * (cx q - cx p)"
  by (simp add: lerp_def cx_def complex_eq_iff)

text \<open>
  C23 At every frequency of the calibrated sweep the interpolated terms are
  the stored ones, also where the rounding of the frequency grid puts it in the neighbouring
  interval and where the synthesizer changes its harmonic; outside the calibrated range the nearest end
  is used. Strictly between two neighbouring points, at the fraction \<open>k\<close> of the way from the one to the other, the terms are
  those of the line through both points when they have the same harmonic. Else the line
  through the two points before is continued, or that through the two points after, whichever side has the harmonic of
  the frequency, and without two such points the lower neighbour is used.
\<close>

theorem interpolation_correct:
  fixes t :: nat
  assumes "n = unat (cal_sweep_points s) - 1" "0 < n"
    and "D = unat (cal_frequency1 s) - unat (cal_frequency0 s)" "n \<le> D"
  defines "g \<equiv> \<lambda>j. cal_frequency0 s + of_nat (grid D n j)" and "d \<equiv> \<lambda>j. cx (cal_data s t j)"
  shows "(\<forall>j \<le> n. cal_interpolate lvl (-1) (g j) s t = cal_data s t j) \<and>
    (f \<le> cal_frequency0 s \<longrightarrow> cal_interpolate lvl (-1) f s t = cal_data s t 0) \<and>
    (cal_frequency0 s < f \<and> cal_frequency1 s \<le> f \<longrightarrow> cal_interpolate lvl (-1) f s t = cal_data s t n) \<and>
    (\<forall>i < n. g i < f \<and> f < g (i + 1) \<longrightarrow>
       (let k = of_real ((real (unat f) - real (unat (g i))) / (real (unat (g (i + 1))) - real (unat (g i)))) in
        cx (cal_interpolate lvl (-1) f s t) =
          (if lvl (g i) = lvl (g (i + 1)) then (1 - k) * d i + k * d (i + 1)
           else if lvl (g i) = lvl f then (if i = 0 then d i else d i + k * (d i - d (i - 1)))
           else (if i + 1 = n then d i else d (i + 1) - (1 - k) * (d (i + 2) - d (i + 1))))))"
proof (intro conjI allI impI)
  let ?f0 = "cal_frequency0 s"
  have D0: "0 < D" using assms by linarith
  have u1: "unat ?f0 + D = unat (cal_frequency1 s)" using assms(3) D0 by simp
  have f0: "cal_interpolate lvl (-1) f s t = cal_data s t 0" if "f \<le> ?f0" for f
    using that by (simp add: cal_interpolate_def Let_def)
  have sp: "unat (cal_sweep_points s - 1) = n"
    using assms(1,2) u16_bound [of "cal_sweep_points s"] by (simp add: unat_sub_if')
  have f1: "cal_interpolate lvl (-1) f s t = cal_data s t n" if "?f0 < f" "cal_frequency1 s \<le> f" for f
    using that sp unfolding cal_interpolate_def Let_def by (auto dest: leD)
  show "f \<le> ?f0 \<Longrightarrow> cal_interpolate lvl (-1) f s t = cal_data s t 0" by (rule f0)
  show "?f0 < f \<and> cal_frequency1 s \<le> f \<Longrightarrow> cal_interpolate lvl (-1) f s t = cal_data s t n" using f1 by blast
  show "cal_interpolate lvl (-1) (g j) s t = cal_data s t j" if jn: "j \<le> n" for j
  proof -
    define x where "x = grid D n j"
    define f where "f = ?f0 + of_nat x"
    have xD: "x \<le> D" using grid_strict [of n D j n] grid_ends(2) [of n D] assms jn unfolding x_def by (cases "j = n") auto
    have uf: "unat f = unat ?f0 + x"
      using xD u1 u32_bound [of "cal_frequency1 s"] by (simp add: f_def unat_word_ariths unat_of_nat)
    consider "j = 0" | "j = n" "0 < j" | "0 < j" "j < n" using jn by fastforce
    then have "cal_interpolate lvl (-1) f s t = cal_data s t j"
    proof cases
      case 1
      then have "x = 0" using grid_ends(1) [of n D] assms(2) by (simp add: x_def)
      then show ?thesis using f0 [of f] 1 by (simp add: f_def)
    next
      case 2
      then have "x = D" using grid_ends(2) [of n D] assms(2) by (simp add: x_def)
      then have "f = cal_frequency1 s" "?f0 < f" using uf u1 D0 by (simp_all add: word_unat_eq_iff word_less_nat_alt)
      then show ?thesis using f1 [of f] 2 by simp
    next
      case 3
      have x: "0 < x" "x < D"
        using grid_strict [of n D 0 j] grid_strict [of n D j n] grid_ends [of n D] assms 3 by (simp_all add: x_def)
      define i where "i = x * n div D"
      have i: "i \<in> {j - 1, j}" using grid_index [of n D j] assms by (simp add: i_def x_def)
      note ins = interpolate_inside [OF assms(1,2,3) uf x i_def]
      show ?thesis
      proof (cases "i = j")
        case True
        then show ?thesis using ins(4) by (simp add: x_def)
      next
        case False
        then have ij: "i + 1 = j" "i + 1 < n" using i 3 by auto
        have lt: "grid D n i < x" using grid_strict [of n D i j] assms ij by (simp add: x_def)
        have g: "?f0 + of_nat (grid D n (i + 1)) = f" by (simp only: f_def x_def ij(1))
        have k: "real (x - grid D n i) / real (grid D n (i + 1) - grid D n i) = 1"
          using lt ij by (simp add: x_def)
        show ?thesis unfolding ins(4) Let_def g k using lt ij by simp
      qed
    qed
    then show ?thesis by (simp add: f_def x_def g_def)
  qed
  show "let k = of_real ((real (unat f) - real (unat (g i))) / (real (unat (g (i + 1))) - real (unat (g i)))) in
        cx (cal_interpolate lvl (-1) f s t) =
          (if lvl (g i) = lvl (g (i + 1)) then (1 - k) * d i + k * d (i + 1)
           else if lvl (g i) = lvl f then (if i = 0 then d i else d i + k * (d i - d (i - 1)))
           else (if i + 1 = n then d i else d (i + 1) - (1 - k) * (d (i + 2) - d (i + 1))))"
    if i: "i < n" "g i < f \<and> f < g (i + 1)" for i
  proof -
    have gD: "grid D n j \<le> D" if "j \<le> n" for j
      using that grid_strict [of n D j n] grid_ends(2) [of n D] assms by (cases "j = n") auto
    have ug: "unat (g j) = unat ?f0 + grid D n j" if "j \<le> n" for j
      using gD [OF that] u1 u32_bound [of "cal_frequency1 s"] by (simp add: g_def unat_word_ariths unat_of_nat)
    define x where "x = unat f - unat ?f0"
    have fx: "unat ?f0 + grid D n i < unat f" "unat f < unat ?f0 + grid D n (i + 1)"
      using i ug [of i] ug [of "i + 1"] by (auto simp: word_less_nat_alt)
    have between: "grid D n i < x" "x < grid D n (i + 1)" using fx by (auto simp: x_def)
    have x: "unat f = unat ?f0 + x" "0 < x" "x < D"
      using fx gD [of "i + 1"] i(1) by (auto simp: x_def)
    define i' where "i' = x * n div D"
    note ins = interpolate_inside [OF assms(1,2,3) x i'_def]
    have "i' = i"
    proof (rule ccontr)
      assume "i' \<noteq> i"
      then consider "i' + 1 \<le> i" | "i + 1 \<le> i'" by linarith
      then show False
      proof cases
        case 1
        then have "grid D n (i' + 1) \<le> grid D n i"
          using grid_strict [of n D "i' + 1" i] assms i(1) by (cases "i' + 1 = i") auto
        then show False using ins(3) between(1) by linarith
      next
        case 2
        then have "grid D n (i + 1) \<le> grid D n i'"
          using grid_strict [of n D "i + 1" i'] assms ins(1) by (cases "i + 1 = i'") auto
        then show False using ins(2) between(2) by linarith
      qed
    qed
    define q where "q = real (x - grid D n i) / real (grid D n (i + 1) - grid D n i)"
    have k: "(real (unat f) - real (unat (g i))) / (real (unat (g (i + 1))) - real (unat (g i))) = q"
      using ug [of i] ug [of "i + 1"] i(1) x(1) between by (simp add: of_nat_diff q_def)
    have res: "cal_interpolate lvl (-1) f s t =
      (if lvl (g i) \<noteq> lvl (g (i + 1))
       then if lvl (g i) = lvl f
            then if i < 1 then cal_data s t i else lerp (q + 1) (cal_data s t (i - 1)) (cal_data s t i)
            else if n \<le> i + 1 then cal_data s t i else lerp (q - 1) (cal_data s t (i + 1)) (cal_data s t (i + 2))
       else lerp q (cal_data s t i) (cal_data s t (i + 1)))"
      using ins(4) [of lvl t] between(1) unfolding \<open>i' = i\<close> Let_def g_def q_def by simp
    show ?thesis
      unfolding res k Let_def d_def using i(1) by (auto simp: cx_lerp algebra_simps)
  qed
qed

text \<open>A quarter of the way from the first to the second of three points.\<close>

theorem interpolation_correct_witness:
  "cx (cal_interpolate (\<lambda>f. 1) (-1) 1250 (cal_demo\<lparr>cal_data := (\<lambda>t i. (real i, 0)), cal_sweep_points := 3, cal_frequency1 := 3000\<rparr>) CAL_OPEN) = 1 / 4"
proof -
  let ?s = "cal_demo\<lparr>cal_data := (\<lambda>t i. (real i, 0)), cal_sweep_points := 3, cal_frequency1 := 3000\<rparr>"
  have n: "2 = unat (cal_sweep_points ?s) - 1" "2000 = unat (cal_frequency1 ?s) - unat (cal_frequency0 ?s)"
    by (simp_all add: cal_demo_def)
  have g: "cal_frequency0 ?s + of_nat (grid 2000 2 0) = 1000" "cal_frequency0 ?s + of_nat (grid 2000 2 (0 + 1)) = 2000"
    by (simp_all add: cal_demo_def grid_def)
  have d: "cx (cal_data ?s CAL_OPEN 0) = 0" "cx (cal_data ?s CAL_OPEN (0 + 1)) = 1" by (simp_all add: cx_def complex_eq_iff)
  have "(0 :: nat) < 2" "(2 :: nat) \<le> 2000" "(0 :: nat) < 2 \<and> (1000 :: u32) < 1250 \<and> (1250 :: u32) < 2000" by simp_all
  note i = interpolation_correct [OF n(1) this(1) n(2) this(2), where lvl = "\<lambda>f. 1" and t = CAL_OPEN and f = 1250,
      THEN conjunct2, THEN conjunct2, THEN conjunct2, rule_format, of 0, unfolded g d]
  show ?thesis using i by (simp add: Let_def)
qed

end
