(* ===== verification/Dsp.thy ===== *)
theory Dsp
  imports Nvx_Prelude Complex_Main "HOL-Library.Signed_Division"
begin

text \<open>
  The demodulator of \<open>src/src/processing/dsp_backend.c\<close>: the accumulation of one block of audio
  samples against the sine and cosine table in both builds (32 bit sums scaled by 16, and
  the 64 bit multiply-accumulate instructions of the Cortex-M4 declared in
  \<open>src/include/processing/dsp_backend.h\<close>), the reflection computed from the accumulators, and
  the constant tables. C values of type \<open>float\<close> are reals; the 32 and 64 bit sums wrap.
\<close>

section \<open>State\<close>

record 'a dsp =
  acc_samp_s :: 'a
  acc_samp_c :: 'a
  acc_ref_s :: 'a
  acc_ref_c :: 'a

definition reset_dsp_accumerator :: "('a :: zero) dsp \<Rightarrow> 'a dsp" where
  "reset_dsp_accumerator s = \<lparr>acc_samp_s = 0, acc_samp_c = 0, acc_ref_s = 0, acc_ref_c = 0\<rparr>"

definition dsp_snapshot :: "'a dsp \<Rightarrow> 'a \<times> 'a \<times> 'a \<times> 'a" where
  "dsp_snapshot s = (acc_samp_s s, acc_samp_c s, acc_ref_s s, acc_ref_c s)"

definition AUDIO_SAMPLES_COUNT :: nat where "AUDIO_SAMPLES_COUNT = 48"

section \<open>The table\<close>

text \<open>
  \<open>generate_dsp_table\<close>: \<open>sc\<close> is \<open>vna_sincosf\<close> (sine and cosine of a number of turns) and the
  conversion to \<open>int16_t\<close> truncates. \<open>w\<close> advances by \<open>step\<close> from half a step.
\<close>

definition c_trunc :: "real \<Rightarrow> int" where
  "c_trunc x = (if x \<ge> 0 then \<lfloor>x\<rfloor> else \<lceil>x\<rceil>)"

fun table_rows :: "(real \<Rightarrow> real \<times> real) \<Rightarrow> real \<Rightarrow> real \<Rightarrow> nat \<Rightarrow> (int \<times> int) list" where
  "table_rows sc step w 0 = []"
| "table_rows sc step w (Suc n) =
     (case sc w of (s, c) \<Rightarrow> (c_trunc (s * 32700), c_trunc (c * 32700)) # table_rows sc step (w + step) n)"

definition generate_dsp_table :: "(real \<Rightarrow> real \<times> real) \<Rightarrow> real \<Rightarrow> int \<Rightarrow> nat \<Rightarrow> (int \<times> int) list" where
  "generate_dsp_table sc audio_freq offset samples =
     (let step = of_int offset / audio_freq; w = step / 2 in table_rows sc step w samples)"

section \<open>Accumulation with 32 bit sums\<close>

definition s32 :: "int \<Rightarrow> int" where
  "s32 x = signed_take_bit 31 x"

text \<open>One pass over a sample pair: reference and sample, sine and cosine.\<close>

fun dsp_sums :: "(int \<times> int) list \<Rightarrow> (int \<times> int) list \<Rightarrow> int \<times> int \<times> int \<times> int \<Rightarrow> int \<times> int \<times> int \<times> int" where
  "dsp_sums ((rf, smp) # cap) ((sn, cn) # tbl) (ss, sc, rs, rc) =
     dsp_sums cap tbl
       (s32 (ss + (smp * sn) sdiv 16), s32 (sc + (smp * cn) sdiv 16),
        s32 (rs + (rf * sn) sdiv 16), s32 (rc + (rf * cn) sdiv 16))"
| "dsp_sums _ _ acc = acc"

text \<open>\<open>length\<close> counts half-words; the loop body runs at least once.\<close>

definition dsp_pairs :: "nat \<Rightarrow> nat" where
  "dsp_pairs len = (if len = 0 then 1 else (len + 1) div 2)"

definition dsp_process :: "(int \<times> int) list \<Rightarrow> (int \<times> int) list \<Rightarrow> nat \<Rightarrow> real dsp \<Rightarrow> real dsp option" where
  "dsp_process tbl capture len s =
     (let n = dsp_pairs len in
      if n > length tbl \<or> n > length capture then None
      else case dsp_sums (take n capture) (take n tbl) (0, 0, 0, 0) of (ss, sc, rs, rc) \<Rightarrow>
        Some \<lparr>acc_samp_s = acc_samp_s s + of_int ss, acc_samp_c = acc_samp_c s + of_int sc,
              acc_ref_s = acc_ref_s s + of_int rs, acc_ref_c = acc_ref_c s + of_int rc\<rparr>)"

section \<open>Accumulation with the DSP instructions\<close>

definition halfword :: "nat \<Rightarrow> u32 \<Rightarrow> int" where
  "halfword h x = sint (ucast (drop_bit (16 * h) x) :: u16)"

definition smlalbb :: "u64 \<Rightarrow> u32 \<Rightarrow> u32 \<Rightarrow> u64" where
  "smlalbb acc x y = acc + of_int (halfword 0 x * halfword 0 y)"

definition smlalbt :: "u64 \<Rightarrow> u32 \<Rightarrow> u32 \<Rightarrow> u64" where
  "smlalbt acc x y = acc + of_int (halfword 0 x * halfword 1 y)"

definition smlaltb :: "u64 \<Rightarrow> u32 \<Rightarrow> u32 \<Rightarrow> u64" where
  "smlaltb acc x y = acc + of_int (halfword 1 x * halfword 0 y)"

definition smlaltt :: "u64 \<Rightarrow> u32 \<Rightarrow> u32 \<Rightarrow> u64" where
  "smlaltt acc x y = acc + of_int (halfword 1 x * halfword 1 y)"

fun dsp_words :: "u32 list \<Rightarrow> u32 list \<Rightarrow> u64 dsp \<Rightarrow> u64 dsp" where
  "dsp_words (sr # cap) (sc # tbl) s =
     dsp_words cap tbl
       \<lparr>acc_samp_s = smlaltb (acc_samp_s s) sr sc, acc_samp_c = smlaltt (acc_samp_c s) sr sc,
        acc_ref_s = smlalbb (acc_ref_s s) sr sc, acc_ref_c = smlalbt (acc_ref_c s) sr sc\<rparr>"
| "dsp_words _ _ s = s"

definition dsp_process_m4 :: "u32 list \<Rightarrow> u32 list \<Rightarrow> nat \<Rightarrow> u64 dsp \<Rightarrow> u64 dsp option" where
  "dsp_process_m4 tbl capture len s =
     (let n = max 1 (len div 2) in
      if n > length tbl \<or> n > length capture then None
      else Some (dsp_words (take n capture) (take n tbl) s))"

section \<open>Results\<close>

definition calculate_gamma :: "real dsp \<Rightarrow> real \<times> real" where
  "calculate_gamma s =
     (case dsp_snapshot s of (ss, sc, rs, rc) \<Rightarrow>
        let mag_sq = rc * rc + rs * rs in
        if mag_sq = 0 then (0, 0)
        else let inv_mag = 1 / mag_sq
             in ((sc * rc + ss * rs) * inv_mag, (ss * rc - sc * rs) * inv_mag))"

definition fetch_amplitude :: "real dsp \<Rightarrow> real \<times> real" where
  "fetch_amplitude s = (case dsp_snapshot s of (ss, sc, _, _) \<Rightarrow> (ss * (1 / 10 ^ 9), sc * (1 / 10 ^ 9)))"

definition fetch_amplitude_ref :: "real dsp \<Rightarrow> real \<times> real" where
  "fetch_amplitude_ref s = (case dsp_snapshot s of (_, _, rs, rc) \<Rightarrow> (rs * (1 / 10 ^ 9), rc * (1 / 10 ^ 9)))"

section \<open>The constant tables\<close>

text \<open>
  The tables of the builds with a fixed intermediate frequency, with the initialisers as
  written; an array of 48 rows keeps zeros in the rows that have none.
\<close>

definition fill_rows :: "(int \<times> int) list \<Rightarrow> (int \<times> int) list" where
  "fill_rows rows = rows @ replicate (48 - length rows) (0, 0)"

definition sincos_tbl_7000 :: "(int \<times> int) list" where
  "sincos_tbl_7000 = [
     (14493, 29389), (32138, 6393), (24636, -21605), (-2143, -32698), (-27246, -18205), (-31029, 10533),
     (-10533, 31029), (18205, 27246), (32698, 2143), (21605, -24636), (-6393, -32138), (-29389, -14493),
     (-29389, 14493), (-6393, 32138), (21605, 24636), (32698, -2143), (18205, -27246), (-10533, -31029),
     (-31029, -10533), (-27246, 18205), (-2143, 32698), (24636, 21605), (32138, -6393), (14493, -29389),
     (-14493, -29389), (-32138, -6393), (-24636, 21605), (2143, 32698), (27246, 18205), (31029, -10533),
     (10533, -31029), (-18205, -27246), (-32698, -2143), (-21605, 24636), (6393, 32138), (29389, 14493),
     (29389, -14493), (6393, -32138), (-21605, -24636), (-32698, 2143), (-18205, 27246), (10533, 31029),
     (31029, 10533), (27246, -18205), (2143, -32698), (-24636, -21605), (-32138, 6393), (-14493, 29389)]"

definition sincos_tbl_6000 :: "(int \<times> int) list" where
  "sincos_tbl_6000 = [
     (6393, 32138), (27246, 18205), (32138, -6393), (18205, -27246), (-6393, -32138), (-27246, -18205),
     (-32138, 6393), (-18205, 27246), (6393, 32138), (27246, 18205), (32138, -6393), (18205, -27246),
     (-6393, -32138), (-27246, -18205), (-32138, 6393), (-18205, 27246), (6393, 32138), (27246, 18205),
     (32138, -6393), (18205, -27246), (-6393, -32138), (-27246, -18205), (-32138, 6393), (-18205, 27246),
     (6393, 32138), (27246, 18205), (32138, -6393), (18205, -27246), (-6393, -32138), (-27246, -18205),
     (-32138, 6393), (-18205, 27246), (6393, 32138), (27246, 18205), (32138, -6393), (18205, -27246),
     (-6393, -32138), (-27246, -18205), (-32138, 6393), (-18205, 27246), (6393, 32138), (27246, 18205),
     (32138, -6393), (18205, -27246), (-6393, -32138), (-27246, -18205), (-32138, 6393), (-18205, 27246)]"

definition sincos_tbl_5000 :: "(int \<times> int) list" where
  "sincos_tbl_5000 = [
     (10533, 31029), (27246, 18205), (32698, -2143), (24636, -21605), (6393, -32138), (-14493, -29389),
     (-29389, -14493), (-32138, 6393), (-21605, 24636), (-2143, 32698), (18205, 27246), (31029, 10533),
     (31029, -10533), (18205, -27246), (-2143, -32698), (-21605, -24636), (-32138, -6393), (-29389, 14493),
     (-14493, 29389), (6393, 32138), (24636, 21605), (32698, 2143), (27246, -18205), (10533, -31029),
     (-10533, -31029), (-27246, -18205), (-32698, 2143), (-24636, 21605), (-6393, 32138), (14493, 29389),
     (29389, 14493), (32138, -6393), (21605, -24636), (2143, -32698), (-18205, -27246), (-31029, -10533),
     (-31029, 10533), (-18205, 27246), (2143, 32698), (21605, 24636), (32138, 6393), (29389, -14493),
     (14493, -29389), (-6393, -32138), (-24636, -21605), (-32698, -2143), (-27246, 18205), (-10533, 31029)]"

definition sincos_tbl_4000 :: "(int \<times> int) list" where
  "sincos_tbl_4000 = [
     (4277, 32488), (19948, 25997), (30274, 12540), (32488, -4277), (25997, -19948), (12540, -30274),
     (-4277, -32488), (-19948, -25997), (-30274, -12540), (-32488, 4277), (-25997, 19948), (-12540, 30274),
     (4277, 32488), (19948, 25997), (30274, 12540), (32488, -4277), (25997, -19948), (12540, -30274),
     (-4277, -32488), (-19948, -25997), (-30274, -12540), (-32488, 4277), (-25997, 19948), (-12540, 30274),
     (4277, 32488), (19948, 25997), (30274, 12540), (32488, -4277), (25997, -19948), (12540, -30274),
     (-4277, -32488), (-19948, -25997), (-30274, -12540), (-32488, 4277), (-25997, 19948), (-12540, 30274),
     (4277, 32488), (19948, 25997), (30274, 12540), (32488, -4277), (25997, -19948), (12540, -30274),
     (-4277, -32488), (-19948, -25997), (-30274, -12540), (-32488, 4277), (-25997, 19948), (-12540, 30274)]"

definition sincos_tbl_3000 :: "(int \<times> int) list" where
  "sincos_tbl_3000 = [
     (3212, 32610), (15447, 28899), (25330, 20788), (31357, 9512), (32610, -3212), (28899, -15447),
     (20788, -25330), (9512, -31357), (-3212, -32610), (-15447, -28899), (-25330, -20788), (-31357, -9512),
     (-32610, 3212), (-28899, 15447), (-20788, 25330), (-9512, 31357), (3212, 32610), (15447, 28899),
     (25330, 20788), (31357, 9512), (32610, -3212), (28899, -15447), (20788, -25330), (9512, -31357),
     (-3212, -32610), (-15447, -28899), (-25330, -20788), (-31357, -9512), (-32610, 3212), (-28899, 15447),
     (-20788, 25330), (-9512, 31357), (3212, 32610), (15447, 28899), (25330, 20788), (31357, 9512),
     (32610, -3212), (28899, -15447), (20788, -25330), (9512, -31357), (-3212, -32610), (-15447, -28899),
     (-25330, -20788), (-31357, -9512), (-32610, 3212), (-28899, 15447), (-20788, 25330), (-9512, 31357)]"

definition sincos_tbl_2000 :: "(int \<times> int) list" where
  "sincos_tbl_2000 = [
     (6393, 32138), (27246, 18205), (32138, -6393), (18205, -27246), (-6393, -32138), (-27246, -18205),
     (-32138, 6393), (-18205, 27246), (6393, 32138), (27246, 18205), (32138, -6393), (18205, -27246),
     (-6393, -32138), (-27246, -18205), (-32138, 6393), (-18205, 27246), (6393, 32138), (27246, 18205),
     (32138, -6393), (18205, -27246), (-6393, -32138), (-27246, -18205), (-32138, 6393), (-18205, 27246),
     (6393, 32138), (27246, 18205), (32138, -6393), (18205, -27246), (-6393, -32138), (-27246, -18205),
     (-32138, 6393), (-18205, 27246), (6393, 32138), (27246, 18205), (32138, -6393), (18205, -27246),
     (-6393, -32138), (-27246, -18205), (-32138, 6393), (-18205, 27246)]"

definition sincos_tbl_1000 :: "(int \<times> int) list" where
  "sincos_tbl_1000 = [
     (3212, 32610), (15447, 28899), (25330, 20788), (31357, 9512), (32610, -3212), (28899, -15447),
     (20788, -25330), (9512, -31357), (-3212, -32610), (-15447, -28899), (-25330, -20788), (-31357, -9512),
     (-32610, 3212), (-28899, 15447), (-20788, 25330), (-9512, 31357), (3212, 32610), (15447, 28899),
     (25330, 20788), (31357, 9512), (32610, -3212), (28899, -15447), (20788, -25330), (9512, -31357),
     (-3212, -32610), (-15447, -28899), (-25330, -20788), (-31357, -9512), (-32610, 3212), (-28899, 15447),
     (-20788, 25330), (-9512, 31357), (3212, 32610), (15447, 28899), (25330, 20788), (31357, 9512),
     (32610, -3212), (28899, -15447), (20788, -25330), (9512, -31357)]"

definition sincos_tbl_default :: "(int \<times> int) list" where
  "sincos_tbl_default = [
     (6393, 32138), (27246, 18205), (32138, -6393), (18205, -27246), (-6393, -32138), (-27246, -18205),
     (-32138, 6393), (-18205, 27246), (6393, 32138), (27246, 18205), (32138, -6393), (18205, -27246),
     (-6393, -32138), (-27246, -18205), (-32138, 6393), (-18205, 27246), (6393, 32138), (27246, 18205),
     (32138, -6393), (18205, -27246), (-6393, -32138), (-27246, -18205), (-32138, 6393), (-18205, 27246),
     (6393, 32138), (27246, 18205), (32138, -6393), (18205, -27246), (-6393, -32138), (-27246, -18205),
     (-32138, 6393), (-18205, 27246), (6393, 32138), (27246, 18205), (32138, -6393), (18205, -27246),
     (-6393, -32138), (-27246, -18205), (-32138, 6393), (-18205, 27246)]"

definition static_tables :: "(int \<times> int) list list" where
  "static_tables = map fill_rows [sincos_tbl_7000, sincos_tbl_6000, sincos_tbl_5000, sincos_tbl_4000,
     sincos_tbl_3000, sincos_tbl_2000, sincos_tbl_1000, sincos_tbl_default]"

section \<open>No overflow\<close>

definition is_s16 :: "int \<Rightarrow> bool" where
  "is_s16 x \<longleftrightarrow> -32768 \<le> x \<and> x \<le> 32767"

definition table_weight :: "(int \<times> int) list \<Rightarrow> int" where
  "table_weight tbl = max (sum_list (map (\<lambda>p. \<bar>fst p\<bar>) tbl)) (sum_list (map (\<lambda>p. \<bar>snd p\<bar>) tbl))"

lemma sdiv16_abs: "\<bar>x sdiv 16\<bar> = \<bar>x\<bar> div 16" for x :: int
  by (simp add: signed_divide_int_def abs_mult sgn_if)

lemma sdiv16_err: "\<bar>16 * (x sdiv 16) - x\<bar> \<le> 15" for x :: int
proof -
  have "\<bar>x\<bar> = 16 * (\<bar>x\<bar> div 16) + \<bar>x\<bar> mod 16" by simp
  moreover have "0 \<le> \<bar>x\<bar> mod 16" "\<bar>x\<bar> mod 16 \<le> 15" using pos_mod_bound [of 16 "\<bar>x\<bar>"] pos_mod_sign [of 16 "\<bar>x\<bar>"] by linarith+
  ultimately show ?thesis by (cases "x \<ge> 0") (auto simp: signed_divide_int_def sgn_if abs_if split: if_splits)
qed

lemma product_bound: "is_s16 m \<Longrightarrow> \<bar>(m * t) sdiv 16\<bar> \<le> 2048 * \<bar>t\<bar>"
proof -
  assume "is_s16 m"
  then have "\<bar>m\<bar> \<le> 32768" by (auto simp: is_s16_def)
  then have "\<bar>m * t\<bar> \<le> 32768 * \<bar>t\<bar>" by (simp add: abs_mult mult_right_mono)
  then have "\<bar>m * t\<bar> div 16 \<le> (32768 * \<bar>t\<bar>) div 16" by (rule zdiv_mono1) simp
  also have "\<dots> = 2048 * \<bar>t\<bar>" by simp
  finally show ?thesis by (simp add: sdiv16_abs)
qed

lemma s32_id: "\<bar>x\<bar> \<le> 2147483647 \<Longrightarrow> s32 x = x"
  by (simp add: s32_def signed_take_bit_int_eq_self)

definition correlate :: "(int \<Rightarrow> int \<Rightarrow> int) \<Rightarrow> int list \<Rightarrow> int list \<Rightarrow> int" where
  "correlate f xs ys = sum_list (map2 f xs ys)"

lemma correlate_Cons [simp]: "correlate f (x # xs) (y # ys) = f x y + correlate f xs ys"
  by (simp add: correlate_def)

lemma correlate_Nil [simp]: "correlate f [] ys = 0" "correlate f xs [] = 0"
  by (simp_all add: correlate_def)

definition scaled :: "int \<Rightarrow> int \<Rightarrow> int" where
  "scaled m t = (m * t) sdiv 16"

lemma dsp_sums_exact:
  assumes "\<forall>p \<in> set cap. is_s16 (fst p) \<and> is_s16 (snd p)" "length cap = length tbl"
    and "\<bar>a\<bar> + 2048 * sum_list (map (\<lambda>p. \<bar>fst p\<bar>) tbl) \<le> 2147483647" "\<bar>b\<bar> + 2048 * sum_list (map (\<lambda>p. \<bar>snd p\<bar>) tbl) \<le> 2147483647"
    and "\<bar>c\<bar> + 2048 * sum_list (map (\<lambda>p. \<bar>fst p\<bar>) tbl) \<le> 2147483647" "\<bar>d\<bar> + 2048 * sum_list (map (\<lambda>p. \<bar>snd p\<bar>) tbl) \<le> 2147483647"
  shows "dsp_sums cap tbl (a, b, c, d) =
    (a + correlate scaled (map snd cap) (map fst tbl), b + correlate scaled (map snd cap) (map snd tbl),
     c + correlate scaled (map fst cap) (map fst tbl), d + correlate scaled (map fst cap) (map snd tbl))"
  using assms
proof (induction cap arbitrary: tbl a b c d)
  case Nil
  then show ?case by simp
next
  case (Cons p cap)
  obtain q tbl' where tbl: "tbl = q # tbl'" using Cons.prems(2) by (cases tbl) auto
  obtain rf smp where p: "p = (rf, smp)" by (cases p)
  obtain sn cn where q: "q = (sn, cn)" by (cases q)
  have s16: "is_s16 rf" "is_s16 smp" using Cons.prems(1) p by auto
  have pos: "0 \<le> sum_list (map (\<lambda>p. \<bar>fst p\<bar>) tbl')" "0 \<le> sum_list (map (\<lambda>p. \<bar>snd p\<bar>) tbl')" by (rule sum_list_nonneg, auto)+
  have st: "\<bar>x + (m * t) sdiv 16\<bar> + 2048 * r \<le> 2147483647" "s32 (x + (m * t) sdiv 16) = x + (m * t) sdiv 16"
    if "\<bar>x\<bar> + 2048 * (\<bar>t\<bar> + r) \<le> 2147483647" "is_s16 m" "0 \<le> r" for x m t r
  proof -
    have "\<bar>x + (m * t) sdiv 16\<bar> \<le> \<bar>x\<bar> + 2048 * \<bar>t\<bar>" using product_bound [OF that(2), of t] by linarith
    then show "\<bar>x + (m * t) sdiv 16\<bar> + 2048 * r \<le> 2147483647" "s32 (x + (m * t) sdiv 16) = x + (m * t) sdiv 16"
      using that(1,3) by (auto intro: s32_id)
  qed
  have b: "\<bar>a\<bar> + 2048 * (\<bar>sn\<bar> + sum_list (map (\<lambda>p. \<bar>fst p\<bar>) tbl')) \<le> 2147483647" "\<bar>b\<bar> + 2048 * (\<bar>cn\<bar> + sum_list (map (\<lambda>p. \<bar>snd p\<bar>) tbl')) \<le> 2147483647"
    "\<bar>c\<bar> + 2048 * (\<bar>sn\<bar> + sum_list (map (\<lambda>p. \<bar>fst p\<bar>) tbl')) \<le> 2147483647" "\<bar>d\<bar> + 2048 * (\<bar>cn\<bar> + sum_list (map (\<lambda>p. \<bar>snd p\<bar>) tbl')) \<le> 2147483647"
    using Cons.prems(3-6) by (simp_all add: tbl q)
  have ih: "dsp_sums cap tbl' (a + (smp * sn) sdiv 16, b + (smp * cn) sdiv 16, c + (rf * sn) sdiv 16, d + (rf * cn) sdiv 16) =
    (a + (smp * sn) sdiv 16 + correlate scaled (map snd cap) (map fst tbl'), b + (smp * cn) sdiv 16 + correlate scaled (map snd cap) (map snd tbl'),
     c + (rf * sn) sdiv 16 + correlate scaled (map fst cap) (map fst tbl'), d + (rf * cn) sdiv 16 + correlate scaled (map fst cap) (map snd tbl'))"
    by (rule Cons.IH)
      (use Cons.prems(1,2) tbl st(1) [OF b(1) s16(2) pos(1)] st(1) [OF b(2) s16(2) pos(2)] st(1) [OF b(3) s16(1) pos(1)] st(1) [OF b(4) s16(1) pos(2)] in auto)
  show ?case
    using ih st(2) [OF b(1) s16(2) pos(1)] st(2) [OF b(2) s16(2) pos(2)] st(2) [OF b(3) s16(1) pos(1)] st(2) [OF b(4) s16(1) pos(2)]
    by (simp add: tbl p q scaled_def [of smp] scaled_def [of rf])
qed

lemma is_s16_halfword: "is_s16 (halfword h w)"
  using sint_ge [of "ucast (drop_bit (16 * h) w) :: u16"] sint_lt [of "ucast (drop_bit (16 * h) w) :: u16"]
  by (simp add: is_s16_def halfword_def)

text \<open>The multiply-accumulate instructions add the plain products.\<close>

lemma dsp_words_exact:
  "length cap = length tbl \<Longrightarrow> dsp_words cap tbl s =
    \<lparr>acc_samp_s = acc_samp_s s + of_int (correlate (*) (map (halfword 1) cap) (map (halfword 0) tbl)),
     acc_samp_c = acc_samp_c s + of_int (correlate (*) (map (halfword 1) cap) (map (halfword 1) tbl)),
     acc_ref_s = acc_ref_s s + of_int (correlate (*) (map (halfword 0) cap) (map (halfword 0) tbl)),
     acc_ref_c = acc_ref_c s + of_int (correlate (*) (map (halfword 0) cap) (map (halfword 1) tbl))\<rparr>"
  by (induction cap tbl s rule: dsp_words.induct)
    (simp_all add: smlalbb_def smlalbt_def smlaltb_def smlaltt_def)

lemma correlate_scaled:
  "length xs = length ys \<Longrightarrow> \<bar>16 * correlate scaled xs ys - correlate (*) xs ys\<bar> \<le> 15 * int (length xs)"
proof (induction xs ys rule: list_induct2)
  case (Cons x xs y ys)
  then show ?case using sdiv16_err [of "x * y"] by (simp add: scaled_def) 
qed simp

text \<open>
  C13 With a table whose sines and cosines each add up to at most 1048575 in
  absolute value, no sum of a block of 16 bit samples leaves 32 bits, and the four sums of the
  portable build are, up to 15/16 per sample, one sixteenth of what the Cortex-M4 build
  accumulates from the same samples and table: the two compute the same correlation.
\<close>

theorem dsp_backends_agree:
  assumes "length cap = n" "length tbl = n" "0 < n"
    and "table_weight (map (\<lambda>w. (halfword 0 w, halfword 1 w)) tbl) \<le> 1048575"
  shows "\<exists>t u k. dsp_process (map (\<lambda>w. (halfword 0 w, halfword 1 w)) tbl) (map (\<lambda>w. (halfword 0 w, halfword 1 w)) cap) (2 * n)
        (reset_dsp_accumerator s0) = Some t \<and>
    dsp_process_m4 tbl cap (2 * n) (reset_dsp_accumerator s1) = Some u \<and>
    u = \<lparr>acc_samp_s = of_int (k 0), acc_samp_c = of_int (k 1), acc_ref_s = of_int (k 2), acc_ref_c = of_int (k (3 :: nat))\<rparr> \<and>
    k 0 = correlate (*) (map (halfword 1) cap) (map (halfword 0) tbl) \<and> k 1 = correlate (*) (map (halfword 1) cap) (map (halfword 1) tbl) \<and>
    k 2 = correlate (*) (map (halfword 0) cap) (map (halfword 0) tbl) \<and> k 3 = correlate (*) (map (halfword 0) cap) (map (halfword 1) tbl) \<and>
    \<bar>16 * acc_samp_s t - of_int (k 0)\<bar> \<le> 15 * real n \<and> \<bar>16 * acc_samp_c t - of_int (k 1)\<bar> \<le> 15 * real n \<and>
    \<bar>16 * acc_ref_s t - of_int (k 2)\<bar> \<le> 15 * real n \<and> \<bar>16 * acc_ref_c t - of_int (k 3)\<bar> \<le> 15 * real n"
proof -
  let ?h = "\<lambda>w. (halfword 0 w, halfword 1 w)"
  have w: "sum_list (map (\<lambda>p. \<bar>fst p\<bar>) (map ?h tbl)) \<le> 1048575" "sum_list (map (\<lambda>p. \<bar>snd p\<bar>) (map ?h tbl)) \<le> 1048575"
    using assms(4) by (simp_all add: table_weight_def)
  have s16: "\<forall>p \<in> set (map ?h cap). is_s16 (fst p) \<and> is_s16 (snd p)" by (auto simp: is_s16_halfword)
  have n: "dsp_pairs (2 * n) = n" "max 1 (2 * n div 2) = n" using assms(3) by (simp_all add: dsp_pairs_def)
  have t: "dsp_process (map ?h tbl) (map ?h cap) (2 * n) (reset_dsp_accumerator s0) = Some
     \<lparr>acc_samp_s = of_int (correlate scaled (map (halfword 1) cap) (map (halfword 0) tbl)),
      acc_samp_c = of_int (correlate scaled (map (halfword 1) cap) (map (halfword 1) tbl)),
      acc_ref_s = of_int (correlate scaled (map (halfword 0) cap) (map (halfword 0) tbl)),
      acc_ref_c = of_int (correlate scaled (map (halfword 0) cap) (map (halfword 1) tbl))\<rparr>"
    using dsp_sums_exact [OF s16, of "map ?h tbl" 0 0 0 0] w assms(1,2)
    by (simp add: dsp_process_def n Let_def reset_dsp_accumerator_def comp_def)
  have u: "dsp_process_m4 tbl cap (2 * n) (reset_dsp_accumerator s1) = Some
     \<lparr>acc_samp_s = of_int (correlate (*) (map (halfword 1) cap) (map (halfword 0) tbl)),
      acc_samp_c = of_int (correlate (*) (map (halfword 1) cap) (map (halfword 1) tbl)),
      acc_ref_s = of_int (correlate (*) (map (halfword 0) cap) (map (halfword 0) tbl)),
      acc_ref_c = of_int (correlate (*) (map (halfword 0) cap) (map (halfword 1) tbl))\<rparr>"
    using assms(1,2) by (simp add: dsp_process_m4_def n(2) [simplified] Let_def dsp_words_exact reset_dsp_accumerator_def)
  have e: "\<bar>16 * of_int (correlate scaled (map (halfword a) cap) (map (halfword b) tbl)) -
      of_int (correlate (*) (map (halfword a) cap) (map (halfword b) tbl))\<bar> \<le> 15 * real n" for a b
  proof -
    have "\<bar>16 * correlate scaled (map (halfword a) cap) (map (halfword b) tbl) -
        correlate (*) (map (halfword a) cap) (map (halfword b) tbl)\<bar> \<le> 15 * int n"
      using correlate_scaled [of "map (halfword a) cap" "map (halfword b) tbl"] assms(1,2) by simp
    then have "real_of_int \<bar>16 * correlate scaled (map (halfword a) cap) (map (halfword b) tbl) -
        correlate (*) (map (halfword a) cap) (map (halfword b) tbl)\<bar> \<le> real_of_int (15 * int n)" by (simp only: of_int_le_iff)
    then show ?thesis by simp
  qed
  define k where "k i = (if i = 0 then correlate (*) (map (halfword 1) cap) (map (halfword 0) tbl)
      else if i = 1 then correlate (*) (map (halfword 1) cap) (map (halfword 1) tbl)
      else if i = 2 then correlate (*) (map (halfword 0) cap) (map (halfword 0) tbl)
      else correlate (*) (map (halfword 0) cap) (map (halfword 1) tbl))" for i :: nat
  show ?thesis
    by (rule exI, rule exI, rule exI [of _ k], intro conjI, rule t, rule u) (simp_all add: k_def e)
qed

theorem dsp_backends_agree_witness:
  "\<forall>s0 s1. \<exists>t u k. dsp_process [(3, 4)] [(100, -200)] 2 (reset_dsp_accumerator s0) = Some t \<and>
    dsp_process_m4 [0x00040003] [0xFF380064] 2 (reset_dsp_accumerator s1) = Some u \<and>
    acc_samp_s u = of_int (k (0 :: nat)) \<and> k 0 = (-600 :: int) \<and> \<bar>16 * acc_samp_s t - of_int (k 0)\<bar> \<le> 15" (is "\<forall>s0 s1. ?P s0 s1")
proof (intro allI)
  fix s0 :: "real dsp" and s1 :: "u64 dsp"
  have h: "halfword 0 0x00040003 = 3" "halfword 1 0x00040003 = 4" "halfword 0 0xFF380064 = 100" "halfword 1 0xFF380064 = -200"
    by code_simp+
  have w: "table_weight (map (\<lambda>w. (halfword 0 w, halfword 1 w)) [0x00040003]) \<le> 1048575" by (simp only: list.map h) (simp add: table_weight_def)
  have l: "length [0xFF380064 :: u32] = 1" "length [0x00040003 :: u32] = 1" "0 < (1 :: nat)" by simp_all
  from dsp_backends_agree [OF l w, of s0 s1, unfolded list.map h correlate_Cons correlate_Nil mult_1_right] show "?P s0 s1"
    apply (elim exE conjE)
    subgoal for t u k by (rule exI [of _ t], rule exI [of _ u], rule exI [of _ k]) simp
    done
qed

text \<open>
  The reflection is the complex quotient of sample and reference, each taken
  as cosine plus i times sine; a block that saw no reference gives zero. It does not change
  when level and phase of the whole signal change.
\<close>

theorem gamma_is_ratio:
  "(case calculate_gamma s of (re, im) \<Rightarrow> Complex re im) =
     (Complex (acc_samp_c s) (acc_samp_s s)) / (Complex (acc_ref_c s) (acc_ref_s s)) \<and>
   (z \<noteq> 0 \<longrightarrow> calculate_gamma
       \<lparr>acc_samp_s = Im (z * Complex (acc_samp_c s) (acc_samp_s s)), acc_samp_c = Re (z * Complex (acc_samp_c s) (acc_samp_s s)),
        acc_ref_s = Im (z * Complex (acc_ref_c s) (acc_ref_s s)), acc_ref_c = Re (z * Complex (acc_ref_c s) (acc_ref_s s))\<rparr> =
     calculate_gamma s)"
proof -
  have g: "(case calculate_gamma s of (re, im) \<Rightarrow> Complex re im) =
     (Complex (acc_samp_c s) (acc_samp_s s)) / (Complex (acc_ref_c s) (acc_ref_s s))" for s
    by (cases "acc_ref_c s * acc_ref_c s + acc_ref_s s * acc_ref_s s = 0")
      (auto simp: calculate_gamma_def dsp_snapshot_def Let_def complex_eq_iff Re_divide Im_divide power2_eq_square sum_squares_eq_zero_iff)
  have c: "(case p of (re, im) \<Rightarrow> Complex re im) = (case q of (re, im) \<Rightarrow> Complex re im) \<Longrightarrow> p = q" for p q
    by (cases p; cases q) simp
  have z: "(case calculate_gamma \<lparr>acc_samp_s = Im (z * a), acc_samp_c = Re (z * a), acc_ref_s = Im (z * b), acc_ref_c = Re (z * b)\<rparr>
      of (re, im) \<Rightarrow> Complex re im) = a / b" if "z \<noteq> 0" for a b
    unfolding g using that by (simp only: dsp.simps complex_surj) (rule mult_divide_mult_cancel_left)
  show ?thesis using g [of s] z [of "Complex (acc_samp_c s) (acc_samp_s s)" "Complex (acc_ref_c s) (acc_ref_s s)"]
    by (intro conjI impI c) simp_all
qed

theorem gamma_is_ratio_witness:
  "calculate_gamma \<lparr>acc_samp_s = 2, acc_samp_c = 0, acc_ref_s = 2, acc_ref_c = 0\<rparr> = (1, 0)"
proof -
  have "calculate_gamma \<lparr>acc_samp_s = 1, acc_samp_c = 0, acc_ref_s = 1, acc_ref_c = (0 :: real)\<rparr> = (1, 0)"
    by (simp add: calculate_gamma_def dsp_snapshot_def Let_def)
  then show ?thesis using gamma_is_ratio [of "\<lparr>acc_samp_s = 1, acc_samp_c = 0, acc_ref_s = 1, acc_ref_c = 0\<rparr>" 2] by simp
qed

text \<open>
  Every constant table meets the weight bound and has 16 bit entries, so a
  block of full scale samples cannot overflow the 32 bit sums. Over the rows all tables but one add up to
  zero, so a constant offset of the samples cancels; the table of the 1 kHz step does not, and it and the two
  others with 40 initialisers for 48 rows end in zero rows that ignore every sixth sample.
\<close>

theorem static_tables_fit:
  "list_all (\<lambda>tbl. length tbl = AUDIO_SAMPLES_COUNT \<and> table_weight tbl \<le> 1048575 \<and>
      list_all (\<lambda>p. is_s16 (fst p) \<and> is_s16 (snd p)) tbl) static_tables \<and>
   map (\<lambda>tbl. (sum_list (map fst tbl), sum_list (map snd tbl))) static_tables =
     [(0, 0), (0, 0), (0, 0), (0, 0), (0, 0), (0, 0), (167155, 16463), (0, 0)] \<and>
   map (\<lambda>tbl. length (filter (\<lambda>p. p = (0, 0)) tbl)) static_tables = [0, 0, 0, 0, 0, 8, 8, 8]"
  by code_simp

end
