(* ===== verification/Sweep_Service.thy ===== *)
theory Sweep_Service
  imports Dsp Stimulus
begin

text \<open>
  The state the sweep shares with the interrupt handler and with the threads that read its
  results: the first half of \<open>src/src/rf/sweep.c\<close>. One definition per function; a critical
  section is one definition even where the function loops around it, so the theory
  \<open>Sweep_Lock\<close> can interleave them. The clock is an argument (\<open>now\<close>), progress
  notifications on the event bus are collected in \<open>sweep_published\<close>.
  Left out: the dump buffer (\<open>ENABLED_DUMP_COMMAND\<close>, off in every board configuration).
\<close>

section \<open>State\<close>

record sweep_service =
  sweep_in_progress :: bool
  sweep_copy_in_progress :: bool
  sweep_generation :: u32
  p_sweep :: u16
  sweep_state_flags :: u8
  sweep_cancel_request :: bool
  sweep_event_bus :: bool
  sweep_published :: "u16 list"
  sweep_led_lit :: bool
  smooth_factor :: u8
  sample_func :: "real dsp \<Rightarrow> real \<times> real"
  ready_time :: u32
  wait_count :: u16
  sweep_dsp :: "real dsp"
  sweep_redraw :: u16

definition SWEEP_STATE_PROGRESS_ACTIVE :: u8 where "SWEEP_STATE_PROGRESS_ACTIVE = 1"
definition SWEEP_STATE_LED_ACTIVE :: u8 where "SWEEP_STATE_LED_ACTIVE = 2"
definition AUDIO_BUFFER_LEN :: nat where "AUDIO_BUFFER_LEN = AUDIO_SAMPLES_COUNT * 2"
definition SWEEP_TIMEOUT :: u32 where "SWEEP_TIMEOUT = 200000"
definition GENERATION_TIMEOUT :: u32 where "GENERATION_TIMEOUT = 100000"

lemmas sweep_flags = SWEEP_STATE_PROGRESS_ACTIVE_def SWEEP_STATE_LED_ACTIVE_def

definition sweep_service_init :: "bool \<Rightarrow> sweep_service \<Rightarrow> sweep_service" where
  "sweep_service_init bus s =
     s\<lparr>sweep_in_progress := False, sweep_copy_in_progress := False, sweep_generation := 0, p_sweep := 0,
       sweep_state_flags := 0, sweep_cancel_request := False, sweep_event_bus := bus, smooth_factor := 0,
       sample_func := calculate_gamma\<rparr>"

definition sweep_service_set_sample_function :: "(real dsp \<Rightarrow> real \<times> real) option \<Rightarrow> sweep_service \<Rightarrow> sweep_service" where
  "sweep_service_set_sample_function func s =
     s\<lparr>sample_func := (case func of None \<Rightarrow> calculate_gamma | Some f \<Rightarrow> f)\<rparr>"

definition sweep_service_cancel_scan :: "sweep_service \<Rightarrow> sweep_service" where
  "sweep_service_cancel_scan s = s\<lparr>sweep_cancel_request := True\<rparr>"

definition sweep_ui_input_pending :: "sweep_service \<Rightarrow> bool" where
  "sweep_ui_input_pending s = sweep_cancel_request s"

definition sweep_reset_progress :: "sweep_service \<Rightarrow> sweep_service" where
  "sweep_reset_progress s = s\<lparr>p_sweep := 0\<rparr>"

section \<open>LED and progress bar\<close>

definition sweep_led_begin :: "sweep_service \<Rightarrow> sweep_service" where
  "sweep_led_begin s =
     (if sweep_state_flags s AND SWEEP_STATE_LED_ACTIVE = 0
      then s\<lparr>sweep_led_lit := True, sweep_state_flags := sweep_state_flags s OR SWEEP_STATE_LED_ACTIVE\<rparr> else s)"

definition sweep_led_end :: "sweep_service \<Rightarrow> sweep_service" where
  "sweep_led_end s =
     (if sweep_state_flags s AND SWEEP_STATE_LED_ACTIVE \<noteq> 0
      then s\<lparr>sweep_led_lit := False, sweep_state_flags := sweep_state_flags s AND NOT SWEEP_STATE_LED_ACTIVE\<rparr> else s)"

definition sweep_progress_enabled :: "sweep_service \<Rightarrow> bool" where
  "sweep_progress_enabled s \<longleftrightarrow> sweep_state_flags s AND SWEEP_STATE_PROGRESS_ACTIVE \<noteq> 0"

definition sweep_publish_progress :: "u16 \<Rightarrow> sweep_service \<Rightarrow> sweep_service" where
  "sweep_publish_progress pixels s =
     (if sweep_event_bus s then s\<lparr>sweep_published := sweep_published s @ [pixels]\<rparr> else s)"

definition sweep_progress_begin :: "bool \<Rightarrow> sweep_service \<Rightarrow> sweep_service" where
  "sweep_progress_begin enabled s =
     (let s = s\<lparr>sweep_state_flags := sweep_state_flags s AND NOT SWEEP_STATE_PROGRESS_ACTIVE\<rparr>
      in if \<not> enabled then s
         else sweep_publish_progress 0 (s\<lparr>sweep_state_flags := sweep_state_flags s OR SWEEP_STATE_PROGRESS_ACTIVE\<rparr>))"

definition sweep_progress_update :: "u16 \<Rightarrow> u16 \<Rightarrow> sweep_service \<Rightarrow> sweep_service" where
  "sweep_progress_update width pixels s =
     (if \<not> sweep_progress_enabled s then s
      else sweep_publish_progress (if pixels > width then width else pixels) s)"

definition sweep_progress_end :: "u16 \<Rightarrow> sweep_service \<Rightarrow> sweep_service" where
  "sweep_progress_end width s =
     (if \<not> sweep_progress_enabled s then s
      else let s = sweep_publish_progress width s
           in s\<lparr>sweep_state_flags := sweep_state_flags s AND NOT SWEEP_STATE_PROGRESS_ACTIVE\<rparr>)"

definition sweep_prepare_led_and_progress :: "bool \<Rightarrow> sweep_service \<Rightarrow> sweep_service" where
  "sweep_prepare_led_and_progress show_progress s = sweep_progress_begin show_progress (sweep_led_begin s)"

definition SWEEP_UI_TIMESLICE_TICKS :: u32 where "SWEEP_UI_TIMESLICE_TICKS = 800"

definition sweep_timeslice_expired :: "u32 \<Rightarrow> u32 \<Rightarrow> bool" where
  "sweep_timeslice_expired now slice_start \<longleftrightarrow>
     (if SWEEP_UI_TIMESLICE_TICKS = 0 \<or> slice_start = 0 then False else now - slice_start \<ge> SWEEP_UI_TIMESLICE_TICKS)"

definition sweep_points_budget :: "u16 \<Rightarrow> bool \<Rightarrow> sweep_service \<Rightarrow> u16" where
  "sweep_points_budget max_points break_on_operation s =
     (if \<not> break_on_operation then 0xFFFF else if sweep_ui_input_pending s then 1 else max_points)"

section \<open>Capture\<close>

text \<open>The DMA buffer holds two blocks, the sample and reference channels alternate.\<close>

fun sample_pairs :: "int list \<Rightarrow> (int \<times> int) list" where
  "sample_pairs (a # b # xs) = (a, b) # sample_pairs xs"
| "sample_pairs _ = []"

definition rx_block :: "bool \<Rightarrow> int list \<Rightarrow> int list" where
  "rx_block tcif buf = (if tcif then drop AUDIO_BUFFER_LEN buf else buf)"

text \<open>A block shorter than \<open>AUDIO_BUFFER_LEN\<close> cannot come from the DMA; it is not accumulated here.\<close>

definition add_block :: "(int \<times> int) list \<Rightarrow> bool \<Rightarrow> int list \<Rightarrow> real dsp \<Rightarrow> real dsp" where
  "add_block tbl tcif buf d =
     (case dsp_process tbl (sample_pairs (rx_block tcif buf)) AUDIO_BUFFER_LEN d of Some d' \<Rightarrow> d' | None \<Rightarrow> d)"

definition i2s_lld_serve_rx_interrupt :: "(int \<times> int) list \<Rightarrow> u16 \<Rightarrow> u32 \<Rightarrow> bool \<Rightarrow> int list \<Rightarrow> sweep_service \<Rightarrow> sweep_service" where
  "i2s_lld_serve_rx_interrupt tbl bandwidth now tcif buf s =
     (let wait = wait_count s
      in if wait = 0 \<or> now < ready_time s then s
         else if unat wait > unat bandwidth + 2 then s\<lparr>wait_count := wait_count s - 1\<rparr>
         else let s = (if unat wait = unat bandwidth + 2 then s\<lparr>sweep_dsp := reset_dsp_accumerator (sweep_dsp s)\<rparr>
                       else s\<lparr>sweep_dsp := add_block tbl tcif buf (sweep_dsp s)\<rparr>)
              in s\<lparr>wait_count := wait_count s - 1\<rparr>)"

definition sweep_service_start_capture :: "u16 \<Rightarrow> u32 \<Rightarrow> u32 \<Rightarrow> sweep_service \<Rightarrow> sweep_service" where
  "sweep_service_start_capture bandwidth now delay_ticks s =
     s\<lparr>ready_time := now + delay_ticks, wait_count := bandwidth + 2\<rparr>"

text \<open>
  \<open>sweep_service_wait_for_capture\<close>: \<open>irqs\<close> lists the receive interrupts of the wait with
  their time, the half of the buffer they report and its contents. The loop tests the count and
  the clock, sleeps, and is woken by the next interrupt; when the list is over only the
  system tick wakes it, until the time is up.
\<close>

type_synonym rx_irq = "u32 \<times> bool \<times> int list"

fun capture_loop :: "(int \<times> int) list \<Rightarrow> u16 \<Rightarrow> u32 \<Rightarrow> u32 \<Rightarrow> rx_irq list \<Rightarrow> sweep_service \<Rightarrow> bool \<times> sweep_service" where
  "capture_loop tbl bandwidth start now irqs s =
     (if wait_count s = 0 then (True, s)
      else if now - start \<ge> SWEEP_TIMEOUT then (False, s\<lparr>wait_count := 0\<rparr>)
      else case irqs of
             [] \<Rightarrow> (False, s\<lparr>wait_count := 0\<rparr>)
           | (t, tcif, buf) # irqs' \<Rightarrow>
               capture_loop tbl bandwidth start t irqs' (i2s_lld_serve_rx_interrupt tbl bandwidth t tcif buf s))"

declare capture_loop.simps [simp del]

definition sweep_service_wait_for_capture :: "(int \<times> int) list \<Rightarrow> u16 \<Rightarrow> u32 \<Rightarrow> rx_irq list \<Rightarrow> sweep_service \<Rightarrow> bool \<times> sweep_service" where
  "sweep_service_wait_for_capture tbl bandwidth start irqs s = capture_loop tbl bandwidth start start irqs s"

section \<open>Measurement and snapshots\<close>

definition sweep_service_begin_measurement :: "sweep_service \<Rightarrow> sweep_service" where
  "sweep_service_begin_measurement s = s\<lparr>sweep_in_progress := True, sweep_cancel_request := False\<rparr>"

definition sweep_service_end_measurement :: "sweep_service \<Rightarrow> sweep_service" where
  "sweep_service_end_measurement s = s\<lparr>sweep_in_progress := False\<rparr>"

definition sweep_service_increment_generation :: "sweep_service \<Rightarrow> u32 \<times> sweep_service" where
  "sweep_service_increment_generation s = (sweep_generation s + 1, s\<lparr>sweep_generation := sweep_generation s + 1\<rparr>)"

definition sweep_service_current_generation :: "sweep_service \<Rightarrow> u32" where
  "sweep_service_current_generation s = sweep_generation s"

text \<open>
  \<open>sweep_service_wait_for_generation\<close>: \<open>polls\<close> lists per pass the state found and the clock
  read after it; the result is the number of passes that slept.
\<close>

fun generation_loop :: "u32 \<Rightarrow> (sweep_service \<times> u32) list \<Rightarrow> nat option" where
  "generation_loop start [] = None"
| "generation_loop start ((s, now) # polls) =
     (if sweep_service_current_generation s \<noteq> 0 then Some 0
      else if now - start \<ge> GENERATION_TIMEOUT then Some 0
      else map_option Suc (generation_loop start polls))"

definition sweep_service_wait_for_generation :: "u32 \<Rightarrow> (sweep_service \<times> u32) list \<Rightarrow> nat option" where
  "sweep_service_wait_for_generation start polls = generation_loop start polls"

text \<open>\<open>data\<close> is a pointer to the results of the channel: the snapshot keeps the channel.\<close>

record sweep_snapshot =
  snap_channel :: u8
  snap_points :: u16
  snap_generation :: u32

text \<open>One pass of the loop in \<open>sweep_service_snapshot_acquire\<close>: its critical section.\<close>

definition snapshot_try :: "u8 \<Rightarrow> u16 \<Rightarrow> sweep_service \<Rightarrow> (sweep_snapshot \<times> sweep_service) option" where
  "snapshot_try channel points s =
     (if sweep_in_progress s \<or> sweep_copy_in_progress s then None
      else Some (\<lparr>snap_channel = channel, snap_points = points, snap_generation = sweep_generation s\<rparr>,
                 s\<lparr>sweep_copy_in_progress := True\<rparr>))"

text \<open>
  The whole loop against the states other threads leave at each pass (with the clock read
  after it); \<open>None\<close> when it still waits at the end of the list.
\<close>

fun acquire_loop :: "u8 \<Rightarrow> u16 \<Rightarrow> u32 \<Rightarrow> (sweep_service \<times> u32) list \<Rightarrow> (sweep_snapshot \<times> sweep_service) option option" where
  "acquire_loop channel points start [] = None"
| "acquire_loop channel points start ((s, now) # polls) =
     (case snapshot_try channel points s of
        Some r \<Rightarrow> Some (Some r)
      | None \<Rightarrow> if now - start \<ge> SWEEP_TIMEOUT then Some None else acquire_loop channel points start polls)"

definition sweep_service_snapshot_acquire :: "u8 \<Rightarrow> u16 \<Rightarrow> u32 \<Rightarrow> (sweep_service \<times> u32) list \<Rightarrow> (sweep_snapshot \<times> sweep_service) option option" where
  "sweep_service_snapshot_acquire channel points start polls =
     (if channel \<ge> 2 then Some None else acquire_loop channel points start polls)"

definition sweep_service_snapshot_release :: "sweep_snapshot option \<Rightarrow> sweep_service \<Rightarrow> bool \<times> sweep_service" where
  "sweep_service_snapshot_release snapshot s =
     ((case snapshot of None \<Rightarrow> False | Some p \<Rightarrow> snap_generation p = sweep_generation s),
      s\<lparr>sweep_copy_in_progress := False\<rparr>)"

definition set_smooth_factor :: "u8 \<Rightarrow> sweep_service \<Rightarrow> sweep_service" where
  "set_smooth_factor factor s =
     s\<lparr>smooth_factor := (if factor > 8 then 8 else factor), sweep_redraw := sweep_redraw s OR REDRAW_CAL_STATUS\<rparr>"

definition get_smooth_factor :: "sweep_service \<Rightarrow> u8" where
  "get_smooth_factor s = smooth_factor s"

section \<open>A capture averages the blocks of one bandwidth\<close>

definition irqs_ready :: "u32 \<Rightarrow> rx_irq list \<Rightarrow> rx_irq list" where
  "irqs_ready ready irqs = filter (\<lambda>(t, _). ready \<le> t) irqs"

definition accumulate :: "(int \<times> int) list \<Rightarrow> rx_irq list \<Rightarrow> real dsp \<Rightarrow> real dsp" where
  "accumulate tbl irqs d = foldl (\<lambda>d (t, tcif, buf). add_block tbl tcif buf d) d irqs"

lemma irqs_ready_simps [simp]:
  "irqs_ready r [] = []" "irqs_ready r ((t, x) # irqs) = (if r \<le> t then (t, x) # irqs_ready r irqs else irqs_ready r irqs)"
  by (simp_all add: irqs_ready_def)

lemma accumulate_simps [simp]:
  "accumulate tbl [] d = d" "accumulate tbl ((t, tcif, buf) # irqs) d = accumulate tbl irqs (add_block tbl tcif buf d)"
  by (simp_all add: accumulate_def)

lemma isr_idle: "wait_count s = 0 \<Longrightarrow> i2s_lld_serve_rx_interrupt tbl bw now tcif buf s = s"
  by (simp add: i2s_lld_serve_rx_interrupt_def)

lemma isr_early: "now < ready_time s \<Longrightarrow> i2s_lld_serve_rx_interrupt tbl bw now tcif buf s = s"
  by (simp add: i2s_lld_serve_rx_interrupt_def)

lemma isr_block:
  assumes "wait_count s \<noteq> 0" "ready_time s \<le> now" "unat (wait_count s) \<le> unat bw + 1"
  shows "i2s_lld_serve_rx_interrupt tbl bw now tcif buf s =
    s\<lparr>wait_count := wait_count s - 1, sweep_dsp := add_block tbl tcif buf (sweep_dsp s)\<rparr>"
  using assms by (simp add: i2s_lld_serve_rx_interrupt_def Let_def)

lemma isr_first:
  assumes "unat (wait_count s) = unat bw + 2" "ready_time s \<le> now"
  shows "i2s_lld_serve_rx_interrupt tbl bw now tcif buf s =
    s\<lparr>wait_count := wait_count s - 1, sweep_dsp := reset_dsp_accumerator (sweep_dsp s)\<rparr>"
proof -
  have "wait_count s \<noteq> 0" using assms(1) by auto
  then show ?thesis using assms by (simp add: i2s_lld_serve_rx_interrupt_def Let_def)
qed

lemma unat_pred: "w \<noteq> 0 \<Longrightarrow> unat (w - 1) = unat w - 1" for w :: u16
  by (simp add: unat_sub_if' word_gt_0 Suc_leI unat_gt_0)

lemma capture_counts:
  assumes "\<forall>(t, x) \<in> set irqs. t - start < SWEEP_TIMEOUT" "now - start < SWEEP_TIMEOUT" "unat (wait_count s) \<le> unat bw + 1"
  shows "capture_loop tbl bw start now irqs s =
    (let R = irqs_ready (ready_time s) irqs; k = unat (wait_count s)
     in (k \<le> length R, s\<lparr>wait_count := 0, sweep_dsp := accumulate tbl (take k R) (sweep_dsp s)\<rparr>))"
  using assms
proof (induction irqs arbitrary: now s)
  case Nil
  then have "\<not> SWEEP_TIMEOUT \<le> now - start" by simp
  then show ?case by (subst capture_loop.simps) (auto simp: Let_def unat_eq_0)
next
  case (Cons irq irqs)
  obtain t tcif buf where irq: "irq = (t, tcif, buf)" by (cases irq)
  show ?case
  proof (cases "wait_count s = 0")
    case True
    then show ?thesis by (subst capture_loop.simps) (simp add: Let_def)
  next
    case False
    then have step: "capture_loop tbl bw start now (irq # irqs) s =
        capture_loop tbl bw start t irqs (i2s_lld_serve_rx_interrupt tbl bw t tcif buf s)"
    proof -
      have "\<not> SWEEP_TIMEOUT \<le> now - start" using Cons.prems(2) by simp
      then show ?thesis using False by (subst capture_loop.simps) (simp add: irq)
    qed
    have t: "t - start < SWEEP_TIMEOUT" "\<forall>(t, x) \<in> set irqs. t - start < SWEEP_TIMEOUT" using Cons.prems(1) irq by auto
    show ?thesis
    proof (cases "ready_time s \<le> t")
      case True
      obtain k where k: "unat (wait_count s) = Suc k" using False by (cases "unat (wait_count s)") (auto simp: unat_eq_0)
      have "unat (wait_count s - 1) \<le> unat bw + 1" "unat (wait_count s - 1) = k"
        using Cons.prems(3) k unat_pred [OF False] by simp_all
      then show ?thesis
        using True unfolding step isr_block [OF False True Cons.prems(3)] by (subst Cons.IH [OF t(2,1)]) (simp_all add: irq Let_def k)
    next
      case early: False
      then have "t < ready_time s" by simp
      from early show ?thesis unfolding step isr_early [OF \<open>t < ready_time s\<close>] by (simp add: Cons.IH [OF t(2,1) Cons.prems(3)] irq)
    qed
  qed
qed

text \<open>
  C7 A capture drops the interrupts before its settling time, clears the
  accumulators with the first one after it, adds up exactly the next \<open>bandwidth + 1\<close> blocks
  and reports success; if fewer arrive within two seconds it reports failure, keeps what it
  has accumulated and disarms the handler. Either way no later interrupt changes the result.
\<close>

theorem capture_averages:
  assumes "\<forall>(t, x) \<in> set irqs. t - start < SWEEP_TIMEOUT" "unat bandwidth < 65534"
  shows "sweep_service_wait_for_capture tbl bandwidth start irqs (sweep_service_start_capture bandwidth now delay_ticks s) =
    (let R = irqs_ready (now + delay_ticks) irqs; n = unat bandwidth + 1
     in (n < length R, s\<lparr>ready_time := now + delay_ticks, wait_count := 0, sweep_dsp :=
          (if R = [] then sweep_dsp s else accumulate tbl (take n (tl R)) \<lparr>acc_samp_s = 0, acc_samp_c = 0, acc_ref_s = 0, acc_ref_c = 0\<rparr>)\<rparr>)) \<and>
    i2s_lld_serve_rx_interrupt tbl bandwidth t tcif buf
      (snd (sweep_service_wait_for_capture tbl bandwidth start irqs (sweep_service_start_capture bandwidth now delay_ticks s))) =
    snd (sweep_service_wait_for_capture tbl bandwidth start irqs (sweep_service_start_capture bandwidth now delay_ticks s))"
proof -
  let ?n = "unat bandwidth + 1"
  have n: "unat (bandwidth + 2) = unat bandwidth + 2" using assms(2) by (simp add: unat_word_ariths(1))
  have ne: "bandwidth + 2 \<noteq> 0" using n by (metis add_is_0 unat_0 zero_neq_numeral)
  have run: "capture_loop tbl bandwidth start u irqs (sweep_service_start_capture bandwidth now delay_ticks s) =
    (let R = irqs_ready (now + delay_ticks) irqs
     in (?n < length R, s\<lparr>ready_time := now + delay_ticks, wait_count := 0, sweep_dsp :=
          (if R = [] then sweep_dsp s else accumulate tbl (take ?n (tl R)) \<lparr>acc_samp_s = 0, acc_samp_c = 0, acc_ref_s = 0, acc_ref_c = 0\<rparr>)\<rparr>))"
    if "u - start < SWEEP_TIMEOUT" for u
    using assms(1) that
  proof (induction irqs arbitrary: u)
    case Nil
    then show ?case by (subst capture_loop.simps) (simp add: ne sweep_service_start_capture_def not_le)
  next
    case (Cons irq irqs)
    obtain v c b where irq: "irq = (v, c, b)" by (cases irq)
    have v: "v - start < SWEEP_TIMEOUT" "\<forall>(t, x) \<in> set irqs. t - start < SWEEP_TIMEOUT" using Cons.prems(1) irq by auto
    let ?s = "sweep_service_start_capture bandwidth now delay_ticks s"
    have step: "capture_loop tbl bandwidth start u (irq # irqs) ?s =
        capture_loop tbl bandwidth start v irqs (i2s_lld_serve_rx_interrupt tbl bandwidth v c b ?s)"
    proof -
      have "\<not> SWEEP_TIMEOUT \<le> u - start" using Cons.prems(2) by simp
      then show ?thesis using ne by (subst capture_loop.simps) (simp add: irq sweep_service_start_capture_def)
    qed
    show ?case
    proof (cases "now + delay_ticks \<le> v")
      case True
      have m1: "unat (bandwidth + 2 - 1) = ?n" using unat_pred [OF ne] n by simp
      then have m: "unat (1 + bandwidth) = ?n" by (simp add: add.commute)
      have f: "i2s_lld_serve_rx_interrupt tbl bandwidth v c b ?s =
          ?s\<lparr>wait_count := wait_count ?s - 1, sweep_dsp := reset_dsp_accumerator (sweep_dsp ?s)\<rparr>"
        by (rule isr_first) (use True n in \<open>simp_all add: sweep_service_start_capture_def\<close>)
      show ?thesis unfolding step f
        by (subst capture_counts [OF v(2,1)])
          (use True in \<open>simp_all add: sweep_service_start_capture_def irq Let_def m m1 reset_dsp_accumerator_def Suc_le_eq\<close>)
    next
      case False
      have f: "i2s_lld_serve_rx_interrupt tbl bandwidth v c b ?s = ?s"
        by (rule isr_early) (use False in \<open>simp add: sweep_service_start_capture_def\<close>)
      show ?thesis unfolding step f using Cons.IH [OF v(2,1)] False by (simp add: irq)
    qed
  qed
  have z: "start - start < SWEEP_TIMEOUT" by (simp add: SWEEP_TIMEOUT_def)
  show ?thesis unfolding sweep_service_wait_for_capture_def run [OF z] Let_def by (simp add: isr_idle)
qed

text \<open>A capture at the widest bandwidth: one interrupt is early, the next clears, the third counts.\<close>

theorem capture_averages_witness:
  "\<forall>tbl s buf. let r = sweep_service_wait_for_capture tbl 0 7 [(9, False, buf), (12, True, buf), (15, False, buf)]
             (sweep_service_start_capture 0 2 10 s)
   in fst r \<and> wait_count (snd r) = 0 \<and>
      sweep_dsp (snd r) = add_block tbl False buf \<lparr>acc_samp_s = 0, acc_samp_c = 0, acc_ref_s = 0, acc_ref_c = 0\<rparr>"
proof (intro allI)
  fix tbl s buf
  show "let r = sweep_service_wait_for_capture tbl 0 7 [(9, False, buf), (12, True, buf), (15, False, buf)]
             (sweep_service_start_capture 0 2 10 s)
   in fst r \<and> wait_count (snd r) = 0 \<and>
      sweep_dsp (snd r) = add_block tbl False buf \<lparr>acc_samp_s = 0, acc_samp_c = 0, acc_ref_s = 0, acc_ref_c = 0\<rparr>"
    using capture_averages [of "[(9, False, buf), (12, True, buf), (15, False, buf)]" 7 0 tbl 2 10 s]
    by (simp add: SWEEP_TIMEOUT_def Let_def)
qed

end
