(* ===== verification/Si5351.thy ===== *)
theory Si5351
  imports Nvx_Prelude State_Manager Complex_Main "HOL-Library.While_Combinator"
begin

text \<open>
  The clock generator driver of \<open>src/src/driver/si5351.c\<close>: the cached state, the register file
  of the chip, the choice of the band, the programming of the two PLLs and of the three output
  dividers and the continued fraction that fits a divider into 20 bit registers.

  The chip is its register file: an I2C transfer writes consecutive registers. Frequencies
  are \<open>u32\<close>, the PLL frequencies \<open>u64\<close>, and the arithmetic wraps as in the code. A lookup that
  leaves the band table is \<open>None\<close>. The delays are those of the STM32F072 build.
\<close>

section \<open>State\<close>

record band_strategy =
  bs_freq :: u32
  bs_mode :: u8
  bs_div :: u8
  bs_mul :: u8
  bs_omul :: u8
  bs_pow :: u8
  bs_opow :: u8
  bs_l_gain :: u8
  bs_r_gain :: u8
  bs_align :: u16

text \<open>
  One row of a table. \<open>div\<close> and \<open>pll_n\<close> share a union; the multipliers and the drive strengths
  are bit fields of four bits, so that an initialiser \<open>-1\<close> there is \<open>15\<close>.
\<close>

definition band :: "u32 \<Rightarrow> u8 \<Rightarrow> u8 \<Rightarrow> u8 \<Rightarrow> u8 \<Rightarrow> u8 \<Rightarrow> u8 \<Rightarrow> u8 \<Rightarrow> u8 \<Rightarrow> u16 \<Rightarrow> band_strategy" where
  "band f m d mul omul p op l r a =
     \<lparr>bs_freq = f, bs_mode = m, bs_div = d, bs_mul = take_bit 4 mul, bs_omul = take_bit 4 omul,
      bs_pow = take_bit 4 p, bs_opow = take_bit 4 op, bs_l_gain = l, bs_r_gain = r, bs_align = a\<rparr>"

definition SI5351_FIXED_PLL :: u8 where "SI5351_FIXED_PLL = 1"
definition SI5351_FIXED_MULT :: u8 where "SI5351_FIXED_MULT = 2"

definition band_strategy_33H_SI5351 :: "band_strategy list" where
  "band_strategy_33H_SI5351 = [
     band 0 0 0 0 0 15 15 255 255 1,
     band 26000 SI5351_FIXED_PLL 8 1 1 0 0 0 0 1,
     band 100000000 SI5351_FIXED_PLL 32 1 1 0 0 0 0 1,
     band 130000000 SI5351_FIXED_MULT 8 1 1 3 2 0 0 1,
     band 180000000 SI5351_FIXED_MULT 6 1 1 3 2 0 0 1,
     band 1 SI5351_FIXED_MULT 4 1 1 3 2 0 0 1,
     band 460000000 SI5351_FIXED_MULT 6 3 5 3 2 40 40 60,
     band 600000000 SI5351_FIXED_MULT 4 3 5 3 2 40 40 60,
     band 3 SI5351_FIXED_MULT 4 3 5 3 2 50 50 60,
     band 1200000000 SI5351_FIXED_MULT 4 5 7 3 2 70 70 140,
     band 5 SI5351_FIXED_MULT 4 5 7 3 2 70 70 140,
     band 1800000000 SI5351_FIXED_MULT 4 7 9 3 3 70 70 252,
     band 7 SI5351_FIXED_MULT 4 7 9 3 3 70 70 252,
     band 2400000000 SI5351_FIXED_MULT 4 9 11 3 3 85 85 396,
     band 9 SI5351_FIXED_MULT 4 9 11 3 3 95 95 396,
     band 11 SI5351_FIXED_MULT 4 11 12 3 3 95 95 528]"

definition band_strategy_H4_SI5351 :: "band_strategy list" where
  "band_strategy_H4_SI5351 = [
     band 0 0 0 0 0 15 15 255 255 1,
     band 26000 SI5351_FIXED_PLL 8 1 1 0 0 0 0 1,
     band 100000000 SI5351_FIXED_PLL 32 1 1 0 0 0 0 1,
     band 130000000 SI5351_FIXED_MULT 8 1 1 1 1 0 0 1,
     band 180000000 SI5351_FIXED_MULT 6 1 1 1 1 0 0 1,
     band 1 SI5351_FIXED_MULT 4 1 1 1 1 0 0 1,
     band 460000000 SI5351_FIXED_MULT 6 3 5 1 1 40 40 60,
     band 600000000 SI5351_FIXED_MULT 4 3 5 1 1 40 40 60,
     band 3 SI5351_FIXED_MULT 4 3 5 3 1 50 50 60,
     band 1200000000 SI5351_FIXED_MULT 4 5 7 3 2 70 70 140,
     band 5 SI5351_FIXED_MULT 4 5 7 3 2 70 70 140,
     band 1800000000 SI5351_FIXED_MULT 4 7 9 3 3 70 70 252,
     band 7 SI5351_FIXED_MULT 4 7 9 3 3 70 70 252,
     band 2400000000 SI5351_FIXED_MULT 4 9 11 3 3 85 85 396,
     band 9 SI5351_FIXED_MULT 4 9 11 3 3 95 95 396,
     band 11 SI5351_FIXED_MULT 4 11 12 3 3 95 95 528]"

definition band_strategy_36H_MS5351 :: "band_strategy list" where
  "band_strategy_36H_MS5351 = [
     band 0 0 0 0 0 15 15 255 255 1,
     band 26000 SI5351_FIXED_PLL 16 1 1 0 0 0 0 1,
     band 120000000 SI5351_FIXED_PLL 32 1 1 0 0 0 0 1,
     band 1 SI5351_FIXED_MULT 4 1 1 1 1 0 0 1,
     band 400000000 SI5351_FIXED_MULT 8 3 5 3 2 20 20 1,
     band 588000000 SI5351_FIXED_MULT 6 3 5 3 2 20 20 1,
     band 3 SI5351_FIXED_MULT 4 3 5 3 2 30 30 1,
     band 5 SI5351_FIXED_MULT 4 5 7 3 2 60 60 1,
     band 7 SI5351_FIXED_MULT 4 7 9 3 3 75 75 252,
     band 9 SI5351_FIXED_MULT 4 9 11 3 3 80 90 396,
     band 11 SI5351_FIXED_MULT 4 11 13 3 3 95 95 528]"

definition band_strategy_SWC5351 :: "band_strategy list" where
  "band_strategy_SWC5351 = [
     band 0 0 0 0 0 15 15 255 255 1,
     band 32000 SI5351_FIXED_PLL 6 1 1 3 1 0 0 1,
     band 130000000 SI5351_FIXED_PLL 40 1 1 3 1 0 0 1,
     band 1 SI5351_FIXED_MULT 4 1 1 3 1 0 0 1,
     band 588000000 SI5351_FIXED_MULT 6 3 5 3 1 0 0 60,
     band 3 SI5351_FIXED_MULT 4 3 5 3 1 0 0 60,
     band 5 SI5351_FIXED_MULT 4 5 7 3 3 0 0 140,
     band 7 SI5351_FIXED_MULT 4 7 9 3 3 40 40 252,
     band 9 SI5351_FIXED_MULT 4 9 11 3 3 40 40 396,
     band 11 SI5351_FIXED_MULT 4 11 13 3 3 40 40 528]"

record si5351 =
  current_band :: u8
  current_power :: u8
  current_freq :: u32
  pending_settling_cycles :: u8
  clk_cache :: "nat \<Rightarrow> u8"
  band_s :: "band_strategy list"
  if_offset :: u32
  xtal_freq :: u32
  harmonic_freq_threshold :: u32
  regs :: "nat \<Rightarrow> u8"
  codec_gain :: "u8 \<times> u8"
  dsp_offset :: u32

definition XTALFREQ :: u32 where "XTALFREQ = 26000000"
definition CLK2_FREQUENCY :: u32 where "CLK2_FREQUENCY = 8000000"
definition PLL_N_2 :: u32 where "PLL_N_2 = 32"

text \<open>Ticks of 10 microseconds.\<close>

definition DELAY_BAND_1_2 :: int where "DELAY_BAND_1_2 = 10"
definition DELAY_BAND_3_4 :: int where "DELAY_BAND_3_4 = 14"
definition DELAY_BANDCHANGE :: int where "DELAY_BANDCHANGE = 500"
definition DELAY_CHANNEL_CHANGE :: int where "DELAY_CHANNEL_CHANGE = 10"

definition si5351_reset_cache :: "si5351 \<Rightarrow> si5351" where
  "si5351_reset_cache s = s\<lparr>current_band := 0, current_freq := 0\<rparr>"

definition si5351_get_frequency :: "si5351 \<Rightarrow> u32" where
  "si5351_get_frequency s = current_freq s"

definition si5351_take_settling_cycles :: "si5351 \<Rightarrow> u8 \<times> si5351" where
  "si5351_take_settling_cycles s = (pending_settling_cycles s, s\<lparr>pending_settling_cycles := 0\<rparr>)"

text \<open>\<open>dsp_offset\<close> stands for the table that \<open>generate_dsp_table\<close> computes from the offset.\<close>

definition si5351_set_frequency_offset :: "u32 \<Rightarrow> si5351 \<Rightarrow> si5351" where
  "si5351_set_frequency_offset offset s =
     (let sanitized = clamp_if_offset offset;
          s = si5351_reset_cache s;
          s = s\<lparr>dsp_offset := sanitized\<rparr>
      in s\<lparr>if_offset := sanitized\<rparr>)"

section \<open>Register writes\<close>

text \<open>The first byte addresses a register, the next ones fill it and its successors.\<close>

definition si5351_bulk_write :: "u8 list \<Rightarrow> si5351 \<Rightarrow> si5351" where
  "si5351_bulk_write buf s =
     (case buf of [] \<Rightarrow> s
      | r # ds \<Rightarrow> s\<lparr>regs := \<lambda>i. if unat r \<le> i \<and> i < unat r + length ds then ds ! (i - unat r) else regs s i\<rparr>)"

definition si5351_write :: "u8 \<Rightarrow> u8 \<Rightarrow> si5351 \<Rightarrow> si5351" where
  "si5351_write reg dat s = si5351_bulk_write [reg, dat] s"

definition si5351_reset_pll :: "u8 \<Rightarrow> si5351 \<Rightarrow> si5351" where
  "si5351_reset_pll m s = si5351_write 177 (m OR 0x0C) s"

definition si5351_disable_output :: "si5351 \<Rightarrow> si5351" where
  "si5351_disable_output s =
     (let s = si5351_write 3 (1 OR 2 OR 4) s;
          s = si5351_bulk_write [16, 0x80, 0x80, 0x80] s
      in si5351_reset_cache s)"

definition si5351_enable_output :: "si5351 \<Rightarrow> si5351" where
  "si5351_enable_output s = (let s = si5351_write 3 (NOT (1 OR 2 OR 4)) s in si5351_reset_cache s)"

definition si5351_set_tcxo :: "u32 \<Rightarrow> si5351 \<Rightarrow> si5351" where
  "si5351_set_tcxo xtal s =
     (let xtal = (if xtal < XTALFREQ - 2000000 \<or> XTALFREQ + 2000000 < xtal then XTALFREQ else xtal);
          s = s\<lparr>xtal_freq := xtal\<rparr>
      in si5351_reset_cache s)"

text \<open>The sequence of length prefixed transfers sent at start, ended by a length \<open>0\<close>.\<close>

definition si5351_configs :: "u8 list" where
  "si5351_configs = [2, 3, 0xff, 4, 16, 0x80, 0x80, 0x80, 2, 183, 0x40, 2, 3, NOT (1 OR 2 OR 4), 0]"

function send_configs :: "u8 list \<Rightarrow> si5351 \<Rightarrow> si5351" where
  "send_configs p s =
     (case p of [] \<Rightarrow> s
      | len # p \<Rightarrow> if len = 0 then s
                  else send_configs (drop (unat len) p) (si5351_bulk_write (take (unat len) p) s))"
  by pat_completeness auto

termination by (relation "measure (\<lambda>(p, s). length p)") auto

section \<open>Waiting for the PLLs\<close>

text \<open>
  \<open>status k\<close> is the status register after the \<open>k\<close>-th read, \<open>now k\<close> the system time at the
  \<open>k\<close>-th reading of the clock (number \<open>0\<close> is the one that fixes the timeout). The result is
  the number of reads.
\<close>

definition si5351_wait_pll_lock :: "(nat \<Rightarrow> u8) \<Rightarrow> (nat \<Rightarrow> u32) \<Rightarrow> nat option" where
  "si5351_wait_pll_lock status now =
     (let timeout = now 0 + 10000
      in map_option Suc (while_option (\<lambda>k. status k AND 0x60 \<noteq> 0 \<and> now (Suc k) < timeout) Suc 0))"

section \<open>PLLs and dividers\<close>

text \<open>The eight bytes that follow the address of a PLL or of a divider.\<close>

definition ms_bytes :: "u32 \<Rightarrow> u32 \<Rightarrow> u32 \<Rightarrow> u32 \<Rightarrow> u8 list" where
  "ms_bytes P1 P2 P3 rdiv =
     [ucast (drop_bit 8 (P3 AND 0x0FF00)), ucast (P3 AND 0xFF),
      ucast (drop_bit 16 (P1 AND 0x30000) OR rdiv),
      ucast (drop_bit 8 (P1 AND 0x0FF00)), ucast (P1 AND 0xFF),
      ucast (drop_bit 12 (P3 AND 0xF0000) OR drop_bit 16 (P2 AND 0xF0000)),
      ucast (drop_bit 8 (P2 AND 0x0FF00)), ucast (P2 AND 0xFF)]"

definition si5351_setup_pll :: "u8 \<Rightarrow> u32 \<Rightarrow> u32 \<Rightarrow> u32 \<Rightarrow> si5351 \<Rightarrow> si5351" where
  "si5351_setup_pll pllSource mult0 num denom s =
     (let mult0 = push_bit 7 mult0; num = push_bit 7 num; P1 = mult0 - 512;
          (P1, P2, P3) = (if num \<noteq> 0 then (P1 + num div denom, num mod denom, denom) else (P1, 0, 1))
      in si5351_bulk_write (pllSource # ms_bytes P1 P2 P3 0) s)"

definition msreg_base :: "u8 list" where
  "msreg_base = [42, 50, 58]"

definition si5351_setupMultisynth :: "nat \<Rightarrow> u32 \<Rightarrow> u32 \<Rightarrow> u32 \<Rightarrow> u32 \<Rightarrow> u8 \<Rightarrow> si5351 \<Rightarrow> si5351" where
  "si5351_setupMultisynth channel div0 num denom rdiv chctrl s =
     (let (P1, P2, P3, rdiv, num) =
        (if div0 = 4 then (0, 0, 1, rdiv OR 0x0C, num)
         else let num = push_bit 7 num; div0 = push_bit 7 div0; P1 = div0 - 512
              in if num \<noteq> 0 then (P1 + num div denom, num mod denom, denom, rdiv, num)
                 else (P1, 0, 1, rdiv, num));
          s = si5351_bulk_write (msreg_base ! channel # ms_bytes P1 P2 P3 rdiv) s;
          chctrl = chctrl OR 0x0C;
          chctrl = (if num = 0 then chctrl OR 0x40 else chctrl)
      in if clk_cache s channel \<noteq> chctrl
         then let s = si5351_write (16 + of_nat channel) chctrl s
              in s\<lparr>clk_cache := (clk_cache s)(channel := chctrl)\<rparr>
         else s)"

definition MAX_DENOMINATOR :: u32 where "MAX_DENOMINATOR = 2 ^ 20 - 1"

text \<open>The loop of \<open>approximate_fraction\<close>: \<open>(p1, q1)\<close> is the convergent found so far.\<close>

function fraction_loop :: "u32 \<Rightarrow> u32 \<Rightarrow> u32 \<Rightarrow> u32 \<Rightarrow> u32 \<Rightarrow> u32 \<Rightarrow> u32 \<times> u32" where
  "fraction_loop num denom p0 q0 p1 q1 =
     (if denom \<noteq> 0 then
        let a = num div denom; b = num mod denom; q2 = q0 + a * q1 in
        if q2 > MAX_DENOMINATOR then (p1, q1)
        else let p2 = p0 + a * p1 in fraction_loop denom b p1 q1 p2 q2
      else (p1, q1))"
  by pat_completeness auto

termination
  by (relation "measure (\<lambda>(num, denom, p0, q0, p1, q1). unat denom)") (auto simp: unat_mod unat_gt_0)

definition approximate_fraction :: "u32 \<Rightarrow> u32 \<Rightarrow> u32 \<times> u32" where
  "approximate_fraction n d = (if d > MAX_DENOMINATOR then fraction_loop n d 0 1 1 0 else (n, d))"

definition si5351_set_frequency_fixedpll :: "nat \<Rightarrow> u64 \<Rightarrow> u32 \<Rightarrow> u32 \<Rightarrow> u8 \<Rightarrow> si5351 \<Rightarrow> si5351" where
  "si5351_set_frequency_fixedpll channel pllfreq freq rdiv chctrl s =
     (let div0 = ucast (pllfreq div ucast freq) :: u32;
          num = ucast (pllfreq mod ucast freq) :: u32;
          (num, denom) = approximate_fraction num freq
      in si5351_setupMultisynth channel div0 num denom rdiv chctrl s)"

definition si5351_setup_pll_freq :: "u8 \<Rightarrow> u64 \<Rightarrow> u32 \<Rightarrow> si5351 \<Rightarrow> si5351" where
  "si5351_setup_pll_freq pllSource pllfreq div0 s =
     (let xtal = xtal_freq s * div0;
          multi = ucast (pllfreq div ucast xtal) :: u32;
          num = ucast (pllfreq mod ucast xtal) :: u32;
          (num, denom) = approximate_fraction num xtal
      in si5351_setup_pll pllSource multi num denom s)"

section \<open>Bands\<close>

definition si5351_set_band_mode :: "bool \<Rightarrow> u16 \<Rightarrow> si5351 \<Rightarrow> si5351 option" where
  "si5351_set_band_mode f303 t s =
     (let bs = [if f303 then band_strategy_H4_SI5351 else band_strategy_33H_SI5351,
                band_strategy_36H_MS5351, band_strategy_SWC5351]
      in if unat t < length bs then Some (s\<lparr>band_s := bs ! unat t\<rparr>) else None)"

text \<open>
  The limit of a row: a value below 20 is a multiple of the threshold, saturated. The scan
  leaves the table when no row covers the frequency.
\<close>

definition band_limit :: "u32 \<Rightarrow> band_strategy \<Rightarrow> u32" where
  "band_limit threshold b =
     (let f = bs_freq b in
      if f < 20 then
        let scaled = (ucast f :: u64) * ucast threshold
        in if scaled > 0xFFFFFFFF then 0xFFFFFFFF else ucast scaled
      else f)"

fun lvl_loop :: "u32 \<Rightarrow> u32 \<Rightarrow> band_strategy list \<Rightarrow> nat \<Rightarrow> nat option" where
  "lvl_loop freq threshold [] i = None"
| "lvl_loop freq threshold (b # bs) i =
     (if freq \<le> band_limit threshold b then Some i else lvl_loop freq threshold bs (Suc i))"

definition si5351_get_harmonic_lvl :: "u32 \<Rightarrow> si5351 \<Rightarrow> nat option" where
  "si5351_get_harmonic_lvl freq s =
     lvl_loop freq (clamp_harmonic_threshold (harmonic_freq_threshold s)) (band_s s) 0"

section \<open>Setting a frequency\<close>

text \<open>
  The part before the programming: the shift of low frequencies into the output divider and
  the band. The result is the divider code, the drive strength, the two shifted frequencies
  and the band.
\<close>

definition select_band :: "u32 \<Rightarrow> u8 \<Rightarrow> si5351 \<Rightarrow> (u32 \<times> u8 \<times> u32 \<times> u32 \<times> u8) option" where
  "select_band freq drive_strength s =
     (let ofreq = freq + if_offset s in
      if freq < bs_freq (band_s s ! 1) then Some (push_bit 4 7, 0, push_bit 7 freq, push_bit 7 ofreq, 1)
      else if freq \<le> 1000000 then Some (push_bit 4 4, drive_strength, push_bit 4 freq, push_bit 4 ofreq, 2)
      else map_option (\<lambda>lvl. (0, drive_strength, freq, ofreq, of_nat lvl)) (si5351_get_harmonic_lvl freq s))"

text \<open>The audio gain follows the band.\<close>

definition band_change_gain :: "nat \<Rightarrow> nat \<Rightarrow> si5351 \<Rightarrow> si5351" where
  "band_change_gain cur new s =
     (if bs_l_gain (band_s s ! cur) \<noteq> bs_l_gain (band_s s ! new) \<or>
         bs_r_gain (band_s s ! cur) \<noteq> bs_r_gain (band_s s ! new)
      then s\<lparr>codec_gain := (bs_l_gain (band_s s ! new), bs_r_gain (band_s s ! new))\<rparr> else s)"

text \<open>A fixed PLL of \<open>pll_n\<close> times the crystal, the two outputs divided from it.\<close>

definition program_fixed_pll :: "nat \<Rightarrow> bool \<Rightarrow> u8 \<Rightarrow> u8 \<Rightarrow> u32 \<Rightarrow> u32 \<Rightarrow> u32 \<Rightarrow> si5351 \<Rightarrow> si5351" where
  "program_fixed_pll bnd change ods ds rdiv freq ofreq s =
     (let b = band_s s ! bnd; mul = ucast (bs_mul b) :: u64; omul = ucast (bs_omul b) :: u64;
          pll_n = ucast (bs_div b) :: u32;
          s = (if change then
                 let s = si5351_setup_pll 26 pll_n 0 1 s;
                     s = si5351_setup_pll 34 PLL_N_2 0 1 s
                 in si5351_set_frequency_fixedpll 2 (ucast (xtal_freq s * PLL_N_2)) CLK2_FREQUENCY 0 0x20 s
               else s);
          s = si5351_set_frequency_fixedpll 0 (omul * ucast (xtal_freq s) * ucast pll_n) ofreq rdiv ods s
      in si5351_set_frequency_fixedpll 1 (mul * ucast (xtal_freq s) * ucast pll_n) freq rdiv ds s)"

text \<open>Two PLLs at \<open>div\<close> times the wanted frequencies, the outputs divided by \<open>div\<close>.\<close>

definition program_fixed_mult :: "nat \<Rightarrow> nat \<Rightarrow> u8 \<Rightarrow> u8 \<Rightarrow> u32 \<Rightarrow> u32 \<Rightarrow> si5351 \<Rightarrow> si5351" where
  "program_fixed_mult cur bnd ods ds freq ofreq s =
     (let b = band_s s ! bnd; mul = ucast (bs_mul b) :: u32; omul = ucast (bs_omul b) :: u32;
          fdiv = ucast (bs_div b) :: u32;
          s = si5351_setup_pll_freq 26 (ucast ofreq * ucast fdiv) omul s;
          s = si5351_setup_pll_freq 34 (ucast freq * ucast fdiv) mul s;
          s = (if bs_div (band_s s ! cur) \<noteq> bs_div b then
                 let s = si5351_setupMultisynth 0 fdiv 0 1 0 ods s
                 in si5351_setupMultisynth 1 fdiv 0 1 0 (ds OR 0x20) s
               else s)
      in si5351_set_frequency_fixedpll 2 (ucast freq * ucast fdiv) (CLK2_FREQUENCY * mul) 0 0x20 s)"

definition program_band :: "nat \<Rightarrow> u8 \<Rightarrow> u32 \<Rightarrow> u32 \<Rightarrow> u32 \<Rightarrow> si5351 \<Rightarrow> int \<times> si5351" where
  "program_band bnd drive_strength rdiv freq ofreq s =
     (let cur = unat (current_band s); b = band_s s ! bnd;
          (ds, ods) = (if 3 < drive_strength then (bs_pow b, bs_opow b) else (drive_strength, drive_strength))
      in if bs_mode b = SI5351_FIXED_PLL
           then (DELAY_BAND_1_2, program_fixed_pll bnd (cur \<noteq> bnd) ods ds rdiv freq ofreq s)
         else if bs_mode b = SI5351_FIXED_MULT
           then (DELAY_BAND_3_4, program_fixed_mult cur bnd ods ds freq ofreq s)
         else (0, s))"

definition si5351_set_frequency :: "u32 \<Rightarrow> u8 \<Rightarrow> si5351 \<Rightarrow> (int \<times> si5351) option" where
  "si5351_set_frequency freq drive_strength s =
     (if freq = 0 then Some (0, s) else
      case select_band freq drive_strength s of None \<Rightarrow> None
      | Some (rdiv, drive_strength, freq, ofreq, bnd) \<Rightarrow>
        let s = (if current_power s \<noteq> drive_strength
                 then (si5351_reset_cache s)\<lparr>current_power := drive_strength\<rparr> else s) in
        if freq = current_freq s then Some (DELAY_CHANNEL_CHANGE, s)
        else
          let s = (if current_band s \<noteq> bnd then band_change_gain (unat (current_band s)) (unat bnd) s else s);
              (delay, s) = program_band (unat bnd) drive_strength rdiv freq ofreq s;
              (delay, s) =
                (if current_band s \<noteq> bnd then
                   let s = si5351_reset_pll (0x20 OR 0x80) s
                   in (DELAY_BANDCHANGE, s\<lparr>pending_settling_cycles := 1, current_band := bnd\<rparr>)
                 else (delay, s))
          in Some (delay, s\<lparr>current_freq := freq\<rparr>))"

definition si5351_set_power :: "u8 \<Rightarrow> si5351 \<Rightarrow> si5351 option" where
  "si5351_set_power drive_strength s =
     (if drive_strength = current_power s then Some s
      else map_option snd (si5351_set_frequency (current_freq s) drive_strength s))"

definition si5351_init :: "bool \<Rightarrow> u16 \<Rightarrow> si5351 \<Rightarrow> si5351 option" where
  "si5351_init f303 band_mode s =
     (case si5351_set_band_mode f303 band_mode (send_configs si5351_configs s) of None \<Rightarrow> None
      | Some s \<Rightarrow> map_option snd (si5351_set_frequency XTALFREQ 0 s))"

section \<open>The continued fraction\<close>

lemma convergent_step_bound:
  fixes num denom q0 q1 :: nat
  assumes "0 < denom" and "num * q1 + denom * q0 < M"
  shows "q0 + num div denom * q1 < M"
    and "denom * (q0 + num div denom * q1) \<le> num * q1 + denom * q0"
proof -
  have "denom * (num div denom) * q1 \<le> num * q1" by (intro mult_right_mono) simp_all
  then show le: "denom * (q0 + num div denom * q1) \<le> num * q1 + denom * q0"
    by (simp add: algebra_simps)
  have "q0 + num div denom * q1 \<le> denom * (q0 + num div denom * q1)" using assms(1) by (cases denom) simp_all
  with le assms(2) show "q0 + num div denom * q1 < M" by linarith
qed

lemma convergent_step_word:
  fixes num denom q0 q1 :: u32
  assumes "denom \<noteq> 0" and "unat num * unat q1 + unat denom * unat q0 < 4294967296"
  shows "unat (q0 + num div denom * q1) = unat q0 + unat num div unat denom * unat q1"
proof -
  have "0 < unat denom" using assms(1) by (simp add: unat_gt_0)
  from convergent_step_bound(1) [OF this assms(2)]
  have b: "unat q0 + unat num div unat denom * unat q1 < 4294967296" .
  then show ?thesis by (simp add: unat_word_ariths unat_div mod_simps)
qed

lemma unat_MAX_DENOMINATOR: "unat MAX_DENOMINATOR = 1048575"
  by (simp add: MAX_DENOMINATOR_def)

text \<open>
  What the loop keeps: \<open>N\<close> and \<open>D\<close> are the numbers it started from, written in the current
  remainders, two consecutive convergents have the determinant \<open>1\<close> or \<open>-1\<close>.
\<close>

definition fraction_inv :: "nat \<Rightarrow> nat \<Rightarrow> nat \<Rightarrow> nat \<Rightarrow> nat \<Rightarrow> nat \<Rightarrow> nat \<Rightarrow> nat \<Rightarrow> bool" where
  "fraction_inv N D num denom p0 q0 p1 q1 =
     (N = num * p1 + denom * p0 \<and> D = num * q1 + denom * q0 \<and>
      \<bar>int p1 * int q0 - int p0 * int q1\<bar> = 1)"

lemma fraction_inv_step:
  assumes "fraction_inv N D num denom p0 q0 p1 q1"
  shows "fraction_inv N D denom (num mod denom) p1 q1 (p0 + num div denom * p1) (q0 + num div denom * q1)"
proof -
  have e: "denom * (num div denom) + num mod denom = num" by simp
  have "denom * (x0 + num div denom * x1) + num mod denom * x1 = num * x1 + denom * x0" for x0 x1
  proof -
    have "denom * (x0 + num div denom * x1) + num mod denom * x1
      = (denom * (num div denom) + num mod denom) * x1 + denom * x0" by (simp only: algebra_simps)
    then show ?thesis by (simp only: e)
  qed
  moreover have "int (p0 + num div denom * p1) * int q1 - int p1 * int (q0 + num div denom * q1)
    = - (int p1 * int q0 - int p0 * int q1)" by (simp add: algebra_simps)
  ultimately show ?thesis using assms unfolding fraction_inv_def by (metis abs_minus_cancel)
qed

lemma fraction_inv_error:
  assumes "fraction_inv N D num denom p0 q0 p1 q1"
  shows "\<bar>int N * int q1 - int D * int p1\<bar> = int denom"
proof -
  have "int N * int q1 - int D * int p1 = int denom * - (int p1 * int q0 - int p0 * int q1)"
    using assms unfolding fraction_inv_def by (simp add: algebra_simps)
  then have "\<bar>int N * int q1 - int D * int p1\<bar> = int denom * \<bar>int p1 * int q0 - int p0 * int q1\<bar>"
    by (metis abs_minus_cancel abs_mult abs_of_nat)
  then show ?thesis using assms unfolding fraction_inv_def by simp
qed

lemma fraction_loop_ok:
  assumes "fraction_inv N D (unat num) (unat denom) (unat p0) (unat q0) (unat p1) (unat q1)"
    and "N < 4294967296" and "D < 4294967296"
    and "q1 \<le> MAX_DENOMINATOR" and "0 < unat q1 \<and> denom < num \<or> q1 = 0 \<and> q0 = 1 \<and> denom \<noteq> 0"
    and "fraction_loop num denom p0 q0 p1 q1 = (p, q)"
  shows "0 < unat q \<and> unat q \<le> 1048575 \<and> \<bar>int N * int (unat q) - int D * int (unat p)\<bar> * 1048576 \<le> int D"
  using assms
proof (induction num denom p0 q0 p1 q1 rule: fraction_loop.induct)
  case (1 num denom p0 q0 p1 q1)
  note inv = 1(2)
  show ?case
  proof (cases "denom = 0")
    case True
    with 1 fraction_inv_error [OF inv] show ?thesis
      by (auto simp: fraction_loop.simps word_le_nat_alt unat_MAX_DENOMINATOR)
  next
    case False
    let ?a = "num div denom" and ?q2 = "q0 + num div denom * q1" and ?p2 = "p0 + num div denom * p1"
    have d: "0 < unat denom" using False by (simp add: unat_gt_0)
    have ND: "N = unat num * unat p1 + unat denom * unat p0" "D = unat num * unat q1 + unat denom * unat q0"
      using inv by (simp_all add: fraction_inv_def)
    have q2: "unat ?q2 = unat q0 + unat num div unat denom * unat q1"
      using False 1(4) ND(2) by (intro convergent_step_word) simp_all
    have p2: "unat ?p2 = unat p0 + unat num div unat denom * unat p1"
      using False 1(3) ND(1) by (intro convergent_step_word) simp_all
    show ?thesis
    proof (cases "?q2 > MAX_DENOMINATOR")
      case True
      then have res: "p = p1" "q = q1" using 1(7) False by (simp_all add: fraction_loop.simps Let_def)
      have big: "1048576 \<le> unat ?q2" using True by (simp add: word_less_nat_alt unat_MAX_DENOMINATOR)
      have "q1 \<noteq> 0"
      proof
        assume "q1 = 0"
        then have "q0 = 1" using 1(6) by (simp add: unat_gt_0)
        with \<open>q1 = 0\<close> q2 have "unat ?q2 = 1" by simp
        with big show False by linarith
      qed
      have "unat denom * unat ?q2 \<le> D"
        using convergent_step_bound(2) [OF d, of "unat num" "unat q1" "unat q0" "Suc D"] ND(2) q2 by simp
      then have "unat denom * 1048576 \<le> D" using big by (meson le_trans mult_le_mono2)
      then have "\<bar>int N * int (unat q1) - int D * int (unat p1)\<bar> * 1048576 \<le> int D"
        using fraction_inv_error [OF inv] by (metis of_nat_le_iff of_nat_mult of_nat_numeral)
      with res \<open>q1 \<noteq> 0\<close> 1(5) show ?thesis by (simp add: unat_gt_0 word_le_nat_alt unat_MAX_DENOMINATOR)
    next
      case le: False
      have ge: "0 < unat ?q2 \<and> num mod denom < denom"
      proof
        show "num mod denom < denom" using d by (simp add: word_less_nat_alt unat_mod)
        show "0 < unat ?q2"
        proof (cases "q1 = 0")
          case True
          with 1(6) have "q0 = 1" by (simp add: unat_gt_0)
          with True show ?thesis by simp
        next
          case nz: False
          with 1(6) have "denom < num" "0 < unat q1" by auto
          then have "0 < unat num div unat denom * unat q1" using d by (simp add: div_greater_zero_iff word_less_nat_alt)
          with q2 show ?thesis by linarith
        qed
      qed
      have "fraction_loop denom (num mod denom) p1 q1 ?p2 ?q2 = (p, q)"
        using 1(7) False le by (simp add: fraction_loop.simps [of num] Let_def)
      moreover have "fraction_inv N D (unat denom) (unat (num mod denom)) (unat p1) (unat q1) (unat ?p2) (unat ?q2)"
        using fraction_inv_step [OF inv] by (simp only: q2 p2 unat_mod)
      ultimately show ?thesis
        using 1(1) [OF False refl refl refl le refl] 1(3,4) le ge by (simp add: not_less)
    qed
  qed
qed

lemma approximate_fraction_close:
  assumes "n < d"
  shows "case approximate_fraction n d of (p, q) \<Rightarrow>
    0 < q \<and> q \<le> MAX_DENOMINATOR \<and> p \<le> q \<and>
    \<bar>int (unat n) * int (unat q) - int (unat d) * int (unat p)\<bar> * 2 ^ 20 \<le> int (unat d)"
proof -
  obtain p q where r: "approximate_fraction n d = (p, q)" by fastforce
  have nd: "unat n < unat d" using assms by (simp add: word_less_nat_alt)
  have ok: "0 < unat q \<and> unat q \<le> 1048575 \<and> \<bar>int (unat n) * int (unat q) - int (unat d) * int (unat p)\<bar> * 1048576 \<le> int (unat d)"
  proof (cases "d > MAX_DENOMINATOR")
    case True
    with r have l: "fraction_loop n d 0 1 1 0 = (p, q)" by (simp add: approximate_fraction_def)
    have "d \<noteq> 0" using nd by (metis not_less0 unat_eq_zero)
    moreover have "fraction_inv (unat n) (unat d) (unat n) (unat d) (unat (0::u32)) (unat (1::u32)) (unat (1::u32)) (unat (0::u32))"
      by (simp add: fraction_inv_def)
    ultimately show ?thesis using fraction_loop_ok [OF _ u32_bound u32_bound _ _ l] by simp
  next
    case False
    with r nd show ?thesis
      by (auto simp: approximate_fraction_def word_less_nat_alt unat_MAX_DENOMINATOR not_less)
  qed
  have "unat p \<le> unat q"
  proof (rule ccontr)
    assume "\<not> unat p \<le> unat q"
    then have "int (unat q) + 1 \<le> int (unat p)" by linarith
    then have "int (unat d) * (int (unat q) + 1) \<le> int (unat d) * int (unat p)" by (intro mult_left_mono) simp_all
    moreover have "int (unat n) * int (unat q) \<le> int (unat d) * int (unat q)" using nd by (intro mult_right_mono) linarith+
    ultimately have "int (unat d) \<le> \<bar>int (unat n) * int (unat q) - int (unat d) * int (unat p)\<bar>"
      by (simp add: algebra_simps)
    moreover have "False" if "x \<le> y" "y * 1048576 \<le> x" "0 < x" for x y :: int using that by linarith
    ultimately show False using ok nd by (metis of_nat_0_less_iff gr_implies_not0 neq0_conv)
  qed
  with ok r show ?thesis by (simp add: word_le_nat_alt unat_MAX_DENOMINATOR word_less_nat_alt)
qed


section \<open>What the registers mean\<close>

text \<open>
  The divider a block of eight registers encodes, as the data sheet gives it: the three
  parameters, and \<open>a + b / c = (P1 + 512 + P2 / P3) / 128\<close>, or 4 when both DIVBY4 bits are set.
\<close>

definition reg_P1 :: "(nat \<Rightarrow> u8) \<Rightarrow> nat \<Rightarrow> nat" where
  "reg_P1 r b = unat (r (b + 2)) mod 4 * 65536 + unat (r (b + 3)) * 256 + unat (r (b + 4))"

definition reg_P2 :: "(nat \<Rightarrow> u8) \<Rightarrow> nat \<Rightarrow> nat" where
  "reg_P2 r b = unat (r (b + 5)) mod 16 * 65536 + unat (r (b + 6)) * 256 + unat (r (b + 7))"

definition reg_P3 :: "(nat \<Rightarrow> u8) \<Rightarrow> nat \<Rightarrow> nat" where
  "reg_P3 r b = unat (r (b + 5)) div 16 * 65536 + unat (r b) * 256 + unat (r (b + 1))"

definition reg_rdiv :: "(nat \<Rightarrow> u8) \<Rightarrow> nat \<Rightarrow> nat" where
  "reg_rdiv r b = unat (r (b + 2)) div 16 mod 8"

definition reg_divby4 :: "(nat \<Rightarrow> u8) \<Rightarrow> nat \<Rightarrow> nat" where
  "reg_divby4 r b = unat (r (b + 2)) div 4 mod 4"

definition reg_ratio :: "(nat \<Rightarrow> u8) \<Rightarrow> nat \<Rightarrow> real" where
  "reg_ratio r b = (if reg_divby4 r b = 3 then 4
     else (real (reg_P1 r b) + 512 + real (reg_P2 r b) / real (reg_P3 r b)) / 128)"

text \<open>The frequency of an output, from the crystal.\<close>

definition pll_out :: "u32 \<Rightarrow> (nat \<Rightarrow> u8) \<Rightarrow> nat \<Rightarrow> real" where
  "pll_out xtal r b = real (unat xtal) * reg_ratio r b"

definition clk_out :: "u32 \<Rightarrow> (nat \<Rightarrow> u8) \<Rightarrow> nat \<Rightarrow> real" where
  "clk_out xtal r ch =
     pll_out xtal r (if bit (r (16 + ch)) 5 then 34 else 26) / (reg_ratio r (42 + 8 * ch) * 2 ^ reg_rdiv r (42 + 8 * ch))"

lemma unat_drop_take:
  fixes x :: u32
  shows "unat (drop_bit k x) = unat x div 2 ^ k" and "unat (take_bit k x) = unat x mod 2 ^ k"
  using u32_bound [of x] by (simp_all add: unsigned_drop_bit_eq unsigned_take_bit_eq drop_bit_nat_def take_bit_nat_def del: drop_bit_eq_div)

lemma unat_byte: "unat (ucast (drop_bit k (x :: u32)) :: u8) = unat x div 2 ^ k mod 256"
  by (simp add: unsigned_ucast_eq take_bit_eq_mod unat_drop_take del: drop_bit_eq_div)

lemma byte_masks:
  fixes x :: u32
  shows "(ucast (x AND 0xFF) :: u8) = ucast (drop_bit 0 x)"
    and "(ucast (drop_bit 8 (x AND 0x0FF00)) :: u8) = ucast (drop_bit 8 x)"
proof -
  have m: "0xFF = (mask 8 :: u32)" "0x0FF00 = (push_bit 8 (mask 8) :: u32)" by (simp_all add: mask_eq_exp_minus_1)
  show "(ucast (x AND 0xFF) :: u8) = ucast (drop_bit 0 x)"
    "(ucast (drop_bit 8 (x AND 0x0FF00)) :: u8) = ucast (drop_bit 8 x)"
    unfolding m by (auto intro!: bit_word_eqI simp: bit_simps)
qed

lemma high_nibbles:
  fixes x y :: u32
  shows "unat (ucast (drop_bit 12 (x AND 0xF0000) OR drop_bit 16 (y AND 0xF0000)) :: u8)
    = unat x div 65536 mod 16 * 16 + unat y div 65536 mod 16"
proof -
  let ?h = "take_bit 4 (drop_bit 16 x)" and ?l = "take_bit 4 (drop_bit 16 y)"
  have m: "0xF0000 = (push_bit 16 (mask 4) :: u32)" by (simp add: mask_eq_exp_minus_1)
  have "(ucast (drop_bit 12 (x AND 0xF0000) OR drop_bit 16 (y AND 0xF0000)) :: u8) = ucast (push_bit 4 ?h OR ?l)"
    unfolding m by (auto intro!: bit_word_eqI simp: bit_simps)
  moreover have "push_bit 4 ?h OR ?l = push_bit 4 ?h + ?l"
    by (intro disjunctive_add [symmetric]) (auto simp: bit_simps)
  moreover have h: "unat ?h < 16" "unat ?l < 16"
    by (simp_all add: unat_drop_take del: drop_bit_eq_div)
  moreover have "unat (push_bit 4 ?h) = unat ?h * 16"
    using h(1) by (simp add: push_bit_eq_mult unat_word_ariths)
  ultimately have "unat (ucast (drop_bit 12 (x AND 0xF0000) OR drop_bit 16 (y AND 0xF0000)) :: u8) = unat ?h * 16 + unat ?l"
    by (simp add: unsigned_ucast_eq take_bit_eq_mod unat_word_ariths)
  then show ?thesis by (simp add: unat_drop_take del: drop_bit_eq_div take_bit_eq_mod)
qed

lemma control_byte:
  fixes x rdiv :: u32
  assumes "rdiv AND 0xFFFFFF03 = 0"
  shows "unat (ucast (drop_bit 16 (x AND 0x30000) OR rdiv) :: u8) = unat rdiv + unat x div 65536 mod 4"
proof -
  let ?l = "take_bit 2 (drop_bit 16 x)"
  have m: "0x30000 = (push_bit 16 (mask 2) :: u32)" "0xFFFFFF03 = (NOT (push_bit 2 (mask 6)) :: u32)"
    by (simp_all add: mask_eq_exp_minus_1)
  have z: "\<not> bit rdiv n" if "n < 2 \<or> 8 \<le> n" for n
  proof -
    have "\<not> bit (rdiv AND NOT (push_bit 2 (mask 6))) n" using assms unfolding m by simp
    then show ?thesis using that by (auto simp: bit_simps dest: bit_imp_le_length)
  qed
  have "ucast (drop_bit 16 (x AND 0x30000) OR rdiv) = (ucast (?l OR rdiv) :: u8)"
    unfolding m by (auto intro!: bit_word_eqI simp: bit_simps)
  moreover have "?l OR rdiv = ?l + rdiv"
    by (intro disjunctive_add [symmetric]) (auto simp: bit_simps z)
  moreover have h: "unat ?l < 4" by (simp add: unat_drop_take del: drop_bit_eq_div)
  moreover have r: "unat rdiv \<le> 252"
  proof -
    have e: "(push_bit 2 (mask 6) :: u32) = 252" by (simp add: mask_eq_exp_minus_1)
    have "rdiv AND push_bit 2 (mask 6) = rdiv"
      proof (intro bit_word_eqI)
      fix n show "bit (rdiv AND push_bit 2 (mask 6)) n = bit rdiv n" if "n < LENGTH(32)"
        using that z [of n] by (cases "n < 2 \<or> 8 \<le> n") (auto simp: bit_simps)
    qed
    then have "rdiv \<le> 252" unfolding e by (metis word_and_le1)
    then show ?thesis by (simp add: word_le_nat_alt)
  qed
  ultimately show ?thesis
    by (simp add: unsigned_ucast_eq take_bit_eq_mod unat_word_ariths unat_drop_take del: drop_bit_eq_div)
qed

text \<open>The bytes of the three parameters are read back whole, up to the width of the fields.\<close>

definition holds_bytes :: "(nat \<Rightarrow> u8) \<Rightarrow> nat \<Rightarrow> u8 list \<Rightarrow> bool" where
  "holds_bytes r b ds \<longleftrightarrow> (\<forall>i < length ds. r (b + i) = ds ! i)"

lemma byte_sum:
  fixes x :: nat
  shows "x div 65536 mod 4 * 65536 + x div 256 mod 256 * 256 + x mod 256 = x mod 262144"
    and "x div 65536 mod 16 * 65536 + x div 256 mod 256 * 256 + x mod 256 = x mod 1048576"
proof -
  have "x mod 262144 = 65536 * (x div 65536 mod 4) + x mod 65536" using mod_mult2_eq [of x 65536 4] by simp
  moreover have "x mod 65536 = 256 * (x div 256 mod 256) + x mod 256" using mod_mult2_eq [of x 256 256] by simp
  moreover have "x mod 1048576 = 65536 * (x div 65536 mod 16) + x mod 65536" using mod_mult2_eq [of x 65536 16] by simp
  ultimately show "x div 65536 mod 4 * 65536 + x div 256 mod 256 * 256 + x mod 256 = x mod 262144"
    "x div 65536 mod 16 * 65536 + x div 256 mod 256 * 256 + x mod 256 = x mod 1048576" by simp_all
qed

lemma nth8:
  "[a, b, c, d, e, f, g, h] ! 0 = a" "[a, b, c, d, e, f, g, h] ! 1 = b" "[a, b, c, d, e, f, g, h] ! 2 = c"
  "[a, b, c, d, e, f, g, h] ! 3 = d" "[a, b, c, d, e, f, g, h] ! 4 = e" "[a, b, c, d, e, f, g, h] ! 5 = f"
  "[a, b, c, d, e, f, g, h] ! 6 = g" "[a, b, c, d, e, f, g, h] ! 7 = h"
  by simp_all

lemma unat_byte8:
  "unat (ucast (drop_bit 8 (x :: u32)) :: u8) = unat x div 256 mod 256"
  "unat (ucast (drop_bit 0 (x :: u32)) :: u8) = unat x mod 256"
  using unat_byte [of 8 x] unat_byte [of 0 x] by simp_all

lemma ms_bytes_nth:
  "unat (ms_bytes P1 P2 P3 rdiv ! 0) = unat P3 div 256 mod 256" "unat (ms_bytes P1 P2 P3 rdiv ! 1) = unat P3 mod 256"
  "unat (ms_bytes P1 P2 P3 rdiv ! 3) = unat P1 div 256 mod 256" "unat (ms_bytes P1 P2 P3 rdiv ! 4) = unat P1 mod 256"
  "unat (ms_bytes P1 P2 P3 rdiv ! 6) = unat P2 div 256 mod 256" "unat (ms_bytes P1 P2 P3 rdiv ! 7) = unat P2 mod 256"
  "unat (ms_bytes P1 P2 P3 rdiv ! 5) = unat P3 div 65536 mod 16 * 16 + unat P2 div 65536 mod 16"
  "rdiv AND 0xFFFFFF03 = 0 \<Longrightarrow> unat (ms_bytes P1 P2 P3 rdiv ! 2) = unat rdiv + unat P1 div 65536 mod 4"
  by (simp_all only: ms_bytes_def nth8 byte_masks unat_byte8 high_nibbles control_byte)

lemma ms_bytes_decode:
  assumes "holds_bytes r b (ms_bytes P1 P2 P3 rdiv)" and "rdiv AND 0xFFFFFF03 = 0"
  shows "reg_P1 r b = unat P1 mod 2 ^ 18 \<and> reg_P2 r b = unat P2 mod 2 ^ 20 \<and> reg_P3 r b = unat P3 mod 2 ^ 20 \<and>
    reg_rdiv r b = unat rdiv div 16 mod 8 \<and> reg_divby4 r b = unat rdiv div 4 mod 4"
proof -
  have e: "r (b + i) = ms_bytes P1 P2 P3 rdiv ! i" if "i < 8" for i
    using assms(1) that by (simp add: holds_bytes_def ms_bytes_def)
  have c: "unat (r (b + 2)) = unat rdiv + unat P1 div 65536 mod 4"
    using e [of 2] ms_bytes_nth(8) [OF assms(2)] by simp
  have h: "unat (r (b + 5)) = unat P3 div 65536 mod 16 * 16 + unat P2 div 65536 mod 16"
    using e [of 5] ms_bytes_nth(7) by simp
  have m: "unat rdiv mod 4 = 0"
  proof -
    have "rdiv AND 3 = (rdiv AND 0xFFFFFF03) AND 3" by (simp add: and.assoc)
    then have "rdiv AND 3 = 0" unfolding assms(2) by simp
    moreover have "take_bit 2 rdiv = rdiv AND 3" by (simp add: take_bit_eq_mask mask_eq_exp_minus_1)
    ultimately have "take_bit 2 rdiv = 0" by (simp only:)
    then show ?thesis using unat_drop_take(2) [of 2 rdiv] by (simp del: take_bit_eq_mod)
  qed
  have bytes: "unat (r b) = unat P3 div 256 mod 256" "unat (r (b + 1)) = unat P3 mod 256"
    "unat (r (b + 3)) = unat P1 div 256 mod 256" "unat (r (b + 4)) = unat P1 mod 256"
    "unat (r (b + 6)) = unat P2 div 256 mod 256" "unat (r (b + 7)) = unat P2 mod 256"
    using e [of 0] e [of 1] e [of 3] e [of 4] e [of 6] e [of 7] ms_bytes_nth(1-6) [of P1 P2 P3 rdiv] by simp_all
  from m obtain k where k: "unat rdiv = 4 * k" by (metis dvd_imp_mod_0 mod_0_imp_dvd dvdE)
  have "unat (r (b + 2)) mod 4 = unat P1 div 65536 mod 4" "unat (r (b + 2)) div 16 = unat rdiv div 16"
    "unat (r (b + 2)) div 4 = unat rdiv div 4"
    unfolding c k by (simp_all add: div_mult2_eq [of _ 4 4, simplified])
  with bytes h show ?thesis
    unfolding reg_P1_def reg_P2_def reg_P3_def reg_rdiv_def reg_divby4_def
    by (simp add: byte_sum)
qed

section \<open>Programming a divider\<close>

text \<open>A divider \<open>a + n / d\<close> within the fields gives the three parameters of the data sheet.\<close>

lemma reg_ratio_fields:
  assumes "holds_bytes r b (ms_bytes P1 P2 P3 rdiv)" and "rdiv AND 0xFFFFFF03 = 0"
    and "unat P1 < 262144" "unat P2 < 1048576" "unat P3 < 1048576" and "unat rdiv div 4 mod 4 \<noteq> 3"
  shows "reg_ratio r b = (real (unat P1) + 512 + real (unat P2) / real (unat P3)) / 128"
  using ms_bytes_decode [OF assms(1,2)] assms(3-) by (simp add: reg_ratio_def)

lemma divider_parameters:
  fixes a n d :: u32
  assumes "4 \<le> unat a" "unat a \<le> 2050" "unat n \<le> unat d" "0 < unat d" "unat d < 1048576" "n \<noteq> 0"
  shows "unat (push_bit 7 a - 512 + push_bit 7 n div d) = 128 * unat a - 512 + 128 * unat n div unat d"
    and "unat (push_bit 7 n mod d) = 128 * unat n mod unat d"
    and "push_bit 7 n \<noteq> 0" and "128 * unat n div unat d \<le> 128"
proof -
  have pa: "unat (push_bit 7 a) = 128 * unat a" "unat (push_bit 7 n) = 128 * unat n"
    using assms by (simp_all add: push_bit_eq_mult unat_word_ariths)
  then show "push_bit 7 n \<noteq> 0" using assms(6) by (metis mult_eq_0_iff unat_eq_zero zero_neq_numeral)
  have s: "unat (push_bit 7 a - 512) = 128 * unat a - 512"
    using pa assms(1) by (subst unat_sub) (simp_all add: word_le_nat_alt)
  have "128 * unat n div unat d \<le> 128 * unat d div unat d" using assms(3) by (intro div_le_mono) simp
  then show q: "128 * unat n div unat d \<le> 128" using assms(4) by simp
  show "unat (push_bit 7 a - 512 + push_bit 7 n div d) = 128 * unat a - 512 + 128 * unat n div unat d"
    using s pa q assms(2) by (subst unat_add_lem [THEN iffD1]) (simp_all add: unat_div)
  show "unat (push_bit 7 n mod d) = 128 * unat n mod unat d" using pa by (simp add: unat_mod)
qed

lemma div_mod_real: "real (x div y) + real (x mod y) / real y = real x / real y" if "0 < y" for x y :: nat
proof -
  have "real x = real (x div y) * real y + real (x mod y)" by (metis div_mult_mod_eq of_nat_add of_nat_mult)
  then show ?thesis using that by (simp add: field_simps)
qed

lemma divider_value:
  fixes a n d :: u32
  assumes "4 \<le> unat a" "unat a \<le> 2050" "unat n \<le> unat d" "0 < unat d" "unat d < 1048576" "n \<noteq> 0"
    and "holds_bytes r b (ms_bytes (push_bit 7 a - 512 + push_bit 7 n div d) (push_bit 7 n mod d) d rdiv)"
    and "rdiv AND 0xFFFFFF03 = 0" and "unat rdiv div 4 mod 4 \<noteq> 3"
  shows "reg_ratio r b = real (unat a) + real (unat n) / real (unat d)"
proof -
  note p = divider_parameters [OF assms(1-6)]
  have "unat (push_bit 7 n mod d) < 1048576" using p(2) assms(4,5) by (metis less_trans mod_less_divisor)
  then have "reg_ratio r b = (real (128 * unat a - 512 + 128 * unat n div unat d) + 512 +
      real (128 * unat n mod unat d) / real (unat d)) / 128"
    using reg_ratio_fields [OF assms(7,8)] p(1,2,4) assms(1,2,5,9) by simp
  also have "\<dots> = (128 * real (unat a) + (real (128 * unat n div unat d) + real (128 * unat n mod unat d) / real (unat d))) / 128"
    using assms(1) by (simp add: of_nat_diff)
  also have "\<dots> = real (unat a) + real (unat n) / real (unat d)"
    unfolding div_mod_real [OF assms(4)] by (simp add: field_simps)
  finally show ?thesis .
qed

section \<open>Effects of the transfers\<close>

text \<open>
  A step that only touches the chip: the registers of \<open>A\<close> and the cache of the control bytes.
\<close>

definition chip_step :: "nat set \<Rightarrow> si5351 \<Rightarrow> si5351 \<Rightarrow> bool" where
  "chip_step A s s' \<longleftrightarrow> s' = s\<lparr>regs := regs s', clk_cache := clk_cache s'\<rparr> \<and> (\<forall>i. i \<notin> A \<longrightarrow> regs s' i = regs s i)"

lemma chip_step_refl: "chip_step A s s"
  by (simp add: chip_step_def)

lemma chip_step_trans [trans]: "chip_step A s t \<Longrightarrow> chip_step B t u \<Longrightarrow> chip_step (A \<union> B) s u"
  unfolding chip_step_def by (cases s, cases t, cases u) auto

lemma chip_step_mono: "chip_step A s t \<Longrightarrow> A \<subseteq> B \<Longrightarrow> chip_step B s t"
  unfolding chip_step_def by auto

lemma chip_step_fields:
  assumes "chip_step A s t"
  shows "current_band t = current_band s" "current_power t = current_power s" "current_freq t = current_freq s"
    "pending_settling_cycles t = pending_settling_cycles s" "band_s t = band_s s" "if_offset t = if_offset s"
    "xtal_freq t = xtal_freq s" "harmonic_freq_threshold t = harmonic_freq_threshold s"
    "codec_gain t = codec_gain s" "dsp_offset t = dsp_offset s"
  using assms by (cases s; cases t; simp add: chip_step_def)+

lemma chip_step_reg: "chip_step A s t \<Longrightarrow> i \<notin> A \<Longrightarrow> regs t i = regs s i"
  by (simp add: chip_step_def)

definition block :: "nat \<Rightarrow> nat set" where
  "block b = {b ..< b + 8}"

lemma reg_block_cong:
  assumes "\<And>i. i \<in> block b \<Longrightarrow> r i = r' i"
  shows "reg_ratio r b = reg_ratio r' b" "reg_rdiv r b = reg_rdiv r' b"
  using assms by (simp_all add: reg_ratio_def reg_divby4_def reg_P1_def reg_P2_def reg_P3_def reg_rdiv_def block_def)

lemma chip_step_block:
  assumes "chip_step A s t" and "A \<inter> block b = {}"
  shows "reg_ratio (regs t) b = reg_ratio (regs s) b" "reg_rdiv (regs t) b = reg_rdiv (regs s) b"
  using assms chip_step_reg [OF assms(1)] by (auto intro!: reg_block_cong)

lemma bulk_write_regs:
  "regs (si5351_bulk_write (r # ds) s) i =
     (if unat r \<le> i \<and> i < unat r + length ds then ds ! (i - unat r) else regs s i)"
  "clk_cache (si5351_bulk_write (r # ds) s) = clk_cache s"
  by (simp_all add: si5351_bulk_write_def)

lemma bulk_write_step: "{unat r ..< unat r + length ds} \<subseteq> A \<Longrightarrow> chip_step A s (si5351_bulk_write (r # ds) s)"
  unfolding chip_step_def by (cases s) (auto simp: si5351_bulk_write_def)

lemma length_ms_bytes: "length (ms_bytes P1 P2 P3 rdiv) = 8"
  by (simp add: ms_bytes_def)

lemma bulk_write_block:
  "holds_bytes (regs (si5351_bulk_write (r # ms_bytes P1 P2 P3 rdiv) s)) (unat r) (ms_bytes P1 P2 P3 rdiv)"
  by (simp add: holds_bytes_def bulk_write_regs length_ms_bytes)

lemma integer_value:
  assumes "4 \<le> unat (a :: u32)" "unat a \<le> 2050" "holds_bytes r b (ms_bytes (push_bit 7 a - 512) 0 1 rdiv)"
    and "rdiv AND 0xFFFFFF03 = 0" and "unat rdiv div 4 mod 4 \<noteq> 3"
  shows "reg_ratio r b = real (unat a)"
proof -
  have "unat (push_bit 7 a) = 128 * unat a" using assms by (simp add: push_bit_eq_mult unat_word_ariths)
  then have s: "unat (push_bit 7 a - 512) = 128 * unat a - 512"
    using assms(1) by (subst unat_sub) (simp_all add: word_le_nat_alt)
  then show ?thesis
    using reg_ratio_fields [OF assms(3,4)] assms(1,2,5) by (simp add: of_nat_diff)
qed

text \<open>A fraction the drivers pass: the denominator fits the field, or the numerator is zero.\<close>

definition fraction_ok :: "u32 \<Rightarrow> u32 \<Rightarrow> bool" where
  "fraction_ok n d \<longleftrightarrow> n = 0 \<or> unat n \<le> unat d \<and> 0 < unat d \<and> unat d < 1048576"

lemma push7_zero: "fraction_ok n d \<Longrightarrow> push_bit 7 n = 0 \<longleftrightarrow> n = 0"
  using divider_parameters(3) [of 4 n d] by (auto simp: fraction_ok_def)

lemma setup_pll_effect:
  assumes "4 \<le> unat a" "unat a \<le> 2050" "fraction_ok n d"
  shows "chip_step (block (unat src)) s (si5351_setup_pll src a n d s)"
    and "reg_ratio (regs (si5351_setup_pll src a n d s)) (unat src) = real (unat a) + real (unat n) / real (unat d)"
proof -
  show "chip_step (block (unat src)) s (si5351_setup_pll src a n d s)"
    unfolding si5351_setup_pll_def Let_def split_def
    by (intro bulk_write_step) (simp add: block_def length_ms_bytes)
  show "reg_ratio (regs (si5351_setup_pll src a n d s)) (unat src) = real (unat a) + real (unat n) / real (unat d)"
  proof (cases "n = 0")
    case True
    then show ?thesis
      using integer_value [OF assms(1,2) bulk_write_block] by (simp add: si5351_setup_pll_def Let_def)
  next
    case False
    then show ?thesis
      using divider_value [OF assms(1,2) _ _ _ False bulk_write_block] assms(3) push7_zero [OF assms(3)]
      by (simp add: si5351_setup_pll_def Let_def fraction_ok_def)
  qed
qed

text \<open>The control byte the divider routine wants for an output.\<close>

definition clk_byte :: "u32 \<Rightarrow> u8 \<Rightarrow> u8" where
  "clk_byte n chctrl = (if n = 0 then chctrl OR 0x0C OR 0x40 else chctrl OR 0x0C)"

text \<open>The cached control byte of an output is its register, once it has been written.\<close>

definition cache_ok :: "si5351 \<Rightarrow> bool" where
  "cache_ok s \<longleftrightarrow> (\<forall>ch < 3. clk_cache s ch = 0 \<or> regs s (16 + ch) = clk_cache s ch)"

definition channel_regs :: "nat \<Rightarrow> nat set" where
  "channel_regs ch = insert (16 + ch) (block (42 + 8 * ch))"

lemma three_cases: "ch < 3 \<Longrightarrow> ch = 0 \<or> ch = 1 \<or> ch = (2 :: nat)"
  by linarith

lemma msreg_base_nth: "ch < 3 \<Longrightarrow> unat (msreg_base ! ch) = 42 + 8 * ch"
  by (drule three_cases) (auto simp: msreg_base_def)

text \<open>The register block and the control byte of an output, apart.\<close>

definition ms_params :: "u32 \<Rightarrow> u32 \<Rightarrow> u32 \<Rightarrow> u32 \<Rightarrow> u32 \<times> u32 \<times> u32 \<times> u32" where
  "ms_params a n d rdiv =
     (if a = 4 then (0, 0, 1, rdiv OR 0x0C)
      else if push_bit 7 n \<noteq> 0 then (push_bit 7 a - 512 + push_bit 7 n div d, push_bit 7 n mod d, d, rdiv)
      else (push_bit 7 a - 512, 0, 1, rdiv))"

definition write_clk :: "nat \<Rightarrow> u8 \<Rightarrow> si5351 \<Rightarrow> si5351" where
  "write_clk ch c s = (if clk_cache s ch \<noteq> c
     then (si5351_write (16 + of_nat ch) c s)\<lparr>clk_cache := (clk_cache s)(ch := c)\<rparr> else s)"

lemma setupMultisynth_split:
  assumes "push_bit 7 n = 0 \<longleftrightarrow> n = 0"
  shows "si5351_setupMultisynth ch a n d rdiv c s =
    (case ms_params a n d rdiv of (P1, P2, P3, rd) \<Rightarrow>
      write_clk ch (clk_byte n c) (si5351_bulk_write (msreg_base ! ch # ms_bytes P1 P2 P3 rd) s))"
  using assms
  by (simp add: si5351_setupMultisynth_def ms_params_def write_clk_def clk_byte_def si5351_write_def Let_def bulk_write_regs
      or.assoc split: if_split)

text \<open>The divider codes in use: 1, 16 and 128.\<close>

definition rdiv_used :: "u32 \<Rightarrow> bool" where
  "rdiv_used rdiv \<longleftrightarrow> rdiv = 0 \<or> rdiv = 0x40 \<or> rdiv = 0x70"

lemma rdiv_used_fields:
  assumes "rdiv_used rdiv"
  shows "rdiv AND 0xFFFFFF03 = 0" "unat rdiv div 4 mod 4 = 0" "unat rdiv div 16 mod 8 = unat rdiv div 16"
  using assms by (auto simp: rdiv_used_def)

lemma ms_params_value:
  assumes "4 \<le> unat a" "unat a \<le> 2050" "fraction_ok n d" "a = 4 \<longrightarrow> rdiv = 0"
    and "rdiv_used rdiv" and "ms_params a n d rdiv = (P1, P2, P3, rd)"
    and "holds_bytes r b (ms_bytes P1 P2 P3 rd)"
  shows "reg_ratio r b = (if a = 4 then 4 else real (unat a) + real (unat n) / real (unat d)) \<and>
    reg_rdiv r b = unat rdiv div 16"
proof (cases "a = 4")
  case True
  then have h: "holds_bytes r b (ms_bytes 0 0 1 0x0C)" using assms(4,6,7) by (simp add: ms_params_def)
  from ms_bytes_decode [OF h] True assms(4) show ?thesis by (simp add: reg_ratio_def)
next
  case False
  note rd = rdiv_used_fields [OF assms(5)]
  have e: "rd = rdiv" using False assms(6) by (auto simp: ms_params_def split: if_splits)
  have "reg_rdiv r b = unat rdiv div 16" using ms_bytes_decode [OF assms(7)] rd by (simp add: e)
  moreover have "reg_ratio r b = real (unat a) + real (unat n) / real (unat d)"
  proof (cases "n = 0")
    case True
    then have "holds_bytes r b (ms_bytes (push_bit 7 a - 512) 0 1 rdiv)"
      using False assms(6,7) by (auto simp: ms_params_def)
    then show ?thesis using integer_value [OF assms(1,2)] rd True by simp
  next
    case nz: False
    then have "holds_bytes r b (ms_bytes (push_bit 7 a - 512 + push_bit 7 n div d) (push_bit 7 n mod d) d rdiv)"
      using False assms(6,7) push7_zero [OF assms(3)] by (auto simp: ms_params_def)
    then show ?thesis using divider_value [OF assms(1,2) _ _ _ nz] rd nz assms(3) by (simp add: fraction_ok_def)
  qed
  ultimately show ?thesis using False by simp
qed

lemma write_clk_effect:
  assumes "ch < 3"
  shows "chip_step {16 + ch} s (write_clk ch c s)"
    and "cache_ok s \<Longrightarrow> c \<noteq> 0 \<Longrightarrow> cache_ok (write_clk ch c s) \<and> regs (write_clk ch c s) (16 + ch) = c"
proof -
  have u: "unat (16 + of_nat ch :: u8) = 16 + ch" using three_cases [OF assms] by auto
  show "chip_step {16 + ch} s (write_clk ch c s)"
    unfolding chip_step_def write_clk_def si5351_write_def si5351_bulk_write_def using u by (cases s) auto
  show "cache_ok s \<Longrightarrow> c \<noteq> 0 \<Longrightarrow> cache_ok (write_clk ch c s) \<and> regs (write_clk ch c s) (16 + ch) = c"
    using assms u by (auto simp: cache_ok_def write_clk_def si5351_write_def si5351_bulk_write_def)
qed

lemma clk_byte_nonzero: "clk_byte n c \<noteq> 0"
proof -
  have "bit (clk_byte n c) 2" by (auto simp: clk_byte_def bit_simps)
  then show ?thesis by auto
qed

lemma setupMultisynth_effect:
  fixes s :: si5351 and c :: u8
  assumes "ch < 3" and "4 \<le> unat a" "unat a \<le> 2050" "fraction_ok n d" "a = 4 \<longrightarrow> rdiv = 0" and "rdiv_used rdiv"
  defines "t \<equiv> si5351_setupMultisynth ch a n d rdiv c s"
  shows "chip_step (channel_regs ch) s t"
    and "reg_ratio (regs t) (42 + 8 * ch) = (if a = 4 then 4 else real (unat a) + real (unat n) / real (unat d))"
    and "reg_rdiv (regs t) (42 + 8 * ch) = unat rdiv div 16"
    and "cache_ok s \<Longrightarrow> cache_ok t \<and> regs t (16 + ch) = clk_byte n c"
proof -
  obtain P1 P2 P3 rd where p: "ms_params a n d rdiv = (P1, P2, P3, rd)" by (metis prod_cases4)
  define u where "u = si5351_bulk_write (msreg_base ! ch # ms_bytes P1 P2 P3 rd) s"
  have t: "t = write_clk ch (clk_byte n c) u"
    using p push7_zero [OF assms(4)] by (simp add: t_def u_def setupMultisynth_split)
  note b = msreg_base_nth [OF assms(1)]
  have su: "chip_step (block (42 + 8 * ch)) s u"
    unfolding u_def by (intro bulk_write_step) (simp add: b block_def length_ms_bytes)
  note w = write_clk_effect [OF assms(1), of u "clk_byte n c", folded t]
  show "chip_step (channel_regs ch) s t"
    by (rule chip_step_mono [OF chip_step_trans [OF su w(1)]]) (simp add: channel_regs_def)
  have "holds_bytes (regs u) (42 + 8 * ch) (ms_bytes P1 P2 P3 rd)"
    using bulk_write_block [of "msreg_base ! ch" P1 P2 P3 rd s] by (simp add: u_def b)
  note v = ms_params_value [OF assms(2-6) p this]
  have "{16 + ch} \<inter> block (42 + 8 * ch) = {}" using assms(1) by (auto simp: block_def)
  note k = chip_step_block [OF w(1) this]
  show "reg_ratio (regs t) (42 + 8 * ch) = (if a = 4 then 4 else real (unat a) + real (unat n) / real (unat d))"
    "reg_rdiv (regs t) (42 + 8 * ch) = unat rdiv div 16" using v k by simp_all
  assume "cache_ok s"
  moreover have "clk_cache u = clk_cache s" by (simp add: u_def bulk_write_regs)
  moreover have "regs u (16 + x) = regs s (16 + x)" if "x < 3" for x
    using chip_step_reg [OF su] that by (simp add: block_def)
  ultimately have "cache_ok u" by (simp add: cache_ok_def)
  then show "cache_ok t \<and> regs t (16 + ch) = clk_byte n c" using w(2) clk_byte_nonzero by blast
qed

section \<open>Fitting a divider\<close>

text \<open>
  The exact quotient \<open>F / f\<close> as a whole part and a fraction of 20 bits: what
  \<open>approximate_fraction\<close> leaves of it is at most \<open>1 / 2^20\<close>, and nothing when \<open>f\<close> fits.
\<close>

lemma fraction_difference:
  fixes n d p q K :: real
  assumes "0 < d" "1 \<le> q" "0 < K" "\<bar>n * q - d * p\<bar> * K \<le> d"
  shows "\<bar>n / d - p / q\<bar> \<le> 1 / K"
proof -
  have "n / d - p / q = (n * q - d * p) / (d * q)" using assms(1,2) by (simp add: field_simps)
  then have "\<bar>n / d - p / q\<bar> * K = \<bar>n * q - d * p\<bar> * K / (d * q)"
    using assms(1,2) by (simp add: abs_divide abs_mult)
  also have "\<dots> \<le> d / (d * q)" using assms by (intro divide_right_mono) simp_all
  also have "\<dots> \<le> 1" using assms(1,2) by (simp add: field_simps)
  finally show ?thesis using assms(3) by (simp add: field_simps)
qed

lemma shifted_difference: "a + b = x \<Longrightarrow> \<bar>b - c\<bar> \<le> e \<Longrightarrow> \<bar>x - (a + c)\<bar> \<le> e" for a b c x e :: real
  by auto

lemma fitted_fraction:
  fixes n d :: u32
  assumes "n < d" and "approximate_fraction n d = (p, q)"
  shows "fraction_ok p q" and "\<bar>real (unat n) / real (unat d) - real (unat p) / real (unat q)\<bar> \<le> 1 / 2 ^ 20"
    and "unat d < 2 ^ 20 \<Longrightarrow> p = n \<and> q = d"
proof -
  have c: "0 < q" "q \<le> MAX_DENOMINATOR" "p \<le> q"
    "\<bar>int (unat n) * int (unat q) - int (unat d) * int (unat p)\<bar> * 2 ^ 20 \<le> int (unat d)"
    using approximate_fraction_close [OF assms(1)] assms(2) by simp_all
  then have q: "0 < unat q" "unat q \<le> 1048575" "unat p \<le> unat q"
    by (simp_all add: word_le_nat_alt word_less_nat_alt unat_MAX_DENOMINATOR)
  have d: "0 < unat d" using assms(1) by (simp add: word_less_nat_alt)
  from q show "fraction_ok p q" by (simp add: fraction_ok_def)
  show "unat d < 2 ^ 20 \<Longrightarrow> p = n \<and> q = d"
    using assms(2) by (simp add: approximate_fraction_def word_less_nat_alt unat_MAX_DENOMINATOR split: if_splits)
  have "real_of_int (\<bar>int (unat n) * int (unat q) - int (unat d) * int (unat p)\<bar> * 2 ^ 20) \<le> real_of_int (int (unat d))"
    using c(4) by (simp only: of_int_le_iff)
  then have e: "\<bar>real (unat n) * real (unat q) - real (unat d) * real (unat p)\<bar> * 2 ^ 20 \<le> real (unat d)" by simp
  have "0 < real (unat d)" "1 \<le> real (unat q)" using d q(1) by linarith+
  from fraction_difference [OF this _ e]
  show "\<bar>real (unat n) / real (unat d) - real (unat p) / real (unat q)\<bar> \<le> 1 / 2 ^ 20" by simp
qed

lemma quotient_words:
  fixes F :: u64 and f :: u32
  assumes "0 < unat f" "unat F div unat f < 4294967296"
  shows "unat (ucast (F div ucast f) :: u32) = unat F div unat f" "unat (ucast (F mod ucast f) :: u32) = unat F mod unat f"
    "(ucast (F mod ucast f) :: u32) < f"
proof -
  have u: "unat (ucast f :: u64) = unat f" using u32_bound [of f] by (simp add: unsigned_ucast_eq take_bit_nat_eq_self)
  show "unat (ucast (F div ucast f) :: u32) = unat F div unat f"
    using assms(2) by (subst unsigned_ucast_eq) (simp only: unat_div u, simp add: take_bit_nat_eq_self)
  have "unat F mod unat f < 4294967296" using assms(1) u32_bound [of f] by (meson less_trans mod_less_divisor)
  then show m: "unat (ucast (F mod ucast f) :: u32) = unat F mod unat f"
    by (subst unsigned_ucast_eq) (simp only: unat_mod u, simp add: take_bit_nat_eq_self)
  show "(ucast (F mod ucast f) :: u32) < f" using m assms(1) by (simp add: word_less_nat_alt)
qed

lemma fitted_quotient:
  fixes F :: u64 and f :: u32
  assumes "0 < unat f" "unat F div unat f < 4294967296"
    and "approximate_fraction (ucast (F mod ucast f)) f = (p, q)"
  shows "fraction_ok p q"
    "\<bar>real (unat F) / real (unat f) - (real (unat (ucast (F div ucast f) :: u32)) + real (unat p) / real (unat q))\<bar> \<le> 1 / 2 ^ 20"
proof -
  note w = quotient_words [OF assms(1,2)] and c = fitted_fraction [OF quotient_words(3) [OF assms(1,2)] assms(3)]
  from c(1) show "fraction_ok p q" .
  show "\<bar>real (unat F) / real (unat f) - (real (unat (ucast (F div ucast f) :: u32)) + real (unat p) / real (unat q))\<bar> \<le> 1 / 2 ^ 20"
    using c(2) unfolding w(1,2) by (rule shifted_difference [OF div_mod_real [OF assms(1)]])
qed

lemma fixedpll_effect:
  fixes s :: si5351 and c :: u8
  assumes "ch < 3" "0 < unat f" "5 \<le> unat F div unat f" "unat F div unat f \<le> 2050" "rdiv_used rdiv"
  defines "t \<equiv> si5351_set_frequency_fixedpll ch F f rdiv c s"
  shows "chip_step (channel_regs ch) s t"
    and "\<bar>real (unat F) / real (unat f) - reg_ratio (regs t) (42 + 8 * ch)\<bar> \<le> 1 / 2 ^ 20"
    and "5 \<le> reg_ratio (regs t) (42 + 8 * ch)"
    and "reg_rdiv (regs t) (42 + 8 * ch) = unat rdiv div 16"
    and "cache_ok s \<Longrightarrow> cache_ok t \<and> (\<exists>n. regs t (16 + ch) = clk_byte n c)"
proof -
  obtain p q where pq: "approximate_fraction (ucast (F mod ucast f)) f = (p, q)" by fastforce
  have F: "unat F div unat f < 4294967296" using assms(4) by simp
  note w = quotient_words [OF assms(2) F] and fq = fitted_quotient [OF assms(2) F pq]
  let ?a = "ucast (F div ucast f) :: u32"
  have a: "4 \<le> unat ?a" "unat ?a \<le> 2050" "?a \<noteq> 4" using w(1) assms(3,4) by auto
  have t: "t = si5351_setupMultisynth ch ?a p q rdiv c s"
    by (simp add: t_def si5351_set_frequency_fixedpll_def Let_def pq)
  note e = setupMultisynth_effect [OF assms(1) a(1,2) fq(1) _ assms(5), where c = c and s = s, folded t]
  show "chip_step (channel_regs ch) s t" "reg_rdiv (regs t) (42 + 8 * ch) = unat rdiv div 16" using e(1,3) a(3) by auto
  show "cache_ok s \<Longrightarrow> cache_ok t \<and> (\<exists>n. regs t (16 + ch) = clk_byte n c)" using e(4) a(3) by auto
  show "\<bar>real (unat F) / real (unat f) - reg_ratio (regs t) (42 + 8 * ch)\<bar> \<le> 1 / 2 ^ 20" using e(2) a(3) fq(2) by simp
  have "5 \<le> real (unat ?a)" using w(1) assms(3) by linarith
  moreover have "0 \<le> real (unat p) / real (unat q)" by (intro divide_nonneg_nonneg of_nat_0_le_iff)
  moreover have "reg_ratio (regs t) (42 + 8 * ch) = real (unat ?a) + real (unat p) / real (unat q)" using e(2) a(3) by simp
  ultimately show "5 \<le> reg_ratio (regs t) (42 + 8 * ch)" by linarith
qed

lemma pll_freq_effect:
  fixes s :: si5351 and src :: u8
  assumes "unat (xtal_freq s) * unat m < 4294967296" "0 < unat (xtal_freq s) * unat m"
    and "4 \<le> unat F div (unat (xtal_freq s) * unat m)" "unat F div (unat (xtal_freq s) * unat m) \<le> 2050"
  defines "t \<equiv> si5351_setup_pll_freq src F m s"
  shows "chip_step (block (unat src)) s t"
    and "\<bar>real (unat F) / (real (unat (xtal_freq s)) * real (unat m)) - reg_ratio (regs t) (unat src)\<bar> \<le> 1 / 2 ^ 20"
proof -
  let ?f = "xtal_freq s * m"
  have f: "unat ?f = unat (xtal_freq s) * unat m" using assms(1) by (simp add: unat_word_ariths)
  obtain p q where pq: "approximate_fraction (ucast (F mod ucast ?f)) ?f = (p, q)" by fastforce
  have pos: "0 < unat ?f" and F: "unat F div unat ?f < 4294967296" using assms(2,4) f by simp_all
  note w = quotient_words [OF pos F] and fq = fitted_quotient [OF pos F pq]
  let ?a = "ucast (F div ucast ?f) :: u32"
  have t: "t = si5351_setup_pll src ?a p q s" by (simp add: t_def si5351_setup_pll_freq_def Let_def pq)
  have a: "4 \<le> unat ?a" "unat ?a \<le> 2050" using w(1) f assms(3,4) by simp_all
  note e = setup_pll_effect [OF a fq(1), of src s, folded t]
  from e(1) show "chip_step (block (unat src)) s t" .
  show "\<bar>real (unat F) / (real (unat (xtal_freq s)) * real (unat m)) - reg_ratio (regs t) (unat src)\<bar> \<le> 1 / 2 ^ 20"
    using fq(2) e(2) f by simp
qed
end
