(* ===== verification/Sweep_Engine.thy ===== *)
theory Sweep_Engine
  imports Sweep_Service Calibration Si5351
begin

text \<open>
  One sweep: the state machine \<open>app_measurement_sweep\<close> of \<open>src/src/rf/sweep.c\<close>, which takes a
  point from frequency setup over captures on both channels to the corrected result, and the
  nested loops it stands for. The hardware is a record of functions: the clock readings, the receive
  interrupts of each capture, the generator and the codec, whose state is \<open>'r\<close>. \<open>float\<close> is
  modelled as real. The wait for a snapshot to be released is a step of \<open>Sweep_Lock\<close>; here no
  snapshot is held.
\<close>

section \<open>State\<close>

definition SWEEP_CH0_MEASURE :: u16 where "SWEEP_CH0_MEASURE = 1"
definition SWEEP_CH1_MEASURE :: u16 where "SWEEP_CH1_MEASURE = 2"
definition SWEEP_APPLY_EDELAY_S11 :: u16 where "SWEEP_APPLY_EDELAY_S11 = 4"
definition SWEEP_APPLY_EDELAY_S21 :: u16 where "SWEEP_APPLY_EDELAY_S21 = 8"
definition SWEEP_APPLY_S21_OFFSET :: u16 where "SWEEP_APPLY_S21_OFFSET = 16"
definition SWEEP_APPLY_CALIBRATION :: u16 where "SWEEP_APPLY_CALIBRATION = 32"
definition SWEEP_USE_INTERPOLATION :: u16 where "SWEEP_USE_INTERPOLATION = 64"
definition SWEEP_USE_RENORMALIZATION :: u16 where "SWEEP_USE_RENORMALIZATION = 128"
definition DELAY_SWEEP_START :: int where "DELAY_SWEEP_START = 10"
definition BANDWIDTH_100 :: u16 where "BANDWIDTH_100 = 39"

record 'r rf =
  rf_svc :: sweep_service
  rf_plan :: frequency_plan
  rf_points :: u16
  rf_cal :: calibration
  rf_edelay_s11 :: real
  rf_edelay_s21 :: real
  rf_s21_offset :: real
  rf_portz :: real
  rf_cal_load_r :: real
  rf_bandwidth :: u16
  rf_measured :: cal_table
  rf_cal_data :: "nat \<Rightarrow> cpair"
  rf_radio :: 'r
  rf_reads :: nat

record 'r rf_env =
  env_clock :: "nat \<Rightarrow> u32"
  env_irqs :: "nat \<Rightarrow> 'r \<Rightarrow> rx_irq list"
  env_cancel :: "nat \<Rightarrow> bool"
  env_set_frequency :: "u32 \<Rightarrow> 'r \<Rightarrow> int \<times> 'r"
  env_settling :: "'r \<Rightarrow> u8 \<times> 'r"
  env_select :: "nat \<Rightarrow> 'r \<Rightarrow> 'r"
  env_harmonic :: "u32 \<Rightarrow> u32"
  env_sincos :: "real \<Rightarrow> real \<times> real"
  env_exp :: "real \<Rightarrow> real"
  env_log10 :: real
  env_table :: "(int \<times> int) list"
  env_width :: u16
  env_points_max :: u16

datatype rf_state =
    RF_STATE_IDLE | RF_STATE_SETUP_FREQ | RF_STATE_SETUP_MEASURE | RF_STATE_WAIT_CAPTURE
  | RF_STATE_PROCESS | RF_STATE_NEXT_STEP | RF_STATE_FAULT

text \<open>The context; \<open>sweep_data\<close> holds S11 and S21 of the point.\<close>

record rf_fsm_context =
  state :: rf_state
  break_on_operation :: bool
  mask :: u16
  batch_budget :: u16
  processed :: u16
  slice_start :: u32
  frequency :: u32
  delay :: int
  st_delay :: int
  interpolation_idx :: int
  total_cycles :: u8
  current_cycle :: u8
  channel_index :: nat
  offset_factor :: real
  sweep_s11 :: cpair
  sweep_s21 :: cpair

definition rf_do :: "(sweep_service \<Rightarrow> sweep_service) \<Rightarrow> 'r rf \<Rightarrow> 'r rf" where
  "rf_do f w = w\<lparr>rf_svc := f (rf_svc w)\<rparr>"

text \<open>One reading of the clock.\<close>

definition rf_now :: "'r rf_env \<Rightarrow> 'r rf \<Rightarrow> u32 \<times> 'r rf" where
  "rf_now env w = (env_clock env (rf_reads w), w\<lparr>rf_reads := rf_reads w + 1\<rparr>)"

definition app_measurement_get_sweep_mask :: "u16 \<Rightarrow> 'r rf \<Rightarrow> u16" where
  "app_measurement_get_sweep_mask measure_channels w =
     (SWEEP_CH0_MEASURE OR SWEEP_CH1_MEASURE OR measure_channels) OR
     (if rf_portz w \<noteq> rf_cal_load_r w then SWEEP_USE_RENORMALIZATION else 0) OR
     (if cal_status (rf_cal w) AND CALSTAT_APPLY \<noteq> 0 then SWEEP_APPLY_CALIBRATION else 0) OR
     (if cal_status (rf_cal w) AND CALSTAT_INTERPOLATED \<noteq> 0 then SWEEP_USE_INTERPOLATION else 0) OR
     (if rf_edelay_s11 w \<noteq> 0 then SWEEP_APPLY_EDELAY_S11 else 0) OR
     (if rf_edelay_s21 w \<noteq> 0 then SWEEP_APPLY_EDELAY_S21 else 0) OR
     (if rf_s21_offset w \<noteq> 0 then SWEEP_APPLY_S21_OFFSET else 0)"

definition apply_edelay :: "(real \<Rightarrow> real \<times> real) \<Rightarrow> real \<Rightarrow> cpair \<Rightarrow> cpair" where
  "apply_edelay sc w data =
     (case sc w of (s, c) \<Rightarrow> (fst data * c - snd data * s, snd data * c + fst data * s))"

definition apply_offset :: "real \<Rightarrow> cpair \<Rightarrow> cpair" where
  "apply_offset k data = (fst data * k, snd data * k)"

definition app_measurement_set_frequency :: "'r rf_env \<Rightarrow> u32 \<Rightarrow> 'r rf \<Rightarrow> int \<times> 'r rf" where
  "app_measurement_set_frequency env freq w =
     (case env_set_frequency env freq (rf_radio w) of (d, r) \<Rightarrow>
        (if d = 0 then DELAY_CHANNEL_CHANGE else d, w\<lparr>rf_radio := r\<rparr>))"

section \<open>The state machine\<close>

definition fsm_setup_freq :: "'r rf_env \<Rightarrow> rf_fsm_context \<Rightarrow> 'r rf \<Rightarrow> rf_fsm_context \<times> 'r rf" where
  "fsm_setup_freq env c w =
     (let c = c\<lparr>frequency := get_frequency (rf_plan w) (p_sweep (rf_svc w))\<rparr>;
          (extra, c, w) =
            (if mask c AND (SWEEP_CH0_MEASURE OR SWEEP_CH1_MEASURE) \<noteq> 0
             then case app_measurement_set_frequency env (frequency c) w of (d, w) \<Rightarrow>
                  let c = c\<lparr>delay := d, interpolation_idx :=
                            (if mask c AND SWEEP_USE_INTERPOLATION \<noteq> 0 then -1 else int (unat (p_sweep (rf_svc w))))\<rparr>
                  in case env_settling env (rf_radio w) of (n, r) \<Rightarrow> (n, c, w\<lparr>rf_radio := r\<rparr>)
             else (0, c, w))
      in (c\<lparr>total_cycles := extra + 1, current_cycle := 0, st_delay := DELAY_SWEEP_START, state := RF_STATE_SETUP_MEASURE\<rparr>, w))"

definition final_cycle :: "rf_fsm_context \<Rightarrow> bool" where
  "final_cycle c \<longleftrightarrow> int (unat (current_cycle c)) = int (unat (total_cycles c)) - 1"

definition fsm_select :: "rf_fsm_context \<Rightarrow> nat option" where
  "fsm_select c =
     (if mask c AND SWEEP_CH0_MEASURE \<noteq> 0 \<and> channel_index c = 0 then Some 0
      else if mask c AND SWEEP_CH1_MEASURE \<noteq> 0 \<and> channel_index c \<le> 1 then Some 1 else None)"

definition load_error_terms :: "(u32 \<Rightarrow> u32) \<Rightarrow> rf_fsm_context \<Rightarrow> calibration \<Rightarrow> (nat \<Rightarrow> cpair) \<Rightarrow> nat \<Rightarrow> cpair" where
  "load_error_terms lvl c cal buffer =
     (if final_cycle c \<and> mask c AND SWEEP_APPLY_CALIBRATION \<noteq> 0
      then \<lambda>eterm. if eterm < 5 then cal_interpolate lvl (interpolation_idx c) (frequency c) cal eterm else buffer eterm
      else buffer)"

definition fsm_start_channel :: "'r rf_env \<Rightarrow> nat \<Rightarrow> rf_fsm_context \<Rightarrow> 'r rf \<Rightarrow> rf_fsm_context \<times> 'r rf" where
  "fsm_start_channel env ch c w =
     (let c = c\<lparr>channel_index := ch\<rparr>;
          w = w\<lparr>rf_radio := env_select env ch (rf_radio w)\<rparr>;
          cycle_delay = (if ch = 1 \<and> mask c AND SWEEP_CH0_MEASURE \<noteq> 0 then DELAY_CHANNEL_CHANGE else delay c);
          cycle_st_delay = (if current_cycle c = 0 then st_delay c else 0);
          (now, w) = rf_now env w;
          w = rf_do (sweep_service_start_capture (rf_bandwidth w) now (word_of_int (cycle_delay + cycle_st_delay))) w;
          w = w\<lparr>rf_cal_data := load_error_terms (env_harmonic env) c (rf_cal w) (rf_cal_data w)\<rparr>
      in (c\<lparr>state := RF_STATE_WAIT_CAPTURE\<rparr>, w))"

definition fsm_setup_measure :: "'r rf_env \<Rightarrow> rf_fsm_context \<Rightarrow> 'r rf \<Rightarrow> rf_fsm_context \<times> 'r rf" where
  "fsm_setup_measure env c w =
     (if current_cycle c \<ge> total_cycles c then (c\<lparr>state := RF_STATE_NEXT_STEP\<rparr>, w)
      else case fsm_select c of
             None \<Rightarrow> (c\<lparr>current_cycle := current_cycle c + 1, channel_index := 0\<rparr>, w)
           | Some ch \<Rightarrow> fsm_start_channel env ch c w)"

definition fsm_wait_capture :: "'r rf_env \<Rightarrow> rf_fsm_context \<Rightarrow> 'r rf \<Rightarrow> rf_fsm_context \<times> 'r rf" where
  "fsm_wait_capture env c w =
     (let (start, w) = rf_now env w
      in case sweep_service_wait_for_capture (env_table env) (rf_bandwidth w) start (env_irqs env (rf_reads w) (rf_radio w)) (rf_svc w) of
           (ok, svc) \<Rightarrow> (c\<lparr>state := (if ok then RF_STATE_PROCESS else RF_STATE_FAULT)\<rparr>, w\<lparr>rf_svc := svc\<rparr>))"

definition correct_s11 :: "'r rf_env \<Rightarrow> rf_fsm_context \<Rightarrow> 'r rf \<Rightarrow> cpair \<Rightarrow> cpair" where
  "correct_s11 env c w d =
     (let d = (if mask c AND SWEEP_APPLY_CALIBRATION \<noteq> 0 then apply_ch0_error_term d (rf_cal_data w) else d)
      in if mask c AND SWEEP_APPLY_EDELAY_S11 \<noteq> 0
         then apply_edelay (env_sincos env) (rf_edelay_s11 w * real (unat (frequency c))) d else d)"

definition correct_s21 :: "'r rf_env \<Rightarrow> rf_fsm_context \<Rightarrow> 'r rf \<Rightarrow> cpair \<Rightarrow> cpair \<Rightarrow> cpair" where
  "correct_s21 env c w s11 d =
     (let d = (if mask c AND SWEEP_APPLY_CALIBRATION \<noteq> 0
               then apply_ch1_error_term (cal_status (rf_cal w) AND CALSTAT_ENHANCED_RESPONSE \<noteq> 0) s11 d (rf_cal_data w) else d);
          d = (if mask c AND SWEEP_APPLY_EDELAY_S21 \<noteq> 0
               then apply_edelay (env_sincos env) (rf_edelay_s21 w * real (unat (frequency c))) d else d)
      in if mask c AND SWEEP_APPLY_S21_OFFSET \<noteq> 0 then apply_offset (offset_factor c) d else d)"

definition fsm_process :: "'r rf_env \<Rightarrow> rf_fsm_context \<Rightarrow> 'r rf \<Rightarrow> rf_fsm_context \<times> 'r rf" where
  "fsm_process env c w =
     (let d = sample_func (rf_svc w) (sweep_dsp (rf_svc w));
          c = (if channel_index c = 0 then c\<lparr>sweep_s11 := d\<rparr> else c\<lparr>sweep_s21 := d\<rparr>);
          (c, w) =
            (if final_cycle c then
               let c = (if channel_index c = 0 then c\<lparr>sweep_s11 := correct_s11 env c w (sweep_s11 c)\<rparr>
                        else c\<lparr>sweep_s21 := correct_s21 env c w (sweep_s11 c) (sweep_s21 c)\<rparr>)
               in (c, w\<lparr>rf_measured := cal_put (channel_index c) (unat (p_sweep (rf_svc w)))
                          (if channel_index c = 0 then sweep_s11 c else sweep_s21 c) (rf_measured w)\<rparr>)
             else (c, w))
      in (c\<lparr>channel_index := channel_index c + 1, state := RF_STATE_SETUP_MEASURE\<rparr>, w))"

definition fsm_next_step :: "'r rf_env \<Rightarrow> rf_fsm_context \<Rightarrow> 'r rf \<Rightarrow> rf_fsm_context \<times> 'r rf" where
  "fsm_next_step env c w =
     (let svc = rf_svc w;
          svc = (if rf_bandwidth w \<ge> BANDWIDTH_100 \<and> rf_points w > 1
                 then sweep_progress_update (env_width env)
                        (ucast ((ucast (p_sweep svc) * ucast (env_width env)) div (ucast (rf_points w) - 1 :: u32))) svc
                 else svc)
      in (c\<lparr>processed := processed c + 1, state := RF_STATE_SETUP_FREQ\<rparr>,
          w\<lparr>rf_svc := svc\<lparr>p_sweep := p_sweep svc + 1\<rparr>\<rparr>))"

text \<open>The case \<open>RF_STATE_SETUP_FREQ\<close>: requests of other threads arrive, the clock is read if all earlier tests fail.\<close>

definition fsm_stop :: "'r rf_env \<Rightarrow> rf_fsm_context \<Rightarrow> 'r rf \<Rightarrow> bool \<times> 'r rf" where
  "fsm_stop env c w =
     (let w = (if env_cancel env (rf_reads w) then rf_do sweep_service_cancel_scan w else w)
      in if processed c \<ge> batch_budget c \<or> break_on_operation c \<and> sweep_ui_input_pending (rf_svc w) then (True, w)
         else case (if slice_start c = 0 then (0, w) else rf_now env w) of (now, w) \<Rightarrow>
           (sweep_timeslice_expired now (slice_start c) \<or> p_sweep (rf_svc w) \<ge> rf_points w, w))"

fun fsm_step :: "'r rf_env \<Rightarrow> rf_fsm_context \<times> 'r rf \<Rightarrow> rf_fsm_context \<times> 'r rf" where
  "fsm_step env (c, w) =
     (case state c of
        RF_STATE_SETUP_FREQ \<Rightarrow>
          (case fsm_stop env c w of (stop, w) \<Rightarrow>
             if stop then (c\<lparr>state := RF_STATE_IDLE\<rparr>, w) else fsm_setup_freq env c w)
      | RF_STATE_SETUP_MEASURE \<Rightarrow> fsm_setup_measure env c w
      | RF_STATE_WAIT_CAPTURE \<Rightarrow> fsm_wait_capture env c w
      | RF_STATE_PROCESS \<Rightarrow> fsm_process env c w
      | RF_STATE_NEXT_STEP \<Rightarrow> fsm_next_step env c w
      | _ \<Rightarrow> (c, w))"

declare fsm_step.simps [simp del]

fun fsm_running :: "rf_fsm_context \<times> 'r rf \<Rightarrow> bool" where
  "fsm_running (c, w) \<longleftrightarrow> state c \<noteq> RF_STATE_IDLE \<and> state c \<noteq> RF_STATE_FAULT"

definition fsm_loop :: "'r rf_env \<Rightarrow> rf_fsm_context \<times> 'r rf \<Rightarrow> (rf_fsm_context \<times> 'r rf) option" where
  "fsm_loop env s = while_option fsm_running (fsm_step env) s"

text \<open>The context a sweep starts with; \<open>junk\<close> is the uninitialised rest of it.\<close>

definition fsm_init :: "'r rf_env \<Rightarrow> bool \<Rightarrow> u16 \<Rightarrow> rf_fsm_context \<Rightarrow> 'r rf \<Rightarrow> rf_fsm_context \<times> 'r rf" where
  "fsm_init env brk m junk w =
     (let budget = sweep_points_budget (env_points_max env) brk (rf_svc w);
          (start, w) = (if brk then rf_now env w else (0, w))
      in (junk\<lparr>state := RF_STATE_SETUP_FREQ, break_on_operation := brk, mask := m, batch_budget := budget, processed := 0,
              slice_start := start,
              offset_factor := (if m AND SWEEP_APPLY_S21_OFFSET \<noteq> 0 then env_exp env (rf_s21_offset w * (env_log10 env / 20)) else 1),
              channel_index := 0\<rparr>, w))"

definition sweep_finish :: "'r rf_env \<Rightarrow> 'r rf \<Rightarrow> 'r rf" where
  "sweep_finish env w = rf_do sweep_led_end (rf_do (sweep_progress_end (env_width env)) w)"

definition sweep_failure :: "'r rf_env \<Rightarrow> 'r rf \<Rightarrow> bool \<times> 'r rf" where
  "sweep_failure env w =
     (False, rf_do (sweep_in_progress_update (\<lambda>_. False)) (sweep_finish env (rf_do sweep_reset_progress w)))"

definition sweep_leave :: "'r rf_env \<Rightarrow> rf_fsm_context \<times> 'r rf \<Rightarrow> bool \<times> 'r rf" where
  "sweep_leave env s =
     (case s of (c, w) \<Rightarrow>
        if state c = RF_STATE_FAULT then sweep_failure env w
        else let completed = (p_sweep (rf_svc w) \<ge> rf_points w);
                 w = (if completed then sweep_finish env w else w)
             in (completed, rf_do (sweep_in_progress_update (\<lambda>_. False)) w))"

definition sweep_enter :: "'r rf_env \<Rightarrow> bool \<Rightarrow> 'r rf \<Rightarrow> 'r rf" where
  "sweep_enter env brk w =
     (let w = rf_do (sweep_in_progress_update (\<lambda>_. True)) w
      in if p_sweep (rf_svc w) \<ge> rf_points w \<or> \<not> brk then sweep_finish env (rf_do sweep_reset_progress w) else w)"

definition app_measurement_sweep :: "'r rf_env \<Rightarrow> rf_fsm_context \<Rightarrow> bool \<Rightarrow> u16 \<Rightarrow> 'r rf \<Rightarrow> (bool \<times> 'r rf) option" where
  "app_measurement_sweep env junk brk m w =
     (case fsm_init env brk m junk w of (c, w) \<Rightarrow>
        let w = sweep_enter env brk w
        in if brk \<and> m = 0 then Some (sweep_failure env w)
           else let w = (if p_sweep (rf_svc w) = 0
                         then rf_do (sweep_prepare_led_and_progress (rf_bandwidth w \<ge> BANDWIDTH_100)) w else w)
                in map_option (sweep_leave env) (fsm_loop env (c, w)))"

section \<open>The nested loops\<close>

text \<open>
  The same sweep as nested loops: channels within cycles within points. A failed capture
  leaves all loops.
\<close>

definition mask_channels :: "u16 \<Rightarrow> nat list" where
  "mask_channels m = (if m AND SWEEP_CH0_MEASURE \<noteq> 0 then [0] else []) @ (if m AND SWEEP_CH1_MEASURE \<noteq> 0 then [1] else [])"

fun loop_channels :: "'r rf_env \<Rightarrow> nat list \<Rightarrow> rf_fsm_context \<times> 'r rf \<Rightarrow> bool \<times> rf_fsm_context \<times> 'r rf" where
  "loop_channels env [] s = (True, s)"
| "loop_channels env (ch # chs) (c, w) =
     (case fsm_start_channel env ch c w of (c, w) \<Rightarrow>
      case fsm_wait_capture env c w of (c, w) \<Rightarrow>
        if state c = RF_STATE_FAULT then (False, c, w) else loop_channels env chs (fsm_process env c w))"

fun loop_cycles :: "'r rf_env \<Rightarrow> nat \<Rightarrow> rf_fsm_context \<times> 'r rf \<Rightarrow> bool \<times> rf_fsm_context \<times> 'r rf" where
  "loop_cycles env 0 s = (True, s)"
| "loop_cycles env (Suc n) s =
     (case loop_channels env (mask_channels (mask (fst s))) s of
        (False, s) \<Rightarrow> (False, s)
      | (True, c, w) \<Rightarrow> loop_cycles env n (c\<lparr>current_cycle := current_cycle c + 1, channel_index := 0\<rparr>, w))"

definition loop_point :: "'r rf_env \<Rightarrow> rf_fsm_context \<times> 'r rf \<Rightarrow> bool \<times> rf_fsm_context \<times> 'r rf" where
  "loop_point env s =
     (case fsm_setup_freq env (fst s) (snd s) of (c, w) \<Rightarrow>
      case loop_cycles env (unat (total_cycles c)) (c, w) of
        (False, s) \<Rightarrow> (False, s)
      | (True, c, w) \<Rightarrow> (True, fsm_next_step env c w))"

text \<open>\<open>n\<close> bounds the points left; the test of \<open>fsm_stop\<close> ends the loop earlier or there.\<close>

fun loop_points :: "'r rf_env \<Rightarrow> nat \<Rightarrow> rf_fsm_context \<times> 'r rf \<Rightarrow> rf_fsm_context \<times> 'r rf" where
  "loop_points env n (c, w) =
     (case fsm_stop env c w of (stop, w) \<Rightarrow>
        if stop then (c\<lparr>state := RF_STATE_IDLE\<rparr>, w)
        else case n of
               0 \<Rightarrow> (c, w)
             | Suc n \<Rightarrow> (case loop_point env (c, w) of (ok, s) \<Rightarrow> if ok then loop_points env n s else s))"

declare loop_points.simps [simp del]

definition sweep_loops :: "'r rf_env \<Rightarrow> rf_fsm_context \<times> 'r rf \<Rightarrow> rf_fsm_context \<times> 'r rf" where
  "sweep_loops env s = loop_points env (unat (rf_points (snd s)) - unat (p_sweep (rf_svc (snd s)))) s"

section \<open>The machine runs the loops\<close>

lemma fsm_loop_run: "fsm_running s \<Longrightarrow> fsm_loop env s = fsm_loop env (fsm_step env s)"
  unfolding fsm_loop_def by (subst while_option_unfold) simp

lemma fsm_loop_stop: "\<not> fsm_running s \<Longrightarrow> fsm_loop env s = Some s"
  unfolding fsm_loop_def by (subst while_option_unfold) simp

lemma fsm_loop_state:
  "state c = RF_STATE_SETUP_MEASURE \<Longrightarrow> fsm_loop env (c, w) = fsm_loop env (fsm_setup_measure env c w)"
  "state c = RF_STATE_WAIT_CAPTURE \<Longrightarrow> fsm_loop env (c, w) = fsm_loop env (fsm_wait_capture env c w)"
  "state c = RF_STATE_PROCESS \<Longrightarrow> fsm_loop env (c, w) = fsm_loop env (fsm_process env c w)"
  "state c = RF_STATE_NEXT_STEP \<Longrightarrow> fsm_loop env (c, w) = fsm_loop env (fsm_next_step env c w)"
  by (subst fsm_loop_run; simp add: fsm_step.simps)+

text \<open>What each handler leaves of the context.\<close>

definition point_frame :: "rf_fsm_context \<times> 'r rf \<Rightarrow> rf_fsm_context \<times> 'r rf \<Rightarrow> bool" where
  "point_frame s t \<longleftrightarrow>
     mask (fst t) = mask (fst s) \<and> break_on_operation (fst t) = break_on_operation (fst s) \<and>
     batch_budget (fst t) = batch_budget (fst s) \<and> processed (fst t) = processed (fst s) \<and> slice_start (fst t) = slice_start (fst s) \<and>
     rf_points (snd t) = rf_points (snd s) \<and> p_sweep (rf_svc (snd t)) = p_sweep (rf_svc (snd s))"

definition cycle_frame :: "rf_fsm_context \<times> 'r rf \<Rightarrow> rf_fsm_context \<times> 'r rf \<Rightarrow> bool" where
  "cycle_frame s t \<longleftrightarrow> point_frame s t \<and> total_cycles (fst t) = total_cycles (fst s) \<and> current_cycle (fst t) = current_cycle (fst s)"

lemma point_frame_refl [simp]: "point_frame s s" and cycle_frame_refl [simp]: "cycle_frame s s"
  by (simp_all add: point_frame_def cycle_frame_def)

lemma point_frame_trans: "point_frame s t \<Longrightarrow> point_frame t u \<Longrightarrow> point_frame s u"
  by (simp add: point_frame_def)

lemma cycle_frame_trans: "cycle_frame s t \<Longrightarrow> cycle_frame t u \<Longrightarrow> cycle_frame s u"
  using point_frame_trans [of s t u] by (simp add: cycle_frame_def)

lemma isr_p_sweep: "p_sweep (i2s_lld_serve_rx_interrupt tbl bw t tcif buf s) = p_sweep s"
  by (simp add: i2s_lld_serve_rx_interrupt_def Let_def)

lemma capture_p_sweep: "p_sweep (snd (capture_loop tbl bw start now irqs s)) = p_sweep s"
proof (induction irqs arbitrary: now s)
  case (Cons irq irqs)
  then show ?case by (cases irq) (subst capture_loop.simps, simp add: isr_p_sweep)
qed (subst capture_loop.simps, simp)

lemma start_channel_frame:
  "cycle_frame (c, w) (fsm_start_channel env ch c w)" "state (fst (fsm_start_channel env ch c w)) = RF_STATE_WAIT_CAPTURE"
  "channel_index (fst (fsm_start_channel env ch c w)) = ch"
  by (simp_all add: fsm_start_channel_def cycle_frame_def point_frame_def Let_def rf_now_def rf_do_def sweep_service_start_capture_def)

lemma wait_capture_frame:
  "cycle_frame (c, w) (fsm_wait_capture env c w)" "state (fst (fsm_wait_capture env c w)) \<in> {RF_STATE_PROCESS, RF_STATE_FAULT}"
  "channel_index (fst (fsm_wait_capture env c w)) = channel_index c"
  using capture_p_sweep [of "env_table env" "rf_bandwidth w"]
  by (auto simp: fsm_wait_capture_def cycle_frame_def point_frame_def Let_def rf_now_def sweep_service_wait_for_capture_def
      split: prod.splits) (metis snd_conv)

lemma process_frame:
  "cycle_frame (c, w) (fsm_process env c w)" "state (fst (fsm_process env c w)) = RF_STATE_SETUP_MEASURE"
  "channel_index (fst (fsm_process env c w)) = channel_index c + 1"
  by (simp_all add: fsm_process_def cycle_frame_def point_frame_def Let_def)

definition pending_channels :: "u16 \<Rightarrow> nat \<Rightarrow> nat list" where
  "pending_channels m k = (if m AND SWEEP_CH0_MEASURE \<noteq> 0 \<and> k = 0 then [0] else []) @ (if m AND SWEEP_CH1_MEASURE \<noteq> 0 \<and> k \<le> 1 then [1] else [])"

lemma pending_start: "pending_channels m 0 = mask_channels m"
  by (simp add: pending_channels_def mask_channels_def)

lemma select_pending:
  "fsm_select c = None \<Longrightarrow> pending_channels (mask c) (channel_index c) = []"
  "fsm_select c = Some ch \<Longrightarrow> pending_channels (mask c) (channel_index c) = ch # pending_channels (mask c) (ch + 1) \<and> channel_index c \<le> ch \<and> ch \<le> 1"
  by (auto simp: fsm_select_def pending_channels_def split: if_splits)

lemma loop_channels_frame:
  "loop_channels env chs s = (ok, t) \<Longrightarrow> state (fst s) = RF_STATE_SETUP_MEASURE \<Longrightarrow>
    cycle_frame s t \<and> state (fst t) = (if ok then RF_STATE_SETUP_MEASURE else RF_STATE_FAULT)"
proof (induction env chs s rule: loop_channels.induct)
  case (1 env s)
  then show ?case by simp
next
  case (2 env ch chs c w)
  obtain c1 w1 where 1: "fsm_start_channel env ch c w = (c1, w1)" by fastforce
  obtain c2 w2 where 2: "fsm_wait_capture env c1 w1 = (c2, w2)" by fastforce
  have f: "cycle_frame (c, w) (c1, w1)" "cycle_frame (c1, w1) (c2, w2)"
    using start_channel_frame(1) [of c w env ch] wait_capture_frame(1) [of c1 w1 env] 1 2 by simp_all
  show ?case
  proof (cases "state c2 = RF_STATE_FAULT")
    case True
    then have t: "t = (c2, w2)" "\<not> ok" using "2.prems" 1 2 by auto
    then show ?thesis using f True by (auto intro: cycle_frame_trans)
  next
    case False
    have p: "cycle_frame (c2, w2) (fsm_process env c2 w2)" "state (fst (fsm_process env c2 w2)) = RF_STATE_SETUP_MEASURE" by (rule process_frame)+
    from "2.prems" have "loop_channels env chs (fsm_process env c2 w2) = (ok, t)" using False 1 2 by simp
    from "2.IH" [OF 1 [symmetric] 2 [symmetric] False this p(2)] show ?thesis using f p(1) by (blast intro: cycle_frame_trans)
  qed
qed

lemma fsm_loop_channels:
  assumes "state c = RF_STATE_SETUP_MEASURE" "current_cycle c < total_cycles c"
  shows "fsm_loop env (c, w) =
    (case loop_channels env (pending_channels (mask c) (channel_index c)) (c, w) of
       (False, t) \<Rightarrow> Some t
     | (True, c', w') \<Rightarrow> fsm_loop env (c'\<lparr>current_cycle := current_cycle c' + 1, channel_index := 0\<rparr>, w'))"
  using assms
proof (induction "2 - channel_index c" arbitrary: c w rule: less_induct)
  case less
  have step: "fsm_loop env (c, w) = fsm_loop env (fsm_setup_measure env c w)" by (rule fsm_loop_state(1)) (rule less.prems(1))
  show ?case
  proof (cases "fsm_select c")
    case None
    then have "fsm_setup_measure env c w = (c\<lparr>current_cycle := current_cycle c + 1, channel_index := 0\<rparr>, w)"
      using less.prems(2) by (simp add: fsm_setup_measure_def less_le_not_le)
    then show ?thesis unfolding step by (simp add: select_pending(1) [OF None])
  next
    case (Some ch)
    note pend = select_pending(2) [OF Some]
    obtain c1 w1 where 1: "fsm_start_channel env ch c w = (c1, w1)" by fastforce
    obtain c2 w2 where 2: "fsm_wait_capture env c1 w1 = (c2, w2)" by fastforce
    obtain c3 w3 where 3: "fsm_process env c2 w2 = (c3, w3)" by fastforce
    note f1 = start_channel_frame [where env = env and ch = ch and c = c and w = w, unfolded 1, simplified]
    note f2 = wait_capture_frame [where env = env and c = c1 and w = w1, unfolded 2, simplified]
    note f3 = process_frame [where env = env and c = c2 and w = w2, unfolded 3, simplified]
    have run1: "fsm_loop env (c, w) = fsm_loop env (c2, w2)"
      unfolding step using less.prems(2) Some 1 fsm_loop_state(2) [OF f1(2), of env w1, unfolded 2] by (simp add: fsm_setup_measure_def less_le_not_le)
    show ?thesis
    proof (cases "state c2 = RF_STATE_FAULT")
      case True
      then show ?thesis using run1 pend 1 2 by (simp add: fsm_loop_stop)
    next
      case False
      then have "state c2 = RF_STATE_PROCESS" using f2(2) by simp
      then have run2: "fsm_loop env (c, w) = fsm_loop env (c3, w3)" using run1 fsm_loop_state(3) [of c2 env w2, unfolded 3] by simp
      have fr: "cycle_frame (c, w) (c3, w3)" using f1(1) f2(1) f3(1) cycle_frame_trans by blast
      then have m: "mask c3 = mask c" "current_cycle c3 < total_cycles c3" "channel_index c3 = ch + 1"
        using less.prems(2) f1(3) f2(3) f3(3) by (simp_all add: cycle_frame_def point_frame_def)
      have "2 - channel_index c3 < 2 - channel_index c" using pend m(3) by arith
      from less.hyps [OF this f3(2) m(2)] show ?thesis unfolding run2 using pend 1 2 3 False m by simp
    qed
  qed
qed

lemma next_step_state: "fsm_next_step env (c\<lparr>state := x\<rparr>) w = fsm_next_step env c w"
  by (simp add: fsm_next_step_def Let_def)

lemma loop_cycles_frame:
  "loop_cycles env n s = (ok, t) \<Longrightarrow> state (fst s) = RF_STATE_SETUP_MEASURE \<Longrightarrow> channel_index (fst s) = 0 \<Longrightarrow>
    point_frame s t \<and> state (fst t) = (if ok then RF_STATE_SETUP_MEASURE else RF_STATE_FAULT) \<and> (ok \<longrightarrow> channel_index (fst t) = 0)"
proof (induction n arbitrary: s)
  case 0
  then show ?case by simp
next
  case (Suc n)
  obtain r c w where r: "loop_channels env (mask_channels (mask (fst s))) s = (r, c, w)" by (metis prod_cases3)
  note f = loop_channels_frame [OF r Suc.prems(2)]
  show ?case
  proof (cases r)
    case False
    then show ?thesis using Suc.prems(1) r f by (auto simp: cycle_frame_def)
  next
    case True
    let ?s = "(c\<lparr>current_cycle := current_cycle c + 1, channel_index := 0\<rparr>, w)"
    have "loop_cycles env n ?s = (ok, t)" using Suc.prems(1) r True by simp
    from Suc.IH [OF this] f True have "point_frame ?s t \<and> state (fst t) = (if ok then RF_STATE_SETUP_MEASURE else RF_STATE_FAULT) \<and>
        (ok \<longrightarrow> channel_index (fst t) = 0)" by simp
    moreover have "point_frame s ?s" using f by (simp add: cycle_frame_def point_frame_def)
    ultimately show ?thesis by (blast intro: point_frame_trans)
  qed
qed

lemma fsm_loop_cycles:
  assumes "state c = RF_STATE_SETUP_MEASURE" "channel_index c = 0" "unat (total_cycles c) - unat (current_cycle c) = n"
  shows "fsm_loop env (c, w) =
    (case loop_cycles env n (c, w) of
       (False, t) \<Rightarrow> Some t
     | (True, c', w') \<Rightarrow> fsm_loop env (fsm_next_step env c' w'))"
  using assms
proof (induction n arbitrary: c w)
  case 0
  then have "total_cycles c \<le> current_cycle c" by (simp add: word_le_nat_alt)
  then have "fsm_setup_measure env c w = (c\<lparr>state := RF_STATE_NEXT_STEP\<rparr>, w)" by (simp add: fsm_setup_measure_def)
  then have "fsm_loop env (c, w) = fsm_loop env (c\<lparr>state := RF_STATE_NEXT_STEP\<rparr>, w)" using fsm_loop_state(1) [OF 0(1)] by metis
  also have "\<dots> = fsm_loop env (fsm_next_step env c w)"
    using fsm_loop_state(4) [of "c\<lparr>state := RF_STATE_NEXT_STEP\<rparr>" env w] by (simp add: next_step_state)
  finally show ?case by simp
next
  case (Suc n)
  then have lt: "current_cycle c < total_cycles c" by (simp add: word_less_nat_alt)
  obtain r c1 w1 where r: "loop_channels env (mask_channels (mask c)) (c, w) = (r, c1, w1)" by (metis prod_cases3)
  note run = fsm_loop_channels [OF Suc.prems(1) lt, of env w, unfolded Suc.prems(2) pending_start r]
  note f = loop_channels_frame [OF r, simplified, OF Suc.prems(1)]
  show ?case
  proof (cases r)
    case False
    then show ?thesis using run r by simp
  next
    case True
    let ?c = "c1\<lparr>current_cycle := current_cycle c1 + 1, channel_index := 0\<rparr>"
    have cc: "current_cycle c1 = current_cycle c" "total_cycles c1 = total_cycles c" "state c1 = RF_STATE_SETUP_MEASURE"
      using f True by (simp_all add: cycle_frame_def)
    have "unat (current_cycle c + 1) = unat (current_cycle c) + 1"
      using lt u8_bound [of "total_cycles c"] by (simp add: unat_word_ariths(1) word_less_nat_alt)
    then have "unat (total_cycles ?c) - unat (current_cycle ?c) = n" using Suc.prems(3) cc by simp
    from Suc.IH [OF _ _ this, of w1] show ?thesis using run r True cc by simp
  qed
qed

lemma setup_freq_frame:
  "point_frame (c, w) (fsm_setup_freq env c w)" "state (fst (fsm_setup_freq env c w)) = RF_STATE_SETUP_MEASURE"
  "channel_index (fst (fsm_setup_freq env c w)) = channel_index c" "current_cycle (fst (fsm_setup_freq env c w)) = 0"
  by (auto simp: fsm_setup_freq_def point_frame_def Let_def app_measurement_set_frequency_def split: prod.splits)

lemma next_step_p_sweep: "p_sweep (rf_svc (snd (fsm_next_step env c w))) = p_sweep (rf_svc w) + 1"
  by (simp add: fsm_next_step_def Let_def sweep_progress_update_def sweep_publish_progress_def)

lemma next_step_frame:
  "state (fst (fsm_next_step env c w)) = RF_STATE_SETUP_FREQ" "channel_index (fst (fsm_next_step env c w)) = channel_index c"
  "rf_points (snd (fsm_next_step env c w)) = rf_points w" "mask (fst (fsm_next_step env c w)) = mask c"
  by (simp_all add: fsm_next_step_def Let_def)

lemma stop_frame:
  "fsm_stop env c w = (stop, w') \<Longrightarrow> p_sweep (rf_svc w') = p_sweep (rf_svc w) \<and> rf_points w' = rf_points w \<and> rf_measured w' = rf_measured w \<and>
    (stop \<or> p_sweep (rf_svc w') < rf_points w')"
  by (auto simp: fsm_stop_def Let_def rf_do_def sweep_service_cancel_scan_def rf_now_def not_le split: if_splits)

lemma fsm_loop_point:
  assumes "state c = RF_STATE_SETUP_FREQ" "channel_index c = 0" "fsm_stop env c w = (False, w1)"
  shows "fsm_loop env (c, w) =
    (case loop_point env (c, w1) of (False, t) \<Rightarrow> Some t | (True, t) \<Rightarrow> fsm_loop env t)"
proof -
  obtain c2 w2 where 2: "fsm_setup_freq env c w1 = (c2, w2)" by fastforce
  note f = setup_freq_frame [where env = env and c = c and w = w1, unfolded 2, simplified]
  have "fsm_loop env (c, w) = fsm_loop env (fsm_step env (c, w))" by (rule fsm_loop_run) (simp add: assms(1))
  also have "\<dots> = fsm_loop env (c2, w2)" using assms(1,3) 2 by (simp add: fsm_step.simps)
  also have "\<dots> = (case loop_cycles env (unat (total_cycles c2)) (c2, w2) of
       (False, t) \<Rightarrow> Some t | (True, c', w') \<Rightarrow> fsm_loop env (fsm_next_step env c' w'))"
    by (rule fsm_loop_cycles) (use f assms(2) in simp_all)
  finally show ?thesis by (auto simp: loop_point_def 2 split: bool.splits prod.splits)
qed

lemma loop_point_frame:
  assumes "loop_point env (c, w) = (ok, t)" "channel_index c = 0"
  shows "rf_points (snd t) = rf_points w \<and> mask (fst t) = mask c \<and>
    p_sweep (rf_svc (snd t)) = (if ok then p_sweep (rf_svc w) + 1 else p_sweep (rf_svc w)) \<and>
    (if ok then state (fst t) = RF_STATE_SETUP_FREQ \<and> channel_index (fst t) = 0 else state (fst t) = RF_STATE_FAULT)"
proof -
  obtain c2 w2 where 2: "fsm_setup_freq env c w = (c2, w2)" by fastforce
  note f = setup_freq_frame [where env = env and c = c and w = w, unfolded 2, simplified]
  obtain r c3 w3 where 3: "loop_cycles env (unat (total_cycles c2)) (c2, w2) = (r, c3, w3)" by (metis prod_cases3)
  note g = loop_cycles_frame [OF 3, simplified, OF f(2)]
  have t: "ok = r" "t = (if r then fsm_next_step env c3 w3 else (c3, w3))"
    using assms(1) by (auto simp: loop_point_def 2 3 split: bool.splits if_splits)
  show ?thesis
    using f g assms(2) t next_step_p_sweep [of env c3 w3] next_step_frame [where env = env and c = c3 and w = w3]
    by (auto simp: point_frame_def)
qed

lemma fsm_loop_points:
  assumes "state c = RF_STATE_SETUP_FREQ" "channel_index c = 0" "unat (rf_points w) - unat (p_sweep (rf_svc w)) = n"
  shows "fsm_loop env (c, w) = Some (loop_points env n (c, w))"
  using assms
proof (induction n arbitrary: c w)
  case 0
  obtain stop w1 where st: "fsm_stop env c w = (stop, w1)" by fastforce
  have "rf_points w \<le> p_sweep (rf_svc w)" using 0(3) by (simp add: word_le_nat_alt)
  then have stop using stop_frame [OF st] by (auto simp: not_less)
  then have "fsm_loop env (c, w) = fsm_loop env (c\<lparr>state := RF_STATE_IDLE\<rparr>, w1)"
    using 0(1) st by (subst fsm_loop_run) (simp_all add: fsm_step.simps)
  then show ?case using st \<open>stop\<close> by (simp add: fsm_loop_stop loop_points.simps)
next
  case (Suc n)
  obtain stop w1 where st: "fsm_stop env c w = (stop, w1)" by fastforce
  note sf = stop_frame [OF st]
  show ?case
  proof (cases stop)
    case True
    then have "fsm_loop env (c, w) = fsm_loop env (c\<lparr>state := RF_STATE_IDLE\<rparr>, w1)"
      using Suc.prems(1) st by (subst fsm_loop_run) (simp_all add: fsm_step.simps)
    then show ?thesis using st True by (simp add: fsm_loop_stop loop_points.simps)
  next
    case False
    obtain ok t where lp: "loop_point env (c, w1) = (ok, t)" by (metis surj_pair)
    note pf = loop_point_frame [OF lp Suc.prems(2)]
    have run: "fsm_loop env (c, w) = (if ok then fsm_loop env t else Some t)"
      using fsm_loop_point [OF Suc.prems(1,2), of env w w1, unfolded lp] st False by (cases ok) simp_all
    show ?thesis
    proof (cases ok)
      case True
      have lt: "p_sweep (rf_svc w1) < rf_points w1" using sf \<open>\<not> stop\<close> by blast
      have "unat (p_sweep (rf_svc w1) + 1) = unat (p_sweep (rf_svc w1)) + 1"
        using lt u16_bound [of "rf_points w1"] by (simp add: unat_word_ariths(1) word_less_nat_alt)
      then have "unat (rf_points (snd t)) - unat (p_sweep (rf_svc (snd t))) = n" using pf sf True Suc.prems(3) by simp
      then have "fsm_loop env (fst t, snd t) = Some (loop_points env n (fst t, snd t))" using pf True by (intro Suc.IH) simp_all
      then show ?thesis using run True st False lp by (simp add: loop_points.simps)
    next
      case False
      then show ?thesis using run st \<open>\<not> stop\<close> lp by (simp add: loop_points.simps)
    qed
  qed
qed

lemma fsm_init_frame:
  "state (fst (fsm_init env brk m junk w)) = RF_STATE_SETUP_FREQ" "channel_index (fst (fsm_init env brk m junk w)) = 0"
  "mask (fst (fsm_init env brk m junk w)) = m"
  "rf_measured (snd (fsm_init env brk m junk w)) = rf_measured w" "rf_points (snd (fsm_init env brk m junk w)) = rf_points w"
  "rf_svc (snd (fsm_init env brk m junk w)) = rf_svc w"
  by (auto simp: fsm_init_def Let_def rf_now_def)

definition sweep_reference :: "'r rf_env \<Rightarrow> rf_fsm_context \<Rightarrow> bool \<Rightarrow> u16 \<Rightarrow> 'r rf \<Rightarrow> bool \<times> 'r rf" where
  "sweep_reference env junk brk m w =
     (case fsm_init env brk m junk w of (c, w) \<Rightarrow>
        let w = sweep_enter env brk w
        in if brk \<and> m = 0 then sweep_failure env w
           else sweep_leave env (sweep_loops env (c,
                  if p_sweep (rf_svc w) = 0 then rf_do (sweep_prepare_led_and_progress (rf_bandwidth w \<ge> BANDWIDTH_100)) w else w)))"

lemma sweep_reference_eq: "app_measurement_sweep env junk brk m w = Some (sweep_reference env junk brk m w)"
proof -
  obtain c w1 where i: "fsm_init env brk m junk w = (c, w1)" by fastforce
  note f = fsm_init_frame [of env brk m junk w, unfolded i, simplified]
  have "fsm_loop env (c, v) = Some (sweep_loops env (c, v))" for v
    unfolding sweep_loops_def by (rule fsm_loop_points) (use f in simp_all)
  then show ?thesis by (simp add: app_measurement_sweep_def sweep_reference_def i Let_def)
qed

text \<open>
  C2 The state machine always comes to an end, whatever the hardware
  does, with the result of the plain nested loops over points, settling cycles and channels,
  left by the first capture that fails and between two points by a stop request.
\<close>

theorem sweep_is_nested_loop:
  "app_measurement_sweep env junk brk m w = Some (sweep_reference env junk brk m w)"
  by (rule sweep_reference_eq)

section \<open>What a sweep writes\<close>

text \<open>
  The results are only written: the run is the same whatever they held, and what it stores
  is a list of cells with their values.
\<close>

definition stores :: "((nat \<times> nat) \<times> cpair) list \<Rightarrow> cal_table \<Rightarrow> cal_table" where
  "stores ps = fold (\<lambda>((ch, i), v). cal_put ch i v) ps"

lemma stores_simps [simp]: "stores [] M = M" "stores (ps @ qs) M = stores qs (stores ps M)"
  "stores [((ch, i), v)] M = cal_put ch i v M"
  by (simp_all add: stores_def)

abbreviation with_results :: "cal_table \<Rightarrow> 'r rf \<Rightarrow> 'r rf" where
  "with_results M w \<equiv> w\<lparr>rf_measured := M\<rparr>"

definition sweep_cells :: "u16 \<Rightarrow> nat \<Rightarrow> nat \<Rightarrow> (nat \<times> nat) list" where
  "sweep_cells m i n = concat (map (\<lambda>k. map (\<lambda>ch. (ch, k)) (mask_channels m)) [i..<n])"

lemma sweep_cells_Suc: "i < n \<Longrightarrow> sweep_cells m i n = map (\<lambda>ch. (ch, i)) (mask_channels m) @ sweep_cells m (Suc i) n"
  by (simp add: sweep_cells_def upt_conv_Cons)

lemma sweep_cells_empty [simp]: "n \<le> i \<Longrightarrow> sweep_cells m i n = []"
  by (simp add: sweep_cells_def)

lemma results_start: "fsm_start_channel env ch c (with_results M w) = apsnd (with_results M) (fsm_start_channel env ch c w)"
  by (simp add: fsm_start_channel_def Let_def rf_now_def rf_do_def)

lemma results_wait: "fsm_wait_capture env c (with_results M w) = apsnd (with_results M) (fsm_wait_capture env c w)"
  by (simp add: fsm_wait_capture_def Let_def rf_now_def split: prod.splits)

lemma results_setup: "fsm_setup_freq env c (with_results M w) = apsnd (with_results M) (fsm_setup_freq env c w)"
  by (simp add: fsm_setup_freq_def Let_def app_measurement_set_frequency_def case_prod_beta)

lemma results_next: "fsm_next_step env c (with_results M w) = apsnd (with_results M) (fsm_next_step env c w)"
  by (simp add: fsm_next_step_def Let_def)

lemma results_stop: "fsm_stop env c (with_results M w) = apsnd (with_results M) (fsm_stop env c w)"
  by (auto simp: fsm_stop_def Let_def rf_do_def rf_now_def)

lemma results_init: "fsm_init env brk m junk (with_results M w) = apsnd (with_results M) (fsm_init env brk m junk w)"
  by (simp add: fsm_init_def Let_def rf_now_def)

lemma results_correct:
  "correct_s11 env c (with_results M w) d = correct_s11 env c w d" "correct_s21 env c (with_results M w) s11 d = correct_s21 env c w s11 d"
  by (simp_all add: correct_s11_def correct_s21_def)

lemma results_process:
  "\<exists>v. \<forall>M. fsm_process env c (with_results M w) =
    apsnd (with_results (if final_cycle c then cal_put (channel_index c) (unat (p_sweep (rf_svc w))) v M else M)) (fsm_process env c w)"
  by (rule exI [of _ "if channel_index c = 0 then sweep_s11 (fst (fsm_process env c w)) else sweep_s21 (fst (fsm_process env c w))"])
    (simp add: fsm_process_def Let_def results_correct final_cycle_def)

text \<open>One pass over the channels: on the last cycle it stores the cells of the point, on the others none.\<close>

definition stores_run :: "(cal_table \<Rightarrow> bool \<times> 'c \<times> 'r rf) \<Rightarrow> bool \<times> 'c \<times> 'r rf \<Rightarrow> ((nat \<times> nat) \<times> cpair) list \<Rightarrow> bool" where
  "stores_run f r ps \<longleftrightarrow> (\<forall>M. f M = (fst r, fst (snd r), with_results (stores ps M) (snd (snd r))))"

lemma stores_runI: "(\<And>M. f M = (ok, c, with_results (stores ps M) w)) \<Longrightarrow> stores_run f (ok, c, w) ps"
  by (simp add: stores_run_def)

lemma stores_runD: "stores_run f (ok, c, w) ps \<Longrightarrow> f M = (ok, c, with_results (stores ps M) w)"
  by (simp add: stores_run_def)

lemma channels_store:
  assumes "state c = RF_STATE_SETUP_MEASURE"
  shows "\<exists>ps rest. stores_run (\<lambda>M. loop_channels env chs (c, with_results M w)) (loop_channels env chs (c, w)) ps \<and>
    map fst ps @ rest = (if final_cycle c then map (\<lambda>ch. (ch, unat (p_sweep (rf_svc w)))) chs else []) \<and>
    (fst (loop_channels env chs (c, w)) \<longrightarrow> rest = [])"
  using assms
proof (induction chs arbitrary: c w)
  case Nil
  then show ?case by (intro exI [of _ "[]"]) (simp add: stores_run_def)
next
  case (Cons ch chs)
  obtain c1 w1 where 1: "fsm_start_channel env ch c w = (c1, w1)" by fastforce
  obtain c2 w2 where 2: "fsm_wait_capture env c1 w1 = (c2, w2)" by fastforce
  obtain c3 w3 where 3: "fsm_process env c2 w2 = (c3, w3)" by fastforce
  note f1 = start_channel_frame [where env = env and ch = ch and c = c and w = w, unfolded 1, simplified]
  note f2 = wait_capture_frame [where env = env and c = c1 and w = w1, unfolded 2, simplified]
  note f3 = process_frame [where env = env and c = c2 and w = w2, unfolded 3, simplified]
  show ?case
  proof (cases "state c2 = RF_STATE_FAULT")
    case True
    then have "loop_channels env (ch # chs) (c, with_results M w) = (False, c2, with_results M w2)" for M
      by (simp add: results_start 1 results_wait 2)
    moreover have "loop_channels env (ch # chs) (c, w) = (False, c2, w2)" using True by (simp add: 1 2)
    ultimately show ?thesis by (intro exI [of _ "[]"] exI conjI) (auto intro!: stores_runI simp del: loop_channels.simps)
  next
    case False
    obtain v where v: "\<And>M. fsm_process env c2 (with_results M w2) =
        (c3, with_results (if final_cycle c2 then cal_put (channel_index c2) (unat (p_sweep (rf_svc w2))) v M else M) w3)"
      using results_process [of env c2 w2] 3 by auto
    have fr: "cycle_frame (c, w) (c3, w3)" "cycle_frame (c, w) (c2, w2)" using f1(1) f2(1) f3(1) cycle_frame_trans by blast+
    then have fin: "final_cycle c2 = final_cycle c" "final_cycle c3 = final_cycle c"
      and p: "p_sweep (rf_svc w2) = p_sweep (rf_svc w)" "p_sweep (rf_svc w3) = p_sweep (rf_svc w)"
      by (simp_all add: cycle_frame_def point_frame_def final_cycle_def)
    let ?cell = "((ch, unat (p_sweep (rf_svc w))), v)"
    let ?q = "if final_cycle c then [?cell] else []"
    have step: "loop_channels env (ch # chs) (c, with_results M w) = loop_channels env chs (c3, with_results (stores ?q M) w3)" for M
      using False by (simp add: results_start 1 results_wait 2 v fin p f1(3) f2(3))
    have step0: "loop_channels env (ch # chs) (c, w) = loop_channels env chs (c3, w3)" using False by (simp add: 1 2 3)
    obtain ps rest where ih: "stores_run (\<lambda>M. loop_channels env chs (c3, with_results M w3)) (loop_channels env chs (c3, w3)) ps"
      "map fst ps @ rest = (if final_cycle c3 then map (\<lambda>ch. (ch, unat (p_sweep (rf_svc w3)))) chs else [])"
      "fst (loop_channels env chs (c3, w3)) \<longrightarrow> rest = []"
      using Cons.IH [OF f3(2), of w3] by blast
    have "stores_run (\<lambda>M. loop_channels env (ch # chs) (c, with_results M w)) (loop_channels env (ch # chs) (c, w)) (?q @ ps)"
      using ih(1) by (simp add: stores_run_def step step0 del: loop_channels.simps)
    moreover have "map fst (?q @ ps) @ rest = (if final_cycle c then map (\<lambda>ch. (ch, unat (p_sweep (rf_svc w)))) (ch # chs) else [])"
      using ih(2) fin p by (auto split: if_splits)
    ultimately show ?thesis using ih(3) step0 by (metis (no_types, lifting))
  qed
qed

abbreviation point_cells :: "rf_fsm_context \<Rightarrow> 'r rf \<Rightarrow> (nat \<times> nat) list" where
  "point_cells c w \<equiv> map (\<lambda>ch. (ch, unat (p_sweep (rf_svc w)))) (mask_channels (mask c))"

lemma final_cycle_nat: "final_cycle c \<longleftrightarrow> unat (current_cycle c) + 1 = unat (total_cycles c)"
  unfolding final_cycle_def by linarith

lemma cycles_store:
  assumes "state c = RF_STATE_SETUP_MEASURE" "channel_index c = 0" "unat (current_cycle c) + n = unat (total_cycles c)"
  shows "\<exists>ps rest. stores_run (\<lambda>M. loop_cycles env n (c, with_results M w)) (loop_cycles env n (c, w)) ps \<and>
    map fst ps @ rest = (if n = 0 then [] else point_cells c w) \<and> (fst (loop_cycles env n (c, w)) \<longrightarrow> rest = [])"
  using assms
proof (induction n arbitrary: c w)
  case 0
  then show ?case by (intro exI [of _ "[]"]) (simp add: stores_run_def)
next
  case (Suc n)
  let ?chs = "mask_channels (mask c)"
  obtain r c1 w1 where r: "loop_channels env ?chs (c, w) = (r, c1, w1)" by (metis prod_cases3)
  obtain ps rest where cs: "stores_run (\<lambda>M. loop_channels env ?chs (c, with_results M w)) (r, c1, w1) ps"
    "map fst ps @ rest = (if final_cycle c then point_cells c w else [])" "r \<longrightarrow> rest = []"
    using channels_store [OF Suc.prems(1), of env ?chs w] r by auto
  note runM = stores_runD [OF cs(1)]
  note f = loop_channels_frame [OF r, simplified, OF Suc.prems(1)]
  have fin: "final_cycle c \<longleftrightarrow> n = 0" using Suc.prems(3) unfolding final_cycle_nat by linarith
  show ?case
  proof (cases r)
    case False
    have "stores_run (\<lambda>M. loop_cycles env (Suc n) (c, with_results M w)) (loop_cycles env (Suc n) (c, w)) ps"
      using False r runM by (simp add: stores_run_def)
    moreover have "\<exists>rest. map fst ps @ rest = point_cells c w" using cs(2) by (auto split: if_splits)
    ultimately show ?thesis using False r by auto
  next
    case True
    let ?c = "c1\<lparr>current_cycle := current_cycle c1 + 1, channel_index := 0\<rparr>"
    have cc: "current_cycle c1 = current_cycle c" "total_cycles c1 = total_cycles c" "mask c1 = mask c"
      "p_sweep (rf_svc w1) = p_sweep (rf_svc w)" "state c1 = RF_STATE_SETUP_MEASURE"
      using f True by (simp_all add: cycle_frame_def point_frame_def)
    have "unat (current_cycle c + 1) = unat (current_cycle c) + 1"
      using Suc.prems(3) u8_bound [of "total_cycles c"] by (simp add: unat_word_ariths(1))
    then have "unat (current_cycle ?c) + n = unat (total_cycles ?c)" using Suc.prems(3) cc by simp
    then have ih: "\<exists>ps rest. stores_run (\<lambda>M. loop_cycles env n (?c, with_results M w1)) (loop_cycles env n (?c, w1)) ps \<and>
        map fst ps @ rest = (if n = 0 then [] else point_cells ?c w1) \<and> (fst (loop_cycles env n (?c, w1)) \<longrightarrow> rest = [])"
      by (intro Suc.IH) (simp_all add: cc)
    have "point_cells ?c w1 = point_cells c w" using cc by simp
    with ih obtain qs rest' where
      ih: "stores_run (\<lambda>M. loop_cycles env n (?c, with_results M w1)) (loop_cycles env n (?c, w1)) qs"
      "map fst qs @ rest' = (if n = 0 then [] else point_cells c w)" "fst (loop_cycles env n (?c, w1)) \<longrightarrow> rest' = []"
      by (elim exE conjE) (rule that, assumption, simp_all only:)
    have step: "loop_cycles env (Suc n) (c, with_results M w) = loop_cycles env n (?c, with_results (stores ps M) w1)" for M
      using True runM by simp
    have step0: "loop_cycles env (Suc n) (c, w) = loop_cycles env n (?c, w1)" using True r by simp
    have "stores_run (\<lambda>M. loop_cycles env (Suc n) (c, with_results M w)) (loop_cycles env (Suc n) (c, w)) (ps @ qs)"
      using ih(1) by (simp add: stores_run_def step step0 del: loop_cycles.simps)
    moreover have "map fst (ps @ qs) @ rest' = point_cells c w" using cs(2,3) True ih(2) fin by (auto split: if_splits)
    ultimately show ?thesis using ih(3) step0 by (intro exI [of _ "ps @ qs"] exI [of _ rest']) simp
  qed
qed

text \<open>Settling never takes 255 extra cycles, so a point has at least one cycle.\<close>

definition settling_ok :: "'r rf_env \<Rightarrow> bool" where
  "settling_ok env \<longleftrightarrow> (\<forall>r. fst (env_settling env r) \<noteq> 255)"

lemma setup_cycles:
  assumes "settling_ok env"
  shows "total_cycles (fst (fsm_setup_freq env c w)) \<noteq> 0"
proof -
  have "n + 1 \<noteq> 0" if "n \<noteq> 255" for n :: u8
  proof
    assume "n + 1 = 0"
    then have "n = 0 - 1" by (metis add_diff_cancel_right')
    then show False using that by simp
  qed
  moreover have "snd x = snd x" for x :: "u8 \<times> 'r" by simp
  ultimately show ?thesis
    using assms by (auto simp: settling_ok_def fsm_setup_freq_def Let_def case_prod_beta)
qed

lemma point_store:
  assumes "channel_index c = 0" "settling_ok env"
  shows "\<exists>ps rest. stores_run (\<lambda>M. loop_point env (c, with_results M w)) (loop_point env (c, w)) ps \<and>
    map fst ps @ rest = point_cells c w \<and> (fst (loop_point env (c, w)) \<longrightarrow> rest = [])"
proof -
  obtain c2 w2 where 2: "fsm_setup_freq env c w = (c2, w2)" by fastforce
  note f = setup_freq_frame [where env = env and c = c and w = w, unfolded 2, simplified]
  have n: "unat (total_cycles c2) \<noteq> 0" using setup_cycles [OF assms(2), of c w] 2 by (simp add: unat_eq_0)
  obtain r c3 w3 where r: "loop_cycles env (unat (total_cycles c2)) (c2, w2) = (r, c3, w3)" by (metis prod_cases3)
  have m: "point_cells c2 w2 = point_cells c w" using f(1) by (simp add: point_frame_def)
  obtain ps rest where cs: "stores_run (\<lambda>M. loop_cycles env (unat (total_cycles c2)) (c2, with_results M w2)) (r, c3, w3) ps"
    "map fst ps @ rest = point_cells c w" "r \<longrightarrow> rest = []"
    using cycles_store [of c2 "unat (total_cycles c2)" env w2] f assms(1) n r m by auto
  have "loop_point env (c, with_results M w) =
      (if r then (True, apsnd (with_results (stores ps M)) (fsm_next_step env c3 w3)) else (False, c3, with_results (stores ps M) w3))" for M
    using stores_runD [OF cs(1)] by (simp add: loop_point_def results_setup 2 results_next)
  moreover have "loop_point env (c, w) = (if r then (True, fsm_next_step env c3 w3) else (False, c3, w3))"
    by (simp add: loop_point_def 2 r)
  ultimately have "stores_run (\<lambda>M. loop_point env (c, with_results M w)) (loop_point env (c, w)) ps" "fst (loop_point env (c, w)) = r"
    by (auto simp: stores_run_def apsnd_def map_prod_def split: prod.splits)
  then show ?thesis using cs(2,3) by blast
qed

lemma points_store:
  assumes "channel_index c = 0" "settling_ok env" "unat (rf_points w) - unat (p_sweep (rf_svc w)) = n"
  shows "\<exists>ps rest c' w'. loop_points env n (c, w) = (c', w') \<and> (\<forall>M. loop_points env n (c, with_results M w) = (c', with_results (stores ps M) w')) \<and>
    map fst ps @ rest = sweep_cells (mask c) (unat (p_sweep (rf_svc w))) (unat (rf_points w)) \<and>
    (p_sweep (rf_svc w') \<ge> rf_points w' \<longrightarrow> rest = []) \<and> rf_points w' = rf_points w \<and>
    state c' \<in> {RF_STATE_IDLE, RF_STATE_FAULT} \<and> (state c' = RF_STATE_FAULT \<longrightarrow> p_sweep (rf_svc w') < rf_points w')"
  using assms
proof (induction n arbitrary: c w)
  case 0
  obtain stop w1 where st: "fsm_stop env c w = (stop, w1)" by fastforce
  have le: "rf_points w \<le> p_sweep (rf_svc w)" using 0(3) by (simp add: word_le_nat_alt)
  then have stop using stop_frame [OF st] by (auto simp: not_less)
  then have "loop_points env 0 (c, w) = (c\<lparr>state := RF_STATE_IDLE\<rparr>, w1)"
    "loop_points env 0 (c, with_results M w) = (c\<lparr>state := RF_STATE_IDLE\<rparr>, with_results M w1)" for M
    using st by (simp_all add: loop_points.simps results_stop)
  then show ?case using stop_frame [OF st] 0(3) le
    by (intro exI [of _ "[]"] exI [of _ "c\<lparr>state := RF_STATE_IDLE\<rparr>"] exI [of _ w1]) auto
next
  case (Suc n)
  obtain stop w1 where st: "fsm_stop env c w = (stop, w1)" by fastforce
  note sf = stop_frame [OF st]
  have lt: "unat (p_sweep (rf_svc w)) < unat (rf_points w)" using Suc.prems(3) by simp
  show ?case
  proof (cases stop)
    case True
    then have "loop_points env (Suc n) (c, w) = (c\<lparr>state := RF_STATE_IDLE\<rparr>, w1)"
      "loop_points env (Suc n) (c, with_results M w) = (c\<lparr>state := RF_STATE_IDLE\<rparr>, with_results M w1)" for M
      using st by (simp_all add: loop_points.simps results_stop)
    then show ?thesis using sf lt
      by (intro exI [of _ "[]"] exI [of _ "sweep_cells (mask c) (unat (p_sweep (rf_svc w))) (unat (rf_points w))"]
          exI [of _ "c\<lparr>state := RF_STATE_IDLE\<rparr>"] exI [of _ w1]) (simp add: word_le_nat_alt)
  next
    case False
    obtain ok t where lp: "loop_point env (c, w1) = (ok, t)" by (metis surj_pair)
    note pf = loop_point_frame [OF lp Suc.prems(1)]
    obtain ps rest where sp: "stores_run (\<lambda>M. loop_point env (c, with_results M w1)) (ok, fst t, snd t) ps"
      "map fst ps @ rest = point_cells c w" "ok \<longrightarrow> rest = []"
      using point_store [OF Suc.prems(1,2), of w1] lp sf by auto
    have run: "loop_points env (Suc n) (c, w) = (if ok then loop_points env n t else t)"
      "loop_points env (Suc n) (c, with_results M w) =
        (if ok then loop_points env n (fst t, with_results (stores ps M) (snd t)) else (fst t, with_results (stores ps M) (snd t)))" for M
      using st False lp stores_runD [OF sp(1)] by (simp_all add: loop_points.simps results_stop)
    have cells: "sweep_cells (mask c) (unat (p_sweep (rf_svc w))) (unat (rf_points w)) =
        point_cells c w @ sweep_cells (mask c) (unat (p_sweep (rf_svc w)) + 1) (unat (rf_points w))"
      using sweep_cells_Suc [OF lt] by simp
    show ?thesis
    proof (cases ok)
      case True
      have inc: "unat (p_sweep (rf_svc w) + 1) = unat (p_sweep (rf_svc w)) + 1"
        using lt u16_bound [of "rf_points w"] by (simp add: unat_word_ariths(1))
      have t: "channel_index (fst t) = 0" "rf_points (snd t) = rf_points w" "mask (fst t) = mask c"
        "p_sweep (rf_svc (snd t)) = p_sweep (rf_svc w) + 1" using pf True sf by simp_all
      have "unat (rf_points (snd t)) - unat (p_sweep (rf_svc (snd t))) = n" using t inc Suc.prems(3) by simp
      from Suc.IH [OF t(1) Suc.prems(2) this] obtain qs rest' c' w' where ih: "loop_points env n t = (c', w')"
        "\<And>M. loop_points env n (fst t, with_results M (snd t)) = (c', with_results (stores qs M) w')"
        "map fst qs @ rest' = sweep_cells (mask c) (unat (p_sweep (rf_svc w)) + 1) (unat (rf_points w))"
        "p_sweep (rf_svc w') \<ge> rf_points w' \<longrightarrow> rest' = []" "rf_points w' = rf_points w"
        "state c' \<in> {RF_STATE_IDLE, RF_STATE_FAULT}" "state c' = RF_STATE_FAULT \<longrightarrow> p_sweep (rf_svc w') < rf_points w'"
        unfolding t inc prod.collapse by blast
      show ?thesis
        by (rule exI [of _ "ps @ qs"], rule exI [of _ rest'], rule exI [of _ c'], rule exI [of _ w'])
          (use run True ih sp(2,3) cells in simp)
    next
      case False
      have "p_sweep (rf_svc (snd t)) < rf_points (snd t)" "(rf_points w \<le> p_sweep (rf_svc w)) = False"
        using pf False sf lt by (simp_all add: word_less_nat_alt word_le_nat_alt)
      then show ?thesis
        by (intro exI [of _ ps] exI [of _ "rest @ sweep_cells (mask c) (unat (p_sweep (rf_svc w)) + 1) (unat (rf_points w))"]
            exI [of _ "fst t"] exI [of _ "snd t"])
          (use run False pf sf sp(2) cells in \<open>simp del: not_le\<close>)
    qed
  qed
qed

lemma results_do [simp]: "rf_do f (with_results M w) = with_results M (rf_do f w)"
  by (simp add: rf_do_def)

lemma results_finish: "sweep_finish env (with_results M w) = with_results M (sweep_finish env w)"
  by (simp add: sweep_finish_def)

lemma results_enter: "sweep_enter env brk (with_results M w) = with_results M (sweep_enter env brk w)"
  by (simp add: sweep_enter_def Let_def results_finish)

lemma results_failure: "sweep_failure env (with_results M w) = apsnd (with_results M) (sweep_failure env w)"
  by (simp add: sweep_failure_def results_finish)

lemma results_leave: "sweep_leave env (c, with_results M w) = apsnd (with_results M) (sweep_leave env (c, w))"
  by (simp add: sweep_leave_def Let_def results_failure results_finish)

lemma finish_frame:
  "p_sweep (rf_svc (sweep_finish env w)) = p_sweep (rf_svc w)" "rf_points (sweep_finish env w) = rf_points w"
  "sweep_in_progress (rf_svc (sweep_finish env w)) = sweep_in_progress (rf_svc w)"
  by (simp_all add: sweep_finish_def rf_do_def sweep_led_end_def sweep_progress_end_def sweep_publish_progress_def Let_def)

lemma clear_flag: "(x AND NOT f) AND f = (0 :: u8)"
  by (simp add: and.assoc)

lemma finish_flags:
  "\<not> sweep_progress_enabled (rf_svc (sweep_finish env w)) \<and> sweep_state_flags (rf_svc (sweep_finish env w)) AND SWEEP_STATE_LED_ACTIVE = 0"
proof -
  define f where "f = sweep_state_flags (sweep_progress_end (env_width env) (rf_svc w))"
  have p: "f AND SWEEP_STATE_PROGRESS_ACTIVE = 0"
    by (simp add: f_def sweep_progress_end_def sweep_progress_enabled_def Let_def sweep_publish_progress_def clear_flag)
  have "(f AND NOT SWEEP_STATE_LED_ACTIVE) AND SWEEP_STATE_PROGRESS_ACTIVE = (f AND SWEEP_STATE_PROGRESS_ACTIVE) AND NOT SWEEP_STATE_LED_ACTIVE"
    by (simp only: ac_simps)
  then have q: "(f AND NOT SWEEP_STATE_LED_ACTIVE) AND SWEEP_STATE_PROGRESS_ACTIVE = 0" using p by simp
  show ?thesis
    using p q unfolding f_def
    by (simp add: sweep_finish_def rf_do_def sweep_led_end_def sweep_progress_enabled_def clear_flag)
qed

lemma prepare_frame: "p_sweep (sweep_prepare_led_and_progress b s) = p_sweep s"
  by (simp add: sweep_prepare_led_and_progress_def sweep_progress_begin_def sweep_led_begin_def sweep_publish_progress_def Let_def)

lemma sweep_reference_loops:
  assumes "fsm_init env brk m junk w = (c, w1)" "\<not> (brk \<and> m = 0)"
  shows "sweep_reference env junk brk m w = sweep_leave env (sweep_loops env (c,
      if p_sweep (rf_svc (sweep_enter env brk w1)) = 0
      then rf_do (sweep_prepare_led_and_progress (rf_bandwidth (sweep_enter env brk w1) \<ge> BANDWIDTH_100)) (sweep_enter env brk w1)
      else sweep_enter env brk w1))"
  unfolding sweep_reference_def assms(1) Let_def using assms(2) by (simp only: prod.case if_False)

definition sweep_first :: "bool \<Rightarrow> 'r rf \<Rightarrow> nat" where
  "sweep_first brk w = (if brk \<and> p_sweep (rf_svc w) < rf_points w then unat (p_sweep (rf_svc w)) else 0)"

lemma enter_frame:
  "unat (p_sweep (rf_svc (sweep_enter env brk w))) = sweep_first brk w" "rf_points (sweep_enter env brk w) = rf_points w"
  by (auto simp: sweep_enter_def Let_def finish_frame rf_do_def sweep_first_def sweep_reset_progress_def not_le)

lemma leave_contract:
  assumes "sweep_leave env (c, w) = (ok, w')" "state c \<in> {RF_STATE_IDLE, RF_STATE_FAULT}"
  shows "\<not> sweep_in_progress (rf_svc w') \<and> (ok \<longrightarrow> state c = RF_STATE_IDLE \<and> rf_points w \<le> p_sweep (rf_svc w)) \<and>
    (ok \<or> state c = RF_STATE_FAULT \<longrightarrow> \<not> sweep_progress_enabled (rf_svc w') \<and> sweep_state_flags (rf_svc w') AND SWEEP_STATE_LED_ACTIVE = 0)"
  using assms finish_flags [of env w] finish_flags [of env "rf_do sweep_reset_progress w"]
  by (auto simp: sweep_leave_def sweep_failure_def Let_def rf_do_def sweep_progress_enabled_def split: if_splits)

text \<open>
  C1 A sweep that reports success has stored, in order, a value for
  every point from where it started to the last and for every selected channel, and nothing
  else; a stopped or failed one a first part of these cells. What it stores does not
  depend on the old results. It leaves the sweep flag clear and, after success, the progress
  bar and the LED off.
\<close>

theorem sweep_writes_every_point:
  assumes "settling_ok env" "app_measurement_sweep env junk brk m w = Some (ok, w')"
  shows "\<exists>ps rest. (\<forall>M. app_measurement_sweep env junk brk m (with_results M w) = Some (ok, with_results (stores ps M) w')) \<and>
    map fst ps @ rest = sweep_cells m (sweep_first brk w) (unat (rf_points w)) \<and> (ok \<longrightarrow> rest = []) \<and>
    \<not> sweep_in_progress (rf_svc w') \<and>
    (ok \<longrightarrow> \<not> sweep_progress_enabled (rf_svc w') \<and> sweep_state_flags (rf_svc w') AND SWEEP_STATE_LED_ACTIVE = 0)"
proof -
  obtain c w1 where i: "fsm_init env brk m junk w = (c, w1)" by fastforce
  note f = fsm_init_frame [of env brk m junk w, unfolded i, simplified]
  let ?w2 = "sweep_enter env brk w1"
  have first: "unat (p_sweep (rf_svc ?w2)) = sweep_first brk w" "rf_points ?w2 = rf_points w"
    using enter_frame [of env brk w1] f by (simp_all add: sweep_first_def)
  have r: "(ok, w') = sweep_reference env junk brk m w" using assms(2) by (simp add: sweep_reference_eq)
  show ?thesis
  proof (cases "brk \<and> m = 0")
    case True
    have e: "sweep_reference env junk brk m w = sweep_failure env ?w2"
      "sweep_reference env junk brk m (with_results M w) = apsnd (with_results M) (sweep_failure env ?w2)" for M
      using True i by (simp_all add: sweep_reference_def results_init results_enter results_failure Let_def)
    moreover have "sweep_failure env ?w2 = (ok, w')" using r e by simp
    ultimately have "app_measurement_sweep env junk brk m (with_results M w) = Some (ok, with_results (stores [] M) w')" for M
      by (simp add: sweep_reference_eq)
    moreover have "\<not> ok \<and> \<not> sweep_in_progress (rf_svc w')" using r True i by (simp add: sweep_reference_def Let_def sweep_failure_def rf_do_def)
    ultimately show ?thesis
      by (intro exI [of _ "[]"] exI [of _ "sweep_cells m (sweep_first brk w) (unat (rf_points w))"]) simp
  next
    case False
    define w3 where "w3 = (if p_sweep (rf_svc ?w2) = 0 then rf_do (sweep_prepare_led_and_progress (rf_bandwidth ?w2 \<ge> BANDWIDTH_100)) ?w2 else ?w2)"
    have w3: "p_sweep (rf_svc w3) = p_sweep (rf_svc ?w2)" "rf_points w3 = rf_points ?w2" by (simp_all add: w3_def rf_do_def prepare_frame)
    have w3M: "(if p_sweep (rf_svc ?w2) = 0 then rf_do (sweep_prepare_led_and_progress (rf_bandwidth ?w2 \<ge> BANDWIDTH_100)) (with_results M ?w2)
        else with_results M ?w2) = with_results M w3" for M by (simp add: w3_def)
    let ?n = "unat (rf_points w3) - unat (p_sweep (rf_svc w3))"
    obtain ps rest c' w4 where ps: "loop_points env ?n (c, w3) = (c', w4)"
      "\<And>M. loop_points env ?n (c, with_results M w3) = (c', with_results (stores ps M) w4)"
      "map fst ps @ rest = sweep_cells (mask c) (unat (p_sweep (rf_svc w3))) (unat (rf_points w3))"
      "p_sweep (rf_svc w4) \<ge> rf_points w4 \<longrightarrow> rest = []" "state c' \<in> {RF_STATE_IDLE, RF_STATE_FAULT}"
      using points_store [OF f(2) assms(1) refl, of w3] by blast
    have leave: "sweep_leave env (c', w4) = (ok, w')"
      using r ps(1) unfolding sweep_reference_loops [OF i False] w3_def [symmetric] sweep_loops_def by simp
    have "app_measurement_sweep env junk brk m (with_results M w) = Some (ok, with_results (stores ps M) w')" for M
    proof -
      have "fsm_init env brk m junk (with_results M w) = (c, with_results M w1)" by (simp add: results_init i)
      note e = sweep_reference_loops [OF this False, unfolded results_enter]
      have sel: "rf_svc (with_results M v) = rf_svc v" "rf_bandwidth (with_results M v) = rf_bandwidth v" for v :: "'a rf" by simp_all
      have "sweep_reference env junk brk m (with_results M w) = sweep_leave env (sweep_loops env (c, with_results M w3))"
        unfolding e sel w3M by (rule refl)
      also have "\<dots> = (ok, with_results (stores ps M) w')"
        using ps(2) [of M] leave by (simp add: sweep_loops_def results_leave)
      finally show ?thesis by (simp add: sweep_reference_eq)
    qed
    moreover have "map fst ps @ rest = sweep_cells m (sweep_first brk w) (unat (rf_points w))" using ps(3) f(3) first w3 by simp
    ultimately show ?thesis using ps(4) leave_contract [OF leave ps(5)] by blast
  qed
qed

definition rf_env_demo :: "unit rf_env" where
  "rf_env_demo = \<lparr>env_clock = (\<lambda>n. 1), env_irqs = (\<lambda>n r. [(30, False, []), (40, True, [])]), env_cancel = (\<lambda>n. False),
     env_set_frequency = (\<lambda>f r. (0, r)), env_settling = (\<lambda>r. (0, r)), env_select = (\<lambda>ch r. r), env_harmonic = (\<lambda>f. 1),
     env_sincos = (\<lambda>x. (0, 1)), env_exp = (\<lambda>x. 1), env_log10 = 2, env_table = [], env_width = 300, env_points_max = 101\<rparr>"

definition rf_demo :: "unit rf" where
  "rf_demo = \<lparr>rf_svc = \<lparr>sweep_in_progress = False, sweep_copy_in_progress = False, sweep_generation = 0, p_sweep = 1,
       sweep_state_flags = 0, sweep_cancel_request = False, sweep_event_bus = True, sweep_published = [], sweep_led_lit = False,
       smooth_factor = 0, sample_func = (\<lambda>d. (0, 0)), ready_time = 0, wait_count = 0,
       sweep_dsp = \<lparr>acc_samp_s = 0, acc_samp_c = 0, acc_ref_s = 0, acc_ref_c = 0\<rparr>, sweep_redraw = 0\<rparr>,
     rf_plan = \<lparr>f_start = 1000, f_delta = 1000, f_error = 0, f_points = 1\<rparr>, rf_points = 2,
     rf_cal = cal_demo,
     rf_edelay_s11 = 0, rf_edelay_s21 = 0, rf_s21_offset = 0, rf_portz = 50, rf_cal_load_r = 50, rf_bandwidth = 0, rf_measured = (\<lambda>c i. (7, 7)), rf_cal_data = (\<lambda>t. (0, 0)),
     rf_radio = (), rf_reads = 0\<rparr>"

definition ctx_demo :: rf_fsm_context where
  "ctx_demo = \<lparr>state = RF_STATE_IDLE, break_on_operation = False, mask = 0, batch_budget = 0, processed = 0, slice_start = 0, frequency = 0,
     delay = 0, st_delay = 0, interpolation_idx = 0, total_cycles = 0, current_cycle = 0, channel_index = 0, offset_factor = 1,
     sweep_s11 = (0, 0), sweep_s21 = (0, 0)\<rparr>"

lemma rf_demo_runs: "map_option fst (app_measurement_sweep rf_env_demo ctx_demo False 3 rf_demo) = Some True"
  by code_simp

theorem sweep_writes_every_point_witness:
  "\<exists>w' ps. (\<forall>M. app_measurement_sweep rf_env_demo ctx_demo False 3 (with_results M rf_demo) = Some (True, with_results (stores ps M) w')) \<and>
    map fst ps = [(0, 0), (1, 0), (0, 1), (1, 1)] \<and> \<not> sweep_in_progress (rf_svc w')"
proof -
  obtain w' where w': "app_measurement_sweep rf_env_demo ctx_demo False 3 rf_demo = Some (True, w')"
    using rf_demo_runs by auto
  have so: "settling_ok rf_env_demo" by (simp add: settling_ok_def rf_env_demo_def)
  have cells: "sweep_cells 3 (sweep_first False rf_demo) (unat (rf_points rf_demo)) = [(0, 0), (1, 0), (0, 1), (1, 1)]"
    by code_simp
  obtain ps rest where ps: "\<forall>M. app_measurement_sweep rf_env_demo ctx_demo False 3 (with_results M rf_demo) = Some (True, with_results (stores ps M) w')"
    "map fst ps @ rest = [(0, 0), (1, 0), (0, 1), (1, 1)]" "rest = []" "\<not> sweep_in_progress (rf_svc w')"
    using sweep_writes_every_point [OF so w', unfolded cells] by (elim exE conjE) (rule that, assumption, assumption, simp, assumption)
  then have "map fst ps = [(0, 0), (1, 0), (0, 1), (1, 1)]" by simp
  then show ?thesis by (intro exI conjI) (rule ps(1), assumption, rule ps(4))
qed

text \<open>
  A sweep of the transmission channel alone, as the command \<open>scan\<close> makes
  it for the output mask 4, with calibration and enhanced response applied: the correction multiplies with the
  reflection of the context, which no step has set, so the same measurement gives different results
  for different contents of the stack.
\<close>

theorem uninitialised_reflection:
  "let w = rf_demo\<lparr>rf_svc := (rf_svc rf_demo)\<lparr>sample_func := (\<lambda>d. (2, 0))\<rparr>,
             rf_cal := cal_demo\<lparr>cal_status := CALSTAT_APPLY OR CALSTAT_ENHANCED_RESPONSE, cal_data := (\<lambda>t i. (1, 0))\<rparr>\<rparr>;
       sweep = (\<lambda>s11. case app_measurement_sweep rf_env_demo (ctx_demo\<lparr>sweep_s11 := s11\<rparr>) False
                  (SWEEP_CH1_MEASURE OR SWEEP_APPLY_CALIBRATION) w of
                Some (ok, w') \<Rightarrow> Some (ok, rf_measured w' 1 0) | None \<Rightarrow> None)
   in sweep (0, 0) = Some (True, (1, 0)) \<and> sweep (1, 0) = Some (True, (0, 0))"
  by code_simp

end
