(* ===== verification/Pipeline.thy ===== *)
theory Pipeline
  imports Sweep_Engine
begin

text \<open>
  \<open>src/src/rf/pipeline.c\<close>: a measurement is a sweep and, when it is complete and another
  port impedance than 50 ohms is set, the renormalization of the reflection coefficients to that
  impedance. The build defines \<open>__VNA_Z_RENORMALIZATION__\<close>.
\<close>

section \<open>The code\<close>

definition renormalizes :: "bool \<Rightarrow> real \<Rightarrow> bool" where
  "renormalizes res portz \<longleftrightarrow> res \<and> portz \<noteq> 50 \<and> portz > 1"

definition renormalize_k :: "real \<Rightarrow> real" where
  "renormalize_k portz = (portz - 50) / (portz + 50)"

definition renormalize_value :: "real \<Rightarrow> cpair \<Rightarrow> cpair" where
  "renormalize_value k d =
     (let re = fst d; im = snd d;
          A = re - k;
          B = im;
          C = 1 - re * k;
          D = - im * k;
          den = C * C + D * D
      in if den > 1 / 10 ^ 9 then ((A * C + B * D) / den, (B * C - A * D) / den) else d)"

definition renormalize_point :: "real \<Rightarrow> nat \<Rightarrow> cal_table \<Rightarrow> cal_table" where
  "renormalize_point k i measured = cal_put 0 i (renormalize_value k (measured 0 i)) measured"

definition renormalize :: "bool \<Rightarrow> real \<Rightarrow> u16 \<Rightarrow> u16 \<Rightarrow> cal_table \<Rightarrow> cal_table" where
  "renormalize res portz points channel_mask measured =
     (if renormalizes res portz \<and> channel_mask AND 1 \<noteq> 0
      then for_points (renormalize_point (renormalize_k portz)) points measured else measured)"

definition measurement_pipeline_execute :: "'r rf_env \<Rightarrow> rf_fsm_context \<Rightarrow> bool \<Rightarrow> u16 \<Rightarrow> 'r rf \<Rightarrow> (bool \<times> 'r rf) option" where
  "measurement_pipeline_execute env junk brk channel_mask w =
     map_option (\<lambda>(res, w). (res, w\<lparr>rf_measured := renormalize res (rf_portz w) (rf_points w) channel_mask (rf_measured w)\<rparr>))
       (app_measurement_sweep env junk brk channel_mask w)"

section \<open>What the renormalization computes\<close>

text \<open>The reflection coefficient of an impedance against a real port impedance.\<close>

definition reflection :: "real \<Rightarrow> complex \<Rightarrow> complex" where
  "reflection port z = (z - of_real port) / (z + of_real port)"

lemma pointwise_renormalize: "pointwise (renormalize_point k)"
  unfolding pointwise_def renormalize_point_def cal_put_def by simp

text \<open>The code divides \<open>A + jB\<close> by \<open>C + jD\<close> unless the denominator is tiny.\<close>

lemma renormalize_value_complex:
  assumes "(cmod (1 - of_real k * cx d))\<^sup>2 > 1 / 10 ^ 9"
  shows "cx (renormalize_value k d) = (cx d - of_real k) / (1 - of_real k * cx d)"
proof -
  have num: "cx d - of_real k = Complex (fst d - k) (snd d)"
    and den: "1 - of_real k * cx d = Complex (1 - fst d * k) (- snd d * k)"
    by (simp_all add: cx_def complex_eq_iff algebra_simps)
  have "(cmod (1 - of_real k * cx d))\<^sup>2 = (1 - fst d * k) * (1 - fst d * k) + (- snd d * k) * (- snd d * k)"
    unfolding den cmod_power2 by (simp add: power2_eq_square)
  with assms show ?thesis
    unfolding num den complex_divide_parts by (simp add: renormalize_value_def Let_def cx_def)
qed

text \<open>
  A passive load keeps the denominator away from zero, for every port impedance the code
  renormalizes to up to three megohms.
\<close>

lemma reflection_denominator:
  assumes "z + 50 \<noteq> 0" "0 < P"
  shows "1 - of_real (renormalize_k P) * reflection 50 z = of_real (100 / (P + 50)) * ((z + of_real P) / (z + 50))"
proof -
  have "of_real P + (50 :: complex) \<noteq> 0"
    using assms(2) by (simp add: complex_eq_iff)
  then show ?thesis
    using assms(1) by (simp add: reflection_def renormalize_k_def divide_simps) (simp add: algebra_simps)
qed

lemma passive_ratio:
  assumes "0 \<le> Re z" "0 < P"
  shows "min 1 (P / 50) \<le> cmod ((z + of_real P) / (z + 50))"
proof -
  have nz: "cmod (z + 50) > 0" using assms(1) by (auto simp: complex_eq_iff)
  have sq: "(cmod (z + of_real a))\<^sup>2 = (Re z + a)\<^sup>2 + (Im z)\<^sup>2" for a by (simp add: cmod_power2)
  have sq50: "(cmod (z + 50))\<^sup>2 = (Re z + 50)\<^sup>2 + (Im z)\<^sup>2" using sq [of 50] by simp
  show ?thesis
  proof (cases "50 \<le> P")
    case True
    have "(cmod (z + 50))\<^sup>2 \<le> (cmod (z + of_real P))\<^sup>2"
      unfolding sq sq50 using True assms(1) by (intro add_right_mono power_mono) auto
    then have "cmod (z + 50) \<le> cmod (z + of_real P)" by (simp add: power2_le_iff_abs_le)
    then have "1 \<le> cmod ((z + of_real P) / (z + 50))" using nz by (simp add: norm_divide)
    then show ?thesis by linarith
  next
    case False
    have "(P / 50 * cmod (z + 50))\<^sup>2 \<le> (cmod (z + of_real P))\<^sup>2"
    proof -
      have q: "0 \<le> P / 50" "P / 50 \<le> 1" using False assms(2) by simp_all
      have re: "P / 50 * (Re z + 50) \<le> Re z + P" using q assms(1) mult_right_mono [of "P / 50" 1 "Re z"] by (simp add: field_simps)
      have re': "(P / 50 * (Re z + 50))\<^sup>2 \<le> (Re z + P)\<^sup>2" using re q assms(1) by (intro power_mono) auto
      have im: "(P / 50 * Im z)\<^sup>2 \<le> (Im z)\<^sup>2"
        using q mult_right_mono [of "(P / 50)\<^sup>2" 1 "(Im z)\<^sup>2"] power_le_one [OF q, of 2] unfolding power_mult_distrib by simp
      show ?thesis unfolding sq power_mult_distrib [of "P / 50" "cmod (z + 50)"] sq50 distrib_left
        using add_mono [OF re' im] unfolding power_mult_distrib by assumption
    qed
    then have "P / 50 * cmod (z + 50) \<le> cmod (z + of_real P)" using assms(2) by (simp add: power2_le_iff_abs_le)
    then have "P / 50 \<le> cmod ((z + of_real P) / (z + 50))" using nz by (simp add: norm_divide field_simps)
    then show ?thesis by linarith
  qed
qed

lemma renormalize_reflection:
  assumes "0 \<le> Re z" "1 < P" "P \<le> 3000000" "cx d = reflection 50 z"
  shows "cx (renormalize_value (renormalize_k P) d) = reflection P z"
proof -
  have z: "z + 50 \<noteq> 0" "z + of_real P \<noteq> 0" "of_real P + (50 :: complex) \<noteq> 0"
    using assms(1,2) by (auto simp: complex_eq_iff)
  note den = reflection_denominator [OF z(1), of P]
  have bound: "(1 / 31000) < cmod (1 - of_real (renormalize_k P) * cx d)"
  proof -
    have "min 1 (P / 50) \<le> cmod ((z + of_real P) / (z + 50))" using passive_ratio assms(1,2) by simp
    moreover have "cmod (of_real (100 / (P + 50))) = 100 / (P + 50)" unfolding norm_of_real using assms(2) by simp
    moreover have "0 \<le> 100 / (P + 50)" using assms(2) by simp
    ultimately have le: "100 / (P + 50) * min 1 (P / 50) \<le> cmod (1 - of_real (renormalize_k P) * cx d)"
      unfolding assms(4) den [OF less_trans [OF zero_less_one assms(2)]] norm_mult by (simp only: mult_left_mono)
    have "1 / 31000 < 100 / (P + 50) * min 1 (P / 50)"
    proof (cases "50 \<le> P")
      case True
      then show ?thesis using assms(3) by (simp add: min_def field_simps)
    next
      case False
      then show ?thesis using assms(2) by (simp add: min_def field_simps)
    qed
    with le show ?thesis by linarith
  qed
  have "(1 / 31000)\<^sup>2 < (cmod (1 - of_real (renormalize_k P) * cx d))\<^sup>2"
    using bound by (intro power_strict_mono) auto
  then have "1 / 10 ^ 9 < (cmod (1 - of_real (renormalize_k P) * cx d))\<^sup>2" by (simp add: power2_eq_square)
  then have "cx (renormalize_value (renormalize_k P) d) = (cx d - of_real (renormalize_k P)) / (1 - of_real (renormalize_k P) * cx d)"
    by (rule renormalize_value_complex)
  also have "1 - of_real (renormalize_k P) * cx d = of_real (100 / (P + 50)) * ((z + of_real P) / (z + 50))"
    unfolding assms(4) using den assms(2) by simp
  also have "cx d - of_real (renormalize_k P) = of_real (100 / (P + 50)) * ((z - of_real P) / (z + 50))"
    unfolding assms(4) using z by (simp add: reflection_def renormalize_k_def field_simps)
  finally have "cx (renormalize_value (renormalize_k P) d) =
    of_real (100 / (P + 50)) * ((z - of_real P) / (z + 50)) / (of_real (100 / (P + 50)) * ((z + of_real P) / (z + 50)))" .
  moreover have "(of_real (100 / (P + 50)) :: complex) \<noteq> 0" using assms(2) by (simp only: of_real_eq_0_iff) simp
  moreover have "c * (a / y) / (c * (b / y)) = a / b" if "c \<noteq> 0" "y \<noteq> 0" for a b c y :: complex using that by simp
  ultimately show ?thesis unfolding reflection_def using z(1) by metis
qed

lemma renormalize_apply:
  "renormalize res P n m M t i =
    (if renormalizes res P \<and> m AND 1 \<noteq> 0 \<and> t = 0 \<and> i < unat n then renormalize_value (renormalize_k P) (M 0 i) else M t i)"
  by (simp add: renormalize_def for_points_apply [OF pointwise_renormalize]) (simp add: renormalize_point_def cal_put_def)

text \<open>
  C26 A measurement with the first channel selected and a port impedance between 1 and three million
  ohms: when the sweep has left at a point the reflection of a passive load against 50 ohms, the
  measurement leaves there the reflection of the same load against the port impedance. All
  other results are those of the sweep, as is everything when the sweep is not complete.
\<close>

theorem renormalized_reflection:
  assumes "app_measurement_sweep env junk brk m w = Some (res, v)" "1 < rf_portz v" "rf_portz v \<le> 3000000" "m AND 1 \<noteq> 0"
  shows "\<exists>M. measurement_pipeline_execute env junk brk m w = Some (res, v\<lparr>rf_measured := M\<rparr>) \<and>
    (\<forall>i z. res \<and> i < unat (rf_points v) \<and> 0 \<le> Re z \<and> cx (rf_measured v 0 i) = reflection 50 z \<longrightarrow>
       cx (M 0 i) = reflection (rf_portz v) z) \<and>
    (\<forall>t i. \<not> (res \<and> t = 0 \<and> i < unat (rf_points v)) \<longrightarrow> M t i = rf_measured v t i)"
proof (intro exI conjI allI impI)
  let ?M = "renormalize res (rf_portz v) (rf_points v) m (rf_measured v)"
  show "measurement_pipeline_execute env junk brk m w = Some (res, v\<lparr>rf_measured := ?M\<rparr>)"
    by (simp add: measurement_pipeline_execute_def assms(1))
  show "?M t i = rf_measured v t i" if "\<not> (res \<and> t = 0 \<and> i < unat (rf_points v))" for t i
    using that unfolding renormalize_apply by (auto simp: renormalizes_def)
  show "cx (?M 0 i) = reflection (rf_portz v) z"
    if p: "res \<and> i < unat (rf_points v) \<and> 0 \<le> Re z \<and> cx (rf_measured v 0 i) = reflection 50 z" for i z
  proof (cases "rf_portz v = 50")
    case True
    then show ?thesis using p unfolding renormalize_apply by (simp add: renormalizes_def)
  next
    case False
    then have "?M 0 i = renormalize_value (renormalize_k (rf_portz v)) (rf_measured v 0 i)"
      using p assms(2,4) unfolding renormalize_apply by (simp add: renormalizes_def)
    then show ?thesis using renormalize_reflection [of z "rf_portz v" "rf_measured v 0 i"] p assms(2,3) by simp
  qed
qed

lemma portz_demo_runs:
  "map_option (\<lambda>(res, v). (res, rf_portz v, rf_points v, rf_measured v 0 0)) (app_measurement_sweep rf_env_demo ctx_demo False 3 (rf_demo\<lparr>rf_portz := 75\<rparr>)) =
    Some (True, 75, 2, (0, 0))"
  by code_simp

text \<open>A perfect match at 50 ohms is the reflection -1/5 at a port of 75 ohms.\<close>

theorem renormalized_reflection_witness:
  "\<exists>v. measurement_pipeline_execute rf_env_demo ctx_demo False 3 (rf_demo\<lparr>rf_portz := 75\<rparr>) = Some (True, v) \<and>
    cx (rf_measured v 0 0) = - 1 / 5"
proof -
  obtain v where v: "app_measurement_sweep rf_env_demo ctx_demo False 3 (rf_demo\<lparr>rf_portz := 75\<rparr>) = Some (True, v)"
    "rf_portz v = 75" "rf_points v = 2" "rf_measured v 0 0 = (0, 0)"
    using portz_demo_runs by auto
  have p: "1 < rf_portz v" "rf_portz v \<le> 3000000" "(3 :: u16) AND 1 \<noteq> 0" by (simp_all add: v)
  obtain M where M: "measurement_pipeline_execute rf_env_demo ctx_demo False 3 (rf_demo\<lparr>rf_portz := 75\<rparr>) = Some (True, v\<lparr>rf_measured := M\<rparr>)"
    "\<forall>i z. True \<and> i < unat (rf_points v) \<and> 0 \<le> Re z \<and> cx (rf_measured v 0 i) = reflection 50 z \<longrightarrow> cx (M 0 i) = reflection (rf_portz v) z"
    using renormalized_reflection [OF v(1) p] by blast
  have "cx (M 0 0) = reflection 75 50" using M(2) [rule_format, of 0 50] by (simp add: v reflection_def)
  then show ?thesis using M(1) by (intro exI [of _ "v\<lparr>rf_measured := M\<rparr>"]) (simp add: reflection_def)
qed

end
