(* ===== verification/Sweep_Lock.thy ===== *)
theory Sweep_Lock
  imports Pipeline
begin

text \<open>
  The sweep thread of \<open>src/src/rf/measurement.c\<close> against the thread that runs the shell:
  \<open>measurement_engine_tick\<close> with \<open>measurement_pipeline_execute\<close> of \<open>src/src/rf/pipeline.c\<close> and the
  lock protocol of \<open>app_measurement_sweep\<close> in between, and on the other side the snapshot a command
  reads from and \<open>pause_sweep\<close> of \<open>src/src/runtime/runtime_entry.c\<close>. Each step is one critical
  section, one access to a shared flag or one point of the results; any interleaving is a run,
  whatever the priorities of the threads. Each write of the sweep leaves arbitrary new
  results: which ones is the subject of \<open>Sweep_Engine\<close>.
\<close>

section \<open>State and steps\<close>

definition SWEEP_ENABLE :: u8 where "SWEEP_ENABLE = 1"
definition SWEEP_ONCE :: u8 where "SWEEP_ONCE = 2"

text \<open>\<open>T_Renormalize k n i\<close> is the loop of the pipeline before point \<open>i\<close>.\<close>

datatype tick_pc =
    T_Service | T_Wait | T_Begin | T_Enter | T_Copy_Wait | T_Sweep | T_Pipeline bool
  | T_Renormalize real nat nat | T_End bool | T_Generation | T_Result bool

datatype main_pc = M_Idle | M_Reading | M_Cancel | M_Wait_Idle

text \<open>
  \<open>en_snapshot\<close> keeps the values of the channel when the snapshot was taken, \<open>en_read\<close> the result of
  each release with the channel and its values then and now.
\<close>

record engine =
  en_svc :: sweep_service
  en_mode :: u8
  en_mask :: u16
  en_portz :: real
  en_points :: u16
  en_tick :: tick_pc
  en_main :: main_pc
  en_results :: cal_table
  en_snapshot :: "(sweep_snapshot \<times> (nat \<Rightarrow> cpair)) option"
  en_read :: "(bool \<times> u8 \<times> (nat \<Rightarrow> cpair) \<times> (nat \<Rightarrow> cpair)) list"

datatype engine_event =
    Tick | Service_Loop u8 u16 real u16 | Sweep_Write cal_table | Sweep_Exit bool
  | Settings real u16 | Acquire u8 u16 | Release | Pause_Clear | Pause_Cancel | Pause_Idle | Resume

text \<open>
  The sweep thread. \<open>td\<close> is the transform of \<open>app_measurement_handle_result\<close>, \<open>None\<close>
  in the frequency domain; the steps are in the order of \<open>measurement_engine_tick\<close>. The service
  loop leaves any mode, port impedance, number of points and mask of the next sweep.
\<close>

definition can_start_sweep :: "u8 \<Rightarrow> bool" where
  "can_start_sweep mode \<longleftrightarrow> mode AND (SWEEP_ENABLE OR SWEEP_ONCE) \<noteq> 0"

definition handle_result :: "(cal_table \<Rightarrow> cal_table) option \<Rightarrow> bool \<Rightarrow> engine \<Rightarrow> engine" where
  "handle_result td completed w =
     (let w = w\<lparr>en_mode := en_mode w AND NOT SWEEP_ONCE\<rparr>
      in if \<not> completed then w
         else case td of None \<Rightarrow> w | Some f \<Rightarrow> w\<lparr>en_results := f (en_results w)\<rparr>)"

fun tick_step :: "(cal_table \<Rightarrow> cal_table) option \<Rightarrow> tick_pc \<Rightarrow> engine \<Rightarrow> engine option" where
  "tick_step td T_Service w = (if can_start_sweep (en_mode w) then Some (w\<lparr>en_tick := T_Wait\<rparr>) else Some w)"
| "tick_step td T_Wait w = (if sweep_copy_in_progress (en_svc w) then Some w else Some (w\<lparr>en_tick := T_Begin\<rparr>))"
| "tick_step td T_Begin w = Some (w\<lparr>en_svc := sweep_service_begin_measurement (en_svc w), en_tick := T_Enter\<rparr>)"
| "tick_step td T_Enter w = Some (w\<lparr>en_svc := (en_svc w)\<lparr>sweep_in_progress := True\<rparr>, en_tick := T_Copy_Wait\<rparr>)"
| "tick_step td T_Copy_Wait w = (if sweep_copy_in_progress (en_svc w) then Some w else Some (w\<lparr>en_tick := T_Sweep\<rparr>))"
| "tick_step td T_Sweep w = None"
| "tick_step td (T_Pipeline res) w =
     Some (w\<lparr>en_tick := (if renormalizes res (en_portz w) \<and> en_mask w AND 1 \<noteq> 0
                         then T_Renormalize (renormalize_k (en_portz w)) (unat (en_points w)) 0 else T_End res)\<rparr>)"
| "tick_step td (T_Renormalize k n i) w =
     Some (if i < n then w\<lparr>en_results := renormalize_point k i (en_results w), en_tick := T_Renormalize k n (i + 1)\<rparr>
           else w\<lparr>en_tick := T_End True\<rparr>)"
| "tick_step td (T_End completed) w =
     Some (w\<lparr>en_svc := sweep_service_end_measurement (en_svc w), en_tick := (if completed then T_Generation else T_Result False)\<rparr>)"
| "tick_step td T_Generation w =
     Some (w\<lparr>en_svc := snd (sweep_service_increment_generation (en_svc w)), en_tick := T_Result True\<rparr>)"
| "tick_step td (T_Result completed) w = Some ((handle_result td completed w)\<lparr>en_tick := T_Service\<rparr>)"

text \<open>\<open>Settings\<close> is a command that changes the port impedance or the points, such as \<open>recall\<close>.\<close>

fun engine_step :: "(cal_table \<Rightarrow> cal_table) option \<Rightarrow> engine_event \<Rightarrow> engine \<Rightarrow> engine option" where
  "engine_step td Tick w = tick_step td (en_tick w) w"
| "engine_step td (Service_Loop mode m z n) w =
     (if en_tick w = T_Service then Some (w\<lparr>en_mode := mode, en_mask := m, en_portz := z, en_points := n\<rparr>) else None)"
| "engine_step td (Sweep_Write d) w = (if en_tick w = T_Sweep then Some (w\<lparr>en_results := d\<rparr>) else None)"
| "engine_step td (Sweep_Exit completed) w =
     (if en_tick w = T_Sweep then Some (w\<lparr>en_svc := (en_svc w)\<lparr>sweep_in_progress := False\<rparr>, en_tick := T_Pipeline completed\<rparr>) else None)"
| "engine_step td (Settings z n) w = (if en_main w = M_Idle then Some (w\<lparr>en_portz := z, en_points := n\<rparr>) else None)"
| "engine_step td (Acquire channel points) w =
     (if en_main w = M_Idle then
        case (if channel \<ge> 2 then None else snapshot_try channel points (en_svc w)) of
          None \<Rightarrow> Some w
        | Some (p, svc) \<Rightarrow> Some (w\<lparr>en_svc := svc, en_main := M_Reading, en_snapshot := Some (p, en_results w (unat channel))\<rparr>)
      else None)"
| "engine_step td Release w =
     (case en_snapshot w of
        Some (p, d) \<Rightarrow> if en_main w = M_Reading then
          (case sweep_service_snapshot_release (Some p) (en_svc w) of (same, svc) \<Rightarrow>
             Some (w\<lparr>en_svc := svc, en_main := M_Idle, en_snapshot := None,
                     en_read := (same, snap_channel p, d, en_results w (unat (snap_channel p))) # en_read w\<rparr>)) else None
      | None \<Rightarrow> None)"
| "engine_step td Pause_Clear w =
     (if en_main w = M_Idle then Some (w\<lparr>en_mode := en_mode w AND NOT SWEEP_ENABLE, en_main := M_Cancel\<rparr>) else None)"
| "engine_step td Pause_Cancel w =
     (if en_main w = M_Cancel then Some (w\<lparr>en_svc := sweep_service_cancel_scan (en_svc w), en_main := M_Wait_Idle\<rparr>) else None)"
| "engine_step td Pause_Idle w =
     (if en_main w = M_Wait_Idle then Some (if sweep_in_progress (en_svc w) then w else w\<lparr>en_main := M_Idle\<rparr>) else None)"
| "engine_step td Resume w = (if en_main w = M_Idle then Some (w\<lparr>en_mode := en_mode w OR SWEEP_ENABLE\<rparr>) else None)"

text \<open>
  The threads start after \<open>sweep_service_init\<close>. \<open>Z\<close> holds the port impedances that occur in the
  run; with \<open>UNIV\<close> every one is allowed.
\<close>

definition engine_start :: "engine \<Rightarrow> bool" where
  "engine_start w \<longleftrightarrow> \<not> sweep_in_progress (en_svc w) \<and> \<not> sweep_copy_in_progress (en_svc w) \<and>
     en_tick w = T_Service \<and> en_main w = M_Idle \<and> en_snapshot w = None \<and> en_read w = []"

inductive engine_reach :: "(cal_table \<Rightarrow> cal_table) option \<Rightarrow> real set \<Rightarrow> engine \<Rightarrow> bool" for td Z where
  start: "engine_start w \<Longrightarrow> en_portz w \<in> Z \<Longrightarrow> engine_reach td Z w"
| step: "engine_reach td Z w \<Longrightarrow> engine_step td e w = Some w' \<Longrightarrow> en_portz w' \<in> Z \<Longrightarrow> engine_reach td Z w'"


fun engine_run :: "(cal_table \<Rightarrow> cal_table) option \<Rightarrow> engine_event list \<Rightarrow> engine \<Rightarrow> engine option" where
  "engine_run td [] w = Some w"
| "engine_run td (e # es) w = (case engine_step td e w of None \<Rightarrow> None | Some w' \<Rightarrow> engine_run td es w')"

lemma engine_run_reach: "engine_reach td UNIV w \<Longrightarrow> engine_run td es w = Some w' \<Longrightarrow> engine_reach td UNIV w'"
  by (induction es arbitrary: w) (auto split: option.splits intro: engine_reach.step)

section \<open>The lock\<close>














definition engine_demo :: engine where
  "engine_demo = \<lparr>en_svc = \<lparr>sweep_in_progress = False, sweep_copy_in_progress = False, sweep_generation = 7, p_sweep = 0,
       sweep_state_flags = 0, sweep_cancel_request = False, sweep_event_bus = False, sweep_published = [], sweep_led_lit = False,
       smooth_factor = 0, sample_func = calculate_gamma, ready_time = 0, wait_count = 0,
       sweep_dsp = \<lparr>acc_samp_s = 0, acc_samp_c = 0, acc_ref_s = 0, acc_ref_c = 0\<rparr>, sweep_redraw = 0\<rparr>,
     en_mode = 1, en_mask = 3, en_portz = 50, en_points = 2, en_tick = T_Service, en_main = M_Idle, en_results = (\<lambda>c i. (4, 4)),
     en_snapshot = None, en_read = []\<rparr>"

lemma demo_starts: "can_start_sweep (en_mode engine_demo)"
  by (simp add: can_start_sweep_def engine_demo_def SWEEP_ENABLE_def SWEEP_ONCE_def)

lemma engine_demo_start: "engine_start engine_demo"
  by (simp add: engine_start_def engine_demo_def)

lemma engine_run_step: "engine_step td e w = Some v \<Longrightarrow> engine_run td (e # es) w = engine_run td es v"
  by simp

lemma five_ticks:
  assumes "engine_start w" "can_start_sweep (en_mode w)"
  shows "engine_run td (Tick # Tick # Tick # Tick # Tick # es) w =
    engine_run td es (w\<lparr>en_svc := (en_svc w)\<lparr>sweep_in_progress := True, sweep_cancel_request := False\<rparr>, en_tick := T_Sweep\<rparr>)"
proof -
  have w: "en_tick w = T_Service" "\<not> sweep_copy_in_progress (en_svc w)" using assms(1) by (simp_all add: engine_start_def)
  have 1: "engine_step td Tick w = Some (w\<lparr>en_tick := T_Wait\<rparr>)" using w(1) assms(2) by simp
  have 2: "engine_step td Tick (w\<lparr>en_tick := T_Wait\<rparr>) = Some (w\<lparr>en_tick := T_Begin\<rparr>)" using w(2) by simp
  have 3: "engine_step td Tick (w\<lparr>en_tick := T_Begin\<rparr>) = Some (w\<lparr>en_svc := sweep_service_begin_measurement (en_svc w), en_tick := T_Enter\<rparr>)"
    by simp
  let ?s = "(en_svc w)\<lparr>sweep_in_progress := True, sweep_cancel_request := False\<rparr>"
  have 4: "engine_step td Tick (w\<lparr>en_svc := sweep_service_begin_measurement (en_svc w), en_tick := T_Enter\<rparr>) =
      Some (w\<lparr>en_svc := ?s, en_tick := T_Copy_Wait\<rparr>)"
    by (simp add: sweep_service_begin_measurement_def)
  have 5: "engine_step td Tick (w\<lparr>en_svc := ?s, en_tick := T_Copy_Wait\<rparr>) = Some (w\<lparr>en_svc := ?s, en_tick := T_Sweep\<rparr>)" using w(2) by simp
  show ?thesis by (simp only: engine_run_step [OF 1] engine_run_step [OF 2] engine_run_step [OF 3] engine_run_step [OF 4] engine_run_step [OF 5])
qed


text \<open>
  What the lock does not give: a sweep is cut into time slices and
  drops the flag between them, so a snapshot taken there mixes the points of two
  sweeps, and the release still reports it as stable.
\<close>

theorem snapshot_mixes_sweeps:
  assumes "engine_start w" "can_start_sweep (en_mode w)" "channel < 2"
  shows "map_option en_read (engine_run None
       [Tick, Tick, Tick, Tick, Tick, Sweep_Write d, Sweep_Exit False, Acquire channel points, Release] w) =
     Some [(True, channel, d (unat channel), d (unat channel))]"
  unfolding five_ticks [OF assms(1,2)]
  using assms(1,3) by (simp add: engine_start_def snapshot_try_def sweep_service_snapshot_release_def not_le)

theorem snapshot_mixes_sweeps_witness:
  "map_option en_read (engine_run None
       [Tick, Tick, Tick, Tick, Tick, Sweep_Write (\<lambda>c i. (5, 4)), Sweep_Exit False, Acquire 0 2, Release] engine_demo) =
     Some [(True, 0, \<lambda>i. (5, 4), \<lambda>i. (5, 4))]"
  using snapshot_mixes_sweeps [OF engine_demo_start demo_starts, of 0 "\<lambda>c i. (5, 4)" 2] by (simp del: engine_run.simps)

text \<open>
  A sweep at another port impedance completes and drops its flag; a reader takes a
  snapshot of the first channel; the pipeline renormalizes the first point; the reader releases
  and is told that the values were stable, although the first of them has changed under it.
\<close>

theorem snapshot_rewritten:
  assumes "engine_start w" "can_start_sweep (en_mode w)" "en_portz w \<noteq> 50" "1 < en_portz w" "en_mask w AND 1 \<noteq> 0" "0 < en_points w"
  shows "map_option en_read (engine_run td
       [Tick, Tick, Tick, Tick, Tick, Sweep_Write d, Sweep_Exit True, Acquire 0 points, Tick, Tick, Release] w) =
     Some [(True, 0, d 0, (d 0)(0 := renormalize_value (renormalize_k (en_portz w)) (d 0 0)))]"
proof -
  have "0 < unat (en_points w)" using assms(6) by (simp add: word_gt_0 unat_gt_0)
  then show ?thesis
    unfolding five_ticks [OF assms(1,2)]
    using assms by (simp add: engine_start_def snapshot_try_def sweep_service_snapshot_release_def renormalizes_def
        renormalize_point_def cal_put_def)
qed

theorem snapshot_rewritten_witness:
  "map_option (\<lambda>w. map (\<lambda>(same, c, d, d'). (same, c, d 0, d' 0)) (en_read w)) (engine_run None
       [Tick, Tick, Tick, Tick, Tick, Sweep_Write (\<lambda>c i. (0, 0)), Sweep_Exit True, Acquire 0 2, Tick, Tick, Release] (engine_demo\<lparr>en_portz := 75\<rparr>)) =
     Some [(True, 0, (0, 0), (- 1 / 5, 0))]"
proof -
  let ?w = "engine_demo\<lparr>en_portz := 75\<rparr>"
  have "engine_start ?w" "can_start_sweep (en_mode ?w)" "en_portz ?w \<noteq> 50" "1 < en_portz ?w" "en_mask ?w AND 1 \<noteq> 0" "0 < en_points ?w"
    using engine_demo_start demo_starts by (simp_all add: engine_start_def engine_demo_def)
  note s = snapshot_rewritten [OF this, of None "\<lambda>c i. (0, 0)" 2]
  show ?thesis
    using arg_cong [OF s, of "map_option (map (\<lambda>(same, c, d, d'). (same, c, d 0, d' 0)))"]
    by (simp add: option.map_comp comp_def renormalize_value_def renormalize_k_def Let_def engine_demo_def del: engine_run.simps)
qed

section \<open>Pausing\<close>










text \<open>
  Without the priorities: a sweep thread that has passed its test of the mode,
  and has not yet raised its flag, starts its sweep after \<open>pause_sweep\<close> has returned.
\<close>

theorem pause_overtaken:
  assumes "engine_start w" "can_start_sweep (en_mode w)"
  shows "map_option (\<lambda>v. (en_main v, en_tick v, sweep_in_progress (en_svc v))) (engine_run td
    [Tick, Pause_Clear, Pause_Cancel, Pause_Idle, Tick, Tick, Tick, Tick] w) = Some (M_Idle, T_Sweep, True)"
  using assms by (simp add: engine_start_def sweep_service_cancel_scan_def sweep_service_begin_measurement_def)

text \<open>
  While a snapshot is held, no step of the sweep thread at one of its two waits changes
  anything: it spins until a step of the reader releases. It gives way with \<open>chThdYield\<close> only.
\<close>

lemma copy_wait_spins:
  assumes "en_tick w = T_Wait \<or> en_tick w = T_Copy_Wait" "sweep_copy_in_progress (en_svc w)"
  shows "engine_run td (replicate n Tick) w = Some w"
  using assms by (induction n) auto

end
