(* ===== verification/Si5351_Output.thy ===== *)
theory Si5351_Output
  imports Si5351
begin

text \<open>
  What the outputs of the clock generator are after \<open>si5351_set_frequency\<close>: the frequencies of the
  two measurement outputs against the ones asked for, in both modes of a band, and how the
  cached state is used across bands, frequencies and power levels.
\<close>

text \<open>Readings of words stay readable: \<open>real (unat x)\<close> is kept.\<close>

declare of_nat_unat [simp del]

section \<open>Outputs of a band\<close>

text \<open>The rows of the tables: modes, multipliers, divisors and drive strengths in range.\<close>

definition row_ok :: "band_strategy \<Rightarrow> bool" where
  "row_ok b \<longleftrightarrow> bs_pow b < 4 \<and> bs_opow b < 4 \<and>
     (if bs_mode b = SI5351_FIXED_PLL
      then bs_mul b = 1 \<and> bs_omul b = 1 \<and> 6 \<le> bs_div b \<and> bs_div b \<le> 40
      else bs_mode b = SI5351_FIXED_MULT \<and> bs_div b \<in> {4, 6, 8} \<and>
           1 \<le> bs_mul b \<and> bs_mul b \<le> 13 \<and> 1 \<le> bs_omul b \<and> bs_omul b \<le> 13)"

definition band_tables :: "band_strategy list list" where
  "band_tables = [band_strategy_33H_SI5351, band_strategy_H4_SI5351, band_strategy_36H_MS5351, band_strategy_SWC5351]"

lemma band_tables_rows:
  "list_all (\<lambda>t. bs_freq (t ! 0) = 0 \<and> bs_div (t ! 0) = 0 \<and> list_all row_ok (tl t)) band_tables"
  by code_simp

lemma band_table_row:
  assumes "t \<in> set band_tables" "0 < i" "i < length t"
  shows "row_ok (t ! i)"
proof -
  have "list_all row_ok (tl t)" using band_tables_rows assms(1) by (simp add: list_all_iff)
  then show ?thesis using assms(2,3) by (cases i) (auto simp: list_all_length nth_tl)
qed

text \<open>The output of a divider fed by a PLL, against the frequency wanted.\<close>

lemma clk_out_fixed_pll:
  fixes F f :: nat
  assumes "0 < F" "0 < f" and "\<bar>real F / real f - r\<bar> \<le> 1 / 2 ^ 20" and "5 \<le> r"
  shows "\<bar>real F / r - real f\<bar> \<le> real f / 2 ^ 22"
proof -
  have r: "0 < r" and f: "0 < real f" using assms(2,4) by simp_all
  have "real F / r - real f = real f * (real F / real f - r) / r" using r f by (simp add: field_simps)
  then have "\<bar>real F / r - real f\<bar> = real f * \<bar>real F / real f - r\<bar> / r" using r f by (simp add: abs_mult)
  also have "\<dots> \<le> real f * (1 / 2 ^ 20) / r" using assms(3) r f by (intro divide_right_mono mult_left_mono) simp_all
  also have "\<dots> \<le> real f * (1 / 2 ^ 20) / 4" using assms(4) f by (intro divide_left_mono) simp_all
  finally show ?thesis by simp
qed

lemma clk_byte_bit5: "bit (clk_byte n c) 5 = bit c 5"
  by (simp add: clk_byte_def bit_simps)

lemma small_drive: "c < 4 \<Longrightarrow> c = 0 \<or> c = 1 \<or> c = 2 \<or> c = (3 :: u8)"
proof -
  assume "c < 4"
  then have "unat c = 0 \<or> unat c = 1 \<or> unat c = 2 \<or> unat c = 3" by (auto simp: word_less_nat_alt)
  then show ?thesis by (simp add: word_unat_eq_iff)
qed

lemma small_drive_bits: "c < 4 \<Longrightarrow> \<not> bit (c :: u8) 5" "bit ((c :: u8) OR 0x20) 5"
  by (auto dest!: small_drive simp: bit_simps)

definition xtal_ok :: "u32 \<Rightarrow> bool" where
  "xtal_ok x \<longleftrightarrow> 24000000 \<le> unat x \<and> unat x \<le> 28000000"

text \<open>
  What the registers must hold while a band is current: the PLLs of a fixed PLL band, the
  output dividers and their PLL selection of a fixed divider band.
\<close>

definition band_ready :: "nat \<Rightarrow> si5351 \<Rightarrow> bool" where
  "band_ready bnd s \<longleftrightarrow>
     (let b = band_s s ! bnd in
      if bs_mode b = SI5351_FIXED_PLL
      then reg_ratio (regs s) 26 = real (unat (bs_div b)) \<and> reg_ratio (regs s) 34 = 32
      else reg_ratio (regs s) 42 = real (unat (bs_div b)) \<and> reg_rdiv (regs s) 42 = 0 \<and> \<not> bit (regs s 16) 5 \<and>
           reg_ratio (regs s) 50 = real (unat (bs_div b)) \<and> reg_rdiv (regs s) 50 = 0 \<and> bit (regs s 17) 5)"

definition synth_regs :: "nat set" where
  "synth_regs = block 26 \<union> block 34 \<union> channel_regs 0 \<union> channel_regs 1 \<union> channel_regs 2"

lemma regs_apart:
  "block 26 \<inter> block 34 = {}" "block 34 \<inter> block 26 = {}"
  "ch < 3 \<Longrightarrow> channel_regs ch \<inter> block 26 = {}" "ch < 3 \<Longrightarrow> channel_regs ch \<inter> block 34 = {}"
  "ch \<noteq> ch' \<Longrightarrow> ch < 3 \<Longrightarrow> ch' < 3 \<Longrightarrow> channel_regs ch \<inter> channel_regs ch' = {}"
  "ch < 3 \<Longrightarrow> block 26 \<inter> channel_regs ch = {}" "ch < 3 \<Longrightarrow> block 34 \<inter> channel_regs ch = {}"
  "block (42 + 8 * ch) \<subseteq> channel_regs ch" "16 + ch \<in> channel_regs ch"
  by (auto simp: block_def channel_regs_def)

lemma setup_pll_cache_ok: "cache_ok s \<Longrightarrow> 26 \<le> unat src \<Longrightarrow> cache_ok (si5351_setup_pll src a n d s)"
  by (auto simp: cache_ok_def si5351_setup_pll_def Let_def split_def bulk_write_regs)

text \<open>What one channel keeps of the others.\<close>

lemma channel_step_frame:
  assumes "chip_step (channel_regs ch) s t" "ch < 3" "ch' < 3" "ch \<noteq> ch'"
  shows "reg_ratio (regs t) (42 + 8 * ch') = reg_ratio (regs s) (42 + 8 * ch')"
    "reg_rdiv (regs t) (42 + 8 * ch') = reg_rdiv (regs s) (42 + 8 * ch')" "regs t (16 + ch') = regs s (16 + ch')"
proof -
  have d: "channel_regs ch \<inter> channel_regs ch' = {}" using assms(2-4) regs_apart(5) by blast
  then have "channel_regs ch \<inter> block (42 + 8 * ch') = {}" using regs_apart(8) [of ch'] by blast
  from chip_step_block [OF assms(1) this]
  show "reg_ratio (regs t) (42 + 8 * ch') = reg_ratio (regs s) (42 + 8 * ch')"
    "reg_rdiv (regs t) (42 + 8 * ch') = reg_rdiv (regs s) (42 + 8 * ch')" by simp_all
  show "regs t (16 + ch') = regs s (16 + ch')" using chip_step_reg [OF assms(1)] d regs_apart(9) by blast
qed

lemma channel_step_plls:
  assumes "chip_step (channel_regs ch) s t" "ch < 3"
  shows "reg_ratio (regs t) 26 = reg_ratio (regs s) 26" "reg_ratio (regs t) 34 = reg_ratio (regs s) 34"
  using chip_step_block [OF assms(1) regs_apart(3) [OF assms(2)]] chip_step_block [OF assms(1) regs_apart(4) [OF assms(2)]] by simp_all

text \<open>The state of one output channel: its divider, its rate code and its source.\<close>

definition channel_is :: "si5351 \<Rightarrow> nat \<Rightarrow> real \<Rightarrow> nat \<Rightarrow> bool \<Rightarrow> bool" where
  "channel_is s ch ratio r pllb \<longleftrightarrow>
     reg_ratio (regs s) (42 + 8 * ch) = ratio \<and> reg_rdiv (regs s) (42 + 8 * ch) = r \<and> bit (regs s (16 + ch)) 5 = pllb"

lemma channel_is_frame:
  "channel_is s ch' q r p \<Longrightarrow> chip_step (channel_regs ch) s t \<Longrightarrow> ch < 3 \<Longrightarrow> ch' < 3 \<Longrightarrow> ch \<noteq> ch' \<Longrightarrow> channel_is t ch' q r p"
  using channel_step_frame by (simp add: channel_is_def)

lemma fixedpll_channel:
  fixes s :: si5351
  assumes "ch < 3" "0 < unat f" "5 * unat f \<le> unat F" "unat F < 2051 * unat f" "rdiv_used rdiv" "cache_ok s"
  obtains q where "channel_is (si5351_set_frequency_fixedpll ch F f rdiv c s) ch q (unat rdiv div 16) (bit c 5)"
    and "\<bar>real (unat F) / real (unat f) - q\<bar> \<le> 1 / 2 ^ 20" and "5 \<le> q"
    and "chip_step (channel_regs ch) s (si5351_set_frequency_fixedpll ch F f rdiv c s)"
    and "cache_ok (si5351_set_frequency_fixedpll ch F f rdiv c s)"
proof -
  have a: "5 \<le> unat F div unat f" using assms(2,3) by (metis div_le_mono mult.commute nonzero_mult_div_cancel_left not_less0)
  have b: "unat F div unat f \<le> 2050" using assms(2,4) less_mult_imp_div_less [of "unat F" 2051 "unat f"] by simp
  note e = fixedpll_effect [OF assms(1,2) a b assms(5), where s = s and c = c]
  from e(5) [OF assms(6)] obtain n where
    n: "cache_ok (si5351_set_frequency_fixedpll ch F f rdiv c s)"
    "regs (si5351_set_frequency_fixedpll ch F f rdiv c s) (16 + ch) = clk_byte n c" by blast
  show ?thesis using that [OF _ e(2,3,1) n(1)] e(4) n(2) by (simp add: channel_is_def clk_byte_bit5)
qed

text \<open>The frequency an output channel has, from the crystal.\<close>

definition channel_freq :: "si5351 \<Rightarrow> nat \<Rightarrow> real" where
  "channel_freq s ch = clk_out (xtal_freq s) (regs s) ch"

lemma channel_freq_is:
  "channel_is s ch q r p \<Longrightarrow>
     channel_freq s ch = real (unat (xtal_freq s)) * reg_ratio (regs s) (if p then 34 else 26) / (q * 2 ^ r)"
  by (auto simp: channel_freq_def clk_out_def pll_out_def channel_is_def)

section \<open>The fixed PLL mode\<close>

lemma pll_product:
  fixes x :: u32 and m :: u8
  assumes "xtal_ok x" "unat m \<le> 40"
  shows "unat ((1 :: u64) * ucast x * ucast (ucast m :: u32)) = unat x * unat m"
proof -
  have w: "unat (ucast y :: u64) = unat y" for y :: u32
    using u32_bound [of y] by (simp add: unsigned_ucast_eq take_bit_nat_eq_self)
  moreover have "unat x * unat m \<le> 28000000 * 40" using assms by (intro mult_le_mono) (simp_all add: xtal_ok_def)
  ultimately show ?thesis by (simp add: unat_word_ariths w del: unsigned_ucast_eq)
qed

lemma row_fixed_pll:
  assumes "row_ok b" "bs_mode b = SI5351_FIXED_PLL"
  shows "bs_mul b = 1" "bs_omul b = 1" "6 \<le> unat (bs_div b)" "unat (bs_div b) \<le> 40"
  using assms by (simp_all add: row_ok_def word_le_nat_alt)

lemma audio_clock_pll:
  assumes "xtal_ok (xtal_freq s)"
  shows "unat (ucast (xtal_freq s * PLL_N_2) :: u64) = 32 * unat (xtal_freq s)"
proof -
  have "unat (xtal_freq s * PLL_N_2) = 32 * unat (xtal_freq s)"
    using assms by (simp add: PLL_N_2_def unat_word_ariths xtal_ok_def)
  then show ?thesis using u32_bound [of "xtal_freq s * PLL_N_2"]
    by (simp only: unsigned_ucast_eq) (simp add: take_bit_nat_eq_self)
qed

text \<open>The PLLs and the audio output, programmed when the band changes.\<close>

lemma program_plls:
  assumes "row_ok b" "bs_mode b = SI5351_FIXED_PLL" "xtal_ok (xtal_freq s)" "cache_ok s"
  defines "t \<equiv> si5351_set_frequency_fixedpll 2 (ucast (xtal_freq s * PLL_N_2)) CLK2_FREQUENCY 0 0x20
    (si5351_setup_pll 34 PLL_N_2 0 1 (si5351_setup_pll 26 (ucast (bs_div b)) 0 1 s))"
  shows "chip_step synth_regs s t" "cache_ok t"
    "reg_ratio (regs t) 26 = real (unat (bs_div b))" "reg_ratio (regs t) 34 = 32"
proof -
  note b = row_fixed_pll [OF assms(1,2)]
  define u where "u = si5351_setup_pll 26 (ucast (bs_div b)) 0 1 s"
  define v where "v = si5351_setup_pll 34 PLL_N_2 0 1 u"
  have fr: "fraction_ok 0 1" by (simp add: fraction_ok_def)
  have u: "chip_step (block 26) s u" "reg_ratio (regs u) 26 = real (unat (bs_div b))"
    using setup_pll_effect [of "ucast (bs_div b)" 0 1 26 s, folded u_def] b fr by simp_all
  have v: "chip_step (block 34) u v" "reg_ratio (regs v) 34 = 32"
    using setup_pll_effect [of PLL_N_2 0 1 34 u, folded v_def] fr by (simp_all add: PLL_N_2_def)
  have v26: "reg_ratio (regs v) 26 = real (unat (bs_div b))"
    using chip_step_block [OF v(1) regs_apart(2)] u(2) by simp
  have cv: "cache_ok v" unfolding v_def u_def using assms(4) by (intro setup_pll_cache_ok) simp_all
  have t: "t = si5351_set_frequency_fixedpll 2 (ucast (xtal_freq s * PLL_N_2)) CLK2_FREQUENCY 0 0x20 v"
    by (simp only: t_def u_def v_def)
  have c: "unat CLK2_FREQUENCY = 8000000" "rdiv_used 0" by (simp_all add: CLK2_FREQUENCY_def rdiv_used_def)
  have "5 * unat CLK2_FREQUENCY \<le> unat (ucast (xtal_freq s * PLL_N_2) :: u64)"
    "unat (ucast (xtal_freq s * PLL_N_2) :: u64) < 2051 * unat CLK2_FREQUENCY"
    unfolding audio_clock_pll [OF assms(3)] using assms(3) c(1) by (simp_all add: xtal_ok_def)
  from fixedpll_channel [OF _ _ this c(2) cv, where ch = 2 and c = "0x20", folded t] c(1)
  have "chip_step (channel_regs 2) v t" and ct: "cache_ok t" by auto
  note wt = this(1)
  from chip_step_trans [OF chip_step_trans [OF u(1) v(1)] wt]
  show "chip_step synth_regs s t" by (rule chip_step_mono) (auto simp: synth_regs_def)
  show "cache_ok t" by (rule ct)
  show "reg_ratio (regs t) 26 = real (unat (bs_div b))" "reg_ratio (regs t) 34 = 32"
    using channel_step_plls [OF wt] v26 v(2) by simp_all
qed

lemma channel_error_fixed_pll:
  assumes "channel_is t ch q r False" "reg_ratio (regs t) 26 = real m" "ch < 3"
    and "0 < F" "F = unat (xtal_freq t) * m" "0 < f" "\<bar>real F / real f - q\<bar> \<le> 1 / 2 ^ 20" "5 \<le> q"
  shows "\<bar>channel_freq t ch * 2 ^ r - real f\<bar> \<le> real f / 2 ^ 22"
proof -
  have "channel_freq t ch * 2 ^ r = real F / q"
    unfolding channel_freq_is [OF assms(1)] using assms(2,5) by simp
  then show ?thesis using clk_out_fixed_pll [OF assms(4,6,7,8)] by simp
qed

lemma program_fixed_pll_outputs:
  fixes bnd :: nat and s :: si5351
  defines "b \<equiv> band_s s ! bnd"
  defines "F \<equiv> unat (xtal_freq s) * unat (bs_div b)"
  assumes b: "row_ok b" "bs_mode b = SI5351_FIXED_PLL"
    and x: "xtal_ok (xtal_freq s)" and ok: "cache_ok s" and rd: "rdiv_used rdiv"
    and ready: "change \<or> band_ready bnd s"
    and f: "0 < unat f" "5 * unat f \<le> F" "F < 2051 * unat f"
    and g: "0 < unat g" "5 * unat g \<le> F" "F < 2051 * unat g"
    and ds: "ds < 4" "ods < 4"
  defines "t \<equiv> program_fixed_pll bnd change ods ds rdiv f g s"
  shows "chip_step synth_regs s t \<and> cache_ok t \<and> band_ready bnd t \<and>
    \<bar>channel_freq t 1 * 2 ^ (unat rdiv div 16) - real (unat f)\<bar> \<le> real (unat f) / 2 ^ 22 \<and>
    \<bar>channel_freq t 0 * 2 ^ (unat rdiv div 16) - real (unat g)\<bar> \<le> real (unat g) / 2 ^ 22"
proof -
  note row = row_fixed_pll [OF b]
  define u where "u = (if change then
      si5351_set_frequency_fixedpll 2 (ucast (xtal_freq s * PLL_N_2)) CLK2_FREQUENCY 0 0x20
        (si5351_setup_pll 34 PLL_N_2 0 1 (si5351_setup_pll 26 (ucast (bs_div b)) 0 1 s)) else s)"
  have u: "chip_step synth_regs s u" "cache_ok u" "reg_ratio (regs u) 26 = real (unat (bs_div b))" "reg_ratio (regs u) 34 = 32"
    using program_plls [OF b x ok] chip_step_refl ok ready b(2) by (auto simp: u_def band_ready_def b_def)
  note uf = chip_step_fields [OF u(1)]
  let ?F = "(1 :: u64) * ucast (xtal_freq s) * ucast (ucast (bs_div b) :: u32)"
  have F: "unat ?F = F" using pll_product [OF x row(4)] by (simp only: F_def)
  define v where "v = si5351_set_frequency_fixedpll 0 ?F g rdiv ods u"
  have inner: "xtal_freq (si5351_setup_pll 34 PLL_N_2 0 1 (si5351_setup_pll 26 (ucast (bs_div b)) 0 1 s)) = xtal_freq s"
    by (simp add: si5351_setup_pll_def Let_def si5351_bulk_write_def split_def)
  obtain q where v: "channel_is v 0 q (unat rdiv div 16) False" "\<bar>real F / real (unat g) - q\<bar> \<le> 1 / 2 ^ 20" "5 \<le> q"
      "chip_step (channel_regs 0) u v" "cache_ok v"
    using fixedpll_channel [of 0 g ?F rdiv u, where c = ods, folded v_def, unfolded F] g rd u(2) small_drive_bits(1) [OF ds(2)]
    by auto
  note vf = chip_step_fields [OF v(4)]
  have "t = (let v' = si5351_set_frequency_fixedpll 0 (ucast (bs_omul b) * ucast (xtal_freq u) * ucast (ucast (bs_div b) :: u32)) g rdiv ods u
      in si5351_set_frequency_fixedpll 1 (ucast (bs_mul b) * ucast (xtal_freq v') * ucast (ucast (bs_div b) :: u32)) f rdiv ds v')"
    by (simp only: t_def program_fixed_pll_def Let_def u_def b_def inner [unfolded b_def])
  then have t: "t = si5351_set_frequency_fixedpll 1 ?F f rdiv ds v"
    using vf(7) by (simp only: row(1,2) uf(7) Let_def unsigned_1 flip: v_def)
  obtain p where p: "channel_is t 1 p (unat rdiv div 16) False" "\<bar>real F / real (unat f) - p\<bar> \<le> 1 / 2 ^ 20" "5 \<le> p"
      "chip_step (channel_regs 1) v t" "cache_ok t"
    using fixedpll_channel [of 1 f ?F rdiv v, where c = ds, folded t, unfolded F] f rd v(5) small_drive_bits(1) [OF ds(1)]
    by auto
  note tf = chip_step_fields [OF p(4)]
  have xt: "xtal_freq t = xtal_freq s" using uf vf tf by simp
  have plls: "reg_ratio (regs t) 26 = real (unat (bs_div b))" "reg_ratio (regs t) 34 = 32"
    using channel_step_plls [OF p(4)] channel_step_plls [OF v(4)] u(3,4) by simp_all
  have step: "chip_step synth_regs s t"
    by (rule chip_step_mono [OF chip_step_trans [OF chip_step_trans [OF u(1) v(4)] p(4)]]) (auto simp: synth_regs_def)
  have pos: "0 < F" using f(1,2) by linarith
  have "channel_is t 0 q (unat rdiv div 16) False" by (rule channel_is_frame [OF v(1) p(4)]) simp_all
  from channel_error_fixed_pll [OF this plls(1) _ pos _ g(1) v(2,3)]
  have "\<bar>channel_freq t 0 * 2 ^ (unat rdiv div 16) - real (unat g)\<bar> \<le> real (unat g) / 2 ^ 22" by (simp add: F_def xt)
  moreover from channel_error_fixed_pll [OF p(1) plls(1) _ pos _ f(1) p(2,3)]
  have "\<bar>channel_freq t 1 * 2 ^ (unat rdiv div 16) - real (unat f)\<bar> \<le> real (unat f) / 2 ^ 22" by (simp add: F_def xt)
  moreover have "band_ready bnd t"
    using plls b(2) tf(5) vf(5) uf(5) by (simp add: band_ready_def b_def Let_def)
  ultimately show ?thesis using step p(5) by simp
qed

section \<open>The fixed divider mode\<close>

lemma row_fixed_mult:
  assumes "row_ok b" "bs_mode b = SI5351_FIXED_MULT"
  shows "1 \<le> unat (bs_mul b)" "unat (bs_mul b) \<le> 13" "1 \<le> unat (bs_omul b)" "unat (bs_omul b) \<le> 13"
    "unat (bs_div b) \<in> {4, 6, 8}"
  using assms by (auto simp: row_ok_def word_le_nat_alt SI5351_FIXED_PLL_def SI5351_FIXED_MULT_def)

lemma mult_product:
  fixes f :: u32 and m :: u8
  shows "unat ((ucast f :: u64) * ucast (ucast m :: u32)) = unat f * unat m"
proof -
  have w: "unat (ucast y :: u64) = unat y" for y :: u32
    using u32_bound [of y] by (simp add: unsigned_ucast_eq take_bit_nat_eq_self)
  have "unat f * unat m \<le> 4294967296 * 256" using u32_bound [of f] u8_bound [of m] by (intro mult_le_mono) simp_all
  then show ?thesis by (simp add: unat_word_ariths w del: unsigned_ucast_eq)
qed

lemma channel_error_fixed_mult:
  assumes "channel_is t ch (real d) 0 p" "reg_ratio (regs t) (if p then 34 else 26) = r"
    and "0 < d" "0 < m" "0 < unat (xtal_freq t)"
    and "\<bar>real (f * d) / (real (unat (xtal_freq t)) * real m) - r\<bar> \<le> 1 / 2 ^ 20"
  shows "\<bar>real m * channel_freq t ch - real f\<bar> \<le> real m * real (unat (xtal_freq t)) / (real d * 2 ^ 20)"
proof -
  define X where "X = real (unat (xtal_freq t))"
  have pos: "0 < real d" "0 < real m" "0 < X" using assms(3-5) by (simp_all only: X_def of_nat_0_less_iff)
  have "real m * channel_freq t ch - real f = (real m * X / real d) * (r - real f * real d / (X * real m))"
    unfolding channel_freq_is [OF assms(1)] assms(2) X_def [symmetric] using pos by (simp add: field_simps)
  then have "\<bar>real m * channel_freq t ch - real f\<bar> = (real m * X / real d) * \<bar>r - real f * real d / (X * real m)\<bar>"
    using pos by (simp add: abs_mult)
  also have "\<dots> \<le> (real m * X / real d) * (1 / 2 ^ 20)"
    using assms(6) pos by (intro mult_left_mono) (simp_all add: X_def [symmetric] abs_minus_commute)
  finally show ?thesis by (simp add: X_def)
qed

text \<open>Programming one PLL for a multiple of a frequency.\<close>

lemma mult_pll:
  fixes s :: si5351 and f :: u32 and m d :: u8 and src :: u8
  assumes "xtal_ok (xtal_freq s)" "1 \<le> unat m" "unat m \<le> 13"
    and "4 * (unat (xtal_freq s) * unat m) \<le> unat f * unat d" "unat f * unat d < 2051 * (unat (xtal_freq s) * unat m)"
  defines "t \<equiv> si5351_setup_pll_freq src (ucast f * ucast (ucast d :: u32)) (ucast m) s"
  shows "chip_step (block (unat src)) s t"
    and "\<bar>real (unat f * unat d) / (real (unat (xtal_freq s)) * real (unat m)) - reg_ratio (regs t) (unat src)\<bar> \<le> 1 / 2 ^ 20"
proof -
  let ?x = "unat (xtal_freq s) * unat m"
  have "?x \<le> 28000000 * 13" using assms(1,3) by (intro mult_le_mono) (simp_all add: xtal_ok_def)
  then have a: "unat (xtal_freq s) * unat (ucast m :: u32) < 4294967296" by simp
  have b: "0 < unat (xtal_freq s) * unat (ucast m :: u32)" using assms(1,2) by (simp add: xtal_ok_def)
  have c: "4 \<le> unat f * unat d div ?x" using assms(4) b by (simp add: less_eq_div_iff_mult_less_eq)
  have e: "unat f * unat d div ?x \<le> 2050" using less_mult_imp_div_less [OF assms(5)] by simp
  note p = pll_freq_effect [OF a b, where src = src and F = "ucast f * ucast (ucast d :: u32)",
      unfolded mult_product unat_widen, folded t_def]
  from p [OF c e] show "chip_step (block (unat src)) s t"
    "\<bar>real (unat f * unat d) / (real (unat (xtal_freq s)) * real (unat m)) - reg_ratio (regs t) (unat src)\<bar> \<le> 1 / 2 ^ 20"
    by simp_all
qed

lemma setup_pll_freq_cache_ok: "cache_ok s \<Longrightarrow> 26 \<le> unat src \<Longrightarrow> cache_ok (si5351_setup_pll_freq src F m s)"
  by (auto simp: si5351_setup_pll_freq_def Let_def split_def intro: setup_pll_cache_ok)

text \<open>The two output dividers, written when the divisor differs from the one of the old band.\<close>

lemma mult_dividers:
  fixes s :: si5351 and d ds ods :: u8
  assumes "unat d \<in> {4, 6, 8}" "cache_ok s" "ds < 4" "ods < 4"
  defines "t \<equiv> si5351_setupMultisynth 1 (ucast d) 0 1 0 (ds OR 0x20) (si5351_setupMultisynth 0 (ucast d) 0 1 0 ods s)"
  shows "chip_step (channel_regs 0 \<union> channel_regs 1) s t" "cache_ok t"
    "channel_is t 0 (real (unat d)) 0 False" "channel_is t 1 (real (unat d)) 0 True"
proof -
  define u where "u = si5351_setupMultisynth 0 (ucast d) 0 1 0 ods s"
  have a: "4 \<le> unat (ucast d :: u32)" "unat (ucast d :: u32) \<le> 2050" "fraction_ok 0 1" "rdiv_used 0"
    using assms(1) by (auto simp: fraction_ok_def rdiv_used_def)
  have v: "(if (ucast d :: u32) = 4 then 4 else real (unat (ucast d :: u32)) + real (unat (0 :: u32)) / real (unat (1 :: u32))) = real (unat d)"
  proof -
    have "unat d = 4" if "(ucast d :: u32) = 4"
    proof -
      have "unat (ucast d :: u32) = 4" using that by simp
      then show ?thesis by (simp only: unat_widen)
    qed
    then show ?thesis by simp
  qed
  note e = setupMultisynth_effect [where n = 0 and d = 1 and rdiv = 0, OF _ a(1,2,3) _ a(4), unfolded v]
  have u: "chip_step (channel_regs 0) s u" "channel_is u 0 (real (unat d)) 0 False" "cache_ok u"
    using e [where ch = 0 and c = ods and s = s] assms(2) small_drive_bits(1) [OF assms(4)] by (simp_all add: u_def channel_is_def clk_byte_bit5)
  have t: "chip_step (channel_regs 1) u t" "channel_is t 1 (real (unat d)) 0 True" "cache_ok t"
    using e [where ch = 1 and c = "ds OR 0x20" and s = u] u(3) small_drive_bits(2) by (simp_all add: t_def u_def [symmetric] channel_is_def clk_byte_bit5)
  show "chip_step (channel_regs 0 \<union> channel_regs 1) s t" by (rule chip_step_trans [OF u(1) t(1)])
  show "cache_ok t" "channel_is t 1 (real (unat d)) 0 True" by (rule t)+
  show "channel_is t 0 (real (unat d)) 0 False" by (rule channel_is_frame [OF u(2) t(1)]) simp_all
qed

lemma program_fixed_mult_outputs:
  fixes cur bnd :: nat and s :: si5351
  defines "b \<equiv> band_s s ! bnd" and "X \<equiv> unat (xtal_freq s)"
  assumes b: "row_ok b" "bs_mode b = SI5351_FIXED_MULT"
    and x: "xtal_ok (xtal_freq s)" and ok: "cache_ok s"
    and ready: "bs_div (band_s s ! cur) \<noteq> bs_div b \<or> band_ready bnd s"
    and f: "4 * (X * unat (bs_mul b)) \<le> unat f * unat (bs_div b)"
      "unat f * unat (bs_div b) < 2051 * (8000000 * unat (bs_mul b))"
    and g: "4 * (X * unat (bs_omul b)) \<le> unat g * unat (bs_div b)" "unat g * unat (bs_div b) < 2051 * (X * unat (bs_omul b))"
    and ds: "ds < 4" "ods < 4"
  defines "t \<equiv> program_fixed_mult cur bnd ods ds f g s"
  shows "chip_step synth_regs s t \<and> cache_ok t \<and> band_ready bnd t \<and>
    \<bar>real (unat (bs_mul b)) * channel_freq t 1 - real (unat f)\<bar>
      \<le> real (unat (bs_mul b)) * real X / (real (unat (bs_div b)) * 2 ^ 20) \<and>
    \<bar>real (unat (bs_omul b)) * channel_freq t 0 - real (unat g)\<bar>
      \<le> real (unat (bs_omul b)) * real X / (real (unat (bs_div b)) * 2 ^ 20)"
proof -
  note row = row_fixed_mult [OF b]
  let ?d = "bs_div b" and ?m = "bs_mul b" and ?o = "bs_omul b"
  define u where "u = si5351_setup_pll_freq 26 (ucast g * ucast (ucast ?d :: u32)) (ucast ?o) s"
  define v where "v = si5351_setup_pll_freq 34 (ucast f * ucast (ucast ?d :: u32)) (ucast ?m) u"
  define w where "w = (if bs_div (band_s s ! cur) \<noteq> ?d
    then si5351_setupMultisynth 1 (ucast ?d) 0 1 0 (ds OR 0x20) (si5351_setupMultisynth 0 (ucast ?d) 0 1 0 ods v) else v)"
  have f': "unat f * unat ?d < 2051 * (X * unat ?m)"
  proof -
    have "8000000 * unat ?m \<le> X * unat ?m" using x by (intro mult_right_mono) (simp_all add: X_def xtal_ok_def)
    with f(2) show ?thesis by linarith
  qed
  have u: "chip_step (block 26) s u" "\<bar>real (unat g * unat ?d) / (real X * real (unat ?o)) - reg_ratio (regs u) 26\<bar> \<le> 1 / 2 ^ 20"
    using mult_pll [of s ?o g ?d 26, folded u_def X_def] x row(3,4) g by simp_all
  note uf = chip_step_fields [OF u(1)]
  have v: "chip_step (block 34) u v" "\<bar>real (unat f * unat ?d) / (real X * real (unat ?m)) - reg_ratio (regs v) 34\<bar> \<le> 1 / 2 ^ 20"
    using mult_pll [of u ?m f ?d 34, folded v_def] x row(1,2) f(1) f' uf(7) by (simp_all add: X_def)
  have v26: "reg_ratio (regs v) 26 = reg_ratio (regs u) 26" by (rule chip_step_block [OF v(1) regs_apart(2)])
  note vf = chip_step_fields [OF v(1)]
  have cv: "cache_ok v" unfolding v_def u_def using ok by (intro setup_pll_freq_cache_ok) simp_all
  have sv: "chip_step (block 26 \<union> block 34) s v" by (rule chip_step_trans [OF u(1) v(1)])
  have w: "chip_step (channel_regs 0 \<union> channel_regs 1) v w" "cache_ok w"
    "channel_is w 0 (real (unat ?d)) 0 False" "channel_is w 1 (real (unat ?d)) 0 True"
  proof -
    have "channel_is v 0 (real (unat ?d)) 0 False" "channel_is v 1 (real (unat ?d)) 0 True" if "band_ready bnd s"
    proof -
      have "channel_is s 0 (real (unat ?d)) 0 False" "channel_is s 1 (real (unat ?d)) 0 True"
        using that b(2) by (simp_all add: band_ready_def channel_is_def b_def [symmetric] Let_def SI5351_FIXED_PLL_def SI5351_FIXED_MULT_def)
      moreover have "(block 26 \<union> block 34) \<inter> channel_regs ch = {}" if "ch < 3" for ch
        using regs_apart(6,7) [OF that] by blast
      then have "(block 26 \<union> block 34) \<inter> block (42 + 8 * ch) = {}" "16 + ch \<notin> block 26 \<union> block 34" if "ch < 3" for ch
        using regs_apart(8,9) that by blast+
      then have "channel_is s ch q r p \<Longrightarrow> channel_is v ch q r p" if "ch < 3" for ch q r p
        using chip_step_block [OF sv] chip_step_reg [OF sv] that by (simp add: channel_is_def)
      ultimately show "channel_is v 0 (real (unat ?d)) 0 False" "channel_is v 1 (real (unat ?d)) 0 True" by simp_all
    qed
    then show "chip_step (channel_regs 0 \<union> channel_regs 1) v w" "cache_ok w"
      "channel_is w 0 (real (unat ?d)) 0 False" "channel_is w 1 (real (unat ?d)) 0 True"
      using mult_dividers [OF row(5) cv ds] ready cv chip_step_refl by (auto simp: w_def)
  qed
  note wf = chip_step_fields [OF w(1)]
  have t: "t = si5351_set_frequency_fixedpll 2 (ucast f * ucast (ucast ?d :: u32)) (CLK2_FREQUENCY * ucast ?m) 0 0x20 w"
    using uf(5) vf(5) by (simp only: t_def program_fixed_mult_def Let_def w_def v_def u_def b_def)
  have c2: "unat (CLK2_FREQUENCY * ucast ?m) = 8000000 * unat ?m"
    using row(2) by (simp add: CLK2_FREQUENCY_def unat_word_ariths)
  have "8000000 * unat ?m * 5 \<le> 4 * (X * unat ?m)" using x by (simp add: X_def xtal_ok_def)
  then have "5 * (8000000 * unat ?m) \<le> unat f * unat ?d" using f(1) by linarith
  then have F: "5 * unat (CLK2_FREQUENCY * ucast ?m) \<le> unat ((ucast f :: u64) * ucast (ucast ?d :: u32))"
    "unat ((ucast f :: u64) * ucast (ucast ?d :: u32)) < 2051 * unat (CLK2_FREQUENCY * ucast ?m)"
    using f(2) by (simp_all add: c2 mult_product)
  have "0 < unat (CLK2_FREQUENCY * ucast ?m)" using row(1) by (simp add: c2)
  from fixedpll_channel [OF _ this F _ w(2), where ch = 2 and c = "0x20" and rdiv = 0, folded t]
  have t2: "chip_step (channel_regs 2) w t" "cache_ok t" by (auto simp: rdiv_used_def)
  note tf = chip_step_fields [OF t2(1)]
  have xt: "xtal_freq t = xtal_freq s" using uf(7) vf(7) wf(7) tf(7) by simp
  have plls: "reg_ratio (regs t) 26 = reg_ratio (regs u) 26" "reg_ratio (regs t) 34 = reg_ratio (regs v) 34"
  proof -
    have "(channel_regs 0 \<union> channel_regs 1) \<inter> block 26 = {}" "(channel_regs 0 \<union> channel_regs 1) \<inter> block 34 = {}"
      using regs_apart(3,4) by (simp_all add: Int_Un_distrib2)
    from chip_step_block(1) [OF w(1) this(1)] chip_step_block(1) [OF w(1) this(2)] channel_step_plls [OF t2(1)] v26
    show "reg_ratio (regs t) 26 = reg_ratio (regs u) 26" "reg_ratio (regs t) 34 = reg_ratio (regs v) 34" by simp_all
  qed
  have chans: "channel_is t 0 (real (unat ?d)) 0 False" "channel_is t 1 (real (unat ?d)) 0 True"
    using channel_is_frame [OF w(3) t2(1)] channel_is_frame [OF w(4) t2(1)] by simp_all
  have step: "chip_step synth_regs s t"
    by (rule chip_step_mono [OF chip_step_trans [OF chip_step_trans [OF sv w(1)] t2(1)]]) (auto simp: synth_regs_def)
  have pos: "0 < unat ?d" "0 < unat ?m" "0 < unat ?o" "0 < unat (xtal_freq t)"
    using row x xt by (auto simp: xtal_ok_def)
  have "band_ready bnd t"
    using chans b(2) uf(5) vf(5) wf(5) tf(5)
    by (simp add: band_ready_def channel_is_def b_def Let_def SI5351_FIXED_PLL_def SI5351_FIXED_MULT_def)
  moreover have "\<bar>real (unat ?m) * channel_freq t 1 - real (unat f)\<bar> \<le> real (unat ?m) * real X / (real (unat ?d) * 2 ^ 20)"
    using channel_error_fixed_mult [OF chans(2) _ pos(1,2,4), of "reg_ratio (regs v) 34" "unat f"] v(2) plls(2) xt by (simp add: X_def)
  moreover have "\<bar>real (unat ?o) * channel_freq t 0 - real (unat g)\<bar> \<le> real (unat ?o) * real X / (real (unat ?d) * 2 ^ 20)"
    using channel_error_fixed_mult [OF chans(1) _ pos(1,3,4), of "reg_ratio (regs u) 26" "unat g"] u(2) plls(1) xt by (simp add: X_def)
  ultimately show ?thesis using step t2(2) by simp
qed

section \<open>The whole operation\<close>

lemma lvl_loop_spec:
  "lvl_loop freq th bs i = Some j \<Longrightarrow>
     i \<le> j \<and> j - i < length bs \<and> freq \<le> band_limit th (bs ! (j - i)) \<and> (\<forall>k < j - i. band_limit th (bs ! k) < freq)"
proof (induction bs arbitrary: i)
  case Nil
  then show ?case by simp
next
  case (Cons b bs)
  show ?case
  proof (cases "freq \<le> band_limit th b")
    case True
    with Cons.prems show ?thesis by simp
  next
    case False
    with Cons.prems have r: "lvl_loop freq th bs (Suc i) = Some j" by simp
    note ih = Cons.IH [OF r]
    then obtain m where m: "j = Suc (i + m)" by (metis le_iff_add add_Suc)
    have "j - i = Suc m" "j - Suc i = m" using m by simp_all
    with ih False show ?thesis by (auto simp: m nth_Cons split: nat.splits)
  qed
qed

theorem harmonic_level_first:
  assumes "si5351_get_harmonic_lvl freq s = Some i"
  shows "i < length (band_s s) \<and>
    freq \<le> band_limit (clamp_harmonic_threshold (harmonic_freq_threshold s)) (band_s s ! i) \<and>
    (\<forall>k < i. band_limit (clamp_harmonic_threshold (harmonic_freq_threshold s)) (band_s s ! k) < freq)"
  using lvl_loop_spec [of freq _ "band_s s" 0 i] assms by (simp add: si5351_get_harmonic_lvl_def)

lemma band_table_shape:
  assumes "t \<in> set band_tables"
  shows "bs_freq (t ! 0) = 0" "bs_div (t ! 0) = 0" "3 \<le> length t" "length t \<le> 16" "unat (bs_freq (t ! 1)) \<le> 32000"
    "bs_mode (t ! 1) = SI5351_FIXED_PLL" "bs_mode (t ! 2) = SI5351_FIXED_PLL"
proof -
  have "list_all (\<lambda>t. bs_freq (t ! 0) = 0 \<and> bs_div (t ! 0) = 0 \<and> 3 \<le> length t \<and> length t \<le> 16 \<and> unat (bs_freq (t ! 1)) \<le> 32000 \<and>
      bs_mode (t ! 1) = SI5351_FIXED_PLL \<and> bs_mode (t ! 2) = SI5351_FIXED_PLL) band_tables"
    by (simp add: band_tables_def band_strategy_33H_SI5351_def band_strategy_H4_SI5351_def band_strategy_36H_MS5351_def
        band_strategy_SWC5351_def band_def)
  with assms show "bs_freq (t ! 0) = 0" "bs_div (t ! 0) = 0" "3 \<le> length t" "length t \<le> 16" "unat (bs_freq (t ! 1)) \<le> 32000"
    "bs_mode (t ! 1) = SI5351_FIXED_PLL" "bs_mode (t ! 2) = SI5351_FIXED_PLL"
    by (simp_all add: list_all_iff)
qed

lemma push_small:
  fixes x :: u32
  assumes "unat x * 2 ^ k < 4294967296" "k < 32"
  shows "unat (push_bit k x) = unat x * 2 ^ k"
  using assms by (simp add: unsigned_push_bit_eq push_bit_nat_def take_bit_nat_eq_self)

text \<open>The state the choice of a drive level leaves.\<close>

definition powered :: "u8 \<Rightarrow> si5351 \<Rightarrow> si5351" where
  "powered p s = (if current_power s \<noteq> p then (si5351_reset_cache s)\<lparr>current_power := p\<rparr> else s)"

lemma select_band_ok:
  assumes t: "band_s s \<in> set band_tables" and f: "f \<noteq> 0" "unat f \<le> 4294000000" and o: "unat (if_offset s) \<le> 96000"
    and sel: "select_band f p s = Some (rdiv, p', f', g', bnd)"
  shows "0 < unat bnd \<and> unat bnd < length (band_s s) \<and> rdiv_used rdiv \<and> (rdiv = 0 \<or> bnd = 1 \<or> bnd = 2) \<and>
    unat f' = unat f * 2 ^ (unat rdiv div 16) \<and> unat g' = (unat f + unat (if_offset s)) * 2 ^ (unat rdiv div 16)"
proof -
  note sh = band_table_shape [OF t]
  have g: "unat (f + if_offset s) = unat f + unat (if_offset s)"
    using f(2) o by (simp add: unat_word_ariths)
  consider (low) "f < bs_freq (band_s s ! 1)" "rdiv = push_bit 4 7" "f' = push_bit 7 f" "g' = push_bit 7 (f + if_offset s)" "bnd = 1"
    | (mid) "f \<le> 1000000" "rdiv = push_bit 4 4" "f' = push_bit 4 f" "g' = push_bit 4 (f + if_offset s)" "bnd = 2"
    | (high) lvl where "rdiv = 0" "f' = f" "g' = f + if_offset s" "bnd = of_nat lvl" "si5351_get_harmonic_lvl f s = Some lvl"
    using sel by (auto simp: select_band_def Let_def split: if_splits)
  then show "0 < unat bnd \<and> unat bnd < length (band_s s) \<and> rdiv_used rdiv \<and> (rdiv = 0 \<or> bnd = 1 \<or> bnd = 2) \<and>
    unat f' = unat f * 2 ^ (unat rdiv div 16) \<and> unat g' = (unat f + unat (if_offset s)) * 2 ^ (unat rdiv div 16)"
  proof (cases)
    case low
    have "unat f < 32000" using low(1) sh(5) by (simp add: word_less_nat_alt)
    then have "unat f' = unat f * 2 ^ 7" "unat g' = (unat f + unat (if_offset s)) * 2 ^ 7"
      unfolding low(3,4) using o g by (simp_all add: push_small)
    moreover have "rdiv = 0x70" using low(2) by simp
    moreover have "1 < length (band_s s)" using sh(3) by linarith
    ultimately show ?thesis by (simp add: rdiv_used_def low(5))
  next
    case mid
    have "unat f \<le> 1000000" using mid(1) by (simp add: word_le_nat_alt)
    then have "unat f' = unat f * 2 ^ 4" "unat g' = (unat f + unat (if_offset s)) * 2 ^ 4"
      unfolding mid(3,4) using o g by (simp_all add: push_small)
    moreover have "rdiv = 0x40" using mid(2) by simp
    moreover have "2 < length (band_s s)" using sh(3) by linarith
    ultimately show ?thesis by (simp add: rdiv_used_def mid(5))
  next
    case high
    have l: "lvl < length (band_s s)" "f \<le> band_limit (clamp_harmonic_threshold (harmonic_freq_threshold s)) (band_s s ! lvl)"
      using lvl_loop_spec [of f _ "band_s s" 0 lvl] high(5) by (simp_all add: si5351_get_harmonic_lvl_def)
    have "lvl \<noteq> 0"
    proof
      assume "lvl = 0"
      with l(2) sh(1) have "f \<le> 0" by (simp add: band_limit_def)
      with f(1) show False by simp
    qed
    moreover have "unat bnd = lvl" using high(4) l(1) sh(4) by (simp add: unat_of_nat)
    ultimately show ?thesis using l(1) high g by (simp add: rdiv_used_def)
  qed
qed

text \<open>
  The registers a band relies on are in place, or the change of band programs them: a fixed
  PLL band always does, a fixed divider band only when the divisor of the old band differs.
\<close>

definition prepared :: "u8 \<Rightarrow> si5351 \<Rightarrow> bool" where
  "prepared bnd s \<longleftrightarrow> band_ready (unat bnd) s \<or>
     current_band s \<noteq> bnd \<and>
       (bs_mode (band_s s ! unat bnd) = SI5351_FIXED_PLL \<or>
        bs_div (band_s s ! unat (current_band s)) \<noteq> bs_div (band_s s ! unat bnd))"

text \<open>The dividers stay in the 18 bits of the chip.\<close>

definition in_range :: "band_strategy \<Rightarrow> nat \<Rightarrow> nat \<Rightarrow> nat \<Rightarrow> bool" where
  "in_range b X f g \<longleftrightarrow>
     (if bs_mode b = SI5351_FIXED_PLL
      then 5 * f \<le> X * unat (bs_div b) \<and> X * unat (bs_div b) < 2051 * f \<and>
           5 * g \<le> X * unat (bs_div b) \<and> X * unat (bs_div b) < 2051 * g
      else 4 * (X * unat (bs_mul b)) \<le> f * unat (bs_div b) \<and> f * unat (bs_div b) < 2051 * (8000000 * unat (bs_mul b)) \<and>
           4 * (X * unat (bs_omul b)) \<le> g * unat (bs_div b) \<and> g * unat (bs_div b) < 2051 * (X * unat (bs_omul b)))"

definition tolerance :: "band_strategy \<Rightarrow> u8 \<Rightarrow> nat \<Rightarrow> nat \<Rightarrow> real" where
  "tolerance b m X f =
     (if bs_mode b = SI5351_FIXED_PLL then real f / 2 ^ 22
      else real (unat m) * real X / (real (unat (bs_div b)) * 2 ^ 20))"

lemma scaled_error:
  fixes c f :: real
  assumes "\<bar>c * 2 ^ k - f * 2 ^ k\<bar> \<le> f * 2 ^ k / K"
  shows "\<bar>c - f\<bar> \<le> f / K"
proof -
  have "\<bar>c - f\<bar> * 2 ^ k = \<bar>c * 2 ^ k - f * 2 ^ k\<bar>" by (simp add: abs_mult flip: left_diff_distrib)
  with assms have "\<bar>c - f\<bar> * 2 ^ k \<le> (f / K) * 2 ^ k" by simp
  then show ?thesis by (rule mult_right_le_imp_le) simp
qed

lemma program_band_outputs:
  fixes s :: si5351 and bnd :: u8 and rdiv :: u32
  defines "b \<equiv> band_s s ! unat bnd" and "X \<equiv> unat (xtal_freq s)" and "k \<equiv> unat rdiv div 16"
  assumes b: "row_ok b" and x: "xtal_ok (xtal_freq s)" and ok: "cache_ok s" and rd: "rdiv_used rdiv"
    and ready: "prepared bnd s" and f: "f \<noteq> 0" "unat f' = unat f * 2 ^ k" "unat g' = g * 2 ^ k" "0 < g"
    and k: "bs_mode b = SI5351_FIXED_PLL \<or> k = 0"
    and range: "in_range b X (unat f') (unat g')"
    and r: "program_band (unat bnd) p rdiv f' g' s = (d, t)"
  shows "chip_step synth_regs s t \<and> cache_ok t \<and> band_ready (unat bnd) t \<and>
    \<bar>real (unat (bs_mul b)) * channel_freq t 1 - real (unat f)\<bar> \<le> tolerance b (bs_mul b) X (unat f) \<and>
    \<bar>real (unat (bs_omul b)) * channel_freq t 0 - real g\<bar> \<le> tolerance b (bs_omul b) X g"
proof -
  obtain ds ods where d: "(if 3 < p then (bs_pow b, bs_opow b) else (p, p)) = (ds, ods)" by fastforce
  have "ds < 4" "ods < 4"
  proof -
    have "p < 4" if "\<not> 3 < p" using that by (simp add: word_less_nat_alt not_less)
    then show "ds < 4" "ods < 4" using d b by (auto simp: row_ok_def split: if_splits)
  qed
  note drive = this and r' = r [unfolded program_band_def Let_def, folded b_def, unfolded d prod.case]
  have pos: "0 < unat f'" "0 < unat g'" using f by (simp_all add: unat_gt_0)
  show ?thesis
  proof (cases "bs_mode b = SI5351_FIXED_PLL")
    case True
    note row = row_fixed_pll [OF b True]
    have t: "t = program_fixed_pll (unat bnd) (unat (current_band s) \<noteq> unat bnd) ods ds rdiv f' g' s"
      using r' True by simp
    have "unat (current_band s) \<noteq> unat bnd \<or> band_ready (unat bnd) s" using ready by (auto simp: prepared_def word_unat_eq_iff)
    from program_fixed_pll_outputs [of s "unat bnd", folded b_def X_def, OF b True x ok rd this pos(1) _ _ pos(2) _ _ drive] range True
    have o: "chip_step synth_regs s t" "cache_ok t" "band_ready (unat bnd) t"
      "\<bar>channel_freq t 1 * 2 ^ k - real (unat f')\<bar> \<le> real (unat f') / 2 ^ 22"
      "\<bar>channel_freq t 0 * 2 ^ k - real (unat g')\<bar> \<le> real (unat g') / 2 ^ 22"
      by (simp_all add: t in_range_def k_def)
    have "\<bar>channel_freq t 1 - real (unat f)\<bar> \<le> real (unat f) / 2 ^ 22" "\<bar>channel_freq t 0 - real g\<bar> \<le> real g / 2 ^ 22"
      using scaled_error [of "channel_freq t 1" k "real (unat f)" "2 ^ 22"] scaled_error [of "channel_freq t 0" k "real g" "2 ^ 22"]
        o(4,5) f(2,3) by simp_all
    with o(1-3) show ?thesis using True row(1,2) by (simp add: tolerance_def)
  next
    case False
    then have m: "bs_mode b = SI5351_FIXED_MULT" using b by (simp add: row_ok_def)
    have t: "t = program_fixed_mult (unat (current_band s)) (unat bnd) ods ds f' g' s"
      using r' False m by simp
    have "bs_div (band_s s ! unat (current_band s)) \<noteq> bs_div b \<or> band_ready (unat bnd) s"
      using ready False by (auto simp: prepared_def b_def)
    from program_fixed_mult_outputs [of s "unat bnd", folded b_def X_def, OF b m x ok this _ _ _ _ drive] range False
    have "chip_step synth_regs s t \<and> cache_ok t \<and> band_ready (unat bnd) t \<and>
      \<bar>real (unat (bs_mul b)) * channel_freq t 1 - real (unat f')\<bar> \<le> real (unat (bs_mul b)) * real X / (real (unat (bs_div b)) * 2 ^ 20) \<and>
      \<bar>real (unat (bs_omul b)) * channel_freq t 0 - real (unat g')\<bar> \<le> real (unat (bs_omul b)) * real X / (real (unat (bs_div b)) * 2 ^ 20)"
      by (simp add: t in_range_def)
    then show ?thesis using False k f(2,3) by (simp add: tolerance_def)
  qed
qed

lemma powered_fields:
  "regs (powered p s) = regs s" "clk_cache (powered p s) = clk_cache s" "band_s (powered p s) = band_s s"
  "xtal_freq (powered p s) = xtal_freq s" "if_offset (powered p s) = if_offset s" "current_power (powered p s) = p"
  by (simp_all add: powered_def si5351_reset_cache_def)

text \<open>A change of the drive level empties the cache, so that every band is prepared.\<close>

lemma powered_prepared:
  assumes "band_s s \<in> set band_tables" "current_power s \<noteq> p" "0 < unat bnd" "unat bnd < length (band_s s)"
  shows "prepared bnd (powered p s)"
proof -
  have "row_ok (band_s s ! unat bnd)" by (rule band_table_row [OF assms(1,3,4)])
  then have "bs_mode (band_s s ! unat bnd) = SI5351_FIXED_PLL \<or> bs_div (band_s s ! unat bnd) \<noteq> 0"
    by (auto simp: row_ok_def split: if_splits)
  moreover have "bnd \<noteq> 0" using assms(3) by auto
  ultimately show ?thesis using assms(2) band_table_shape(2) [OF assms(1)]
    by (auto simp: prepared_def powered_def si5351_reset_cache_def)
qed

lemma set_frequency_runs:
  assumes "f \<noteq> 0" "select_band f p s = Some (rdiv, p', f', g', bnd)" "f' \<noteq> current_freq (powered p' s)"
    and "si5351_set_frequency f p s = Some (d, s')"
  obtains d0 u t where "u = (if current_band (powered p' s) \<noteq> bnd
      then band_change_gain (unat (current_band (powered p' s))) (unat bnd) (powered p' s) else powered p' s)"
    and "program_band (unat bnd) p' rdiv f' g' u = (d0, t)"
    and "current_freq s' = f'" and "xtal_freq s' = xtal_freq t" and "band_s s' = band_s t"
    and "clk_cache s' = clk_cache t" and "\<forall>i. i \<noteq> 177 \<longrightarrow> regs s' i = regs t i"
    and "current_band t = current_band u \<longrightarrow> current_band s' = bnd \<and>
      (if current_band u = bnd then d = d0 \<and> pending_settling_cycles s' = pending_settling_cycles t
       else d = DELAY_BANDCHANGE \<and> pending_settling_cycles s' = 1)"
proof -
  define u where "u = (if current_band (powered p' s) \<noteq> bnd
      then band_change_gain (unat (current_band (powered p' s))) (unat bnd) (powered p' s) else powered p' s)"
  obtain d0 t where r: "program_band (unat bnd) p' rdiv f' g' u = (d0, t)" by fastforce
  have cb: "current_band (band_change_gain i j x) = current_band x" for i j x by (simp add: band_change_gain_def)
  have "si5351_set_frequency f p s =
    (let (delay, s) = (if current_band t \<noteq> bnd then
           let s = si5351_reset_pll (0x20 OR 0x80) t in (DELAY_BANDCHANGE, s\<lparr>pending_settling_cycles := 1, current_band := bnd\<rparr>)
         else (d0, t)) in Some (delay, s\<lparr>current_freq := f'\<rparr>))"
    using assms(1-3) r
    by (simp only: si5351_set_frequency_def powered_def [symmetric] option.case prod.case Let_def u_def [symmetric] if_False split: if_split)
  note eq = this
  show ?thesis
  proof (cases "current_band t = bnd")
    case True
    then have "s' = t\<lparr>current_freq := f'\<rparr>" "d = d0" using eq assms(4) by (simp_all add: Let_def)
    then show ?thesis using True by (intro that [OF u_def r]) simp_all
  next
    case False
    then have "s' = (si5351_reset_pll (0x20 OR 0x80) t)\<lparr>pending_settling_cycles := 1, current_band := bnd, current_freq := f'\<rparr>"
      "d = DELAY_BANDCHANGE" using eq assms(4) by (simp_all add: Let_def)
    then show ?thesis using False
      by (intro that [OF u_def r]) (auto simp: si5351_reset_pll_def si5351_write_def si5351_bulk_write_def)
  qed
qed

lemma band_change_gain_fields:
  "regs (band_change_gain i j s) = regs s" "clk_cache (band_change_gain i j s) = clk_cache s"
  "band_s (band_change_gain i j s) = band_s s" "xtal_freq (band_change_gain i j s) = xtal_freq s"
  "current_band (band_change_gain i j s) = current_band s" "current_freq (band_change_gain i j s) = current_freq s"
  by (simp_all add: band_change_gain_def)

text \<open>The predicates only read the registers, the crystal and the table.\<close>

lemma predicates_cong:
  fixes s t :: si5351
  assumes "\<And>i. i \<noteq> 177 \<Longrightarrow> regs s i = regs t i" "clk_cache s = clk_cache t" "band_s s = band_s t" "xtal_freq s = xtal_freq t"
  shows "cache_ok s = cache_ok t" "band_ready n s = band_ready n t" "ch < 3 \<Longrightarrow> channel_freq s ch = channel_freq t ch"
proof -
  have b: "reg_ratio (regs s) x = reg_ratio (regs t) x" "reg_rdiv (regs s) x = reg_rdiv (regs t) x" if "x \<le> 58" for x
    using assms(1) that by (auto intro!: reg_block_cong simp: block_def)
  show "cache_ok s = cache_ok t" using assms by (simp add: cache_ok_def)
  show "band_ready n s = band_ready n t" using assms b by (simp add: band_ready_def)
  show "channel_freq s ch = channel_freq t ch" if "ch < 3"
    using assms b that by (simp add: channel_freq_def clk_out_def pll_out_def)
qed

text \<open>
  C5 Setting a frequency up to 4.294 GHz with one of the four band tables, on caches that mirror the
  registers, programs the chip for it: read back from the registers
  and the crystal, the wanted harmonic of each output differs from the frequency, shifted by the
  intermediate frequency on the other output, by no more than the rounding of the divider in use,
  and the caches mirror the registers again.

  That holds under three conditions, outside of which the code does not reach the frequency. The frequency or the power
  is new: a request equal to the cached frequency, which for low bands is a shifted one, is skipped
  (\<open>shifted_frequency_collides\<close>). The registers the new band relies on are in place or the change
  of band writes them (\<open>prepared\<close>): it is the case in the same band, from the start, after a
  change of power and by \<open>prepared_next\<close> after every other change but one, from a fixed PLL band to a fixed divider
  band with the same number, where the old dividers stay (\<open>stale_dividers\<close>). The dividers
  fit the 18 bits of the chip (\<open>in_range\<close>): below about 792 Hz they do not (\<open>divider_truncated\<close>).
\<close>

theorem set_frequency_outputs:
  assumes t: "band_s s \<in> set band_tables" and x: "xtal_ok (xtal_freq s)" and ok: "cache_ok s"
    and o: "unat (if_offset s) \<le> 96000" and f: "f \<noteq> 0" "unat f \<le> 4294000000"
    and sel: "select_band f p s = Some (rdiv, p', f', g', bnd)"
    and new: "current_power s \<noteq> p' \<or> f' \<noteq> current_freq s"
    and ready: "current_power s \<noteq> p' \<or> prepared bnd s"
    and range: "in_range (band_s s ! unat bnd) (unat (xtal_freq s)) (unat f') (unat g')"
    and run: "si5351_set_frequency f p s = Some (d, s')"
  shows "let b = band_s s ! unat bnd; X = unat (xtal_freq s) in
    \<bar>real (unat (bs_mul b)) * channel_freq s' 1 - real (unat f)\<bar> \<le> tolerance b (bs_mul b) X (unat f) \<and>
    \<bar>real (unat (bs_omul b)) * channel_freq s' 0 - real (unat f + unat (if_offset s))\<bar>
      \<le> tolerance b (bs_omul b) X (unat f + unat (if_offset s)) \<and>
    cache_ok s' \<and> current_band s' = bnd \<and> band_ready (unat bnd) s' \<and> prepared bnd s'"
proof -
  note so = select_band_ok [OF t f o sel]
  have fp: "0 < unat f'" using so f(1) by (simp add: unat_gt_0)
  have cf: "f' \<noteq> current_freq (powered p' s)"
    using new fp by (auto simp: powered_def si5351_reset_cache_def)
  have pr: "prepared bnd (powered p' s)"
  proof (cases "current_power s = p'")
    case True
    then show ?thesis using ready by (simp add: powered_def)
  next
    case False
    then show ?thesis using so by (intro powered_prepared [OF t]) simp_all
  qed
  obtain d0 u v where u: "u = (if current_band (powered p' s) \<noteq> bnd
      then band_change_gain (unat (current_band (powered p' s))) (unat bnd) (powered p' s) else powered p' s)"
    and r: "program_band (unat bnd) p' rdiv f' g' u = (d0, v)"
    and s': "current_freq s' = f'" "xtal_freq s' = xtal_freq v" "band_s s' = band_s v" "clk_cache s' = clk_cache v"
      "\<forall>i. i \<noteq> 177 \<longrightarrow> regs s' i = regs v i"
    and cb: "current_band v = current_band u \<longrightarrow> current_band s' = bnd \<and>
      (if current_band u = bnd then d = d0 \<and> pending_settling_cycles s' = pending_settling_cycles v
       else d = DELAY_BANDCHANGE \<and> pending_settling_cycles s' = 1)"
    by (rule set_frequency_runs [OF f(1) sel cf run]) (rule that, assumption+)
  have uf: "regs u = regs s" "clk_cache u = clk_cache s" "band_s u = band_s s" "xtal_freq u = xtal_freq s"
    "current_band u = current_band (powered p' s)"
    by (simp_all add: u powered_fields band_change_gain_fields)
  have b: "row_ok (band_s u ! unat bnd)" using band_table_row [OF t] so uf(3) by simp
  have cu: "cache_ok u" using ok by (simp add: cache_ok_def uf)
  have "band_ready (unat bnd) u = band_ready (unat bnd) (powered p' s)"
    by (rule predicates_cong(2)) (simp_all add: uf powered_fields)
  then have pu: "prepared bnd u" using pr by (simp add: prepared_def uf powered_fields)
  have k: "bs_mode (band_s u ! unat bnd) = SI5351_FIXED_PLL \<or> unat rdiv div 16 = 0"
    using so band_table_shape(6,7) [OF t] uf(3) by auto
  have g: "unat g' = (unat f + unat (if_offset s)) * 2 ^ (unat rdiv div 16)" "0 < unat f + unat (if_offset s)"
    using so f(1) by (simp_all add: unat_gt_0)
  note out = program_band_outputs [OF b _ cu _ pu f(1) _ g(1) g(2) k _ r]
  have out: "chip_step synth_regs u v \<and> cache_ok v \<and> band_ready (unat bnd) v \<and>
    \<bar>real (unat (bs_mul (band_s s ! unat bnd))) * channel_freq v 1 - real (unat f)\<bar>
      \<le> tolerance (band_s s ! unat bnd) (bs_mul (band_s s ! unat bnd)) (unat (xtal_freq s)) (unat f) \<and>
    \<bar>real (unat (bs_omul (band_s s ! unat bnd))) * channel_freq v 0 - real (unat f + unat (if_offset s))\<bar>
      \<le> tolerance (band_s s ! unat bnd) (bs_omul (band_s s ! unat bnd)) (unat (xtal_freq s)) (unat f + unat (if_offset s))"
    using out x so range by (simp add: uf)
  note vf = chip_step_fields [OF out [THEN conjunct1]]
  note same = predicates_cong [OF s'(5) [rule_format] s'(4,3,2)]
  have "current_band s' = bnd" using cb vf(1) by simp
  with out same show ?thesis by (simp add: Let_def prepared_def)
qed

text \<open>
  What the operation leaves prepares the next band too, with one exception: from a fixed PLL
  band to a fixed divider band whose \<open>div\<close> is the same number as its \<open>pll_n\<close>.
\<close>

theorem prepared_next:
  assumes "band_s s \<in> set band_tables" "0 < unat bnd" "unat bnd < length (band_s s)"
    and "current_band s = 0 \<or> unat (current_band s) < length (band_s s) \<and> band_ready (unat (current_band s)) s"
    and "\<not> (bs_mode (band_s s ! unat (current_band s)) = SI5351_FIXED_PLL \<and>
            bs_mode (band_s s ! unat bnd) = SI5351_FIXED_MULT \<and>
            bs_div (band_s s ! unat (current_band s)) = bs_div (band_s s ! unat bnd))"
  shows "prepared bnd s"
proof (cases "current_band s = 0 \<or> current_band s = bnd")
  case True
  have "row_ok (band_s s ! unat bnd)" by (rule band_table_row [OF assms(1-3)])
  then have "bs_mode (band_s s ! unat bnd) = SI5351_FIXED_PLL \<or> bs_div (band_s s ! unat bnd) \<noteq> 0"
    by (auto simp: row_ok_def split: if_splits)
  then show ?thesis using True assms(2,4) band_table_shape(2) [OF assms(1)] by (auto simp: prepared_def)
next
  case False
  then have c: "0 < unat (current_band s)" "unat (current_band s) < length (band_s s)" "band_ready (unat (current_band s)) s"
    using assms(4) by (auto simp: unat_gt_0)
  have "row_ok (band_s s ! unat bnd)" "row_ok (band_s s ! unat (current_band s))"
    using band_table_row [OF assms(1)] assms(2,3) c(1,2) by blast+
  then show ?thesis using False assms(5) c(3)
    by (auto simp: prepared_def band_ready_def row_ok_def Let_def SI5351_FIXED_PLL_def SI5351_FIXED_MULT_def split: if_splits)
qed

lemma set_frequency_total:
  "select_band f p s = Some x \<Longrightarrow> \<exists>d s'. si5351_set_frequency f p s = Some (d, s')"
  by (cases x) (auto simp: si5351_set_frequency_def Let_def split_def)

text \<open>The driver after start: the static variables, a given table and the settings.\<close>

definition si5351_boot :: "band_strategy list \<Rightarrow> u32 \<Rightarrow> u32 \<Rightarrow> si5351" where
  "si5351_boot bands offset threshold =
     \<lparr>current_band = 0, current_power = 0, current_freq = 0, pending_settling_cycles = 0, clk_cache = (\<lambda>_. 0),
      band_s = bands, if_offset = offset, xtal_freq = XTALFREQ, harmonic_freq_threshold = threshold,
      regs = (\<lambda>_. 0), codec_gain = (0, 0), dsp_offset = offset\<rparr>"

text \<open>The hypotheses hold for 50 MHz from the start: the output is within 12 Hz of it.\<close>

theorem set_frequency_outputs_witness:
  "case si5351_set_frequency 50000000 255 (si5351_boot band_strategy_33H_SI5351 12000 300000100) of None \<Rightarrow> False
   | Some (d, s') \<Rightarrow> \<bar>channel_freq s' 1 - 50000000\<bar> \<le> 12 \<and> \<bar>channel_freq s' 0 - 50012000\<bar> \<le> 12"
proof -
  let ?s = "si5351_boot band_strategy_33H_SI5351 12000 300000100"
  have sel: "select_band 50000000 255 ?s = Some (0, 255, 50000000, 50012000, 2)" by code_simp
  obtain d s' where run: "si5351_set_frequency 50000000 255 ?s = Some (d, s')" using set_frequency_total [OF sel] by blast
  have b: "band_s ?s = band_strategy_33H_SI5351" "xtal_freq ?s = 26000000" "if_offset ?s = 12000" "current_power ?s = 0" "cache_ok ?s"
    by (simp_all add: si5351_boot_def XTALFREQ_def cache_ok_def)
  have row: "band_strategy_33H_SI5351 ! 2 = band 100000000 SI5351_FIXED_PLL 32 1 1 0 0 0 0 1"
    by (simp add: band_strategy_33H_SI5351_def)
  have "let b = band_s ?s ! unat (2 :: u8); X = unat (xtal_freq ?s) in
    \<bar>real (unat (bs_mul b)) * channel_freq s' 1 - real (unat (50000000 :: u32))\<bar> \<le> tolerance b (bs_mul b) X (unat (50000000 :: u32)) \<and>
    \<bar>real (unat (bs_omul b)) * channel_freq s' 0 - real (unat (50000000 :: u32) + unat (if_offset ?s))\<bar>
      \<le> tolerance b (bs_omul b) X (unat (50000000 :: u32) + unat (if_offset ?s)) \<and>
    cache_ok s' \<and> current_band s' = 2 \<and> band_ready (unat (2 :: u8)) s' \<and> prepared 2 s'"
    by (rule set_frequency_outputs [OF _ _ _ _ _ _ sel _ _ _ run])
      (simp_all add: b row xtal_ok_def in_range_def band_def band_tables_def SI5351_FIXED_PLL_def)
  then have "\<bar>channel_freq s' 1 - 50000000\<bar> \<le> 50000000 / 2 ^ 22" "\<bar>channel_freq s' 0 - 50012000\<bar> \<le> 50012000 / 2 ^ 22"
    by (simp_all add: b row band_def tolerance_def SI5351_FIXED_PLL_def Let_def)
  then show ?thesis using run by simp
qed

section \<open>Bands for every frequency\<close>

lemma lvl_loop_none: "lvl_loop freq th bs i = None \<longleftrightarrow> (\<forall>b \<in> set bs. band_limit th b < freq)"
  by (induction bs arbitrary: i) (auto simp: not_le)

text \<open>
  C38 Every frequency up to eleven times the threshold has a band, in every table; above the
  largest limit of the table the scan runs past its end.
\<close>

theorem harmonic_level_total:
  assumes "band_s s \<in> set band_tables"
    and "unat freq \<le> 11 * unat (clamp_harmonic_threshold (harmonic_freq_threshold s))"
  shows "\<exists>i. si5351_get_harmonic_lvl freq s = Some i"
proof -
  let ?th = "clamp_harmonic_threshold (harmonic_freq_threshold s)"
  have "list_all (\<lambda>t. bs_freq (last t) = 11 \<and> t \<noteq> []) band_tables"
    by (simp add: band_tables_def band_strategy_33H_SI5351_def band_strategy_H4_SI5351_def band_strategy_36H_MS5351_def
        band_strategy_SWC5351_def band_def)
  then have l: "bs_freq (last (band_s s)) = 11" "last (band_s s) \<in> set (band_s s)"
    using assms(1) by (auto simp: list_all_iff)
  have w: "unat ((11 :: u64) * ucast ?th) = 11 * unat ?th"
    using u32_bound [of ?th] by (simp add: unat_word_ariths unsigned_ucast_eq take_bit_nat_eq_self)
  have "freq \<le> band_limit ?th (last (band_s s))"
  proof (cases "(0xFFFFFFFF :: u64) < 11 * ucast ?th")
    case True
    moreover have "freq \<le> 0xFFFFFFFF" using u32_bound [of freq] by (simp add: word_le_nat_alt)
    ultimately show ?thesis by (simp add: band_limit_def l(1) Let_def)
  next
    case False
    then have "11 * unat ?th \<le> 4294967295" using w by (simp add: word_less_nat_alt)
    then have "unat (ucast ((11 :: u64) * ucast ?th) :: u32) = 11 * unat ?th"
      using w by (subst unsigned_ucast_eq) (simp add: take_bit_nat_eq_self)
    with False assms(2) show ?thesis by (simp add: band_limit_def l(1) Let_def word_le_nat_alt)
  qed
  then have "si5351_get_harmonic_lvl freq s \<noteq> None"
    using l(2) by (auto simp: si5351_get_harmonic_lvl_def lvl_loop_none not_le intro!: bexI)
  then show ?thesis by blast
qed

theorem harmonic_level_total_witness:
  "\<exists>i. si5351_get_harmonic_lvl 2700000000 (si5351_boot band_strategy_36H_MS5351 12000 300000100) = Some i"
  by (rule harmonic_level_total)
    (simp_all add: si5351_boot_def band_tables_def clamp_harmonic_threshold_def)

text \<open>With a threshold the shell accepts, 2.7 GHz has no row: the scan leaves the table.\<close>

theorem harmonic_level_overrun:
  "si5351_get_harmonic_lvl 2700000000 (si5351_boot band_strategy_36H_MS5351 12000 200000000) = None"
  by code_simp

section \<open>Across calls\<close>

definition set_frequencies :: "(u32 \<times> u8) list \<Rightarrow> si5351 \<Rightarrow> si5351 option" where
  "set_frequencies fs s =
     foldl (\<lambda>m (f, p). case m of None \<Rightarrow> None | Some s \<Rightarrow> map_option snd (si5351_set_frequency f p s)) (Some s) fs"

definition output_regs :: "si5351 \<Rightarrow> u8 list" where
  "output_regs s = map (regs s) ([16, 17] @ [26..<66])"

text \<open>
  The cached frequency is the shifted one, so that 1.28 MHz after 80 kHz is taken for the
  frequency already set and nothing is written.
\<close>

theorem shifted_frequency_collides:
  "(case set_frequencies [(80000, 255)] (si5351_boot band_strategy_33H_SI5351 12000 300000100) of None \<Rightarrow> False
    | Some s \<Rightarrow> (case si5351_set_frequency 1280000 255 s of None \<Rightarrow> False
        | Some (d, s') \<Rightarrow> d = DELAY_CHANNEL_CHANGE \<and> output_regs s' = output_regs s \<and> reg_rdiv (regs s') 50 = 4))"
  by code_simp

text \<open>
  A power change while 80 kHz are generated asks for the shifted frequency: the outputs move
  to 1.28 MHz.
\<close>

theorem set_power_retunes:
  "(case set_frequencies [(80000, 255)] (si5351_boot band_strategy_33H_SI5351 12000 300000100) of None \<Rightarrow> False
    | Some s \<Rightarrow> (case si5351_set_power 3 s of None \<Rightarrow> False
        | Some s' \<Rightarrow> map_option output_regs (set_frequencies [(1280000, 3)] (si5351_boot band_strategy_33H_SI5351 12000 300000100))
            = Some (output_regs s')))"
  by code_simp

text \<open>
  From the fixed PLL band below 26 kHz (\<open>pll_n = 8\<close>) to the fixed divider band above 100 MHz
  (\<open>div = 8\<close>) the dividers are not written: the outputs keep the divisors of the low band.
\<close>

theorem stale_dividers:
  "(case set_frequencies [(25000, 0), (120000000, 0)] (si5351_boot band_strategy_33H_SI5351 12000 300000100) of None \<Rightarrow> False
    | Some s \<Rightarrow> reg_rdiv (regs s) 50 = 7 \<and> \<not> bit (regs s 17) 5) \<and>
   (case set_frequencies [(120000000, 0)] (si5351_boot band_strategy_33H_SI5351 12000 300000100) of None \<Rightarrow> False
    | Some s \<Rightarrow> reg_rdiv (regs s) 50 = 0 \<and> bit (regs s 17) 5)"
  by code_simp

text \<open>
  The drive strengths of a row are written with the dividers only: two neighbouring rows with
  the same divisor keep the strength of the first one. At 700 MHz the H4 table asks for 8 mA.
\<close>

theorem drive_strength_depends_on_history:
  "(case set_frequencies [(700000000, 255)] (si5351_boot band_strategy_H4_SI5351 12000 300000100) of None \<Rightarrow> False
    | Some s \<Rightarrow> take_bit 2 (regs s 17) = 3) \<and>
   (case set_frequencies [(590000000, 255), (700000000, 255)] (si5351_boot band_strategy_H4_SI5351 12000 300000100) of None \<Rightarrow> False
    | Some s \<Rightarrow> take_bit 2 (regs s 17) = 1)"
  by code_simp

text \<open>Below about 792 Hz the divider does not fit its 18 bits and the chip divides by less.\<close>

theorem divider_truncated:
  "(case set_frequencies [(700, 0)] (si5351_boot band_strategy_33H_SI5351 12000 300000100) of None \<Rightarrow> False
    | Some s \<Rightarrow> map (regs s) [52, 53, 54] = [0x70, 134, 182]) \<and>
   (0 * 65536 + 134 * 256 + 182 + 512) div 128 = (273 :: nat) \<and> 26000000 * 8 div (700 * 128) = (2321 :: nat)"
  by (rule conjI, code_simp, simp)

section \<open>Waiting\<close>

text \<open>
  The wait ends: with at least a millisecond per turn there are at most 100 reads, and at the
  end both PLLs are locked or the timeout of 100 ms is over. \<open>e k\<close> is the time elapsed.
\<close>

theorem wait_pll_lock_ends:
  assumes "\<And>k. now k = t0 + of_nat (e k)" "e 0 = 0" "\<And>k. e k + 100 \<le> e (Suc k)"
    and "\<And>k. k \<le> 100 \<Longrightarrow> unat t0 + e k < 4294967296" "unat t0 + 10000 < 4294967296"
  shows "\<exists>n. si5351_wait_pll_lock status now = Some n \<and> 0 < n \<and> n \<le> 100 \<and>
    (status (n - 1) AND 0x60 = 0 \<or> 10000 \<le> e n)"
proof -
  let ?b = "\<lambda>k. status k AND 0x60 \<noteq> 0 \<and> now (Suc k) < now 0 + 10000"
  have e: "100 * k \<le> e k" for k
  proof (induction k)
    case 0
    then show ?case by simp
  next
    case (Suc k)
    then show ?case using assms(3) [of k] by simp
  qed
  have n: "unat (now k) = unat t0 + e k" if "k \<le> 100" for k
    unfolding assms(1) using assms(4) [OF that] by (simp add: unat_word_ariths unat_of_nat)
  have lim: "unat (now 0 + 10000) = unat t0 + 10000" using n [of 0] assms(2,5) by (simp add: unat_word_ariths)
  have late: "now (Suc k) < now 0 + 10000 \<longleftrightarrow> e (Suc k) < 10000" if "k < 100" for k
    using n [of "Suc k"] lim that by (simp add: word_less_nat_alt)
  have step: "Suc k \<le> 99" if "k \<le> 99" "?b k" for k
  proof -
    have "e (Suc k) < 10000" using late [of k] that by simp
    then show ?thesis using e [of "Suc k"] by simp
  qed
  have "\<exists>t. while_option ?b Suc 0 = Some t"
    by (rule measure_while_option_Some [where P = "\<lambda>k. k \<le> 99" and f = "\<lambda>k. 99 - k"]) (use step in force)+
  then obtain t where t: "while_option ?b Suc 0 = Some t" by blast
  have "t \<le> 99" by (rule while_option_rule [OF _ t]) (use step in blast, simp)
  moreover have "\<not> ?b t" by (rule while_option_stop [OF t])
  ultimately have t: "while_option ?b Suc 0 = Some t" "t \<le> 99" "\<not> ?b t" using t by simp_all
  then have "status t AND 0x60 = 0 \<or> 10000 \<le> e (Suc t)" using late [of t] by (auto simp: not_less)
  then show ?thesis using t(1,2) by (intro exI [of _ "Suc t"]) (simp add: si5351_wait_pll_lock_def Let_def)
qed

theorem wait_pll_lock_ends_witness:
  "\<exists>n. si5351_wait_pll_lock (\<lambda>_. 0xFF) (\<lambda>k. 5000 + of_nat (100 * k)) = Some n \<and> 0 < n \<and> n \<le> 100 \<and>
    (0xFF AND (0x60 :: u8) = 0 \<or> 10000 \<le> 100 * n)"
  by (rule wait_pll_lock_ends [of _ 5000 "\<lambda>k. 100 * k" "\<lambda>_. 0xFF"]) simp_all

text \<open>Near the wrap of the system time the timeout lies behind: one read, without a lock.\<close>

theorem wait_pll_lock_wraps:
  "si5351_wait_pll_lock (\<lambda>_. 0xFF) (\<lambda>k. 4294960000 + of_nat (100 * k)) = Some 1"
  by (simp add: si5351_wait_pll_lock_def while_option_unfold)

end
