(* ===== verification/Board_Events.thy ===== *)
theory Board_Events
  imports Nvx_Prelude
begin

text \<open>
  \<open>src/src/driver/board_events.c\<close>: the button and touch events the interrupt handlers publish and
  the main loop dispatches. One saturating counter and the last channel per topic; no queue. An
  object or a listener that may be \<open>NULL\<close> is an option; a listener is a name, and calling it is
  recorded.
\<close>

section \<open>Data and operations\<close>

definition BOARD_EVENT_BUTTON :: nat where "BOARD_EVENT_BUTTON = 0"
definition BOARD_EVENT_TOUCH :: nat where "BOARD_EVENT_TOUCH = 1"
definition BOARD_EVENT_COUNT :: nat where "BOARD_EVENT_COUNT = 2"

lemmas board_topics = BOARD_EVENT_BUTTON_def BOARD_EVENT_TOUCH_def BOARD_EVENT_COUNT_def

record board_event =
  be_topic :: nat
  be_channel :: u16

record board_events =
  be_listeners :: "nat option list"
  be_listener_data :: "u32 list"
  pending_channels :: "u16 list"
  pending_counts :: "u8 list"

text \<open>A call \<open>listener(event, data)\<close>.\<close>

type_synonym board_call = "nat \<times> board_event \<times> u32"

fun board_events_init_from :: "nat list \<Rightarrow> board_events \<Rightarrow> board_events" where
  "board_events_init_from [] es = es"
| "board_events_init_from (i # is) es =
     board_events_init_from is
       (es\<lparr>be_listeners := (be_listeners es)[i := None], be_listener_data := (be_listener_data es)[i := 0],
           pending_channels := (pending_channels es)[i := 0], pending_counts := (pending_counts es)[i := 0]\<rparr>)"

definition board_events_init :: "board_events option \<Rightarrow> board_events option" where
  "board_events_init events = map_option (board_events_init_from [0..<BOARD_EVENT_COUNT]) events"

definition board_events_subscribe ::
    "board_events option \<Rightarrow> nat \<Rightarrow> nat option \<Rightarrow> u32 \<Rightarrow> bool \<times> board_events option" where
  "board_events_subscribe events topic listener user_data =
     (case events of None \<Rightarrow> (False, events)
      | Some es \<Rightarrow>
          if listener = None then (False, events)
          else if topic \<ge> BOARD_EVENT_COUNT then (False, events)
          else (True, Some (es\<lparr>be_listeners := (be_listeners es)[topic := listener],
                              be_listener_data := (be_listener_data es)[topic := user_data]\<rparr>)))"

definition board_events_store_event :: "board_events option \<Rightarrow> board_event option \<Rightarrow> board_events option" where
  "board_events_store_event events event =
     (case (events, event) of
        (Some es, Some ev) \<Rightarrow>
          let topic = be_topic ev in
          if topic \<ge> BOARD_EVENT_COUNT then events
          else
            let es = es\<lparr>pending_channels := (pending_channels es)[topic := be_channel ev]\<rparr>
            in Some (if pending_counts es ! topic < 255
                     then es\<lparr>pending_counts := (pending_counts es)[topic := pending_counts es ! topic + 1]\<rparr>
                     else es)
      | _ \<Rightarrow> events)"

definition board_events_publish :: "board_events option \<Rightarrow> board_event option \<Rightarrow> bool \<times> board_events option" where
  "board_events_publish events event = (True, board_events_store_event events event)"

definition board_events_publish_from_isr ::
    "board_events option \<Rightarrow> board_event option \<Rightarrow> bool \<times> board_events option" where
  "board_events_publish_from_isr events event = (True, board_events_store_event events event)"

text \<open>One turn of the loop: a pending event is taken off the counter even without a listener.\<close>

definition board_dispatch_turn :: "nat \<Rightarrow> board_events \<Rightarrow> board_events \<times> board_call list" where
  "board_dispatch_turn i es =
     (let count = pending_counts es ! i;
          es = (if count > 0 then es\<lparr>pending_counts := (pending_counts es)[i := count - 1]\<rparr> else es)
      in if count = 0 then (es, [])
         else case be_listeners es ! i of None \<Rightarrow> (es, [])
              | Some listener \<Rightarrow> (es, [(listener, \<lparr>be_topic = i, be_channel = pending_channels es ! i\<rparr>, be_listener_data es ! i)]))"

fun board_dispatch_from :: "nat list \<Rightarrow> board_events \<Rightarrow> board_events \<times> board_call list" where
  "board_dispatch_from [] es = (es, [])"
| "board_dispatch_from (i # is) es =
     (case board_dispatch_turn i es of (es, c) \<Rightarrow> case board_dispatch_from is es of (es, cs) \<Rightarrow> (es, c @ cs))"

definition board_events_dispatch :: "board_events option \<Rightarrow> bool \<times> board_events option \<times> board_call list" where
  "board_events_dispatch events =
     (case events of None \<Rightarrow> (False, None, [])
      | Some es \<Rightarrow> case board_dispatch_from [0..<BOARD_EVENT_COUNT] es of (es, calls) \<Rightarrow> (calls \<noteq> [], Some es, calls))"

definition board_events_pending_mask :: "board_events option \<Rightarrow> u32" where
  "board_events_pending_mask events =
     (case events of None \<Rightarrow> 0
      | Some es \<Rightarrow> fold (\<lambda>i mask. if pending_counts es ! i > 0 then mask OR push_bit i 1 else mask) [0..<BOARD_EVENT_COUNT] 0)"

section \<open>The counters\<close>

definition board_ok :: "board_events \<Rightarrow> bool" where
  "board_ok es \<longleftrightarrow> length (be_listeners es) = 2 \<and> length (be_listener_data es) = 2 \<and>
     length (pending_channels es) = 2 \<and> length (pending_counts es) = 2"

definition pending :: "board_events \<Rightarrow> nat \<Rightarrow> nat" where
  "pending es i = unat (pending_counts es ! i)"

lemma u8_plus_one: "(x :: u8) < 255 \<Longrightarrow> unat (x + 1) = unat x + 1"
  by (simp add: word_less_nat_alt unat_word_ariths)

lemma u8_minus_one: "(x :: u8) \<noteq> 0 \<Longrightarrow> unat (x - 1) = unat x - 1"
  by (simp add: unat_minus_one)

lemma two_topics: "[0..<BOARD_EVENT_COUNT] = [0, Suc 0]"
  by (simp add: BOARD_EVENT_COUNT_def numeral_2_eq_2)

lemma store_event_pending:
  assumes "board_ok es" "be_topic ev < BOARD_EVENT_COUNT"
  obtains es' where "board_events_store_event (Some es) (Some ev) = Some es'" "board_ok es'"
    "be_listeners es' = be_listeners es" "be_listener_data es' = be_listener_data es"
    "pending es' (be_topic ev) = min 255 (pending es (be_topic ev) + 1)"
    "pending_channels es' ! be_topic ev = be_channel ev"
    "\<And>j. j \<noteq> be_topic ev \<Longrightarrow> pending es' j = pending es j \<and> pending_channels es' ! j = pending_channels es ! j"
proof -
  let ?t = "be_topic ev"
  let ?es = "es\<lparr>pending_channels := (pending_channels es)[?t := be_channel ev]\<rparr>"
  let ?es' = "if pending_counts ?es ! ?t < 255
     then ?es\<lparr>pending_counts := (pending_counts es)[?t := pending_counts es ! ?t + 1]\<rparr> else ?es"
  have t: "?t < 2" using assms(2) by (simp add: BOARD_EVENT_COUNT_def)
  show ?thesis
  proof (rule that [of ?es'])
    show "board_events_store_event (Some es) (Some ev) = Some ?es'"
      using assms(2) by (simp add: board_events_store_event_def Let_def)
    show "board_ok ?es'" using assms(1) by (simp add: board_ok_def)
    show "pending ?es' ?t = min 255 (pending es ?t + 1)"
      using assms(1) t u8_bound [of "pending_counts es ! ?t"]
      by (auto simp: board_ok_def pending_def u8_plus_one word_less_nat_alt min_def)
    show "pending_channels ?es' ! ?t = be_channel ev" using assms(1) t by (simp add: board_ok_def)
    show "pending ?es' j = pending es j \<and> pending_channels ?es' ! j = pending_channels es ! j" if "j \<noteq> ?t" for j
      using that by (simp add: pending_def)
  qed simp_all
qed

text \<open>One dispatch takes one event of every topic that has any.\<close>

lemma dispatch_turn_pending:
  assumes "board_ok es" "i < 2"
  obtains es' calls where "board_dispatch_turn i es = (es', calls)" "board_ok es'"
    "be_listeners es' = be_listeners es" "be_listener_data es' = be_listener_data es" "pending_channels es' = pending_channels es"
    "pending es' i = pending es i - 1" "\<And>j. j \<noteq> i \<Longrightarrow> pending es' j = pending es j"
    "calls = (case be_listeners es ! i of None \<Rightarrow> []
       | Some l \<Rightarrow> if pending es i = 0 then []
                  else [(l, \<lparr>be_topic = i, be_channel = pending_channels es ! i\<rparr>, be_listener_data es ! i)])"
proof -
  have z: "(pending_counts es ! i = 0) = (pending es i = 0)" by (simp add: pending_def unat_eq_0)
  have z': "(pending_counts es ! i > 0) = (pending es i \<noteq> 0)" using z by (metis word_neq_0_conv)
  show ?thesis
    by (rule that [of "fst (board_dispatch_turn i es)" "snd (board_dispatch_turn i es)"])
      (use assms z in \<open>auto simp: board_dispatch_turn_def Let_def board_ok_def pending_def u8_minus_one word_gt_0 z'
         split: option.split\<close>)
qed

definition calls_of :: "board_events \<Rightarrow> nat \<Rightarrow> board_call list" where
  "calls_of es i =
     (case be_listeners es ! i of None \<Rightarrow> []
      | Some l \<Rightarrow> [(l, \<lparr>be_topic = i, be_channel = pending_channels es ! i\<rparr>, be_listener_data es ! i)])"

lemma dispatch_result:
  assumes "board_ok es"
  obtains es' calls where "board_events_dispatch (Some es) = (calls \<noteq> [], Some es', calls)" "board_ok es'"
    "be_listeners es' = be_listeners es" "be_listener_data es' = be_listener_data es" "pending_channels es' = pending_channels es"
    "pending es' 0 = pending es 0 - 1" "pending es' 1 = pending es 1 - 1"
    "calls = (if pending es 0 = 0 then [] else calls_of es 0) @ (if pending es 1 = 0 then [] else calls_of es 1)"
proof -
  obtain e1 c1 where 1: "board_dispatch_turn 0 es = (e1, c1)" "board_ok e1"
    "be_listeners e1 = be_listeners es" "be_listener_data e1 = be_listener_data es" "pending_channels e1 = pending_channels es"
    "pending e1 0 = pending es 0 - 1" "\<And>j. j \<noteq> 0 \<Longrightarrow> pending e1 j = pending es j"
    "c1 = (case be_listeners es ! 0 of None \<Rightarrow> []
       | Some l \<Rightarrow> if pending es 0 = 0 then []
                  else [(l, \<lparr>be_topic = 0, be_channel = pending_channels es ! 0\<rparr>, be_listener_data es ! 0)])"
    by (rule dispatch_turn_pending [OF assms, of 0]) (simp, rule that, assumption+)
  obtain e2 c2 where 2: "board_dispatch_turn 1 e1 = (e2, c2)" "board_ok e2"
    "be_listeners e2 = be_listeners e1" "be_listener_data e2 = be_listener_data e1" "pending_channels e2 = pending_channels e1"
    "pending e2 1 = pending e1 1 - 1" "\<And>j. j \<noteq> 1 \<Longrightarrow> pending e2 j = pending e1 j"
    "c2 = (case be_listeners e1 ! 1 of None \<Rightarrow> []
       | Some l \<Rightarrow> if pending e1 1 = 0 then []
                  else [(l, \<lparr>be_topic = 1, be_channel = pending_channels e1 ! 1\<rparr>, be_listener_data e1 ! 1)])"
    by (rule dispatch_turn_pending [OF 1(2), of 1]) (simp, rule that, assumption+)
  show ?thesis
  proof (rule that [of "c1 @ c2" e2])
    show "board_events_dispatch (Some es) = (c1 @ c2 \<noteq> [], Some e2, c1 @ c2)"
      using 1(1) 2(1) by (simp add: board_events_dispatch_def two_topics)
    show "c1 @ c2 = (if pending es 0 = 0 then [] else calls_of es 0) @ (if pending es 1 = 0 then [] else calls_of es 1)"
      unfolding 1(8) 2(8) using 1(3-7) by (simp add: calls_of_def split: option.split)
  qed (use 1 2 in simp_all)
qed

section \<open>Dispatching until nothing is left\<close>

text \<open>\<open>while (board_events_dispatch(...)) {}\<close> of \<open>ui_controller_dispatch_board_events\<close>.\<close>

partial_function (option) board_drain :: "board_events \<Rightarrow> (board_events \<times> board_call list) option" where
  "board_drain es =
     (case board_events_dispatch (Some es) of (dispatched, es', calls) \<Rightarrow>
        if dispatched then
          Option.bind (board_drain (the es')) (\<lambda>r. Some (fst r, calls @ snd r))
        else Some (the es', calls))"

definition ui_controller_dispatch_board_events :: "board_events option \<Rightarrow> (board_events option \<times> board_call list) option" where
  "ui_controller_dispatch_board_events events =
     (case events of None \<Rightarrow> Some (None, [])
      | Some es \<Rightarrow> map_option (\<lambda>(es, calls). (Some es, calls)) (board_drain es))"

lemma board_drain_step:
  assumes "board_events_dispatch (Some es) = (calls \<noteq> [], Some es', calls)"
  shows "board_drain es = (if calls = [] then Some (es', []) else map_option (\<lambda>(e, cs). (e, calls @ cs)) (board_drain es'))"
  by (subst board_drain.simps) (cases "board_drain es'", simp_all add: assms split_beta)

lemma board_drain_result:
  assumes "board_ok es" "be_listeners es ! 0 \<noteq> None" "be_listeners es ! 1 \<noteq> None"
  shows "\<exists>es' calls. board_drain es = Some (es', calls) \<and> board_ok es' \<and> pending es' 0 = 0 \<and> pending es' 1 = 0 \<and>
    be_listeners es' = be_listeners es \<and> be_listener_data es' = be_listener_data es \<and> pending_channels es' = pending_channels es \<and>
    (\<forall>i < 2. concat (replicate (pending es i) (calls_of es i)) = filter (\<lambda>(l, ev, d). be_topic ev = i) calls) \<and>
    set calls = (if pending es 0 = 0 then {} else set (calls_of es 0)) \<union> (if pending es 1 = 0 then {} else set (calls_of es 1))"
  using assms
proof (induction "pending es 0 + pending es 1" arbitrary: es rule: less_induct)
  case less
  obtain e1 c1 where d: "board_events_dispatch (Some es) = (c1 \<noteq> [], Some e1, c1)" "board_ok e1"
    "be_listeners e1 = be_listeners es" "be_listener_data e1 = be_listener_data es" "pending_channels e1 = pending_channels es"
    "pending e1 0 = pending es 0 - 1" "pending e1 1 = pending es 1 - 1"
    "c1 = (if pending es 0 = 0 then [] else calls_of es 0) @ (if pending es 1 = 0 then [] else calls_of es 1)"
    by (rule dispatch_result [OF less.prems(1)]) (rule that, assumption+)
  have ne: "calls_of es 0 \<noteq> []" "calls_of es 1 \<noteq> []" using less.prems by (auto simp: calls_of_def)
  have same: "calls_of e1 i = calls_of es i" for i using d(3-5) by (simp add: calls_of_def split: option.split)
  have f: "filter (\<lambda>(l, ev, d). be_topic ev = i) (calls_of es j) = (if i = j then calls_of es i else [])" for i j
    by (auto simp: calls_of_def split: option.split)
  show ?case
  proof (cases "c1 = []")
    case True
    then have "pending es 0 = 0" "pending es 1 = 0" using d(8) ne by (auto split: if_splits)
    then show ?thesis using True board_drain_step [OF d(1)] d by (auto simp: less_2_cases_iff)
  next
    case False
    then have "pending e1 0 + pending e1 1 < pending es 0 + pending es 1" using d(6,7,8) by (auto split: if_splits)
    then obtain e2 c2 where r: "board_drain e1 = Some (e2, c2)" "board_ok e2" "pending e2 0 = 0" "pending e2 1 = 0"
      "be_listeners e2 = be_listeners es" "be_listener_data e2 = be_listener_data es" "pending_channels e2 = pending_channels es"
      "\<forall>i < 2. concat (replicate (pending e1 i) (calls_of es i)) = filter (\<lambda>(l, ev, d). be_topic ev = i) c2"
      "set c2 = (if pending e1 0 = 0 then {} else set (calls_of es 0)) \<union> (if pending e1 1 = 0 then {} else set (calls_of es 1))"
      using less.hyps [of e1] less.prems d(2-5) unfolding same by auto
    have c: "concat (replicate (pending es i) (calls_of es i)) = filter (\<lambda>(l, ev, d). be_topic ev = i) (c1 @ c2)" if "i < 2" for i
    proof -
      have "filter (\<lambda>(l, ev, d). be_topic ev = i) (c1 @ c2) =
          (if pending es i = 0 then [] else calls_of es i) @ concat (replicate (pending e1 i) (calls_of es i))"
        using r(8) that unfolding d(8) by (auto simp: f less_2_cases_iff)
      moreover have "pending e1 i = pending es i - 1" using that d(6,7) by (auto simp: less_2_cases_iff)
      ultimately show ?thesis by (cases "pending es i") simp_all
    qed
    have "set (c1 @ c2) = (if pending es 0 = 0 then {} else set (calls_of es 0)) \<union> (if pending es 1 = 0 then {} else set (calls_of es 1))"
      using r(9) d(6,7) unfolding d(8) by auto
    moreover have "board_drain es = Some (e2, c1 @ c2)" using board_drain_step [OF d(1)] False r(1) by simp
    ultimately show ?thesis using r c by blast
  qed
qed

text \<open>The board's events with both of the user interface's listeners.\<close>

definition board_demo :: board_events where
  "board_demo = \<lparr>be_listeners = [Some 7, Some 9], be_listener_data = [0, 0], pending_channels = [0, 0], pending_counts = [0, 0]\<rparr>"

definition publish_all :: "board_event list \<Rightarrow> board_events option \<Rightarrow> board_events option" where
  "publish_all evs events = fold (\<lambda>ev es. snd (board_events_publish es (Some ev))) evs events"

lemma publish_all_pending:
  assumes "board_ok es" "\<forall>ev \<in> set evs. be_topic ev < BOARD_EVENT_COUNT"
  shows "\<exists>es'. publish_all evs (Some es) = Some es' \<and> board_ok es' \<and> be_listeners es' = be_listeners es \<and>
    be_listener_data es' = be_listener_data es \<and>
    (\<forall>i. pending es i \<le> 255 \<longrightarrow> pending es' i = min 255 (pending es i + length (filter (\<lambda>ev. be_topic ev = i) evs))) \<and>
    (\<forall>i. pending_channels es' ! i = last (pending_channels es ! i # map be_channel (filter (\<lambda>ev. be_topic ev = i) evs)))"
  using assms
proof (induction evs arbitrary: es)
  case Nil
  then show ?case by (simp add: publish_all_def)
next
  case (Cons ev evs)
  have t: "be_topic ev < BOARD_EVENT_COUNT" using Cons.prems(2) by simp
  obtain e1 where 1: "board_events_store_event (Some es) (Some ev) = Some e1" "board_ok e1"
    "be_listeners e1 = be_listeners es" "be_listener_data e1 = be_listener_data es"
    "pending e1 (be_topic ev) = min 255 (pending es (be_topic ev) + 1)"
    "pending_channels e1 ! be_topic ev = be_channel ev"
    "\<And>j. j \<noteq> be_topic ev \<Longrightarrow> pending e1 j = pending es j \<and> pending_channels e1 ! j = pending_channels es ! j"
    by (rule store_event_pending [OF Cons.prems(1) t]) (rule that, assumption+)
  obtain es' where r: "publish_all evs (Some e1) = Some es'" "board_ok es'" "be_listeners es' = be_listeners e1"
    "be_listener_data es' = be_listener_data e1"
    "\<forall>i. pending e1 i \<le> 255 \<longrightarrow> pending es' i = min 255 (pending e1 i + length (filter (\<lambda>ev. be_topic ev = i) evs))"
    "\<forall>i. pending_channels es' ! i = last (pending_channels e1 ! i # map be_channel (filter (\<lambda>ev. be_topic ev = i) evs))"
    using Cons.IH [OF 1(2)] Cons.prems(2) by auto
  have p: "pending es' i = min 255 (pending es i + length (filter (\<lambda>ev. be_topic ev = i) (ev # evs)))"
    if "pending es i \<le> 255" for i
    using r(5) [rule_format, of i] 1(5) 1(7) [of i] that by (cases "i = be_topic ev") simp_all
  have c: "pending_channels es' ! i = last (pending_channels es ! i # map be_channel (filter (\<lambda>ev. be_topic ev = i) (ev # evs)))" for i
    using r(6) [rule_format, of i] 1(6) 1(7) [of i] by (cases "i = be_topic ev") simp_all
  have "publish_all (ev # evs) (Some es) = Some es'" using 1(1) r(1) by (simp add: publish_all_def board_events_publish_def)
  then show ?case using r 1 p c by auto
qed

text \<open>
  C27 Whatever the interrupt handlers publish between two runs of the main loop,
  up to 255 times per topic, the loop ends and calls each topic's listener once per event, each
  time with the last channel published; nothing stays pending.
\<close>

theorem board_events_delivered:
  assumes "board_ok es" "be_listeners es = [Some lb, Some lt]" "pending es 0 = 0" "pending es 1 = 0"
    and "\<forall>ev \<in> set evs. be_topic ev < BOARD_EVENT_COUNT"
  shows "\<exists>es' calls. ui_controller_dispatch_board_events (publish_all evs (Some es)) = Some (Some es', calls) \<and>
    board_events_pending_mask (Some es') = 0 \<and>
    (\<forall>i < BOARD_EVENT_COUNT. let mine = filter (\<lambda>ev. be_topic ev = i) evs in
       filter (\<lambda>(l, ev, d). be_topic ev = i) calls =
       replicate (min 255 (length mine))
         ([lb, lt] ! i, \<lparr>be_topic = i, be_channel = last (pending_channels es ! i # map be_channel mine)\<rparr>, be_listener_data es ! i))"
proof -
  obtain e1 where p: "publish_all evs (Some es) = Some e1" "board_ok e1" "be_listeners e1 = be_listeners es"
    "be_listener_data e1 = be_listener_data es"
    "\<forall>i. pending es i \<le> 255 \<longrightarrow> pending e1 i = min 255 (pending es i + length (filter (\<lambda>ev. be_topic ev = i) evs))"
    "\<forall>i. pending_channels e1 ! i = last (pending_channels es ! i # map be_channel (filter (\<lambda>ev. be_topic ev = i) evs))"
    using publish_all_pending [OF assms(1,5)] by blast
  obtain es' calls where d: "board_drain e1 = Some (es', calls)" "board_ok es'" "pending es' 0 = 0" "pending es' 1 = 0"
    "\<forall>i < 2. concat (replicate (pending e1 i) (calls_of e1 i)) = filter (\<lambda>(l, ev, d). be_topic ev = i) calls"
    using board_drain_result [OF p(2)] assms(2) p(3) by auto
  have "pending_counts es' ! 0 = 0" "pending_counts es' ! 1 = 0" using d(3,4) by (simp_all add: pending_def unat_eq_0)
  then have m: "board_events_pending_mask (Some es') = 0" by (simp add: board_events_pending_mask_def two_topics)
  have c: "filter (\<lambda>(l, ev, d). be_topic ev = i) calls =
       replicate (min 255 (length (filter (\<lambda>ev. be_topic ev = i) evs)))
         ([lb, lt] ! i, \<lparr>be_topic = i, be_channel = last (pending_channels es ! i # map be_channel (filter (\<lambda>ev. be_topic ev = i) evs))\<rparr>, be_listener_data es ! i)"
    if "i < 2" for i
  proof -
    have co: "calls_of e1 i = [([lb, lt] ! i, \<lparr>be_topic = i, be_channel = pending_channels e1 ! i\<rparr>, be_listener_data es ! i)]"
      using that assms(2) p(3,4) by (auto simp: calls_of_def less_2_cases_iff)
    have "concat (replicate n [x]) = replicate n x" for n and x :: board_call by (induction n) simp_all
    moreover have "pending e1 i = min 255 (length (filter (\<lambda>ev. be_topic ev = i) evs))"
      using p(5) assms(3,4) that by (auto simp: less_2_cases_iff)
    ultimately show ?thesis using d(5) that co p(6) by metis
  qed
  show ?thesis using p(1) d(1) m c by (simp add: ui_controller_dispatch_board_events_def BOARD_EVENT_COUNT_def Let_def)
qed

theorem board_events_delivered_witness:
  "\<exists>es' calls. ui_controller_dispatch_board_events
      (publish_all [\<lparr>be_topic = 0, be_channel = 3\<rparr>, \<lparr>be_topic = 1, be_channel = 0\<rparr>, \<lparr>be_topic = 0, be_channel = 5\<rparr>] (Some board_demo)) =
      Some (Some es', calls) \<and>
    filter (\<lambda>(l, ev, d). be_topic ev = 0) calls = [(7, \<lparr>be_topic = 0, be_channel = 5\<rparr>, 0), (7, \<lparr>be_topic = 0, be_channel = 5\<rparr>, 0)]"
proof -
  have "\<forall>ev \<in> set [\<lparr>be_topic = 0, be_channel = 3\<rparr>, \<lparr>be_topic = 1, be_channel = 0\<rparr>, \<lparr>be_topic = 0, be_channel = 5\<rparr>].
      be_topic ev < BOARD_EVENT_COUNT" by (simp add: BOARD_EVENT_COUNT_def)
  from board_events_delivered [OF _ _ _ _ this, of board_demo 7 9] show ?thesis
    by (simp add: board_demo_def board_ok_def pending_def BOARD_EVENT_COUNT_def numeral_2_eq_2 All_less_Suc2) blast
qed

end
