(* ===== verification/Ui_Input.thy ===== *)
theory Ui_Input
  imports Stimulus
begin

text \<open>
  Buttons, lever and touch panel: \<open>src/src/ui/core/hardware_input.c\<close>, the lever functions of
  \<open>src/src/ui/core/ui_controller.c\<close> that move a marker or a sweep limit, and the touch panel of
  \<open>src/src/ui/core/ui_core.c\<close>. A loop that polls the hardware runs over the list of what the clock
  and the port read at each turn; at the end of the list it still waits, and the result is
  \<open>None\<close>. System time counts 10 microseconds.
\<close>

section \<open>Buttons\<close>

definition BUTTON_DOWN :: u16 where "BUTTON_DOWN = 2"
definition BUTTON_PUSH :: u16 where "BUTTON_PUSH = 4"
definition BUTTON_UP :: u16 where "BUTTON_UP = 8"
definition NO_EVENT :: u16 where "NO_EVENT = 0"
definition EVT_BUTTON_SINGLE_CLICK :: u16 where "EVT_BUTTON_SINGLE_CLICK = 1"
definition EVT_BUTTON_DOWN_LONG :: u16 where "EVT_BUTTON_DOWN_LONG = 4"
definition EVT_UP :: u16 where "EVT_UP = 0x10"
definition EVT_DOWN :: u16 where "EVT_DOWN = 0x20"
definition EVT_REPEAT :: u16 where "EVT_REPEAT = 0x40"
definition BUTTON_DOWN_LONG_TICKS :: u32 where "BUTTON_DOWN_LONG_TICKS = 50000"
definition BUTTON_REPEAT_TICKS :: u32 where "BUTTON_REPEAT_TICKS = 3000"
definition BUTTON_DEBOUNCE_TICKS :: u32 where "BUTTON_DEBOUNCE_TICKS = 2000"

lemmas [nvx_defs] = BUTTON_DOWN_def BUTTON_PUSH_def BUTTON_UP_def NO_EVENT_def EVT_BUTTON_SINGLE_CLICK_def
  EVT_BUTTON_DOWN_LONG_def EVT_UP_def EVT_DOWN_def EVT_REPEAT_def BUTTON_DOWN_LONG_TICKS_def
  BUTTON_REPEAT_TICKS_def BUTTON_DEBOUNCE_TICKS_def

record input_state =
  last_button :: u16
  last_button_down_ticks :: u32
  last_button_repeat_ticks :: u32

definition read_buttons :: "u16 \<Rightarrow> u16" where
  "read_buttons port = port AND (BUTTON_DOWN OR BUTTON_PUSH OR BUTTON_UP)"

definition ui_input_reset_state :: "u16 \<Rightarrow> u32 \<Rightarrow> input_state" where
  "ui_input_reset_state port now =
     \<lparr>last_button = read_buttons port, last_button_down_ticks = now, last_button_repeat_ticks = now\<rparr>"

definition ui_input_get_buttons :: "u16 \<Rightarrow> u16" where
  "ui_input_get_buttons port = read_buttons port"

text \<open>The first clock reading more than the debounce time after the last event.\<close>

fun debounce :: "u32 \<Rightarrow> u32 list \<Rightarrow> u32 option" where
  "debounce down [] = None"
| "debounce down (t # ts) = (if t - down > BUTTON_DEBOUNCE_TICKS then Some t else debounce down ts)"

definition button_events :: "u16 \<Rightarrow> u16" where
  "button_events button_set =
     (if button_set AND BUTTON_PUSH \<noteq> 0 then EVT_BUTTON_SINGLE_CLICK else 0) OR
     (if button_set AND BUTTON_UP \<noteq> 0 then EVT_UP else 0) OR
     (if button_set AND BUTTON_DOWN \<noteq> 0 then EVT_DOWN else 0)"

definition ui_input_check :: "u32 list \<Rightarrow> u16 \<Rightarrow> input_state \<Rightarrow> (u16 \<times> input_state) option" where
  "ui_input_check clock port s =
     map_option (\<lambda>ticks.
       let cur_button = ui_input_get_buttons port;
           button_set = (last_button s XOR cur_button) AND cur_button
       in (button_events button_set, s\<lparr>last_button_down_ticks := ticks, last_button := cur_button\<rparr>))
     (debounce (last_button_down_ticks s) clock)"

text \<open>One turn of \<open>ui_input_wait_release\<close>: \<open>None\<close> goes on waiting.\<close>

definition release_turn :: "u32 \<times> u16 \<Rightarrow> input_state \<Rightarrow> (u16 \<times> input_state) option" where
  "release_turn r s =
     (case r of (ticks, port) \<Rightarrow>
       let dt = ticks - last_button_down_ticks s;
           cur_button = ui_input_get_buttons port;
           changed = last_button s XOR cur_button
       in if dt \<ge> BUTTON_DOWN_LONG_TICKS \<and> cur_button AND BUTTON_PUSH \<noteq> 0 then Some (EVT_BUTTON_DOWN_LONG, s)
          else if changed AND BUTTON_PUSH \<noteq> 0 then Some (EVT_BUTTON_SINGLE_CLICK, s)
          else if changed \<noteq> 0 then Some (NO_EVENT, s\<lparr>last_button := cur_button, last_button_down_ticks := ticks\<rparr>)
          else if dt > BUTTON_DOWN_LONG_TICKS \<and> ticks > last_button_repeat_ticks s then
            Some ((if cur_button AND BUTTON_DOWN \<noteq> 0 then EVT_DOWN OR EVT_REPEAT else 0) OR
                  (if cur_button AND BUTTON_UP \<noteq> 0 then EVT_UP OR EVT_REPEAT else 0),
                  s\<lparr>last_button_repeat_ticks := ticks + BUTTON_REPEAT_TICKS\<rparr>)
          else None)"

fun ui_input_wait_release :: "(u32 \<times> u16) list \<Rightarrow> input_state \<Rightarrow> (u16 \<times> input_state \<times> (u32 \<times> u16) list) option" where
  "ui_input_wait_release [] s = None"
| "ui_input_wait_release (r # rs) s =
     (case release_turn r s of Some (ev, s) \<Rightarrow> Some (ev, s, rs) | None \<Rightarrow> ui_input_wait_release rs s)"

lemma wait_release_shorter:
  "ui_input_wait_release rs s = Some (ev, s', rs') \<Longrightarrow> length rs' < length rs"
  by (induction rs) (auto split: option.splits)

text \<open>\<open>while (ui_input_wait_release() != 0);\<close>\<close>

function wait_all_released :: "(u32 \<times> u16) list \<Rightarrow> input_state \<Rightarrow> (input_state \<times> (u32 \<times> u16) list) option" where
  "wait_all_released rs s =
     (case ui_input_wait_release rs s of None \<Rightarrow> None
      | Some (ev, s, rs) \<Rightarrow> if ev \<noteq> 0 then wait_all_released rs s else Some (s, rs))"
  by pat_completeness auto

termination
  by (relation "measure (\<lambda>(rs, s). length rs)") (auto dest: wait_release_shorter)

section \<open>Moving a marker with the lever\<close>

definition MARKER_SPEEDUP :: nat where "MARKER_SPEEDUP = 3"

text \<open>Drawing the marker is recorded; its index is the one just set.\<close>

definition redraw_marker :: "nat \<Rightarrow> stimulus \<Rightarrow> stimulus" where
  "redraw_marker m s = (if mk_enabled (markers s ! m) then st_call (Draw_Marker (mk_index (markers s ! m))) s else s)"

text \<open>The index one event asks for: a step down stops at 0, a step up at the last point.\<close>

definition lever_index :: "u16 \<Rightarrow> u16 \<Rightarrow> int \<Rightarrow> int \<Rightarrow> int" where
  "lever_index status step points idx =
     (let d = int (unat (drop_bit MARKER_SPEEDUP step));
          idx = (if status AND EVT_DOWN \<noteq> 0 then (if idx - d < 0 then 0 else idx - d) else idx)
      in if status AND EVT_UP \<noteq> 0 then (if idx + d > points - 1 then points - 1 else idx + d) else idx)"

function lever_marker_loop ::
    "nat \<Rightarrow> u16 \<Rightarrow> u16 \<Rightarrow> (u32 \<times> u16) list \<Rightarrow> input_state \<Rightarrow> stimulus \<Rightarrow> (input_state \<times> stimulus \<times> (u32 \<times> u16) list) option" where
  "lever_marker_loop m status step rs inp s =
     (let idx = lever_index status step (int (unat (sweep_points s))) (int (unat (mk_index (markers s ! m))));
          s = redraw_marker m (set_marker_index m idx s)
      in case ui_input_wait_release rs inp of None \<Rightarrow> None
         | Some (status, inp, rs) \<Rightarrow>
             if status \<noteq> 0 then lever_marker_loop m status (step + 1) rs inp s else Some (inp, s, rs))"
  by pat_completeness auto

termination
  by (relation "measure (\<lambda>(m, status, step, rs, inp, s). length rs)") (auto dest: wait_release_shorter)

declare lever_marker_loop.simps [simp del]

definition lever_move_marker ::
    "int \<Rightarrow> u16 \<Rightarrow> (u32 \<times> u16) list \<Rightarrow> input_state \<Rightarrow> stimulus \<Rightarrow> (input_state \<times> stimulus \<times> (u32 \<times> u16) list) option" where
  "lever_move_marker active status rs inp s =
     (if active = -1 \<or> \<not> mk_enabled (markers s ! nat active) then Some (inp, s, rs)
      else lever_marker_loop (nat active) status (push_bit MARKER_SPEEDUP 1) rs inp s)"

section \<open>Moving a sweep limit with the lever\<close>

text \<open>The decade below a value; the product wraps, so that the loop need not end.\<close>

partial_function (option) decade_loop :: "u32 \<Rightarrow> u32 \<Rightarrow> u32 option" where
  "decade_loop v x = (let nx = x * 10 in if nx < v then decade_loop v nx else Some x)"

definition step_round :: "u32 \<Rightarrow> u32 option" where
  "step_round v =
     map_option (\<lambda>x. if x * 2 > v then x else if x * 5 > v then x * 2 else x * 5) (decade_loop v 1)"

datatype lever_mode = LM_MARKER | LM_SEARCH | LM_FREQ_0 | LM_FREQ_1 | LM_EDELAY

definition lever_target :: "lever_mode \<Rightarrow> stimulus \<Rightarrow> stimulus_type" where
  "lever_target lm s =
     (if lm = LM_FREQ_0 then (if is_centerspan s then ST_CENTER else ST_START)
      else (if is_centerspan s then ST_SPAN else ST_STOP))"

text \<open>The frequency asked for; \<open>None\<close> when \<open>step_round\<close> does not return.\<close>

definition lever_new_frequency :: "u16 \<Rightarrow> stimulus_type \<Rightarrow> stimulus \<Rightarrow> u32 option" where
  "lever_new_frequency status mode s =
     (let freq = get_sweep_frequency mode s in
      if mode = ST_SPAN \<and> var_freq s = 0 then
        case (if status AND EVT_UP \<noteq> 0 then step_round (freq * 4 + 1) else Some freq) of None \<Rightarrow> None
        | Some freq \<Rightarrow> if status AND EVT_DOWN \<noteq> 0 then step_round (freq - 1) else Some freq
      else
        case (if var_freq s \<noteq> 0 then Some (var_freq s) else step_round (get_sweep_frequency ST_SPAN s div 4)) of None \<Rightarrow> None
        | Some step \<Rightarrow>
            let freq = (if status AND EVT_UP \<noteq> 0 then freq + step else freq)
            in Some (if status AND EVT_DOWN \<noteq> 0 then freq - step else freq))"

definition lever_frequency ::
    "lever_mode \<Rightarrow> u16 \<Rightarrow> (u32 \<times> u16) list \<Rightarrow> input_state \<Rightarrow> stimulus \<Rightarrow> (input_state \<times> stimulus \<times> (u32 \<times> u16) list) option" where
  "lever_frequency lm status rs inp s =
     (let mode = lever_target lm s in
      case lever_new_frequency status mode s of None \<Rightarrow> None
      | Some freq \<Rightarrow>
        case wait_all_released rs inp of None \<Rightarrow> None
        | Some (inp, rs) \<Rightarrow>
          Some (inp, if freq > FREQUENCY_MAX \<or> freq < FREQUENCY_MIN then s else set_sweep_frequency mode freq s, rs))"

section \<open>Steps of 1, 2 and 5\<close>

lemma decade_loop_steps:
  "(\<And>i. i < n \<Longrightarrow> x * 10 ^ Suc i < v) \<Longrightarrow> decade_loop v x = decade_loop v (x * 10 ^ n)"
proof (induction n)
  case 0
  then show ?case by simp
next
  case (Suc n)
  have e: "x * 10 ^ n * 10 = x * 10 ^ Suc n" by (simp only: power_Suc ac_simps)
  have "decade_loop v (x * 10 ^ n) = decade_loop v (x * 10 ^ Suc n)"
    using Suc.prems [of n] by (subst decade_loop.simps) (simp only: e Let_def if_True lessI)
  then show ?case using Suc.IH Suc.prems by simp
qed

lemma pow10: "k \<le> 9 \<Longrightarrow> unat ((10 :: u32) ^ k) = 10 ^ k"
proof -
  assume "k \<le> 9"
  then have "(10 :: nat) ^ k \<le> 10 ^ 9" by (intro power_increasing) simp_all
  moreover have "(10 :: u32) ^ k = of_nat (10 ^ k)" by simp
  ultimately show ?thesis by (simp only: unat_of_nat) (simp add: take_bit_nat_eq_self)
qed

lemma decade_loop_ends:
  assumes "unat v \<le> 10 ^ 9" "k \<le> 8" "k = 0 \<or> 10 ^ k < unat v"
  shows "\<exists>m. m \<le> 8 \<and> decade_loop v (10 ^ k) = Some (10 ^ m) \<and> (m = 0 \<or> 10 ^ m < unat v) \<and> unat v \<le> 10 ^ Suc m"
  using assms(2,3)
proof (induction "8 - k" arbitrary: k)
  case 0
  then have k: "k = 8" by simp
  have "\<not> (10 ^ 8 * 10 < v)" using assms(1) by (simp add: word_less_nat_alt)
  then have "decade_loop v (10 ^ 8) = Some (10 ^ 8)" by (subst decade_loop.simps) (simp add: Let_def)
  then show ?case using k 0(3) assms(1) by (intro exI [of _ 8]) simp
next
  case (Suc n)
  have lt: "(10 ^ k * 10 < v) = (10 ^ Suc k < unat v)"
    using pow10 [of "Suc k"] Suc.hyps(2) Suc.prems by (simp add: word_less_nat_alt mult.commute)
  show ?case
  proof (cases "10 ^ k * 10 < v")
    case True
    then have "decade_loop v (10 ^ k) = decade_loop v (10 ^ Suc k)"
      by (subst decade_loop.simps) (simp add: Let_def mult.commute)
    moreover have "\<exists>m. m \<le> 8 \<and> decade_loop v (10 ^ Suc k) = Some (10 ^ m) \<and> (m = 0 \<or> 10 ^ m < unat v) \<and> unat v \<le> 10 ^ Suc m"
      using Suc.hyps(1) [of "Suc k"] Suc.hyps(2) lt True by simp
    ultimately show ?thesis by simp
  next
    case False
    then have "decade_loop v (10 ^ k) = Some (10 ^ k)" by (subst decade_loop.simps) (simp add: Let_def)
    then show ?thesis using False lt Suc.prems by (intro exI [of _ k]) (simp add: not_less)
  qed
qed

text \<open>
  Up to 10^9 the rounding ends with a number 1, 2 or 5 times a power of ten
  that is at most the value and more than two fifths of it.
\<close>

theorem step_round_below:
  assumes "0 < v" "unat v \<le> 10 ^ 9"
  shows "\<exists>r m d. step_round v = Some r \<and> d \<in> {1, 2, 5} \<and> unat r = d * 10 ^ m \<and> unat r \<le> unat v \<and> 2 * unat v < 5 * unat r"
proof -
  obtain m where m: "m \<le> 8" "decade_loop v (10 ^ 0) = Some (10 ^ m)" "m = 0 \<or> 10 ^ m < unat v" "unat v \<le> 10 ^ Suc m"
    using decade_loop_ends [of v 0] assms(2) by auto
  have b: "(10 :: nat) ^ m \<le> 10 ^ 8" using m(1) by (intro power_increasing) simp_all
  have x: "unat ((10 :: u32) ^ m) = 10 ^ m" using pow10 m(1) by simp
  have x2: "unat ((10 :: u32) ^ m * 2) = 2 * 10 ^ m" using b x by (subst unat_word_ariths) simp
  have x5: "unat ((10 :: u32) ^ m * 5) = 5 * 10 ^ m" using b x by (subst unat_word_ariths) simp
  have v: "10 ^ m \<le> unat v"
  proof (cases "m = 0")
    case True
    then show ?thesis using assms(1) by (simp add: unat_gt_0 Suc_le_eq word_neq_0_conv)
  next
    case False
    then show ?thesis using m(3) by simp
  qed
  let ?x = "(10 :: u32) ^ m"
  have r: "step_round v = Some (if ?x * 2 > v then ?x else if ?x * 5 > v then ?x * 2 else ?x * 5)"
    using m(2) by (simp add: step_round_def)
  have c: "(?x * 2 > v) = (unat v < 2 * 10 ^ m)" "(?x * 5 > v) = (unat v < 5 * 10 ^ m)"
    using x2 x5 by (simp_all add: word_less_nat_alt)
  have big: "2 * unat v < 25 * 10 ^ m"
    using m(4) [unfolded power_Suc] zero_less_power [of "10 :: nat" m, OF zero_less_numeral] by linarith
  consider "unat v < 2 * 10 ^ m" | "2 * 10 ^ m \<le> unat v" "unat v < 5 * 10 ^ m" | "5 * 10 ^ m \<le> unat v" by linarith
  then show ?thesis
  proof cases
    case 1
    then show ?thesis using r c x v by - (rule exI [of _ ?x], rule exI [of _ m], rule exI [of _ "1"], simp)
  next
    case 2
    then show ?thesis using r c x2 by - (rule exI [of _ "?x * 2"], rule exI [of _ m], rule exI [of _ "2"], simp)
  next
    case 3
    then show ?thesis using r c x5 big by - (rule exI [of _ "?x * 5"], rule exI [of _ m], rule exI [of _ "5"], simp)
  qed
qed

theorem step_round_below_witness: "\<exists>r m d. step_round 10942 = Some r \<and> d \<in> {1, 2, 5} \<and> unat r = d * 10 ^ m \<and>
    unat r \<le> unat (10942 :: u32) \<and> 2 * unat (10942 :: u32) < 5 * unat r"
  by (rule step_round_below) simp_all

lemma decade_loop_zero:
  assumes "decade_loop v x = Some y"
  shows "0 < v \<longrightarrow> x \<noteq> 0"
proof -
  have "(case (v, x) of (v, x) \<Rightarrow> decade_loop v x) = Some y" using assms by simp
  moreover have "0 < v \<longrightarrow> x \<noteq> 0"
    if "\<And>x b y. f x b = Some y \<Longrightarrow> 0 < x \<longrightarrow> b \<noteq> 0"
      and "(let nx = x * 10 in if nx < v then f v nx else Some x) = Some y" for f and v x y :: u32
    using that(1) [of v "0"] that(2) by (auto simp: Let_def split: if_splits)
  ultimately have "(case (v, x) of (v, x) \<Rightarrow> \<lambda>y. 0 < v \<longrightarrow> x \<noteq> 0) y"
    using decade_loop.raw_induct [where P = "\<lambda>v x y. 0 < v \<longrightarrow> x \<noteq> 0" and xa = "(v, x)" and y = y] by blast
  then show ?thesis by simp
qed

text \<open>The loop runs through the powers of ten modulo 2^32, and the 32nd of them is 0.\<close>

lemma decade_loop_hangs:
  assumes "4135583744 < v"
  shows "decade_loop v 1 = None"
proof -
  have "list_all (\<lambda>i. (10 :: u32) ^ Suc i \<le> 4135583744) [0..<32]" by code_simp
  then have "(10 :: u32) ^ Suc i < v" if "i < 32" for i
    using assms that by (auto simp: list_all_iff simp del: power_Suc intro: le_less_trans)
  then have "decade_loop v 1 = decade_loop v (1 * 10 ^ 32)" by (intro decade_loop_steps) (simp only: mult_1)
  moreover have "(1 :: u32) * 10 ^ 32 = 0" by code_simp
  moreover have "decade_loop v 0 = None"
    using decade_loop_zero [of v 0] assms by (cases "decade_loop v 0") (auto simp: word_less_nat_alt)
  ultimately show ?thesis by (simp only:)
qed

text \<open>
  With a span between 1.034 and 1.073 GHz and no jog step, a step up on the span
  limit never returns: the product of the decade search wraps to 0 and stays there.
\<close>

theorem lever_span_hangs:
  assumes "is_centerspan s" "var_freq s = 0" "get_sweep_frequency ST_SPAN s = span"
    and "1033895936 \<le> unat span" "unat span < 1073741824" "status AND EVT_UP \<noteq> 0"
  shows "lever_frequency LM_FREQ_1 status rs inp s = None"
proof -
  have "unat (span * 4 + 1) = unat span * 4 + 1"
    using assms(5) by (simp add: unat_word_ariths)
  then have "4135583744 < span * 4 + 1" using assms(4) by (simp add: word_less_nat_alt)
  then have "step_round (span * 4 + 1) = None" using decade_loop_hangs by (simp add: step_round_def)
  then show ?thesis using assms by (simp add: lever_frequency_def lever_target_def lever_new_frequency_def Let_def)
qed

text \<open>The hypotheses hold at 1.05 GHz: whatever the buttons do afterwards, the call does not return.\<close>

theorem lever_span_hangs_witness:
  "\<forall>rs inp. lever_frequency LM_FREQ_1 EVT_UP rs inp
     (st_demo\<lparr>frequency0 := 50000, frequency1 := 1050050000, var_freq := 0, props_mode := TD_CENTER_SPAN\<rparr>) = None"
proof (intro allI)
  fix rs inp
  show "lever_frequency LM_FREQ_1 EVT_UP rs inp
     (st_demo\<lparr>frequency0 := 50000, frequency1 := 1050050000, var_freq := 0, props_mode := TD_CENTER_SPAN\<rparr>) = None"
    by (rule lever_span_hangs [of _ 1050000000])
      (simp_all add: is_centerspan_def TD_CENTER_SPAN_def get_sweep_frequency_def EVT_UP_def)
qed

section \<open>Markers under the lever\<close>

declare of_nat_unat [simp del]

lemma lever_index_range:
  assumes "0 \<le> idx" "idx < points"
  shows "0 \<le> lever_index status step points idx" "lever_index status step points idx < points"
proof -
  have "0 \<le> int (unat (drop_bit MARKER_SPEEDUP step))" by (rule of_nat_0_le_iff)
  then show "0 \<le> lever_index status step points idx" "lever_index status step points idx < points"
    using assms unfolding lever_index_def Let_def by (auto simp del: of_nat_0_le_iff)
qed

text \<open>A marker on the grid.\<close>

definition on_grid :: "nat \<Rightarrow> stimulus \<Rightarrow> bool" where
  "on_grid m s \<longleftrightarrow> m < length (markers s) \<and> mk_index (markers s ! m) < sweep_points s \<and>
     mk_frequency (markers s ! m) = get_frequency (st_plan s) (mk_index (markers s ! m))"

lemma set_marker_on_grid:
  assumes "m < length (markers s)" "0 \<le> idx" "idx < int (unat (sweep_points s))"
  shows "on_grid m (set_marker_index m idx s)" "unat (mk_index (markers (set_marker_index m idx s) ! m)) = nat idx"
    "sweep_points (set_marker_index m idx s) = sweep_points s" "st_plan (set_marker_index m idx s) = st_plan s"
    "length (markers (set_marker_index m idx s)) = length (markers s)"
    "j \<noteq> m \<Longrightarrow> markers (set_marker_index m idx s) ! j = markers s ! j"
proof -
  have "idx < 65536" using assms(3) u16_bound [of "sweep_points s"] by linarith
  then have e: "unat (word_of_int idx :: u16) = nat idx"
    using assms(2) by (simp add: unsigned_of_int take_bit_int_eq_self)
  then have "(word_of_int idx :: u16) < sweep_points s" using assms(2,3) by (simp add: word_less_nat_alt)
  then show "on_grid m (set_marker_index m idx s)"
    using assms by (simp add: on_grid_def set_marker_index_def Let_def request_to_redraw_def st_call_def)
  show "unat (mk_index (markers (set_marker_index m idx s) ! m)) = nat idx"
    using assms e by (simp add: set_marker_index_def Let_def request_to_redraw_def st_call_def)
qed (simp_all add: set_marker_index_def Let_def request_to_redraw_def st_call_def)

lemma redraw_marker_frame [simp]:
  "markers (redraw_marker m s) = markers s" "sweep_points (redraw_marker m s) = sweep_points s" "st_plan (redraw_marker m s) = st_plan s"
  by (simp_all add: redraw_marker_def st_call_def)

text \<open>
  The events the lever reports until it is released, \<open>0\<close> being the last, and what they mean: the \<open>j\<close>-th
  event moves the marker by the eighth part of \<open>8 + j\<close> points, so one point for each of the first eight events,
  two for each of the next eight, and so on, until the 16 bit step wraps.
\<close>

inductive lever_events :: "u16 list \<Rightarrow> (u32 \<times> u16) list \<Rightarrow> input_state \<Rightarrow> (u32 \<times> u16) list \<Rightarrow> input_state \<Rightarrow> bool" where
  released: "ui_input_wait_release rs inp = Some (0, inp', rs') \<Longrightarrow> lever_events [] rs inp rs' inp'"
| event: "ui_input_wait_release rs inp = Some (ev, inp', rs') \<Longrightarrow> ev \<noteq> 0 \<Longrightarrow> lever_events evs rs' inp' rs'' inp'' \<Longrightarrow>
    lever_events (ev # evs) rs inp rs'' inp''"

definition lever_distance :: "nat \<Rightarrow> int" where
  "lever_distance j = int ((8 + j) mod 65536 div 8)"

fun lever_moved :: "nat \<Rightarrow> int \<Rightarrow> u16 list \<Rightarrow> int \<Rightarrow> int" where
  "lever_moved j n [] i = i"
| "lever_moved j n (ev # evs) i =
     (let i = (if ev AND EVT_DOWN \<noteq> 0 then max 0 (i - lever_distance j) else i);
          i = (if ev AND EVT_UP \<noteq> 0 then min (n - 1) (i + lever_distance j) else i)
      in lever_moved (j + 1) n evs i)"

lemma lever_index_moved:
  "lever_moved j n (ev # evs) i = lever_moved (j + 1) n evs (lever_index ev (of_nat (8 + j)) n i)"
proof -
  have "int (unat (drop_bit MARKER_SPEEDUP (of_nat (8 + j) :: u16))) = lever_distance j"
    by (simp add: lever_distance_def MARKER_SPEEDUP_def unat_drop_bit_eq drop_bit_eq_div unat_div unat_of_nat del: of_nat_add)
  then show ?thesis by (simp add: lever_index_def Let_def max_def min_def)
qed

lemma lever_marker_loop_moves:
  assumes "lever_marker_loop m status step rs inp s = Some (inp', s', rs')" "m < length (markers s)"
    and "step = of_nat (8 + j)" and "mk_index (markers s ! m) < sweep_points s"
  shows "on_grid m s' \<and> sweep_points s' = sweep_points s \<and> st_plan s' = st_plan s \<and> (\<forall>j. j \<noteq> m \<longrightarrow> markers s' ! j = markers s ! j) \<and>
    (\<exists>evs. lever_events evs rs inp rs' inp' \<and>
      int (unat (mk_index (markers s' ! m))) = lever_moved j (int (unat (sweep_points s))) (status # evs) (int (unat (mk_index (markers s ! m)))))"
  using assms
proof (induction m status step rs inp s arbitrary: j rule: lever_marker_loop.induct)
  case (1 m status step rs inp s)
  define i where "i = lever_index status step (int (unat (sweep_points s))) (int (unat (mk_index (markers s ! m))))"
  define t where "t = redraw_marker m (set_marker_index m i s)"
  have r: "0 \<le> i" "i < int (unat (sweep_points s))"
    using lever_index_range [of "int (unat (mk_index (markers s ! m)))" "int (unat (sweep_points s))" status step] "1.prems"(4)
    unfolding i_def by (simp_all add: word_less_nat_alt)
  note g = set_marker_on_grid [OF "1.prems"(2) r]
  have t: "on_grid m t" "sweep_points t = sweep_points s" "st_plan t = st_plan s" "length (markers t) = length (markers s)"
    "\<forall>j. j \<noteq> m \<longrightarrow> markers t ! j = markers s ! j" "int (unat (mk_index (markers t ! m))) = i"
    using g r by (simp_all add: t_def on_grid_def)
  obtain ev inp1 rs1 where w: "ui_input_wait_release rs inp = Some (ev, inp1, rs1)"
    using "1.prems"(1) by (subst (asm) lever_marker_loop.simps) (auto simp: Let_def split: option.splits)
  have body: "(if ev \<noteq> 0 then lever_marker_loop m ev (step + 1) rs1 inp1 t else Some (inp1, t, rs1)) = Some (inp', s', rs')"
    using "1.prems"(1) w unfolding t_def i_def by (subst (asm) lever_marker_loop.simps) (simp add: Let_def)
  have moved: "lever_moved j (int (unat (sweep_points s))) (status # evs) (int (unat (mk_index (markers s ! m)))) =
      lever_moved (j + 1) (int (unat (sweep_points t))) evs (int (unat (mk_index (markers t ! m))))" for evs
    unfolding lever_index_moved t(2,6) i_def "1.prems"(3) by simp
  show ?case
  proof (cases "ev = 0")
    case True
    then have "lever_events [] rs inp rs' inp'" "s' = t" using body w by (auto intro: lever_events.released)
    moreover have "int (unat (mk_index (markers t ! m))) =
        lever_moved j (int (unat (sweep_points s))) [status] (int (unat (mk_index (markers s ! m))))" unfolding moved by simp
    ultimately show ?thesis using t by (intro conjI) auto
  next
    case False
    have tt: "m < length (markers t)" "mk_index (markers t ! m) < sweep_points t"
      using t(1) by (simp_all add: on_grid_def)
    have step: "step + 1 = of_nat (8 + (j + 1))" using "1.prems"(3) by simp
    have loop: "lever_marker_loop m ev (step + 1) rs1 inp1 t = Some (inp', s', rs')" using body False by simp
    obtain evs where e: "on_grid m s' \<and> sweep_points s' = sweep_points t \<and> st_plan s' = st_plan t \<and> (\<forall>j. j \<noteq> m \<longrightarrow> markers s' ! j = markers t ! j)"
      "lever_events evs rs1 inp1 rs' inp'"
      "int (unat (mk_index (markers s' ! m))) = lever_moved (j + 1) (int (unat (sweep_points t))) (ev # evs) (int (unat (mk_index (markers t ! m))))"
      using "1.IH" [OF i_def t_def w refl refl False loop tt(1) step tt(2)] by blast
    have "lever_events (ev # evs) rs inp rs' inp'" by (rule lever_events.event [OF w False e(2)])
    then show ?thesis using e(1,3) t unfolding moved [of "ev # evs", symmetric] by auto
  qed
qed

text \<open>
  C28 The lever with a shown active marker: each event down moves the marker down and each event up
  moves it up, by the distance of its place in the sequence and no further than the first and the last point, until
  the lever is released; the marker gets the frequency of its point, and no other marker moves.
\<close>

theorem lever_marker_on_grid:
  assumes "lever_move_marker active status rs inp s = Some (inp', s', rs')" "0 \<le> active" "nat active < length (markers s)"
    and "mk_enabled (markers s ! nat active)" "mk_index (markers s ! nat active) < sweep_points s"
  shows "\<exists>evs. lever_events evs rs inp rs' inp' \<and>
    int (unat (mk_index (markers s' ! nat active))) =
      lever_moved 0 (int (unat (sweep_points s))) (status # evs) (int (unat (mk_index (markers s ! nat active)))) \<and>
    mk_index (markers s' ! nat active) < sweep_points s' \<and> sweep_points s' = sweep_points s \<and>
    mk_frequency (markers s' ! nat active) = get_frequency (st_plan s) (mk_index (markers s' ! nat active)) \<and>
    (\<forall>j. j \<noteq> nat active \<longrightarrow> markers s' ! j = markers s ! j)"
proof -
  have "lever_marker_loop (nat active) status (of_nat (8 + 0)) rs inp s = Some (inp', s', rs')"
    using assms(1,2,4) by (simp add: lever_move_marker_def MARKER_SPEEDUP_def)
  from lever_marker_loop_moves [OF this assms(3) refl assms(5)] show ?thesis by (auto simp: on_grid_def)
qed

definition marker_demo :: stimulus where
  "marker_demo = st_demo\<lparr>sweep_points := 101, st_plan := app_measurement_set_frequencies 50000 900000000 101,
     markers := [\<lparr>mk_enabled = True, mk_index = 99, mk_frequency = 0\<rparr>]\<rparr>"

text \<open>Up from point 99 of 101: the first step reaches the last point, the second stays there.\<close>

theorem lever_marker_on_grid_witness:
  "case lever_move_marker 0 EVT_UP [(60000, 8), (70000, 0)] \<lparr>last_button = 8, last_button_down_ticks = 0, last_button_repeat_ticks = 0\<rparr> marker_demo of
     None \<Rightarrow> False
   | Some (inp', s', rs') \<Rightarrow> mk_index (markers s' ! 0) = 100 \<and>
       mk_frequency (markers s' ! 0) = get_frequency (st_plan marker_demo) (mk_index (markers s' ! 0))"
proof -
  let ?inp = "\<lparr>last_button = 8, last_button_down_ticks = 0, last_button_repeat_ticks = 0\<rparr> :: input_state"
  let ?run = "lever_move_marker 0 EVT_UP [(60000, 8), (70000, 0)] ?inp marker_demo"
  have "map_option (\<lambda>(i, s, r). mk_index (markers s ! 0)) ?run = Some 100"
    by code_simp
  then obtain i s' r where run: "?run = Some (i, s', r)" "mk_index (markers s' ! 0) = 100" by auto
  have "mk_frequency (markers s' ! 0) = get_frequency (st_plan marker_demo) (mk_index (markers s' ! 0))"
    using lever_marker_on_grid [OF run(1)] by (auto simp: marker_demo_def word_less_nat_alt)
  then show ?thesis using run by simp
qed

section \<open>What a check reports\<close>

lemma button_and: "n < 16 \<Longrightarrow> (push_bit n 1 :: u16) AND x \<noteq> 0 \<longleftrightarrow> bit x n"
  by (auto simp: bit_iff_and_push_bit_not_eq_0 and.commute)

lemma button_tests:
  "(x AND BUTTON_DOWN \<noteq> 0) = bit x 1" "(x AND BUTTON_PUSH \<noteq> 0) = bit x 2" "(x AND BUTTON_UP \<noteq> 0) = bit x 3"
  using button_and [of 1 x] button_and [of 2 x] button_and [of 3 x]
  by (simp_all add: BUTTON_DOWN_def BUTTON_PUSH_def BUTTON_UP_def and.commute)

lemma buttons_bits: "BUTTON_DOWN = push_bit 1 1" "BUTTON_PUSH = push_bit 2 1" "BUTTON_UP = push_bit 3 1"
  by (simp_all add: BUTTON_DOWN_def BUTTON_PUSH_def BUTTON_UP_def)

lemma read_buttons_bit: "bit (read_buttons port) n \<longleftrightarrow> n \<in> {1, 2, 3} \<and> bit port n"
proof -
  have "bit (BUTTON_DOWN OR BUTTON_PUSH OR BUTTON_UP) n \<longleftrightarrow> n \<in> {1, 2, 3}"
    unfolding buttons_bits bit_or_iff bit_push_bit_iff bit_1_iff by auto
  then show ?thesis by (auto simp: read_buttons_def bit_simps)
qed

text \<open>
  A check waits until the debounce time has passed since the last one, and
  reports exactly the buttons that were up at the last check and are down now; a button held is not
  reported again.
\<close>

theorem input_check_new_presses:
  assumes "ui_input_check clock port s = Some (ev, s')"
  shows "ev = (if bit port 2 \<and> \<not> bit (last_button s) 2 then EVT_BUTTON_SINGLE_CLICK else 0) OR
      (if bit port 3 \<and> \<not> bit (last_button s) 3 then EVT_UP else 0) OR
      (if bit port 1 \<and> \<not> bit (last_button s) 1 then EVT_DOWN else 0) \<and>
    last_button s' = read_buttons port \<and>
    last_button_down_ticks s' \<in> set clock \<and> 2000 < unat (last_button_down_ticks s' - last_button_down_ticks s)"
proof -
  obtain t where t: "debounce (last_button_down_ticks s) clock = Some t"
    and r: "ev = button_events ((last_button s XOR read_buttons port) AND read_buttons port)"
      "s' = s\<lparr>last_button_down_ticks := t, last_button := read_buttons port\<rparr>"
    using assms by (auto simp: ui_input_check_def ui_input_get_buttons_def Let_def)
  have d: "debounce down ts = Some t \<Longrightarrow> t \<in> set ts \<and> 2000 < unat (t - down)" for down ts
    by (induction ts) (auto simp: BUTTON_DEBOUNCE_TICKS_def word_less_nat_alt split: if_splits)
  have x: "bit ((last_button s XOR read_buttons port) AND read_buttons port) n \<longleftrightarrow> bit port n \<and> \<not> bit (last_button s) n"
    if "n \<in> {1, 2, 3}" for n
    using that by (auto simp: bit_simps read_buttons_bit)
  show ?thesis
    using d [OF t] unfolding r button_events_def button_tests by (simp add: x del: One_nat_def)
qed

theorem input_check_new_presses_witness:
  "EVT_UP = (if bit (8 :: u16) 2 \<and> \<not> bit (0 :: u16) 2 then EVT_BUTTON_SINGLE_CLICK else 0) OR
      (if bit (8 :: u16) 3 \<and> \<not> bit (0 :: u16) 3 then EVT_UP else 0) OR
      (if bit (8 :: u16) 1 \<and> \<not> bit (0 :: u16) 1 then EVT_DOWN else 0) \<and>
    2000 < unat (3001 - 1000 :: u32)"
proof -
  have "ui_input_check [1500, 3001] 8 \<lparr>last_button = 0, last_button_down_ticks = 1000, last_button_repeat_ticks = 0\<rparr> =
      Some (EVT_UP, \<lparr>last_button = 8, last_button_down_ticks = 3001, last_button_repeat_ticks = 0\<rparr>)"
    by code_simp
  from input_check_new_presses [OF this] show ?thesis by simp
qed

section \<open>Repeat after the clock wraps\<close>

text \<open>
  The repeat of a held lever compares the clock with the next repeat time by
  value. Once the 32-bit clock has wrapped below that time, a lever that is held, however long,
  is not reported: the wait goes on until the clock passes it again or a button changes.
\<close>

theorem lever_repeat_blocked:
  assumes "\<forall>(ticks, port) \<in> set rs. ticks \<le> last_button_repeat_ticks s \<and> read_buttons port = last_button s"
    and "\<not> bit (last_button s) 2"
  shows "ui_input_wait_release rs s = None"
proof -
  have p: "last_button s AND BUTTON_PUSH = 0"
    using assms(2) button_tests(2) [of "last_button s"] by blast
  show ?thesis
    using assms(1) by (induction rs) (auto simp: release_turn_def ui_input_get_buttons_def Let_def p not_less)
qed

text \<open>The next repeat is due 43 ms before the wrap; eight hours after the wrap there is no event.\<close>

theorem lever_repeat_blocked_witness:
  "ui_input_wait_release (map (\<lambda>i. (of_nat i * 1000000, 8)) [0..<2880])
     \<lparr>last_button = 8, last_button_down_ticks = 4294000000, last_button_repeat_ticks = 4294963000\<rparr> = None"
proof (rule lever_repeat_blocked)
  show "\<forall>(ticks, port) \<in> set (map (\<lambda>i. (of_nat i * 1000000 :: u32, 8)) [0..<2880]).
      ticks \<le> last_button_repeat_ticks \<lparr>last_button = 8, last_button_down_ticks = 4294000000, last_button_repeat_ticks = 4294963000\<rparr> \<and>
      read_buttons port = last_button \<lparr>last_button = 8, last_button_down_ticks = 4294000000, last_button_repeat_ticks = 4294963000\<rparr>"
  proof (clarsimp simp: read_buttons_def BUTTON_DOWN_def BUTTON_PUSH_def BUTTON_UP_def)
    fix i :: nat
    assume "i < 2880"
    then show "word_of_nat i * 1000000 \<le> (4294963000 :: u32)"
      by (simp add: word_le_nat_alt unat_word_ariths unat_of_nat take_bit_nat_eq_self)
  qed
qed simp

end
