(* ===== verification/Ui_Core.thy ===== *)
theory Ui_Core
  imports Board_Events Ui_Input "HOL-Library.Signed_Division"
begin

text \<open>
  \<open>src/src/ui/core/ui_core.c\<close>: the resistive touch panel, the mapping of its readings to the
  screen, the requests the interrupt handlers raise for the main loop, the main loop's step
  \<open>ui_process\<close>, and the progress bar of a sweep. The analogue readings are arguments; the handlers
  of the interface's modes and the calls to the display are recorded.
\<close>

section \<open>The touch panel\<close>

definition TOUCH_THRESHOLD :: u16 where "TOUCH_THRESHOLD = 2000"

datatype touch_event = EVT_TOUCH_NONE | EVT_TOUCH_DOWN | EVT_TOUCH_PRESSED | EVT_TOUCH_RELEASED

text \<open>What the converter reads in one check: the sense line, the two axes, the sense line again.\<close>

record touch_sample =
  sense_before :: u16
  measured_y :: u16
  measured_x :: u16
  sense_after :: u16

record touch_panel =
  touch_interrupt_enabled :: bool
  adc_watchdog :: bool
  last_touch_status :: bool
  last_touch_x :: u16
  last_touch_y :: u16

definition touch_status :: "u16 \<Rightarrow> bool" where
  "touch_status reading \<longleftrightarrow> reading > TOUCH_THRESHOLD"

definition touch_start_watchdog :: "touch_panel \<Rightarrow> touch_panel" where
  "touch_start_watchdog s =
     (if touch_interrupt_enabled s then s else s\<lparr>touch_interrupt_enabled := True, adc_watchdog := True\<rparr>)"

definition touch_stop_watchdog :: "touch_panel \<Rightarrow> touch_panel" where
  "touch_stop_watchdog s =
     (if \<not> touch_interrupt_enabled s then s else s\<lparr>touch_interrupt_enabled := False, adc_watchdog := False\<rparr>)"

definition touch_check :: "touch_sample \<Rightarrow> touch_panel \<Rightarrow> touch_event \<times> touch_panel" where
  "touch_check r s =
     (let s = touch_stop_watchdog s;
          stat = touch_status (sense_before r);
          s = (if stat \<and> touch_status (sense_after r) then s\<lparr>last_touch_x := measured_x r, last_touch_y := measured_y r\<rparr> else s)
      in if stat \<noteq> last_touch_status s
         then (if stat then EVT_TOUCH_PRESSED else EVT_TOUCH_RELEASED, s\<lparr>last_touch_status := stat\<rparr>)
         else (if stat then EVT_TOUCH_DOWN else EVT_TOUCH_NONE, s))"

text \<open>\<open>while (touch_check() != EVT_TOUCH_RELEASED)\<close>; \<open>None\<close>: the readings end before the release.\<close>

fun touch_wait_release :: "touch_sample list \<Rightarrow> touch_panel \<Rightarrow> (touch_panel \<times> touch_sample list) option" where
  "touch_wait_release [] s = None"
| "touch_wait_release (r # rs) s =
     (case touch_check r s of (ev, s) \<Rightarrow> if ev \<noteq> EVT_TOUCH_RELEASED then touch_wait_release rs s else Some (s, rs))"

section \<open>From readings to the screen\<close>

definition LCD_WIDTH :: int where "LCD_WIDTH = 320"
definition LCD_HEIGHT :: int where "LCD_HEIGHT = 240"
definition CALIBRATION_OFFSET :: int where "CALIBRATION_OFFSET = 16"

lemmas lcd_size = LCD_WIDTH_def LCD_HEIGHT_def CALIBRATION_OFFSET_def

text \<open>
  \<open>config._touch_cal\<close>: the readings at the upper left and at the lower right mark, of type \<open>int16_t\<close>.
\<close>

type_synonym touch_cal = "u16 \<times> u16 \<times> u16 \<times> u16"

text \<open>
  \<open>ui_touch_cal_exec\<close>: the two marks are touched one after the other; each takes the readings of
  the last confirmed touch before the release.
\<close>

definition get_touch_point :: "touch_sample list \<Rightarrow> touch_panel \<Rightarrow> ((u16 \<times> u16) \<times> touch_panel \<times> touch_sample list) option" where
  "get_touch_point rs s =
     (case touch_wait_release rs s of None \<Rightarrow> None | Some (s, rs) \<Rightarrow> Some ((last_touch_x s, last_touch_y s), s, rs))"

definition ui_touch_cal_exec :: "touch_sample list \<Rightarrow> touch_panel \<Rightarrow> (touch_cal \<times> touch_panel \<times> touch_sample list) option" where
  "ui_touch_cal_exec rs s =
     (case get_touch_point rs s of None \<Rightarrow> None
      | Some ((x0, y0), s, rs) \<Rightarrow>
        case get_touch_point rs s of None \<Rightarrow> None
        | Some ((x1, y1), s, rs) \<Rightarrow> Some ((x0, y0, x1, y1), s, rs))"

text \<open>
  The static variables of \<open>touch_position\<close>. The products are 64 bits wide and every value fits its
  type (\<open>touch_scale_bound\<close> below), so that integers stand for them.
\<close>

record touch_scale =
  cal_cache :: touch_cal
  scale_x :: int
  scale_y :: int
  scale_ready :: bool

definition touch_scale0 :: touch_scale where
  "touch_scale0 = \<lparr>cal_cache = (0, 0, 0, 0), scale_x = 0, scale_y = 0, scale_ready = False\<rparr>"

definition touch_rescale :: "touch_cal \<Rightarrow> touch_scale \<Rightarrow> touch_scale" where
  "touch_rescale cal s =
     (case cal of (c0, c1, c2, c3) \<Rightarrow>
       let s = (if \<not> scale_ready s then s\<lparr>scale_x := push_bit 16 1, scale_y := push_bit 16 1, scale_ready := True\<rparr> else s)
       in if cal_cache s \<noteq> cal then
            let s = s\<lparr>cal_cache := cal\<rparr>;
                denom_x = sint c2 - sint c0;
                denom_y = sint c3 - sint c1
            in if denom_x \<noteq> 0 \<and> denom_y \<noteq> 0 then
                 s\<lparr>scale_x := push_bit 16 (LCD_WIDTH - 1 - 2 * CALIBRATION_OFFSET) sdiv denom_x,
                   scale_y := push_bit 16 (LCD_HEIGHT - 1 - 2 * CALIBRATION_OFFSET) sdiv denom_y\<rparr>
               else s\<lparr>scale_x := push_bit 16 1, scale_y := push_bit 16 1\<rparr>
          else s)"

definition touch_axis :: "int \<Rightarrow> int \<Rightarrow> u16 \<Rightarrow> u16 \<Rightarrow> int" where
  "touch_axis width scale c pos =
     (let t = drop_bit 16 (scale * (sint pos - sint c)) + CALIBRATION_OFFSET
      in if t < 0 then 0 else if t \<ge> width then width - 1 else t)"

definition touch_position :: "touch_cal \<Rightarrow> u16 \<Rightarrow> u16 \<Rightarrow> touch_scale \<Rightarrow> (int \<times> int) \<times> touch_scale" where
  "touch_position cal x y s =
     (let s = touch_rescale cal s in
      case cal of (c0, c1, c2, c3) \<Rightarrow>
        ((touch_axis LCD_WIDTH (scale_x s) c0 x, touch_axis LCD_HEIGHT (scale_y s) c1 y), s))"

section \<open>Requests and the main loop\<close>

definition UI_CONTROLLER_REQUEST_LEVER :: u8 where "UI_CONTROLLER_REQUEST_LEVER = 1"
definition UI_CONTROLLER_REQUEST_TOUCH :: u8 where "UI_CONTROLLER_REQUEST_TOUCH = 2"
definition UI_CONTROLLER_REQUEST_CONSOLE :: u8 where "UI_CONTROLLER_REQUEST_CONSOLE = 4"

lemmas ui_requests = UI_CONTROLLER_REQUEST_LEVER_def UI_CONTROLLER_REQUEST_TOUCH_def UI_CONTROLLER_REQUEST_CONSOLE_def

datatype ui_mode = UI_NORMAL | UI_MENU | UI_KEYPAD | UI_BROWSER

text \<open>The calls to the handlers of the current mode.\<close>

datatype ui_call = Button_Handler ui_mode u16 | Touch_Handler ui_mode int int

record ui_core =
  ui_request_flags :: u8
  ui_board_events :: "board_events option"
  ui_board_events_subscribed :: bool
  ui_mode :: ui_mode
  ui_input :: input_state
  ui_touch :: touch_panel
  ui_scale :: touch_scale
  ui_touch_cal :: touch_cal

definition ui_controller_set_request :: "u8 \<Rightarrow> ui_core \<Rightarrow> ui_core" where
  "ui_controller_set_request flags s = s\<lparr>ui_request_flags := ui_request_flags s OR flags\<rparr>"

definition ui_controller_acquire_requests :: "u8 \<Rightarrow> ui_core \<Rightarrow> u8 \<times> ui_core" where
  "ui_controller_acquire_requests flags s =
     (let pending = ui_request_flags s AND flags in (pending, s\<lparr>ui_request_flags := ui_request_flags s AND NOT pending\<rparr>))"

definition ui_controller_release_requests :: "u8 \<Rightarrow> ui_core \<Rightarrow> ui_core" where
  "ui_controller_release_requests flags s = s\<lparr>ui_request_flags := ui_request_flags s AND NOT flags\<rparr>"

definition ui_controller_pending_requests :: "ui_core \<Rightarrow> u8" where
  "ui_controller_pending_requests s =
     (let flags = ui_request_flags s in
      case ui_board_events s of None \<Rightarrow> flags
      | Some es \<Rightarrow>
        let pending_mask = board_events_pending_mask (Some es);
            flags = (if pending_mask AND push_bit BOARD_EVENT_BUTTON 1 \<noteq> 0 then flags OR UI_CONTROLLER_REQUEST_LEVER else flags)
        in if pending_mask AND push_bit BOARD_EVENT_TOUCH 1 \<noteq> 0 then flags OR UI_CONTROLLER_REQUEST_TOUCH else flags)"

text \<open>The listeners the interface subscribes, by name.\<close>

definition ui_controller_on_button_event :: nat where "ui_controller_on_button_event = 1"
definition ui_controller_on_touch_event :: nat where "ui_controller_on_touch_event = 2"

definition ui_controller_call :: "board_call \<Rightarrow> ui_core \<Rightarrow> ui_core" where
  "ui_controller_call c s =
     (case c of (listener, event, user_data) \<Rightarrow>
       if listener = ui_controller_on_button_event then ui_controller_set_request UI_CONTROLLER_REQUEST_LEVER s
       else if listener = ui_controller_on_touch_event then ui_controller_set_request UI_CONTROLLER_REQUEST_TOUCH s
       else s)"

definition ui_controller_configure :: "board_events option \<Rightarrow> ui_core \<Rightarrow> ui_core" where
  "ui_controller_configure events s =
     (let s = s\<lparr>ui_board_events := events\<rparr> in
      if events \<noteq> None \<and> \<not> ui_board_events_subscribed s then
        let e = snd (board_events_subscribe events BOARD_EVENT_BUTTON (Some ui_controller_on_button_event) 0);
            e = snd (board_events_subscribe e BOARD_EVENT_TOUCH (Some ui_controller_on_touch_event) 0)
        in s\<lparr>ui_board_events := e, ui_board_events_subscribed := True\<rparr>
      else s)"

definition ui_controller_publish_board_event :: "nat \<Rightarrow> u16 \<Rightarrow> bool \<Rightarrow> ui_core \<Rightarrow> ui_core" where
  "ui_controller_publish_board_event topic channel from_isr s =
     (case ui_board_events s of None \<Rightarrow> s
      | Some es \<Rightarrow>
        let event = \<lparr>be_topic = topic, be_channel = channel\<rparr>
        in s\<lparr>ui_board_events :=
               (if from_isr then snd (board_events_publish_from_isr (Some es) (Some event))
                else snd (board_events_publish (Some es) (Some event)))\<rparr>)"

definition handle_button_interrupt :: "u16 \<Rightarrow> ui_core \<Rightarrow> ui_core" where
  "handle_button_interrupt channel s = ui_controller_publish_board_event BOARD_EVENT_BUTTON channel True s"

definition handle_touch_interrupt :: "ui_core \<Rightarrow> ui_core" where
  "handle_touch_interrupt s = ui_controller_publish_board_event BOARD_EVENT_TOUCH 0 True s"

definition ui_process_lever :: "u32 list \<Rightarrow> u16 \<Rightarrow> ui_core \<Rightarrow> (ui_core \<times> ui_call list) option" where
  "ui_process_lever clock port s =
     (case ui_input_check clock port (ui_input s) of None \<Rightarrow> None
      | Some (status, inp) \<Rightarrow>
          Some (s\<lparr>ui_input := inp\<rparr>, if status \<noteq> 0 then [Button_Handler (ui_mode s) status] else []))"

definition ui_process_touch :: "touch_sample \<Rightarrow> ui_core \<Rightarrow> ui_core \<times> ui_call list" where
  "ui_process_touch r s =
     (case touch_check r (ui_touch s) of (status, t) \<Rightarrow>
       let s = s\<lparr>ui_touch := t\<rparr> in
       if status = EVT_TOUCH_PRESSED \<or> status = EVT_TOUCH_DOWN then
         case touch_position (ui_touch_cal s) (last_touch_x t) (last_touch_y t) (ui_scale s) of
           ((touch_x, touch_y), sc) \<Rightarrow> (s\<lparr>ui_scale := sc\<rparr>, [Touch_Handler (ui_mode s) touch_x touch_y])
       else (s, []))"

text \<open>One turn of the main loop, up to what the handlers do.\<close>

definition ui_process :: "u32 list \<Rightarrow> u16 \<Rightarrow> touch_sample \<Rightarrow> ui_core \<Rightarrow> (ui_core \<times> ui_call list) option" where
  "ui_process clock port r s =
     (case ui_controller_dispatch_board_events (ui_board_events s) of None \<Rightarrow> None
      | Some (events, calls) \<Rightarrow>
        let s = fold ui_controller_call calls (s\<lparr>ui_board_events := events\<rparr>) in
        case ui_controller_acquire_requests (UI_CONTROLLER_REQUEST_LEVER OR UI_CONTROLLER_REQUEST_TOUCH) s of
          (requests, s) \<Rightarrow>
            case (if requests AND UI_CONTROLLER_REQUEST_LEVER \<noteq> 0 then ui_process_lever clock port s else Some (s, [])) of
              None \<Rightarrow> None
            | Some (s, c1) \<Rightarrow>
              case (if requests AND UI_CONTROLLER_REQUEST_TOUCH \<noteq> 0 then ui_process_touch r s else (s, [])) of
                (s, c2) \<Rightarrow> Some (s\<lparr>ui_touch := touch_start_watchdog (ui_touch s)\<rparr>, c1 @ c2))"

section \<open>The progress bar\<close>

definition WIDTH :: u16 where "WIDTH = 300"

datatype bar_color = LCD_SWEEP_LINE_COLOR | LCD_GRID_COLOR

text \<open>
  The calls of the bar to the display: the background colour and a row of pixels, from its offset
  in the bar (the origin \<open>OFFSETX + CELLOFFSETX\<close> is left out) and its length.
\<close>

datatype bar_call = Set_Background bar_color | Fill nat nat

record sweep_bar =
  sweep_bar_drawn_pixels :: u16
  sweep_bar_pending :: u8

definition sweep_bar_progress :: "u16 \<Rightarrow> sweep_bar \<Rightarrow> sweep_bar \<times> bar_call list" where
  "sweep_bar_progress pixels s =
     (if pixels = 0 then (s\<lparr>sweep_bar_drawn_pixels := 0, sweep_bar_pending := 0\<rparr>, [Set_Background LCD_SWEEP_LINE_COLOR])
      else if pixels \<ge> WIDTH then
        let (s, c1) = (if sweep_bar_pending s > 0
              then (s\<lparr>sweep_bar_drawn_pixels := sweep_bar_drawn_pixels s + ucast (sweep_bar_pending s)\<rparr>,
                    [Fill (unat (sweep_bar_drawn_pixels s)) (unat (sweep_bar_pending s))])
              else (s, []));
            s = s\<lparr>sweep_bar_pending := 0\<rparr>;
            c2 = (if sweep_bar_drawn_pixels s > 0 then [Fill 0 (unat (sweep_bar_drawn_pixels s))] else [])
        in (s\<lparr>sweep_bar_drawn_pixels := 0\<rparr>, c1 @ Set_Background LCD_GRID_COLOR # c2)
      else if pixels > sweep_bar_drawn_pixels s then
        let delta = pixels - sweep_bar_drawn_pixels s - ucast (sweep_bar_pending s);
            draw = ucast (sweep_bar_pending s) + delta
        in if draw \<ge> 2 then
             (s\<lparr>sweep_bar_drawn_pixels := sweep_bar_drawn_pixels s + draw, sweep_bar_pending := 0\<rparr>,
              [Fill (unat (sweep_bar_drawn_pixels s)) (unat draw)])
           else (s\<lparr>sweep_bar_pending := ucast draw\<rparr>, [])
      else (s, []))"

fun sweep_bar_run :: "u16 list \<Rightarrow> sweep_bar \<Rightarrow> sweep_bar \<times> bar_call list" where
  "sweep_bar_run [] s = (s, [])"
| "sweep_bar_run (p # ps) s =
     (case sweep_bar_progress p s of (s, c) \<Rightarrow> case sweep_bar_run ps s of (s, cs) \<Rightarrow> (s, c @ cs))"

text \<open>The colour of each pixel of the row after the calls, with the background set at the start.\<close>

fun bar_paint :: "bar_call list \<Rightarrow> bar_color \<Rightarrow> (nat \<Rightarrow> bar_color) \<Rightarrow> nat \<Rightarrow> bar_color" where
  "bar_paint [] bg row = row"
| "bar_paint (Set_Background c # cs) bg row = bar_paint cs c row"
| "bar_paint (Fill a n # cs) bg row = bar_paint cs bg (\<lambda>i. if a \<le> i \<and> i < a + n then bg else row i)"

section \<open>What a touch means on the screen\<close>

text \<open>The mapping without the cache: the scale of the calibration in force.\<close>

definition touch_scale_of :: "int \<Rightarrow> int \<Rightarrow> int" where
  "touch_scale_of width denom = push_bit 16 (width - 1 - 2 * CALIBRATION_OFFSET) sdiv denom"

definition touch_map :: "touch_cal \<Rightarrow> u16 \<Rightarrow> u16 \<Rightarrow> int \<times> int" where
  "touch_map cal x y =
     (case cal of (c0, c1, c2, c3) \<Rightarrow>
       if c2 \<noteq> c0 \<and> c3 \<noteq> c1
       then (touch_axis LCD_WIDTH (touch_scale_of LCD_WIDTH (sint c2 - sint c0)) c0 x,
             touch_axis LCD_HEIGHT (touch_scale_of LCD_HEIGHT (sint c3 - sint c1)) c1 y)
       else (touch_axis LCD_WIDTH 65536 c0 x, touch_axis LCD_HEIGHT 65536 c1 y))"

definition scale_good :: "touch_scale \<Rightarrow> bool" where
  "scale_good s \<longleftrightarrow>
     (case cal_cache s of (c0, c1, c2, c3) \<Rightarrow>
       if scale_ready s then
         if c2 \<noteq> c0 \<and> c3 \<noteq> c1
         then scale_x s = touch_scale_of LCD_WIDTH (sint c2 - sint c0) \<and> scale_y s = touch_scale_of LCD_HEIGHT (sint c3 - sint c1)
         else scale_x s = 65536 \<and> scale_y s = 65536
       else cal_cache s = (0, 0, 0, 0))"

lemma sint_eq_sint: "sint a = sint b \<longleftrightarrow> a = (b :: u16)"
  by (metis signed_word_eqI)

lemma touch_position_map:
  assumes "scale_good s"
  shows "fst (touch_position cal x y s) = touch_map cal x y" "scale_good (snd (touch_position cal x y s))"
proof -
  obtain c0 c1 c2 c3 where c: "cal = (c0, c1, c2, c3)" by (cases cal)
  show "fst (touch_position cal x y s) = touch_map cal x y"
    using assms unfolding c
    by (cases "scale_ready s"; cases "cal_cache s = cal")
      (auto simp: c touch_position_def touch_rescale_def touch_map_def scale_good_def touch_scale_of_def Let_def sint_eq_sint)
  show "scale_good (snd (touch_position cal x y s))"
    using assms unfolding c
    by (cases "scale_ready s"; cases "cal_cache s = cal")
      (auto simp: c touch_position_def touch_rescale_def scale_good_def touch_scale_of_def Let_def sint_eq_sint)
qed

fun touch_positions :: "(touch_cal \<times> u16 \<times> u16) list \<Rightarrow> touch_scale \<Rightarrow> (int \<times> int) list" where
  "touch_positions [] s = []"
| "touch_positions ((cal, x, y) # qs) s =
     (case touch_position cal x y s of (p, s) \<Rightarrow> p # touch_positions qs s)"

text \<open>
  C18 Over any sequence of touches with the calibration changing in any way
  between them, each position is the one the calibration in force gives: the cached scales are
  never stale, degenerate calibrations included.
\<close>

theorem touch_cache_transparent:
  "touch_positions qs touch_scale0 = map (\<lambda>(cal, x, y). touch_map cal x y) qs"
proof -
  have "scale_good s \<Longrightarrow> touch_positions qs s = map (\<lambda>(cal, x, y). touch_map cal x y) qs" for s
  proof (induction qs arbitrary: s)
    case (Cons q qs)
    obtain cal x y where q: "q = (cal, x, y)" by (cases q)
    show ?case
      using touch_position_map [OF Cons.prems, of cal x y] Cons.IH by (simp add: q split_beta)
  qed simp
  then show ?thesis by (simp add: scale_good_def touch_scale0_def)
qed

lemma sint_u16_bound: "- 32768 \<le> sint (x :: u16)" "sint (x :: u16) \<le> 32767"
  using sint_greater_eq [of x] sint_less [of x] by simp_all

lemma sdiv_times:
  fixes n d :: int
  assumes "0 \<le> n" "d \<noteq> 0"
  shows "n sdiv d * d = n - n mod \<bar>d\<bar>"
proof -
  have "n sdiv d * d = n div \<bar>d\<bar> * \<bar>d\<bar>"
    using assms by (auto simp: signed_divide_int_def sgn_if abs_if)
  then show ?thesis by (simp add: minus_mod_eq_div_mult)
qed

lemma abs_sdiv: "d \<noteq> 0 \<Longrightarrow> \<bar>n sdiv d\<bar> = \<bar>n\<bar> div \<bar>d\<bar>" for n d :: int
  by (cases "n = 0") (simp_all add: signed_divide_int_def abs_mult abs_sgn_eq pos_imp_zdiv_nonneg_iff)

lemma touch_scale_span:
  fixes k d :: int
  assumes "0 \<le> k" "d \<noteq> 0" "\<bar>d\<bar> < 65536"
  shows "drop_bit 16 (push_bit 16 k sdiv d * d) \<in> {k - 1, k}"
proof -
  have "(65536 * k) mod \<bar>d\<bar> < \<bar>d\<bar>" using assms(2) by (intro pos_mod_bound) simp
  then have r: "0 \<le> (65536 * k) mod \<bar>d\<bar>" "(65536 * k) mod \<bar>d\<bar> < 65536"
    using assms(2,3) by (simp_all only: less_trans) simp
  have "push_bit 16 k sdiv d * d = 65536 * k - (65536 * k) mod \<bar>d\<bar>"
    using sdiv_times [of "65536 * k" d] assms(1,2) by (simp add: push_bit_eq_mult mult.commute)
  moreover have "(65536 * k - (65536 * k) mod \<bar>d\<bar>) div 65536 \<in> {k - 1, k}" using r by auto
  ultimately show ?thesis by (simp add: drop_bit_eq_div)
qed

text \<open>The scale fits 32 bits, and so does every product after the shift.\<close>

lemma touch_scale_bound:
  fixes k d :: int and a b :: u16
  assumes "0 \<le> k" "k \<le> 287"
  shows "\<bar>push_bit 16 k sdiv d\<bar> \<le> 18808832"
    "\<bar>drop_bit 16 (push_bit 16 k sdiv d * (sint a - sint b))\<bar> \<le> 18808832"
proof -
  have k: "\<bar>65536 * k\<bar> \<le> 18808832" using assms by simp
  have "\<bar>push_bit 16 k sdiv d\<bar> \<le> \<bar>65536 * k\<bar>"
  proof (cases "d = 0")
    case False
    then have "\<bar>(65536 * k) sdiv d\<bar> = \<bar>65536 * k\<bar> div \<bar>d\<bar>" by (rule abs_sdiv)
    also have "\<dots> \<le> \<bar>65536 * k\<bar> div 1" using False by (intro zdiv_mono2) auto
    finally show ?thesis by (simp add: push_bit_eq_mult mult.commute)
  qed (simp add: signed_divide_int_def)
  then show s: "\<bar>push_bit 16 k sdiv d\<bar> \<le> 18808832" using k by linarith
  let ?q = "push_bit 16 k sdiv d" and ?x = "sint a - sint b"
  have "\<bar>?q * ?x\<bar> \<le> 18808832 * 65536"
    unfolding abs_mult using s sint_u16_bound [of a] sint_u16_bound [of b] by (intro mult_mono) auto
  then show "\<bar>drop_bit 16 (?q * ?x)\<bar> \<le> 18808832" by (simp add: drop_bit_eq_div abs_le_iff) linarith
qed

lemma touch_map_bounds:
  "(\<forall>x y. fst (touch_map (c0, c1, c2, c3) x y) \<in> {0..<320} \<and> snd (touch_map (c0, c1, c2, c3) x y) \<in> {0..<240}) \<and>
   (c0 = c2 \<or> c1 = c3 \<or>
     touch_map (c0, c1, c2, c3) c0 c1 = (16, 16) \<and>
     fst (touch_map (c0, c1, c2, c3) c2 c3) \<in> {302, 303} \<and> snd (touch_map (c0, c1, c2, c3) c2 c3) \<in> {222, 223})"
proof -
  have a: "touch_axis w s c x \<in> {0..<w}" if "0 < w" for w s c x
    using that by (auto simp: touch_axis_def Let_def)
  have first: "touch_axis w s c c = 16" if "16 < w" for w s c
    using that by (simp add: touch_axis_def CALIBRATION_OFFSET_def)
  have last: "touch_axis w (touch_scale_of w (sint b - sint a)) a b \<in> {w - 18, w - 17}"
    if "40 \<le> w" "a \<noteq> b" for w and a b :: u16
  proof -
    have d: "sint b - sint a \<noteq> 0" "\<bar>sint b - sint a\<bar> < 65536"
      using that(2) sint_u16_bound [of a] sint_u16_bound [of b] by (auto simp: sint_eq_sint)
    show ?thesis
      using touch_scale_span [OF _ d, of "w - 33"] that(1)
      by (auto simp: touch_axis_def touch_scale_of_def CALIBRATION_OFFSET_def Let_def)
  qed
  show ?thesis
    using a [of 320] a [of 240] first [of 320] first [of 240]
      last [of 320 c0 c2] last [of 240 c1 c3]
    by (auto simp: touch_map_def lcd_size)
qed

section \<open>A touch that ends while it is measured\<close>

text \<open>
  When the finger leaves the panel between the two readings of the sense
  line, the new position is rightly dropped, yet the press is still reported: the handler of the
  mode is called with the position of the touch before.
\<close>

theorem touch_stale_position:
  assumes "sense_before r > 2000" "sense_after r \<le> 2000" "scale_good (ui_scale s)"
  shows "snd (ui_process_touch r s) =
    [Touch_Handler (ui_mode s) (fst (touch_map (ui_touch_cal s) (last_touch_x (ui_touch s)) (last_touch_y (ui_touch s))))
       (snd (touch_map (ui_touch_cal s) (last_touch_x (ui_touch s)) (last_touch_y (ui_touch s))))]"
proof -
  let ?t = "touch_stop_watchdog (ui_touch s)"
  have t: "last_touch_x ?t = last_touch_x (ui_touch s)" "last_touch_y ?t = last_touch_y (ui_touch s)"
    by (simp_all add: touch_stop_watchdog_def)
  have b: "touch_status (sense_before r)" "\<not> touch_status (sense_after r)"
    using assms(1,2) by (auto simp: touch_status_def TOUCH_THRESHOLD_def)
  show ?thesis
    using touch_position_map(1) [OF assms(3), of "ui_touch_cal s" "last_touch_x (ui_touch s)" "last_touch_y (ui_touch s)"]
    by (simp add: ui_process_touch_def touch_check_def b Let_def t split_beta)
qed

definition ui_demo :: ui_core where
  "ui_demo = \<lparr>ui_request_flags = 0, ui_board_events = Some board_demo, ui_board_events_subscribed = False, ui_mode = UI_MENU,
     ui_input = \<lparr>last_button = 0, last_button_down_ticks = 0, last_button_repeat_ticks = 0\<rparr>,
     ui_touch = \<lparr>touch_interrupt_enabled = True, adc_watchdog = True, last_touch_status = False, last_touch_x = 700, last_touch_y = 800\<rparr>,
     ui_scale = touch_scale0, ui_touch_cal = (372, 588, 3635, 3634)\<rparr>"

text \<open>
  A mark is held while the panel is pressed in every sample, \<open>held\<close>, and let go in the next one; what
  the panel did before, \<open>touch_scales\<close>, is any sequence of touches under any calibrations.
\<close>

definition held :: "touch_sample \<Rightarrow> bool" where
  "held r \<longleftrightarrow> touch_status (sense_before r) \<and> touch_status (sense_after r)"

fun touch_scales :: "(touch_cal \<times> u16 \<times> u16) list \<Rightarrow> touch_scale" where
  "touch_scales [] = touch_scale0"
| "touch_scales ((cal, x, y) # qs) = snd (touch_position cal x y (touch_scales qs))"

lemma touch_scales_good: "scale_good (touch_scales qs)"
  by (induction qs rule: touch_scales.induct) (simp_all add: touch_position_map(2), simp add: scale_good_def touch_scale0_def)

lemma wait_release_held:
  assumes "as \<noteq> []" "\<forall>r \<in> set as. held r" "\<not> touch_status (sense_before r)"
  shows "\<exists>s'. touch_wait_release (as @ r # rest) s = Some (s', rest) \<and>
    last_touch_x s' = measured_x (List.last as) \<and> last_touch_y s' = measured_y (List.last as)"
  using assms(1,2)
proof (induction as arbitrary: s)
  case (Cons q as)
  obtain ev t where c: "touch_check q s = (ev, t)" by (cases "touch_check q s")
  have q: "touch_status (sense_before q)" "touch_status (sense_after q)" using Cons.prems(2) by (simp_all add: held_def)
  have t: "ev \<noteq> EVT_TOUCH_RELEASED" "last_touch_x t = measured_x q" "last_touch_y t = measured_y q" "last_touch_status t"
    using c q by (auto simp: touch_check_def Let_def split: if_splits)
  show ?case
  proof (cases "as = []")
    case True
    then show ?thesis using c t assms(3) by (simp add: touch_check_def Let_def touch_stop_watchdog_def)
  next
    case False
    then show ?thesis using Cons.IH [OF False, of t] Cons.prems(2) c t(1) by simp
  qed
qed simp

text \<open>
  C22 The calibration of the panel: the upper left mark is held and let go, then the lower right
  one. \<open>ui_touch_cal_exec\<close> takes the last readings of each, and from then on, whatever
  was touched before, \<open>touch_position\<close> maps every reading to a pixel of the display; when the two readings differ on both
  axes, mirrored ones included, that of the upper left mark maps to the mark, (16, 16), and that of the lower
  right one to its mark (303, 223) or one pixel before it on either axis.
\<close>

theorem touch_map_corners:
  assumes "as \<noteq> []" "bs \<noteq> []" "\<forall>r \<in> set (as @ bs). held r" "\<not> touch_status (sense_before r1)" "\<not> touch_status (sense_before r2)"
  defines "p \<equiv> List.last as" and "q \<equiv> List.last bs"
  shows "\<exists>cal s'. ui_touch_cal_exec (as @ r1 # bs @ r2 # rest) s = Some (cal, s', rest) \<and>
    (\<forall>qs x y. fst (fst (touch_position cal x y (touch_scales qs))) \<in> {0..<320} \<and> snd (fst (touch_position cal x y (touch_scales qs))) \<in> {0..<240}) \<and>
    (measured_x p \<noteq> measured_x q \<and> measured_y p \<noteq> measured_y q \<longrightarrow>
       (\<forall>qs. fst (touch_position cal (measured_x p) (measured_y p) (touch_scales qs)) = (16, 16) \<and>
         fst (fst (touch_position cal (measured_x q) (measured_y q) (touch_scales qs))) \<in> {302, 303} \<and>
         snd (fst (touch_position cal (measured_x q) (measured_y q) (touch_scales qs))) \<in> {222, 223}))"
proof -
  let ?cal = "(measured_x p, measured_y p, measured_x q, measured_y q)"
  obtain s1 where 1: "touch_wait_release (as @ r1 # bs @ r2 # rest) s = Some (s1, bs @ r2 # rest)"
    "last_touch_x s1 = measured_x p" "last_touch_y s1 = measured_y p"
    using wait_release_held [OF assms(1) _ assms(4), of "bs @ r2 # rest" s] assms(3) unfolding p_def by auto
  obtain s2 where 2: "touch_wait_release (bs @ r2 # rest) s1 = Some (s2, rest)"
    "last_touch_x s2 = measured_x q" "last_touch_y s2 = measured_y q"
    using wait_release_held [OF assms(2) _ assms(5), of rest s1] assms(3) unfolding q_def by auto
  have "ui_touch_cal_exec (as @ r1 # bs @ r2 # rest) s = Some (?cal, s2, rest)"
    by (simp add: ui_touch_cal_exec_def get_touch_point_def 1 2)
  moreover have "fst (touch_position cal x y (touch_scales qs)) = touch_map cal x y" for cal x y qs
    by (rule touch_position_map(1) [OF touch_scales_good])
  ultimately show ?thesis
    using touch_map_bounds [of "measured_x p" "measured_y p" "measured_x q" "measured_y q"] by (intro exI [of _ ?cal] exI [of _ s2]) auto
qed

text \<open>The panel of a typical device, each mark seen in two samples.\<close>

theorem touch_map_corners_witness:
  "\<exists>cal s'. ui_touch_cal_exec
      [\<lparr>sense_before = 3000, measured_y = 500, measured_x = 400, sense_after = 3000\<rparr>,
       \<lparr>sense_before = 3000, measured_y = 588, measured_x = 372, sense_after = 3000\<rparr>,
       \<lparr>sense_before = 0, measured_y = 0, measured_x = 0, sense_after = 0\<rparr>,
       \<lparr>sense_before = 3000, measured_y = 3634, measured_x = 3635, sense_after = 3000\<rparr>,
       \<lparr>sense_before = 0, measured_y = 0, measured_x = 0, sense_after = 0\<rparr>] (ui_touch ui_demo) = Some (cal, s', []) \<and>
    fst (touch_position cal 372 588 (touch_scales [])) = (16, 16)"
proof -
  let ?as = "[\<lparr>sense_before = 3000, measured_y = 500, measured_x = 400, sense_after = 3000\<rparr>,
    \<lparr>sense_before = 3000, measured_y = 588, measured_x = 372, sense_after = 3000\<rparr>]"
  let ?bs = "[\<lparr>sense_before = 3000, measured_y = 3634, measured_x = 3635, sense_after = 3000\<rparr>]"
  let ?r = "\<lparr>sense_before = 0, measured_y = 0, measured_x = 0, sense_after = 0\<rparr>"
  have c: "?as \<noteq> []" "?bs \<noteq> []" "\<forall>r \<in> set (?as @ ?bs). held r" "\<not> touch_status (sense_before ?r)"
    by (simp_all add: held_def touch_status_def TOUCH_THRESHOLD_def)
  obtain cal s' where e: "ui_touch_cal_exec (?as @ ?r # ?bs @ ?r # []) (ui_touch ui_demo) = Some (cal, s', [])"
    and p: "measured_x (last ?as) \<noteq> measured_x (last ?bs) \<and> measured_y (last ?as) \<noteq> measured_y (last ?bs) \<longrightarrow>
      (\<forall>qs. fst (touch_position cal (measured_x (last ?as)) (measured_y (last ?as)) (touch_scales qs)) = (16, 16))"
    using touch_map_corners [OF c c(4), of "[]" "ui_touch ui_demo"] by blast
  have "fst (touch_position cal 372 588 (touch_scales [])) = (16, 16)" using p by (auto simp del: touch_scales.simps)
  with e show ?thesis by (intro exI [of _ cal] exI [of _ s']) simp
qed

text \<open>The panel was last touched near the upper left corner; the finger now is elsewhere.\<close>

theorem touch_stale_position_witness:
  "snd (ui_process_touch \<lparr>sense_before = 2500, measured_y = 3000, measured_x = 3000, sense_after = 100\<rparr> ui_demo) =
    [Touch_Handler UI_MENU 44 30]"
proof -
  have m: "touch_map (372, 588, 3635, 3634) 700 800 = (44, 30)"
    by (simp add: touch_map_def touch_axis_def touch_scale_of_def lcd_size push_bit_eq_mult drop_bit_eq_div Let_def)
  have "scale_good (ui_scale ui_demo)" by (simp add: ui_demo_def scale_good_def touch_scale0_def)
  from touch_stale_position [OF _ _ this, of "\<lparr>sense_before = 2500, measured_y = 3000, measured_x = 3000, sense_after = 100\<rparr>"]
  show ?thesis by (simp add: m ui_demo_def)
qed

section \<open>What one turn of the main loop serves\<close>

text \<open>The interface is subscribed to both topics of the board's events.\<close>

definition ui_wired :: "ui_core \<Rightarrow> bool" where
  "ui_wired s \<longleftrightarrow> (\<exists>es. ui_board_events s = Some es \<and> board_ok es \<and>
     be_listeners es = [Some ui_controller_on_button_event, Some ui_controller_on_touch_event])"

lemma ui_controller_configure_wired:
  assumes "board_ok es" "\<not> ui_board_events_subscribed s"
  shows "ui_wired (ui_controller_configure (Some es) s)"
proof -
  have "[a, b][0 := x, Suc 0 := y] = [x, y]" for a b x y :: "nat option" by simp
  then show ?thesis
    using assms
    by (auto simp: ui_controller_configure_def board_events_subscribe_def ui_wired_def board_ok_def board_topics Let_def
        numeral_2_eq_2 length_Suc_conv)
qed

lemma call_request:
  "ui_controller_call (l, ev, d) s =
     s\<lparr>ui_request_flags := ui_request_flags s OR
         (if l = ui_controller_on_button_event then 1 else if l = ui_controller_on_touch_event then 2 else 0)\<rparr>"
  by (simp add: ui_controller_call_def ui_controller_set_request_def ui_requests ui_controller_on_button_event_def
      ui_controller_on_touch_event_def)

lemma calls_request:
  "fold ui_controller_call cs s =
     s\<lparr>ui_request_flags := ui_request_flags s OR
        (if \<exists>(l, ev, d) \<in> set cs. l = ui_controller_on_button_event then 1 else 0) OR
        (if \<exists>(l, ev, d) \<in> set cs. l = ui_controller_on_touch_event then 2 else 0)\<rparr>"
proof (induction cs arbitrary: s)
  case (Cons c cs)
  obtain l ev d where c: "c = (l, ev, d)" by (cases c)
  show ?case
    by (cases s) (auto simp: c Cons.IH call_request ui_controller_on_button_event_def ui_controller_on_touch_event_def
        or.assoc or.left_commute or.commute)
qed (cases s, simp)

lemma dispatch_requests:
  assumes "ui_wired s"
  obtains events calls where
    "ui_controller_dispatch_board_events (ui_board_events s) = Some (Some events, calls)"
    "board_events_pending_mask (Some events) = 0"
    "fold ui_controller_call calls (s\<lparr>ui_board_events := Some events\<rparr>) =
       s\<lparr>ui_board_events := Some events, ui_request_flags := ui_controller_pending_requests s\<rparr>"
proof -
  obtain es where es: "ui_board_events s = Some es" "board_ok es"
    "be_listeners es = [Some ui_controller_on_button_event, Some ui_controller_on_touch_event]"
    using assms by (auto simp: ui_wired_def)
  obtain e calls where d: "board_drain es = Some (e, calls)" "pending e 0 = 0" "pending e 1 = 0"
    "set calls = (if pending es 0 = 0 then {} else set (calls_of es 0)) \<union> (if pending es 1 = 0 then {} else set (calls_of es 1))"
    using board_drain_result [OF es(2)] es(3) by auto
  have z: "(pending_counts es ! i > 0) = (pending es i \<noteq> 0)" for i
    by (simp add: pending_def unat_eq_0 word_neq_0_conv)
  have c: "calls_of es 0 = [(ui_controller_on_button_event, \<lparr>be_topic = 0, be_channel = pending_channels es ! 0\<rparr>, be_listener_data es ! 0)]"
    "calls_of es 1 = [(ui_controller_on_touch_event, \<lparr>be_topic = 1, be_channel = pending_channels es ! 1\<rparr>, be_listener_data es ! 1)]"
    using es(3) by (simp_all add: calls_of_def)
  have b: "(\<exists>(l, ev, d) \<in> set calls. l = ui_controller_on_button_event) = (pending es 0 \<noteq> 0)"
    "(\<exists>(l, ev, d) \<in> set calls. l = ui_controller_on_touch_event) = (pending es 1 \<noteq> 0)"
    unfolding d(4) c by (auto simp: ui_controller_on_button_event_def ui_controller_on_touch_event_def split: if_splits)
  show ?thesis
  proof (rule that [of e calls])
    show "ui_controller_dispatch_board_events (ui_board_events s) = Some (Some e, calls)"
      by (simp add: ui_controller_dispatch_board_events_def es(1) d(1))
    have "pending_counts e ! 0 = 0" "pending_counts e ! 1 = 0" using d(2,3) by (simp_all add: pending_def unat_eq_0)
    then show "board_events_pending_mask (Some e) = 0" by (simp add: board_events_pending_mask_def two_topics)
      have "board_events_pending_mask (Some es) = (if pending es 0 \<noteq> 0 then 1 else 0) OR (if pending es 1 \<noteq> 0 then 2 else 0)"
      by (simp add: board_events_pending_mask_def two_topics z)
    then have "ui_controller_pending_requests s =
        ui_request_flags s OR (if pending es 0 \<noteq> 0 then 1 else 0) OR (if pending es 1 \<noteq> 0 then 2 else 0)"
      by (simp add: ui_controller_pending_requests_def es(1) Let_def board_topics ui_requests or.assoc)
    then show "fold ui_controller_call calls (s\<lparr>ui_board_events := Some e\<rparr>) =
        s\<lparr>ui_board_events := Some e, ui_request_flags := ui_controller_pending_requests s\<rparr>"
      unfolding calls_request b by simp
  qed
qed

lemma and_not_and: "x AND NOT (x AND m) = x AND NOT (m :: u8)"
  by (rule bit_eqI) (auto simp: bit_and_iff bit_or_iff bit_not_iff)

text \<open>
  C14 The requests a scan sees when it asks whether input is pending are
  exactly those the next turn of the main loop serves: the lever first, then the touch panel, with
  no other input read; afterwards neither is pending, every other request is kept, and the panel's
  watchdog is armed again.
\<close>

theorem ui_process_serves_pending:
  assumes "ui_wired s"
  shows "\<exists>events. board_events_pending_mask (Some events) = 0 \<and>
    ui_process clock port r s =
      (let req = ui_controller_pending_requests s;
           s1 = s\<lparr>ui_board_events := Some events, ui_request_flags := req AND NOT 3\<rparr>
       in case (if bit req 0 then ui_process_lever clock port s1 else Some (s1, [])) of None \<Rightarrow> None
          | Some (s2, c1) \<Rightarrow>
            let (s3, c2) = (if bit req 1 then ui_process_touch r s2 else (s2, []))
            in Some (s3\<lparr>ui_touch := touch_start_watchdog (ui_touch s3)\<rparr>, c1 @ c2))"
proof -
  obtain events calls where d:
    "ui_controller_dispatch_board_events (ui_board_events s) = Some (Some events, calls)"
    "board_events_pending_mask (Some events) = 0"
    "fold ui_controller_call calls (s\<lparr>ui_board_events := Some events\<rparr>) =
       s\<lparr>ui_board_events := Some events, ui_request_flags := ui_controller_pending_requests s\<rparr>"
    by (rule dispatch_requests [OF assms])
  let ?req = "ui_controller_pending_requests s"
  let ?s = "s\<lparr>ui_board_events := Some events, ui_request_flags := ?req\<rparr>"
  have n: "?req AND NOT (?req AND 3) = ?req AND NOT 3" by (rule and_not_and)
  have a: "ui_controller_acquire_requests (UI_CONTROLLER_REQUEST_LEVER OR UI_CONTROLLER_REQUEST_TOUCH) ?s =
      (?req AND 3, s\<lparr>ui_board_events := Some events, ui_request_flags := ?req AND NOT 3\<rparr>)"
    unfolding ui_controller_acquire_requests_def ui_requests by (simp add: Let_def n [simplified])
  have m: "(3 :: u8) AND UI_CONTROLLER_REQUEST_LEVER = UI_CONTROLLER_REQUEST_LEVER"
    "(3 :: u8) AND UI_CONTROLLER_REQUEST_TOUCH = UI_CONTROLLER_REQUEST_TOUCH"
    by (simp_all add: ui_requests)
  have t: "((?req AND 3) AND UI_CONTROLLER_REQUEST_LEVER \<noteq> 0) = bit ?req 0"
    "((?req AND 3) AND UI_CONTROLLER_REQUEST_TOUCH \<noteq> 0) = bit ?req 1"
    unfolding and.assoc m by (simp_all add: bit_iff_and_push_bit_not_eq_0 ui_requests)
  show ?thesis
    unfolding ui_process_def d(1) Let_def option.case prod.case d(3) a t
    using d(2) by (intro exI [of _ events] conjI) (simp_all add: split_beta)
qed

text \<open>A button event and a request left over from before: both are served in one turn.\<close>

theorem ui_process_serves_pending_witness:
  "\<exists>s' calls. ui_process [5000] 4 \<lparr>sense_before = 100, measured_y = 0, measured_x = 0, sense_after = 0\<rparr>
     (handle_button_interrupt 2 (ui_controller_configure (Some board_demo) ui_demo)) = Some (s', calls) \<and>
     calls = [Button_Handler UI_MENU EVT_BUTTON_SINGLE_CLICK] \<and> ui_controller_pending_requests s' = 0"
proof -
  let ?r = "\<lparr>sense_before = 100, measured_y = 0, measured_x = 0, sense_after = 0\<rparr>"
  let ?s = "handle_button_interrupt 2 (ui_controller_configure (Some board_demo) ui_demo)"
  have s: "?s = ui_demo\<lparr>ui_board_events := Some \<lparr>be_listeners = [Some 1, Some 2], be_listener_data = [0, 0],
      pending_channels = [2, 0], pending_counts = [1, 0]\<rparr>, ui_board_events_subscribed := True\<rparr>"
    by code_simp
  have w: "ui_wired ?s"
    by (simp add: s ui_wired_def board_ok_def ui_controller_on_button_event_def ui_controller_on_touch_event_def)
  have q: "ui_controller_pending_requests ?s = 1" by code_simp
  have c: "ui_input_check [5000] 4 (ui_input ?s) =
      Some (EVT_BUTTON_SINGLE_CLICK, \<lparr>last_button = 4, last_button_down_ticks = 5000, last_button_repeat_ticks = 0\<rparr>)"
    by code_simp
  obtain events where e: "board_events_pending_mask (Some events) = 0"
    "ui_process [5000] 4 ?r ?s =
      (let req = ui_controller_pending_requests ?s;
           s1 = ?s\<lparr>ui_board_events := Some events, ui_request_flags := req AND NOT 3\<rparr>
       in case (if bit req 0 then ui_process_lever [5000] 4 s1 else Some (s1, [])) of None \<Rightarrow> None
          | Some (s2, c1) \<Rightarrow>
            let (s3, c2) = (if bit req 1 then ui_process_touch ?r s2 else (s2, []))
            in Some (s3\<lparr>ui_touch := touch_start_watchdog (ui_touch s3)\<rparr>, c1 @ c2))"
    using ui_process_serves_pending [OF w, of "[5000]" 4 ?r] by blast
  have p: "ui_controller_pending_requests x = 0" if "ui_board_events x = Some events" "ui_request_flags x = 0" for x
    using that e(1) by (simp add: ui_controller_pending_requests_def Let_def)
  have m: "ui_mode ?s = UI_MENU" unfolding s by (simp add: ui_demo_def)
  show ?thesis
    unfolding e(2) q by (simp add: ui_process_lever_def c m p EVT_BUTTON_SINGLE_CLICK_def Let_def)
qed

section \<open>The bar is erased\<close>

definition bar_inv :: "sweep_bar \<Rightarrow> (nat \<Rightarrow> bar_color) \<Rightarrow> bool" where
  "bar_inv s row \<longleftrightarrow> unat (sweep_bar_drawn_pixels s) < 300 \<and> unat (sweep_bar_pending s) \<le> 1 \<and>
     (\<forall>i. row i = LCD_SWEEP_LINE_COLOR \<longrightarrow> i < unat (sweep_bar_drawn_pixels s))"

lemma bar_step:
  assumes "bar_inv s row" "p \<noteq> 0" "sweep_bar_progress p s = (s', c)"
  shows "\<exists>bg' row'. (\<forall>cs. bar_paint (c @ cs) bg row = bar_paint cs bg' row') \<and> bar_inv s' row' \<and>
    (p \<ge> WIDTH \<longrightarrow> row' = (\<lambda>i. LCD_GRID_COLOR))"
proof -
  let ?D = "sweep_bar_drawn_pixels s" and ?P = "sweep_bar_pending s"
  have d: "unat ?D < 300" "unat ?P \<le> 1" and row: "\<And>i. row i = LCD_SWEEP_LINE_COLOR \<Longrightarrow> i < unat ?D"
    using assms(1) by (simp_all add: bar_inv_def)
  have dp: "unat (?D + ucast ?P) = unat ?D + unat ?P"
    using d by (simp add: unat_word_ariths unsigned_ucast_eq)
  have other: "x = LCD_GRID_COLOR" if "x \<noteq> LCD_SWEEP_LINE_COLOR" for x using that by (cases x) simp_all
  consider (full) "p \<ge> WIDTH" | (more) "p < WIDTH" "p > ?D" | (less) "p < WIDTH" "p \<le> ?D" by fastforce
  then show ?thesis
  proof cases
    case full
    define D' where "D' = (if ?P > 0 then ?D + ucast ?P else ?D)"
    have D': "unat D' = unat ?D + unat ?P" using dp by (simp add: D'_def word_gt_0)
    have c: "c = (if ?P > 0 then [Fill (unat ?D) (unat ?P)] else []) @ Set_Background LCD_GRID_COLOR #
        (if D' > 0 then [Fill 0 (unat D')] else [])"
      and s': "s' = s\<lparr>sweep_bar_drawn_pixels := 0, sweep_bar_pending := 0\<rparr>"
      using assms(2,3) full by (auto simp: sweep_bar_progress_def D'_def Let_def split: if_splits)
    define row1 where "row1 = (if ?P > 0 then (\<lambda>i. if unat ?D \<le> i \<and> i < unat ?D + unat ?P then bg else row i) else row)"
    have r1: "row1 i = LCD_GRID_COLOR" if "\<not> i < unat D'" for i
      using that D' row [of i] by (auto simp: row1_def intro!: other)
    have "bar_paint (c @ cs) bg row = bar_paint cs LCD_GRID_COLOR (\<lambda>i. LCD_GRID_COLOR)" for cs
    proof -
      have "bar_paint (c @ cs) bg row =
          bar_paint cs LCD_GRID_COLOR (if D' > 0 then (\<lambda>i. if 0 \<le> i \<and> i < 0 + unat D' then LCD_GRID_COLOR else row1 i) else row1)"
        unfolding c row1_def by simp
      moreover have "(if D' > 0 then (\<lambda>i. if 0 \<le> i \<and> i < 0 + unat D' then LCD_GRID_COLOR else row1 i) else row1) = (\<lambda>i. LCD_GRID_COLOR)"
        using r1 by (auto simp: fun_eq_iff word_gt_0)
      ultimately show ?thesis by simp
    qed
    then show ?thesis by (intro exI [of _ LCD_GRID_COLOR] exI [of _ "\<lambda>i. LCD_GRID_COLOR"]) (simp add: s' bar_inv_def)
  next
    case more
    have p: "unat p < 300" "unat ?D < unat p" using more by (simp_all add: WIDTH_def word_less_nat_alt)
    have draw: "ucast ?P + (p - ?D - ucast ?P) = p - ?D" by simp
    have u: "unat (p - ?D) = unat p - unat ?D" using p(2) by (simp add: unat_sub word_le_nat_alt)
    show ?thesis
    proof (cases "p - ?D \<ge> 2")
      case True
      have e: "?D + (p - ?D) = p" by simp
      have "s' = s\<lparr>sweep_bar_drawn_pixels := p, sweep_bar_pending := 0\<rparr>" "c = [Fill (unat ?D) (unat p - unat ?D)]"
        using assms(2,3) more True by (simp_all add: sweep_bar_progress_def Let_def draw u e not_le [symmetric])
      then show ?thesis
        using p more(1) row by (intro exI [of _ bg] exI [of _ "\<lambda>i. if unat ?D \<le> i \<and> i < unat p then bg else row i"])
          (force simp: bar_inv_def)
    next
      case False
      have s': "s' = s\<lparr>sweep_bar_pending := ucast (p - ?D)\<rparr>" "c = []"
        using assms(2,3) more False by (simp_all add: sweep_bar_progress_def Let_def draw not_le [symmetric])
      have "unat (p - ?D) \<le> 1" using False by (simp add: word_le_nat_alt)
      then have "unat (ucast (p - ?D) :: u8) \<le> 1" by (simp add: unsigned_ucast_eq take_bit_nat_eq_self)
      then show ?thesis
        using d row more(1) by (intro exI [of _ bg] exI [of _ row]) (simp add: s' bar_inv_def not_le [symmetric])
    qed
  next
    case less
    then have "s' = s" "c = []" using assms(2,3) by (simp_all add: sweep_bar_progress_def not_le [symmetric])
    then show ?thesis using assms(1) less(1) by (intro exI [of _ bg] exI [of _ row]) (simp add: not_le [symmetric])
  qed
qed

lemma bar_run:
  "bar_inv s row \<Longrightarrow> \<forall>p \<in> set ps. p \<noteq> 0 \<Longrightarrow>
   bar_paint (snd (sweep_bar_run (ps @ [WIDTH]) s)) bg row = (\<lambda>i. LCD_GRID_COLOR)"
proof (induction ps arbitrary: s row bg)
  case Nil
  obtain s' c where e: "sweep_bar_progress WIDTH s = (s', c)" by fastforce
  have "WIDTH \<noteq> 0" by (simp add: WIDTH_def)
  with bar_step [OF Nil(1) _ e, of bg] obtain bg' where "\<And>cs. bar_paint (c @ cs) bg row = bar_paint cs bg' (\<lambda>i. LCD_GRID_COLOR)"
    by auto
  from this [of "[]"] show ?case by (simp add: e)
next
  case (Cons p ps)
  obtain s' c where e: "sweep_bar_progress p s = (s', c)" by fastforce
  have "p \<noteq> 0" using Cons.prems(2) by simp
  with bar_step [OF Cons.prems(1) _ e, of bg] obtain bg' row' where
    "\<And>cs. bar_paint (c @ cs) bg row = bar_paint cs bg' row'" "bar_inv s' row'" by blast
  then show ?case using Cons.IH [of s' row' bg'] Cons.prems(2) by (simp add: e split_beta)
qed

text \<open>
  Whatever progress a sweep reports between its start and its end, the bar leaves
  no pixel in its own colour behind.
\<close>

theorem sweep_bar_erased:
  assumes "\<forall>p \<in> set ps. p \<noteq> 0"
  shows "bar_paint (snd (sweep_bar_run (0 # ps @ [WIDTH]) s)) bg (\<lambda>i. LCD_GRID_COLOR) = (\<lambda>i. LCD_GRID_COLOR)"
proof -
  have "bar_inv (s\<lparr>sweep_bar_drawn_pixels := 0, sweep_bar_pending := 0\<rparr>) (\<lambda>i. LCD_GRID_COLOR)" by (simp add: bar_inv_def)
  from bar_run [OF this assms, of LCD_SWEEP_LINE_COLOR] show ?thesis by (simp add: sweep_bar_progress_def split_beta)
qed

theorem sweep_bar_erased_witness:
  "bar_paint (snd (sweep_bar_run [0, 3, 4, 90, 90, 250, 300] \<lparr>sweep_bar_drawn_pixels = 17, sweep_bar_pending = 1\<rparr>)) LCD_GRID_COLOR
     (\<lambda>i. LCD_GRID_COLOR) = (\<lambda>i. LCD_GRID_COLOR)"
  using sweep_bar_erased [of "[3, 4, 90, 90, 250]" "\<lparr>sweep_bar_drawn_pixels = 17, sweep_bar_pending = 1\<rparr>" LCD_GRID_COLOR]
  by (simp add: WIDTH_def)

text \<open>
  A sweep that is restarted before it ends (a stimulus change resets its progress and no end is
  reported) leaves the old bar on the screen.
\<close>

lemma sweep_bar_restart_keeps:
  "bar_paint (snd (sweep_bar_run [0, 200, 0, 50] s)) bg (\<lambda>i. LCD_GRID_COLOR) 150 = LCD_SWEEP_LINE_COLOR"
  by (simp add: sweep_bar_progress_def WIDTH_def Let_def)

end
