(* ===== verification/Ui_Keypad.thy ===== *)
theory Ui_Keypad
  imports Ui_Core Common_Text "HOL-Library.Monad_Syntax"
begin

text \<open>
  \<open>src/src/ui/core/ui_keypad.c\<close>: the key tables, the input buffer \<open>kp_buf\<close> and what each key does
  to it, touch and lever on the keys. A read or a write outside the buffer is \<open>None\<close>; drawing is
  left out. The text helpers \<open>my_atoui\<close> and \<open>my_atoi\<close> are those of \<open>Common_Text\<close>.
\<close>

section \<open>Keys and keypads\<close>

datatype keyboard = NUM_KEYBOARD | TXT_KEYBOARD

definition KP_EMPTY :: nat where "KP_EMPTY = 255"
definition KP_0 :: nat where "KP_0 = 0"
definition KP_1 :: nat where "KP_1 = 1"
definition KP_2 :: nat where "KP_2 = 2"
definition KP_3 :: nat where "KP_3 = 3"
definition KP_4 :: nat where "KP_4 = 4"
definition KP_5 :: nat where "KP_5 = 5"
definition KP_6 :: nat where "KP_6 = 6"
definition KP_7 :: nat where "KP_7 = 7"
definition KP_8 :: nat where "KP_8 = 8"
definition KP_9 :: nat where "KP_9 = 9"
definition KP_PERIOD :: nat where "KP_PERIOD = 10"
definition KP_MINUS :: nat where "KP_MINUS = 11"
definition KP_BS :: nat where "KP_BS = 12"
definition KP_k :: nat where "KP_k = 13"
definition KP_M :: nat where "KP_M = 14"
definition KP_G :: nat where "KP_G = 15"
definition KP_m :: nat where "KP_m = 16"
definition KP_u :: nat where "KP_u = 17"
definition KP_n :: nat where "KP_n = 18"
definition KP_p :: nat where "KP_p = 19"
definition KP_X1 :: nat where "KP_X1 = 20"
definition KP_ENTER :: nat where "KP_ENTER = 21"
definition KP_PERCENT :: nat where "KP_PERCENT = 22"

lemmas key_codes = KP_EMPTY_def KP_0_def KP_1_def KP_2_def KP_3_def KP_4_def KP_5_def KP_6_def KP_7_def KP_8_def KP_9_def KP_PERIOD_def KP_MINUS_def KP_BS_def KP_k_def KP_M_def KP_G_def KP_m_def KP_u_def KP_n_def KP_p_def KP_X1_def KP_ENTER_def KP_PERCENT_def

definition S_ENTER :: nat where "S_ENTER = 0x16"
definition S_LARROW :: nat where "S_LARROW = 0x1A"

text \<open>A button is its position (column in the high, row in the low four bits) and its code.\<close>

record keypads =
  kp_size :: nat
  kp_type :: keyboard
  kp_buttons :: "(nat \<times> nat) list"

definition keypads_freq :: keypads where
  "keypads_freq = \<lparr>kp_size = 16, kp_type = NUM_KEYBOARD, kp_buttons =
     [(0x13, KP_PERIOD), (0x03, KP_0), (0x02, KP_1), (0x12, KP_2), (0x22, KP_3), (0x01, KP_4),
      (0x11, KP_5), (0x21, KP_6), (0x00, KP_7), (0x10, KP_8), (0x20, KP_9), (0x30, KP_G),
      (0x31, KP_M), (0x32, KP_k), (0x33, KP_X1), (0x23, KP_BS)]\<rparr>"

definition keypads_ufloat :: keypads where
  "keypads_ufloat = \<lparr>kp_size = 16, kp_type = NUM_KEYBOARD, kp_buttons =
     [(0x13, KP_PERIOD), (0x03, KP_0), (0x02, KP_1), (0x12, KP_2), (0x22, KP_3), (0x01, KP_4),
      (0x11, KP_5), (0x21, KP_6), (0x00, KP_7), (0x10, KP_8), (0x20, KP_9), (0x33, KP_ENTER),
      (0x23, KP_BS), (0x30, KP_EMPTY), (0x31, KP_EMPTY), (0x32, KP_EMPTY)]\<rparr>"

definition keypads_percent :: keypads where
  "keypads_percent = \<lparr>kp_size = 16, kp_type = NUM_KEYBOARD, kp_buttons =
     [(0x13, KP_PERIOD), (0x03, KP_0), (0x02, KP_1), (0x12, KP_2), (0x22, KP_3), (0x01, KP_4),
      (0x11, KP_5), (0x21, KP_6), (0x00, KP_7), (0x10, KP_8), (0x20, KP_9), (0x33, KP_PERCENT),
      (0x23, KP_BS), (0x30, KP_EMPTY), (0x31, KP_EMPTY), (0x32, KP_EMPTY)]\<rparr>"

definition keypads_float :: keypads where
  "keypads_float = \<lparr>kp_size = 16, kp_type = NUM_KEYBOARD, kp_buttons =
     [(0x13, KP_PERIOD), (0x03, KP_0), (0x02, KP_1), (0x12, KP_2), (0x22, KP_3), (0x01, KP_4),
      (0x11, KP_5), (0x21, KP_6), (0x00, KP_7), (0x10, KP_8), (0x20, KP_9), (0x32, KP_MINUS),
      (0x33, KP_ENTER), (0x23, KP_BS), (0x30, KP_EMPTY), (0x31, KP_EMPTY)]\<rparr>"

definition keypads_mfloat :: keypads where
  "keypads_mfloat = \<lparr>kp_size = 16, kp_type = NUM_KEYBOARD, kp_buttons =
     [(0x13, KP_PERIOD), (0x03, KP_0), (0x02, KP_1), (0x12, KP_2), (0x22, KP_3), (0x01, KP_4),
      (0x11, KP_5), (0x21, KP_6), (0x00, KP_7), (0x10, KP_8), (0x20, KP_9), (0x30, KP_u),
      (0x31, KP_m), (0x32, KP_MINUS), (0x33, KP_ENTER), (0x23, KP_BS)]\<rparr>"

definition keypads_mkufloat :: keypads where
  "keypads_mkufloat = \<lparr>kp_size = 16, kp_type = NUM_KEYBOARD, kp_buttons =
     [(0x13, KP_PERIOD), (0x03, KP_0), (0x02, KP_1), (0x12, KP_2), (0x22, KP_3), (0x01, KP_4),
      (0x11, KP_5), (0x21, KP_6), (0x00, KP_7), (0x10, KP_8), (0x20, KP_9), (0x31, KP_m),
      (0x32, KP_k), (0x33, KP_X1), (0x23, KP_BS), (0x30, KP_EMPTY)]\<rparr>"

definition keypads_nfloat :: keypads where
  "keypads_nfloat = \<lparr>kp_size = 16, kp_type = NUM_KEYBOARD, kp_buttons =
     [(0x13, KP_PERIOD), (0x03, KP_0), (0x02, KP_1), (0x12, KP_2), (0x22, KP_3), (0x01, KP_4),
      (0x11, KP_5), (0x21, KP_6), (0x00, KP_7), (0x10, KP_8), (0x20, KP_9), (0x30, KP_u),
      (0x31, KP_n), (0x32, KP_p), (0x33, KP_MINUS), (0x23, KP_BS)]\<rparr>"

definition keypads_text :: keypads where
  "keypads_text = \<lparr>kp_size = 40, kp_type = TXT_KEYBOARD, kp_buttons =
     [(0x00, 49), (0x10, 50), (0x20, 51), (0x30, 52), (0x40, 53), (0x50, 54),
      (0x60, 55), (0x70, 56), (0x80, 57), (0x90, 48), (0x01, 81), (0x11, 87),
      (0x21, 69), (0x31, 82), (0x41, 84), (0x51, 89), (0x61, 85), (0x71, 73),
      (0x81, 79), (0x91, 80), (0x02, 65), (0x12, 83), (0x22, 68), (0x32, 70),
      (0x42, 71), (0x52, 72), (0x62, 74), (0x72, 75), (0x82, 76), (0x92, 95),
      (0x03, 45), (0x13, 90), (0x23, 88), (0x33, 67), (0x43, 86), (0x53, 66),
      (0x63, 78), (0x73, 77), (0x83, S_LARROW), (0x93, S_ENTER)]\<rparr>"

datatype keypad_type =
    KEYPAD_FREQ | KEYPAD_UFLOAT | KEYPAD_PERCENT | KEYPAD_FLOAT
  | KEYPAD_MFLOAT | KEYPAD_MKUFLOAT | KEYPAD_NFLOAT | KEYPAD_TEXT

fun keypad_type_list :: "keypad_type \<Rightarrow> keypads" where
  "keypad_type_list KEYPAD_FREQ = keypads_freq"
| "keypad_type_list KEYPAD_UFLOAT = keypads_ufloat"
| "keypad_type_list KEYPAD_PERCENT = keypads_percent"
| "keypad_type_list KEYPAD_FLOAT = keypads_float"
| "keypad_type_list KEYPAD_MFLOAT = keypads_mfloat"
| "keypad_type_list KEYPAD_MKUFLOAT = keypads_mkufloat"
| "keypad_type_list KEYPAD_NFLOAT = keypads_nfloat"
| "keypad_type_list KEYPAD_TEXT = keypads_text"

datatype keypad_mode =
    KM_START | KM_STOP | KM_CENTER | KM_SPAN | KM_CW
  | KM_STEP | KM_VAR | KM_POINTS | KM_TOP | KM_nTOP
  | KM_BOTTOM | KM_nBOTTOM | KM_SCALE | KM_nSCALE | KM_REFPOS
  | KM_EDELAY | KM_VAR_DELAY | KM_S21OFFSET | KM_VELOCITY_FACTOR | KM_ACTUAL_CABLE_LEN
  | KM_XTAL | KM_THRESHOLD | KM_VBAT | KM_MEASURE_R | KM_Z_PORT
  | KM_CAL_LOAD_R | KM_RTC_DATE | KM_RTC_TIME | KM_RTC_CAL | KM_S1P_NAME | KM_S2P_NAME | KM_BMP_NAME
  | KM_TIF_NAME | KM_CAL_NAME | KM_BIN_NAME

text \<open>The keypad column of \<open>keypads_mode_tbl\<close> in \<open>src/src/ui/core/ui_controller.c\<close>.\<close>

fun keypad_type_of :: "keypad_mode \<Rightarrow> keypad_type" where
  "keypad_type_of KM_START = KEYPAD_FREQ"
| "keypad_type_of KM_STOP = KEYPAD_FREQ"
| "keypad_type_of KM_CENTER = KEYPAD_FREQ"
| "keypad_type_of KM_SPAN = KEYPAD_FREQ"
| "keypad_type_of KM_CW = KEYPAD_FREQ"
| "keypad_type_of KM_STEP = KEYPAD_FREQ"
| "keypad_type_of KM_VAR = KEYPAD_FREQ"
| "keypad_type_of KM_POINTS = KEYPAD_UFLOAT"
| "keypad_type_of KM_TOP = KEYPAD_MFLOAT"
| "keypad_type_of KM_nTOP = KEYPAD_NFLOAT"
| "keypad_type_of KM_BOTTOM = KEYPAD_MFLOAT"
| "keypad_type_of KM_nBOTTOM = KEYPAD_NFLOAT"
| "keypad_type_of KM_SCALE = KEYPAD_UFLOAT"
| "keypad_type_of KM_nSCALE = KEYPAD_NFLOAT"
| "keypad_type_of KM_REFPOS = KEYPAD_FLOAT"
| "keypad_type_of KM_EDELAY = KEYPAD_NFLOAT"
| "keypad_type_of KM_VAR_DELAY = KEYPAD_NFLOAT"
| "keypad_type_of KM_S21OFFSET = KEYPAD_FLOAT"
| "keypad_type_of KM_VELOCITY_FACTOR = KEYPAD_PERCENT"
| "keypad_type_of KM_ACTUAL_CABLE_LEN = KEYPAD_MKUFLOAT"
| "keypad_type_of KM_XTAL = KEYPAD_FREQ"
| "keypad_type_of KM_THRESHOLD = KEYPAD_FREQ"
| "keypad_type_of KM_VBAT = KEYPAD_UFLOAT"
| "keypad_type_of KM_MEASURE_R = KEYPAD_UFLOAT"
| "keypad_type_of KM_Z_PORT = KEYPAD_UFLOAT"
| "keypad_type_of KM_CAL_LOAD_R = KEYPAD_UFLOAT"
| "keypad_type_of KM_RTC_DATE = KEYPAD_UFLOAT"
| "keypad_type_of KM_RTC_TIME = KEYPAD_UFLOAT"
| "keypad_type_of KM_RTC_CAL = KEYPAD_FLOAT"
| "keypad_type_of KM_S1P_NAME = KEYPAD_TEXT"
| "keypad_type_of KM_S2P_NAME = KEYPAD_TEXT"
| "keypad_type_of KM_BMP_NAME = KEYPAD_TEXT"
| "keypad_type_of KM_TIF_NAME = KEYPAD_TEXT"
| "keypad_type_of KM_CAL_NAME = KEYPAD_TEXT"
| "keypad_type_of KM_BIN_NAME = KEYPAD_TEXT"

section \<open>The input buffer\<close>

definition NUMINPUT_LEN :: nat where "NUMINPUT_LEN = 12"
definition TXTINPUT_LEN :: nat where "TXTINPUT_LEN = 8"
definition KP_BUF_SIZE :: nat where "KP_BUF_SIZE = NUMINPUT_LEN + 2"

lemmas kp_sizes = NUMINPUT_LEN_def TXTINPUT_LEN_def KP_BUF_SIZE_def

definition kp_get :: "nat \<Rightarrow> string \<Rightarrow> char option" where
  "kp_get i buf = (if i < length buf then Some (buf ! i) else None)"

definition kp_set :: "nat \<Rightarrow> char \<Rightarrow> string \<Rightarrow> string option" where
  "kp_set i v buf = (if i < length buf then Some (buf[i := v]) else None)"

text \<open>The text in the buffer; its length is \<open>strlen\<close>.\<close>

definition kp_text :: "string \<Rightarrow> string" where
  "kp_text buf = takeWhile (\<lambda>c. c \<noteq> NUL) buf"

definition period_pos :: "string \<Rightarrow> nat" where
  "period_pos buf = length (takeWhile (\<lambda>c. c \<noteq> NUL \<and> c \<noteq> CHR ''.'') buf)"

datatype key_result = K_CONTINUE | K_DONE | K_CANCEL

text \<open>The loop that shifts the period right; \<open>scale\<close> is 16 bits wide and is tested after the step.\<close>

function kp_shift :: "u16 \<Rightarrow> nat \<Rightarrow> string \<Rightarrow> string option" where
  "kp_shift scale i buf =
     do {
       v \<leftarrow> kp_get (i + 1) buf;
       c \<leftarrow> kp_get i buf;
       (v, buf) \<leftarrow> (if v = NUL \<or> c = NUL then do { buf \<leftarrow> kp_set (i + 2) NUL buf; Some (CHR ''0'', buf) } else Some (v, buf));
       buf \<leftarrow> kp_set (i + 1) c buf;
       buf \<leftarrow> kp_set i v buf;
       if scale - 1 \<noteq> 0 then kp_shift (scale - 1) (i + 1) buf else Some buf
     }"
  by pat_completeness auto

termination
  by (relation "measure (\<lambda>(scale, i, buf). length buf - i)")
    (auto simp: kp_get_def kp_set_def bind_eq_Some_conv split: if_splits)

declare kp_shift.simps [simp del]

text \<open>The moves \<open>kp_buf[d] = kp_buf[s]\<close> of a loop, one after the other.\<close>

fun kp_moves :: "(nat \<times> nat) list \<Rightarrow> string \<Rightarrow> string option" where
  "kp_moves [] buf = Some buf"
| "kp_moves ((d, s) # ms) buf = do { v \<leftarrow> kp_get s buf; buf \<leftarrow> kp_set d v buf; kp_moves ms buf }"

definition num_keypad_scale :: "nat \<Rightarrow> string \<Rightarrow> string option" where
  "num_keypad_scale c buf =
     (let scale = of_nat (c - KP_k + 1) :: u16;
          scale = scale + push_bit 1 scale;
          i = period_pos buf;
          scale = (if unat scale + i > NUMINPUT_LEN then word_of_int (int NUMINPUT_LEN - int i) else scale)
      in kp_shift scale i buf)"

definition num_keypad_minus :: "nat \<Rightarrow> nat \<Rightarrow> string \<Rightarrow> (nat \<times> string) option" where
  "num_keypad_minus maxlength kp_index buf =
     do {
       c \<leftarrow> kp_get 0 buf;
       if c = CHR ''-'' then do {
         buf \<leftarrow> kp_moves (map (\<lambda>i. (i, i + 1)) [0..<NUMINPUT_LEN]) buf;
         Some (kp_index - 1, buf)
       } else do {
         buf \<leftarrow> kp_moves (map (\<lambda>i. (i, i - 1)) (rev [1..<NUMINPUT_LEN + 1])) buf;
         buf \<leftarrow> kp_set 0 (CHR ''-'') buf;
         Some (if kp_index < maxlength then kp_index + 1 else kp_index, buf)
       }
     }"

definition num_keypad_click :: "nat \<Rightarrow> nat \<Rightarrow> keypad_mode \<Rightarrow> string \<Rightarrow> (key_result \<times> string) option" where
  "num_keypad_click c kp_index mode buf =
     (if c \<ge> KP_k \<and> c \<le> KP_PERCENT then
        if kp_index = 0 then Some (K_CANCEL, buf)
        else if c \<ge> KP_k \<and> c \<le> KP_G then do { buf \<leftarrow> num_keypad_scale c buf; Some (K_DONE, buf) }
        else if c \<ge> KP_m \<and> c \<le> KP_p then do {
          buf \<leftarrow> kp_set kp_index (''munp'' ! (c - KP_m)) buf;
          buf \<leftarrow> kp_set (kp_index + 1) NUL buf;
          Some (K_DONE, buf)
        } else Some (K_DONE, buf)
      else
        let maxlength = (if mode = KM_RTC_DATE \<or> mode = KM_RTC_TIME then 6 else NUMINPUT_LEN) in
        if c = KP_BS \<and> kp_index = 0 then Some (K_CANCEL, buf)
        else do {
          (kp_index, buf) \<leftarrow>
            (if c = KP_BS then Some (kp_index - 1, buf)
             else if c = KP_MINUS then num_keypad_minus maxlength kp_index buf
             else if kp_index < maxlength then
               if c \<le> KP_9 then do { buf \<leftarrow> kp_set kp_index (char_of (48 + c)) buf; Some (kp_index + 1, buf) }
               else if c = KP_PERIOD \<and> kp_index = period_pos buf \<and> maxlength = NUMINPUT_LEN
               then do { buf \<leftarrow> kp_set kp_index (CHR ''.'') buf; Some (kp_index + 1, buf) }
               else Some (kp_index, buf)
             else Some (kp_index, buf));
          buf \<leftarrow> kp_set kp_index NUL buf;
          Some (K_CONTINUE, buf)
        })"

definition txt_keypad_click :: "nat \<Rightarrow> nat \<Rightarrow> string \<Rightarrow> (key_result \<times> string) option" where
  "txt_keypad_click c kp_index buf =
     (if c = S_ENTER then Some (if kp_index = 0 then K_CANCEL else K_DONE, buf)
      else if c = S_LARROW \<and> kp_index = 0 then Some (K_CANCEL, buf)
      else do {
        (kp_index, buf) \<leftarrow>
          (if c = S_LARROW then Some (kp_index - 1, buf)
           else if kp_index < TXTINPUT_LEN then do { buf \<leftarrow> kp_set kp_index (char_of c) buf; Some (kp_index + 1, buf) }
           else Some (kp_index, buf));
        buf \<leftarrow> kp_set kp_index NUL buf;
        Some (K_CONTINUE, buf)
      })"

definition keyboard_get_freq :: "string \<Rightarrow> u32" where
  "keyboard_get_freq buf = my_atoui (kp_text buf)"

definition keyboard_get_uint :: "string \<Rightarrow> u32" where
  "keyboard_get_uint buf = my_atoui (kp_text buf)"

definition keyboard_get_int :: "string \<Rightarrow> u32" where
  "keyboard_get_int buf = my_atoi (kp_text buf)"

section \<open>The keypad\<close>

record keypad_state =
  kp_buf :: string
  kp_selection :: int
  kp_keypads :: keypads
  kp_mode :: keypad_mode
  kp_ui_mode :: ui_mode

text \<open>What a key leads to: \<open>ui_keyboard_cb\<close>, which reads the buffer, and the return to the traces.\<close>

datatype keypad_action = Keyboard_Callback keypad_mode string | Ui_Mode_Normal

definition keypad_click :: "nat \<Rightarrow> keypad_state \<Rightarrow> (keypad_state \<times> keypad_action list) option" where
  "keypad_click key s =
     (let c = snd (kp_buttons (kp_keypads s) ! key); index = length (kp_text (kp_buf s)) in
      do {
        (result, buf) \<leftarrow> (if kp_type (kp_keypads s) = NUM_KEYBOARD then num_keypad_click c index (kp_mode s) (kp_buf s)
                         else txt_keypad_click c index (kp_buf s));
        Some (s\<lparr>kp_buf := buf, kp_ui_mode := (if result \<noteq> K_CONTINUE then UI_NORMAL else kp_ui_mode s)\<rparr>,
              (if result = K_DONE then [Keyboard_Callback (kp_mode s) buf] else []) @
              (if result \<noteq> K_CONTINUE then [Ui_Mode_Normal] else []))
      })"

definition ui_mode_keypad :: "keypad_mode \<Rightarrow> keypad_state \<Rightarrow> keypad_state" where
  "ui_mode_keypad mode s =
     (if kp_ui_mode s = UI_KEYPAD then s
      else s\<lparr>kp_ui_mode := UI_KEYPAD, kp_mode := mode, kp_keypads := keypad_type_list (keypad_type_of mode),
             kp_selection := -1, kp_buf := (kp_buf s)[0 := NUL]\<rparr>)"

text \<open>The offsets and the size of the keys, in pixels.\<close>

fun key_pos :: "keyboard \<Rightarrow> int \<times> int \<times> int \<times> int" where
  "key_pos NUM_KEYBOARD = (0, 0, LCD_WIDTH div 4, (LCD_HEIGHT - 32) div 4)"
| "key_pos TXT_KEYBOARD = (0, LCD_HEIGHT - 32 - 4 * (LCD_WIDTH div 10), LCD_WIDTH div 10, LCD_WIDTH div 10)"

text \<open>The rectangle \<open>keypad_draw_button\<close> fills.\<close>

definition key_rectangle :: "keypads \<Rightarrow> nat \<Rightarrow> int \<times> int \<times> int \<times> int" where
  "key_rectangle kp key =
     (case key_pos (kp_type kp) of (x_offs, y_offs, width, height) \<Rightarrow>
       let pos = fst (kp_buttons kp ! key)
       in (x_offs + int (drop_bit 4 pos) * width, y_offs + int (pos AND 0xF) * height, width, height))"

fun find_key :: "(nat \<times> nat) list \<Rightarrow> nat \<Rightarrow> nat option" where
  "find_key [] pos = None"
| "find_key ((p, c) # bs) pos =
     (if p \<noteq> pos then map_option Suc (find_key bs pos) else if c = KP_EMPTY then None else Some 0)"

definition touched_key :: "keypads \<Rightarrow> int \<Rightarrow> int \<Rightarrow> nat option" where
  "touched_key kp touch_x touch_y =
     (case key_pos (kp_type kp) of (x_offs, y_offs, width, height) \<Rightarrow>
       if touch_x < x_offs \<or> touch_y < y_offs then None
       else
         let touch_x = (touch_x - x_offs) div width;
             touch_y = (touch_y - y_offs) div height;
             pos = nat (take_bit 8 ((touch_y AND 0x0F) OR push_bit 4 touch_x))
         in find_key (take (kp_size kp) (kp_buttons kp)) pos)"

definition ui_keypad_touch :: "int \<Rightarrow> int \<Rightarrow> keypad_state \<Rightarrow> (keypad_state \<times> keypad_action list) option" where
  "ui_keypad_touch touch_x touch_y s =
     (case touched_key (kp_keypads s) touch_x touch_y of None \<Rightarrow> Some (s, [])
      | Some i \<Rightarrow> keypad_click i (s\<lparr>kp_selection := -1\<rparr>))"

text \<open>One step of the selection, around the ends.\<close>

definition keypad_step :: "u16 \<Rightarrow> keypads \<Rightarrow> int \<Rightarrow> int" where
  "keypad_step status kp sel =
     (let last = int (kp_size kp) - 1;
          sel = (if status AND EVT_DOWN \<noteq> 0 then (if sel - 1 < 0 then last else sel - 1) else sel)
      in if status AND EVT_UP \<noteq> 0 then (if sel + 1 > last then 0 else sel + 1) else sel)"

text \<open>The loop that skips empty keys; \<open>None\<close> also when it reads before or behind the keys.\<close>

partial_function (option) keypad_skip :: "u16 \<Rightarrow> keypads \<Rightarrow> int \<Rightarrow> int option" where
  "keypad_skip status kp sel =
     (let sel = keypad_step status kp sel in
      if sel < 0 \<or> int (length (kp_buttons kp)) \<le> sel then None
      else if snd (kp_buttons kp ! nat sel) = KP_EMPTY then keypad_skip status kp sel
      else Some sel)"

function keypad_lever_loop ::
    "keypads \<Rightarrow> u16 \<Rightarrow> (u32 \<times> u16) list \<Rightarrow> input_state \<Rightarrow> int \<Rightarrow> (input_state \<times> int \<times> (u32 \<times> u16) list) option" where
  "keypad_lever_loop kp status rs inp sel =
     (case keypad_skip status kp sel of None \<Rightarrow> None
      | Some sel \<Rightarrow>
          case ui_input_wait_release rs inp of None \<Rightarrow> None
          | Some (status, inp, rs) \<Rightarrow>
              if status \<noteq> 0 then keypad_lever_loop kp status rs inp sel else Some (inp, sel, rs))"
  by pat_completeness auto

termination
  by (relation "measure (\<lambda>(kp, status, rs, inp, sel). length rs)") (auto dest: wait_release_shorter)

declare keypad_lever_loop.simps [simp del]

definition ui_keypad_lever ::
    "u16 \<Rightarrow> (u32 \<times> u16) list \<Rightarrow> input_state \<Rightarrow> keypad_state \<Rightarrow> (input_state \<times> keypad_state \<times> keypad_action list) option" where
  "ui_keypad_lever status rs inp s =
     (if status = EVT_BUTTON_SINGLE_CLICK then
        if kp_selection s \<ge> 0 then map_option (\<lambda>(s, acts). (inp, s, acts)) (keypad_click (nat (kp_selection s)) s)
        else Some (inp, s, [])
      else
        case keypad_lever_loop (kp_keypads s) status rs inp (kp_selection s) of None \<Rightarrow> None
        | Some (inp, sel, rs) \<Rightarrow> Some (inp, s\<lparr>kp_selection := sel\<rparr>, []))"

section \<open>The tables\<close>

definition all_keypads :: "keypads list" where
  "all_keypads = map keypad_type_list [KEYPAD_FREQ, KEYPAD_UFLOAT, KEYPAD_PERCENT, KEYPAD_FLOAT, KEYPAD_MFLOAT,
     KEYPAD_MKUFLOAT, KEYPAD_NFLOAT, KEYPAD_TEXT]"

lemma keypad_type_list_all: "keypad_type_list kt \<in> set all_keypads"
  by (cases kt) (simp_all add: all_keypads_def)

text \<open>Every position lies in the grid of its keyboard, each field of the grid has one key, and the codes have a glyph.\<close>

definition keypads_wf :: "keypads \<Rightarrow> bool" where
  "keypads_wf kp \<longleftrightarrow>
     length (kp_buttons kp) = kp_size kp \<and> distinct (map fst (kp_buttons kp)) \<and>
     (let cols = (if kp_type kp = NUM_KEYBOARD then 4 else 10)
      in kp_size kp = cols * 4 \<and> list_all (\<lambda>(p, c). drop_bit 4 p < cols \<and> p AND 0xF < 4) (kp_buttons kp)) \<and>
     list_all (\<lambda>(p, c). if kp_type kp = NUM_KEYBOARD then c \<le> KP_PERCENT \<or> c = KP_EMPTY else 0 < c \<and> c < 128) (kp_buttons kp) \<and>
     list_ex (\<lambda>(p, c). c \<noteq> KP_EMPTY) (kp_buttons kp)"

lemma keypads_checked: "keypads_wf (keypad_type_list kt)"
proof -
  have "list_all keypads_wf all_keypads" by code_simp
  then show ?thesis using keypad_type_list_all [of kt] by (simp add: list_all_iff)
qed

text \<open>
  For every input mode the size field of its keypad counts the keys, the positions
  are distinct and cover the grid of the keyboard, every code is a glyph of the keyboard's font or
  an empty key, and some key is not empty.
\<close>

theorem keypads_well_formed: "keypads_wf (keypad_type_list (keypad_type_of mode))"
  by (rule keypads_checked)

section \<open>The buffer as a text\<close>

text \<open>
  The buffer holds the digits before the period and, from the period on, the rest; then the
  terminator, and behind it anything.
\<close>

definition kp_holds :: "string \<Rightarrow> string \<Rightarrow> string \<Rightarrow> bool" where
  "kp_holds buf pre post \<longleftrightarrow> (\<exists>junk. buf = pre @ post @ NUL # junk) \<and> length buf = KP_BUF_SIZE \<and>
     NUL \<notin> set pre \<and> CHR ''.'' \<notin> set pre \<and> NUL \<notin> set post \<and> CHR ''.'' \<notin> set (tl post) \<and> (post = [] \<or> hd post = CHR ''.'')"

lemma takeWhile_stop: "\<forall>x \<in> set xs. P x \<Longrightarrow> \<not> P y \<Longrightarrow> takeWhile P (xs @ y # ys) = xs"
  by (induction xs) simp_all

lemma holds_text: "kp_holds buf pre post \<Longrightarrow> kp_text buf = pre @ post"
proof -
  assume h: "kp_holds buf pre post"
  then obtain junk where "buf = (pre @ post) @ NUL # junk" by (auto simp: kp_holds_def)
  then show ?thesis using h unfolding kp_text_def by (auto simp: kp_holds_def simp del: append_assoc intro!: takeWhile_stop)
qed

lemma holds_period: "kp_holds buf pre post \<Longrightarrow> period_pos buf = length pre"
proof -
  assume h: "kp_holds buf pre post"
  then obtain y ys where "buf = pre @ y # ys" "y = NUL \<or> y = CHR ''.''"
    by (cases post) (auto simp: kp_holds_def)
  then show ?thesis using h by (auto simp: period_pos_def kp_holds_def intro!: arg_cong [where f = length] takeWhile_stop)
qed

lemma NUL_neq: "NUL \<noteq> CHR ''.''" "NUL \<noteq> CHR ''0''" "NUL \<noteq> CHR ''-''"
  by simp_all

text \<open>What one turn of the loop does: the digit behind the period, or a zero, moves before it.\<close>

lemma shift_turn:
  assumes "kp_holds buf pre post" "length pre \<le> 11"
  shows "\<exists>buf'. kp_holds buf' (pre @ [if tl post = [] then CHR ''0'' else hd (tl post)])
      (if post = [] then [] else CHR ''.'' # tl (tl post)) \<and>
    kp_shift scale (length pre) buf = (if scale - 1 \<noteq> 0 then kp_shift (scale - 1) (length pre + 1) buf' else Some buf')"
proof -
  obtain junk where buf: "buf = pre @ post @ NUL # junk" and len: "length pre + length post + 1 + length junk = 14"
    using assms(1) by (auto simp: kp_holds_def kp_sizes)
  note h = assms(1) [unfolded kp_holds_def]
  consider (none) "post = []" | (dot) "post = ''.''" | (frac) f fs where "post = CHR ''.'' # f # fs"
    using h by (cases post; cases "tl post") auto
  then show ?thesis
  proof cases
    case none
    obtain j0 j1 js where j: "junk = j0 # j1 # js"
      using len assms(2) none by (cases junk; cases "tl junk") auto
    have "kp_holds (pre @ ''0'' @ NUL # NUL # js) (pre @ ''0'') []"
      using h len by (simp add: kp_holds_def kp_sizes none j NUL_neq NUL_neq [symmetric])
    then show ?thesis using len
      by (intro exI [of _ "pre @ ''0'' @ NUL # NUL # js"], subst kp_shift.simps)
        (simp add: none buf j kp_get_def kp_set_def nth_append list_update_append)
  next
    case dot
    obtain j0 js where j: "junk = j0 # js" using len assms(2) dot by (cases junk) auto
    have "kp_holds (pre @ ''0'' @ ''.'' @ NUL # js) (pre @ ''0'') ''.''"
      using h len by (simp add: kp_holds_def kp_sizes dot j NUL_neq NUL_neq [symmetric])
    then show ?thesis using len
      by (intro exI [of _ "pre @ ''0'' @ ''.'' @ NUL # js"], subst kp_shift.simps)
        (simp add: dot buf j kp_get_def kp_set_def nth_append list_update_append)
  next
    case frac
    have n: "f \<noteq> NUL" "f \<noteq> CHR ''.''" using h frac by auto
    have "kp_holds (pre @ f # CHR ''.'' # fs @ NUL # junk) (pre @ [f]) (CHR ''.'' # fs)"
      using h len by (simp add: kp_holds_def kp_sizes frac n NUL_neq NUL_neq [symmetric])
    then show ?thesis using len n
      by (intro exI [of _ "pre @ f # CHR ''.'' # fs @ NUL # junk"], subst kp_shift.simps)
        (simp add: frac buf kp_get_def kp_set_def nth_append list_update_append NUL_neq [symmetric])
  qed
qed

lemma shift_digits:
  assumes "kp_holds buf pre post" "0 < n" "length pre + n \<le> 12"
  shows "\<exists>buf'. kp_shift (of_nat n) (length pre) buf = Some buf' \<and>
    kp_holds buf' (pre @ take n (tl post @ replicate n (CHR ''0''))) (if post = [] then [] else CHR ''.'' # drop n (tl post))"
  using assms
proof (induction n arbitrary: buf pre post)
  case (Suc n)
  have "length pre \<le> 11" using Suc.prems(3) by simp
  from shift_turn [OF Suc.prems(1) this, of "of_nat (Suc n)"] obtain b where
    b: "kp_holds b (pre @ [if tl post = [] then CHR ''0'' else hd (tl post)]) (if post = [] then [] else CHR ''.'' # tl (tl post))"
    "kp_shift (of_nat (Suc n)) (length pre) buf =
      (if of_nat (Suc n) - 1 \<noteq> (0 :: u16) then kp_shift (of_nat (Suc n) - 1) (length pre + 1) b else Some b)"
    by blast
  have e: "of_nat (Suc n) - 1 = (of_nat n :: u16)" by simp
  have z: "(of_nat n :: u16) = 0 \<longleftrightarrow> n = 0"
    using Suc.prems(3) by (auto simp: word_of_nat_eq_0_iff dest: dvd_imp_le)
  let ?p = "pre @ [if tl post = [] then CHR ''0'' else hd (tl post)]"
  have t: "take (Suc n) (tl post @ replicate (Suc n) (CHR ''0'')) =
      (if tl post = [] then CHR ''0'' else hd (tl post)) # take n (tl (tl post) @ replicate n (CHR ''0''))"
    by (cases "tl post") (simp_all add: replicate_app_Cons_same [symmetric] replicate_append_same [symmetric] del: replicate_append_same)
  show ?case
  proof (cases "n = 0")
    case True
    then show ?thesis using b unfolding t by (auto simp: drop_Suc)
  next
    case False
    then obtain b' where "kp_shift (of_nat n) (length ?p) b = Some b'"
      "kp_holds b' (?p @ take n (tl (tl post) @ replicate n (CHR ''0''))) (if post = [] then [] else CHR ''.'' # drop n (tl (tl post)))"
      using Suc.IH [OF b(1)] Suc.prems(3) by (auto split: if_splits)
    then show ?thesis using b(2) False unfolding e t by (auto simp: z drop_Suc)
  qed
qed simp

section \<open>Editing\<close>

text \<open>What the keys that go on mean for the text.\<close>

definition num_edit :: "nat \<Rightarrow> nat \<Rightarrow> string \<Rightarrow> string" where
  "num_edit maxlength c t =
     (if c = KP_BS then butlast t
      else if c = KP_MINUS then
        (if t \<noteq> [] \<and> hd t = CHR ''-'' then tl t else take (if length t < maxlength then length t + 1 else length t) (CHR ''-'' # t))
      else if length t < maxlength \<and> c \<le> KP_9 then t @ [char_of (48 + c)]
      else if length t < maxlength \<and> c = KP_PERIOD \<and> CHR ''.'' \<notin> set t \<and> maxlength = NUMINPUT_LEN then t @ ''.''
      else t)"

definition max_length :: "keypad_mode \<Rightarrow> nat" where
  "max_length mode = (if mode = KM_RTC_DATE \<or> mode = KM_RTC_TIME then 6 else NUMINPUT_LEN)"

text \<open>At most 12 characters and one period.\<close>

definition num_text :: "string \<Rightarrow> bool" where
  "num_text t \<longleftrightarrow> length t \<le> NUMINPUT_LEN \<and> length (filter (\<lambda>c. c = CHR ''.'') t) \<le> 1"

definition kp_ok :: "string \<Rightarrow> bool" where
  "kp_ok buf \<longleftrightarrow> length buf = KP_BUF_SIZE \<and> num_text (kp_text buf)"

lemma text_split: "length (kp_text buf) < length buf \<Longrightarrow> \<exists>junk. buf = kp_text buf @ NUL # junk"
proof (induction buf)
  case (Cons c buf)
  then show ?case by (cases "c = NUL") (auto simp: kp_text_def)
qed simp

lemma text_no_nul: "NUL \<notin> set (kp_text buf)"
  by (auto simp: kp_text_def dest: set_takeWhileD)

lemma text_take: "n < length buf \<Longrightarrow> NUL \<notin> set (take n buf) \<Longrightarrow> kp_text (buf[n := NUL]) = take n buf"
  unfolding kp_text_def by (subst upd_conv_take_nth_drop) (auto intro!: takeWhile_stop)

lemma take_text: "n \<le> length (kp_text buf) \<Longrightarrow> take n buf = take n (kp_text buf)"
proof -
  assume n: "n \<le> length (kp_text buf)"
  have "take n (kp_text buf @ dropWhile (\<lambda>c. c \<noteq> NUL) buf) = take n (kp_text buf)" using n by simp
  then show ?thesis by (simp add: kp_text_def)
qed

lemma moves_left_from: "n \<le> length s \<Longrightarrow>
    kp_moves (map (\<lambda>i. (i, i + 1)) [length p..<length p + n]) (p @ c # s) = Some (p @ take n s @ drop n (c # s))"
proof (induction n arbitrary: p c s)
  case (Suc n)
  obtain x s' where s: "s = x # s'" using Suc.prems by (cases s) auto
  have "[length p..<length p + Suc n] = length p # [length (p @ [x])..<length (p @ [x]) + n]"
    by (simp add: upt_conv_Cons)
  then show ?case using Suc.IH [of s' "p @ [x]" x] Suc.prems
    by (simp add: s kp_get_def kp_set_def nth_append list_update_append)
qed simp

lemma moves_right_from: "n < length buf \<Longrightarrow>
    kp_moves (map (\<lambda>i. (i, i - 1)) (rev [1..<n + 1])) buf = Some (take 1 buf @ take n buf @ drop (n + 1) buf)"
proof (induction n arbitrary: buf)
  case 0
  then show ?case by (cases buf) simp_all
next
  case (Suc n)
  let ?b = "buf[Suc n := buf ! n]"
  have "rev [1..<Suc n + 1] = Suc n # rev [1..<n + 1]" by simp
  moreover have "kp_moves (map (\<lambda>i. (i, i - 1)) (rev [1..<n + 1])) ?b = Some (take 1 ?b @ take n ?b @ drop (n + 1) ?b)"
    using Suc by simp
  moreover have "take 1 ?b @ take n ?b @ drop (n + 1) ?b = take 1 buf @ take (Suc n) buf @ drop (Suc n + 1) buf"
  proof -
    have "take 1 ?b = take 1 buf" by (cases buf) simp_all
    moreover have "drop (n + 1) ?b = buf ! n # drop (Suc n + 1) buf"
      using Suc.prems by (simp add: Cons_nth_drop_Suc [symmetric])
    ultimately show ?thesis using Suc.prems by (simp add: take_Suc_conv_app_nth)
  qed
  ultimately show ?case using Suc.prems by (simp add: kp_get_def kp_set_def)
qed

lemma moves_left: "length buf = 14 \<Longrightarrow>
    kp_moves (map (\<lambda>i. (i, i + 1)) [0..<NUMINPUT_LEN]) buf = Some (take 12 (tl buf) @ drop 12 buf)"
  using moves_left_from [of 12 "tl buf" "[]" "hd buf"] by (cases buf) (simp_all add: NUMINPUT_LEN_def)

lemma moves_right: "length buf = 14 \<Longrightarrow>
    kp_moves (map (\<lambda>i. (i, i - 1)) (rev [1..<NUMINPUT_LEN + 1])) buf = Some (take 1 buf @ take 12 buf @ drop 13 buf)"
  using moves_right_from [of 12 buf] by (simp add: NUMINPUT_LEN_def)

lemma period_no_dot: "length (kp_text buf) < length buf \<Longrightarrow> length (kp_text buf) = period_pos buf \<longleftrightarrow> CHR ''.'' \<notin> set (kp_text buf)"
proof -
  assume "length (kp_text buf) < length buf"
  then obtain junk where b: "buf = kp_text buf @ NUL # junk" using text_split by blast
  show ?thesis
  proof (cases "CHR ''.'' \<in> set (kp_text buf)")
    case True
    then obtain xs ys where x: "kp_text buf = xs @ CHR ''.'' # ys" "CHR ''.'' \<notin> set xs"
      by (auto dest: split_list_first)
    then have "buf = xs @ CHR ''.'' # ys @ NUL # junk" using b by simp
    moreover have "\<forall>c \<in> set xs. c \<noteq> NUL \<and> c \<noteq> CHR ''.''" using x text_no_nul [of buf] by auto
    ultimately have "period_pos buf = length xs"
      by (simp add: period_pos_def takeWhile_stop)
    then show ?thesis using x by simp
  next
    case False
    then have "\<forall>c \<in> set (kp_text buf). c \<noteq> NUL \<and> c \<noteq> CHR ''.''" using text_no_nul [of buf] by auto
    then have "period_pos buf = length (kp_text buf)"
      by (subst b) (simp add: period_pos_def takeWhile_stop)
    then show ?thesis using False by simp
  qed
qed

lemma minus_key:
  assumes "kp_ok buf"
  shows "\<exists>k b. num_keypad_minus m (length (kp_text buf)) buf = Some (k, b) \<and> k < length b \<and> length b = KP_BUF_SIZE \<and>
    take k b = num_edit m KP_MINUS (kp_text buf)"
proof -
  let ?t = "kp_text buf"
  have len: "length buf = 14" "length ?t \<le> 12" using assms by (simp_all add: kp_ok_def num_text_def kp_sizes)
  then obtain junk where b: "buf = ?t @ NUL # junk" using text_split [of buf] by auto
  have h: "(buf ! 0 = CHR ''-'') = (?t \<noteq> [] \<and> hd ?t = CHR ''-'')"
    by (subst b, cases ?t) simp_all
  show ?thesis
  proof (cases "buf ! 0 = CHR ''-''")
    case True
    then have t: "?t \<noteq> []" "hd ?t = CHR ''-''" using h by simp_all
    have "take (length ?t - 1) (take 12 (tl buf) @ drop 12 buf) = take (length ?t - 1) (tl buf)"
      using len t le_trans [of "length ?t - 1" "length ?t" 12] by (simp add: min_absorb1)
    also have "\<dots> = tl (take (length ?t) buf)" using t by (cases buf) (simp_all add: take_Cons')
    also have "\<dots> = tl ?t" using take_text [of "length ?t" buf] by simp
    finally show ?thesis
      using True len t unfolding num_keypad_minus_def moves_left [OF len(1)]
      by (simp add: kp_get_def num_edit_def key_codes kp_sizes)
  next
    case False
    then have t: "\<not> (?t \<noteq> [] \<and> hd ?t = CHR ''-'')" using h by simp
    let ?k = "if length ?t < m then length ?t + 1 else length ?t"
    let ?b = "(take 1 buf @ take 12 buf @ drop 13 buf)[0 := CHR ''-'']"
    have l: "length (take 1 buf @ take 12 buf @ drop 13 buf) = 14" using len by simp
    have b': "?b = CHR ''-'' # take 12 buf @ drop 13 buf" using len by (cases buf) simp_all
    have "take ?k ?b = take ?k (CHR ''-'' # ?t)"
      unfolding b' using len take_text [of "?k - 1" buf] by (cases ?k) (auto simp: min_def split: if_splits)
    moreover have "num_edit m KP_MINUS ?t = take ?k (CHR ''-'' # ?t)" using t by (auto simp: num_edit_def key_codes)
    moreover have "num_keypad_minus m (length ?t) buf = Some (?k, ?b)"
      using False len l unfolding num_keypad_minus_def moves_right [OF len(1)] by (simp add: kp_get_def kp_set_def)
    moreover have "?k < length ?b" "length ?b = KP_BUF_SIZE" using len l by (simp_all add: kp_sizes)
    ultimately show ?thesis by (metis (no_types))
  qed
qed

lemma num_text_edit:
  assumes "num_text t" "m \<le> NUMINPUT_LEN"
  shows "num_text (num_edit m c t)"
proof -
  let ?n = "\<lambda>t. length (filter (\<lambda>c. c = CHR ''.'') t)"
  have b: "?n (butlast t) \<le> ?n t" by (induction t) auto
  have tl: "?n (tl t) \<le> ?n t" by (cases t) auto
  have tk: "?n (take k t) \<le> ?n t" for k by (induction t arbitrary: k) (auto simp: take_Cons' split: if_splits)
  have z: "?n t = 0" if "CHR ''.'' \<notin> set t" using that by (auto simp: filter_empty_conv)
  have d: "(char_of (48 + c) :: char) \<noteq> CHR ''.''" if "c \<le> KP_9"
  proof
    assume "(char_of (48 + c) :: char) = CHR ''.''"
    then have "of_char (char_of (48 + c) :: char) = (of_char CHR ''.'' :: nat)" by (rule arg_cong)
    then show False using that by (simp add: key_codes)
  qed
  show ?thesis
    using assms b tl tk [of "length t - 1"] tk [of "length t"] z d
    by (auto simp: num_text_def num_edit_def kp_sizes take_Cons')
qed

lemma keypad_edit_step:
  assumes "kp_ok buf" "c < KP_k \<or> KP_PERCENT < c" "c \<noteq> KP_BS \<or> kp_text buf \<noteq> []"
  shows "\<exists>buf'. num_keypad_click c (length (kp_text buf)) mode buf = Some (K_CONTINUE, buf') \<and> kp_ok buf' \<and>
    kp_text buf' = num_edit (max_length mode) c (kp_text buf)"
proof -
  let ?t = "kp_text buf" and ?m = "max_length mode"
  have len: "length buf = 14" "length ?t \<le> 12" using assms(1) by (simp_all add: kp_ok_def num_text_def kp_sizes)
  have m: "?m \<le> NUMINPUT_LEN" by (simp add: max_length_def kp_sizes)
  have nt: "num_text (num_edit ?m c ?t)" using num_text_edit [OF _ m] assms(1) by (simp add: kp_ok_def)
  have tt: "take (length ?t) buf = ?t" using take_text [of "length ?t" buf] by simp
  have pp: "length ?t = period_pos buf \<longleftrightarrow> CHR ''.'' \<notin> set ?t" using len by (intro period_no_dot) simp
  have nn: "NUL \<notin> set (num_edit ?m c ?t)"
  proof -
    have "(char_of (48 + c) :: char) \<noteq> NUL" if "c \<le> KP_9"
    proof
      assume "(char_of (48 + c) :: char) = NUL"
      then have "of_char (char_of (48 + c) :: char) = (of_char NUL :: nat)" by (rule arg_cong)
      then show False using that by (simp add: key_codes)
    qed
    then show ?thesis
      using text_no_nul [of buf]
      by (auto simp: num_edit_def dest: in_set_butlastD in_set_takeD list.set_sel(2) split: if_splits)
  qed
  have step: "\<exists>k b. (if c = KP_BS then Some (length ?t - 1, buf)
      else if c = KP_MINUS then num_keypad_minus ?m (length ?t) buf
      else if length ?t < ?m then
        if c \<le> KP_9 then do { buf \<leftarrow> kp_set (length ?t) (char_of (48 + c)) buf; Some (length ?t + 1, buf) }
        else if c = KP_PERIOD \<and> length ?t = period_pos buf \<and> ?m = NUMINPUT_LEN
        then do { buf \<leftarrow> kp_set (length ?t) (CHR ''.'') buf; Some (length ?t + 1, buf) }
        else Some (length ?t, buf)
      else Some (length ?t, buf)) = Some (k, b) \<and> k < length b \<and> length b = KP_BUF_SIZE \<and> take k b = num_edit ?m c ?t"
  proof -
    have bl: "take (length ?t - 1) buf = butlast ?t"
      using take_text [of "length ?t - 1" buf] by (simp add: butlast_conv_take)
    have ap: "take (length ?t + 1) (buf[length ?t := x]) = ?t @ [x]" for x
      using len tt by (simp add: take_Suc_conv_app_nth)
    show ?thesis
      using minus_key [OF assms(1), of ?m] len m bl tt pp ap
      by (cases "c = KP_BS"; cases "c = KP_MINUS")
        (auto simp: num_edit_def kp_set_def kp_sizes key_codes)
  qed
  then obtain k b where s: "(if c = KP_BS then Some (length ?t - 1, buf)
      else if c = KP_MINUS then num_keypad_minus ?m (length ?t) buf
      else if length ?t < ?m then
        if c \<le> KP_9 then do { buf \<leftarrow> kp_set (length ?t) (char_of (48 + c)) buf; Some (length ?t + 1, buf) }
        else if c = KP_PERIOD \<and> length ?t = period_pos buf \<and> ?m = NUMINPUT_LEN
        then do { buf \<leftarrow> kp_set (length ?t) (CHR ''.'') buf; Some (length ?t + 1, buf) }
        else Some (length ?t, buf)
      else Some (length ?t, buf)) = Some (k, b)" and k: "k < length b" "length b = KP_BUF_SIZE" "take k b = num_edit ?m c ?t"
    by blast
  have "num_keypad_click c (length ?t) mode buf = Some (K_CONTINUE, b[k := NUL])"
    using assms(2,3) k unfolding num_keypad_click_def Let_def max_length_def [symmetric] s
    by (auto simp: kp_set_def key_codes)
  moreover have "kp_text (b[k := NUL]) = num_edit ?m c ?t" using text_take [OF k(1)] nn k(3) by simp
  ultimately show ?thesis using nt k(2) by (intro exI [of _ "b[k := NUL]"]) (simp add: kp_ok_def)
qed

section \<open>Frequencies with a unit\<close>

lemma ok_holds:
  assumes "kp_ok buf"
  obtains pre post where "kp_holds buf pre post" "length pre + length post \<le> 12"
proof -
  let ?t = "kp_text buf"
  let ?pre = "takeWhile (\<lambda>c. c \<noteq> CHR ''.'') ?t" and ?post = "dropWhile (\<lambda>c. c \<noteq> CHR ''.'') ?t"
  have t: "?t = ?pre @ ?post" by simp
  obtain junk where b: "buf = ?t @ NUL # junk"
    using text_split [of buf] assms by (auto simp: kp_ok_def num_text_def kp_sizes)
  have f: "filter (\<lambda>c. c = CHR ''.'') ?t = filter (\<lambda>c. c = CHR ''.'') ?post"
    by (subst t, simp only: filter_append) (auto simp: filter_empty_conv dest: set_takeWhileD)
  have hd: "?post = [] \<or> hd ?post = CHR ''.''" using hd_dropWhile [of "\<lambda>c. c \<noteq> CHR ''.''" ?t] by auto
  have "CHR ''.'' \<notin> set (tl ?post)"
  proof (cases ?post)
    case (Cons c s)
    then have "length (filter (\<lambda>c. c = CHR ''.'') s) = 0" using assms f hd by (simp add: kp_ok_def num_text_def)
    then show ?thesis using Cons by (auto simp: filter_empty_conv)
  next
    case Nil
    show ?thesis unfolding Nil by simp
  qed
  moreover have "NUL \<notin> set ?pre" "NUL \<notin> set ?post"
    using text_no_nul [of buf] by (auto dest: set_takeWhileD set_dropWhileD)
  moreover have "CHR ''.'' \<notin> set ?pre" by (auto dest: set_takeWhileD)
  moreover have "buf = ?pre @ ?post @ NUL # junk" using b t by (metis append_assoc)
  moreover have "length buf = KP_BUF_SIZE" using assms by (simp add: kp_ok_def)
  ultimately have "kp_holds buf ?pre ?post" using hd unfolding kp_holds_def by blast
  moreover have "length ?pre + length ?post \<le> 12"
    using assms t by (simp add: kp_ok_def num_text_def kp_sizes flip: length_append)
  ultimately show thesis by (rule that)
qed

text \<open>The digits a unit key shifts by, within the length of the buffer.\<close>

definition unit_digits :: "nat \<Rightarrow> nat" where
  "unit_digits c = 3 * (c - KP_k + 1)"

lemma scale_word:
  assumes "KP_k \<le> c" "c \<le> KP_G"
  shows "unat ((of_nat (c - KP_k + 1) :: u16) + push_bit 1 (of_nat (c - KP_k + 1))) = unit_digits c"
proof -
  have "c \<in> {13, 14, 15}" using assms by (auto simp: key_codes)
  then show ?thesis by (auto simp: key_codes unit_digits_def)
qed

lemma scale_shift:
  assumes "kp_holds buf pre post" "length pre \<le> 12" "KP_k \<le> c" "c \<le> KP_G"
  shows "num_keypad_scale c buf = kp_shift (of_nat (min (unit_digits c) (12 - length pre))) (length pre) buf"
proof -
  have "(word_of_int (int 12 - int (length pre)) :: u16) = of_nat (12 - length pre)"
    using assms(2) by (simp add: of_nat_diff)
  moreover have "(of_nat (c - KP_k + 1) :: u16) + push_bit 1 (of_nat (c - KP_k + 1)) = of_nat (unit_digits c)"
  proof -
    have "c \<in> {13, 14, 15}" using assms(3,4) by (auto simp: key_codes)
    then show ?thesis by (auto simp: key_codes unit_digits_def)
  qed
  ultimately show ?thesis
    using scale_word [OF assms(3,4)] holds_period [OF assms(1)] assms(2)
    by (auto simp: num_keypad_scale_def kp_sizes Let_def min_def)
qed

lemma shift_overrun: "kp_holds buf pre [] \<Longrightarrow> length pre = 12 \<Longrightarrow> kp_shift scale 12 buf = None"
  by (subst kp_shift.simps) (auto simp: kp_holds_def kp_sizes kp_get_def kp_set_def nth_append)

text \<open>
  A unit key leaves the buffer exactly when 12 digits without a period stand in
  it: the room left is then 0 places, the loop runs before it counts, and its first turn writes
  behind the end of \<open>kp_buf\<close> (the next 65535 would follow). No other key ever does.
\<close>

theorem keypad_unit_overruns:
  assumes "kp_ok buf"
  shows "num_keypad_click c (length (kp_text buf)) mode buf = None \<longleftrightarrow>
    KP_k \<le> c \<and> c \<le> KP_G \<and> length (kp_text buf) = 12 \<and> CHR ''.'' \<notin> set (kp_text buf)"
proof -
  obtain pre post where h: "kp_holds buf pre post" "length pre + length post \<le> 12" by (rule ok_holds [OF assms])
  have t: "kp_text buf = pre @ post" using holds_text [OF h(1)] .
  have len: "length buf = 14" using h(1) by (simp add: kp_holds_def kp_sizes)
  have nodot: "CHR ''.'' \<notin> set (kp_text buf) \<longleftrightarrow> post = []" using h(1) by (cases post) (auto simp: t kp_holds_def)
  show ?thesis
  proof (cases "KP_k \<le> c \<and> c \<le> KP_G")
    case True
    then have c: "KP_k \<le> c" "c \<le> KP_G" by simp_all
    have u: "0 < unit_digits c" by (simp add: unit_digits_def)
    have click: "num_keypad_click c (length (kp_text buf)) mode buf =
        (if kp_text buf = [] then Some (K_CANCEL, buf) else do { buf \<leftarrow> num_keypad_scale c buf; Some (K_DONE, buf) })"
      using c by (simp add: num_keypad_click_def key_codes)
    show ?thesis
    proof (cases "length pre = 12")
      case True
      then have p: "post = []" using h(2) by simp
      show ?thesis
        unfolding click using scale_shift [OF h(1) _ c] shift_overrun [of buf pre] h(1) True p nodot t c by auto
    next
      case False
      then have n: "0 < min (unit_digits c) (12 - length pre)" "length pre + min (unit_digits c) (12 - length pre) \<le> 12"
        using h(2) u by simp_all
      have "num_keypad_scale c buf \<noteq> None"
        using shift_digits [OF h(1) n] scale_shift [OF h(1) _ c] h(2) by auto
      then show ?thesis unfolding click using False h(2) t nodot by auto
    qed
  next
    case False
    then show ?thesis
    proof (cases "c < KP_k \<or> KP_PERCENT < c")
      case True
      then show ?thesis
      proof (cases "c = KP_BS \<and> kp_text buf = []")
        case bs: True
        then show ?thesis using True by (auto simp: num_keypad_click_def key_codes)
      next
        case bs: False
        have "\<exists>buf'. num_keypad_click c (length (kp_text buf)) mode buf = Some (K_CONTINUE, buf')"
          using keypad_edit_step [OF assms True] bs by blast
        then show ?thesis using False by auto
      qed
    next
      case other: False
      have "length (kp_text buf) + 1 < 14" using h(2) t by simp
      then show ?thesis using False other len by (auto simp: num_keypad_click_def kp_set_def key_codes)
    qed
  qed
qed

theorem keypad_unit_overruns_witness:
  "num_keypad_click KP_k 12 KM_START (''100000000000'' @ [NUL, NUL]) = None"
proof -
  have "kp_ok (''100000000000'' @ [NUL, NUL])" by code_simp
  moreover have t: "kp_text (''100000000000'' @ [NUL, NUL]) = ''100000000000''" by code_simp
  moreover have l: "length ''100000000000'' = 12" by simp
  ultimately show ?thesis
    using keypad_unit_overruns [of "''100000000000'' @ [NUL, NUL]" KP_k KM_START] unfolding t l
    by (simp add: key_codes)
qed

text \<open>
  What every key means for the text: a unit key moves the period right and fills with zeros, up to 12
  places before it; \<open>None\<close> is the write behind the buffer.
\<close>

definition num_unit :: "nat \<Rightarrow> string \<Rightarrow> string" where
  "num_unit c t =
     (let pre = takeWhile (\<lambda>c. c \<noteq> CHR ''.'') t; post = dropWhile (\<lambda>c. c \<noteq> CHR ''.'') t;
          n = min (unit_digits c) (NUMINPUT_LEN - length pre)
      in pre @ take n (tl post @ replicate n (CHR ''0'')) @ (if post = [] then [] else CHR ''.'' # drop n (tl post)))"

definition key_meaning :: "keypad_mode \<Rightarrow> nat \<Rightarrow> string \<Rightarrow> (key_result \<times> string) option" where
  "key_meaning mode c t =
     (if KP_k \<le> c \<and> c \<le> KP_PERCENT then
        if t = [] then Some (K_CANCEL, t)
        else if c \<le> KP_G then if length t = NUMINPUT_LEN \<and> CHR ''.'' \<notin> set t then None else Some (K_DONE, num_unit c t)
        else if c \<le> KP_p then Some (K_DONE, t @ [''munp'' ! (c - KP_m)])
        else Some (K_DONE, t)
      else if c = KP_BS \<and> t = [] then Some (K_CANCEL, t)
      else Some (K_CONTINUE, num_edit (max_length mode) c t))"

lemma unit_key:
  assumes "kp_ok buf" "KP_k \<le> c" "c \<le> KP_G" "length (kp_text buf) \<noteq> 12 \<or> CHR ''.'' \<in> set (kp_text buf)"
  shows "\<exists>buf'. num_keypad_scale c buf = Some buf' \<and> kp_text buf' = num_unit c (kp_text buf) \<and> length buf' = KP_BUF_SIZE"
proof -
  obtain pre post where h: "kp_holds buf pre post" "length pre + length post \<le> 12" by (rule ok_holds [OF assms(1)])
  have t: "kp_text buf = pre @ post" using holds_text [OF h(1)] .
  have p: "takeWhile (\<lambda>c. c \<noteq> CHR ''.'') (pre @ post) = pre" "dropWhile (\<lambda>c. c \<noteq> CHR ''.'') (pre @ post) = post"
    using h(1) by (cases post; force simp: kp_holds_def takeWhile_append dropWhile_append)+
  have lt: "length pre < 12"
  proof (rule ccontr)
    assume "\<not> length pre < 12"
    then have "length pre = 12 \<and> length post = 0" using h(2) by linarith
    then have "length pre = 12" "post = []" by simp_all
    then show False using assms(4) h(1) by (simp add: t kp_holds_def)
  qed
  let ?n = "min (unit_digits c) (12 - length pre)"
  have n: "0 < ?n" "length pre + ?n \<le> 12" using lt by (simp_all add: unit_digits_def)
  obtain buf' where s: "kp_shift (of_nat ?n) (length pre) buf = Some buf'"
    "kp_holds buf' (pre @ take ?n (tl post @ replicate ?n (CHR ''0''))) (if post = [] then [] else CHR ''.'' # drop ?n (tl post))"
    using shift_digits [OF h(1) n] by auto
  have "num_keypad_scale c buf = Some buf'" using scale_shift [OF h(1) _ assms(2,3)] s(1) lt by simp
  moreover have "kp_text buf' = num_unit c (kp_text buf)"
    using holds_text [OF s(2)] unfolding num_unit_def t p Let_def kp_sizes by simp
  moreover have "length buf' = KP_BUF_SIZE" using s(2) by (simp add: kp_holds_def)
  ultimately show ?thesis by blast
qed

lemma letter_key:
  assumes "kp_ok buf" "v \<noteq> NUL"
  shows "kp_text (buf[length (kp_text buf) := v, Suc (length (kp_text buf)) := NUL]) = kp_text buf @ [v]"
proof -
  let ?t = "kp_text buf"
  have len: "length buf = 14" "length ?t \<le> 12" using assms(1) by (simp_all add: kp_ok_def num_text_def kp_sizes)
  then obtain junk where b: "buf = ?t @ NUL # junk" using text_split [of buf] by auto
  then have "length buf = length ?t + Suc (length junk)" by (metis length_Cons length_append)
  then obtain j js where j: "junk = j # js" using len by (cases junk) auto
  have nul: "NUL \<notin> set ?t" by (rule text_no_nul)
  have "buf[length ?t := v, Suc (length ?t) := NUL] = ?t @ v # NUL # js"
    by (subst (1) b) (simp add: j list_update_append)
  then show ?thesis using nul assms(2) by (simp add: kp_text_def [of "_ @ _"] takeWhile_append)
qed

text \<open>
  C17 On a buffer the numeric keypad can hold, every key does what it means, \<open>key_meaning\<close>.
  A key that goes on edits the text: a digit or the first period is appended up to the length of
  the mode, backspace takes the last character, and minus toggles the sign, dropping the last
  character when there is no room. A unit key k, M or G moves the period and ends the
  input, and leaves the buffer on 12 digits without a period; the letters m, u, n, p are appended and end it; x1, enter and percent end it;
  on an empty text these and backspace cancel. The buffer keeps its length, and holds a text the
  keypad can go on with unless the input has ended.
\<close>

theorem keypad_edits_text:
  assumes "kp_ok buf"
  shows "map_option (apsnd kp_text) (num_keypad_click c (length (kp_text buf)) mode buf) = key_meaning mode c (kp_text buf) \<and>
    (\<forall>r buf'. num_keypad_click c (length (kp_text buf)) mode buf = Some (r, buf') \<longrightarrow>
       length buf' = KP_BUF_SIZE \<and> (r \<noteq> K_DONE \<longrightarrow> kp_ok buf'))"
proof -
  let ?t = "kp_text buf"
  have len: "length buf = KP_BUF_SIZE" "length ?t \<le> 12" using assms by (simp_all add: kp_ok_def num_text_def kp_sizes)
  consider (go) "c < KP_k \<or> KP_PERCENT < c" "c \<noteq> KP_BS \<or> ?t \<noteq> []" | (bs) "c = KP_BS" "?t = []" | (cancel) "KP_k \<le> c" "c \<le> KP_PERCENT" "?t = []"
    | (over) "KP_k \<le> c" "c \<le> KP_G" "length ?t = 12" "CHR ''.'' \<notin> set ?t" | (unit) "KP_k \<le> c" "c \<le> KP_G" "?t \<noteq> []" "length ?t \<noteq> 12 \<or> CHR ''.'' \<in> set ?t"
    | (letter) "KP_m \<le> c" "c \<le> KP_p" "?t \<noteq> []" | (enter) "KP_X1 \<le> c" "c \<le> KP_PERCENT" "?t \<noteq> []"
    by (fastforce simp: key_codes)
  then show ?thesis
  proof cases
    case go
    from keypad_edit_step [OF assms go, of mode] obtain buf' where
      b: "num_keypad_click c (length ?t) mode buf = Some (K_CONTINUE, buf')" "kp_ok buf'" "kp_text buf' = num_edit (max_length mode) c ?t" by blast
    have m: "key_meaning mode c ?t = Some (K_CONTINUE, num_edit (max_length mode) c ?t)" using go by (auto simp: key_meaning_def)
    show ?thesis unfolding b(1) m using b(2,3) by (simp add: kp_ok_def)
  next
    case bs
    then have "num_keypad_click c (length ?t) mode buf = Some (K_CANCEL, buf)" by (simp add: num_keypad_click_def key_codes)
    then show ?thesis using bs assms len by (simp add: key_meaning_def key_codes)
  next
    case cancel
    then have "num_keypad_click c (length ?t) mode buf = Some (K_CANCEL, buf)" by (simp add: num_keypad_click_def)
    then show ?thesis using cancel assms len by (simp add: key_meaning_def)
  next
    case over
    then have "num_keypad_click c (length ?t) mode buf = None" using keypad_unit_overruns [OF assms] by simp
    then show ?thesis using over by (auto simp: key_meaning_def key_codes kp_sizes)
  next
    case unit
    obtain buf' where b: "num_keypad_scale c buf = Some buf'" "kp_text buf' = num_unit c ?t" "length buf' = KP_BUF_SIZE"
      using unit_key [OF assms unit(1,2,4)] by blast
    have k: "num_keypad_click c (length ?t) mode buf = Some (K_DONE, buf')"
      using unit b(1) by (simp add: num_keypad_click_def key_codes)
    have m: "key_meaning mode c ?t = Some (K_DONE, num_unit c ?t)"
      using unit by (auto simp: key_meaning_def key_codes kp_sizes)
    show ?thesis unfolding k m using b(2,3) by simp
  next
    case letter
    have c: "c - KP_m \<in> {0, 1, 2, 3}" using letter(1,2) by (auto simp: key_codes)
    let ?v = "''munp'' ! (c - KP_m)" and ?n = "length ?t"
    have v: "?v \<noteq> NUL" using c by auto
    have k: "num_keypad_click c ?n mode buf = Some (K_DONE, buf[?n := ?v, Suc ?n := NUL])"
      using letter len by (simp add: num_keypad_click_def key_codes kp_set_def kp_sizes)
    have m: "key_meaning mode c ?t = Some (K_DONE, ?t @ [?v])"
      using letter by (auto simp: key_meaning_def key_codes)
    show ?thesis unfolding k m using letter_key [OF assms v] len by simp
  next
    case enter
    then have k: "num_keypad_click c (length ?t) mode buf = Some (K_DONE, buf)" and m: "key_meaning mode c ?t = Some (K_DONE, ?t)"
      by (simp_all add: num_keypad_click_def key_meaning_def key_codes)
    show ?thesis unfolding k m using len by simp
  qed
qed

text \<open>Minus on 12 digits drops the last one; 12.5 and M is 12500000.\<close>

theorem keypad_edits_text_witness:
  "map_option (apsnd kp_text) (num_keypad_click KP_MINUS 12 KM_REFPOS (''123456789012'' @ [NUL, NUL])) = Some (K_CONTINUE, ''-12345678901'') \<and>
   map_option (apsnd kp_text) (num_keypad_click KP_M 4 KM_CENTER (''12.5'' @ replicate 10 NUL)) = Some (K_DONE, ''12500000.'')"
proof -
  have a: "kp_ok (''123456789012'' @ [NUL, NUL])" "kp_ok (''12.5'' @ replicate 10 NUL)" by code_simp+
  have t: "kp_text (''123456789012'' @ [NUL, NUL]) = ''123456789012''" "kp_text (''12.5'' @ replicate 10 NUL) = ''12.5''" by code_simp+
  have l: "length ''123456789012'' = 12" "length ''12.5'' = 4" by simp_all
  have e: "key_meaning KM_REFPOS KP_MINUS ''123456789012'' = Some (K_CONTINUE, ''-12345678901'')"
    "key_meaning KM_CENTER KP_M ''12.5'' = Some (K_DONE, ''12500000.'')" by code_simp+
  show ?thesis
    using keypad_edits_text [OF a(1), of KP_MINUS KM_REFPOS] keypad_edits_text [OF a(2), of KP_M KM_CENTER] unfolding t l e by blast
qed

lemma dec_doc: "is_dec c \<Longrightarrow> doc_digit 10 c = Some (dec_digit c)"
  by (auto simp: is_dec_def doc_digit_def dec_digit_def Let_def)

lemma atoui_decimal:
  assumes "ds \<noteq> []" "\<forall>c \<in> set ds. is_dec c" "rest = [] \<or> hd rest = CHR ''.''"
  shows "my_atoui (ds @ rest) = of_nat (digits_value 10 (map dec_digit ds))"
proof -
  have a: "accepted_digit 10 c = Some (dec_digit c)" if "c \<in> set ds" for c
    using assms(2) that dec_doc doc_accepted [of 10] by simp
  have r: "rest = [] \<or> accepted_digit 10 (hd rest) = None"
    using assms(3) by (auto simp: accepted_digit_iff doc_digit_def stray_digit_def)
  have "atoui_loop 10 0 (ds @ rest) = of_nat (digits_value 10 (map (the \<circ> accepted_digit 10) ds))"
    using atoui_loop_eq [of ds 10 rest 0] a r by simp
  moreover have "map (the \<circ> accepted_digit 10) ds = map dec_digit ds" using a by simp
  moreover obtain c q where ds: "ds = c # q" using assms(1) by (cases ds) auto
  then have "c \<noteq> CHR ''+''" using assms(2) by (auto simp: is_dec_def)
  moreover have "\<not> looks_prefixed (ds @ rest)"
    using assms(2,3) by (cases q; cases rest) (auto simp: ds looks_prefixed_def is_dec_def)
  ultimately show ?thesis using ds by (metis my_atoui_plain append_Cons)
qed

text \<open>
  A unit key on a decimal number whose places it covers gives \<open>ui_keyboard_cb\<close> a text
  whose frequency is the number times the unit, in Hz and modulo \<open>2 ^ 32\<close>.
\<close>

theorem keypad_unit_value:
  assumes "length buf = 14" "kp_text buf = ds @ (if fs = [] then [] else CHR ''.'' # fs)"
    and "ds \<noteq> []" "\<forall>c \<in> set ds \<union> set fs. is_dec c" "KP_k \<le> c" "c \<le> KP_G"
    and "length fs \<le> unit_digits c" "length ds + unit_digits c \<le> 12" "length (kp_text buf) \<le> 12"
  shows "\<exists>buf'. num_keypad_click c (length (kp_text buf)) mode buf = Some (K_DONE, buf') \<and>
    keyboard_get_freq buf' = of_nat (digits_value 10 (map dec_digit (ds @ fs)) * 10 ^ (unit_digits c - length fs))"
proof -
  let ?n = "unit_digits c" and ?post = "if fs = [] then [] else CHR ''.'' # fs"
  have nd: "x \<noteq> NUL" "x \<noteq> CHR ''.''" if "is_dec x" for x using that by (auto simp: is_dec_def)
  obtain junk where b: "buf = (ds @ ?post) @ NUL # junk"
    using text_split [of buf] assms(1,2,9) by auto
  have h: "kp_holds buf ds ?post"
    unfolding kp_holds_def using assms(1,4) b nd by (auto simp: kp_sizes)
  have n: "0 < ?n" by (simp add: unit_digits_def)
  have m: "min ?n (12 - length ds) = ?n" using assms(8) by simp
  have tp: "tl ?post = fs" by simp
  obtain buf' where s: "num_keypad_scale c buf = Some buf'"
    "kp_holds buf' (ds @ take ?n (fs @ replicate ?n (CHR ''0''))) (if ?post = [] then [] else CHR ''.'' # drop ?n fs)"
    using shift_digits [OF h n assms(8)] scale_shift [OF h _ assms(5,6)] assms(8) unfolding m tp by auto
  have tk: "take ?n (fs @ replicate ?n (CHR ''0'')) = fs @ replicate (?n - length fs) (CHR ''0'')"
    using assms(7) by (simp add: min_def)
  have tx: "kp_text buf' = (ds @ fs @ replicate (?n - length fs) (CHR ''0'')) @ (if ?post = [] then [] else CHR ''.'' # drop ?n fs)"
    using holds_text [OF s(2)] unfolding tk by simp
  have z: "digits_value 10 (replicate k 0) = 0" for k by (induction k) (simp_all add: digits_value_Cons)
  have "keyboard_get_freq buf' = of_nat (digits_value 10 (map dec_digit (ds @ fs @ replicate (?n - length fs) (CHR ''0''))))"
    unfolding keyboard_get_freq_def tx using assms(3,4)
    by (intro atoui_decimal) (auto simp: is_dec_def)
  also have "digits_value 10 (map dec_digit (ds @ fs @ replicate (?n - length fs) (CHR ''0''))) =
      digits_value 10 (map dec_digit (ds @ fs)) * 10 ^ (?n - length fs)"
    using z [of "?n - length fs"] by (simp add: digits_value_append dec_digit_def algebra_simps power_add)
  finally have "keyboard_get_freq buf' = of_nat (digits_value 10 (map dec_digit (ds @ fs)) * 10 ^ (?n - length fs))" .
  moreover have "num_keypad_click c (length (kp_text buf)) mode buf = Some (K_DONE, buf')"
    using assms(2,3,5,6) s(1) by (simp add: num_keypad_click_def key_codes)
  ultimately show ?thesis by blast
qed

text \<open>
  5 GHz: the number is above \<open>2 ^ 32\<close>, and the frequency taken is 705.032704 MHz. It is within the
  device's range and not reported.
\<close>

theorem keypad_unit_value_witness:
  "\<exists>buf'. num_keypad_click KP_G 1 KM_CENTER (''5'' @ replicate 13 NUL) = Some (K_DONE, buf') \<and>
     keyboard_get_freq buf' = 705032704"
proof -
  have t: "kp_text (''5'' @ replicate 13 NUL) = ''5'' @ (if [] = [] then [] else CHR ''.'' # [])" by code_simp
  have "length (kp_text (''5'' @ replicate 13 NUL)) = 1" by code_simp
  from keypad_unit_value [OF _ t, of KP_G KM_CENTER, unfolded this] obtain buf' where
    b: "num_keypad_click KP_G 1 KM_CENTER (''5'' @ replicate 13 NUL) = Some (K_DONE, buf')" "keyboard_get_freq buf' = 5000000000"
    by (auto simp: is_dec_def key_codes unit_digits_def dec_digit_def digits_value_def)
  from b(2) have "keyboard_get_freq buf' = 705032704" by simp
  with b(1) show ?thesis by blast
qed

section \<open>Touching and stepping through the keys\<close>

lemma find_key_nth:
  "distinct (map fst bs) \<Longrightarrow> i < length bs \<Longrightarrow>
   find_key bs (fst (bs ! i)) = (if snd (bs ! i) = KP_EMPTY then None else Some i)"
proof (induction bs arbitrary: i)
  case (Cons b bs)
  obtain p c where b: "b = (p, c)" by (cases b)
  show ?case
  proof (cases i)
    case (Suc j)
    then have "fst (bs ! j) \<in> fst ` set bs" using Cons.prems(2) by simp
    then have "p \<noteq> fst (bs ! j)" using Cons.prems(1) b by auto
    then show ?thesis using Cons Suc b by simp
  qed (simp add: b)
qed simp

lemma key_field: "a + c * w \<le> x \<Longrightarrow> x < a + c * w + w \<Longrightarrow> (x - a) div w = c" for x :: int
  by (rule int_div_pos_eq [where r = "x - a - c * w"]) (simp_all add: algebra_simps)

text \<open>
  C40 A touch anywhere in the rectangle a key is drawn in selects that key, on every
  keypad, and no key when it is an empty one.
\<close>

theorem keypad_touch_exact:
  assumes "kp = keypad_type_list kt" "i < kp_size kp" "key_rectangle kp i = (x, y, w, h)"
    and "x \<le> tx" "tx < x + w" "y \<le> ty" "ty < y + h"
  shows "touched_key kp tx ty = (if snd (kp_buttons kp ! i) = KP_EMPTY then None else Some i)"
proof -
  obtain p c where pc: "kp_buttons kp ! i = (p, c)" by (cases "kp_buttons kp ! i")
  obtain x0 y0 where pos: "key_pos (kp_type kp) = (x0, y0, w, h)" "x = x0 + int (drop_bit 4 p) * w" "y = y0 + int (p AND 0xF) * h"
    using assms(3) pc by (auto simp: key_rectangle_def split: prod.splits)
  have wh: "0 < w" "0 < h"
    using pos(1) by (cases "kp_type kp"; simp add: lcd_size; fail)+
  have wf: "kp \<in> set all_keypads" "length (kp_buttons kp) = kp_size kp" "distinct (map fst (kp_buttons kp))"
    using keypads_checked [of kt] keypad_type_list_all [of kt] by (simp_all add: assms(1) keypads_wf_def)
  have "list_all (\<lambda>kp. list_all (\<lambda>(p, c). nat (take_bit 8 ((int (p AND 0xF) AND 0x0F) OR push_bit 4 (int (drop_bit 4 p)))) = p)
      (kp_buttons kp)) all_keypads"
    by code_simp
  then have e: "nat (take_bit 8 ((int (p AND 0xF) AND 0x0F) OR push_bit 4 (int (drop_bit 4 p)))) = p"
    using wf(1,2) assms(2) pc nth_mem [of i "kp_buttons kp"] by (fastforce simp: list_all_iff)
  have f: "(tx - x0) div w = int (drop_bit 4 p)" "(ty - y0) div h = int (p AND 0xF)"
    using assms(4-7) pos(2,3) by (simp_all add: key_field)
  have g: "\<not> (tx < x0 \<or> ty < y0)"
  proof -
    have "0 \<le> int (drop_bit 4 p) * w" "0 \<le> int (p AND 0xF) * h" using wh by simp_all
    then show ?thesis using assms(4,6) pos(2,3) by linarith
  qed
  have "touched_key kp tx ty = find_key (kp_buttons kp) p"
    using wf(2) g by (simp only: touched_key_def pos(1) prod.case if_False Let_def f e take_all_iff [THEN iffD2] le_refl)
  then show ?thesis using find_key_nth [OF wf(3), of i] wf(2) assms(2) pc by simp
qed

text \<open>The last pixel of the key \<open>G\<close> of the frequency keypad.\<close>

theorem keypad_touch_exact_witness: "touched_key keypads_freq 319 51 = Some 11 \<and> key_rectangle keypads_freq 11 = (240, 0, 80, 52)"
proof -
  have r: "key_rectangle keypads_freq 11 = (240, 0, 80, 52)" by code_simp
  have s: "snd (kp_buttons keypads_freq ! 11) = KP_G" "kp_size keypads_freq = 16" by (simp_all add: keypads_freq_def)
  show ?thesis
    using keypad_touch_exact [OF _ _ r, of KEYPAD_FREQ 319 51] r s by (simp add: key_codes)
qed

text \<open>A key the lever can stand on.\<close>

definition selectable :: "keypads \<Rightarrow> int \<Rightarrow> bool" where
  "selectable kp sel \<longleftrightarrow> 0 \<le> sel \<and> sel < int (kp_size kp) \<and> snd (kp_buttons kp ! nat sel) \<noteq> KP_EMPTY"

fun keypad_skip_within :: "nat \<Rightarrow> u16 \<Rightarrow> keypads \<Rightarrow> int \<Rightarrow> int option" where
  "keypad_skip_within 0 status kp sel = None"
| "keypad_skip_within (Suc n) status kp sel =
     (let sel = keypad_step status kp sel in
      if sel < 0 \<or> int (length (kp_buttons kp)) \<le> sel then None
      else if snd (kp_buttons kp ! nat sel) = KP_EMPTY then keypad_skip_within n status kp sel
      else Some sel)"

lemma keypad_skip_within: "keypad_skip_within n status kp sel = Some sel' \<Longrightarrow> keypad_skip status kp sel = Some sel'"
proof (induction n arbitrary: sel)
  case (Suc n)
  then show ?case by (subst keypad_skip.simps) (auto simp: Let_def split: if_splits)
qed simp

text \<open>Only the two direction bits of the status matter.\<close>

definition directions :: "u16 \<Rightarrow> u16" where
  "directions status = (if status AND EVT_DOWN \<noteq> 0 then EVT_DOWN else 0) OR (if status AND EVT_UP \<noteq> 0 then EVT_UP else 0)"

lemma keypad_step_directions: "keypad_step status kp sel = keypad_step (directions status) kp sel"
proof -
  have "(directions status AND EVT_DOWN \<noteq> 0) = (status AND EVT_DOWN \<noteq> 0)" "(directions status AND EVT_UP \<noteq> 0) = (status AND EVT_UP \<noteq> 0)"
    by (simp_all add: directions_def EVT_DOWN_def EVT_UP_def)
  then show ?thesis by (simp add: keypad_step_def)
qed

lemma keypad_skip_directions: "keypad_skip_within n status kp sel = keypad_skip_within n (directions status) kp sel"
  by (induction n arbitrary: sel) (simp_all add: Let_def keypad_step_directions [of status])

lemma keypad_skip_table:
  "list_all (\<lambda>kp. list_all (\<lambda>status. list_all (\<lambda>sel.
     sel \<noteq> -1 \<and> snd (kp_buttons kp ! nat sel) = KP_EMPTY \<or> sel = -1 \<and> status = 0 \<or>
     (case keypad_skip_within 5 status kp sel of None \<Rightarrow> False | Some s \<Rightarrow> 0 \<le> s \<and> s < int (kp_size kp) \<and> snd (kp_buttons kp ! nat s) \<noteq> KP_EMPTY))
     [-1..int (kp_size kp) - 1]) [0, 0x10, 0x20, 0x30]) all_keypads"
  by code_simp

lemma keypad_skip_selectable:
  assumes "sel = -1 \<and> (status AND EVT_UP \<noteq> 0 \<or> status AND EVT_DOWN \<noteq> 0) \<or> selectable (keypad_type_list kt) sel"
  shows "\<exists>s. keypad_skip status (keypad_type_list kt) sel = Some s \<and> selectable (keypad_type_list kt) s"
proof -
  let ?kp = "keypad_type_list kt"
  have d: "directions status \<in> set [0, 0x10, 0x20, 0x30]" by (simp add: directions_def EVT_DOWN_def EVT_UP_def)
  have r: "sel \<in> set [-1..int (kp_size ?kp) - 1]" using assms by (auto simp: selectable_def)
  have n: "\<not> (sel \<noteq> -1 \<and> snd (kp_buttons ?kp ! nat sel) = KP_EMPTY \<or> sel = -1 \<and> directions status = 0)"
    using assms by (auto simp: selectable_def directions_def EVT_DOWN_def EVT_UP_def split: if_splits)
  obtain s where "keypad_skip_within 5 (directions status) ?kp sel = Some s" "selectable ?kp s"
    using keypad_skip_table keypad_type_list_all [of kt] d r n unfolding list_all_iff selectable_def
    by (fastforce split: option.splits)
  then show ?thesis using keypad_skip_within keypad_skip_directions by metis
qed

lemma keypad_lever_loop_selectable:
  "keypad_lever_loop kp status rs inp sel = Some (inp', sel', rs') \<Longrightarrow> kp = keypad_type_list kt \<Longrightarrow>
   sel = -1 \<and> (status AND EVT_UP \<noteq> 0 \<or> status AND EVT_DOWN \<noteq> 0) \<or> selectable kp sel \<Longrightarrow> selectable kp sel'"
proof (induction kp status rs inp sel rule: keypad_lever_loop.induct)
  case (1 kp status rs inp sel)
  obtain s where s: "keypad_skip status kp sel = Some s" "selectable kp s"
    using keypad_skip_selectable 1(3,4) by blast
  obtain ev inp1 rs1 where w: "ui_input_wait_release rs inp = Some (ev, inp1, rs1)"
    using 1(2) s(1) by (subst (asm) keypad_lever_loop.simps) (auto split: option.splits)
  have body: "(if ev \<noteq> 0 then keypad_lever_loop kp ev rs1 inp1 s else Some (inp1, s, rs1)) = Some (inp', sel', rs')"
    using 1(2) s(1) w by (subst (asm) keypad_lever_loop.simps) simp
  show ?case
  proof (cases "ev = 0")
    case True
    then show ?thesis using body s(2) by simp
  next
    case False
    then show ?thesis using 1(1) [OF s(1) w refl refl False _ 1(3)] body s(2) by simp
  qed
qed

text \<open>
  From the state a keypad opens in, or from any key, the lever's loop over the
  empty keys ends, stays inside the table and stops on a key that is not empty, however long and
  in whichever direction it is held.
\<close>

theorem keypad_lever_selects:
  assumes "sel = -1 \<or> selectable (keypad_type_list kt) sel" "status AND EVT_UP \<noteq> 0 \<or> status AND EVT_DOWN \<noteq> 0"
  shows "(\<exists>s. keypad_skip status (keypad_type_list kt) sel = Some s) \<and>
    (\<forall>rs inp inp' sel' rs'. keypad_lever_loop (keypad_type_list kt) status rs inp sel = Some (inp', sel', rs') \<longrightarrow>
       selectable (keypad_type_list kt) sel')"
  using keypad_skip_selectable [of sel status kt] keypad_lever_loop_selectable assms by blast

text \<open>From the opening state of a keypad with empty keys, one step down.\<close>

theorem keypad_lever_selects_witness:
  "\<exists>inp sel rs. keypad_lever_loop keypads_float EVT_DOWN [(70000, 0)] \<lparr>last_button = 2, last_button_down_ticks = 0, last_button_repeat_ticks = 0\<rparr> (-1) =
     Some (inp, sel, rs) \<and> sel = 13 \<and> selectable keypads_float sel"
proof -
  let ?inp = "\<lparr>last_button = 2, last_button_down_ticks = 0, last_button_repeat_ticks = 0\<rparr> :: input_state"
  have s: "keypad_skip EVT_DOWN keypads_float (-1) = Some 13"
    by (rule keypad_skip_within [of 5]) code_simp
  have w: "ui_input_wait_release [(70000, 0)] ?inp = Some (0, \<lparr>last_button = 0, last_button_down_ticks = 70000, last_button_repeat_ticks = 0\<rparr>, [])"
    by code_simp
  have l: "keypad_lever_loop keypads_float EVT_DOWN [(70000, 0)] ?inp (-1) =
      Some (\<lparr>last_button = 0, last_button_down_ticks = 70000, last_button_repeat_ticks = 0\<rparr>, 13, [])"
    by (subst keypad_lever_loop.simps) (simp add: s w del: ui_input_wait_release.simps)
  have "selectable keypads_float 13"
    using keypad_lever_selects [of "-1" KEYPAD_FLOAT EVT_DOWN, unfolded keypad_type_list.simps] l
    by (simp add: EVT_DOWN_def EVT_UP_def) blast
  then show ?thesis using l by blast
qed

end
