(* ===== verification/Menu_Tables.thy ===== *)
theory Menu_Tables
  imports Ui_Keypad
begin

text \<open>
  The menu tables of \<open>src/src/ui/menus/*.c\<close> for the board modelled here (the options of
  \<open>config_macros.h\<close>, no serial console, no brightness), item by item: type, data, label and
  reference. A reference is a callback, by its name, or the array of the submenu; in an item of
  type \<open>MT_NEXT\<close> it is the array the list goes on with, or nothing at its end.
\<close>

section \<open>Constants\<close>

definition TRC_LOGMAG :: nat where "TRC_LOGMAG = 0"
definition TRC_PHASE :: nat where "TRC_PHASE = 1"
definition TRC_DELAY :: nat where "TRC_DELAY = 2"
definition TRC_SMITH :: nat where "TRC_SMITH = 3"
definition TRC_POLAR :: nat where "TRC_POLAR = 4"
definition TRC_LINEAR :: nat where "TRC_LINEAR = 5"
definition TRC_SWR :: nat where "TRC_SWR = 6"
definition TRC_REAL :: nat where "TRC_REAL = 7"
definition TRC_IMAG :: nat where "TRC_IMAG = 8"
definition TRC_R :: nat where "TRC_R = 9"
definition TRC_X :: nat where "TRC_X = 10"
definition TRC_Z :: nat where "TRC_Z = 11"
definition TRC_ZPHASE :: nat where "TRC_ZPHASE = 12"
definition TRC_G :: nat where "TRC_G = 13"
definition TRC_B :: nat where "TRC_B = 14"
definition TRC_Y :: nat where "TRC_Y = 15"
definition TRC_Rp :: nat where "TRC_Rp = 16"
definition TRC_Xp :: nat where "TRC_Xp = 17"
definition TRC_Cs :: nat where "TRC_Cs = 18"
definition TRC_Ls :: nat where "TRC_Ls = 19"
definition TRC_Cp :: nat where "TRC_Cp = 20"
definition TRC_Lp :: nat where "TRC_Lp = 21"
definition TRC_Q :: nat where "TRC_Q = 22"
definition TRC_Rser :: nat where "TRC_Rser = 23"
definition TRC_Xser :: nat where "TRC_Xser = 24"
definition TRC_Zser :: nat where "TRC_Zser = 25"
definition TRC_Rsh :: nat where "TRC_Rsh = 26"
definition TRC_Xsh :: nat where "TRC_Xsh = 27"
definition TRC_Zsh :: nat where "TRC_Zsh = 28"
definition TRC_Qs21 :: nat where "TRC_Qs21 = 29"

definition MS_LIN :: nat where "MS_LIN = 0"
definition MS_LOG :: nat where "MS_LOG = 1"
definition MS_REIM :: nat where "MS_REIM = 2"
definition MS_RX :: nat where "MS_RX = 3"
definition MS_RLC :: nat where "MS_RLC = 4"
definition MS_GB :: nat where "MS_GB = 5"
definition MS_GLC :: nat where "MS_GLC = 6"
definition MS_RpXp :: nat where "MS_RpXp = 7"
definition MS_RpLC :: nat where "MS_RpLC = 8"
definition MS_SHUNT_RX :: nat where "MS_SHUNT_RX = 9"
definition MS_SHUNT_RLC :: nat where "MS_SHUNT_RLC = 10"
definition MS_SERIES_RX :: nat where "MS_SERIES_RX = 11"
definition MS_SERIES_RLC :: nat where "MS_SERIES_RLC = 12"

definition VNA_MODE_AUTO_NAME :: nat where "VNA_MODE_AUTO_NAME = 0"
definition VNA_MODE_SMOOTH :: nat where "VNA_MODE_SMOOTH = 1"
definition VNA_MODE_SEARCH :: nat where "VNA_MODE_SEARCH = 2"
definition VNA_MODE_SHOW_GRID :: nat where "VNA_MODE_SHOW_GRID = 3"
definition VNA_MODE_DOT_GRID :: nat where "VNA_MODE_DOT_GRID = 4"
definition MENU_VNA_MODE_BACKUP :: nat where "MENU_VNA_MODE_BACKUP = 5"
definition VNA_MODE_SEPARATOR :: nat where "VNA_MODE_SEPARATOR = 6"
definition VNA_MODE_TIFF :: nat where "VNA_MODE_TIFF = 7"
definition VNA_MODE_USB_UID :: nat where "VNA_MODE_USB_UID = 8"

definition MEASURE_NONE :: nat where "MEASURE_NONE = 0"
definition MEASURE_LC_MATH :: nat where "MEASURE_LC_MATH = 1"
definition MEASURE_SHUNT_LC :: nat where "MEASURE_SHUNT_LC = 2"
definition MEASURE_SERIES_LC :: nat where "MEASURE_SERIES_LC = 3"
definition MEASURE_SERIES_XTAL :: nat where "MEASURE_SERIES_XTAL = 4"
definition MEASURE_FILTER :: nat where "MEASURE_FILTER = 5"
definition MEASURE_S11_CABLE :: nat where "MEASURE_S11_CABLE = 6"
definition MEASURE_S11_RESONANCE :: nat where "MEASURE_S11_RESONANCE = 7"

definition MENU_CONFIG_TOUCH_CAL :: nat where "MENU_CONFIG_TOUCH_CAL = 0"
definition MENU_CONFIG_TOUCH_TEST :: nat where "MENU_CONFIG_TOUCH_TEST = 1"
definition MENU_CONFIG_VERSION :: nat where "MENU_CONFIG_VERSION = 2"
definition MENU_CONFIG_SAVE :: nat where "MENU_CONFIG_SAVE = 3"
definition MENU_CONFIG_RESET :: nat where "MENU_CONFIG_RESET = 4"

definition FMT_S1P_FILE :: nat where "FMT_S1P_FILE = 0"
definition FMT_S2P_FILE :: nat where "FMT_S2P_FILE = 1"
definition FMT_BMP_FILE :: nat where "FMT_BMP_FILE = 2"
definition FMT_TIF_FILE :: nat where "FMT_TIF_FILE = 3"
definition FMT_CAL_FILE :: nat where "FMT_CAL_FILE = 4"
definition FMT_BIN_FILE :: nat where "FMT_BIN_FILE = 5"
definition FMT_CMD_FILE :: nat where "FMT_CMD_FILE = 6"

definition MENU_CAL_LOAD :: nat where "MENU_CAL_LOAD = 0"
definition MENU_CAL_OPEN :: nat where "MENU_CAL_OPEN = 1"
definition MENU_CAL_SHORT :: nat where "MENU_CAL_SHORT = 2"
definition MENU_CAL_THRU :: nat where "MENU_CAL_THRU = 3"
definition MENU_CAL_ISOLN :: nat where "MENU_CAL_ISOLN = 4"

definition MK_SEARCH_LEFT :: nat where "MK_SEARCH_LEFT = 255"
definition MK_SEARCH_RIGHT :: nat where "MK_SEARCH_RIGHT = 1"

definition TD_FUNC_BANDPASS :: nat where "TD_FUNC_BANDPASS = 0"
definition TD_FUNC_LOWPASS_IMPULSE :: nat where "TD_FUNC_LOWPASS_IMPULSE = 2"
definition TD_FUNC_LOWPASS_STEP :: nat where "TD_FUNC_LOWPASS_STEP = 4"

definition UI_MARKER_EDELAY :: nat where "UI_MARKER_EDELAY = 6"

definition F_S11 :: nat where "F_S11 = 0"
definition F_S21 :: nat where "F_S21 = 128"

definition MENU_BANDWIDTH_4000 :: nat where "MENU_BANDWIDTH_4000 = 0"
definition MENU_BANDWIDTH_2000 :: nat where "MENU_BANDWIDTH_2000 = 1"
definition MENU_BANDWIDTH_1000 :: nat where "MENU_BANDWIDTH_1000 = 3"
definition MENU_BANDWIDTH_333 :: nat where "MENU_BANDWIDTH_333 = 11"
definition MENU_BANDWIDTH_100 :: nat where "MENU_BANDWIDTH_100 = 39"
definition MENU_BANDWIDTH_30 :: nat where "MENU_BANDWIDTH_30 = 131"

text \<open>The number of an input mode and of a sweep limit in their enumerations.\<close>

fun km_data :: "keypad_mode \<Rightarrow> nat" where
  "km_data KM_START = 0"
| "km_data KM_STOP = 1"
| "km_data KM_CENTER = 2"
| "km_data KM_SPAN = 3"
| "km_data KM_CW = 4"
| "km_data KM_STEP = 5"
| "km_data KM_VAR = 6"
| "km_data KM_POINTS = 7"
| "km_data KM_TOP = 8"
| "km_data KM_nTOP = 9"
| "km_data KM_BOTTOM = 10"
| "km_data KM_nBOTTOM = 11"
| "km_data KM_SCALE = 12"
| "km_data KM_nSCALE = 13"
| "km_data KM_REFPOS = 14"
| "km_data KM_EDELAY = 15"
| "km_data KM_VAR_DELAY = 16"
| "km_data KM_S21OFFSET = 17"
| "km_data KM_VELOCITY_FACTOR = 18"
| "km_data KM_ACTUAL_CABLE_LEN = 19"
| "km_data KM_XTAL = 20"
| "km_data KM_THRESHOLD = 21"
| "km_data KM_VBAT = 22"
| "km_data KM_MEASURE_R = 23"
| "km_data KM_Z_PORT = 24"
| "km_data KM_CAL_LOAD_R = 25"
| "km_data KM_RTC_DATE = 26"
| "km_data KM_RTC_TIME = 27"
| "km_data KM_RTC_CAL = 28"
| "km_data KM_S1P_NAME = 29"
| "km_data KM_S2P_NAME = 30"
| "km_data KM_BMP_NAME = 31"
| "km_data KM_TIF_NAME = 32"
| "km_data KM_CAL_NAME = 33"
| "km_data KM_BIN_NAME = 34"

fun st_data :: "stimulus_type \<Rightarrow> nat" where
  "st_data ST_START = 0"
| "st_data ST_STOP = 1"
| "st_data ST_CENTER = 2"
| "st_data ST_CW = 3"
| "st_data ST_SPAN = 4"
| "st_data ST_STEP = 5"
| "st_data ST_VAR = 6"

section \<open>Labels\<close>

definition NL :: string where "NL = [CHR 0x0A]"
definition T_R_LINK_COLOR :: string where "T_R_LINK_COLOR = [CHR 0x02, CHR 0x19]"
definition T_S_Hz :: string where "T_S_Hz = ''Hz''"
definition T_S_LARROW :: string where "T_S_LARROW = [CHR 0x1A]"
definition T_S_OHM :: string where "T_S_OHM = [CHR 0x1E]"
definition T_S_PPM :: string where "T_S_PPM = ''ppm''"
definition T_S_RARROW :: string where "T_S_RARROW = [CHR 0x1B]"
definition T_S_VOLT :: string where "T_S_VOLT = ''V''"
definition T_S_dB :: string where "T_S_dB = ''dB''"
definition T_S_AMPER :: string where "T_S_AMPER = ''A''"

section \<open>Items\<close>

datatype menu_type = MT_NEXT | MT_SUBMENU | MT_CALLBACK | MT_ADV_CALLBACK

datatype menu_callback =
    menu_back_cb | menu_pause_acb | menu_save_submenu_cb | menu_recall_submenu_cb
  | menu_calop_acb | menu_caldone_cb | menu_cal_range_acb | menu_power_sel_acb
  | menu_cal_enh_acb | menu_cal_apply_acb | menu_cal_reset_cb | menu_keyboard_acb
  | menu_points_sel_acb | menu_auto_scale_cb | menu_scale_keyboard_acb | menu_trace_acb
  | menu_stored_trace_acb | menu_vna_mode_acb | menu_format_acb | menu_traces_acb
  | menu_channel_acb | menu_transform_acb | menu_transform_filter_acb | menu_transform_window_acb
  | menu_measure_acb | menu_smooth_sel_acb | menu_measure_cb | menu_bandwidth_sel_acb
  | menu_marker_tracking_acb | menu_marker_search_dir_cb | menu_marker_op_cb | menu_marker_select_cb
  | menu_marker_delta_acb | menu_sdcard_browse_cb | menu_sdcard_cb | menu_sdcard_format_cb
  | menu_dfu_cb | menu_config_cb | menu_offset_acb | menu_band_sel_acb
  | menu_rtc_out_acb | menu_offset_sel_acb | menu_power_acb | menu_recall_acb
  | menu_save_acb | menu_points_acb | menu_marker_smith_acb | menu_bandwidth_acb
  | menu_smooth_acb | menu_marker_sel_acb | menu_marker_disable_all_cb

text \<open>The arrays, and the buffer the menus built at run time share.\<close>

datatype menu_array =
    A_dynamic
  | A_back | A_top | A_state_io | A_cal_wizard | A_cal_options | A_cal_management
  | A_cal_menu | A_stimulus | A_scale | A_trace | A_format4 | A_formatS21
  | A_format3 | A_format2 | A_formatS11 | A_display | A_transform | A_measure_lc
  | A_measure_cable | A_measure_resonance | A_measure_s21 | A_measure_filter | A_measure | A_measure_tools
  | A_search | A_operations | A_marker | A_sdcard_browse | A_sdcard | A_dfu
  | A_clear | A_offset | A_device1 | A_rtc | A_device | A_system

datatype menu_reference = No_Reference | Submenu menu_array | Callback menu_callback

record menuitem =
  mi_type :: menu_type
  mi_data :: nat
  mi_label :: "string option"
  mi_reference :: menu_reference

abbreviation item :: "menu_type \<Rightarrow> nat \<Rightarrow> string option \<Rightarrow> menu_reference \<Rightarrow> menuitem" where
  "item t d l r \<equiv> \<lparr>mi_type = t, mi_data = d, mi_label = l, mi_reference = r\<rparr>"

section \<open>Tables\<close>

definition menu_back :: "menuitem list" where
  "menu_back =
    [item MT_CALLBACK 0 (Some (T_S_LARROW @ '' BACK'')) (Callback menu_back_cb),
     item MT_NEXT 0 None No_Reference]"

definition menu_top :: "menuitem list" where
  "menu_top =
    [item MT_SUBMENU 0 (Some (''CAL'')) (Submenu A_cal_menu),
     item MT_SUBMENU 0 (Some (''STIMULUS'')) (Submenu A_stimulus),
     item MT_SUBMENU 0 (Some (''DISPLAY'')) (Submenu A_display),
     item MT_SUBMENU 0 (Some (''MEASURE'')) (Submenu A_measure_tools),
     item MT_SUBMENU 0 (Some (''SD CARD'')) (Submenu A_sdcard),
     item MT_SUBMENU 0 (Some (''SYSTEM'')) (Submenu A_system),
     item MT_ADV_CALLBACK 0 (Some (''%s'' @ NL @ ''SWEEP'')) (Callback menu_pause_acb),
     item MT_NEXT 0 None No_Reference]"

definition menu_state_io :: "menuitem list" where
  "menu_state_io =
    [item MT_CALLBACK 0 (Some (''SAVE CAL'')) (Callback menu_save_submenu_cb),
     item MT_CALLBACK 0 (Some (''RECALL CAL'')) (Callback menu_recall_submenu_cb),
     item MT_NEXT 0 None (Submenu A_back)]"

definition menu_cal_wizard :: "menuitem list" where
  "menu_cal_wizard =
    [item MT_ADV_CALLBACK MENU_CAL_OPEN (Some (''OPEN'')) (Callback menu_calop_acb),
     item MT_ADV_CALLBACK MENU_CAL_SHORT (Some (''SHORT'')) (Callback menu_calop_acb),
     item MT_ADV_CALLBACK MENU_CAL_LOAD (Some (''LOAD'')) (Callback menu_calop_acb),
     item MT_ADV_CALLBACK MENU_CAL_ISOLN (Some (''ISOLN'')) (Callback menu_calop_acb),
     item MT_ADV_CALLBACK MENU_CAL_THRU (Some (''THRU'')) (Callback menu_calop_acb),
     item MT_CALLBACK 0 (Some (''DONE'')) (Callback menu_caldone_cb),
     item MT_CALLBACK 1 (Some (''DONE IN RAM'')) (Callback menu_caldone_cb),
     item MT_NEXT 0 None (Submenu A_back)]"

definition menu_cal_options :: "menuitem list" where
  "menu_cal_options =
    [item MT_ADV_CALLBACK 0 (Some (''CAL RANGE'')) (Callback menu_cal_range_acb),
     item MT_ADV_CALLBACK 0 (Some (''CAL POWER'')) (Callback menu_power_sel_acb),
     item MT_ADV_CALLBACK 0 (Some (''ENHANCED'' @ NL @ ''RESPONSE'')) (Callback menu_cal_enh_acb),
     item MT_ADV_CALLBACK (km_data KM_CAL_LOAD_R) (Some (''LOAD STD'' @ NL @ '' '' @ T_R_LINK_COLOR @ ''%bF'' @ T_S_OHM)) (Callback menu_keyboard_acb),
     item MT_NEXT 0 None (Submenu A_back)]"

definition menu_cal_management :: "menuitem list" where
  "menu_cal_management =
    [item MT_ADV_CALLBACK 0 (Some (''CAL APPLY'')) (Callback menu_cal_apply_acb),
     item MT_CALLBACK 0 (Some (''CAL RESET'')) (Callback menu_cal_reset_cb),
     item MT_NEXT 0 None (Submenu A_back)]"

definition menu_cal_menu :: "menuitem list" where
  "menu_cal_menu =
    [item MT_SUBMENU 0 (Some (''CAL WIZARD'')) (Submenu A_cal_wizard),
     item MT_SUBMENU 0 (Some (''CAL OPTIONS'')) (Submenu A_cal_options),
     item MT_SUBMENU 0 (Some (''CAL MANAGE'')) (Submenu A_cal_management),
     item MT_CALLBACK 0 (Some (''SAVE CAL'')) (Callback menu_save_submenu_cb),
     item MT_CALLBACK 0 (Some (''RECALL CAL'')) (Callback menu_recall_submenu_cb),
     item MT_NEXT 0 None (Submenu A_back)]"

definition menu_stimulus :: "menuitem list" where
  "menu_stimulus =
    [item MT_ADV_CALLBACK (km_data KM_START) (Some (''START'')) (Callback menu_keyboard_acb),
     item MT_ADV_CALLBACK (km_data KM_STOP) (Some (''STOP'')) (Callback menu_keyboard_acb),
     item MT_ADV_CALLBACK (km_data KM_CENTER) (Some (''CENTER'')) (Callback menu_keyboard_acb),
     item MT_ADV_CALLBACK (km_data KM_SPAN) (Some (''SPAN'')) (Callback menu_keyboard_acb),
     item MT_ADV_CALLBACK (km_data KM_CW) (Some (''CW FREQ'')) (Callback menu_keyboard_acb),
     item MT_ADV_CALLBACK (km_data KM_STEP) (Some (''FREQ STEP'' @ NL @ '' '' @ T_R_LINK_COLOR @ ''%bF'' @ T_S_Hz)) (Callback menu_keyboard_acb),
     item MT_ADV_CALLBACK (km_data KM_VAR) (Some (''JOG STEP'' @ NL @ '' '' @ T_R_LINK_COLOR @ ''AUTO'')) (Callback menu_keyboard_acb),
     item MT_ADV_CALLBACK 0 (Some (''MORE PTS'' @ NL @ '' '' @ T_R_LINK_COLOR @ ''%u'')) (Callback menu_points_sel_acb),
     item MT_NEXT 0 None (Submenu A_back)]"

definition menu_scale :: "menuitem list" where
  "menu_scale =
    [item MT_CALLBACK 0 (Some (''AUTO SCALE'')) (Callback menu_auto_scale_cb),
     item MT_ADV_CALLBACK (km_data KM_TOP) (Some (''TOP'')) (Callback menu_scale_keyboard_acb),
     item MT_ADV_CALLBACK (km_data KM_BOTTOM) (Some (''BOTTOM'')) (Callback menu_scale_keyboard_acb),
     item MT_ADV_CALLBACK (km_data KM_SCALE) (Some (''SCALE/DIV'')) (Callback menu_scale_keyboard_acb),
     item MT_ADV_CALLBACK (km_data KM_REFPOS) (Some (''REFERENCE'' @ NL @ ''POSITION'')) (Callback menu_scale_keyboard_acb),
     item MT_ADV_CALLBACK (km_data KM_EDELAY) (Some (''E-DELAY'')) (Callback menu_keyboard_acb),
     item MT_ADV_CALLBACK (km_data KM_S21OFFSET) (Some (''S21 OFFSET'' @ NL @ '' '' @ T_R_LINK_COLOR @ ''%b.3F'' @ T_S_dB)) (Callback menu_keyboard_acb),
     item MT_NEXT 0 None (Submenu A_back)]"

definition menu_trace :: "menuitem list" where
  "menu_trace =
    [item MT_ADV_CALLBACK 0 (Some (''TRACE 0'')) (Callback menu_trace_acb),
     item MT_ADV_CALLBACK 1 (Some (''TRACE 1'')) (Callback menu_trace_acb),
     item MT_ADV_CALLBACK 2 (Some (''TRACE 2'')) (Callback menu_trace_acb),
     item MT_ADV_CALLBACK 3 (Some (''TRACE 3'')) (Callback menu_trace_acb),
     item MT_ADV_CALLBACK 0 (Some (''%s TRACE'')) (Callback menu_stored_trace_acb),
     item MT_ADV_CALLBACK VNA_MODE_SHOW_GRID (Some (''SHOW GRID'' @ NL @ ''VALUES'')) (Callback menu_vna_mode_acb),
     item MT_ADV_CALLBACK VNA_MODE_DOT_GRID (Some (''DOT GRID'')) (Callback menu_vna_mode_acb),
     item MT_NEXT 0 None (Submenu A_back)]"

definition menu_format4 :: "menuitem list" where
  "menu_format4 =
    [item MT_ADV_CALLBACK (F_S21 OR TRC_Rser) (Some (''SERIES R'')) (Callback menu_format_acb),
     item MT_ADV_CALLBACK (F_S21 OR TRC_Xser) (Some (''SERIES X'')) (Callback menu_format_acb),
     item MT_ADV_CALLBACK (F_S21 OR TRC_Zser) (Some (''SERIES |Z|'')) (Callback menu_format_acb),
     item MT_ADV_CALLBACK (F_S21 OR TRC_Rsh) (Some (''SHUNT R'')) (Callback menu_format_acb),
     item MT_ADV_CALLBACK (F_S21 OR TRC_Xsh) (Some (''SHUNT X'')) (Callback menu_format_acb),
     item MT_ADV_CALLBACK (F_S21 OR TRC_Zsh) (Some (''SHUNT |Z|'')) (Callback menu_format_acb),
     item MT_ADV_CALLBACK (F_S21 OR TRC_Qs21) (Some (''Q FACTOR'')) (Callback menu_format_acb),
     item MT_NEXT 0 None (Submenu A_back)]"

definition menu_formatS21 :: "menuitem list" where
  "menu_formatS21 =
    [item MT_ADV_CALLBACK (F_S21 OR TRC_LOGMAG) (Some (''LOGMAG'')) (Callback menu_format_acb),
     item MT_ADV_CALLBACK (F_S21 OR TRC_PHASE) (Some (''PHASE'')) (Callback menu_format_acb),
     item MT_ADV_CALLBACK (F_S21 OR TRC_DELAY) (Some (''DELAY'')) (Callback menu_format_acb),
     item MT_ADV_CALLBACK (F_S21 OR TRC_SMITH) (Some (''SMITH'')) (Callback menu_format_acb),
     item MT_ADV_CALLBACK (F_S21 OR TRC_POLAR) (Some (''POLAR'')) (Callback menu_format_acb),
     item MT_ADV_CALLBACK (F_S21 OR TRC_LINEAR) (Some (''LINEAR'')) (Callback menu_format_acb),
     item MT_ADV_CALLBACK (F_S21 OR TRC_REAL) (Some (''REAL'')) (Callback menu_format_acb),
     item MT_ADV_CALLBACK (F_S21 OR TRC_IMAG) (Some (''IMAG'')) (Callback menu_format_acb),
     item MT_SUBMENU 0 (Some (T_S_RARROW @ '' MORE'')) (Submenu A_format4),
     item MT_NEXT 0 None (Submenu A_back)]"

definition menu_format3 :: "menuitem list" where
  "menu_format3 =
    [item MT_ADV_CALLBACK (F_S11 OR TRC_ZPHASE) (Some (''Z PHASE'')) (Callback menu_format_acb),
     item MT_ADV_CALLBACK (F_S11 OR TRC_Cs) (Some (''SERIES C'')) (Callback menu_format_acb),
     item MT_ADV_CALLBACK (F_S11 OR TRC_Ls) (Some (''SERIES L'')) (Callback menu_format_acb),
     item MT_ADV_CALLBACK (F_S11 OR TRC_Rp) (Some (''PARALLEL R'')) (Callback menu_format_acb),
     item MT_ADV_CALLBACK (F_S11 OR TRC_Xp) (Some (''PARALLEL X'')) (Callback menu_format_acb),
     item MT_ADV_CALLBACK (F_S11 OR TRC_Cp) (Some (''PARALLEL C'')) (Callback menu_format_acb),
     item MT_ADV_CALLBACK (F_S11 OR TRC_Lp) (Some (''PARALLEL L'')) (Callback menu_format_acb),
     item MT_NEXT 0 None (Submenu A_back)]"

definition menu_format2 :: "menuitem list" where
  "menu_format2 =
    [item MT_ADV_CALLBACK (F_S11 OR TRC_POLAR) (Some (''POLAR'')) (Callback menu_format_acb),
     item MT_ADV_CALLBACK (F_S11 OR TRC_LINEAR) (Some (''LINEAR'')) (Callback menu_format_acb),
     item MT_ADV_CALLBACK (F_S11 OR TRC_REAL) (Some (''REAL'')) (Callback menu_format_acb),
     item MT_ADV_CALLBACK (F_S11 OR TRC_IMAG) (Some (''IMAG'')) (Callback menu_format_acb),
     item MT_ADV_CALLBACK (F_S11 OR TRC_Q) (Some (''Q FACTOR'')) (Callback menu_format_acb),
     item MT_ADV_CALLBACK (F_S11 OR TRC_G) (Some (''CONDUCTANCE'')) (Callback menu_format_acb),
     item MT_ADV_CALLBACK (F_S11 OR TRC_B) (Some (''SUSCEPTANCE'')) (Callback menu_format_acb),
     item MT_ADV_CALLBACK (F_S11 OR TRC_Y) (Some (''|Y|'')) (Callback menu_format_acb),
     item MT_SUBMENU 0 (Some (T_S_RARROW @ '' MORE'')) (Submenu A_format3),
     item MT_NEXT 0 None (Submenu A_back)]"

definition menu_formatS11 :: "menuitem list" where
  "menu_formatS11 =
    [item MT_ADV_CALLBACK (F_S11 OR TRC_LOGMAG) (Some (''LOGMAG'')) (Callback menu_format_acb),
     item MT_ADV_CALLBACK (F_S11 OR TRC_PHASE) (Some (''PHASE'')) (Callback menu_format_acb),
     item MT_ADV_CALLBACK (F_S11 OR TRC_DELAY) (Some (''DELAY'')) (Callback menu_format_acb),
     item MT_ADV_CALLBACK (F_S11 OR TRC_SMITH) (Some (''SMITH'')) (Callback menu_format_acb),
     item MT_ADV_CALLBACK (F_S11 OR TRC_SWR) (Some (''SWR'')) (Callback menu_format_acb),
     item MT_ADV_CALLBACK (F_S11 OR TRC_R) (Some (''RESISTANCE'')) (Callback menu_format_acb),
     item MT_ADV_CALLBACK (F_S11 OR TRC_X) (Some (''REACTANCE'')) (Callback menu_format_acb),
     item MT_ADV_CALLBACK (F_S11 OR TRC_Z) (Some (''|Z|'')) (Callback menu_format_acb),
     item MT_SUBMENU 0 (Some (T_S_RARROW @ '' MORE'')) (Submenu A_format2),
     item MT_NEXT 0 None (Submenu A_back)]"

definition menu_display :: "menuitem list" where
  "menu_display =
    [item MT_ADV_CALLBACK 0 (Some (''TRACES'')) (Callback menu_traces_acb),
     item MT_SUBMENU 0 (Some (''FORMAT'' @ NL @ ''S11'')) (Submenu A_formatS11),
     item MT_SUBMENU 0 (Some (''FORMAT'' @ NL @ ''S21'')) (Submenu A_formatS21),
     item MT_ADV_CALLBACK 0 (Some (''CHANNEL'' @ NL @ '' '' @ T_R_LINK_COLOR @ ''%s'')) (Callback menu_channel_acb),
     item MT_SUBMENU 0 (Some (''SCALE'')) (Submenu A_scale),
     item MT_SUBMENU 0 (Some (''MARKERS'')) (Submenu A_marker),
     item MT_NEXT 0 None (Submenu A_back)]"

definition menu_transform :: "menuitem list" where
  "menu_transform =
    [item MT_ADV_CALLBACK 0 (Some (''TRANSFORM'' @ NL @ ''%s'')) (Callback menu_transform_acb),
     item MT_ADV_CALLBACK TD_FUNC_LOWPASS_IMPULSE (Some (''LOW PASS'' @ NL @ ''IMPULSE'')) (Callback menu_transform_filter_acb),
     item MT_ADV_CALLBACK TD_FUNC_LOWPASS_STEP (Some (''LOW PASS'' @ NL @ ''STEP'')) (Callback menu_transform_filter_acb),
     item MT_ADV_CALLBACK TD_FUNC_BANDPASS (Some (''BANDPASS'')) (Callback menu_transform_filter_acb),
     item MT_ADV_CALLBACK 0 (Some (''WINDOW'' @ NL @ '' '' @ T_R_LINK_COLOR @ ''%s'')) (Callback menu_transform_window_acb),
     item MT_ADV_CALLBACK (km_data KM_VELOCITY_FACTOR) (Some (''VELOCITY F.'' @ NL @ '' '' @ T_R_LINK_COLOR @ ''%d%%%%'')) (Callback menu_keyboard_acb),
     item MT_NEXT 0 None (Submenu A_back)]"

definition menu_measure_lc :: "menuitem list" where
  "menu_measure_lc =
    [item MT_ADV_CALLBACK MEASURE_NONE (Some (''OFF'')) (Callback menu_measure_acb),
     item MT_ADV_CALLBACK MEASURE_LC_MATH (Some (''L/C MATCH'')) (Callback menu_measure_acb),
     item MT_NEXT 0 None (Submenu A_back)]"

definition menu_measure_cable :: "menuitem list" where
  "menu_measure_cable =
    [item MT_ADV_CALLBACK MEASURE_NONE (Some (''OFF'')) (Callback menu_measure_acb),
     item MT_ADV_CALLBACK MEASURE_S11_CABLE (Some (''CABLE'' @ NL @ '' (S11)'')) (Callback menu_measure_acb),
     item MT_ADV_CALLBACK (km_data KM_VELOCITY_FACTOR) (Some (''VELOCITY F.'' @ NL @ '' '' @ T_R_LINK_COLOR @ ''%d%%%%'')) (Callback menu_keyboard_acb),
     item MT_ADV_CALLBACK (km_data KM_ACTUAL_CABLE_LEN) (Some (''CABLE LENGTH'')) (Callback menu_keyboard_acb),
     item MT_NEXT 0 None (Submenu A_back)]"

definition menu_measure_resonance :: "menuitem list" where
  "menu_measure_resonance =
    [item MT_ADV_CALLBACK MEASURE_NONE (Some (''OFF'')) (Callback menu_measure_acb),
     item MT_ADV_CALLBACK MEASURE_S11_RESONANCE (Some (''RESONANCE'' @ NL @ '' (S11)'')) (Callback menu_measure_acb),
     item MT_NEXT 0 None (Submenu A_back)]"

definition menu_measure_s21 :: "menuitem list" where
  "menu_measure_s21 =
    [item MT_ADV_CALLBACK MEASURE_NONE (Some (''OFF'')) (Callback menu_measure_acb),
     item MT_ADV_CALLBACK MEASURE_SHUNT_LC (Some (''SHUNT LC'' @ NL @ '' (S21)'')) (Callback menu_measure_acb),
     item MT_ADV_CALLBACK MEASURE_SERIES_LC (Some (''SERIES LC'' @ NL @ '' (S21)'')) (Callback menu_measure_acb),
     item MT_ADV_CALLBACK MEASURE_SERIES_XTAL (Some (''SERIES'' @ NL @ ''XTAL (S21)'')) (Callback menu_measure_acb),
     item MT_ADV_CALLBACK (km_data KM_MEASURE_R) (Some ('' Rl = '' @ T_R_LINK_COLOR @ ''%b.4F'' @ T_S_OHM)) (Callback menu_keyboard_acb),
     item MT_NEXT 0 None (Submenu A_back)]"

definition menu_measure_filter :: "menuitem list" where
  "menu_measure_filter =
    [item MT_ADV_CALLBACK MEASURE_NONE (Some (''OFF'')) (Callback menu_measure_acb),
     item MT_ADV_CALLBACK MEASURE_FILTER (Some (''FILTER'' @ NL @ '' (S21)'')) (Callback menu_measure_acb),
     item MT_NEXT 0 None (Submenu A_back)]"

definition menu_measure :: "menuitem list" where
  "menu_measure =
    [item MT_ADV_CALLBACK MEASURE_NONE (Some (''OFF'')) (Callback menu_measure_acb),
     item MT_ADV_CALLBACK MEASURE_LC_MATH (Some (''L/C MATCH'')) (Callback menu_measure_acb),
     item MT_ADV_CALLBACK MEASURE_S11_CABLE (Some (''CABLE'' @ NL @ '' (S11)'')) (Callback menu_measure_acb),
     item MT_ADV_CALLBACK MEASURE_S11_RESONANCE (Some (''RESONANCE'' @ NL @ '' (S11)'')) (Callback menu_measure_acb),
     item MT_ADV_CALLBACK MEASURE_SHUNT_LC (Some (''SHUNT LC'' @ NL @ '' (S21)'')) (Callback menu_measure_acb),
     item MT_ADV_CALLBACK MEASURE_SERIES_LC (Some (''SERIES LC'' @ NL @ '' (S21)'')) (Callback menu_measure_acb),
     item MT_ADV_CALLBACK MEASURE_SERIES_XTAL (Some (''SERIES'' @ NL @ ''XTAL (S21)'')) (Callback menu_measure_acb),
     item MT_ADV_CALLBACK MEASURE_FILTER (Some (''FILTER'' @ NL @ '' (S21)'')) (Callback menu_measure_acb),
     item MT_NEXT 0 None (Submenu A_back)]"

definition menu_measure_tools :: "menuitem list" where
  "menu_measure_tools =
    [item MT_SUBMENU 0 (Some (''TRANSFORM'')) (Submenu A_transform),
     item MT_ADV_CALLBACK 0 (Some (''DATA'' @ NL @ ''SMOOTH'')) (Callback menu_smooth_sel_acb),
     item MT_CALLBACK 0 (Some (''MEASURE'')) (Callback menu_measure_cb),
     item MT_ADV_CALLBACK 0 (Some (''IF BANDWIDTH'' @ NL @ '' '' @ T_R_LINK_COLOR @ ''%u'' @ T_S_Hz)) (Callback menu_bandwidth_sel_acb),
     item MT_ADV_CALLBACK (km_data KM_Z_PORT) (Some (''PORT-Z'' @ NL @ '' '' @ T_R_LINK_COLOR @ ''50 '' @ T_S_RARROW @ '' %bF'' @ T_S_OHM)) (Callback menu_keyboard_acb),
     item MT_NEXT 0 None (Submenu A_back)]"

definition menu_search :: "menuitem list" where
  "menu_search =
    [item MT_ADV_CALLBACK VNA_MODE_SEARCH (Some (''SEARCH'' @ NL @ '' '' @ T_R_LINK_COLOR @ ''%s'')) (Callback menu_vna_mode_acb),
     item MT_ADV_CALLBACK 0 (Some (''TRACKING'')) (Callback menu_marker_tracking_acb),
     item MT_CALLBACK MK_SEARCH_LEFT (Some (''SEARCH'' @ NL @ '' '' @ T_S_LARROW @ ''LEFT'')) (Callback menu_marker_search_dir_cb),
     item MT_CALLBACK MK_SEARCH_RIGHT (Some (''SEARCH'' @ NL @ '' '' @ T_S_RARROW @ ''RIGHT'')) (Callback menu_marker_search_dir_cb),
     item MT_NEXT 0 None (Submenu A_back)]"

definition menu_operations :: "menuitem list" where
  "menu_operations =
    [item MT_CALLBACK (st_data ST_START) (Some (''MOVE'' @ NL @ ''START'')) (Callback menu_marker_op_cb),
     item MT_CALLBACK (st_data ST_STOP) (Some (''MOVE'' @ NL @ ''STOP'')) (Callback menu_marker_op_cb),
     item MT_CALLBACK (st_data ST_CENTER) (Some (''MOVE'' @ NL @ ''CENTER'')) (Callback menu_marker_op_cb),
     item MT_CALLBACK (st_data ST_SPAN) (Some (''MOVE'' @ NL @ ''SPAN'')) (Callback menu_marker_op_cb),
     item MT_CALLBACK UI_MARKER_EDELAY (Some (''MARKER'' @ NL @ ''E-DELAY'')) (Callback menu_marker_op_cb),
     item MT_NEXT 0 None (Submenu A_back)]"

definition menu_marker :: "menuitem list" where
  "menu_marker =
    [item MT_CALLBACK 0 (Some (''SELECT'' @ NL @ ''MARKER'')) (Callback menu_marker_select_cb),
     item MT_SUBMENU 0 (Some (''SEARCH'')) (Submenu A_search),
     item MT_SUBMENU 0 (Some (''OPERATIONS'')) (Submenu A_operations),
     item MT_ADV_CALLBACK 0 (Some (''DELTA'')) (Callback menu_marker_delta_acb),
     item MT_NEXT 0 None (Submenu A_back)]"

definition menu_sdcard_browse :: "menuitem list" where
  "menu_sdcard_browse =
    [item MT_CALLBACK FMT_BMP_FILE (Some (''LOAD'' @ NL @ ''SCREENSHOT'')) (Callback menu_sdcard_browse_cb),
     item MT_CALLBACK FMT_S1P_FILE (Some (''LOAD S1P'')) (Callback menu_sdcard_browse_cb),
     item MT_CALLBACK FMT_S2P_FILE (Some (''LOAD S2P'')) (Callback menu_sdcard_browse_cb),
     item MT_CALLBACK FMT_CAL_FILE (Some (''LOAD CAL'')) (Callback menu_sdcard_browse_cb),
     item MT_NEXT 0 None (Submenu A_back)]"

definition menu_sdcard :: "menuitem list" where
  "menu_sdcard =
    [item MT_SUBMENU 0 (Some (''LOAD'')) (Submenu A_sdcard_browse),
     item MT_CALLBACK FMT_S1P_FILE (Some (''SAVE S1P'')) (Callback menu_sdcard_cb),
     item MT_CALLBACK FMT_S2P_FILE (Some (''SAVE S2P'')) (Callback menu_sdcard_cb),
     item MT_CALLBACK FMT_BMP_FILE (Some (''SCREENSHOT'')) (Callback menu_sdcard_cb),
     item MT_CALLBACK FMT_CAL_FILE (Some (''SAVE'' @ NL @ ''CALIBRATION'')) (Callback menu_sdcard_cb),
     item MT_CALLBACK 0 (Some (''FORMAT SD'')) (Callback menu_sdcard_format_cb),
     item MT_ADV_CALLBACK VNA_MODE_AUTO_NAME (Some (''AUTO NAME'')) (Callback menu_vna_mode_acb),
     item MT_ADV_CALLBACK VNA_MODE_TIFF (Some (''IMAGE FORMAT'' @ NL @ '' '' @ T_R_LINK_COLOR @ ''%s'')) (Callback menu_vna_mode_acb),
     item MT_NEXT 0 None (Submenu A_back)]"

definition menu_dfu :: "menuitem list" where
  "menu_dfu =
    [item MT_CALLBACK 0 (Some (''RESET AND'' @ NL @ ''ENTER DFU'')) (Callback menu_dfu_cb),
     item MT_NEXT 0 None (Submenu A_back)]"

definition menu_clear :: "menuitem list" where
  "menu_clear =
    [item MT_CALLBACK MENU_CONFIG_RESET (Some (''CLEAR ALL'' @ NL @ ''AND RESET'')) (Callback menu_config_cb),
     item MT_NEXT 0 None (Submenu A_back)]"

definition menu_offset :: "menuitem list" where
  "menu_offset =
    [item MT_ADV_CALLBACK 0 (Some (''%d'' @ T_S_Hz)) (Callback menu_offset_acb),
     item MT_ADV_CALLBACK 1 (Some (''%d'' @ T_S_Hz)) (Callback menu_offset_acb),
     item MT_ADV_CALLBACK 2 (Some (''%d'' @ T_S_Hz)) (Callback menu_offset_acb),
     item MT_ADV_CALLBACK 3 (Some (''%d'' @ T_S_Hz)) (Callback menu_offset_acb),
     item MT_ADV_CALLBACK 4 (Some (''%d'' @ T_S_Hz)) (Callback menu_offset_acb),
     item MT_ADV_CALLBACK 5 (Some (''%d'' @ T_S_Hz)) (Callback menu_offset_acb),
     item MT_ADV_CALLBACK 6 (Some (''%d'' @ T_S_Hz)) (Callback menu_offset_acb),
     item MT_ADV_CALLBACK 7 (Some (''%d'' @ T_S_Hz)) (Callback menu_offset_acb),
     item MT_NEXT 0 None (Submenu A_back)]"

definition menu_device1 :: "menuitem list" where
  "menu_device1 =
    [item MT_ADV_CALLBACK 0 (Some (''MODE'' @ NL @ '' '' @ T_R_LINK_COLOR @ ''%s'')) (Callback menu_band_sel_acb),
     item MT_ADV_CALLBACK VNA_MODE_SEPARATOR (Some (''SEPARATOR'' @ NL @ '' '' @ T_R_LINK_COLOR @ ''%s'')) (Callback menu_vna_mode_acb),
     item MT_ADV_CALLBACK VNA_MODE_USB_UID (Some (''USB DEVICE'' @ NL @ ''UID'')) (Callback menu_vna_mode_acb),
     item MT_SUBMENU 0 (Some (''CLEAR CONFIG'')) (Submenu A_clear),
     item MT_NEXT 0 None (Submenu A_back)]"

definition menu_rtc :: "menuitem list" where
  "menu_rtc =
    [item MT_ADV_CALLBACK (km_data KM_RTC_DATE) (Some (''SET DATE'')) (Callback menu_keyboard_acb),
     item MT_ADV_CALLBACK (km_data KM_RTC_TIME) (Some (''SET TIME'')) (Callback menu_keyboard_acb),
     item MT_ADV_CALLBACK (km_data KM_RTC_CAL) (Some (''RTC CAL'' @ NL @ '' '' @ T_R_LINK_COLOR @ ''%+b.3f'' @ T_S_PPM)) (Callback menu_keyboard_acb),
     item MT_ADV_CALLBACK 0 (Some (''RTC 512'' @ T_S_Hz @ NL @ '' Led2 %s'')) (Callback menu_rtc_out_acb),
     item MT_NEXT 0 None (Submenu A_back)]"

definition menu_device :: "menuitem list" where
  "menu_device =
    [item MT_ADV_CALLBACK (km_data KM_THRESHOLD) (Some (''THRESHOLD'' @ NL @ '' '' @ T_R_LINK_COLOR @ ''%.6q'')) (Callback menu_keyboard_acb),
     item MT_ADV_CALLBACK (km_data KM_XTAL) (Some (''TCXO'' @ NL @ '' '' @ T_R_LINK_COLOR @ ''%.6q'')) (Callback menu_keyboard_acb),
     item MT_ADV_CALLBACK (km_data KM_VBAT) (Some (''VBAT OFFSET'' @ NL @ '' '' @ T_R_LINK_COLOR @ ''%um'' @ T_S_VOLT)) (Callback menu_keyboard_acb),
     item MT_ADV_CALLBACK 0 (Some (''IF OFFSET'' @ NL @ '' '' @ T_R_LINK_COLOR @ ''%d'' @ T_S_Hz)) (Callback menu_offset_sel_acb),
     item MT_ADV_CALLBACK MENU_VNA_MODE_BACKUP (Some (''REMEMBER'' @ NL @ ''STATE'')) (Callback menu_vna_mode_acb),
     item MT_SUBMENU 0 (Some (T_S_RARROW @ ''DFU'')) (Submenu A_dfu),
     item MT_SUBMENU 0 (Some (T_S_RARROW @ '' MORE'')) (Submenu A_device1),
     item MT_NEXT 0 None (Submenu A_back)]"

definition menu_system :: "menuitem list" where
  "menu_system =
    [item MT_CALLBACK MENU_CONFIG_TOUCH_CAL (Some (''TOUCH CAL'')) (Callback menu_config_cb),
     item MT_CALLBACK MENU_CONFIG_TOUCH_TEST (Some (''TOUCH TEST'')) (Callback menu_config_cb),
     item MT_CALLBACK MENU_CONFIG_SAVE (Some (''SAVE CONFIG'')) (Callback menu_config_cb),
     item MT_CALLBACK MENU_CONFIG_VERSION (Some (''VERSION'')) (Callback menu_config_cb),
     item MT_SUBMENU 0 (Some (''DATE/TIME'')) (Submenu A_rtc),
     item MT_SUBMENU 0 (Some (''DEVICE'')) (Submenu A_device),
     item MT_NEXT 0 None (Submenu A_back)]"

fun menu_table :: "menu_array \<Rightarrow> menuitem list" where
  "menu_table A_dynamic = []"
| "menu_table A_back = menu_back"
| "menu_table A_top = menu_top"
| "menu_table A_state_io = menu_state_io"
| "menu_table A_cal_wizard = menu_cal_wizard"
| "menu_table A_cal_options = menu_cal_options"
| "menu_table A_cal_management = menu_cal_management"
| "menu_table A_cal_menu = menu_cal_menu"
| "menu_table A_stimulus = menu_stimulus"
| "menu_table A_scale = menu_scale"
| "menu_table A_trace = menu_trace"
| "menu_table A_format4 = menu_format4"
| "menu_table A_formatS21 = menu_formatS21"
| "menu_table A_format3 = menu_format3"
| "menu_table A_format2 = menu_format2"
| "menu_table A_formatS11 = menu_formatS11"
| "menu_table A_display = menu_display"
| "menu_table A_transform = menu_transform"
| "menu_table A_measure_lc = menu_measure_lc"
| "menu_table A_measure_cable = menu_measure_cable"
| "menu_table A_measure_resonance = menu_measure_resonance"
| "menu_table A_measure_s21 = menu_measure_s21"
| "menu_table A_measure_filter = menu_measure_filter"
| "menu_table A_measure = menu_measure"
| "menu_table A_measure_tools = menu_measure_tools"
| "menu_table A_search = menu_search"
| "menu_table A_operations = menu_operations"
| "menu_table A_marker = menu_marker"
| "menu_table A_sdcard_browse = menu_sdcard_browse"
| "menu_table A_sdcard = menu_sdcard"
| "menu_table A_dfu = menu_dfu"
| "menu_table A_clear = menu_clear"
| "menu_table A_offset = menu_offset"
| "menu_table A_device1 = menu_device1"
| "menu_table A_rtc = menu_rtc"
| "menu_table A_device = menu_device"
| "menu_table A_system = menu_system"

section \<open>Descriptors of the menus built at run time\<close>

definition menu_state_slots_desc :: "(menu_type \<times> nat) list" where
  "menu_state_slots_desc = [(MT_ADV_CALLBACK, 0), (MT_ADV_CALLBACK, 1), (MT_ADV_CALLBACK, 2), (MT_ADV_CALLBACK, 3)]"

definition menu_power_desc :: "(menu_type \<times> nat) list" where
  "menu_power_desc = [(MT_ADV_CALLBACK, 0), (MT_ADV_CALLBACK, 1), (MT_ADV_CALLBACK, 2), (MT_ADV_CALLBACK, 3)]"

definition menu_points_desc :: "(menu_type \<times> nat) list" where
  "menu_points_desc = [(MT_ADV_CALLBACK, 0), (MT_ADV_CALLBACK, 1), (MT_ADV_CALLBACK, 2), (MT_ADV_CALLBACK, 3)]"

definition menu_marker_s21smith_desc :: "(menu_type \<times> nat) list" where
  "menu_marker_s21smith_desc = [(MT_ADV_CALLBACK, MS_LIN), (MT_ADV_CALLBACK, MS_LOG), (MT_ADV_CALLBACK, MS_REIM), (MT_ADV_CALLBACK, MS_SHUNT_RX), (MT_ADV_CALLBACK, MS_SHUNT_RLC), (MT_ADV_CALLBACK, MS_SERIES_RX), (MT_ADV_CALLBACK, MS_SERIES_RLC)]"

definition menu_marker_s11smith_desc :: "(menu_type \<times> nat) list" where
  "menu_marker_s11smith_desc = [(MT_ADV_CALLBACK, MS_LIN), (MT_ADV_CALLBACK, MS_LOG), (MT_ADV_CALLBACK, MS_REIM), (MT_ADV_CALLBACK, MS_RX), (MT_ADV_CALLBACK, MS_RLC), (MT_ADV_CALLBACK, MS_GB), (MT_ADV_CALLBACK, MS_GLC), (MT_ADV_CALLBACK, MS_RpXp), (MT_ADV_CALLBACK, MS_RpLC)]"

definition menu_bandwidth_desc :: "(menu_type \<times> nat) list" where
  "menu_bandwidth_desc = [(MT_ADV_CALLBACK, MENU_BANDWIDTH_4000), (MT_ADV_CALLBACK, MENU_BANDWIDTH_2000), (MT_ADV_CALLBACK, MENU_BANDWIDTH_1000), (MT_ADV_CALLBACK, MENU_BANDWIDTH_333), (MT_ADV_CALLBACK, MENU_BANDWIDTH_100), (MT_ADV_CALLBACK, MENU_BANDWIDTH_30)]"

definition menu_smooth_desc :: "(menu_type \<times> nat) list" where
  "menu_smooth_desc = [(MT_ADV_CALLBACK, 1), (MT_ADV_CALLBACK, 2), (MT_ADV_CALLBACK, 4), (MT_ADV_CALLBACK, 5), (MT_ADV_CALLBACK, 6)]"

definition menu_marker_sel_desc :: "(menu_type \<times> nat) list" where
  "menu_marker_sel_desc = [(MT_ADV_CALLBACK, 0), (MT_ADV_CALLBACK, 1), (MT_ADV_CALLBACK, 2), (MT_ADV_CALLBACK, 3), (MT_ADV_CALLBACK, 4), (MT_ADV_CALLBACK, 5), (MT_ADV_CALLBACK, 6), (MT_ADV_CALLBACK, 7)]"

definition menu_measure_list :: "nat \<Rightarrow> menu_array" where
  "menu_measure_list m =
     (if m = MEASURE_NONE then A_measure
      else if m = MEASURE_LC_MATH then A_measure_lc
      else if m = MEASURE_SHUNT_LC then A_measure_s21
      else if m = MEASURE_SERIES_LC then A_measure_s21
      else if m = MEASURE_SERIES_XTAL then A_measure_s21
      else if m = MEASURE_FILTER then A_measure_filter
      else if m = MEASURE_S11_CABLE then A_measure_cable
      else A_measure_resonance)"

end
