(* ===== verification/Ui_Menu.thy ===== *)
theory Ui_Menu
  imports Menu_Tables
begin

text \<open>
  The menu engine \<open>src/src/ui/core/ui_menu_engine.c\<close> over the tables of \<open>Menu_Tables\<close>: the stack of
  menus, the walk through a list of items, the menus built at run time in one shared buffer, what
  an item's callback does to the menus, and the lever and the touch panel on a menu. Drawing is left
  out. A walk that does not end is \<open>None\<close>.
\<close>

section \<open>Options\<close>

text \<open>\<open>ui_cycle_option\<close>: the option shown, and the value after a click. A null pointer is not passed.\<close>

record option_desc =
  od_value :: nat
  od_label :: "string option"
  od_icon :: int

fun option_index :: "option_desc list \<Rightarrow> nat \<Rightarrow> nat" where
  "option_index [] dst = 0"
| "option_index (d # ds) dst = (if od_value d \<noteq> dst then Suc (option_index ds dst) else 0)"

definition option_selected :: "option_desc list \<Rightarrow> nat \<Rightarrow> nat" where
  "option_selected list dst = (let idx = option_index list dst in if idx \<ge> length list then 0 else idx)"

definition ui_cycle_option :: "nat \<Rightarrow> option_desc list \<Rightarrow> nat" where
  "ui_cycle_option dst list =
     (if length list = 0 then dst
      else let idx = option_selected list dst; idx = (idx + 1) mod length list in od_value (list ! idx))"

definition ui_show_option :: "nat \<Rightarrow> option_desc list \<Rightarrow> string option \<times> int option" where
  "ui_show_option dst list =
     (if length list = 0 then (None, None)
      else let desc = list ! option_selected list dst
           in (od_label desc, if od_icon desc \<ge> 0 then Some (od_icon desc) else None))"

definition band_mode_options :: "option_desc list" where
  "band_mode_options =
     [\<lparr>od_value = 0, od_label = Some ''Direct'', od_icon = -1\<rparr>, \<lparr>od_value = 1, od_label = Some ''Div'', od_icon = -1\<rparr>,
      \<lparr>od_value = 2, od_label = Some ''Multi'', od_icon = -1\<rparr>]"

definition transform_window_options :: "option_desc list" where
  "transform_window_options =
     [\<lparr>od_value = 8, od_label = Some ''MINIMUM'', od_icon = -1\<rparr>, \<lparr>od_value = 0, od_label = Some ''NORMAL'', od_icon = -1\<rparr>,
      \<lparr>od_value = 16, od_label = Some ''MAXIMUM'', od_icon = -1\<rparr>]"

definition transform_state_options :: "option_desc list" where
  "transform_state_options =
     [\<lparr>od_value = 0, od_label = Some ''OFF'', od_icon = 0\<rparr>, \<lparr>od_value = 1, od_label = Some ''ON'', od_icon = 1\<rparr>]"

section \<open>State\<close>

definition MENU_STACK_DEPTH_MAX :: nat where "MENU_STACK_DEPTH_MAX = 5"
definition MENU_DYNAMIC_BUFFER_SIZE :: nat where "MENU_DYNAMIC_BUFFER_SIZE = 64"
definition MENU_BUTTON_MIN :: nat where "MENU_BUTTON_MIN = 8"
definition MENU_BUTTON_MAX :: nat where "MENU_BUTTON_MAX = 16"
definition MENU_BUTTON_Y_OFFSET :: int where "MENU_BUTTON_Y_OFFSET = 1"
definition MENU_BUTTON_WIDTH :: int where "MENU_BUTTON_WIDTH = 79"
definition AREA_HEIGHT_NORMAL :: int where "AREA_HEIGHT_NORMAL = 233"

definition MENU_BUTTON_HEIGHT :: "nat \<Rightarrow> int" where
  "MENU_BUTTON_HEIGHT n = AREA_HEIGHT_NORMAL div int n"

lemmas menu_sizes = MENU_STACK_DEPTH_MAX_def MENU_DYNAMIC_BUFFER_SIZE_def MENU_BUTTON_MIN_def MENU_BUTTON_MAX_def

text \<open>An item's address: its array and its index.\<close>

type_synonym menu_pointer = "menu_array \<times> nat"

record menu_state =
  menu_stack :: "menu_pointer option list"
  menu_current_level :: nat
  menu_selection :: int
  menu_button_height :: int
  menu_dynamic_buffer :: "menuitem list"
  menu_ui_mode :: ui_mode

definition menu_items :: "menu_state \<Rightarrow> menu_array \<Rightarrow> menuitem list" where
  "menu_items s a = (if a = A_dynamic then menu_dynamic_buffer s else menu_table a)"

definition menu_stack_reset :: "menu_state \<Rightarrow> menu_state" where
  "menu_stack_reset s =
     s\<lparr>menu_stack := Some (A_top, 0) # replicate (MENU_STACK_DEPTH_MAX - 1) None, menu_current_level := 0,
       menu_selection := -1, menu_button_height := MENU_BUTTON_HEIGHT MENU_BUTTON_MIN\<rparr>"

section \<open>Walking a menu\<close>

definition menu_next_item :: "menu_state \<Rightarrow> menu_pointer option \<Rightarrow> menu_pointer option" where
  "menu_next_item s m =
     (case m of None \<Rightarrow> None
      | Some (a, i) \<Rightarrow>
        let m = menu_items s a ! (i + 1) in
        if mi_type m = MT_NEXT then (case mi_reference m of Submenu a' \<Rightarrow> Some (a', 0) | _ \<Rightarrow> None) else Some (a, i + 1))"

definition menu_top_of_stack :: "menu_state \<Rightarrow> menu_pointer option" where
  "menu_top_of_stack s = menu_stack s ! menu_current_level s"

definition current_menu_item :: "nat \<Rightarrow> menu_state \<Rightarrow> menu_pointer option" where
  "current_menu_item i s = (menu_next_item s ^^ i) (menu_top_of_stack s)"

partial_function (option) menu_count :: "menu_state \<Rightarrow> menu_pointer option \<Rightarrow> nat option" where
  "menu_count s m = (if m = None then Some 0 else Option.bind (menu_count s (menu_next_item s m)) (\<lambda>i. Some (i + 1)))"

definition current_menu_get_count :: "menu_state \<Rightarrow> nat option" where
  "current_menu_get_count s = menu_count s (menu_top_of_stack s)"

definition ensure_selection :: "menu_state \<Rightarrow> menu_state option" where
  "ensure_selection s =
     do {
       i \<leftarrow> current_menu_get_count s;
       let sel = (if menu_selection s < 0 then -1
                  else if menu_selection s \<ge> int i then signed_take_bit 7 (int i - 1) else menu_selection s);
       let n = (if i < MENU_BUTTON_MIN then MENU_BUTTON_MIN else if i \<ge> MENU_BUTTON_MAX then MENU_BUTTON_MAX else i);
       Some (s\<lparr>menu_selection := sel, menu_button_height := MENU_BUTTON_HEIGHT n\<rparr>)
     }"

definition menu_mode_normal :: "menu_state \<Rightarrow> menu_state" where
  "menu_mode_normal s = s\<lparr>menu_ui_mode := UI_NORMAL\<rparr>"

definition menu_move_back :: "bool \<Rightarrow> menu_state \<Rightarrow> menu_state option" where
  "menu_move_back leave_ui s =
     (if menu_current_level s = 0 then Some s
      else do {
        s \<leftarrow> ensure_selection (s\<lparr>menu_current_level := menu_current_level s - 1\<rparr>);
        Some (if leave_ui then menu_mode_normal s else s)
      })"

definition menu_set_submenu :: "menu_array \<Rightarrow> menu_state \<Rightarrow> menu_state option" where
  "menu_set_submenu submenu s =
     ensure_selection (s\<lparr>menu_stack := (menu_stack s)[menu_current_level s := Some (submenu, 0)]\<rparr>)"

definition menu_push_submenu :: "menu_array \<Rightarrow> menu_state \<Rightarrow> menu_state option" where
  "menu_push_submenu submenu s =
     menu_set_submenu submenu
       (if menu_current_level s < MENU_STACK_DEPTH_MAX - 1 then s\<lparr>menu_current_level := menu_current_level s + 1\<rparr> else s)"

definition ui_mode_menu :: "menu_state \<Rightarrow> menu_state" where
  "ui_mode_menu s = (if menu_ui_mode s = UI_MENU then s else s\<lparr>menu_ui_mode := UI_MENU\<rparr>)"

section \<open>Menus built at run time\<close>

text \<open>The next free index and the buffer.\<close>

fun ui_menu_list :: "(menu_type \<times> nat) list \<Rightarrow> string \<Rightarrow> menu_callback \<Rightarrow> nat \<times> menuitem list \<Rightarrow> nat \<times> menuitem list" where
  "ui_menu_list [] label cb out = out"
| "ui_menu_list ((t, d) # descriptors) label cb (cursor, buf) =
     ui_menu_list descriptors label cb (cursor + 1, buf[cursor := item t d (Some label) (Callback cb)])"

definition menu_put :: "menuitem \<Rightarrow> nat \<times> menuitem list \<Rightarrow> nat \<times> menuitem list" where
  "menu_put m out = (case out of (cursor, buf) \<Rightarrow> (cursor + 1, buf[cursor := m]))"

definition menu_set_next :: "menu_array \<Rightarrow> nat \<times> menuitem list \<Rightarrow> menuitem list" where
  "menu_set_next next out = (case out of (cursor, buf) \<Rightarrow> buf[cursor := item MT_NEXT 0 None (Submenu next)])"

definition menu_dynamic_acquire :: "menu_state \<Rightarrow> nat \<times> menuitem list" where
  "menu_dynamic_acquire s = (0, menu_dynamic_buffer s)"

definition menu_build_power_menu :: "menu_state \<Rightarrow> menu_state" where
  "menu_build_power_menu s =
     (let out = menu_put (item MT_ADV_CALLBACK 0xFF (Some ''AUTO'') (Callback menu_power_acb)) (menu_dynamic_acquire s);
          out = ui_menu_list menu_power_desc (''%u m'' @ T_S_AMPER) menu_power_acb out
      in s\<lparr>menu_dynamic_buffer := menu_set_next A_back out\<rparr>)"

definition menu_build_recall_menu :: "menu_state \<Rightarrow> menu_state" where
  "menu_build_recall_menu s =
     s\<lparr>menu_dynamic_buffer := menu_set_next A_back
         (ui_menu_list menu_state_slots_desc ''Empty %d'' menu_recall_acb (menu_dynamic_acquire s))\<rparr>"

definition menu_build_save_menu :: "menu_state \<Rightarrow> menu_state" where
  "menu_build_save_menu s =
     (let out = menu_put (item MT_CALLBACK FMT_CAL_FILE (Some (''SAVE TO'' @ NL @ '' SD CARD'')) (Callback menu_sdcard_cb))
                  (menu_dynamic_acquire s);
          out = ui_menu_list menu_state_slots_desc ''Empty %d'' menu_save_acb out
      in s\<lparr>menu_dynamic_buffer := menu_set_next A_back out\<rparr>)"

definition menu_build_points_menu :: "menu_state \<Rightarrow> menu_state" where
  "menu_build_points_menu s =
     (let out = menu_put (item MT_ADV_CALLBACK (km_data KM_POINTS) (Some (''SET POINTS'' @ NL @ '' '' @ T_R_LINK_COLOR @ ''%d''))
                  (Callback menu_keyboard_acb)) (menu_dynamic_acquire s);
          out = ui_menu_list menu_points_desc ''%d point'' menu_points_acb out
      in s\<lparr>menu_dynamic_buffer := menu_set_next A_back out\<rparr>)"

definition menu_build_marker_smith_menu :: "nat \<Rightarrow> menu_state \<Rightarrow> menu_state" where
  "menu_build_marker_smith_menu channel s =
     s\<lparr>menu_dynamic_buffer := menu_set_next A_back
         (ui_menu_list (if channel = 0 then menu_marker_s11smith_desc else menu_marker_s21smith_desc) ''%s''
            menu_marker_smith_acb (menu_dynamic_acquire s))\<rparr>"

definition menu_build_bandwidth_menu :: "menu_state \<Rightarrow> menu_state" where
  "menu_build_bandwidth_menu s =
     s\<lparr>menu_dynamic_buffer := menu_set_next A_back
         (ui_menu_list menu_bandwidth_desc (''%u '' @ T_S_Hz) menu_bandwidth_acb (menu_dynamic_acquire s))\<rparr>"

definition menu_build_smooth_menu :: "menu_state \<Rightarrow> menu_state" where
  "menu_build_smooth_menu s =
     (let out = menu_put (item MT_ADV_CALLBACK VNA_MODE_SMOOTH (Some (''SMOOTH'' @ NL @ '' '' @ T_R_LINK_COLOR @ ''%s avg''))
                  (Callback menu_vna_mode_acb)) (menu_dynamic_acquire s);
          out = menu_put (item MT_ADV_CALLBACK 0 (Some (''SMOOTH'' @ NL @ ''OFF'')) (Callback menu_smooth_acb)) out;
          out = ui_menu_list menu_smooth_desc ''x%d'' menu_smooth_acb out
      in s\<lparr>menu_dynamic_buffer := menu_set_next A_back out\<rparr>)"

definition menu_build_marker_select_menu :: "menu_state \<Rightarrow> menu_state" where
  "menu_build_marker_select_menu s =
     (let out = ui_menu_list menu_marker_sel_desc ''MARKER %d'' menu_marker_sel_acb (menu_dynamic_acquire s);
          out = menu_put (item MT_CALLBACK 0 (Some ''ALL OFF'') (Callback menu_marker_disable_all_cb)) out;
          out = menu_put (item MT_ADV_CALLBACK 0 (Some ''DELTA'') (Callback menu_marker_delta_acb)) out
      in s\<lparr>menu_dynamic_buffer := menu_set_next A_back out\<rparr>)"

section \<open>What a callback does to the menus\<close>

text \<open>
  What the callbacks read elsewhere: whether a trace is current, whether it is a Smith chart of the
  channel asked for, whether its type has a keypad for the value asked for, the current measurement,
  the result of saving, whether a marker is active, and the automatic file names.
\<close>

record menu_env =
  env_trace :: bool
  env_smith :: bool
  env_scale :: bool
  env_measure :: nat
  env_saved :: bool
  env_marker :: bool
  env_auto_name :: bool

definition ui_open_keypad :: "menu_state \<Rightarrow> menu_state" where
  "ui_open_keypad s =
     (if menu_ui_mode s = UI_KEYPAD then s else s\<lparr>menu_ui_mode := UI_KEYPAD, menu_selection := -1\<rparr>)"

definition calop_next :: "nat \<Rightarrow> int" where
  "calop_next d =
     (if d = MENU_CAL_LOAD then 3 else if d = MENU_CAL_OPEN then 1 else if d = MENU_CAL_SHORT then 2 else if d = MENU_CAL_THRU then 6 else 4)"

fun menu_call :: "menu_env \<Rightarrow> menu_callback \<Rightarrow> nat \<Rightarrow> menu_state \<Rightarrow> menu_state option" where
  "menu_call e menu_back_cb d s = menu_move_back False s"
| "menu_call e menu_save_submenu_cb d s = menu_push_submenu A_dynamic (menu_build_save_menu s)"
| "menu_call e menu_recall_submenu_cb d s = menu_push_submenu A_dynamic (menu_build_recall_menu s)"
| "menu_call e menu_power_sel_acb d s = menu_push_submenu A_dynamic (menu_build_power_menu s)"
| "menu_call e menu_points_sel_acb d s = menu_push_submenu A_dynamic (menu_build_points_menu s)"
| "menu_call e menu_bandwidth_sel_acb d s = menu_push_submenu A_dynamic (menu_build_bandwidth_menu s)"
| "menu_call e menu_smooth_sel_acb d s = menu_push_submenu A_dynamic (menu_build_smooth_menu s)"
| "menu_call e menu_marker_select_cb d s = menu_push_submenu A_dynamic (menu_build_marker_select_menu s)"
| "menu_call e menu_format_acb d s =
     (if \<not> env_trace e then Some s
      else if d AND 0x7F = TRC_SMITH \<and> env_smith e
      then menu_push_submenu A_dynamic (menu_build_marker_smith_menu (if d AND F_S21 \<noteq> 0 then 1 else 0) s)
      else Some s)"
| "menu_call e menu_traces_acb d s = menu_push_submenu A_trace s"
| "menu_call e menu_offset_sel_acb d s = menu_push_submenu A_offset s"
| "menu_call e menu_measure_cb d s = menu_push_submenu (menu_measure_list (env_measure e)) s"
| "menu_call e menu_measure_acb d s = menu_set_submenu (menu_measure_list (env_measure e)) s"
| "menu_call e menu_caldone_cb d s = map_option (\<lambda>s. if d \<noteq> 0 then menu_mode_normal s else s) (menu_move_back False s)"
| "menu_call e menu_save_acb d s = (if env_saved e then menu_move_back True s else Some s)"
| "menu_call e menu_config_cb d s = (if d = MENU_CONFIG_SAVE then menu_move_back True s else Some (menu_mode_normal s))"
| "menu_call e menu_calop_acb d s = Some (s\<lparr>menu_selection := calop_next d\<rparr>)"
| "menu_call e menu_keyboard_acb d s = Some (ui_open_keypad s)"
| "menu_call e menu_scale_keyboard_acb d s = Some (if env_scale e then ui_open_keypad s else s)"
| "menu_call e menu_marker_op_cb d s = Some (if env_marker e then menu_mode_normal s else s)"
| "menu_call e menu_sdcard_cb d s = Some (if env_auto_name e then menu_mode_normal s else ui_open_keypad s)"
| "menu_call e menu_sdcard_browse_cb d s = Some (s\<lparr>menu_ui_mode := UI_BROWSER\<rparr>)"
| "menu_call e menu_sdcard_format_cb d s = Some (menu_mode_normal s)"
| "menu_call e _ d s = Some s"

definition menu_invoke :: "menu_env \<Rightarrow> nat \<Rightarrow> menu_state \<Rightarrow> menu_state option" where
  "menu_invoke e i s =
     (case current_menu_item i s of None \<Rightarrow> Some s
      | Some (a, k) \<Rightarrow>
        let m = menu_items s a ! k in
        case mi_type m of
          MT_CALLBACK \<Rightarrow> (case mi_reference m of Callback cb \<Rightarrow> menu_call e cb (mi_data m) s | _ \<Rightarrow> Some s)
        | MT_ADV_CALLBACK \<Rightarrow> (case mi_reference m of Callback cb \<Rightarrow> menu_call e cb (mi_data m) s | _ \<Rightarrow> Some s)
        | MT_SUBMENU \<Rightarrow> (case mi_reference m of Submenu a' \<Rightarrow> menu_push_submenu a' s | _ \<Rightarrow> Some s)
        | MT_NEXT \<Rightarrow> Some s)"

section \<open>Lever and touch on a menu\<close>

text \<open>\<open>(uint16_t)selection >= count\<close> for a selection of 8 bits with a sign.\<close>

definition outside_menu :: "int \<Rightarrow> nat \<Rightarrow> bool" where
  "outside_menu sel count \<longleftrightarrow> int count \<le> take_bit 16 sel"

definition lever_selection :: "u16 \<Rightarrow> int \<Rightarrow> int" where
  "lever_selection status sel =
     (let sel = (if status AND EVT_UP \<noteq> 0 then signed_take_bit 7 (sel + 1) else sel)
      in if status AND EVT_DOWN \<noteq> 0 then signed_take_bit 7 (sel - 1) else sel)"

function menu_lever_loop ::
    "nat \<Rightarrow> u16 \<Rightarrow> (u32 \<times> u16) list \<Rightarrow> input_state \<Rightarrow> menu_state \<Rightarrow> (input_state \<times> menu_state) option" where
  "menu_lever_loop count status rs inp s =
     (let s = s\<lparr>menu_selection := lever_selection status (menu_selection s)\<rparr> in
      if outside_menu (menu_selection s) count then Some (inp, menu_mode_normal s)
      else case ui_input_wait_release rs inp of None \<Rightarrow> None
           | Some (status, inp, rs) \<Rightarrow> if status \<noteq> 0 then menu_lever_loop count status rs inp s else Some (inp, s))"
  by pat_completeness auto

termination
  by (relation "measure (\<lambda>(count, status, rs, inp, s). length rs)") (auto dest: wait_release_shorter)

declare menu_lever_loop.simps [simp del]

definition ui_menu_lever ::
    "menu_env \<Rightarrow> u16 \<Rightarrow> (u32 \<times> u16) list \<Rightarrow> input_state \<Rightarrow> menu_state \<Rightarrow> (input_state \<times> menu_state) option" where
  "ui_menu_lever e status rs inp s =
     do {
       count \<leftarrow> current_menu_get_count s;
       if status AND EVT_BUTTON_SINGLE_CLICK \<noteq> 0 then
         if outside_menu (menu_selection s) count then Some (inp, menu_mode_normal s)
         else do { s \<leftarrow> menu_invoke e (nat (menu_selection s)) s; Some (inp, s) }
       else menu_lever_loop count status rs inp s
     }"

definition ui_menu_touch :: "menu_env \<Rightarrow> int \<Rightarrow> int \<Rightarrow> menu_state \<Rightarrow> menu_state option" where
  "ui_menu_touch e touch_x touch_y s =
     do {
       count \<leftarrow> current_menu_get_count s;
       let i = (touch_y - MENU_BUTTON_Y_OFFSET) sdiv menu_button_height s;
       if LCD_WIDTH - MENU_BUTTON_WIDTH < touch_x \<and> take_bit 16 i < int count
       then menu_invoke e (nat i) (s\<lparr>menu_selection := -1\<rparr>)
       else Some (menu_mode_normal s)
     }"

section \<open>Lists of items\<close>

text \<open>
  A list of \<open>n\<close> items ends with an item of type \<open>MT_NEXT\<close> that goes on with the array of the BACK
  button or nowhere.
\<close>

definition items_ok :: "menuitem list \<Rightarrow> nat \<Rightarrow> bool" where
  "items_ok xs n \<longleftrightarrow> 0 < n \<and> n < length xs \<and> list_all (\<lambda>m. mi_type m \<noteq> MT_NEXT) (take n xs) \<and> mi_type (xs ! n) = MT_NEXT \<and>
     (mi_reference (xs ! n) = Submenu A_back \<or> mi_reference (xs ! n) = No_Reference)"

definition items_count :: "menuitem list \<Rightarrow> nat \<Rightarrow> nat" where
  "items_count xs n = n + (if mi_reference (xs ! n) = Submenu A_back then 1 else 0)"

text \<open>The items before the end of an array.\<close>

definition own_count :: "menuitem list \<Rightarrow> nat" where
  "own_count xs = length (takeWhile (\<lambda>m. mi_type m \<noteq> MT_NEXT) xs)"

definition all_arrays :: "menu_array list" where
  "all_arrays = [A_back, A_top, A_state_io, A_cal_wizard, A_cal_options, A_cal_management, A_cal_menu, A_stimulus, A_scale,
     A_trace, A_format4, A_formatS21, A_format3, A_format2, A_formatS11, A_display, A_transform, A_measure_lc, A_measure_cable,
     A_measure_resonance, A_measure_s21, A_measure_filter, A_measure, A_measure_tools, A_search, A_operations, A_marker,
     A_sdcard_browse, A_sdcard, A_dfu, A_clear, A_offset, A_device1, A_rtc, A_device, A_system]"

lemma array_in_all: "a = A_dynamic \<or> a \<in> set all_arrays"
  by (cases a) (simp_all add: all_arrays_def)

text \<open>The submenus an item can open; the callbacks of the last group build theirs in the shared buffer.\<close>

definition item_opens :: "menuitem \<Rightarrow> menu_array list" where
  "item_opens m =
     (case mi_reference m of
        Submenu a \<Rightarrow> if mi_type m = MT_SUBMENU then [a] else []
      | Callback cb \<Rightarrow>
          (if cb = menu_traces_acb then [A_trace]
           else if cb = menu_offset_sel_acb then [A_offset]
           else if cb = menu_measure_cb then
             [A_measure, A_measure_lc, A_measure_s21, A_measure_filter, A_measure_cable, A_measure_resonance]
           else if cb \<in> {menu_save_submenu_cb, menu_recall_submenu_cb, menu_power_sel_acb, menu_points_sel_acb,
               menu_bandwidth_sel_acb, menu_smooth_sel_acb, menu_marker_select_cb} then [A_dynamic]
           else if cb = menu_format_acb \<and> mi_data m AND 0x7F = TRC_SMITH then [A_dynamic]
           else [])
      | No_Reference \<Rightarrow> [])"

text \<open>How many submenus deep the menus below an array go at most.\<close>

fun menu_height :: "menu_array \<Rightarrow> nat" where
  "menu_height A_top = 4"
| "menu_height A_display = 3"
| "menu_height A_system = 3"
| "menu_height A_cal_menu = 2"
| "menu_height A_formatS11 = 2"
| "menu_height A_formatS21 = 1"
| "menu_height A_measure_tools = 1"
| "menu_height A_marker = 1"
| "menu_height A_device = 2"
| "menu_height A_device1 = 1"
| "menu_height A_format2 = 1"
| "menu_height A_cal_options = 1"
| "menu_height A_stimulus = 1"
| "menu_height A_sdcard = 1"
| "menu_height A_state_io = 1"
| "menu_height _ = 0"

lemma tables_checked:
  "list_all (\<lambda>a. items_ok (menu_table a) (own_count (menu_table a)) \<and>
     items_count (menu_table a) (own_count (menu_table a)) \<le> MENU_BUTTON_MAX \<and>
     list_all (\<lambda>m. list_all (\<lambda>b. menu_height b < menu_height a) (item_opens m) \<and>
        (mi_reference m = Callback menu_measure_acb \<longrightarrow> menu_height a = 0) \<and>
        (mi_type m = MT_SUBMENU \<longrightarrow> (case mi_reference m of Submenu b \<Rightarrow> b \<noteq> A_dynamic | _ \<Rightarrow> False)) \<and>
        ((mi_type m = MT_CALLBACK \<or> mi_type m = MT_ADV_CALLBACK) \<longrightarrow> (case mi_reference m of Callback _ \<Rightarrow> True | _ \<Rightarrow> False)))
       (take (own_count (menu_table a)) (menu_table a))) all_arrays"
  by code_simp

section \<open>Walking a list\<close>

lemma menu_items_static: "a \<noteq> A_dynamic \<Longrightarrow> menu_items s a = menu_table a"
  by (simp add: menu_items_def)

lemma next_inside:
  assumes "items_ok (menu_items s a) n" "Suc i < n"
  shows "menu_next_item s (Some (a, i)) = Some (a, Suc i)"
proof -
  have "take n (menu_items s a) ! Suc i \<in> set (take n (menu_items s a))"
    using assms by (intro nth_mem) (simp add: items_ok_def)
  then have "mi_type (menu_items s a ! Suc i) \<noteq> MT_NEXT"
    using assms by (simp add: items_ok_def list_all_iff)
  then show ?thesis by (simp add: menu_next_item_def Let_def)
qed

lemma next_last:
  assumes "items_ok (menu_items s a) n"
  shows "menu_next_item s (Some (a, n - 1)) = (if mi_reference (menu_items s a ! n) = Submenu A_back then Some (A_back, 0) else None)"
  using assms by (auto simp: menu_next_item_def Let_def items_ok_def)

lemma next_back: "menu_next_item s (Some (A_back, 0)) = None"
  by (simp add: menu_next_item_def menu_items_static menu_back_def)

lemma walk_inside:
  assumes "items_ok (menu_items s a) n" "i < n"
  shows "(menu_next_item s ^^ i) (Some (a, 0)) = Some (a, i)"
  using assms(2) by (induction i) (simp_all add: next_inside [OF assms(1)])

lemma walk_none: "(menu_next_item s ^^ i) None = None"
proof (induction i)
  case (Suc i)
  have "menu_next_item s None = None" by (simp add: menu_next_item_def)
  with Suc show ?case by simp
qed simp

lemma walk_after:
  assumes "items_ok (menu_items s a) n" "n \<le> i"
  shows "(menu_next_item s ^^ i) (Some (a, 0)) =
    (if i = n \<and> mi_reference (menu_items s a ! n) = Submenu A_back then Some (A_back, 0) else None)"
proof -
  obtain n' where n: "n = Suc n'" using assms(1) by (cases n) (simp_all add: items_ok_def)
  have last: "(menu_next_item s ^^ n) (Some (a, 0)) =
      (if mi_reference (menu_items s a ! n) = Submenu A_back then Some (A_back, 0) else None)"
    using walk_inside [OF assms(1), of n'] next_last [OF assms(1)] by (simp add: n)
  obtain k where k: "i = k + n" using assms(2) by (metis add.commute le_Suc_ex)
  have "(menu_next_item s ^^ i) (Some (a, 0)) = (menu_next_item s ^^ k) ((menu_next_item s ^^ n) (Some (a, 0)))"
    by (simp add: k funpow_add)
  moreover have "(menu_next_item s ^^ k) (Some (A_back, 0)) = (if k = 0 then Some (A_back, 0) else None)"
    by (cases k) (simp_all add: funpow_Suc_right next_back walk_none del: funpow.simps)
  ultimately show ?thesis using last by (simp add: k walk_none)
qed

lemma count_some: "menu_count s (Some p) = map_option Suc (menu_count s (menu_next_item s (Some p)))"
  by (subst menu_count.simps) (simp add: map_conv_bind_option comp_def)

lemma count_none: "menu_count s None = Some 0"
  by (subst menu_count.simps) simp

lemma count_from:
  assumes "items_ok (menu_items s a) n"
  shows "k < n \<Longrightarrow> menu_count s (Some (a, n - 1 - k)) = Some (items_count (menu_items s a) n - (n - 1 - k))"
proof (induction k)
  case 0
  have "menu_count s (Some (A_back, 0)) = Some 1" by (simp add: count_some next_back count_none)
  then show ?case
    using next_last [OF assms] 0 by (simp add: count_some [of s "(a, n - Suc 0)"] items_count_def count_none)
next
  case (Suc k)
  have "menu_next_item s (Some (a, n - 1 - Suc k)) = Some (a, n - 1 - k)"
    using next_inside [OF assms, of "n - 1 - Suc k"] Suc.prems by (simp add: Suc_diff_Suc)
  moreover have "k < n" using Suc.prems by simp
  ultimately show ?case
    using Suc.IH Suc.prems by (simp add: count_some [of s "(a, n - Suc (Suc k))"] items_count_def)
qed

lemma count_list:
  assumes "items_ok (menu_items s a) n"
  shows "menu_count s (Some (a, 0)) = Some (items_count (menu_items s a) n)"
  using count_from [OF assms, of "n - 1"] assms by (simp add: items_ok_def)

section \<open>The menus stay well formed\<close>

definition item_fine :: "menu_array \<Rightarrow> menuitem \<Rightarrow> bool" where
  "item_fine a m \<longleftrightarrow> list_all (\<lambda>b. menu_height b < menu_height a) (item_opens m) \<and>
     (mi_reference m = Callback menu_measure_acb \<longrightarrow> menu_height a = 0) \<and>
     (mi_type m = MT_SUBMENU \<longrightarrow> (case mi_reference m of Submenu b \<Rightarrow> b \<noteq> A_dynamic | _ \<Rightarrow> False)) \<and>
     (mi_type m = MT_CALLBACK \<or> mi_type m = MT_ADV_CALLBACK \<longrightarrow> (case mi_reference m of Callback _ \<Rightarrow> True | _ \<Rightarrow> False))"

definition array_fine :: "menu_state \<Rightarrow> menu_array \<Rightarrow> bool" where
  "array_fine s a \<longleftrightarrow> (\<exists>n. items_ok (menu_items s a) n \<and> items_count (menu_items s a) n \<le> MENU_BUTTON_MAX \<and>
     list_all (item_fine a) (take n (menu_items s a)))"

lemma static_fine: "a \<noteq> A_dynamic \<Longrightarrow> array_fine s a"
  using tables_checked array_in_all [of a]
  unfolding array_fine_def menu_items_def list_all_iff item_fine_def by (intro exI [of _ "own_count (menu_table a)"]) auto

definition menu_ok :: "menu_state \<Rightarrow> bool" where
  "menu_ok s \<longleftrightarrow> length (menu_stack s) = MENU_STACK_DEPTH_MAX \<and> menu_current_level s < MENU_STACK_DEPTH_MAX \<and>
     length (menu_dynamic_buffer s) = MENU_DYNAMIC_BUFFER_SIZE \<and> - 128 \<le> menu_selection s \<and> menu_selection s \<le> 127 \<and>
     14 \<le> menu_button_height s \<and> (\<forall>k \<le> menu_current_level s. \<exists>a. menu_stack s ! k = Some (a, 0) \<and> k + menu_height a \<le> 4 \<and> array_fine s a) \<and>
     (\<forall>k < menu_current_level s. menu_stack s ! k \<noteq> Some (A_dynamic, 0))"

lemma menu_ok_top:
  assumes "menu_ok s"
  obtains a n where "menu_top_of_stack s = Some (a, 0)" "menu_current_level s + menu_height a \<le> 4" "array_fine s a"
    "items_ok (menu_items s a) n" "items_count (menu_items s a) n \<le> MENU_BUTTON_MAX" "list_all (item_fine a) (take n (menu_items s a))"
    "current_menu_get_count s = Some (items_count (menu_items s a) n)"
proof -
  obtain a where a: "menu_stack s ! menu_current_level s = Some (a, 0)" "menu_current_level s + menu_height a \<le> 4" "array_fine s a"
    using assms by (auto simp: menu_ok_def)
  then obtain n where n: "items_ok (menu_items s a) n" "items_count (menu_items s a) n \<le> MENU_BUTTON_MAX"
    "list_all (item_fine a) (take n (menu_items s a))"
    by (auto simp: array_fine_def)
  show thesis
    by (rule that [of a n]) (use a n count_list [OF n(1)] in \<open>simp_all add: menu_top_of_stack_def current_menu_get_count_def\<close>)
qed

lemma items_selection [simp]:
  "menu_items (s\<lparr>menu_selection := x\<rparr>) a = menu_items s a" "menu_items (s\<lparr>menu_button_height := y\<rparr>) a = menu_items s a"
  "menu_items (s\<lparr>menu_ui_mode := m\<rparr>) a = menu_items s a" "menu_items (s\<lparr>menu_current_level := l\<rparr>) a = menu_items s a"
  "menu_items (s\<lparr>menu_stack := st\<rparr>) a = menu_items s a"
  by (simp_all add: menu_items_def)

lemma fine_selection [simp]:
  "array_fine (s\<lparr>menu_selection := x\<rparr>) = array_fine s" "array_fine (s\<lparr>menu_button_height := y\<rparr>) = array_fine s"
  "array_fine (s\<lparr>menu_ui_mode := m\<rparr>) = array_fine s" "array_fine (s\<lparr>menu_current_level := l\<rparr>) = array_fine s"
  "array_fine (s\<lparr>menu_stack := st\<rparr>) = array_fine s"
  by (simp_all add: array_fine_def fun_eq_iff)

lemma menu_ok_mode [simp]: "menu_ok (s\<lparr>menu_ui_mode := m\<rparr>) = menu_ok s"
  by (simp add: menu_ok_def)

text \<open>Only the selection and the height of the buttons change.\<close>

lemma ensure_selection_ok:
  assumes "menu_ok s"
  shows "\<exists>x h. ensure_selection s = Some (s\<lparr>menu_selection := x, menu_button_height := h\<rparr>) \<and>
    menu_ok (s\<lparr>menu_selection := x, menu_button_height := h\<rparr>) \<and> (menu_selection s = -1 \<longrightarrow> x = -1)"
proof -
  obtain a n where c: "items_ok (menu_items s a) n" "items_count (menu_items s a) n \<le> MENU_BUTTON_MAX"
    "current_menu_get_count s = Some (items_count (menu_items s a) n)"
    by (rule menu_ok_top [OF assms])
  let ?i = "items_count (menu_items s a) n"
  have i: "0 < ?i" "?i \<le> 16" using c(1,2) by (simp_all add: items_ok_def items_count_def menu_sizes split: if_splits)
  have st: "signed_take_bit 7 (int ?i - 1) = int ?i - 1"
    using i by (intro signed_take_bit_int_eq_self) simp_all
  let ?x = "if menu_selection s < 0 then -1 else if menu_selection s \<ge> int ?i then int ?i - 1 else menu_selection s"
  let ?h = "MENU_BUTTON_HEIGHT (if ?i < 8 then 8 else if ?i \<ge> 16 then 16 else ?i)"
  have "ensure_selection s = Some (s\<lparr>menu_selection := ?x, menu_button_height := ?h\<rparr>)"
    by (simp add: ensure_selection_def c(3) st menu_sizes)
  moreover have "14 \<le> MENU_BUTTON_HEIGHT k" if "8 \<le> k" "k \<le> 16" for k
  proof -
    have "233 div (16 :: int) \<le> 233 div int k" using that by (intro zdiv_mono2) simp_all
    then show ?thesis by (simp add: MENU_BUTTON_HEIGHT_def AREA_HEIGHT_NORMAL_def)
  qed
  then have "14 \<le> ?h" by simp
  then have "menu_ok (s\<lparr>menu_selection := ?x, menu_button_height := ?h\<rparr>)"
    using assms i unfolding menu_ok_def by auto
  moreover have "menu_selection s = -1 \<longrightarrow> ?x = -1" by simp
  ultimately show ?thesis by blast
qed

lemma menu_set_ok:
  assumes "menu_ok s" "b \<noteq> A_dynamic" "menu_height b = 0"
  shows "\<exists>s'. menu_set_submenu b s = Some s' \<and> menu_ok s' \<and> menu_current_level s' = menu_current_level s"
proof -
  let ?s = "s\<lparr>menu_stack := (menu_stack s)[menu_current_level s := Some (b, 0)]\<rparr>"
  have "menu_ok ?s"
    using assms static_fine [OF assms(2)] by (auto simp: menu_ok_def menu_sizes nth_list_update)
  from ensure_selection_ok [OF this] show ?thesis by (auto simp: menu_set_submenu_def)
qed

lemma menu_push_ok:
  assumes "menu_ok s" "menu_top_of_stack s = Some (a, 0)" "menu_height b < menu_height a" "array_fine s b"
  shows "\<exists>s'. menu_push_submenu b s = Some s' \<and> menu_ok s' \<and> menu_current_level s' = menu_current_level s + 1 \<and>
    (\<forall>k \<le> menu_current_level s. menu_stack s' ! k = menu_stack s ! k) \<and> menu_dynamic_buffer s' = menu_dynamic_buffer s"
proof -
  let ?l = "menu_current_level s"
  let ?s = "s\<lparr>menu_current_level := ?l + 1, menu_stack := (menu_stack s)[?l + 1 := Some (b, 0)]\<rparr>"
  have l: "?l + menu_height a \<le> 4"
    using assms(1,2) by (auto simp: menu_ok_def menu_top_of_stack_def)
  have a: "a \<noteq> A_dynamic" using assms(3) by auto
  have ok: "menu_ok ?s"
    unfolding menu_ok_def
  proof (intro conjI allI impI)
    fix k assume k: "k \<le> menu_current_level ?s"
    show "\<exists>c. menu_stack ?s ! k = Some (c, 0) \<and> k + menu_height c \<le> 4 \<and> array_fine ?s c"
      using assms l k by (cases "k = ?l + 1") (auto simp: menu_ok_def menu_sizes nth_list_update)
  next
    fix k assume k: "k < menu_current_level ?s"
    show "menu_stack ?s ! k \<noteq> Some (A_dynamic, 0)"
      using assms(1,2) a k by (cases "k = ?l") (auto simp: menu_ok_def menu_sizes menu_top_of_stack_def nth_list_update)
  qed (use assms l in \<open>auto simp: menu_ok_def menu_sizes\<close>)
  have push: "menu_push_submenu b s = ensure_selection ?s"
    using l assms(3) by (simp add: menu_push_submenu_def menu_set_submenu_def menu_sizes)
  show ?thesis
    using ensure_selection_ok [OF ok] unfolding push by (auto simp: nth_list_update)
qed

lemma menu_back_ok:
  assumes "menu_ok s"
  shows "\<exists>s'. menu_move_back leave s = Some s' \<and> menu_ok s' \<and> menu_current_level s' = menu_current_level s - 1 \<and>
    menu_stack s' = menu_stack s \<and> menu_dynamic_buffer s' = menu_dynamic_buffer s"
proof (cases "menu_current_level s = 0")
  case True
  then show ?thesis using assms by (simp add: menu_move_back_def)
next
  case False
  let ?s = "s\<lparr>menu_current_level := menu_current_level s - 1\<rparr>"
  have "menu_ok ?s" using assms by (auto simp: menu_ok_def)
  from ensure_selection_ok [OF this] obtain x h where
    e: "ensure_selection ?s = Some (?s\<lparr>menu_selection := x, menu_button_height := h\<rparr>)"
      "menu_ok (?s\<lparr>menu_selection := x, menu_button_height := h\<rparr>)" by blast
  show ?thesis using e False by (auto simp: menu_move_back_def menu_mode_normal_def)
qed

section \<open>Menus built at run time\<close>

definition built :: "menuitem list \<Rightarrow> nat \<times> menuitem list \<Rightarrow> bool" where
  "built xs out \<longleftrightarrow> (case out of (cursor, buf) \<Rightarrow>
     cursor = length xs \<and> take cursor buf = xs \<and> length buf = MENU_DYNAMIC_BUFFER_SIZE)"

lemma built_acquire: "menu_ok s \<Longrightarrow> built [] (menu_dynamic_acquire s)"
  by (simp add: built_def menu_dynamic_acquire_def menu_ok_def)

lemma built_put: "built xs out \<Longrightarrow> length xs < MENU_DYNAMIC_BUFFER_SIZE \<Longrightarrow> built (xs @ [m]) (menu_put m out)"
  by (auto simp: built_def menu_put_def take_Suc_conv_app_nth split: prod.splits)

lemma built_list:
  "built xs out \<Longrightarrow> length xs + length ds \<le> MENU_DYNAMIC_BUFFER_SIZE \<Longrightarrow>
   built (xs @ map (\<lambda>(t, d). item t d (Some label) (Callback cb)) ds) (ui_menu_list ds label cb out)"
proof (induction ds arbitrary: xs out)
  case (Cons d ds)
  obtain t x where d: "d = (t, x)" by (cases d)
  obtain cursor buf where out: "out = (cursor, buf)" by (cases out)
  have "ui_menu_list (d # ds) label cb out = ui_menu_list ds label cb (menu_put (item t x (Some label) (Callback cb)) out)"
    by (simp add: d out menu_put_def)
  moreover have "built (xs @ [item t x (Some label) (Callback cb)]) (menu_put (item t x (Some label) (Callback cb)) out)"
    using Cons.prems by (intro built_put) simp_all
  ultimately show ?case using Cons.IH [of "xs @ [item t x (Some label) (Callback cb)]"] Cons.prems(2) by (simp add: d)
qed simp

text \<open>A menu of callbacks that open nothing.\<close>

definition leaf_item :: "menuitem \<Rightarrow> bool" where
  "leaf_item m \<longleftrightarrow> mi_type m \<in> {MT_CALLBACK, MT_ADV_CALLBACK} \<and> item_opens m = [] \<and>
     (\<exists>cb. mi_reference m = Callback cb \<and> cb \<noteq> menu_measure_acb)"

lemma built_fine:
  assumes "built xs out" "0 < length xs" "length xs < MENU_BUTTON_MAX" "list_all leaf_item xs"
  shows "array_fine (s\<lparr>menu_dynamic_buffer := menu_set_next A_back out\<rparr>) A_dynamic"
    "length (menu_set_next A_back out) = MENU_DYNAMIC_BUFFER_SIZE"
proof -
  obtain cursor buf where out: "out = (cursor, buf)" by (cases out)
  have b: "cursor = length xs" "take (length xs) buf = xs" "length buf = 64"
    using assms(1) by (auto simp: built_def out menu_sizes)
  have n: "list_all (\<lambda>m. mi_type m \<noteq> MT_NEXT) xs" "list_all (item_fine A_dynamic) xs"
    using assms(4) by (auto simp: list_all_iff leaf_item_def item_fine_def)
  show "array_fine (s\<lparr>menu_dynamic_buffer := menu_set_next A_back out\<rparr>) A_dynamic"
    unfolding array_fine_def using b n assms(2,3)
    by (intro exI [of _ "length xs"]) (simp add: menu_items_def menu_set_next_def out items_ok_def items_count_def menu_sizes)
  show "length (menu_set_next A_back out) = MENU_DYNAMIC_BUFFER_SIZE" using b by (simp add: menu_set_next_def out menu_sizes)
qed

definition buildable :: "(menu_state \<Rightarrow> menu_state) \<Rightarrow> bool" where
  "buildable f \<longleftrightarrow> (\<forall>s. length (menu_dynamic_buffer s) = MENU_DYNAMIC_BUFFER_SIZE \<longrightarrow>
     (\<exists>xs out. f s = s\<lparr>menu_dynamic_buffer := menu_set_next A_back out\<rparr> \<and> built xs out \<and>
        0 < length xs \<and> length xs < MENU_BUTTON_MAX \<and> list_all leaf_item xs))"

lemma leaf_desc:
  assumes "list_all (\<lambda>(t, d). t \<in> {MT_CALLBACK, MT_ADV_CALLBACK}) ds"
    "cb \<in> {menu_power_acb, menu_recall_acb, menu_save_acb, menu_points_acb, menu_marker_smith_acb, menu_bandwidth_acb,
       menu_smooth_acb, menu_marker_sel_acb}"
  shows "list_all leaf_item (map (\<lambda>(t, d). item t d l (Callback cb)) ds)"
  using assms by (auto simp: list_all_iff leaf_item_def item_opens_def)

lemma leaf_one:
  "t \<in> {MT_CALLBACK, MT_ADV_CALLBACK} \<Longrightarrow>
   cb \<in> {menu_power_acb, menu_sdcard_cb, menu_keyboard_acb, menu_vna_mode_acb, menu_smooth_acb, menu_marker_disable_all_cb,
     menu_marker_delta_acb} \<Longrightarrow> leaf_item (item t d l (Callback cb))"
  by (auto simp: leaf_item_def item_opens_def)

lemma built_start: "length (menu_dynamic_buffer s) = MENU_DYNAMIC_BUFFER_SIZE \<Longrightarrow> built [] (menu_dynamic_acquire s)"
  by (simp add: built_def menu_dynamic_acquire_def)

text \<open>A builder is a few items, a list of descriptors and a few items more.\<close>

lemma buildable_parts:
  assumes "\<And>s. f s = s\<lparr>menu_dynamic_buffer := menu_set_next A_back
      (fold menu_put zs (ui_menu_list ds l cb (fold menu_put ys (menu_dynamic_acquire s))))\<rparr>"
    "0 < length ds" "length ys + length ds + length zs < MENU_BUTTON_MAX"
    "list_all leaf_item ys" "list_all leaf_item zs" "list_all leaf_item (map (\<lambda>(t, d). item t d (Some l) (Callback cb)) ds)"
  shows "buildable f"
  unfolding buildable_def
proof (intro allI impI)
  fix s :: menu_state
  assume len: "length (menu_dynamic_buffer s) = MENU_DYNAMIC_BUFFER_SIZE"
  let ?ds = "map (\<lambda>(t, d). item t d (Some l) (Callback cb)) ds"
  have puts: "built (xs @ ms) (fold menu_put ms out)"
    if "built xs out" "length xs + length ms \<le> MENU_DYNAMIC_BUFFER_SIZE" for xs out ms
    using that
  proof (induction ms arbitrary: xs out)
    case (Cons m ms)
    then show ?case using Cons.IH [of "xs @ [m]" "menu_put m out"] built_put [of xs out m] by simp
  qed simp
  have a: "built ys (fold menu_put ys (menu_dynamic_acquire s))"
    using puts [OF built_start [OF len], of ys] assms(3) by (simp add: menu_sizes)
  have b: "built (ys @ ?ds) (ui_menu_list ds l cb (fold menu_put ys (menu_dynamic_acquire s)))"
    using built_list [OF a, of ds l cb] assms(3) by (simp add: menu_sizes)
  have "built ((ys @ ?ds) @ zs) (fold menu_put zs (ui_menu_list ds l cb (fold menu_put ys (menu_dynamic_acquire s))))"
    using puts [OF b, of zs] assms(3) by (simp add: menu_sizes)
  then show "\<exists>xs out. f s = s\<lparr>menu_dynamic_buffer := menu_set_next A_back out\<rparr> \<and> built xs out \<and>
        0 < length xs \<and> length xs < MENU_BUTTON_MAX \<and> list_all leaf_item xs"
    using assms by (intro exI [of _ "(ys @ ?ds) @ zs"] exI) (auto simp: assms(1))
qed

lemmas built_descs = menu_power_desc_def menu_state_slots_desc_def menu_points_desc_def menu_marker_s11smith_desc_def
  menu_marker_s21smith_desc_def menu_bandwidth_desc_def menu_smooth_desc_def menu_marker_sel_desc_def

lemma builders_fine:
  "buildable menu_build_power_menu" "buildable menu_build_recall_menu" "buildable menu_build_save_menu"
  "buildable menu_build_points_menu" "buildable (menu_build_marker_smith_menu c)" "buildable menu_build_bandwidth_menu"
  "buildable menu_build_smooth_menu" "buildable menu_build_marker_select_menu"
  subgoal
    by (rule buildable_parts [where ds = "menu_power_desc" and l = "''%u m'' @ T_S_AMPER" and cb = menu_power_acb and ys = "[item MT_ADV_CALLBACK 0xFF (Some ''AUTO'') (Callback menu_power_acb)]" and zs = "[]",
        OF _ _ _ _ _ leaf_desc]) (simp_all add: menu_build_power_menu_def built_descs menu_sizes leaf_one)
  subgoal
    by (rule buildable_parts [where ds = "menu_state_slots_desc" and l = "''Empty %d''" and cb = menu_recall_acb and ys = "[]" and zs = "[]", OF _ _ _ _ _ leaf_desc])
      (simp_all add: menu_build_recall_menu_def built_descs menu_sizes)
  subgoal
    by (rule buildable_parts [where ds = "menu_state_slots_desc" and l = "''Empty %d''" and cb = menu_save_acb and ys = "[item MT_CALLBACK FMT_CAL_FILE (Some (''SAVE TO'' @ NL @ '' SD CARD'')) (Callback menu_sdcard_cb)]"
        and zs = "[]", OF _ _ _ _ _ leaf_desc]) (simp_all add: menu_build_save_menu_def built_descs menu_sizes leaf_one)
  subgoal
    by (rule buildable_parts [where ds = "menu_points_desc" and l = "''%d point''" and cb = menu_points_acb and ys = "[item MT_ADV_CALLBACK (km_data KM_POINTS) (Some (''SET POINTS'' @ NL @ '' '' @ T_R_LINK_COLOR @ ''%d''))
        (Callback menu_keyboard_acb)]" and zs = "[]", OF _ _ _ _ _ leaf_desc])
      (simp_all add: menu_build_points_menu_def built_descs menu_sizes leaf_one)
  subgoal
    by (rule buildable_parts [where ds = "if c = 0 then menu_marker_s11smith_desc else menu_marker_s21smith_desc" and l = "''%s''" and cb = menu_marker_smith_acb and ys = "[]" and zs = "[]", OF _ _ _ _ _ leaf_desc])
      (simp_all add: menu_build_marker_smith_menu_def built_descs menu_sizes)
  subgoal
    by (rule buildable_parts [where ds = "menu_bandwidth_desc" and l = "''%u '' @ T_S_Hz" and cb = menu_bandwidth_acb and ys = "[]" and zs = "[]", OF _ _ _ _ _ leaf_desc])
      (simp_all add: menu_build_bandwidth_menu_def built_descs menu_sizes)
  subgoal
    by (rule buildable_parts [where ds = "menu_smooth_desc" and l = "''x%d''" and cb = menu_smooth_acb and ys = "[item MT_ADV_CALLBACK VNA_MODE_SMOOTH (Some (''SMOOTH'' @ NL @ '' '' @ T_R_LINK_COLOR @ ''%s avg''))
        (Callback menu_vna_mode_acb), item MT_ADV_CALLBACK 0 (Some (''SMOOTH'' @ NL @ ''OFF'')) (Callback menu_smooth_acb)]"
        and zs = "[]", OF _ _ _ _ _ leaf_desc]) (simp_all add: menu_build_smooth_menu_def built_descs menu_sizes leaf_one)
  subgoal
    by (rule buildable_parts [where ds = "menu_marker_sel_desc" and l = "''MARKER %d''" and cb = menu_marker_sel_acb and ys = "[]" and zs = "[item MT_CALLBACK 0 (Some ''ALL OFF'') (Callback menu_marker_disable_all_cb),
        item MT_ADV_CALLBACK 0 (Some ''DELTA'') (Callback menu_marker_delta_acb)]", OF _ _ _ _ _ leaf_desc])
      (simp_all add: menu_build_marker_select_menu_def built_descs menu_sizes leaf_one)
  done

lemma menu_build_ok:
  assumes "menu_ok s" "menu_top_of_stack s = Some (a, 0)" "0 < menu_height a" "buildable f"
  shows "\<exists>s'. menu_push_submenu A_dynamic (f s) = Some s' \<and> menu_ok s' \<and> menu_current_level s' = menu_current_level s + 1 \<and>
    (\<forall>k \<le> menu_current_level s. menu_stack s' ! k = menu_stack s ! k)"
proof -
  obtain xs out where f: "f s = s\<lparr>menu_dynamic_buffer := menu_set_next A_back out\<rparr>" and b: "built xs out"
    "0 < length xs" "length xs < MENU_BUTTON_MAX" "list_all leaf_item xs"
    using assms(1,4) by (auto simp: buildable_def menu_ok_def)
  note fine = built_fine(1) [OF b, of s] built_fine(2) [OF b]
  have other: "array_fine (f s) c = array_fine s c" if "c \<noteq> A_dynamic" for c
    using that static_fine by simp
  have ok: "menu_ok (f s)"
    unfolding menu_ok_def
  proof (intro conjI allI impI)
    fix k assume "k \<le> menu_current_level (f s)"
    then obtain c where c: "menu_stack s ! k = Some (c, 0)" "k + menu_height c \<le> 4" "array_fine s c"
      using assms(1) by (auto simp: menu_ok_def f)
    have "array_fine (f s) c" using c(3) other fine(1) by (cases "c = A_dynamic") (simp_all add: f)
    then show "\<exists>c. menu_stack (f s) ! k = Some (c, 0) \<and> k + menu_height c \<le> 4 \<and> array_fine (f s) c"
      using c by (auto simp: f)
  qed (use assms(1) fine(2) in \<open>auto simp: menu_ok_def f\<close>)
  have "menu_top_of_stack (f s) = Some (a, 0)" using assms(2) by (simp add: f menu_top_of_stack_def)
  from menu_push_ok [OF ok this, of A_dynamic] show ?thesis using assms(3) fine(1) by (auto simp: f)
qed

section \<open>Invoking an item\<close>

lemma menu_ok_selection [simp]: "menu_ok s \<Longrightarrow> - 128 \<le> x \<Longrightarrow> x \<le> 127 \<Longrightarrow> menu_ok (s\<lparr>menu_selection := x\<rparr>)"
  by (simp add: menu_ok_def)

lemma measure_list_leaf:
  "menu_height (menu_measure_list k) = 0" "menu_measure_list k \<noteq> A_dynamic"
  "menu_measure_list k \<in> {A_measure, A_measure_lc, A_measure_s21, A_measure_filter, A_measure_cable, A_measure_resonance}"
  by (simp_all add: menu_measure_list_def)

text \<open>What a click may do to the stack: raise it by one menu, or leave all below the top alone.\<close>

definition stack_step :: "menu_state \<Rightarrow> menu_state \<Rightarrow> bool" where
  "stack_step s s' \<longleftrightarrow>
     (menu_current_level s' = menu_current_level s + 1 \<and> (\<forall>k \<le> menu_current_level s. menu_stack s' ! k = menu_stack s ! k)) \<or>
     menu_current_level s' \<le> menu_current_level s"

lemma call_ok:
  assumes "menu_ok s" "menu_top_of_stack s = Some (a, 0)" "item_fine a m" "mi_reference m = Callback cb"
  shows "\<exists>s'. menu_call e cb (mi_data m) s = Some s' \<and> menu_ok s' \<and> stack_step s s'"
proof -
  let ?ok = "\<lambda>r. \<exists>s'. r = Some s' \<and> menu_ok s' \<and> stack_step s s'"
  have returns: "\<exists>s'. menu_move_back l s = Some s' \<and> menu_ok s' \<and> stack_step s s'" for l
    using menu_back_ok [OF assms(1), of l] by (auto simp: stack_step_def)
  have caldone: "\<exists>s'. map_option (\<lambda>s. if c then menu_mode_normal s else s) (menu_move_back l s) = Some s' \<and> menu_ok s' \<and> stack_step s s'" for c l
    using returns [of l] by (cases c) (auto simp: menu_mode_normal_def stack_step_def)
  have build: "?ok (menu_push_submenu A_dynamic (f s))" if "buildable f" "0 < menu_height a" for f
    using menu_build_ok [OF assms(1,2) that(2,1)] by (auto simp: stack_step_def)
  have push: "?ok (menu_push_submenu b s)" if "b \<noteq> A_dynamic" "menu_height b < menu_height a" for b
    using menu_push_ok [OF assms(1,2) that(2) static_fine [OF that(1)]] by (auto simp: stack_step_def)
  have set: "?ok (menu_set_submenu (menu_measure_list k) s)" for k
    using menu_set_ok [OF assms(1) measure_list_leaf(2,1), of k] by (auto simp: stack_step_def)
  have meas: "?ok (menu_push_submenu (menu_measure_list k) s)" if "0 < menu_height a" for k
    using push [of "menu_measure_list k"] that measure_list_leaf [of k] by simp
  have same: "?ok (Some s)" "?ok (Some (menu_mode_normal s))" "?ok (Some (ui_open_keypad s))" "?ok (Some (s\<lparr>menu_ui_mode := u\<rparr>))"
    "?ok (Some (s\<lparr>menu_selection := calop_next d\<rparr>))" for u d
    using assms(1) by (auto simp: menu_mode_normal_def ui_open_keypad_def stack_step_def calop_next_def intro!: menu_ok_selection)
  have format: "?ok (menu_call e menu_format_acb (mi_data m) s)" if "cb = menu_format_acb"
    using assms(3,4) that build [OF builders_fine(5)] same(1) by (cases "mi_data m AND 0x7F = TRC_SMITH") (simp_all add: item_fine_def item_opens_def)
  show ?thesis
    using assms(3,4) build builders_fine push set meas same returns caldone format
    by (cases cb) (simp_all only: menu_call.simps, simp_all add: item_fine_def item_opens_def)
qed

lemma menu_back_item: "menu_items s A_back ! 0 = item MT_CALLBACK 0 (Some (T_S_LARROW @ '' BACK'')) (Callback menu_back_cb)"
  by (simp add: menu_items_static menu_back_def)

lemma invoke_ok:
  assumes "menu_ok s"
  shows "\<exists>s'. menu_invoke e i s = Some s' \<and> menu_ok s' \<and> stack_step s s'"
proof -
  obtain a n where a: "menu_top_of_stack s = Some (a, 0)" "items_ok (menu_items s a) n" "list_all (item_fine a) (take n (menu_items s a))"
    by (rule menu_ok_top [OF assms])
  have same: "stack_step s s" by (simp add: stack_step_def)
  have returns: "\<exists>s'. menu_move_back l s = Some s' \<and> menu_ok s' \<and> stack_step s s'" for l
    using menu_back_ok [OF assms, of l] by (auto simp: stack_step_def)
  show ?thesis
  proof (cases "i < n")
    case True
    let ?m = "menu_items s a ! i"
    have cur: "current_menu_item i s = Some (a, i)" using walk_inside [OF a(2) True] by (simp add: current_menu_item_def a(1))
    have "take n (menu_items s a) ! i \<in> set (take n (menu_items s a))"
      using True a(2) by (intro nth_mem) (simp add: items_ok_def)
    then have fine: "item_fine a ?m" using a(3) True by (simp add: list_all_iff)
    have sub: "\<exists>s'. menu_push_submenu b s = Some s' \<and> menu_ok s' \<and> stack_step s s'"
      if "mi_type ?m = MT_SUBMENU" "mi_reference ?m = Submenu b" for b
      using fine that menu_push_ok [OF assms a(1) _ static_fine] by (force simp: item_fine_def item_opens_def stack_step_def)
    show ?thesis
      using fine call_ok [OF assms a(1) fine] sub assms same
      by (cases "mi_type ?m"; cases "mi_reference ?m") (simp_all add: menu_invoke_def cur item_fine_def Let_def)
  next
    case False
    then have "current_menu_item i s = (if i = n \<and> mi_reference (menu_items s a ! n) = Submenu A_back then Some (A_back, 0) else None)"
      using walk_after [OF a(2)] by (simp add: current_menu_item_def a(1))
    then show ?thesis using returns [of False] assms same by (simp add: menu_invoke_def menu_back_item)
  qed
qed

section \<open>Reachable menus\<close>

lemma stack_reset_ok: "length (menu_dynamic_buffer s) = MENU_DYNAMIC_BUFFER_SIZE \<Longrightarrow> menu_ok (menu_stack_reset s)"
  by (simp add: menu_ok_def menu_stack_reset_def menu_sizes static_fine MENU_BUTTON_HEIGHT_def AREA_HEIGHT_NORMAL_def)

lemma lever_selection_range:
  assumes "- 128 \<le> x" "x \<le> 127"
  shows "- 128 \<le> lever_selection st x \<and> lever_selection st x \<le> 127"
proof -
  have range: "- 128 \<le> signed_take_bit 7 k" "signed_take_bit 7 k \<le> 127" for k :: int
    using signed_take_bit_int_greater_eq_minus_exp [of 7 k] signed_take_bit_int_less_exp [of 7 k] by simp_all
  show ?thesis using assms by (simp add: lever_selection_def Let_def range)
qed

lemma lever_loop_ok: "menu_ok s \<Longrightarrow> menu_lever_loop c st rs inp s = Some (inp', s') \<Longrightarrow> menu_ok s'"
proof (induction c st rs inp s arbitrary: inp' s' rule: menu_lever_loop.induct)
  case (1 c st rs inp s)
  let ?s = "s\<lparr>menu_selection := lever_selection st (menu_selection s)\<rparr>"
  have ok: "menu_ok ?s"
    using 1(2) lever_selection_range [of "menu_selection s" st] by (simp add: menu_ok_def)
  show ?case
    using 1(3) 1(1) [of ?s] ok by (subst (asm) menu_lever_loop.simps) (auto simp: Let_def menu_mode_normal_def split: if_splits option.splits)
qed

inductive menu_reachable :: "menu_state \<Rightarrow> bool" where
  reset: "length (menu_dynamic_buffer s) = MENU_DYNAMIC_BUFFER_SIZE \<Longrightarrow> menu_reachable (menu_stack_reset s)"
| opened: "menu_reachable s \<Longrightarrow> menu_reachable (ui_mode_menu s)"
| lever: "menu_reachable s \<Longrightarrow> ui_menu_lever e st rs inp s = Some (inp', s') \<Longrightarrow> menu_reachable s'"
| touch: "menu_reachable s \<Longrightarrow> ui_menu_touch e x y s = Some s' \<Longrightarrow> menu_reachable s'"
| keypad: "menu_reachable s \<Longrightarrow> - 1 \<le> x \<Longrightarrow> x < 40 \<Longrightarrow> menu_reachable (s\<lparr>menu_selection := x, menu_ui_mode := m\<rparr>)"

lemma reachable_ok: "menu_reachable s \<Longrightarrow> menu_ok s"
proof (induction rule: menu_reachable.induct)
  case (opened s)
  then show ?case by (simp add: ui_mode_menu_def)
next
  case (lever s e st rs inp inp' s')
  then show ?case
    using invoke_ok [OF lever(3), of e "nat (menu_selection s)"] lever_loop_ok
    by (auto simp: ui_menu_lever_def menu_mode_normal_def split: if_splits bind_splits)
next
  case (touch s e x y s')
  have "(\<exists>i. menu_invoke e i (s\<lparr>menu_selection := -1\<rparr>) = Some s') \<or> s' = menu_mode_normal s"
    using touch(2) by (auto simp: ui_menu_touch_def Let_def split: if_splits bind_splits)
  moreover have "menu_ok s'" if "menu_invoke e i (s\<lparr>menu_selection := -1\<rparr>) = Some s'" for i
    using invoke_ok [of "s\<lparr>menu_selection := -1\<rparr>" e i] touch(3) that by simp
  ultimately show ?case using touch(3) by (auto simp: menu_mode_normal_def)
qed (simp_all add: stack_reset_ok)

section \<open>Properties\<close>

definition menu_demo :: menu_state where
  "menu_demo = menu_stack_reset \<lparr>menu_stack = [], menu_current_level = 0, menu_selection = 0, menu_button_height = 0,
     menu_dynamic_buffer = replicate 64 (item MT_NEXT 0 None No_Reference), menu_ui_mode = UI_MENU\<rparr>"

lemma menu_demo_reachable: "menu_reachable menu_demo"
  unfolding menu_demo_def by (rule menu_reachable.reset) (simp add: menu_sizes)

text \<open>
  C15 However the menus are opened, scrolled with the lever, touched, left for a keypad
  and entered again, the top of the stack is a menu whose items end, at most as many as there are
  buttons, each of them an item that can be drawn and clicked; any click and any touch returns, and the
  height of a button, which a touch divides by, is not zero.
\<close>

theorem menu_navigation:
  assumes "menu_reachable s"
  shows "(\<exists>a. menu_top_of_stack s = Some (a, 0)) \<and> menu_current_level s < MENU_STACK_DEPTH_MAX \<and> 0 < menu_button_height s \<and>
    (\<exists>c. current_menu_get_count s = Some c \<and> 1 \<le> c \<and> c \<le> MENU_BUTTON_MAX \<and>
       (\<forall>i < c. \<exists>a k. current_menu_item i s = Some (a, k) \<and> k < length (menu_items s a) \<and> mi_type (menu_items s a ! k) \<noteq> MT_NEXT)) \<and>
    (\<forall>e i. menu_invoke e i s \<noteq> None) \<and> (\<forall>e x y. ui_menu_touch e x y s \<noteq> None)"
proof -
  note ok = reachable_ok [OF assms]
  obtain a n where a: "menu_top_of_stack s = Some (a, 0)" "items_ok (menu_items s a) n"
    "items_count (menu_items s a) n \<le> MENU_BUTTON_MAX" "current_menu_get_count s = Some (items_count (menu_items s a) n)"
    by (rule menu_ok_top [OF ok])
  have one: "1 \<le> items_count (menu_items s a) n" using a(2) by (simp add: items_count_def items_ok_def)
  have item: "\<exists>b k. current_menu_item i s = Some (b, k) \<and> k < length (menu_items s b) \<and> mi_type (menu_items s b ! k) \<noteq> MT_NEXT"
    if "i < items_count (menu_items s a) n" for i
  proof (cases "i < n")
    case True
    then have "take n (menu_items s a) ! i \<in> set (take n (menu_items s a))"
      using a(2) by (intro nth_mem) (simp add: items_ok_def)
    then show ?thesis
      using walk_inside [OF a(2) True] a(2) True by (auto simp: current_menu_item_def a(1) items_ok_def list_all_iff)
  next
    case False
    then have "i = n" "mi_reference (menu_items s a ! n) = Submenu A_back"
      using that by (auto simp: items_count_def split: if_splits)
    then show ?thesis
      using walk_after [OF a(2), of i] by (simp add: current_menu_item_def a(1) menu_items_static menu_back_def)
  qed
  have inv: "menu_invoke e i s \<noteq> None" for e i using invoke_ok [OF ok, of e i] by auto
  have touch: "ui_menu_touch e x y s \<noteq> None" for e x y
    using invoke_ok [OF menu_ok_selection [of s "-1"]] ok by (fastforce simp: ui_menu_touch_def a(4) Let_def)
  have "menu_current_level s < MENU_STACK_DEPTH_MAX" "0 < menu_button_height s" using ok by (auto simp: menu_ok_def)
  then show ?thesis using a(1,3,4) one item inv touch by blast
qed

theorem menu_navigation_witness: "\<exists>c. current_menu_get_count menu_demo = Some c \<and> 1 \<le> c \<and> c \<le> MENU_BUTTON_MAX"
  using menu_navigation [OF menu_demo_reachable] by blast

text \<open>
  C16 A click that opens a submenu, on any item and at any depth, is undone by going
  back: the level, the menu shown, its items and their number are those before the click. In
  particular the stack never overwrites its last entry, and the buffer of the menus built at run time is
  never in use for two of them.
\<close>

theorem menu_back_returns:
  assumes "menu_reachable s" "menu_invoke e i s = Some s'" "menu_current_level s < menu_current_level s'"
  shows "\<exists>t. menu_move_back leave s' = Some t \<and> menu_current_level t = menu_current_level s \<and>
    menu_top_of_stack t = menu_top_of_stack s \<and> current_menu_get_count t = current_menu_get_count s \<and>
    (\<forall>j. current_menu_item j t = current_menu_item j s) \<and>
    (\<forall>j a k. current_menu_item j s = Some (a, k) \<longrightarrow> menu_items t a ! k = menu_items s a ! k)"
proof -
  note ok = reachable_ok [OF assms(1)]
  have ok': "menu_ok s'" and step: "menu_current_level s' = menu_current_level s + 1"
    "\<forall>k \<le> menu_current_level s. menu_stack s' ! k = menu_stack s ! k"
    using invoke_ok [OF ok, of e i] assms(2,3) by (auto simp: stack_step_def)
  obtain t where t: "menu_move_back leave s' = Some t" "menu_ok t" "menu_current_level t = menu_current_level s"
    "menu_stack t = menu_stack s'" "menu_dynamic_buffer t = menu_dynamic_buffer s'"
    using menu_back_ok [OF ok', of leave] step by auto
  obtain a n where a: "menu_top_of_stack s = Some (a, 0)" "items_ok (menu_items s a) n"
    by (rule menu_ok_top [OF ok])
  have top: "menu_top_of_stack t = Some (a, 0)" using a(1) t step by (simp add: menu_top_of_stack_def)
  have "menu_stack s' ! menu_current_level s \<noteq> Some (A_dynamic, 0)" using ok' step by (simp add: menu_ok_def)
  then have d: "a \<noteq> A_dynamic" using top t step by (auto simp: menu_top_of_stack_def)
  have items: "menu_items t a = menu_items s a" "menu_items t A_back = menu_items s A_back"
    using d by (simp_all add: menu_items_static)
  have a': "items_ok (menu_items t a) n" using a(2) items by simp
  have cur: "current_menu_item j u =
      (if j < n then Some (a, j) else if j = n \<and> mi_reference (menu_items s a ! n) = Submenu A_back then Some (A_back, 0) else None)"
    if "menu_top_of_stack u = Some (a, 0)" "menu_items u a = menu_items s a" for j u
    using walk_inside [of u a n j] walk_after [of u a n j] that a(2) by (simp add: current_menu_item_def)
  have "current_menu_get_count t = current_menu_get_count s"
    using count_list [OF a(2)] count_list [OF a'] items by (simp add: current_menu_get_count_def top a(1))
  moreover have "menu_items t b ! k = menu_items s b ! k" if "current_menu_item j s = Some (b, k)" for j b k
    using that items by (auto simp: cur [OF a(1) refl] split: if_splits)
  ultimately show ?thesis using t top a(1) cur [OF a(1) refl] cur [OF top items(1)] by auto
qed

definition env_demo :: menu_env where
  "env_demo = \<lparr>env_trace = True, env_smith = False, env_scale = True, env_measure = 0, env_saved = True, env_marker = True,
     env_auto_name = False\<rparr>"

declare menu_count.simps [code]

lemma demo_opens: "map_option menu_current_level (menu_invoke env_demo 0 menu_demo) = Some 1"
  "menu_current_level menu_demo = 0"
  by code_simp+

theorem menu_back_returns_witness:
  "\<exists>s' t. menu_invoke env_demo 0 menu_demo = Some s' \<and> menu_move_back False s' = Some t \<and>
     menu_top_of_stack t = menu_top_of_stack menu_demo \<and> current_menu_get_count t = current_menu_get_count menu_demo"
proof -
  obtain s' where "menu_invoke env_demo 0 menu_demo = Some s'" "menu_current_level menu_demo < menu_current_level s'"
    using demo_opens by auto
  then show ?thesis using menu_back_returns [OF menu_demo_reachable, of env_demo 0 s' False] by auto
qed

text \<open>
  The selection is not put back when the lever runs off a menu: below its start it keeps counting down
  with every press that closes the menu, and as many presses up only close it again.
\<close>

lemma menu_selection_drifts:
  assumes "menu_reachable s" "- 128 < menu_selection s" "menu_selection s \<le> -1"
  shows "ui_menu_lever e EVT_DOWN rs inp s =
      Some (inp, s\<lparr>menu_selection := menu_selection s - 1, menu_ui_mode := UI_NORMAL\<rparr>)"
    and "menu_selection s < -1 \<Longrightarrow> ui_menu_lever e EVT_UP rs inp s =
      Some (inp, s\<lparr>menu_selection := menu_selection s + 1, menu_ui_mode := UI_NORMAL\<rparr>)"
proof -
  obtain a n where c: "items_ok (menu_items s a) n" "items_count (menu_items s a) n \<le> MENU_BUTTON_MAX"
    "current_menu_get_count s = Some (items_count (menu_items s a) n)"
    by (rule menu_ok_top [OF reachable_ok [OF assms(1)]])
  have out: "outside_menu k c" if "- 128 \<le> k" "k \<le> -1" "c \<le> 16" for k c
  proof -
    have "take_bit 16 k = (k + 65536) mod 65536" by (simp add: take_bit_eq_mod)
    also have "\<dots> = k + 65536" using that by (intro mod_pos_pos_trivial) simp_all
    finally show ?thesis using that by (simp add: outside_menu_def)
  qed
  have sb: "signed_take_bit 7 k = k" if "- 128 \<le> k" "k \<le> 127" for k :: int
    using that by (intro signed_take_bit_int_eq_self) simp_all
  have bits: "EVT_DOWN AND EVT_BUTTON_SINGLE_CLICK = 0" "EVT_DOWN AND EVT_UP = 0" "EVT_DOWN AND EVT_DOWN \<noteq> 0"
    "EVT_UP AND EVT_BUTTON_SINGLE_CLICK = 0" "EVT_UP AND EVT_UP \<noteq> 0" "EVT_UP AND EVT_DOWN = 0"
    by (simp_all add: EVT_DOWN_def EVT_UP_def EVT_BUTTON_SINGLE_CLICK_def)
  show "ui_menu_lever e EVT_DOWN rs inp s = Some (inp, s\<lparr>menu_selection := menu_selection s - 1, menu_ui_mode := UI_NORMAL\<rparr>)"
    using assms c(2) out [of "menu_selection s - 1"] sb [of "menu_selection s - 1"] bits
    by (simp add: ui_menu_lever_def c(3) menu_lever_loop.simps lever_selection_def Let_def menu_mode_normal_def menu_sizes)
  show "menu_selection s < -1 \<Longrightarrow> ui_menu_lever e EVT_UP rs inp s =
      Some (inp, s\<lparr>menu_selection := menu_selection s + 1, menu_ui_mode := UI_NORMAL\<rparr>)"
    using assms c(2) out [of "menu_selection s + 1"] sb [of "menu_selection s + 1"] bits
    by (simp add: ui_menu_lever_def c(3) menu_lever_loop.simps lever_selection_def Let_def menu_mode_normal_def menu_sizes)
qed

text \<open>Clicking an option goes round its list.\<close>

lemma option_index_nth: "distinct (map od_value ds) \<Longrightarrow> i < length ds \<Longrightarrow> option_index ds (od_value (ds ! i)) = i"
  by (induction ds arbitrary: i) (auto simp: nth_Cons split: nat.splits)

lemma ui_cycle_option_next:
  assumes "distinct (map od_value ds)" "i < length ds"
  shows "ui_cycle_option (od_value (ds ! i)) ds = od_value (ds ! (Suc i mod length ds))"
proof -
  have "length ds \<noteq> 0" using assms(2) by auto
  then show ?thesis
    using assms(2) by (simp add: ui_cycle_option_def option_selected_def option_index_nth [OF assms] Let_def)
qed

lemma ui_cycle_option_round:
  assumes "distinct (map od_value ds)" "i < length ds"
  shows "((\<lambda>v. ui_cycle_option v ds) ^^ k) (od_value (ds ! i)) = od_value (ds ! ((i + k) mod length ds))"
proof (induction k)
  case 0
  then show ?case using assms by simp
next
  case (Suc k)
  have "0 < length ds" using assms(2) by linarith
  then have "(i + k) mod length ds < length ds" by simp
  then show ?case using Suc ui_cycle_option_next [OF assms(1)] by (simp add: mod_Suc_eq)
qed

lemma options_distinct:
  "distinct (map od_value band_mode_options)" "distinct (map od_value transform_window_options)"
  "distinct (map od_value transform_state_options)"
  by (simp_all add: band_mode_options_def transform_window_options_def transform_state_options_def)

end
