(* ===== verification/Shell_Commands.thy ===== *)
theory Shell_Commands
  imports State_Manager Shell_Service Stimulus Calibration Menu_Tables
begin

text \<open>
  The commands of \<open>src/src/sys/shell_commands.c\<close>: how each one reads its arguments, which settings it
  changes and what it asks of other components, which is recorded in \<open>cl_calls\<close> in order, printed texts
  included. \<open>argv\<close> is the list of arguments; reading behind it is \<open>None\<close>. \<open>my_atof\<close> works on binary32 and
  is the parameter \<open>atof\<close>. The options are those of the F072 board.
\<close>

section \<open>State\<close>

datatype cli_call =
    C_Print string "arg list"
  | C_Set_Power u8
  | C_Set_Frequency u32
  | C_Set_Offset u32
  | C_Set_Tcxo u32
  | C_Pause
  | C_Console_Break
  | C_Sweep u16
  | C_Output u16 u16
  | C_Notify
  | C_Backup
  | C_Measure nat
  | C_Rtc_Time u32 u32
  | C_Rtc_Cal real
  | C_Cal_Collect nat
  | C_Cal_Done
  | C_Config_Save
  | C_Force_Save
  | C_Clear_All
  | C_Caldata_Save u32
  | C_Load_Properties u32
  | C_Smooth u8
  | C_Vna_Mode nat bool
  | C_Message_Box "string option" "string option" u32
  | C_Lever_Marker
  | C_Trace_Line nat
  | C_Enter_Dfu
  | C_System_Reset

record trace_setting =
  tr_enabled :: bool
  tr_type :: nat
  tr_channel :: nat

record cli =
  cl_stim :: stimulus
  cl_power :: u8
  cl_bandwidth :: u16
  cl_threshold :: u32
  cl_if_offset :: u32
  cl_sweep_mode :: u8
  cl_active_marker :: int
  cl_traces :: "trace_setting list"
  cl_edelay :: "real \<times> real"
  cl_s21_offset :: real
  cl_vbat_offset :: u16
  cl_palette :: "u16 list"
  cl_calls :: "cli_call list"

definition MODE_SWEEP_ENABLE :: u8 where "MODE_SWEEP_ENABLE = 1"
definition SWEEP_UI_MODE :: u8 where "SWEEP_UI_MODE = 0x80"
definition SWEEP_BINARY :: u8 where "SWEEP_BINARY = 8"
definition TRACES_MAX :: nat where "TRACES_MAX = 4"
definition CLI_SWEEP_POINTS_MAX :: u16 where "CLI_SWEEP_POINTS_MAX = 101"
definition MAX_BANDWIDTH :: nat where "MAX_BANDWIDTH = 192000 div 48"
definition MIN_BANDWIDTH :: nat where "MIN_BANDWIDTH = (192000 div 48) div 512 + 1"


definition cli_call :: "cli_call \<Rightarrow> cli \<Rightarrow> cli" where
  "cli_call c s = s\<lparr>cl_calls := cl_calls s @ [c]\<rparr>"

definition say :: "string \<Rightarrow> arg list \<Rightarrow> cli \<Rightarrow> cli" where
  "say fmt args s = cli_call (C_Print fmt args) s"

definition on_stim :: "(stimulus \<Rightarrow> stimulus) \<Rightarrow> cli \<Rightarrow> cli" where
  "on_stim f s = s\<lparr>cl_stim := f (cl_stim s)\<rparr>"

definition EOL :: string where "EOL = [CHR 0x0D, CHR 0x0A]"

section \<open>Power, offset, threshold, bandwidth\<close>

definition set_power :: "u8 \<Rightarrow> cli \<Rightarrow> cli" where
  "set_power value s =
     (let s = on_stim (request_to_redraw REDRAW_CAL_STATUS) s;
          value = (if value > 3 then 255 else value)
      in if cl_power s = value then s
         else let s = s\<lparr>cl_power := value\<rparr> in if cl_sweep_mode s AND MODE_SWEEP_ENABLE = 0 then cli_call (C_Set_Power value) s else s)"

definition cmd_power :: "string list \<Rightarrow> cli \<Rightarrow> cli" where
  "cmd_power argv s =
     (if length argv \<noteq> 1 then say (''usage: power {0-3}|{255 - auto}'' @ EOL @ ''power: %d'' @ EOL) [AInt (ucast (cl_power s))] s
      else if get_str_index (argv ! 0) ''auto'' = 0 then set_power 255 s
      else set_power (ucast (my_atoi (argv ! 0))) s)"

definition cmd_offset :: "string list \<Rightarrow> cli \<Rightarrow> cli" where
  "cmd_offset argv s =
     (if length argv \<noteq> 1
      then say (''usage: %s'' @ EOL @ ''current: %u'' @ EOL) [AStr (Some ''offset {frequency offset(Hz)}''), AInt (cl_if_offset s)] s
      else let requested = my_atoi (argv ! 0);
               clamped = clamp_if_offset requested;
               s = (if clamped \<noteq> requested then say (''offset clamped to %ld Hz'' @ EOL) [AInt clamped] s else s)
           in cli_call C_Notify (cli_call (C_Set_Offset clamped) (s\<lparr>cl_if_offset := clamped\<rparr>)))"


definition get_bandwidth_frequency :: "u16 \<Rightarrow> nat" where
  "get_bandwidth_frequency bw = (192000 div 48) div (unat bw + 1)"

definition cli_set_bandwidth :: "u16 \<Rightarrow> cli \<Rightarrow> cli" where
  "cli_set_bandwidth bw s =
     cli_call C_Backup (on_stim (request_to_redraw (REDRAW_BACKUP OR REDRAW_FREQUENCY)) (s\<lparr>cl_bandwidth := bw AND 0x1FF\<rparr>))"

definition bandwidth_word :: "u16 \<Rightarrow> u16" where
  "bandwidth_word f =
     (if unat f > MAX_BANDWIDTH then 0
      else if unat f < MIN_BANDWIDTH then 511
      else of_nat (((192000 + 48 div 2) div 48) div unat f) - 1)"

definition say_bandwidth :: "cli \<Rightarrow> cli" where
  "say_bandwidth s =
     say (''bandwidth %d (%uHz)'' @ EOL)
       [AInt (ucast (cl_bandwidth s)), AInt (of_nat (get_bandwidth_frequency (cl_bandwidth s)))] s"

definition cmd_bandwidth :: "string list \<Rightarrow> cli \<Rightarrow> cli" where
  "cmd_bandwidth argv s =
     (if length argv = 1 then say_bandwidth (cli_set_bandwidth (ucast (my_atoui (argv ! 0))) s)
      else if length argv = 2 then say_bandwidth (cli_set_bandwidth (bandwidth_word (ucast (my_atoui (argv ! 0)))) s)
      else say_bandwidth s)"

section \<open>The sweep\<close>

definition cli_pause_sweep :: "cli \<Rightarrow> cli" where
  "cli_pause_sweep s = cli_call C_Pause (s\<lparr>cl_sweep_mode := cl_sweep_mode s AND NOT MODE_SWEEP_ENABLE\<rparr>)"

definition cli_resume_sweep :: "cli \<Rightarrow> cli" where
  "cli_resume_sweep s = s\<lparr>cl_sweep_mode := cl_sweep_mode s OR MODE_SWEEP_ENABLE\<rparr>"

definition cmd_freq :: "string list \<Rightarrow> cli \<Rightarrow> cli" where
  "cmd_freq argv s =
     (if length argv \<noteq> 1 then say (''usage: freq {frequency(Hz)}'' @ EOL) [] s
      else let freq = my_atoui (argv ! 0) in
        if freq < 50000 \<or> freq > FREQUENCY_MAX
        then say (''error: frequency out of range (50kHz-2.7GHz): %lu Hz'' @ EOL) [AInt freq] s
        else cli_call (C_Set_Frequency freq) (cli_pause_sweep s))"

definition sweep_cmd :: string where "sweep_cmd = ''start|stop|center|span|cw|step|var''"

text \<open>The type with a number, in the order of the enumeration.\<close>

definition stimulus_types :: "stimulus_type list" where
  "stimulus_types = [ST_START, ST_STOP, ST_CENTER, ST_CW, ST_SPAN, ST_STEP, ST_VAR]"

definition sweep_usage :: "cli \<Rightarrow> cli" where
  "sweep_usage s =
     say (''usage: sweep {start(Hz)} [stop(Hz)] [points]'' @ EOL @ [CHR 0x09] @ ''sweep {%s} {freq(Hz)}'' @ EOL) [AStr (Some sweep_cmd)] s"

definition out_of_range :: "u32 \<Rightarrow> bool" where
  "out_of_range v \<longleftrightarrow> v < 50000 \<or> v > FREQUENCY_MAX"

definition cmd_sweep :: "string list \<Rightarrow> cli \<Rightarrow> cli" where
  "cmd_sweep argv s =
     (if length argv = 0
      then say (''%u %u %d'' @ EOL)
        [AInt (get_sweep_frequency ST_START (cl_stim s)), AInt (get_sweep_frequency ST_STOP (cl_stim s)),
         AInt (ucast (sweep_points (cl_stim s)))] s
      else if length argv > 3 then sweep_usage s
      else
        let value0 = my_atoui (argv ! 0);
            value1 = (if length argv \<ge> 2 then my_atoui (argv ! 1) else 0);
            value2 = (if length argv \<ge> 3 then my_atoui (argv ! 2) else 0)
        in if length argv = 2 \<and> value0 = 0 then
             let type = get_str_index (argv ! 0) sweep_cmd in
             if type = -1 then sweep_usage s
             else if out_of_range value1
             then say (''error: frequency out of range (50kHz-2.7GHz): %lu Hz'' @ EOL) [AInt value1] s
             else let t = stimulus_types ! nat type
                  in on_stim (set_sweep_frequency_internal t value1 (\<not> (t = ST_START \<or> t = ST_STOP))) s
           else if value0 \<noteq> 0 \<and> out_of_range value0
           then say (''error: start frequency out of range (50kHz-2.7GHz): %lu Hz'' @ EOL) [AInt value0] s
           else if value1 \<noteq> 0 \<and> out_of_range value1
           then say (''error: stop frequency out of range (50kHz-2.7GHz): %lu Hz'' @ EOL) [AInt value1] s
           else
             let s = (if value0 \<noteq> 0 then on_stim (set_sweep_frequency_internal ST_START value0 False) s else s);
                 s = (if value1 \<noteq> 0 then on_stim (set_sweep_frequency_internal ST_STOP value1 False) s else s)
             in if value2 \<noteq> 0 then on_stim (set_sweep_points CLI_SWEEP_POINTS_MAX (ucast value2)) s else s)"

definition SCAN_MASK_OUT_FREQ :: u16 where "SCAN_MASK_OUT_FREQ = 1"
definition SCAN_MASK_OUT_DATA0 :: u16 where "SCAN_MASK_OUT_DATA0 = 2"
definition SCAN_MASK_OUT_DATA1 :: u16 where "SCAN_MASK_OUT_DATA1 = 4"
definition SCAN_MASK_NO_CALIBRATION :: u16 where "SCAN_MASK_NO_CALIBRATION = 8"
definition SCAN_MASK_NO_EDELAY :: u16 where "SCAN_MASK_NO_EDELAY = 16"
definition SCAN_MASK_NO_S21OFFS :: u16 where "SCAN_MASK_NO_S21OFFS = 32"
definition SCAN_MASK_BINARY :: u16 where "SCAN_MASK_BINARY = 128"

text \<open>The channels and corrections of a scan: the flags of \<open>rf/sweep.h\<close>.\<close>

definition scan_channels :: "u32 \<Rightarrow> u32 \<Rightarrow> u16 \<Rightarrow> bool \<Rightarrow> u16 \<Rightarrow> cli \<Rightarrow> u16" where
  "scan_channels start stop points masked outmask s =
     (let ch = (if masked then drop_bit 1 outmask AND 3 else 3);
          ch = (if st_cal_status (cl_stim s) AND CALSTAT_APPLY \<noteq> 0 \<and> outmask AND SCAN_MASK_NO_CALIBRATION = 0 then ch OR 32 else ch);
          ch = (if fst (cl_edelay s) \<noteq> 0 \<and> outmask AND SCAN_MASK_NO_EDELAY = 0 then ch OR 4 else ch);
          ch = (if snd (cl_edelay s) \<noteq> 0 \<and> outmask AND SCAN_MASK_NO_EDELAY = 0 then ch OR 8 else ch);
          ch = (if cl_s21_offset s \<noteq> 0 \<and> outmask AND SCAN_MASK_NO_S21OFFS = 0 then ch OR 16 else ch)
      in if st_need_interpolate start stop points (cl_stim s) then ch OR 64 else ch)"

text \<open>The part of a scan behind the checks: \<open>restore\<close> tells whether the grid was changed.\<close>

definition scan_run :: "u32 \<Rightarrow> u32 \<Rightarrow> u16 \<Rightarrow> bool \<Rightarrow> u16 \<Rightarrow> bool \<Rightarrow> u16 \<Rightarrow> cli \<Rightarrow> cli" where
  "scan_run start stop points masked outmask restore original s =
     (let s = on_stim (\<lambda>t. t\<lparr>sweep_points := points\<rparr>) s;
          outmask = (if masked \<and> cl_sweep_mode s AND SWEEP_BINARY \<noteq> 0 then outmask OR SCAN_MASK_BINARY else outmask);
          s = s\<lparr>cl_sweep_mode := cl_sweep_mode s AND NOT SWEEP_BINARY\<rparr>;
          ch = scan_channels start stop points masked outmask s;
          s = on_stim (\<lambda>t. t\<lparr>st_plan := app_measurement_set_frequencies start stop points\<rparr>) s;
          s = (if ch AND 3 \<noteq> 0 then cli_call (C_Sweep ch) s else s);
          s = cli_pause_sweep s;
          s = (if outmask \<noteq> 0 then cli_call (C_Output outmask points) s else s);
          s = (if restore then on_stim (\<lambda>t. app_measurement_update_frequencies (t\<lparr>sweep_points := original\<rparr>)) s else s)
      in cli_resume_sweep s)"

definition cmd_scan :: "string list \<Rightarrow> cli \<Rightarrow> cli" where
  "cmd_scan argv s =
     (let original_start = get_sweep_frequency ST_START (cl_stim s);
          original_stop = get_sweep_frequency ST_STOP (cl_stim s);
          original_points = sweep_points (cl_stim s)
      in if length argv < 2 \<or> length argv > 4
         then say (''usage: scan {start(Hz)} {stop(Hz)} [points] [outmask]'' @ EOL) [] s
         else
           let start = my_atoui (argv ! 0); stop = my_atoui (argv ! 1) in
           if start = 0 \<or> stop = 0 \<or> start > stop \<or> start < 50000 \<or> stop > FREQUENCY_MAX then
             if start < 50000 \<or> start > FREQUENCY_MAX
             then say (''start frequency out of range (50kHz-2.7GHz): %lu Hz'' @ EOL) [AInt start] s
             else if stop < 50000 \<or> stop > FREQUENCY_MAX
             then say (''stop frequency out of range (50kHz-2.7GHz): %lu Hz'' @ EOL) [AInt stop] s
             else say (''frequency range is invalid'' @ EOL) [] s
           else
             let moved = (start \<noteq> original_start \<or> stop \<noteq> original_stop);
                 points = (if length argv \<ge> 3 then ucast (my_atoui (argv ! 2)) else original_points)
             in if length argv \<ge> 3 \<and> (points = 0 \<or> points > CLI_SWEEP_POINTS_MAX)
                then say (''sweep points exceeds range 101'' @ EOL) [] s
                else scan_run start stop points (length argv = 4) (if length argv = 4 then ucast (my_atoui (argv ! 3)) else 0)
                       (moved \<or> length argv \<ge> 3 \<and> points \<noteq> original_points) original_points s)"


text \<open>
  The text output of a scan: the formatted lines of the points, and what is in the buffer. \<open>line\<close>
  holds 64 characters; \<open>n\<close> is the length the line would have.
\<close>

fun scan_text :: "string list \<Rightarrow> string \<Rightarrow> string list" where
  "scan_text [] buffer = (if length buffer > 0 then [buffer] else [])"
| "scan_text (line # lines) buffer =
     (let n = length line in
      if length buffer + n \<ge> 256 then buffer # scan_text lines (if n > 0 \<and> n < 64 then line else [])
      else scan_text lines (if n > 0 \<and> n < 64 then buffer @ line else buffer))"




section \<open>Settings of the display\<close>


definition cmd_cal_list :: string where "cmd_cal_list = ''load|open|short|thru|isoln|done|on|off|reset''"






definition REDRAW_TRACE :: u16 where "REDRAW_TRACE = REDRAW_PLOT OR REDRAW_AREA OR REDRAW_MARKER"

definition set_trace_type :: "nat \<Rightarrow> nat \<Rightarrow> nat \<Rightarrow> cli \<Rightarrow> cli" where
  "set_trace_type t type channel s =
     (let tr = cl_traces s ! t in
      if tr_type tr = type \<and> tr_channel tr = channel then s
      else on_stim (request_to_redraw REDRAW_TRACE) (s\<lparr>cl_traces := (cl_traces s)[t := tr\<lparr>tr_type := type, tr_channel := channel\<rparr>]\<rparr>))"

definition set_trace_enable :: "nat \<Rightarrow> bool \<Rightarrow> cli \<Rightarrow> cli" where
  "set_trace_enable t enable s =
     (let tr = cl_traces s ! t in
      if tr_enabled tr = enable then s
      else on_stim (request_to_redraw REDRAW_TRACE) (s\<lparr>cl_traces := (cl_traces s)[t := tr\<lparr>tr_enabled := enable\<rparr>]\<rparr>))"

definition cmd_type_list :: string where
  "cmd_type_list = ''logmag|phase|delay|smith|polar|linear|swr|real|imag|r|x|z|zp|g|b|y|rp|xp|cs|ls|cp|lp|q|rser|xser|zser|rsh|xsh|zsh|q21''"

text \<open>With no argument the traces are listed (\<open>get_trace_typename\<close> and the floats of a line are left out).\<close>

definition cmd_trace :: "string list \<Rightarrow> cli \<Rightarrow> cli option" where
  "cmd_trace argv s =
     (if length argv = 0 then Some (fold (\<lambda>t s. if tr_enabled (cl_traces s ! t) then cli_call (C_Trace_Line t) s else s) [0..<TRACES_MAX] s)
      else
        let t = my_atoi (argv ! 0) in
        if t \<ge> of_nat TRACES_MAX then Some s
        else if length argv \<ge> 2 \<and> get_str_index (argv ! 1) ''off'' = 0 then Some (set_trace_enable (unat t) False s)
        else if length argv < 2 then None
        else let type = get_str_index (argv ! 1) cmd_type_list in
          if type \<ge> 0
          then Some (set_trace_enable (unat t) True (set_trace_type (unat t) (nat type) (tr_channel (cl_traces s ! unat t)) s))
          else Some s)"

definition cmd_marker_list :: string where "cmd_marker_list = ''on|off''"

definition enable_marker :: "nat \<Rightarrow> bool \<Rightarrow> cli \<Rightarrow> cli" where
  "enable_marker t enable s =
     on_stim (\<lambda>s. s\<lparr>markers := (markers s)[t := (markers s ! t)\<lparr>mk_enabled := enable\<rparr>]\<rparr>) s"

definition say_marker :: "nat \<Rightarrow> cli \<Rightarrow> cli" where
  "say_marker t s =
     (let m = markers (cl_stim s) ! t
      in say (''%d %d %u'' @ EOL) [AInt (of_nat (t + 1)), AInt (ucast (mk_index m)), AInt (mk_frequency m)] s)"

definition cmd_marker :: "string list \<Rightarrow> cli \<Rightarrow> cli" where
  "cmd_marker argv s =
     (if length argv = 0
      then fold (\<lambda>t s. if mk_enabled (markers (cl_stim s) ! t) then say_marker t s else s) [0..<MARKERS_MAX] s
      else
        let s = on_stim (request_to_redraw (REDRAW_MARKER OR REDRAW_AREA)) s; enable = get_str_index (argv ! 0) cmd_marker_list in
        if enable \<ge> 0
        then on_stim (\<lambda>t. t\<lparr>markers := map (\<lambda>m. m\<lparr>mk_enabled := (enable = 0)\<rparr>) (markers t)\<rparr>)
               (s\<lparr>cl_active_marker := (if enable = 1 then -1 else 0)\<rparr>)
        else
          let t = sint (my_atoi (argv ! 0) - 1) in
          if t < 0 \<or> t \<ge> int MARKERS_MAX then say (''marker [n] [%s|{index}]'' @ EOL) [AStr (Some cmd_marker_list)] s
          else if length argv = 1 then enable_marker (nat t) True ((say_marker (nat t) s)\<lparr>cl_active_marker := t\<rparr>)
          else
            let i = get_str_index (argv ! 1) cmd_marker_list in
            if i = 0 then (enable_marker (nat t) True s)\<lparr>cl_active_marker := t\<rparr>
            else if i = 1 then
              let s = enable_marker (nat t) False s in if cl_active_marker s = t then s\<lparr>cl_active_marker := -1\<rparr> else s
            else
              let s = enable_marker (nat t) True s; s = on_stim (set_marker_index (nat t) (sint (my_atoi (argv ! 1)))) s
              in s\<lparr>cl_active_marker := t\<rparr>)"

definition cmd_measure_list :: string where "cmd_measure_list = ''none|lc|lcshunt|lcseries|xtal|filter|cable|resonance''"


definition set_electrical_delay :: "nat \<Rightarrow> real \<Rightarrow> cli \<Rightarrow> cli" where
  "set_electrical_delay ch seconds s =
     (if (if ch = 0 then fst (cl_edelay s) else snd (cl_edelay s)) = seconds then s
      else on_stim (request_to_redraw REDRAW_MARKER)
        (s\<lparr>cl_edelay := (if ch = 0 then (seconds, snd (cl_edelay s)) else (fst (cl_edelay s), seconds))\<rparr>))"

definition cmd_edelay_list :: string where "cmd_edelay_list = ''s11|s21''"

definition cmd_edelay :: "(string \<Rightarrow> real) \<Rightarrow> string list \<Rightarrow> cli \<Rightarrow> cli" where
  "cmd_edelay atof argv s =
     (if length argv \<ge> 1 then
        let idx = get_str_index (argv ! 0) cmd_edelay_list in
        if idx = -1 then set_electrical_delay 0 (atof (argv ! 0) / 1000000000000) s
        else if length argv = 2 then set_electrical_delay (nat idx) (atof (argv ! 0) / 1000000000000) s
        else s
      else say (''%f'' @ EOL) [AFloat] s)"









section \<open>Other commands\<close>

text \<open>The bytes of the two BCD registers: \<open>tr\<close> holds seconds, minutes, hours, \<open>dr\<close> day, month, year.\<close>

definition set_byte :: "nat \<Rightarrow> u32 \<Rightarrow> u32 \<Rightarrow> u32" where
  "set_byte i b w = (w AND NOT (push_bit (8 * i) 0xFF)) OR push_bit (8 * i) (b AND 0xFF)"


definition time_byte :: "nat \<Rightarrow> u32 \<times> u32 \<Rightarrow> u32" where
  "time_byte i dt = (case dt of (tr, dr) \<Rightarrow> (if i < 4 then drop_bit (8 * i) tr else drop_bit (8 * (i - 4)) dr) AND 0xFF)"

definition set_time_byte :: "nat \<Rightarrow> u32 \<Rightarrow> u32 \<times> u32 \<Rightarrow> u32 \<times> u32" where
  "set_time_byte i b dt = (case dt of (tr, dr) \<Rightarrow> if i < 4 then (set_byte i b tr, dr) else (tr, set_byte (i - 4) b dr))"





definition cmd_mode_list :: string where "cmd_mode_list = ''auto|avg|mode|grid|dot|bk|separator''"



text \<open>The pixel format of the 16 bit displays, in the byte order of their bus.\<close>

definition RGBHEX :: "u32 \<Rightarrow> u32" where
  "RGBHEX hex = push_bit 3 (hex AND 0x001c00) OR push_bit 5 (hex AND 0x0000f8) OR drop_bit 16 (hex AND 0xf80000) OR
     drop_bit 13 (hex AND 0x00e000)"

definition HEXRGB :: "u32 \<Rightarrow> u32" where
  "HEXRGB hex = (drop_bit 3 hex AND 0x001c00) OR (drop_bit 5 hex AND 0x0000f8) OR (push_bit 16 hex AND 0xf80000) OR
     (push_bit 13 hex AND 0x00e000)"



section \<open>The table of commands\<close>

definition command_flags :: "(string \<times> u16) list" where
  "command_flags =
    [(''scan'', CMD_WAIT_MUTEX OR CMD_BREAK_SWEEP),
     (''scan_bin'', CMD_WAIT_MUTEX OR CMD_BREAK_SWEEP),
     (''data'', 0),
     (''frequencies'', 0),
     (''freq'', CMD_WAIT_MUTEX OR CMD_BREAK_SWEEP OR CMD_RUN_IN_UI OR CMD_RUN_IN_LOAD),
     (''sweep'', CMD_WAIT_MUTEX OR CMD_BREAK_SWEEP OR CMD_RUN_IN_UI OR CMD_RUN_IN_LOAD),
     (''power'', CMD_RUN_IN_LOAD),
     (''offset'', CMD_WAIT_MUTEX OR CMD_RUN_IN_UI OR CMD_RUN_IN_LOAD),
     (''bandwidth'', CMD_RUN_IN_LOAD),
     (''time'', CMD_RUN_IN_UI),
     (''saveconfig'', CMD_RUN_IN_LOAD),
     (''clearconfig'', CMD_RUN_IN_LOAD),
     (''sd_list'', CMD_WAIT_MUTEX OR CMD_BREAK_SWEEP OR CMD_RUN_IN_UI),
     (''sd_read'', CMD_WAIT_MUTEX OR CMD_BREAK_SWEEP OR CMD_RUN_IN_UI),
     (''sd_delete'', CMD_WAIT_MUTEX OR CMD_BREAK_SWEEP OR CMD_RUN_IN_UI),
     (''touchcal'', CMD_WAIT_MUTEX OR CMD_BREAK_SWEEP),
     (''touchtest'', CMD_WAIT_MUTEX OR CMD_BREAK_SWEEP),
     (''pause'', CMD_BREAK_SWEEP OR CMD_RUN_IN_UI OR CMD_RUN_IN_LOAD OR CMD_NO_AUTO_RESUME),
     (''resume'', CMD_WAIT_MUTEX OR CMD_BREAK_SWEEP OR CMD_RUN_IN_UI OR CMD_RUN_IN_LOAD OR CMD_NO_AUTO_RESUME),
     (''msg'', CMD_WAIT_MUTEX OR CMD_BREAK_SWEEP OR CMD_RUN_IN_LOAD),
     (''cal'', CMD_WAIT_MUTEX OR CMD_BREAK_SWEEP),
     (''save'', CMD_RUN_IN_LOAD),
     (''recall'', CMD_WAIT_MUTEX OR CMD_BREAK_SWEEP OR CMD_RUN_IN_UI OR CMD_RUN_IN_LOAD),
     (''trace'', CMD_RUN_IN_LOAD),
     (''marker'', CMD_RUN_IN_LOAD),
     (''edelay'', CMD_RUN_IN_LOAD),
     (''s21offset'', CMD_RUN_IN_LOAD),
     (''capture'', CMD_WAIT_MUTEX OR CMD_BREAK_SWEEP OR CMD_RUN_IN_UI),
     (''measure'', CMD_WAIT_MUTEX OR CMD_BREAK_SWEEP OR CMD_RUN_IN_UI OR CMD_RUN_IN_LOAD),
     (''vbat'', CMD_RUN_IN_LOAD),
     (''tcxo'', CMD_RUN_IN_LOAD),
     (''reset'', CMD_WAIT_MUTEX OR CMD_BREAK_SWEEP OR CMD_RUN_IN_LOAD OR CMD_NO_AUTO_RESUME),
     (''smooth'', CMD_WAIT_MUTEX OR CMD_BREAK_SWEEP OR CMD_RUN_IN_UI OR CMD_RUN_IN_LOAD),
     (''config'', CMD_WAIT_MUTEX OR CMD_BREAK_SWEEP OR CMD_RUN_IN_UI OR CMD_RUN_IN_LOAD),
     (''vbat_offset'', CMD_RUN_IN_LOAD),
     (''transform'', CMD_RUN_IN_LOAD),
     (''threshold'', CMD_RUN_IN_LOAD),
     (''help'', 0),
     (''info'', 0),
     (''version'', 0),
     (''color'', CMD_RUN_IN_LOAD)]"

text \<open>The function of an entry is its position.\<close>

definition commands :: "vna_shell_command list" where
  "commands = map (\<lambda>(i, name, flags). \<lparr>sc_name = name, sc_function = i, sc_flags = flags\<rparr>) (enumerate 0 command_flags)"


section \<open>Words and numbers\<close>

lemmas cli_defs = say_def cli_call_def on_stim_def

text \<open>
  The position of every word in its list is the number of the constant it stands for:
  measurements, trace types, display modes, standards. In the list of \<open>sweep\<close> two words are swapped:
  \<open>span\<close> selects \<open>ST_CW\<close> and \<open>cw\<close> selects \<open>ST_SPAN\<close>.
\<close>

theorem command_words:
  "map (\<lambda>w. get_str_index w cmd_measure_list)
     [''none'', ''lc'', ''lcshunt'', ''lcseries'', ''xtal'', ''filter'', ''cable'', ''resonance''] =
   map int [MEASURE_NONE, MEASURE_LC_MATH, MEASURE_SHUNT_LC, MEASURE_SERIES_LC, MEASURE_SERIES_XTAL, MEASURE_FILTER,
     MEASURE_S11_CABLE, MEASURE_S11_RESONANCE] \<and>
   map (\<lambda>w. get_str_index w cmd_type_list)
     [''logmag'', ''phase'', ''delay'', ''smith'', ''polar'', ''linear'', ''swr'', ''real'', ''imag'', ''r'', ''x'', ''z'', ''zp'', ''g'', ''b'',
      ''y'', ''rp'', ''xp'', ''cs'', ''ls'', ''cp'', ''lp'', ''q'', ''rser'', ''xser'', ''zser'', ''rsh'', ''xsh'', ''zsh'', ''q21''] =
   map int [TRC_LOGMAG, TRC_PHASE, TRC_DELAY, TRC_SMITH, TRC_POLAR, TRC_LINEAR, TRC_SWR, TRC_REAL, TRC_IMAG, TRC_R, TRC_X, TRC_Z,
     TRC_ZPHASE, TRC_G, TRC_B, TRC_Y, TRC_Rp, TRC_Xp, TRC_Cs, TRC_Ls, TRC_Cp, TRC_Lp, TRC_Q, TRC_Rser, TRC_Xser, TRC_Zser,
     TRC_Rsh, TRC_Xsh, TRC_Zsh, TRC_Qs21] \<and>
   map (\<lambda>w. get_str_index w cmd_mode_list) [''auto'', ''avg'', ''mode'', ''grid'', ''dot'', ''bk'', ''separator''] =
   map int [VNA_MODE_AUTO_NAME, VNA_MODE_SMOOTH, VNA_MODE_SEARCH, VNA_MODE_SHOW_GRID, VNA_MODE_DOT_GRID,
     MENU_VNA_MODE_BACKUP, VNA_MODE_SEPARATOR] \<and>
   map (\<lambda>w. get_str_index w cmd_cal_list) [''load'', ''open'', ''short'', ''thru'', ''isoln''] =
   map int [MENU_CAL_LOAD, MENU_CAL_OPEN, MENU_CAL_SHORT, MENU_CAL_THRU, MENU_CAL_ISOLN] \<and>
   map (\<lambda>w. stimulus_types ! nat (get_str_index w sweep_cmd)) [''start'', ''stop'', ''center'', ''span'', ''cw'', ''step'', ''var''] =
   [ST_START, ST_STOP, ST_CENTER, ST_CW, ST_SPAN, ST_STEP, ST_VAR]"
  by (intro conjI) code_simp+

text \<open>
  C35 \<open>sweep span F\<close> asks for a single frequency \<open>F\<close>, and \<open>sweep cw F\<close> for a span of
  \<open>F\<close> around the centre: the words of the command are in another order than the enumeration. Spans,
  steps and jog steps below 50 kHz are refused.
\<close>

theorem sweep_span_sets_cw:
  assumes "\<not> out_of_range (my_atoui f)"
  shows "cmd_sweep [''span'', f] s = on_stim (set_sweep_frequency_internal ST_CW (my_atoui f) True) s \<and>
    cmd_sweep [''cw'', f] s = on_stim (set_sweep_frequency_internal ST_SPAN (my_atoui f) True) s"
proof -
  have i: "my_atoui ''span'' = 0" "my_atoui ''cw'' = 0" "get_str_index ''span'' sweep_cmd = 3" "get_str_index ''cw'' sweep_cmd = 4"
    by code_simp+
  show ?thesis using assms by (simp add: cmd_sweep_def i stimulus_types_def)
qed

theorem sweep_span_sets_cw_witness:
  "\<forall>s. cmd_sweep [''span'', ''1000000''] s = on_stim (set_sweep_frequency_internal ST_CW 1000000 True) s"
proof
  fix s
  have v: "my_atoui ''1000000'' = 1000000" by code_simp
  then have "\<not> out_of_range (my_atoui ''1000000'')" by (simp add: out_of_range_def st_limits)
  from sweep_span_sets_cw [OF this, of s]
  show "cmd_sweep [''span'', ''1000000''] s = on_stim (set_sweep_frequency_internal ST_CW 1000000 True) s" by (simp add: v)
qed

text \<open>
  Every command of the table is found under its name, with its own function and
  flags, whatever its position.
\<close>

theorem commands_found: "\<forall>i < length commands. find_command commands (sc_name (commands ! i)) = Some (commands ! i)"
proof -
  have "list_all (\<lambda>c. find_command commands (sc_name c) = Some c) commands" by code_simp
  then show ?thesis by (simp add: list_all_length)
qed

text \<open>
  C34 A bandwidth in hertz, between 8 and 4000, selects the narrowest filter that is not
  narrower, and the register keeps the number.
\<close>

lemma div_narrowest:
  fixes f :: nat
  assumes "0 < f" "f \<le> 4000"
  shows "f \<le> 4000 div (4000 div f)" "4000 div (4000 div f + 1) < f"
proof -
  have k: "0 < 4000 div f" using assms by (simp add: div_greater_zero_iff)
  show "f \<le> 4000 div (4000 div f)" using k by (simp add: less_eq_div_iff_mult_less_eq)
  have "4000 < f * (4000 div f + 1)" using assms(1) dividend_less_times_div [of f 4000] by simp
  then show "4000 div (4000 div f + 1) < f" by (simp add: div_less_iff_less_mult)
qed

theorem bandwidth_command:
  assumes "unat (my_atoui f) \<le> 4000" "8 \<le> unat (my_atoui f)"
  shows "cl_bandwidth (cmd_bandwidth [f, x] s) = bandwidth_word (ucast (my_atoui f)) \<and>
    (let bw = cl_bandwidth (cmd_bandwidth [f, x] s)
     in unat bw < 512 \<and> unat (my_atoui f) \<le> get_bandwidth_frequency bw \<and> get_bandwidth_frequency (bw + 1) < unat (my_atoui f))"
proof -
  define v where "v = unat (my_atoui f)"
  have v: "8 \<le> v" "v \<le> 4000" using assms by (simp_all add: v_def)
  have u: "unat (ucast (my_atoui f) :: u16) = v"
    using v by (simp add: unsigned_ucast_eq take_bit_nat_eq_self v_def)
  define k where "k = 4000 div v"
  have "4000 div v \<le> 4000 div 8" "4000 div 4000 \<le> 4000 div v" using v by (intro div_le_mono2; simp)+
  then have k: "1 \<le> k" "k \<le> 500" by (simp_all add: k_def)
  obtain j where j: "k = Suc j" using k(1) by (cases k) simp_all
  have w: "bandwidth_word (ucast (my_atoui f)) = of_nat j"
    using v by (simp add: bandwidth_word_def u MAX_BANDWIDTH_def MIN_BANDWIDTH_def k_def [symmetric] j)
  have un: "unat (of_nat j :: u16) = j" using k by (simp add: unat_of_nat j)
  have un1: "unat (of_nat j + 1 :: u16) = k" using k un by (simp add: unat_word_ariths j)
  have "of_nat j AND (0x1FF :: u16) = take_bit 9 (of_nat j)" by (simp add: take_bit_eq_mask mask_numeral)
  also have "\<dots> = of_nat j"
    using k by (simp add: word_unat_eq_iff unsigned_take_bit_eq un j take_bit_nat_eq_self)
  finally have b: "cl_bandwidth (cmd_bandwidth [f, x] s) = of_nat j"
    by (simp add: cmd_bandwidth_def say_bandwidth_def cli_set_bandwidth_def cli_defs w)
  show ?thesis
    using k un un1 div_narrowest [of v] v by (simp add: b w Let_def get_bandwidth_frequency_def v_def [symmetric] k_def [symmetric] j)
qed

theorem bandwidth_command_witness:
  "\<forall>s. cl_bandwidth (cmd_bandwidth [''100'', ''Hz''] s) = 39 \<and> get_bandwidth_frequency 39 = 100"
proof
  fix s
  have v: "my_atoui ''100'' = 100" by code_simp
  have w: "bandwidth_word 100 = 39" by (simp add: bandwidth_word_def MAX_BANDWIDTH_def MIN_BANDWIDTH_def)
  have "unat (my_atoui ''100'') \<le> 4000" "8 \<le> unat (my_atoui ''100'')" by (simp_all add: v)
  from bandwidth_command [OF this, of "''Hz''" s]
  show "cl_bandwidth (cmd_bandwidth [''100'', ''Hz''] s) = 39 \<and> get_bandwidth_frequency 39 = 100"
    by (simp add: v w get_bandwidth_frequency_def)
qed

text \<open>The argument is cut to 16 bits first: 65636 Hz, far above the widest filter, selects the one of 100 Hz.\<close>

lemma bandwidth_wraps: "bandwidth_word (ucast (my_atoui ''65636'')) = bandwidth_word 100"
proof -
  have "my_atoui ''65636'' = 65636" by code_simp
  then show ?thesis by (simp add: bandwidth_word_def MAX_BANDWIDTH_def MIN_BANDWIDTH_def)
qed

text \<open>The power is cut to 8 bits: 257 selects the strength with the number 1.\<close>

lemma power_wraps: "cmd_power [''257''] s = set_power 1 s"
proof -
  have "get_str_index ''257'' ''auto'' = -1" "ucast (my_atoi ''257'') = (1 :: u8)" by code_simp+
  then show ?thesis by (simp add: cmd_power_def)
qed

section \<open>What the commands keep\<close>

lemma set_sweep_points_range [simp]: "range_ok (set_sweep_points m p s) = range_ok s"
  by (simp add: set_sweep_points_def refresh_range_def range_ok_def sweep_get_ordered_def set_interpolated_def request_to_redraw_def
      st_call_def Let_def split: prod.splits)

lemma stim_say [simp]: "cl_stim (say f a s) = cl_stim s" "cl_stim (cli_call c s) = cl_stim s" "cl_stim (on_stim g s) = g (cl_stim s)"
  by (simp_all add: cli_defs)

lemma sweep_word:
  "get_str_index w sweep_cmd =
    (if w = ''start'' then 0 else if w = ''stop'' then 1 else if w = ''center'' then 2 else if w = ''span'' then 3
     else if w = ''cw'' then 4 else if w = ''step'' then 5 else if w = ''var'' then 6 else -1)"
proof -
  have "split_bar sweep_cmd = [''start'', ''stop'', ''center'', ''span'', ''cw'', ''step'', ''var'']" by code_simp
  then show ?thesis by (simp add: get_str_index_correct)
qed

text \<open>
  Whatever the arguments of \<open>sweep\<close>, both ends of the range stay inside the
  instrument; a step is excepted, and the largest spans, which the word \<open>cw\<close> sets.
\<close>

theorem sweep_command_range:
  assumes "range_ok (cl_stim s)"
    "length argv = 2 \<Longrightarrow> argv ! 0 \<noteq> ''step'' \<and> (argv ! 0 = ''cw'' \<longrightarrow> unat (my_atoui (argv ! 1)) \<le> 2699999400)"
  shows "range_ok (cl_stim (cmd_sweep argv s))"
proof -
  have keep: "range_ok (set_sweep_frequency_internal t f e u)"
    if "range_ok u" "t \<in> {ST_START, ST_STOP, ST_CENTER, ST_CW, ST_VAR} \<or> t = ST_SPAN \<and> unat f \<le> 2699999400" for t f e u
    using range_kept [OF that] by blast
  show ?thesis
  proof (cases "length argv = 2 \<and> my_atoui (argv ! 0) = 0")
    case True
    then show ?thesis
      using assms by (auto simp: cmd_sweep_def sweep_word sweep_usage_def stimulus_types_def Let_def intro!: keep)
  next
    case False
    then show ?thesis
      using assms(1) by (auto simp: cmd_sweep_def sweep_usage_def Let_def intro!: keep)
  qed
qed

definition cli_demo :: cli where
  "cli_demo = \<lparr>cl_stim = st_demo, cl_power = 255, cl_bandwidth = 1, cl_threshold = 300000100, cl_if_offset = 12000, cl_sweep_mode = 1,
     cl_active_marker = 0, cl_traces = replicate 4 \<lparr>tr_enabled = True, tr_type = 0, tr_channel = 0\<rparr>, cl_edelay = (0, 0), cl_s21_offset = 0,
     cl_vbat_offset = 500, cl_palette = replicate 32 0, cl_calls = []\<rparr>"

theorem sweep_command_range_witness: "range_ok (cl_stim (cmd_sweep [''100000'', ''2700000000'', ''51''] cli_demo))"
  by (rule sweep_command_range) (simp_all add: cli_demo_def st_demo_def range_ok_def st_limits)

lemma marker_pass_modes: "props_mode (marker_pass a b n m s) = props_mode s \<and> var_freq (marker_pass a b n m s) = var_freq s"
  by (simp add: marker_pass_def set_marker_index_def st_call_def request_to_redraw_def Let_def)

lemma update_marker_modes:
  "props_mode (update_marker_index a b n s) = props_mode s \<and> var_freq (update_marker_index a b n s) = var_freq s"
proof -
  have "props_mode (fold (marker_pass a b n) ms s) = props_mode s \<and> var_freq (fold (marker_pass a b n) ms s) = var_freq s" for b ms
    by (induction ms arbitrary: s) (simp_all add: marker_pass_modes)
  then show ?thesis unfolding update_marker_index_def Let_def by blast
qed

definition plan_of :: "stimulus \<Rightarrow> frequency_plan" where
  "plan_of s = app_measurement_set_frequencies (get_sweep_frequency ST_START s) (get_sweep_frequency ST_STOP s) (sweep_points s)"

lemma update_plan:
  "st_plan (app_measurement_update_frequencies s) = plan_of s"
  "props_mode (app_measurement_update_frequencies s) = props_mode s"
  by (auto simp: app_measurement_update_frequencies_def sweep_get_ordered_def get_sweep_frequency_def plan_of_def
      update_marker_modes set_interpolated_def request_to_redraw_def st_call_def Let_def)

lemma resume_enables: "cl_sweep_mode (cli_resume_sweep s) AND MODE_SWEEP_ENABLE \<noteq> 0"
proof -
  have "bit ((cl_sweep_mode s OR 1) AND 1) 0" by (simp add: bit_simps)
  then show ?thesis by (auto simp: cli_resume_sweep_def MODE_SWEEP_ENABLE_def)
qed

lemma scan_run_stim:
  "cl_stim (scan_run start stop points masked outmask restore original s) =
    (let t = (cl_stim s)\<lparr>sweep_points := points, st_plan := app_measurement_set_frequencies start stop points\<rparr>
     in if restore then app_measurement_update_frequencies (t\<lparr>sweep_points := original\<rparr>) else t)"
  by (simp add: scan_run_def cli_resume_sweep_def cli_pause_sweep_def cli_defs Let_def)

definition scan_ends :: "cli \<Rightarrow> cli \<Rightarrow> bool" where
  "scan_ends s s' = ((\<exists>f a. s' = say f a s) \<or>
     (\<exists>a b p m k r. s' = scan_run a b p m k r (sweep_points (cl_stim s)) s \<and>
       (r \<or> a = get_sweep_frequency ST_START (cl_stim s) \<and> b = get_sweep_frequency ST_STOP (cl_stim s) \<and>
            p = sweep_points (cl_stim s))))"

lemma scan_ends_intros:
  "scan_ends s (say f args s)"
  "(\<not> r \<Longrightarrow> a = get_sweep_frequency ST_START (cl_stim s) \<and> b = get_sweep_frequency ST_STOP (cl_stim s) \<and> p = sweep_points (cl_stim s))
    \<Longrightarrow> scan_ends s (scan_run a b p m k r (sweep_points (cl_stim s)) s)"
  "(c \<Longrightarrow> scan_ends s x) \<Longrightarrow> (\<not> c \<Longrightarrow> scan_ends s y) \<Longrightarrow> scan_ends s (if c then x else y)"
  subgoal by (auto simp: scan_ends_def)
  subgoal unfolding scan_ends_def by blast
  subgoal by simp
  done

lemma cmd_scan_ends: "scan_ends s (cmd_scan argv s)"
  unfolding cmd_scan_def Let_def by (rule scan_ends_intros | simp)+

text \<open>
  C31 A scan leaves the settings alone: the range, the number of points and the modes are those
  of before, whatever its arguments, and so is the grid, as long as it was the one of these settings. What
  it does not restore is a pause: behind the checks the sweep always goes on.
\<close>

theorem scan_restores:
  assumes "st_plan (cl_stim s) = plan_of (cl_stim s)"
  shows "let s' = cmd_scan argv s in
    frequency0 (cl_stim s') = frequency0 (cl_stim s) \<and> frequency1 (cl_stim s') = frequency1 (cl_stim s) \<and>
    sweep_points (cl_stim s') = sweep_points (cl_stim s) \<and> props_mode (cl_stim s') = props_mode (cl_stim s) \<and>
    st_plan (cl_stim s') = st_plan (cl_stim s) \<and>
    (cl_sweep_mode s' AND MODE_SWEEP_ENABLE \<noteq> 0 \<or> cl_sweep_mode s' = cl_sweep_mode s \<and> cl_stim s' = cl_stim s)"
proof -
  let ?t = "cl_stim s"
  have same: "cl_sweep_mode (say f a s) = cl_sweep_mode s" for f a by (simp add: cli_defs)
  have mode: "cl_sweep_mode (scan_run a b p m k r q s) AND MODE_SWEEP_ENABLE \<noteq> 0" for a b p m k r q
    by (simp only: scan_run_def Let_def resume_enables not_False_eq_True)
  have moved: "plan_of (?t\<lparr>sweep_points := sweep_points ?t, st_plan := pl\<rparr>) = plan_of ?t" for pl
    by (simp add: plan_of_def get_sweep_frequency_def)
  consider (error) f a where "cmd_scan argv s = say f a s"
    | (run) a b p m k r where "cmd_scan argv s = scan_run a b p m k r (sweep_points ?t) s"
        "r \<or> a = get_sweep_frequency ST_START ?t \<and> b = get_sweep_frequency ST_STOP ?t \<and> p = sweep_points ?t"
    using cmd_scan_ends [of s argv] unfolding scan_ends_def by blast
  then show ?thesis
  proof cases
    case error
    then show ?thesis by (simp add: same)
  next
    case run
    then show ?thesis
      using mode [of a b p m k r "sweep_points ?t"] assms moved
      by (cases r) (auto simp: Let_def scan_run_stim update_plan plan_of_def)
  qed
qed

theorem scan_restores_witness: "sweep_points (cl_stim (cmd_scan [''100000'', ''200000'', ''51''] cli_demo)) = 101"
proof -
  have "st_plan (cl_stim cli_demo) = plan_of (cl_stim cli_demo)" "sweep_points (cl_stim cli_demo) = 101"
    by (simp_all add: cli_demo_def st_demo_def plan_of_def get_sweep_frequency_def)
  then show ?thesis using scan_restores [of cli_demo "[''100000'', ''200000'', ''51'']"] by (simp add: Let_def)
qed

text \<open>
  The text of a scan is written in pieces of at most 255 characters that fit the buffer,
  and together they are the lines in order. A line of 64 characters or more is left out without a trace,
  and four negative values behind a frequency of ten digits make such a line.
\<close>

theorem scan_text_writes:
  assumes "length buffer < 256"
  shows "concat (scan_text lines buffer) = buffer @ concat (filter (\<lambda>l. length l < 64) lines) \<and>
    (\<forall>w \<in> set (scan_text lines buffer). length w < 256)"
  using assms
proof (induction lines arbitrary: buffer)
    case (Cons line lines)
    define next_line where "next_line = (if 0 < length line \<and> length line < 64 then line else [])"
    have n: "(if length line < 64 then line else []) = next_line" "length next_line < 64" by (simp_all add: next_line_def)
    have step: "scan_text (line # lines) buffer =
        (if length buffer + length line \<ge> 256 then buffer # scan_text lines next_line else scan_text lines (buffer @ next_line))"
      by (simp add: Let_def next_line_def)
    have lines: "concat (filter (\<lambda>l. length l < 64) (line # lines)) = next_line @ concat (filter (\<lambda>l. length l < 64) lines)"
      by (simp add: next_line_def)
    show ?case
    proof (cases "length buffer + length line \<ge> 256")
      case True
      then show ?thesis using Cons.prems Cons.IH [of next_line] n(2) unfolding step lines by simp
    next
      case False
      then have "length (buffer @ next_line) < 256" using n(2) by (auto simp: next_line_def)
      then show ?thesis using False Cons.IH [of "buffer @ next_line"] unfolding step lines by simp
    qed
qed auto

section \<open>Running a line\<close>

text \<open>
  \<open>vna_shell_execute_line\<close> on a command that was found, its function \<open>f\<close> on its arguments, and, where the
  command waits for the sweep thread, the round of \<open>shell_service_pending_commands\<close> that runs it. \<open>flags\<close>
  are those of the table.
\<close>

definition run_deferred :: "u16 \<Rightarrow> bool \<Rightarrow> (cli \<Rightarrow> cli) \<Rightarrow> cli \<Rightarrow> cli" where
  "run_deferred flags auto_resume f s =
     (let s = (if flags AND CMD_BREAK_SWEEP \<noteq> 0 \<or> flags AND CMD_WAIT_MUTEX \<noteq> 0 then cli_pause_sweep s else s);
          s = f s
      in if auto_resume \<and> flags AND CMD_NO_AUTO_RESUME = 0 then cli_resume_sweep s else s)"

definition execute_line :: "u16 \<Rightarrow> (cli \<Rightarrow> cli) \<Rightarrow> cli \<Rightarrow> cli" where
  "execute_line flags f s =
     (let cmd_flag = (if flags AND CMD_RUN_IN_UI \<noteq> 0 \<and> cl_sweep_mode s AND SWEEP_UI_MODE \<noteq> 0
                      then flags AND NOT CMD_WAIT_MUTEX else flags);
          auto_resume = (cmd_flag AND CMD_BREAK_SWEEP \<noteq> 0 \<and> cl_sweep_mode s AND MODE_SWEEP_ENABLE \<noteq> 0);
          s = (if cmd_flag AND CMD_BREAK_SWEEP \<noteq> 0 then cli_pause_sweep (cli_call C_Console_Break s) else s)
      in if cmd_flag AND CMD_WAIT_MUTEX \<noteq> 0 then run_deferred flags auto_resume f s
         else let s = f s
              in if auto_resume \<and> cmd_flag AND CMD_NO_AUTO_RESUME = 0 then cli_resume_sweep s else s)"

definition sweeping :: "cli \<Rightarrow> bool" where
  "sweeping s = (cl_sweep_mode s AND MODE_SWEEP_ENABLE \<noteq> 0)"

lemma sweeping_simps [simp]:
  "sweeping (cli_resume_sweep s)" "\<not> sweeping (cli_pause_sweep s)" "sweeping (cli_call c s) = sweeping s" "sweeping (say f a s) = sweeping s"
  "sweeping (on_stim g s) = sweeping s" "sweeping (s\<lparr>cl_if_offset := x\<rparr>) = sweeping s"
proof -
  show "sweeping (cli_resume_sweep s)" using resume_enables by (simp add: sweeping_def)
  have "(cl_sweep_mode s AND NOT 1) AND 1 = 0" by (simp add: and.assoc)
  then show "\<not> sweeping (cli_pause_sweep s)" by (simp add: sweeping_def cli_pause_sweep_def cli_call_def MODE_SWEEP_ENABLE_def)
qed (simp_all add: sweeping_def cli_defs)



lemma sweeping_fields [simp]:
  "sweeping (s\<lparr>cl_if_offset := o'\<rparr>) = sweeping s" "sweeping (s\<lparr>cl_threshold := v\<rparr>) = sweeping s" "sweeping (s\<lparr>cl_bandwidth := w\<rparr>) = sweeping s"
  "sweeping (s\<lparr>cl_power := p\<rparr>) = sweeping s" "sweeping (s\<lparr>cl_active_marker := m\<rparr>) = sweeping s" "sweeping (s\<lparr>cl_edelay := e\<rparr>) = sweeping s"
  "sweeping (s\<lparr>cl_s21_offset := r\<rparr>) = sweeping s" "sweeping (s\<lparr>cl_vbat_offset := w\<rparr>) = sweeping s" "sweeping (s\<lparr>cl_palette := ws\<rparr>) = sweeping s"
  by (simp_all add: sweeping_def)















text \<open>
  A valid \<open>offset\<close> stops a running sweep and does not start it again, unless a menu
  is open.
\<close>

theorem offset_stops_sweep:
  assumes "cl_sweep_mode s AND SWEEP_UI_MODE = 0"
  shows "\<not> sweeping (execute_line (CMD_WAIT_MUTEX OR CMD_RUN_IN_UI OR CMD_RUN_IN_LOAD) (cmd_offset [arg]) s)"
  using assms by (simp add: execute_line_def run_deferred_def cmd_offset_def CMD_WAIT_MUTEX_def CMD_BREAK_SWEEP_def CMD_RUN_IN_UI_def
      CMD_RUN_IN_LOAD_def CMD_NO_AUTO_RESUME_def Let_def)

theorem offset_stops_sweep_witness:
  "sweeping cli_demo \<and> \<not> sweeping (execute_line (CMD_WAIT_MUTEX OR CMD_RUN_IN_UI OR CMD_RUN_IN_LOAD) (cmd_offset [''5000'']) cli_demo)"
proof -
  have "cl_sweep_mode cli_demo AND SWEEP_UI_MODE = 0" "sweeping cli_demo"
    by (simp_all add: cli_demo_def SWEEP_UI_MODE_def sweeping_def MODE_SWEEP_ENABLE_def)
  with offset_stops_sweep [of cli_demo "''5000''"] show ?thesis by simp
qed

text \<open>So the frequency that \<open>freq\<close> set is lost at once: the line starts the sweep it has stopped.\<close>

lemma freq_resumed:
  "sweeping s \<Longrightarrow> sweeping (execute_line (CMD_WAIT_MUTEX OR CMD_BREAK_SWEEP OR CMD_RUN_IN_UI OR CMD_RUN_IN_LOAD) (cmd_freq argv) s)"
  by (simp add: execute_line_def run_deferred_def CMD_WAIT_MUTEX_def CMD_BREAK_SWEEP_def CMD_RUN_IN_UI_def
      CMD_RUN_IN_LOAD_def CMD_NO_AUTO_RESUME_def Let_def sweeping_def [symmetric])

section \<open>Markers and colours\<close>

definition marker_ok :: "cli \<Rightarrow> bool" where
  "marker_ok s = (length (markers (cl_stim s)) = MARKERS_MAX \<and> -1 \<le> cl_active_marker s \<and> cl_active_marker s < int MARKERS_MAX \<and>
     (cl_active_marker s \<ge> 0 \<longrightarrow> mk_enabled (markers (cl_stim s) ! nat (cl_active_marker s))))"

lemma marker_ok_stim: "markers (g (cl_stim s)) = markers (cl_stim s) \<Longrightarrow> marker_ok (on_stim g s) = marker_ok s"
  by (simp add: marker_ok_def on_stim_def)

lemma redraw_markers: "markers (request_to_redraw m s) = markers s"
  by (simp add: request_to_redraw_def)

lemma marker_ok_say [simp]: "marker_ok (say f a s) = marker_ok s"
  by (simp add: marker_ok_def cli_defs)

lemma marker_ok_shown:
  assumes "length (markers (cl_stim s)) = MARKERS_MAX" "t < MARKERS_MAX" "mk_enabled (markers (cl_stim s) ! t)"
  shows "marker_ok (s\<lparr>cl_active_marker := int t\<rparr>)"
  using assms by (simp add: marker_ok_def)

lemma enable_active: "enable_marker t e (u\<lparr>cl_active_marker := a\<rparr>) = (enable_marker t e u)\<lparr>cl_active_marker := a\<rparr>"
  by (cases u) (simp add: enable_marker_def on_stim_def)

lemma set_index_markers:
  "length (markers (set_marker_index m i s)) = length (markers s)"
  "m < length (markers s) \<Longrightarrow> mk_enabled (markers (set_marker_index m i s) ! n) = mk_enabled (markers s ! n)"
  by (auto simp: set_marker_index_def st_call_def request_to_redraw_def Let_def nth_list_update)

lemma marker_word: "get_str_index w cmd_marker_list = (if w = ''on'' then 0 else if w = ''off'' then 1 else -1)"
proof -
  have "split_bar cmd_marker_list = [''on'', ''off'']" by code_simp
  then show ?thesis by (simp add: get_str_index_correct)
qed

text \<open>
  C33 After any \<open>marker\<close> line the active marker is none or one of the eight, and it is shown.
\<close>

theorem marker_command:
  assumes "marker_ok s"
  shows "marker_ok (cmd_marker argv s)"
proof (cases "length argv = 0")
  case True
  have "marker_ok (fold (\<lambda>t s. if mk_enabled (markers (cl_stim s) ! t) then say_marker t s else s) ts s)" for ts
    using assms by (induction ts arbitrary: s) (simp_all add: say_marker_def Let_def)
  then show ?thesis using True by (simp add: cmd_marker_def)
next
  case False
  define r where "r = on_stim (request_to_redraw (REDRAW_MARKER OR REDRAW_AREA)) s"
  have r: "marker_ok r" using assms by (simp add: r_def marker_ok_stim redraw_markers)
  then have len: "length (markers (cl_stim r)) = MARKERS_MAX" by (simp add: marker_ok_def)
  define t where "t = sint (my_atoi (argv ! 0) - 1)"
  show ?thesis
  proof (cases "get_str_index (argv ! 0) cmd_marker_list \<ge> 0")
    case True
    define on :: bool where "on = (get_str_index (argv ! 0) cmd_marker_list = 0)"
    define a :: int where "a = (if get_str_index (argv ! 0) cmd_marker_list = 1 then -1 else 0)"
    have step: "cmd_marker argv s = on_stim (\<lambda>t. t\<lparr>markers := map (\<lambda>m. m\<lparr>mk_enabled := on\<rparr>) (markers t)\<rparr>) (r\<lparr>cl_active_marker := a\<rparr>)"
      using False True by (simp add: cmd_marker_def Let_def r_def a_def on_def)
    have "on \<or> a = -1" using True by (auto simp: on_def a_def marker_word split: if_splits)
    then show ?thesis using len unfolding step by (auto simp: marker_ok_def on_stim_def MARKERS_MAX_def a_def on_def)
  next
    case word: False
    show ?thesis
    proof (cases "t < 0 \<or> t \<ge> int MARKERS_MAX")
      case True
      then show ?thesis using False word r by (simp add: cmd_marker_def Let_def r_def [symmetric] t_def [symmetric])
    next
      case t: False
      then have n: "nat t < MARKERS_MAX" "int (nat t) = t" by auto
      note shown = marker_ok_shown [OF _ n(1), unfolded n(2)]
      have on: "marker_ok ((enable_marker (nat t) True u)\<lparr>cl_active_marker := t\<rparr>)" if "length (markers (cl_stim u)) = MARKERS_MAX" for u
        using that n(1) by (intro shown) (simp_all add: enable_marker_def cli_defs)
      have one: "marker_ok (enable_marker (nat t) True (say_marker (nat t) r\<lparr>cl_active_marker := t\<rparr>))"
        using on [of "say_marker (nat t) r"] len
        by (simp add: enable_active stim_say say_marker_def Let_def)
      have moved: "marker_ok ((on_stim (set_marker_index (nat t) i) (enable_marker (nat t) True r))\<lparr>cl_active_marker := t\<rparr>)" for i
        using len n(1) by (intro shown) (simp_all add: enable_marker_def cli_defs set_index_markers)
      have off: "marker_ok (if cl_active_marker (enable_marker (nat t) False r) = t
          then (enable_marker (nat t) False r)\<lparr>cl_active_marker := -1\<rparr> else enable_marker (nat t) False r)"
        using r n t by (auto simp: marker_ok_def enable_marker_def cli_defs nth_list_update)
      show ?thesis
        using False word t on [OF len] one moved off by (simp add: cmd_marker_def Let_def r_def [symmetric] t_def [symmetric])
    qed
  qed
qed

theorem marker_command_witness: "marker_ok (cmd_marker [''2'', ''on''] (cli_demo\<lparr>cl_active_marker := -1\<rparr>))"
proof -
  have "marker_ok (cli_demo\<lparr>cl_active_marker := -1\<rparr>)" by (simp add: marker_ok_def cli_demo_def st_demo_def MARKERS_MAX_def)
  then show ?thesis by (rule marker_command)
qed

text \<open>
  A colour that the command stores is shown with the bits the 16 bit pixel has: five of
  red, six of green, five of blue.
\<close>

theorem color_roundtrip: "HEXRGB (ucast (ucast (RGBHEX c) :: u16)) = c AND 0xF8FCF8"
proof (rule bit_eqI)
  fix n assume "possible_bit TYPE(u32) n"
  then have "n \<in> set [0..<32]" by simp
  then have "n \<in> {0, 1, 2, 3, 4, 5, 6, 7, 8, 9, 10, 11, 12, 13, 14, 15, 16, 17, 18, 19, 20, 21, 22, 23, 24, 25, 26, 27, 28, 29, 30, 31}"
    by (simp add: upt_rec numeral_eq_Suc)
  then show "bit (HEXRGB (ucast (ucast (RGBHEX c) :: u16))) n = bit (c AND 0xF8FCF8) n"
    by (elim insertE emptyE; simp add: RGBHEX_def HEXRGB_def bit_simps)
qed

text \<open>The word \<open>s11\<close> or \<open>s21\<close> of \<open>edelay\<close> is read as the number: the value that follows it is ignored.\<close>

lemma edelay_value_ignored: "cmd_edelay atof [''s21'', v] s = set_electrical_delay 1 (atof ''s21'' / 1000000000000) s"
proof -
  have "get_str_index ''s21'' cmd_edelay_list = 1" by code_simp
  then show ?thesis by (simp add: cmd_edelay_def)
qed

text \<open>\<open>trace\<close> with a number alone reads behind its arguments.\<close>

lemma trace_reads_behind: "cmd_trace [''0''] s = None"
proof -
  have "my_atoi ''0'' = 0" by code_simp
  then show ?thesis by (simp add: cmd_trace_def TRACES_MAX_def Let_def)
qed

text \<open>Writing one byte of the BCD date and time changes that byte only.\<close>

lemma set_byte_read:
  assumes "i < 4" "j < 4"
  shows "drop_bit (8 * j) (set_byte i b w) AND 0xFF = (if j = i then b AND 0xFF else drop_bit (8 * j) w AND 0xFF)"
proof -
  have ff: "(0xFF :: u32) = mask 8" by (simp add: mask_eq_exp_minus_1)
  have "i = 0 \<or> i = 1 \<or> i = 2 \<or> i = 3" "j = 0 \<or> j = 1 \<or> j = 2 \<or> j = 3" using assms by arith+
  then show ?thesis
    unfolding set_byte_def ff by (elim disjE; simp; intro bit_eqI; auto simp: bit_simps)
qed

lemma time_byte_written:
  assumes "i < 8" "j < 8"
  shows "time_byte j (set_time_byte i b dt) = (if j = i then b AND 0xFF else time_byte j dt)"
  using assms by (cases dt) (auto simp: time_byte_def set_time_byte_def set_byte_read)

end
