(* ===== verification/Fonts.thy ===== *)
theory Fonts
  imports Nvx_Prelude
begin

text \<open>
  The bitmap fonts of \<open>src/src/ui/resources/fonts\<close> that the two boards use: \<open>x5x7_bits\<close> and \<open>x6x10_bits\<close> on the
  320 by 240 displays, \<open>x7x11b_bits\<close> on the 480 by 320 one, and the digits of the keypad. A glyph is its
  width (the number of the macro \<open>CW_\<close>) and its rows, the leftmost pixel in the highest bit. The first byte carries the width in its lowest bits too.
\<close>

unbundle bit_operations_syntax

type_synonym glyph = "nat \<times> u8 list"

definition glyph_bytes :: "glyph \<Rightarrow> u8 list" where
  "glyph_bytes g = (case g of (w, rows) \<Rightarrow> (hd rows OR of_nat (8 - w)) # tl rows)"

section \<open>Bitmaps\<close>

definition x5x7_0 :: "glyph list" where
  "x5x7_0 =
    [
     (8, [0, 6, 6, 0x46, 0xFE, 0xFE, 0x40]),
     (6, [0, 0x20, 0x20, 0x50, 0x50, 0x88, 0xF8]),
     (4, [0x80, 0xC0, 0xE0, 0xF0, 0xE0, 0xC0, 0x80]),
     (8, [0, 0x6C, 0xB2, 0x92, 0x9A, 0x6C, 0]),
     (6, [0, 0x20, 0x40, 0xF8, 0x40, 0x20, 0]),
     (6, [0, 0x20, 0x10, 0xF8, 0x10, 0x20, 0]),
     (6, [0, 0xF8, 0x50, 0x50, 0x50, 0x50, 0x98]),
     (6, [0, 0, 0x88, 0x88, 0xD8, 0xA8, 0x80]),
     (6, [0x70, 0x88, 0x88, 0x88, 0x50, 0x50, 0xD8]),
     (5, [0x60, 0x90, 0x90, 0x60, 0, 0, 0]),
     (4, [0, 0, 0, 0, 0, 0, 0]),
     (3, [0x40, 0x40, 0x40, 0x40, 0x40, 0, 0x40]),
     (8, [0x50, 0x50, 0x50, 0, 0, 0, 0]),
     (6, [0x50, 0x50, 0xF8, 0x50, 0xF8, 0x50, 0x50]),
     (6, [0x20, 0x78, 0xA0, 0x70, 0x28, 0xF0, 0x20])]"

definition x5x7_1 :: "glyph list" where
  "x5x7_1 =
    [
     (6, [0xC0, 0xC8, 0x10, 0x20, 0x40, 0x98, 0x18]),
     (6, [0, 0x20, 0x50, 0x60, 0xA8, 0x90, 0x68]),
     (4, [0x60, 0x40, 0x80, 0, 0, 0, 0]),
     (4, [0x20, 0x40, 0x80, 0x80, 0x80, 0x40, 0x20]),
     (4, [0x80, 0x40, 0x20, 0x20, 0x20, 0x40, 0x80]),
     (6, [0, 0x20, 0xA8, 0x70, 0xA8, 0x20, 0]),
     (6, [0, 0x20, 0x20, 0xF8, 0x20, 0x20, 0]),
     (3, [0, 0, 0, 0, 0xC0, 0x40, 0x80]),
     (5, [0, 0, 0, 0xF0, 0, 0, 0]),
     (3, [0, 0, 0, 0, 0, 0xC0, 0xC0]),
     (4, [0x20, 0x20, 0x40, 0x40, 0x40, 0x80, 0x80]),
     (5, [0x60, 0x90, 0x90, 0x90, 0x90, 0x90, 0x60]),
     (5, [0x20, 0x60, 0x20, 0x20, 0x20, 0x20, 0x70]),
     (5, [0x60, 0x90, 0x10, 0x20, 0x40, 0x80, 0xF0]),
     (5, [0x60, 0x90, 0x10, 0x60, 0x10, 0x90, 0x60])]"

definition x5x7_2 :: "glyph list" where
  "x5x7_2 =
    [
     (5, [0x90, 0x90, 0x90, 0x90, 0xF0, 0x10, 0x10]),
     (5, [0xF0, 0x80, 0xE0, 0x10, 0x10, 0x90, 0x60]),
     (5, [0x60, 0x90, 0x80, 0xE0, 0x90, 0x90, 0x60]),
     (5, [0xF0, 0x10, 0x20, 0x20, 0x40, 0x40, 0x40]),
     (5, [0x60, 0x90, 0x90, 0x60, 0x90, 0x90, 0x60]),
     (5, [0x60, 0x90, 0x90, 0x70, 0x10, 0x90, 0x60]),
     (4, [0, 0xC0, 0xC0, 0, 0xC0, 0xC0, 0]),
     (4, [0, 0x60, 0x60, 0, 0x60, 0x40, 0x80]),
     (5, [0, 0x20, 0x40, 0x80, 0x40, 0x20, 0]),
     (5, [0, 0, 0xF0, 0, 0xF0, 0, 0]),
     (5, [0, 0x80, 0x40, 0x20, 0x40, 0x80, 0]),
     (5, [0x60, 0x90, 0x10, 0x20, 0x40, 0, 0x40]),
     (5, [0x60, 0x90, 0xB0, 0xB0, 0x80, 0x80, 0x70]),
     (5, [0x60, 0x90, 0x90, 0x90, 0xF0, 0x90, 0x90]),
     (5, [0xE0, 0x90, 0x90, 0xE0, 0x90, 0x90, 0xE0])]"

definition x5x7_3 :: "glyph list" where
  "x5x7_3 =
    [
     (5, [0x60, 0x90, 0x80, 0x80, 0x80, 0x90, 0x60]),
     (5, [0xE0, 0x90, 0x90, 0x90, 0x90, 0x90, 0xE0]),
     (5, [0xF0, 0x80, 0x80, 0xE0, 0x80, 0x80, 0xF0]),
     (5, [0xF0, 0x80, 0x80, 0xE0, 0x80, 0x80, 0x80]),
     (5, [0x60, 0x90, 0x80, 0xB0, 0x90, 0x90, 0x70]),
     (5, [0x90, 0x90, 0x90, 0xF0, 0x90, 0x90, 0x90]),
     (4, [0xE0, 0x40, 0x40, 0x40, 0x40, 0x40, 0xE0]),
     (5, [0x70, 0x10, 0x10, 0x10, 0x10, 0x90, 0x60]),
     (5, [0x90, 0x90, 0x90, 0xE0, 0x90, 0x90, 0x90]),
     (5, [0x80, 0x80, 0x80, 0x80, 0x80, 0x80, 0xF0]),
     (6, [0x88, 0xD8, 0xA8, 0xA8, 0xA8, 0x88, 0x88]),
     (5, [0x90, 0x90, 0xD0, 0xB0, 0x90, 0x90, 0x90]),
     (5, [0x60, 0x90, 0x90, 0x90, 0x90, 0x90, 0x60]),
     (5, [0xE0, 0x90, 0x90, 0xE0, 0x80, 0x80, 0x80]),
     (5, [0x60, 0x90, 0x90, 0x90, 0x90, 0xA0, 0x50])]"

definition x5x7_4 :: "glyph list" where
  "x5x7_4 =
    [
     (5, [0xE0, 0x90, 0x90, 0xE0, 0x90, 0x90, 0x90]),
     (5, [0x60, 0x90, 0x80, 0x60, 0x10, 0x90, 0x60]),
     (6, [0xF8, 0x20, 0x20, 0x20, 0x20, 0x20, 0x20]),
     (5, [0x90, 0x90, 0x90, 0x90, 0x90, 0x90, 0x70]),
     (5, [0x90, 0x90, 0x90, 0x90, 0x90, 0x60, 0x60]),
     (6, [0x88, 0x88, 0x88, 0xA8, 0xA8, 0xA8, 0x50]),
     (6, [0x88, 0x88, 0x50, 0x20, 0x50, 0x88, 0x88]),
     (6, [0x88, 0x88, 0x88, 0x50, 0x20, 0x20, 0x20]),
     (5, [0xF0, 0x10, 0x20, 0x40, 0x80, 0x80, 0xF0]),
     (4, [0xE0, 0x80, 0x80, 0x80, 0x80, 0x80, 0xE0]),
     (4, [0x80, 0x80, 0x40, 0x40, 0x40, 0x20, 0x20]),
     (4, [0xE0, 0x20, 0x20, 0x20, 0x20, 0x20, 0xE0]),
     (4, [0x40, 0xA0, 0, 0, 0, 0, 0]),
     (5, [0, 0, 0, 0, 0, 0, 0xF8]),
     (4, [0xC0, 0x40, 0x20, 0, 0, 0, 0])]"

definition x5x7_5 :: "glyph list" where
  "x5x7_5 =
    [
     (5, [0, 0, 0x70, 0x90, 0x90, 0xB0, 0x50]),
     (5, [0x80, 0x80, 0xA0, 0xD0, 0x90, 0x90, 0xE0]),
     (5, [0, 0, 0x70, 0x80, 0x80, 0x80, 0x70]),
     (5, [0x10, 0x10, 0x50, 0xB0, 0x90, 0x90, 0x70]),
     (5, [0, 0, 0x60, 0x90, 0xF0, 0x80, 0x70]),
     (5, [0x20, 0x50, 0x40, 0xE0, 0x40, 0x40, 0x40]),
     (5, [0, 0, 0x70, 0x90, 0x70, 0x10, 0x60]),
     (5, [0x80, 0x80, 0xA0, 0xD0, 0x90, 0x90, 0x90]),
     (4, [0x40, 0, 0xC0, 0x40, 0x40, 0x40, 0xE0]),
     (4, [0x20, 0, 0x20, 0x20, 0x20, 0xA0, 0x40]),
     (5, [0x80, 0x80, 0x90, 0xA0, 0xC0, 0xA0, 0x90]),
     (4, [0xC0, 0x40, 0x40, 0x40, 0x40, 0x40, 0xE0]),
     (6, [0, 0, 0xF0, 0xA8, 0xA8, 0xA8, 0xA8]),
     (5, [0, 0, 0xA0, 0xD0, 0x90, 0x90, 0x90]),
     (5, [0, 0, 0x60, 0x90, 0x90, 0x90, 0x60])]"

definition x5x7_6 :: "glyph list" where
  "x5x7_6 =
    [
     (5, [0, 0, 0xE0, 0x90, 0x90, 0xE0, 0x80]),
     (5, [0, 0, 0x70, 0x90, 0x90, 0x70, 0x10]),
     (5, [0, 0, 0xA0, 0xD0, 0x80, 0x80, 0x80]),
     (5, [0, 0, 0x70, 0x80, 0x60, 0x10, 0xE0]),
     (5, [0x40, 0x40, 0xE0, 0x40, 0x40, 0x40, 0x30]),
     (5, [0, 0, 0x90, 0x90, 0x90, 0xB0, 0x50]),
     (5, [0, 0, 0x90, 0x90, 0x90, 0x60, 0x60]),
     (6, [0, 0, 0x88, 0x88, 0xA8, 0xA8, 0x50]),
     (5, [0, 0, 0x90, 0x90, 0x60, 0x90, 0x90]),
     (5, [0, 0, 0x90, 0x90, 0x70, 0x10, 0xE0]),
     (5, [0, 0, 0xF0, 0x20, 0x40, 0x80, 0xF0]),
     (4, [0x20, 0x40, 0x40, 0x80, 0x40, 0x40, 0x20]),
     (4, [0x20, 0x20, 0x20, 0x20, 0x20, 0x20, 0x20]),
     (4, [0x80, 0x40, 0x40, 0x20, 0x40, 0x40, 0x80]),
     (5, [0, 0, 0x50, 0xA0, 0, 0, 0])]"

definition x5x7_glyphs :: "glyph list" where
  "x5x7_glyphs = concat [x5x7_0, x5x7_1, x5x7_2, x5x7_3, x5x7_4, x5x7_5, x5x7_6]"

definition x6x10_0 :: "glyph list" where
  "x6x10_0 =
    [
     (8, [0, 6, 6, 6, 0x26, 0x66, 0xFE, 0xFE, 0x60, 0x20]),
     (6, [0, 0, 0x20, 0x20, 0x50, 0x50, 0x88, 0x88, 0xF8, 0]),
     (5, [0x80, 0xC0, 0xE0, 0xF0, 0xF8, 0xF0, 0xE0, 0xC0, 0x80, 0]),
     (8, [0, 0x6E, 0xDB, 0x91, 0x99, 0x89, 0xDB, 0x76, 0, 0]),
     (8, [0, 0x10, 0x30, 0x60, 0xFE, 0xFE, 0x60, 0x30, 0x10, 0]),
     (7, [0, 0x10, 0x18, 0x0C, 0x7E, 0x7E, 0x0C, 0x18, 0x10, 0]),
     (7, [0, 0, 0, 0x7C, 0x28, 0x28, 0x28, 0xA8, 0xC8, 0]),
     (7, [0, 0, 0, 0x84, 0x84, 0x84, 0x8C, 0xD4, 0xA4, 0x80]),
     (6, [0x70, 0x88, 0x88, 0x88, 0x88, 0x88, 0x50, 0x50, 0xD8, 0]),
     (5, [0x60, 0x90, 0x90, 0x60, 0, 0, 0, 0, 0, 0]),
     (4, [0, 0, 0, 0, 0, 0, 0, 0, 0, 0]),
     (4, [0x40, 0x40, 0x40, 0x40, 0x40, 0x40, 0x40, 0, 0x40, 0])]"

definition x6x10_1 :: "glyph list" where
  "x6x10_1 =
    [
     (5, [0x90, 0x90, 0x90, 0, 0, 0, 0, 0, 0, 0]),
     (6, [0, 0x50, 0x50, 0xF8, 0x50, 0x50, 0xF8, 0x50, 0x50, 0]),
     (7, [0x20, 0x78, 0xA0, 0xA0, 0x70, 0x28, 0x28, 0xF0, 0x20, 0]),
     (7, [0x60, 0x90, 0x94, 0x68, 0x10, 0x20, 0x58, 0xA4, 0x24, 0x18]),
     (8, [0, 0x30, 0x48, 0x50, 0x22, 0x54, 0x88, 0x94, 0x62, 0]),
     (4, [0x60, 0x60, 0xC0, 0, 0, 0, 0, 0, 0, 0]),
     (4, [0x20, 0x40, 0x40, 0x80, 0x80, 0x80, 0x40, 0x40, 0x20, 0]),
     (4, [0x80, 0x40, 0x40, 0x20, 0x20, 0x20, 0x40, 0x40, 0x80, 0]),
     (7, [0, 0, 0x20, 0xA8, 0x70, 0xA8, 0x20, 0, 0, 0]),
     (7, [0, 0, 0x20, 0x20, 0xF8, 0x20, 0x20, 0, 0, 0]),
     (5, [0, 0, 0, 0, 0, 0, 0, 0x60, 0x20, 0x40]),
     (6, [0, 0, 0, 0, 0xF8, 0, 0, 0, 0, 0])]"

definition x6x10_2 :: "glyph list" where
  "x6x10_2 =
    [
     (5, [0, 0, 0, 0, 0, 0, 0, 0x60, 0x60, 0]),
     (6, [8, 8, 0x10, 0x10, 0x20, 0x40, 0x40, 0x80, 0x80, 0]),
     (6, [0x70, 0x88, 0x88, 0x98, 0xA8, 0xC8, 0x88, 0x88, 0x70, 0]),
     (6, [0x10, 0x30, 0x50, 0x10, 0x10, 0x10, 0x10, 0x10, 0x38, 0]),
     (6, [0x70, 0x88, 0x88, 8, 0x10, 0x20, 0x40, 0x80, 0xF8, 0]),
     (6, [0x70, 0x88, 0x88, 8, 0x30, 8, 0x88, 0x88, 0x70, 0]),
     (6, [0x10, 0x30, 0x50, 0x90, 0x90, 0x90, 0xF8, 0x10, 0x10, 0]),
     (6, [0xF8, 0x80, 0x80, 0xF0, 0x88, 8, 8, 0x88, 0x70, 0]),
     (6, [0x70, 0x88, 0x80, 0xF0, 0x88, 0x88, 0x88, 0x88, 0x70, 0]),
     (6, [0xF8, 8, 8, 0x10, 0x10, 0x20, 0x20, 0x20, 0x20, 0]),
     (6, [0x70, 0x88, 0x88, 0x88, 0x70, 0x88, 0x88, 0x88, 0x70, 0]),
     (6, [0x70, 0x88, 0x88, 0x88, 0x88, 0x78, 8, 0x88, 0x70, 0])]"

definition x6x10_3 :: "glyph list" where
  "x6x10_3 =
    [
     (4, [0, 0, 0xC0, 0xC0, 0, 0, 0xC0, 0xC0, 0, 0]),
     (4, [0, 0, 0xC0, 0xC0, 0, 0, 0xC0, 0x40, 0x80, 0]),
     (5, [0, 0x10, 0x20, 0x40, 0x80, 0x40, 0x20, 0x10, 0, 0]),
     (6, [0, 0, 0, 0xF8, 0, 0, 0xF8, 0, 0, 0]),
     (5, [0, 0x80, 0x40, 0x20, 0x10, 0x20, 0x40, 0x80, 0, 0]),
     (6, [0x70, 0x88, 0x88, 8, 0x10, 0x20, 0x20, 0, 0x20, 0]),
     (6, [0x70, 0x88, 0x88, 0x98, 0xA8, 0x90, 0x80, 0x88, 0x70, 0]),
     (6, [0x78, 0x88, 0x88, 0x88, 0xF8, 0x88, 0x88, 0x88, 0x88, 0]),
     (6, [0xF0, 0x88, 0x88, 0x88, 0xF0, 0x88, 0x88, 0x88, 0xF0, 0]),
     (6, [0x70, 0x88, 0x88, 0x80, 0x80, 0x80, 0x88, 0x88, 0x70, 0]),
     (6, [0xF0, 0x88, 0x88, 0x88, 0x88, 0x88, 0x88, 0x88, 0xF0, 0]),
     (6, [0xF8, 0x80, 0x80, 0x80, 0xF0, 0x80, 0x80, 0x80, 0xF8, 0])]"

definition x6x10_4 :: "glyph list" where
  "x6x10_4 =
    [
     (6, [0xF8, 0x80, 0x80, 0x80, 0xF0, 0x80, 0x80, 0x80, 0x80, 0]),
     (6, [0x70, 0x88, 0x88, 0x80, 0x80, 0x98, 0x88, 0x98, 0x68, 0]),
     (6, [0x88, 0x88, 0x88, 0x88, 0xF8, 0x88, 0x88, 0x88, 0x88, 0]),
     (4, [0xE0, 0x40, 0x40, 0x40, 0x40, 0x40, 0x40, 0x40, 0xE0, 0]),
     (6, [8, 8, 8, 8, 8, 8, 8, 0x88, 0x70, 0]),
     (6, [0x88, 0x88, 0x88, 0x90, 0xE0, 0x90, 0x88, 0x88, 0x88, 0]),
     (6, [0x80, 0x80, 0x80, 0x80, 0x80, 0x80, 0x80, 0x80, 0xF8, 0]),
     (6, [0x88, 0x88, 0xD8, 0xD8, 0xA8, 0xA8, 0xA8, 0x88, 0x88, 0]),
     (6, [0x88, 0xC8, 0xC8, 0xA8, 0xA8, 0x98, 0x98, 0x88, 0x88, 0]),
     (6, [0x70, 0x88, 0x88, 0x88, 0x88, 0x88, 0x88, 0x88, 0x70, 0]),
     (6, [0xF0, 0x88, 0x88, 0x88, 0xF0, 0x80, 0x80, 0x80, 0x80, 0]),
     (6, [0x70, 0x88, 0x88, 0x88, 0x88, 0x88, 0xA8, 0x90, 0x68, 0])]"

definition x6x10_5 :: "glyph list" where
  "x6x10_5 =
    [
     (6, [0xF0, 0x88, 0x88, 0x88, 0xF0, 0x88, 0x88, 0x88, 0x88, 0]),
     (6, [0x70, 0x88, 0x88, 0x40, 0x20, 0x10, 0x88, 0x88, 0x70, 0]),
     (6, [0xF8, 0xA8, 0x20, 0x20, 0x20, 0x20, 0x20, 0x20, 0x20, 0]),
     (6, [0x88, 0x88, 0x88, 0x88, 0x88, 0x88, 0x88, 0x88, 0x70, 0]),
     (6, [0x88, 0x88, 0x88, 0x50, 0x50, 0x50, 0x20, 0x20, 0x20, 0]),
     (6, [0x88, 0x88, 0x88, 0xA8, 0xA8, 0xA8, 0xA8, 0xA8, 0x50, 0]),
     (6, [0x88, 0x88, 0x88, 0x50, 0x20, 0x50, 0x88, 0x88, 0x88, 0]),
     (6, [0x88, 0x88, 0x88, 0x88, 0x70, 0x20, 0x20, 0x20, 0x20, 0]),
     (6, [0xF8, 8, 8, 0x10, 0x20, 0x40, 0x80, 0x80, 0xF8, 0]),
     (4, [0xE0, 0x80, 0x80, 0x80, 0x80, 0x80, 0x80, 0x80, 0xE0, 0]),
     (6, [0x80, 0x80, 0x40, 0x40, 0x20, 0x10, 0x10, 8, 8, 0]),
     (4, [0xE0, 0x20, 0x20, 0x20, 0x20, 0x20, 0x20, 0x20, 0xE0, 0])]"

definition x6x10_6 :: "glyph list" where
  "x6x10_6 =
    [
     (6, [0x20, 0x50, 0x88, 0, 0, 0, 0, 0, 0, 0]),
     (7, [0, 0, 0, 0, 0, 0, 0, 0, 0xFC, 0xFC]),
     (5, [0xC0, 0x60, 0x30, 0, 0, 0, 0, 0, 0, 0]),
     (6, [0, 0, 0, 0x70, 8, 0x78, 0x88, 0x88, 0x78, 0]),
     (6, [0x80, 0x80, 0x80, 0xB0, 0xC8, 0x88, 0x88, 0xC8, 0xB0, 0]),
     (6, [0, 0, 0, 0x70, 0x88, 0x80, 0x80, 0x88, 0x70, 0]),
     (6, [8, 8, 8, 0x68, 0x98, 0x88, 0x88, 0x98, 0x68, 0]),
     (6, [0, 0, 0, 0x70, 0x88, 0xF8, 0x80, 0x88, 0x70, 0]),
     (6, [0x30, 0x48, 0x40, 0x40, 0xE0, 0x40, 0x40, 0x40, 0x40, 0]),
     (6, [0, 0, 0, 0x68, 0x98, 0x88, 0x88, 0x78, 8, 0x70]),
     (6, [0x80, 0x80, 0x80, 0xB0, 0xC8, 0x88, 0x88, 0x88, 0x88, 0]),
     (4, [0, 0x40, 0, 0xC0, 0x40, 0x40, 0x40, 0x40, 0xE0, 0])]"

definition x6x10_7 :: "glyph list" where
  "x6x10_7 =
    [
     (6, [0, 8, 0, 8, 8, 8, 8, 8, 0x88, 0x70]),
     (6, [0x80, 0x80, 0x80, 0x88, 0x90, 0xA0, 0xE0, 0x90, 0x88, 0]),
     (6, [0x60, 0x20, 0x20, 0x20, 0x20, 0x20, 0x20, 0x20, 0xF8, 0]),
     (6, [0, 0, 0, 0xD0, 0xA8, 0xA8, 0xA8, 0xA8, 0xA8, 0]),
     (6, [0, 0, 0, 0xB0, 0xC8, 0x88, 0x88, 0x88, 0x88, 0]),
     (6, [0, 0, 0, 0x70, 0x88, 0x88, 0x88, 0x88, 0x70, 0]),
     (6, [0, 0, 0, 0xB0, 0xC8, 0x88, 0x88, 0xF0, 0x80, 0x80]),
     (6, [0, 0, 0, 0x68, 0x98, 0x88, 0x88, 0x78, 8, 8]),
     (6, [0, 0, 0, 0xB0, 0xC8, 0x80, 0x80, 0x80, 0x80, 0]),
     (6, [0, 0, 0, 0x70, 0x88, 0x60, 0x30, 0x88, 0x70, 0]),
     (5, [0, 0x40, 0x40, 0xE0, 0x40, 0x40, 0x40, 0x40, 0x30, 0]),
     (6, [0, 0, 0, 0x88, 0x88, 0x88, 0x88, 0x98, 0x68, 0])]"

definition x6x10_8 :: "glyph list" where
  "x6x10_8 =
    [
     (6, [0, 0, 0, 0x88, 0x88, 0x50, 0x50, 0x20, 0x20, 0]),
     (6, [0, 0, 0, 0x88, 0x88, 0xA8, 0xA8, 0xA8, 0x50, 0]),
     (6, [0, 0, 0, 0x88, 0x50, 0x20, 0x20, 0x50, 0x88, 0]),
     (6, [0, 0, 0, 0x88, 0x88, 0x88, 0x78, 8, 0x88, 0x70]),
     (6, [0, 0, 0, 0xF8, 8, 0x30, 0x60, 0x80, 0xF8, 0]),
     (5, [0x30, 0x40, 0x40, 0x40, 0x80, 0x40, 0x40, 0x40, 0x30, 0]),
     (4, [0x40, 0x40, 0x40, 0x40, 0x40, 0x40, 0x40, 0x40, 0x40, 0]),
     (5, [0xC0, 0x20, 0x20, 0x20, 0x10, 0x20, 0x20, 0x20, 0xC0, 0]),
     (6, [0x48, 0xA8, 0x90, 0, 0, 0, 0, 0, 0, 0])]"

definition x6x10_glyphs :: "glyph list" where
  "x6x10_glyphs = concat [x6x10_0, x6x10_1, x6x10_2, x6x10_3, x6x10_4, x6x10_5, x6x10_6, x6x10_7, x6x10_8]"

definition x7x11b_0 :: "glyph list" where
  "x7x11b_0 =
    [
     (8, [0, 6, 6, 6, 0x26, 0x66, 0xFE, 0xFE, 0x60, 0x20, 0]),
     (8, [0, 0x10, 0x10, 0x38, 0x38, 0x6C, 0x6C, 0xC6, 0xC6, 0xFE, 0]),
     (6, [0, 0x80, 0xC0, 0xE0, 0xF0, 0xF8, 0xF0, 0xE0, 0xC0, 0x80, 0]),
     (8, [0, 0, 0x6E, 0xDB, 0x91, 0x99, 0x89, 0xDB, 0x76, 0, 0]),
     (8, [0, 0, 0x10, 0x30, 0x60, 0xFE, 0xFE, 0x60, 0x30, 0x10, 0]),
     (8, [0, 0, 0x10, 0x18, 0x0C, 0xFE, 0xFE, 0x0C, 0x18, 0x10, 0]),
     (7, [0, 0, 0, 0, 0xFC, 0x6C, 0x6C, 0x6C, 0xEC, 0xCC, 0]),
     (8, [0, 0, 0, 0, 0xC6, 0xC6, 0xC6, 0xC6, 0xEE, 0xD6, 0xC0]),
     (8, [0, 0x7C, 0xC6, 0xC6, 0xC6, 0xC6, 0xC6, 0x6C, 0x6C, 0xEE, 0]),
     (6, [0, 0x70, 0xD8, 0xD8, 0x70, 0, 0, 0, 0, 0, 0]),
     (4, [0, 0, 0, 0, 0, 0, 0, 0, 0, 0, 0])]"

definition x7x11b_1 :: "glyph list" where
  "x7x11b_1 =
    [
     (4, [0, 0x60, 0x60, 0x60, 0x60, 0x60, 0x60, 0, 0x60, 0x60, 0]),
     (6, [0, 0xD8, 0xD8, 0xD8, 0, 0, 0, 0, 0, 0, 0]),
     (6, [0, 0x50, 0x50, 0xF8, 0xF8, 0x50, 0xF8, 0xF8, 0x50, 0x50, 0]),
     (8, [0, 0x30, 0x7C, 0xB0, 0xB0, 0x78, 0x34, 0x34, 0xF8, 0x30, 0]),
     (8, [0x60, 0x92, 0x96, 0x6C, 0x18, 0x30, 0x6C, 0xD2, 0x92, 0x0C, 0]),
     (8, [0, 0x70, 0xD8, 0xD8, 0x70, 0x72, 0xDC, 0xCC, 0xDC, 0x72, 0]),
     (5, [0, 0xE0, 0xE0, 0x60, 0xC0, 0, 0, 0, 0, 0, 0]),
     (5, [0, 0x30, 0x60, 0x60, 0xC0, 0xC0, 0xC0, 0x60, 0x60, 0x30, 0]),
     (5, [0, 0xC0, 0x60, 0x60, 0x30, 0x30, 0x30, 0x60, 0x60, 0xC0, 0]),
     (7, [0, 0, 0, 0x20, 0xA8, 0x70, 0xA8, 0x20, 0, 0, 0]),
     (7, [0, 0, 0, 0x30, 0x30, 0xFC, 0xFC, 0x30, 0x30, 0, 0])]"

definition x7x11b_2 :: "glyph list" where
  "x7x11b_2 =
    [
     (4, [0, 0, 0, 0, 0, 0, 0, 0x40, 0xE0, 0x60, 0xC0]),
     (7, [0, 0, 0, 0, 0, 0xFC, 0xFC, 0, 0, 0, 0]),
     (4, [0, 0, 0, 0, 0, 0, 0, 0x40, 0xE0, 0x40, 0]),
     (7, [0, 0x0C, 0x0C, 0x18, 0x18, 0x30, 0x60, 0x60, 0xC0, 0xC0, 0]),
     (7, [0, 0x78, 0xCC, 0xCC, 0xDC, 0xEC, 0xCC, 0xCC, 0xCC, 0x78, 0]),
     (7, [0, 0x30, 0x70, 0xB0, 0x30, 0x30, 0x30, 0x30, 0x30, 0xFC, 0]),
     (7, [0, 0x78, 0xCC, 0xCC, 0x0C, 0x38, 0x60, 0xC0, 0xC0, 0xFC, 0]),
     (7, [0, 0x78, 0xCC, 0xCC, 0x0C, 0x38, 0x0C, 0xCC, 0xCC, 0x78, 0]),
     (7, [0, 0x0C, 0x1C, 0x3C, 0x6C, 0xCC, 0xCC, 0xFC, 0x0C, 0x0C, 0]),
     (7, [0, 0xFC, 0xC0, 0xC0, 0xF8, 0xCC, 0x0C, 0x0C, 0xCC, 0x78, 0]),
     (7, [0, 0x78, 0xCC, 0xC0, 0xC0, 0xF8, 0xCC, 0xCC, 0xCC, 0x78, 0])]"

definition x7x11b_3 :: "glyph list" where
  "x7x11b_3 =
    [
     (7, [0, 0xFC, 0x0C, 0x0C, 0x18, 0x18, 0x30, 0x30, 0x60, 0x60, 0]),
     (7, [0, 0x78, 0xCC, 0xCC, 0xCC, 0x78, 0xCC, 0xCC, 0xCC, 0x78, 0]),
     (7, [0, 0x78, 0xCC, 0xCC, 0xCC, 0x7C, 0x0C, 0x0C, 0xCC, 0x78, 0]),
     (4, [0, 0, 0x40, 0xE0, 0x40, 0, 0x40, 0xE0, 0x40, 0, 0]),
     (4, [0, 0, 0x40, 0xE0, 0x40, 0, 0x40, 0xE0, 0x40, 0x80, 0]),
     (7, [0, 0x0C, 0x18, 0x30, 0x60, 0xC0, 0x60, 0x30, 0x18, 0x0C, 0]),
     (7, [0, 0, 0, 0, 0xFC, 0, 0, 0xFC, 0, 0, 0]),
     (7, [0, 0xC0, 0x60, 0x30, 0x18, 0x0C, 0x18, 0x30, 0x60, 0xC0, 0]),
     (7, [0, 0x78, 0xCC, 0xCC, 0x0C, 0x18, 0x30, 0, 0x30, 0x30, 0]),
     (7, [0, 0x78, 0x8C, 0x8C, 0xBC, 0xAC, 0xB8, 0x80, 0x8C, 0x78, 0]),
     (7, [0, 0x78, 0xCC, 0xCC, 0xCC, 0xFC, 0xCC, 0xCC, 0xCC, 0xCC, 0])]"

definition x7x11b_4 :: "glyph list" where
  "x7x11b_4 =
    [
     (7, [0, 0xF8, 0xCC, 0xCC, 0xCC, 0xF8, 0xCC, 0xCC, 0xCC, 0xF8, 0]),
     (7, [0, 0x78, 0xCC, 0xCC, 0xC0, 0xC0, 0xC0, 0xCC, 0xCC, 0x78, 0]),
     (7, [0, 0xF8, 0xCC, 0xCC, 0xCC, 0xCC, 0xCC, 0xCC, 0xCC, 0xF8, 0]),
     (7, [0, 0xFC, 0xC0, 0xC0, 0xC0, 0xF8, 0xC0, 0xC0, 0xC0, 0xFC, 0]),
     (7, [0, 0xFC, 0xC0, 0xC0, 0xC0, 0xF8, 0xC0, 0xC0, 0xC0, 0xC0, 0]),
     (7, [0, 0x78, 0xCC, 0xCC, 0xC0, 0xC0, 0xDC, 0xCC, 0xDC, 0x6C, 0]),
     (7, [0, 0xCC, 0xCC, 0xCC, 0xCC, 0xFC, 0xCC, 0xCC, 0xCC, 0xCC, 0]),
     (5, [0, 0xF0, 0x60, 0x60, 0x60, 0x60, 0x60, 0x60, 0x60, 0xF0, 0]),
     (7, [0, 0x0C, 0x0C, 0x0C, 0x0C, 0x0C, 0x0C, 0x0C, 0xCC, 0x78, 0]),
     (7, [0, 0xCC, 0xCC, 0xCC, 0xD8, 0xF0, 0xD8, 0xCC, 0xCC, 0xCC, 0]),
     (7, [0, 0xC0, 0xC0, 0xC0, 0xC0, 0xC0, 0xC0, 0xC0, 0xC0, 0xFC, 0])]"

definition x7x11b_5 :: "glyph list" where
  "x7x11b_5 =
    [
     (8, [0, 0xC6, 0xC6, 0xEE, 0xEE, 0xD6, 0xD6, 0xD6, 0xC6, 0xC6, 0]),
     (7, [0, 0xCC, 0xCC, 0xEC, 0xEC, 0xFC, 0xDC, 0xDC, 0xCC, 0xCC, 0]),
     (7, [0, 0x78, 0xCC, 0xCC, 0xCC, 0xCC, 0xCC, 0xCC, 0xCC, 0x78, 0]),
     (7, [0, 0xF8, 0xCC, 0xCC, 0xCC, 0xF8, 0xC0, 0xC0, 0xC0, 0xC0, 0]),
     (7, [0, 0x78, 0xCC, 0xCC, 0xCC, 0xCC, 0xCC, 0xEC, 0xDC, 0x78, 0x0C]),
     (7, [0, 0xF8, 0xCC, 0xCC, 0xCC, 0xF8, 0xD8, 0xCC, 0xCC, 0xCC, 0]),
     (7, [0, 0x78, 0xCC, 0xCC, 0x60, 0x30, 0x18, 0xCC, 0xCC, 0x78, 0]),
     (7, [0, 0xFC, 0xB4, 0x30, 0x30, 0x30, 0x30, 0x30, 0x30, 0x30, 0]),
     (7, [0, 0xCC, 0xCC, 0xCC, 0xCC, 0xCC, 0xCC, 0xCC, 0xCC, 0x78, 0]),
     (8, [0, 0xC6, 0xC6, 0xC6, 0x6C, 0x6C, 0x6C, 0x38, 0x38, 0x10, 0]),
     (8, [0, 0xC6, 0xC6, 0xC6, 0xD6, 0xD6, 0xD6, 0xD6, 0xFE, 0x6C, 0])]"

definition x7x11b_6 :: "glyph list" where
  "x7x11b_6 =
    [
     (7, [0, 0xCC, 0xCC, 0xCC, 0x48, 0x30, 0x48, 0xCC, 0xCC, 0xCC, 0]),
     (7, [0, 0xCC, 0xCC, 0xCC, 0xCC, 0x78, 0x30, 0x30, 0x30, 0x30, 0]),
     (7, [0, 0xFC, 0x0C, 0x0C, 0x18, 0x30, 0x60, 0xC0, 0xC0, 0xFC, 0]),
     (5, [0, 0xF0, 0xC0, 0xC0, 0xC0, 0xC0, 0xC0, 0xC0, 0xC0, 0xF0, 0]),
     (7, [0, 0xC0, 0xC0, 0x60, 0x60, 0x30, 0x18, 0x18, 0x0C, 0x0C, 0]),
     (5, [0, 0xF0, 0x30, 0x30, 0x30, 0x30, 0x30, 0x30, 0x30, 0xF0, 0]),
     (7, [0, 0x30, 0x78, 0xCC, 0x84, 0, 0, 0, 0, 0, 0]),
     (7, [0, 0, 0, 0, 0, 0, 0, 0, 0, 0xFC, 0xFC]),
     (5, [0, 0xC0, 0x60, 0x30, 0, 0, 0, 0, 0, 0, 0]),
     (7, [0, 0, 0, 0, 0x78, 0x0C, 0x7C, 0xCC, 0xCC, 0x7C, 0]),
     (7, [0, 0xC0, 0xC0, 0xC0, 0xD8, 0xEC, 0xCC, 0xCC, 0xEC, 0xD8, 0])]"

definition x7x11b_7 :: "glyph list" where
  "x7x11b_7 =
    [
     (7, [0, 0, 0, 0, 0x78, 0xCC, 0xC0, 0xC0, 0xCC, 0x78, 0]),
     (7, [0, 0x0C, 0x0C, 0x0C, 0x6C, 0xDC, 0xCC, 0xCC, 0xDC, 0x6C, 0]),
     (7, [0, 0, 0, 0, 0x78, 0xCC, 0xFC, 0xC0, 0xCC, 0x78, 0]),
     (7, [0, 0x38, 0x6C, 0x60, 0x60, 0xF0, 0x60, 0x60, 0x60, 0x60, 0]),
     (7, [0, 0, 0, 0, 0x74, 0xCC, 0xCC, 0xCC, 0x7C, 0x0C, 0x78]),
     (7, [0, 0xC0, 0xC0, 0xC0, 0xD8, 0xEC, 0xCC, 0xCC, 0xCC, 0xCC, 0]),
     (5, [0, 0x60, 0x60, 0, 0xE0, 0x60, 0x60, 0x60, 0x60, 0xF0, 0]),
     (7, [0, 0x0C, 0x0C, 0, 0x0C, 0x0C, 0x0C, 0x0C, 0x0C, 0xCC, 0x78]),
     (7, [0, 0xC0, 0xC0, 0xC0, 0xCC, 0xD8, 0xF0, 0xF0, 0xD8, 0xCC, 0]),
     (7, [0, 0x70, 0x30, 0x30, 0x30, 0x30, 0x30, 0x30, 0x30, 0xFC, 0]),
     (8, [0, 0, 0, 0, 0xEC, 0xFE, 0xD6, 0xD6, 0xD6, 0xD6, 0])]"

definition x7x11b_8 :: "glyph list" where
  "x7x11b_8 =
    [
     (7, [0, 0, 0, 0, 0xD8, 0xEC, 0xCC, 0xCC, 0xCC, 0xCC, 0]),
     (7, [0, 0, 0, 0, 0x78, 0xCC, 0xCC, 0xCC, 0xCC, 0x78, 0]),
     (7, [0, 0, 0, 0, 0xD8, 0xEC, 0xCC, 0xCC, 0xF8, 0xC0, 0xC0]),
     (7, [0, 0, 0, 0, 0x6C, 0xDC, 0xCC, 0xCC, 0x7C, 0x0C, 0x0C]),
     (7, [0, 0, 0, 0, 0xD8, 0xEC, 0xC0, 0xC0, 0xC0, 0xC0, 0]),
     (7, [0, 0, 0, 0, 0x78, 0xCC, 0x60, 0x18, 0xCC, 0x78, 0]),
     (7, [0, 0, 0x60, 0x60, 0xF8, 0x60, 0x60, 0x60, 0x6C, 0x38, 0]),
     (7, [0, 0, 0, 0, 0xCC, 0xCC, 0xCC, 0xCC, 0xDC, 0x6C, 0]),
     (7, [0, 0, 0, 0, 0xCC, 0xCC, 0x48, 0x48, 0x30, 0x30, 0]),
     (8, [0, 0, 0, 0, 0xC6, 0xC6, 0xD6, 0xD6, 0xFE, 0x6C, 0]),
     (7, [0, 0, 0, 0, 0xCC, 0x48, 0x30, 0x30, 0x48, 0xCC, 0])]"

definition x7x11b_9 :: "glyph list" where
  "x7x11b_9 =
    [
     (7, [0, 0, 0, 0, 0xCC, 0xCC, 0xCC, 0x7C, 0x0C, 0xCC, 0x78]),
     (7, [0, 0, 0, 0, 0xFC, 0x0C, 0x18, 0x60, 0xC0, 0xFC, 0]),
     (6, [0, 0x38, 0x60, 0x60, 0x60, 0xC0, 0x60, 0x60, 0x60, 0x38, 0]),
     (5, [0, 0x60, 0x60, 0x60, 0x60, 0x60, 0x60, 0x60, 0x60, 0x60, 0]),
     (6, [0, 0xE0, 0x30, 0x30, 0x30, 0x18, 0x30, 0x30, 0x30, 0xE0, 0]),
     (7, [0, 0x64, 0xFC, 0x98, 0, 0, 0, 0, 0, 0, 0])]"

definition x7x11b_glyphs :: "glyph list" where
  "x7x11b_glyphs = concat [x7x11b_0, x7x11b_1, x7x11b_2, x7x11b_3, x7x11b_4, x7x11b_5, x7x11b_6, x7x11b_7, x7x11b_8, x7x11b_9]"

definition num_0 :: "u8 list list" where
  "num_0 =
    [
     [0x0F, 0xF0, 0x3F, 0xFC, 0x7F, 0xFE, 0x7C, 0x3E, 0xF8, 0x1F, 0xF0, 0x0F, 0xF0, 0x0F, 0xF0, 0x0F, 0xF0, 0x0F, 0xF0, 0x0F, 0xF0, 0x0F, 0xF0, 0x0F, 0xF0, 0x0F, 0xF0, 0x0F, 0xF0, 0x0F, 0xF0, 0x0F, 0xF0, 0x0F, 0xF8, 0x1F, 0x7C, 0x3E, 0x7F, 0xFE, 0x3F, 0xFC, 0x0F, 0xF0],
     [0, 0xF0, 1, 0xF0, 3, 0xF0, 7, 0xF0, 0x0F, 0xF0, 0x0F, 0xF0, 0x0E, 0xF0, 0x0C, 0xF0, 0, 0xF0, 0, 0xF0, 0, 0xF0, 0, 0xF0, 0, 0xF0, 0, 0xF0, 0, 0xF0, 0, 0xF0, 0, 0xF0, 0, 0xF0, 0, 0xF0, 3, 0xFC, 3, 0xFC, 3, 0xFC],
     [0x0F, 0xF0, 0x3F, 0xFC, 0x7F, 0xFE, 0x7C, 0x3E, 0xF8, 0x1F, 0xF0, 0x0F, 0xF0, 0x0F, 0, 0x1F, 0, 0x3F, 0, 0x7E, 0, 0xFC, 1, 0xF8, 3, 0xF0, 7, 0xE0, 0x0F, 0xC0, 0x1F, 0x80, 0x3F, 0, 0x7E, 0, 0xFC, 0, 0xFF, 0xFF, 0xFF, 0xFF, 0xFF, 0xFF],
     [0x0F, 0xF0, 0x3F, 0xFC, 0x7F, 0xFE, 0x7C, 0x3E, 0xF8, 0x1F, 0xF0, 0x0F, 0xF0, 0x0F, 0, 0x1E, 0, 0x3E, 1, 0xFC, 1, 0xF8, 1, 0xFC, 0, 0x7E, 0, 0x1F, 0, 0x0F, 0xF0, 0x0F, 0xF0, 0x0F, 0xF8, 0x1F, 0x7C, 0x3E, 0x7F, 0xFE, 0x3F, 0xFC, 0x0F, 0xF0],
     [1, 0xF8, 1, 0xF8, 3, 0xF8, 3, 0xF8, 7, 0xF8, 7, 0xF8, 0x0F, 0xF8, 0x0F, 0x78, 0x1F, 0x78, 0x1E, 0x78, 0x3E, 0x78, 0x3C, 0x78, 0x7C, 0x78, 0x78, 0x78, 0xF8, 0x78, 0xFF, 0xFF, 0xFF, 0xFF, 0xFF, 0xFF, 0, 0x78, 0, 0x78, 0, 0x78, 0, 0x78],
     [0xFF, 0xFF, 0xFF, 0xFF, 0xFF, 0xFF, 0xF0, 0, 0xF0, 0, 0xF0, 0, 0xF0, 0, 0xF7, 0xF0, 0xFF, 0xFC, 0xFF, 0xFE, 0xFC, 0x3E, 0xF8, 0x1F, 0, 0x0F, 0, 0x0F, 0, 0x0F, 0, 0x0F, 0xF0, 0x0F, 0xF8, 0x1F, 0x7C, 0x3E, 0x7F, 0xFE, 0x3F, 0xFC, 0x0F, 0xF0],
     [0x0F, 0xF0, 0x3F, 0xFC, 0x7F, 0xFE, 0x7C, 0x3E, 0xF8, 0x1F, 0xF0, 0x0F, 0xF0, 0, 0xF0, 0, 0xF7, 0xF0, 0xFF, 0xFC, 0xFF, 0xFE, 0xFC, 0x3E, 0xF8, 0x1F, 0xF0, 0x0F, 0xF0, 0x0F, 0xF0, 0x0F, 0xF0, 0x0F, 0xF8, 0x1F, 0x7C, 0x3E, 0x7F, 0xFE, 0x3F, 0xFC, 0x0F, 0xF0],
     [0xFF, 0xFF, 0xFF, 0xFF, 0xFF, 0xFF, 0, 0x1F, 0, 0x3E, 0, 0x7C, 0, 0xF8, 1, 0xF0, 1, 0xE0, 3, 0xE0, 3, 0xC0, 7, 0xC0, 7, 0x80, 7, 0x80, 0x0F, 0x80, 0x0F, 0, 0x0F, 0, 0x0F, 0, 0x0F, 0, 0x0F, 0, 0x0F, 0, 0x0F, 0],
     [7, 0xE0, 0x1F, 0xF8, 0x3F, 0xFC, 0x7C, 0x3E, 0x78, 0x1E, 0x78, 0x1E, 0x78, 0x1E, 0x3C, 0x3C, 0x1F, 0xF8, 0x0F, 0xF0, 0x3F, 0xFC, 0x7C, 0x3E, 0x78, 0x1E, 0xF0, 0x0F, 0xF0, 0x0F, 0xF0, 0x0F, 0xF0, 0x0F, 0xF8, 0x1F, 0x7C, 0x3E, 0x7F, 0xFE, 0x3F, 0xFC, 0x0F, 0xF0]]"

definition num_1 :: "u8 list list" where
  "num_1 =
    [
     [0x0F, 0xF0, 0x3F, 0xFC, 0x7F, 0xFE, 0x7C, 0x3E, 0xF8, 0x1F, 0xF0, 0x0F, 0xF0, 0x0F, 0xF0, 0x0F, 0xF0, 0x0F, 0xF8, 0x1F, 0x7C, 0x3F, 0x7F, 0xFF, 0x3F, 0xFF, 0x0F, 0xFF, 0, 0x0F, 0, 0x0F, 0xF0, 0x0F, 0xF8, 0x1F, 0x7C, 0x3E, 0x7F, 0xFE, 0x3F, 0xFC, 0x0F, 0xF0],
     [0, 0, 0, 0, 0, 0, 0, 0, 0, 0, 0, 0, 0, 0, 0, 0, 0, 0, 0, 0, 0, 0, 0, 0, 0, 0, 0, 0, 0, 0, 0, 0, 0, 0, 3, 0x80, 7, 0xC0, 7, 0xC0, 3, 0x80, 0, 0],
     [0, 0, 0, 0, 0, 0, 0, 0, 0, 0, 0, 0, 0, 0, 0, 0, 0, 0, 0, 0, 0x3F, 0xFC, 0x3F, 0xFC, 0x3F, 0xFC, 0x3F, 0xFC, 0, 0, 0, 0, 0, 0, 0, 0, 0, 0, 0, 0, 0, 0, 0, 0],
     [0, 0, 0, 0, 0, 0x40, 0, 0xC0, 1, 0xC0, 3, 0xC0, 7, 0xC0, 0x0F, 0xFF, 0x1F, 0xFF, 0x3F, 0xFF, 0x7F, 0xFF, 0xFF, 0xFF, 0x7F, 0xFF, 0x3F, 0xFF, 0x1F, 0xFF, 0x0F, 0xFF, 7, 0xC0, 3, 0xC0, 1, 0xC0, 0, 0xC0, 0, 0x40, 0, 0],
     [0xF0, 0, 0xF0, 0, 0xF0, 0, 0xF0, 0, 0xF0, 0, 0xF0, 0, 0xF0, 0x3E, 0xF0, 0x7C, 0xF0, 0xF8, 0xF1, 0xF0, 0xF3, 0xE0, 0xF7, 0xC0, 0xFF, 0x80, 0xFF, 0, 0xFF, 0, 0xFF, 0x80, 0xF7, 0xC0, 0xF3, 0xE0, 0xF1, 0xF0, 0xF0, 0xF8, 0xF0, 0x7C, 0xF0, 0x3E],
     [0xF0, 0x0F, 0xF0, 0x0F, 0xF8, 0x1F, 0xF8, 0x1F, 0xFC, 0x3F, 0xFC, 0x3F, 0xFE, 0x7F, 0xFE, 0x7F, 0xFF, 0xFF, 0xFF, 0xFF, 0xFF, 0xFF, 0xFF, 0xFF, 0xF7, 0xEF, 0xF7, 0xEF, 0xF3, 0xCF, 0xF3, 0xCF, 0xF1, 0x8F, 0xF1, 0x8F, 0xF0, 0x0F, 0xF0, 0x0F, 0xF0, 0x0F, 0xF0, 0x0F],
     [0x0F, 0xF0, 0x3F, 0xFC, 0x7F, 0xFE, 0x7C, 0x3E, 0xF8, 0x1F, 0xF0, 0x0F, 0xF0, 0x0F, 0xF0, 0x0F, 0xF0, 0, 0xF0, 0, 0xF0, 0, 0xF0, 0, 0xF0, 0x3F, 0xF0, 0x3F, 0xF0, 0x3F, 0xF0, 7, 0xF0, 0x0F, 0xF8, 0x1F, 0x7C, 0x3F, 0x7F, 0xFF, 0x3F, 0xF7, 0x0F, 0xE7],
     [0, 0, 0, 0, 0, 0, 0, 0, 0, 0, 0, 0, 0, 0, 0, 0, 0xEE, 0x1C, 0xFF, 0x3E, 0xFF, 0xFF, 0xFF, 0xFF, 0xF3, 0xCF, 0xF3, 0xCF, 0xF3, 0xCF, 0xF3, 0xCF, 0xF3, 0xCF, 0xF3, 0xCF, 0xF3, 0xCF, 0xF3, 0xCF, 0xF3, 0xCF, 0xF3, 0xCF],
     [0, 0, 0, 0, 0, 0, 0, 0, 0, 0, 0, 0, 0xF0, 0x1E, 0xF0, 0x1E, 0xF0, 0x1E, 0xF0, 0x1E, 0xF0, 0x1E, 0xF0, 0x1E, 0xF0, 0x1E, 0xF0, 0x1E, 0xF8, 0x3E, 0xFC, 0x7E, 0xFF, 0xFE, 0xFF, 0xFF, 0xF7, 0xCF, 0xF3, 0x87, 0xF0, 0, 0xF0, 0]]"

definition num_2 :: "u8 list list" where
  "num_2 =
    [
     [0, 0, 0, 0, 0, 0, 0, 0, 0, 0, 0, 0, 0, 0, 0, 0, 0xF1, 0xF0, 0xF7, 0xFC, 0xFF, 0xFE, 0xFE, 0x3E, 0xFC, 0x1F, 0xF8, 0x0F, 0xF0, 0x0F, 0xF0, 0x0F, 0xF0, 0x0F, 0xF0, 0x0F, 0xF0, 0x0F, 0xF0, 0x0F, 0xF0, 0x0F, 0xF0, 0x0F],
     [0, 0, 0, 0, 0, 0, 0, 0, 0, 0, 0, 0, 0xF3, 0xF0, 0xF7, 0xFC, 0xFF, 0xFE, 0xFE, 0x1F, 0xFC, 0x0F, 0xF8, 7, 0xF8, 7, 0xF8, 7, 0xFC, 0x0F, 0xFE, 0x1F, 0xFF, 0xFE, 0xF7, 0xFC, 0xF3, 0xF0, 0xF0, 0, 0xF0, 0, 0xF0, 0],
     [0, 3, 0, 7, 0, 0x0F, 0, 0x1F, 0, 0x3F, 0, 0x7F, 0, 0x0F, 0, 0x0F, 0, 0x0F, 0x60, 0xCF, 0xF1, 0xEF, 0x7B, 0xCF, 0x3F, 0x8F, 0x1F, 0x0F, 0x1F, 0x0F, 0x3F, 0x8F, 0x7B, 0xCF, 0xF1, 0xEF, 0x60, 0xCF, 0, 0x0F, 0, 0x0F, 0, 0x0F],
     [0xF4, 0x5F, 0x86, 0x44, 0xF5, 0x44, 0x84, 0xC4, 0xF4, 0x44, 0, 0, 0, 0, 0, 0x0F, 0, 0x0F, 0, 0x0F, 0, 0x0F, 0, 0x0F, 0, 0x0F, 0, 0x0F, 0x18, 0x0F, 0x38, 0x0F, 0x7F, 0xFF, 0xFF, 0xFF, 0xFF, 0xFF, 0x7F, 0xFF, 0x38, 0, 0x18, 0],
     [0, 0, 0x3C, 0, 0x7E, 0, 0xE7, 3, 0xC3, 7, 0xC3, 0x0F, 0xE7, 0x1E, 0x7E, 0x3C, 0x3C, 0x78, 0, 0xF0, 1, 0xE0, 3, 0xC0, 7, 0x80, 0x0F, 0, 0x1E, 0x3C, 0x3C, 0x7E, 0x78, 0xE7, 0xF0, 0xC3, 0xE0, 0xC3, 0xC0, 0xE7, 0, 0x7E, 0, 0x3C],
     [0, 0, 0, 0, 0, 0, 0, 0, 0, 0, 0x1E, 0x3C, 0x3F, 0x7E, 0x73, 0xE6, 0x61, 0xC3, 0xE1, 0xC3, 0xC1, 0x83, 0xC1, 0x83, 0xC1, 0x83, 0xC1, 0x83, 0xC3, 0x87, 0xC3, 0x86, 0x67, 0xCE, 0x7E, 0xFC, 0x3C, 0x78, 0, 0, 0, 0, 0, 0],
     [0, 0, 0, 0, 0, 0, 7, 0x7C, 7, 0x7E, 3, 0x66, 3, 0x66, 3, 0x66, 3, 0x66, 3, 0x66, 0x3B, 0x7C, 0x7F, 0x7E, 0xE7, 0x67, 0xC3, 0x63, 0xC3, 0x63, 0xC3, 0x63, 0xC3, 0x63, 0xC3, 0x63, 0xC3, 0x63, 0xE7, 0x67, 0x7F, 0x7E, 0x3B, 0x7C],
     [0, 0, 0, 0, 3, 0x80, 3, 0x80, 3, 0x80, 3, 0x80, 0x3F, 0xF8, 0x3F, 0xF8, 0x3F, 0xF8, 3, 0x80, 3, 0x80, 3, 0x80, 3, 0x80, 0, 0, 0, 0, 0x3F, 0xF8, 0x3F, 0xF8, 0x3F, 0xF8, 0, 0, 0, 0, 0, 0, 0, 0],
     [0, 0, 0x7B, 0xDE, 0x7B, 0xDE, 0x7B, 0xDE, 0x7B, 0xDE, 0, 0, 0x7B, 0xDE, 0x7B, 0xDE, 0x7B, 0xDE, 0x7B, 0xDE, 0, 0, 0x7B, 0xDE, 0x7B, 0xDE, 0x7B, 0xDE, 0x7B, 0xDE, 0, 0, 0x7B, 0xDE, 0x7B, 0xDE, 0x7B, 0xDE, 0x7B, 0xDE, 0, 0, 0, 0]]"

definition num_3 :: "u8 list list" where
  "num_3 =
    [
     [0, 0, 0, 0, 0, 0, 0, 0, 0, 0, 0, 0, 0, 0, 0, 0, 0, 0, 0, 0, 0, 0, 0, 0, 0, 0, 0, 0, 0, 0, 0, 0, 0, 0, 0, 0, 0, 0, 0, 0, 0, 0, 0, 0],
     [0, 0, 0, 0, 0, 0, 0, 0, 0, 0, 0, 0, 3, 0xC0, 3, 0xC0, 3, 0xC0, 3, 0xC0, 0x3F, 0xFC, 0x3F, 0xFC, 0x3F, 0xFC, 0x3F, 0xFC, 3, 0xC0, 3, 0xC0, 3, 0xC0, 3, 0xC0, 0, 0, 0, 0, 0, 0, 0, 0]]"

definition num_glyphs :: "u8 list list" where
  "num_glyphs = concat [num_0, num_1, num_2, num_3]"

definition x5x7_bits :: "u8 list" where "x5x7_bits = concat (map glyph_bytes x5x7_glyphs)"
definition x6x10_bits :: "u8 list" where "x6x10_bits = concat (map glyph_bytes x6x10_glyphs)"
definition x7x11b_bits :: "u8 list" where "x7x11b_bits = concat (map glyph_bytes x7x11b_glyphs)"
definition numfont16x22 :: "u8 list" where "numfont16x22 = concat num_glyphs"

section \<open>Access\<close>

text \<open>The macros \<open>FONT_GET_DATA\<close> and \<open>FONT_GET_WIDTH\<close> for a font of height \<open>h\<close>; \<open>None\<close> is an access outside the array.\<close>

definition FONT_START_CHAR :: nat where "FONT_START_CHAR = 0x16"

definition font_data :: "nat \<Rightarrow> u8 list \<Rightarrow> nat \<Rightarrow> u8 list option" where
  "font_data h bits ch =
     (if ch < FONT_START_CHAR \<or> (ch - FONT_START_CHAR) * h \<ge> length bits then None
      else Some (drop ((ch - FONT_START_CHAR) * h) bits))"

definition font_width :: "nat \<Rightarrow> u8 list \<Rightarrow> nat \<Rightarrow> u16 option" where
  "font_width h bits ch = map_option (\<lambda>d. 8 - ucast (hd d AND 7)) (font_data h bits ch)"

definition num_font_data :: "nat \<Rightarrow> u8 list option" where
  "num_font_data ch = (if ch * 2 * 22 \<ge> length numfont16x22 then None else Some (drop (ch * 2 * 22) numfont16x22))"

section \<open>Shape of the glyphs\<close>

text \<open>
  A glyph of the right height, with a width of at most 8, no pixel beyond it, and a first row whose visible
  pixels leave the code of the width intact.
\<close>

definition glyph_ok :: "nat \<Rightarrow> glyph \<Rightarrow> bool" where
  "glyph_ok h g =
     (case g of (w, rows) \<Rightarrow> length rows = h \<and> 3 \<le> w \<and> w \<le> 8 \<and> (hd rows OR of_nat (8 - w)) AND 7 = (of_nat (8 - w) :: u8) \<and>
        list_all (\<lambda>r. r AND (2 ^ (8 - w) - 1) = 0) rows)"

lemma x5x7_0_ok: "list_all (glyph_ok 7) x5x7_0 \<and> length x5x7_0 = 15"
  by (simp add: x5x7_0_def glyph_ok_def)

lemma x5x7_1_ok: "list_all (glyph_ok 7) x5x7_1 \<and> length x5x7_1 = 15"
  by (simp add: x5x7_1_def glyph_ok_def)

lemma x5x7_2_ok: "list_all (glyph_ok 7) x5x7_2 \<and> length x5x7_2 = 15"
  by (simp add: x5x7_2_def glyph_ok_def)

lemma x5x7_3_ok: "list_all (glyph_ok 7) x5x7_3 \<and> length x5x7_3 = 15"
  by (simp add: x5x7_3_def glyph_ok_def)

lemma x5x7_4_ok: "list_all (glyph_ok 7) x5x7_4 \<and> length x5x7_4 = 15"
  by (simp add: x5x7_4_def glyph_ok_def)

lemma x5x7_5_ok: "list_all (glyph_ok 7) x5x7_5 \<and> length x5x7_5 = 15"
  by (simp add: x5x7_5_def glyph_ok_def)

lemma x5x7_6_ok: "list_all (glyph_ok 7) x5x7_6 \<and> length x5x7_6 = 15"
  by (simp add: x5x7_6_def glyph_ok_def)

lemma x5x7_glyphs_ok: "list_all (glyph_ok 7) x5x7_glyphs" "length x5x7_glyphs = 105"
  unfolding x5x7_glyphs_def using x5x7_0_ok x5x7_1_ok x5x7_2_ok x5x7_3_ok x5x7_4_ok x5x7_5_ok x5x7_6_ok by simp_all

lemma x6x10_0_ok: "list_all (glyph_ok 10) x6x10_0 \<and> length x6x10_0 = 12"
  by (simp add: x6x10_0_def glyph_ok_def)

lemma x6x10_1_ok: "list_all (glyph_ok 10) x6x10_1 \<and> length x6x10_1 = 12"
  by (simp add: x6x10_1_def glyph_ok_def)

lemma x6x10_2_ok: "list_all (glyph_ok 10) x6x10_2 \<and> length x6x10_2 = 12"
  by (simp add: x6x10_2_def glyph_ok_def)

lemma x6x10_3_ok: "list_all (glyph_ok 10) x6x10_3 \<and> length x6x10_3 = 12"
  by (simp add: x6x10_3_def glyph_ok_def)

lemma x6x10_4_ok: "list_all (glyph_ok 10) x6x10_4 \<and> length x6x10_4 = 12"
  by (simp add: x6x10_4_def glyph_ok_def)

lemma x6x10_5_ok: "list_all (glyph_ok 10) x6x10_5 \<and> length x6x10_5 = 12"
  by (simp add: x6x10_5_def glyph_ok_def)

lemma x6x10_6_ok: "list_all (glyph_ok 10) x6x10_6 \<and> length x6x10_6 = 12"
  by (simp add: x6x10_6_def glyph_ok_def)

lemma x6x10_7_ok: "list_all (glyph_ok 10) x6x10_7 \<and> length x6x10_7 = 12"
  by (simp add: x6x10_7_def glyph_ok_def)

lemma x6x10_8_ok: "list_all (glyph_ok 10) x6x10_8 \<and> length x6x10_8 = 9"
  by (simp add: x6x10_8_def glyph_ok_def)

lemma x6x10_glyphs_ok: "list_all (glyph_ok 10) x6x10_glyphs" "length x6x10_glyphs = 105"
  unfolding x6x10_glyphs_def using x6x10_0_ok x6x10_1_ok x6x10_2_ok x6x10_3_ok x6x10_4_ok x6x10_5_ok x6x10_6_ok x6x10_7_ok x6x10_8_ok by simp_all

lemma x7x11b_0_ok: "list_all (glyph_ok 11) x7x11b_0 \<and> length x7x11b_0 = 11"
  by (simp add: x7x11b_0_def glyph_ok_def)

lemma x7x11b_1_ok: "list_all (glyph_ok 11) x7x11b_1 \<and> length x7x11b_1 = 11"
  by (simp add: x7x11b_1_def glyph_ok_def)

lemma x7x11b_2_ok: "list_all (glyph_ok 11) x7x11b_2 \<and> length x7x11b_2 = 11"
  by (simp add: x7x11b_2_def glyph_ok_def)

lemma x7x11b_3_ok: "list_all (glyph_ok 11) x7x11b_3 \<and> length x7x11b_3 = 11"
  by (simp add: x7x11b_3_def glyph_ok_def)

lemma x7x11b_4_ok: "list_all (glyph_ok 11) x7x11b_4 \<and> length x7x11b_4 = 11"
  by (simp add: x7x11b_4_def glyph_ok_def)

lemma x7x11b_5_ok: "list_all (glyph_ok 11) x7x11b_5 \<and> length x7x11b_5 = 11"
  by (simp add: x7x11b_5_def glyph_ok_def)

lemma x7x11b_6_ok: "list_all (glyph_ok 11) x7x11b_6 \<and> length x7x11b_6 = 11"
  by (simp add: x7x11b_6_def glyph_ok_def)

lemma x7x11b_7_ok: "list_all (glyph_ok 11) x7x11b_7 \<and> length x7x11b_7 = 11"
  by (simp add: x7x11b_7_def glyph_ok_def)

lemma x7x11b_8_ok: "list_all (glyph_ok 11) x7x11b_8 \<and> length x7x11b_8 = 11"
  by (simp add: x7x11b_8_def glyph_ok_def)

lemma x7x11b_9_ok: "list_all (glyph_ok 11) x7x11b_9 \<and> length x7x11b_9 = 6"
  by (simp add: x7x11b_9_def glyph_ok_def)

lemma x7x11b_glyphs_ok: "list_all (glyph_ok 11) x7x11b_glyphs" "length x7x11b_glyphs = 105"
  unfolding x7x11b_glyphs_def using x7x11b_0_ok x7x11b_1_ok x7x11b_2_ok x7x11b_3_ok x7x11b_4_ok x7x11b_5_ok x7x11b_6_ok x7x11b_7_ok x7x11b_8_ok x7x11b_9_ok by simp_all

lemma concat_blocks:
  assumes "\<forall>b \<in> set bs. length b = h" "i < length bs"
  shows "drop (i * h) (concat bs) = bs ! i @ drop (Suc i * h) (concat bs)" "length (concat bs) = length bs * h"
  using assms
proof (induction bs arbitrary: i)
  case (Cons b bs)
  {
    case 1
    then show ?case using Cons.IH(1) by (cases i) (auto simp: add.commute)
  next
    case 2
    then show ?case using Cons.IH(2) by (cases bs) auto
  }
qed simp_all

lemma glyph_bytes_length: "glyph_ok h g \<Longrightarrow> 0 < h \<Longrightarrow> length (glyph_bytes g) = h"
  by (cases g) (auto simp: glyph_ok_def glyph_bytes_def)

lemma font_glyph:
  assumes "list_all (glyph_ok h) gs" "length gs = 105" "0 < h" "0x16 \<le> ch" "ch \<le> 0x7E"
  shows "\<exists>d. font_data h (concat (map glyph_bytes gs)) ch = Some d \<and> h \<le> length d \<and> take h d = glyph_bytes (gs ! (ch - 0x16)) \<and>
    font_width h (concat (map glyph_bytes gs)) ch = Some (of_nat (fst (gs ! (ch - 0x16)))) \<and>
    3 \<le> fst (gs ! (ch - 0x16)) \<and> fst (gs ! (ch - 0x16)) \<le> 8"
proof -
  let ?i = "ch - 0x16" and ?bs = "map glyph_bytes gs"
  have i: "?i < length ?bs" using assms by simp
  have all: "\<forall>b \<in> set ?bs. length b = h" using assms(1,3) by (auto simp: list_all_iff glyph_bytes_length)
  have g: "glyph_ok h (gs ! ?i)" using assms(1) i by (simp add: list_all_length)
  obtain w rows where wr: "gs ! ?i = (w, rows)" by force
  have d: "font_data h (concat ?bs) ch = Some (glyph_bytes (gs ! ?i) @ drop (Suc ?i * h) (concat ?bs))"
    using concat_blocks [OF all i] i assms(3,4) by (simp add: font_data_def FONT_START_CHAR_def)
  have w: "3 \<le> w" "w \<le> 8" "(hd rows OR of_nat (8 - w)) AND 7 = (of_nat (8 - w) :: u8)" using g by (auto simp: glyph_ok_def wr)
  have "w = 3 \<or> w = 4 \<or> w = 5 \<or> w = 6 \<or> w = 7 \<or> w = 8" using w(1,2) by arith
  then have "8 - ucast ((hd rows OR of_nat (8 - w)) AND 7) = (of_nat w :: u16)" unfolding w(3) by auto
  then have "font_width h (concat ?bs) ch = Some (of_nat w)"
    by (simp add: font_width_def d glyph_bytes_def wr)
  then show ?thesis
    using d w glyph_bytes_length [OF g assms(3)] by (simp add: wr)
qed

text \<open>
  C39 Every character from 0x16 to the tilde has a glyph inside the array of each font: as many rows as the
  font is high, and the width read from its first byte is the declared one, between 3 and 8.
\<close>

theorem fonts_in_range:
  assumes "(h, bits, gs) \<in> {(7, x5x7_bits, x5x7_glyphs), (10, x6x10_bits, x6x10_glyphs), (11, x7x11b_bits, x7x11b_glyphs)}"
    "0x16 \<le> ch" "ch \<le> 0x7E"
  shows "\<exists>d. font_data h bits ch = Some d \<and> h \<le> length d \<and> take h d = glyph_bytes (gs ! (ch - 0x16)) \<and>
    font_width h bits ch = Some (of_nat (fst (gs ! (ch - 0x16)))) \<and> 3 \<le> fst (gs ! (ch - 0x16)) \<and> fst (gs ! (ch - 0x16)) \<le> 8"
  using assms(1)
  by (auto simp: x5x7_bits_def x6x10_bits_def x7x11b_bits_def
      intro!: font_glyph [OF x5x7_glyphs_ok _ assms(2,3)] font_glyph [OF x6x10_glyphs_ok _ assms(2,3)] font_glyph [OF x7x11b_glyphs_ok _ assms(2,3)])

theorem fonts_in_range_witness:
  "\<exists>d. font_data 10 x6x10_bits 0x41 = Some d \<and> take 10 d = glyph_bytes (6, [0x78, 0x88, 0x88, 0x88, 0xF8, 0x88, 0x88, 0x88, 0x88, 0]) \<and>
    font_width 10 x6x10_bits 0x41 = Some 6"
proof -
  have g: "x6x10_glyphs ! (0x41 - 0x16) = (6, [0x78, 0x88, 0x88, 0x88, 0xF8, 0x88, 0x88, 0x88, 0x88, 0])"
    by (simp add: x6x10_glyphs_def x6x10_0_def x6x10_1_def x6x10_2_def x6x10_3_def)
  from fonts_in_range [where h = 10 and bits = x6x10_bits and gs = x6x10_glyphs and ch = "0x41"] show ?thesis unfolding g by auto
qed

end
