(* ===== verification/Lcd.thy ===== *)
theory Lcd
  imports Fonts Chprintf "HOL-Library.Signed_Division"
begin

text \<open>
  The display driver, \<open>src/src/driver/lcd.c\<close>, for the panels with ILI9341 or ST7789 controller: windows,
  fills, lines, bitmaps, text and reading back. What it sends is recorded in order: a command with its
  parameter bytes, and pixels in 16 bits. A window is followed by the pixels of its rows. Waiting for the
  bus is left out; the DMA transfers are the pixels they carry.
\<close>

unbundle bit_operations_syntax

section \<open>Windows and colours\<close>

datatype lcd_event =
    Lcd_Command u8 "u8 list"
  | Lcd_Pixel u16

record lcd =
  foreground_color :: u16
  background_color :: u16
  lcd_palette :: "u16 list"
  lcd_type_st7789v :: bool
  font_small :: bool
  lcd_out :: "lcd_event list"

definition DISPLAY_WIDTH :: int where "DISPLAY_WIDTH = 320"
definition DISPLAY_HEIGHT :: int where "DISPLAY_HEIGHT = 240"
definition SPI_BUFFER_SIZE :: nat where "SPI_BUFFER_SIZE = 64 div 2 * 16 * 2"

definition LCD_CASET :: u8 where "LCD_CASET = 0x2A"
definition LCD_RASET :: u8 where "LCD_RASET = 0x2B"
definition LCD_RAMWR :: u8 where "LCD_RAMWR = 0x2C"
definition LCD_RAMRD :: u8 where "LCD_RAMRD = 0x2E"
definition LCD_MADCTL :: u8 where "LCD_MADCTL = 0x36"

definition lcd_send :: "lcd_event list \<Rightarrow> lcd \<Rightarrow> lcd" where
  "lcd_send es s = s\<lparr>lcd_out := lcd_out s @ es\<rparr>"

text \<open>\<open>__REV16\<close> swaps the bytes of each half; the four bytes are sent as they lie in memory.\<close>

definition rev16 :: "u32 \<Rightarrow> u32" where
  "rev16 x = push_bit 8 (x AND 0x00FF00FF) OR (drop_bit 8 x AND 0x00FF00FF)"

definition word_bytes :: "u32 \<Rightarrow> u8 list" where
  "word_bytes x = [ucast x, ucast (drop_bit 8 x), ucast (drop_bit 16 x), ucast (drop_bit 24 x)]"

definition window_side :: "int \<Rightarrow> int \<Rightarrow> u8 list" where
  "window_side x w = word_bytes (rev16 (word_of_int x OR push_bit 16 (word_of_int (x + w - 1))))"

definition window_events :: "int \<Rightarrow> int \<Rightarrow> int \<Rightarrow> int \<Rightarrow> u8 \<Rightarrow> lcd_event list" where
  "window_events x y w h cmd =
     [Lcd_Command LCD_CASET (window_side x w), Lcd_Command LCD_RASET (window_side y h), Lcd_Command cmd []]"

definition lcd_set_window :: "int \<Rightarrow> int \<Rightarrow> int \<Rightarrow> int \<Rightarrow> u8 \<Rightarrow> lcd \<Rightarrow> lcd" where
  "lcd_set_window x y w h cmd s = lcd_send (window_events x y w h cmd) s"

definition palette_color :: "u16 \<Rightarrow> lcd \<Rightarrow> u16 option" where
  "palette_color i s = (if unat i < length (lcd_palette s) then Some (lcd_palette s ! unat i) else None)"

definition lcd_set_foreground :: "u16 \<Rightarrow> lcd \<Rightarrow> lcd option" where
  "lcd_set_foreground i s = map_option (\<lambda>c. s\<lparr>foreground_color := c\<rparr>) (palette_color i s)"

definition lcd_set_background :: "u16 \<Rightarrow> lcd \<Rightarrow> lcd option" where
  "lcd_set_background i s = map_option (\<lambda>c. s\<lparr>background_color := c\<rparr>) (palette_color i s)"

definition lcd_set_colors :: "u16 \<Rightarrow> u16 \<Rightarrow> lcd \<Rightarrow> lcd option" where
  "lcd_set_colors fg bg s = Option.bind (lcd_set_foreground fg s) (lcd_set_background bg)"

section \<open>Initialisation\<close>

text \<open>The two sequences: command, number of parameters, parameters; a 0 ends them.\<close>

definition ili9341_init_seq :: "u8 list" where
  "ili9341_init_seq =
    [0x01, 0, 0x28, 0, 0xC0, 1, 0x23, 0xC1, 1, 0x10, 0xC5, 2, 0x3e, 0x28, 0xC7, 1, 0xBE, 0x36, 1, 0x20 OR 0x08, 0x3A, 1, 0x55,
     0xB1, 2, 0x00, 0x18, 0x26, 1, 0x01,
     0xE0, 15, 0x0F, 0x31, 0x2B, 0x0C, 0x0E, 0x08, 0x4E, 0xF1, 0x37, 0x07, 0x10, 0x03, 0x0E, 0x09, 0x00,
     0xE1, 15, 0x00, 0x0E, 0x14, 0x03, 0x11, 0x07, 0x31, 0xC1, 0x48, 0x08, 0x0F, 0x0C, 0x31, 0x36, 0x0F,
     0xB7, 1, 0x06, 0xB6, 3, 0x08, 0x82, 0x27, 0xF6, 3, 0x00, 0x00, 0x00, 0x11, 0, 0x29, 0, 0]"

definition ST7789V_init_seq :: "u8 list" where
  "ST7789V_init_seq =
    [0x01, 0, 0x28, 0, 0x36, 1, 0x40 OR 0x20 OR 0x00, 0x3A, 1, 0x55, 0xBB, 1, 0x1F, 0xC2, 2, 0x01, 0xC3, 0x11, 0, 0x29, 0, 0]"

definition ST7789V_ID :: u32 where "ST7789V_ID = 0x858552"

definition get_lcd_init :: "u32 \<Rightarrow> lcd \<Rightarrow> u8 list \<times> lcd" where
  "get_lcd_init rddid s =
     (let s = (if drop_bit 7 rddid = ST7789V_ID then s\<lparr>lcd_type_st7789v := True\<rparr> else s)
      in (if lcd_type_st7789v s then ST7789V_init_seq else ili9341_init_seq, s))"

text \<open>The loop of \<open>lcd_init\<close>; \<open>None\<close> is a read behind the sequence.\<close>

fun init_events :: "u8 list \<Rightarrow> lcd_event list option" where
  "init_events [] = None"
| "init_events (c # p) =
     (if c = 0 then Some []
      else case p of
        [] \<Rightarrow> None
      | n # q \<Rightarrow> if length q < unat n then None
                else map_option ((#) (Lcd_Command c (take (unat n) q))) (init_events (drop (unat n) q)))"

definition lcd_rotation_const :: "u8 list" where
  "lcd_rotation_const =
    [0x20 OR 0x08, 0x80 OR 0x08, 0x40 OR 0x80 OR 0x20 OR 0x08, 0x40 OR 0x08,
     0x40 OR 0x20 OR 0x00, 0x00, 0x80 OR 0x20 OR 0x00, 0x40 OR 0x80 OR 0x00]"

definition lcd_set_rotation :: "nat \<Rightarrow> lcd \<Rightarrow> lcd" where
  "lcd_set_rotation r s = lcd_send [Lcd_Command LCD_MADCTL [lcd_rotation_const ! ((if lcd_type_st7789v s then 1 else 0) * 4 + r)]] s"

definition lcd_set_flip :: "bool \<Rightarrow> lcd \<Rightarrow> lcd" where
  "lcd_set_flip flip s = lcd_set_rotation (if flip then 2 else 0) s"

section \<open>Filling\<close>

text \<open>The transfers of a fill: one has at most 65535 pixels.\<close>

function fill_transfers :: "u32 \<Rightarrow> nat list" where
  "fill_transfers len =
     (if len = 0 then []
      else let delta = (if len > 0xFFFF then 0xFFFF else len) in unat delta # fill_transfers (len - delta))"
  by pat_completeness auto
termination
  by (relation "measure unat") (auto simp: unat_sub word_less_nat_alt word_le_nat_alt unat_eq_0 Let_def unat_gt_0)

declare fill_transfers.simps [simp del]

definition lcd_fill :: "int \<Rightarrow> int \<Rightarrow> int \<Rightarrow> int \<Rightarrow> lcd \<Rightarrow> lcd" where
  "lcd_fill x y w h s =
     (let s = lcd_set_window x y w h LCD_RAMWR s
      in lcd_send (concat (map (\<lambda>n. replicate n (Lcd_Pixel (background_color s))) (fill_transfers (word_of_int (w * h))))) s)"

definition lcd_clear_screen :: "lcd \<Rightarrow> lcd" where
  "lcd_clear_screen s = lcd_fill 0 0 DISPLAY_WIDTH DISPLAY_HEIGHT s"

definition lcd_init :: "u32 \<Rightarrow> lcd \<Rightarrow> lcd option" where
  "lcd_init rddid s =
     (case get_lcd_init rddid s of (p, s) \<Rightarrow> map_option (\<lambda>es. lcd_clear_screen (lcd_send es s)) (init_events p))"

section \<open>Lines\<close>

text \<open>
  The two nested loops of \<open>lcd_line\<close>, entered in the inner one. The window of a row reaches to the right
  border. There is no bound on the number of rounds.
\<close>

partial_function (option) line_loop :: "int \<Rightarrow> int \<Rightarrow> int \<Rightarrow> int \<Rightarrow> int \<Rightarrow> int \<Rightarrow> int \<Rightarrow> u16 \<Rightarrow> int \<Rightarrow> lcd_event list option" where
  "line_loop x1 y1 dx dy sy x0 y0 color err =
     (if x0 = x1 \<and> y0 = y1 then Some [Lcd_Pixel color]
      else
        let e2 = err;
            err = (if e2 > dx then err - dy else err);
            x0 = (if e2 > dx then x0 + 1 else x0)
        in if e2 < dy
           then Option.bind (line_loop x1 y1 dx dy sy x0 (y0 + sy) color (err - dx))
                  (\<lambda>es. Some (Lcd_Pixel color # window_events x0 (y0 + sy) (DISPLAY_WIDTH - x0) 1 LCD_RAMWR @ es))
           else Option.bind (line_loop x1 y1 dx dy sy x0 y0 color err) (\<lambda>es. Some (Lcd_Pixel color # es)))"

definition lcd_line :: "int \<Rightarrow> int \<Rightarrow> int \<Rightarrow> int \<Rightarrow> lcd \<Rightarrow> lcd option" where
  "lcd_line x0 y0 x1 y1 s =
     (case if x1 < x0 then (x1, y1, x0, y0) else (x0, y0, x1, y1) of
        (x0, y0, x1, y1) \<Rightarrow>
          let dx = - (x1 - x0);
              dy = \<bar>y1 - y0\<bar>;
              sy = (if y1 - y0 < 0 then -1 else 1);
              err = - (if dx + dy < 0 then dx else dy) sdiv 2
          in map_option (\<lambda>es. lcd_send (window_events x0 y0 (DISPLAY_WIDTH - x0) 1 LCD_RAMWR @ es) s)
               (line_loop x1 y1 dx dy sy x0 y0 (foreground_color s) err))"

section \<open>Bitmaps\<close>

text \<open>
  A row of a bitmap: \<open>r\<close> is the column, \<open>bits\<close> the shifted byte, the list what \<open>b\<close> points to. A row starts with a
  new byte. \<open>None\<close> is a read behind the bitmap.
\<close>

fun blit_row :: "u16 \<Rightarrow> u16 \<Rightarrow> nat \<Rightarrow> nat \<Rightarrow> u8 \<Rightarrow> u8 list \<Rightarrow> (u16 list \<times> u8 list) option" where
  "blit_row fg bg 0 r bits b = Some ([], b)"
| "blit_row fg bg (Suc n) r bits b =
     (case if r AND 7 = 0 then (case b of [] \<Rightarrow> None | x # b \<Rightarrow> Some (x, b)) else Some (bits, b) of
        None \<Rightarrow> None
      | Some (bits, b) \<Rightarrow>
          map_option (\<lambda>(p, b). ((if 0x80 AND bits \<noteq> 0 then fg else bg) # p, b)) (blit_row fg bg n (Suc r) (push_bit 1 bits) b))"

fun blit_rows :: "u16 \<Rightarrow> u16 \<Rightarrow> nat \<Rightarrow> nat \<Rightarrow> u8 list \<Rightarrow> u16 list option" where
  "blit_rows fg bg width 0 b = Some []"
| "blit_rows fg bg width (Suc h) b =
     (case blit_row fg bg width 0 0 b of
        None \<Rightarrow> None
      | Some (p, b) \<Rightarrow> map_option ((@) p) (blit_rows fg bg width h b))"

text \<open>\<open>lcd_bulk\<close> sends the first pixels of \<open>spi_buffer\<close>; writing behind the buffer is \<open>None\<close>.\<close>

definition lcd_bulk :: "int \<Rightarrow> int \<Rightarrow> int \<Rightarrow> int \<Rightarrow> u16 list \<Rightarrow> lcd \<Rightarrow> lcd option" where
  "lcd_bulk x y w h buf s =
     (if length buf > SPI_BUFFER_SIZE then None
      else Some (lcd_send (map Lcd_Pixel (take (nat (w * h)) buf)) (lcd_set_window x y w h LCD_RAMWR s)))"

definition lcd_blit_bitmap :: "u16 \<Rightarrow> u16 \<Rightarrow> u16 \<Rightarrow> u16 \<Rightarrow> u8 list \<Rightarrow> lcd \<Rightarrow> lcd option" where
  "lcd_blit_bitmap x y width height b s =
     Option.bind (blit_rows (foreground_color s) (background_color s) (unat width) (unat height) b)
       (\<lambda>buf. lcd_bulk (uint x) (uint y) (uint width) (uint height) buf s)"

section \<open>Text\<close>

text \<open>
  The normal font is \<open>x6x10_bits\<close> and the small one \<open>x5x7_bits\<close>. A position is a \<open>uint16_t\<close>, the same word as
  the \<open>int16_t\<close> of the stream. \<open>None\<close> is an access outside the font, the palette or the buffer.
\<close>

definition font_bits :: "bool \<Rightarrow> u8 list" where "font_bits small = (if small then x5x7_bits else x6x10_bits)"
definition font_height :: "bool \<Rightarrow> nat" where "font_height small = (if small then 7 else 10)"
definition font_str_height :: "bool \<Rightarrow> u16" where "font_str_height small = (if small then 8 else 11)"

record lcdPrintStream =
  start_x :: u16
  cur_x :: u16
  cur_y :: u16
  ps_state :: u16

definition put_glyph :: "bool \<Rightarrow> u16 \<Rightarrow> u16 \<Rightarrow> u8 \<Rightarrow> lcd \<Rightarrow> (u16 \<times> lcd) option" where
  "put_glyph small x y ch s =
     (case (font_width (font_height small) (font_bits small) (unat ch), font_data (font_height small) (font_bits small) (unat ch)) of
        (Some w, Some d) \<Rightarrow> map_option (\<lambda>s. (w, s)) (lcd_blit_bitmap x y w (of_nat (font_height small)) d s)
      | _ \<Rightarrow> None)"

text \<open>\<open>put_normal\<close> and \<open>put_small\<close>; \<open>lcd_set_font\<close> chooses.\<close>

definition put_char :: "lcdPrintStream \<Rightarrow> u8 \<Rightarrow> lcd \<Rightarrow> (lcdPrintStream \<times> lcd) option" where
  "put_char ps ch s =
     (if ch = 0x0A then Some (ps\<lparr>cur_x := start_x ps, cur_y := cur_y ps + font_str_height (font_small s)\<rparr>, s)
      else map_option (\<lambda>(w, s). (ps\<lparr>cur_x := cur_x ps + w\<rparr>, s)) (put_glyph (font_small s) (cur_x ps) (cur_y ps) ch s))"

definition lcd_set_font :: "bool \<Rightarrow> lcd \<Rightarrow> lcd" where
  "lcd_set_font small s = s\<lparr>font_small := small\<rparr>"

definition lcd_put :: "lcdPrintStream \<Rightarrow> u8 \<Rightarrow> lcd \<Rightarrow> (lcdPrintStream \<times> lcd) option" where
  "lcd_put ps ch s =
     (if ps_state ps \<noteq> 0 then
        map_option (\<lambda>s. (ps\<lparr>ps_state := 0\<rparr>, s))
          (if ps_state ps = 1 then lcd_set_background (ucast ch) s
           else if ps_state ps = 2 then lcd_set_foreground (ucast ch) s
           else Some s)
      else if ch < 0x09 then Some (ps\<lparr>ps_state := ucast ch\<rparr>, s)
      else put_char ps ch s)"

fun lcd_puts :: "lcdPrintStream \<Rightarrow> u8 list \<Rightarrow> lcd \<Rightarrow> (lcdPrintStream \<times> lcd) option" where
  "lcd_puts ps [] s = Some (ps, s)"
| "lcd_puts ps (ch # text) s = Option.bind (lcd_put ps ch s) (\<lambda>(ps, s). lcd_puts ps text s)"

text \<open>The formatting is \<open>chvprintf\<close>; its characters reach the stream one by one.\<close>

definition lcd_printf :: "bool \<Rightarrow> u16 \<Rightarrow> u16 \<Rightarrow> string \<Rightarrow> arg list \<Rightarrow> lcd \<Rightarrow> (nat \<times> lcd) option" where
  "lcd_printf cm4 x y fmt args s =
     Option.bind (chvprintf cm4 fmt args) (\<lambda>text.
       map_option (\<lambda>(ps, s). (length text, s)) (lcd_puts \<lparr>start_x = x, cur_x = x, cur_y = y, ps_state = 0\<rparr> (map of_char text) s))"

text \<open>A single character and a string in the normal font, and a digit of the keypad.\<close>

definition lcd_drawchar :: "u8 \<Rightarrow> u16 \<Rightarrow> u16 \<Rightarrow> lcd \<Rightarrow> lcd option" where
  "lcd_drawchar ch x y s = map_option snd (put_glyph False x y ch s)"

fun drawstring_loop :: "u16 \<Rightarrow> u16 \<Rightarrow> u16 \<Rightarrow> u8 list \<Rightarrow> lcd \<Rightarrow> lcd option" where
  "drawstring_loop x_pos x y [] s = Some s"
| "drawstring_loop x_pos x y (ch # str) s =
     (if ch = 0x0A then drawstring_loop x_pos x_pos (y + font_str_height False) str s
      else Option.bind (put_glyph False x y ch s) (\<lambda>(w, s). drawstring_loop x_pos (x + w) y str s))"

definition lcd_drawstring :: "u16 \<Rightarrow> u16 \<Rightarrow> u8 list \<Rightarrow> lcd \<Rightarrow> lcd option" where
  "lcd_drawstring x y str s = drawstring_loop x x y str s"

definition lcd_drawfont :: "u8 \<Rightarrow> u16 \<Rightarrow> u16 \<Rightarrow> lcd \<Rightarrow> lcd option" where
  "lcd_drawfont ch x y s = Option.bind (num_font_data (unat ch)) (\<lambda>d. lcd_blit_bitmap x y 16 22 d s)"

section \<open>Scaling\<close>

text \<open>A row of \<open>lcd_drawchar_size\<close>: each pixel \<open>size\<close> times. The font is the normal one.\<close>

fun char_row :: "u16 \<Rightarrow> u16 \<Rightarrow> nat \<Rightarrow> nat \<Rightarrow> u8 \<Rightarrow> u16 list" where
  "char_row fg bg sz 0 bits = []"
| "char_row fg bg sz (Suc w) bits = replicate sz (if 0x80 AND bits \<noteq> 0 then fg else bg) @ char_row fg bg sz w (push_bit 1 bits)"

definition lcd_drawchar_size :: "u8 \<Rightarrow> int \<Rightarrow> int \<Rightarrow> u8 \<Rightarrow> lcd \<Rightarrow> (int \<times> lcd) option" where
  "lcd_drawchar_size ch x y sz s =
     (case (font_width 10 x6x10_bits (unat ch), font_data 10 x6x10_bits (unat ch)) of
        (Some w, Some d) \<Rightarrow>
          let rows = map (\<lambda>c. concat (replicate (unat sz) (char_row (foreground_color s) (background_color s) (unat sz) (unat w) (d ! c)))) [0..<10]
          in map_option (\<lambda>s. (uint w * uint sz, s)) (lcd_bulk x y (uint w * uint sz) (10 * uint sz) (concat rows) s)
      | _ \<Rightarrow> None)"

fun lcd_drawstring_size :: "u8 list \<Rightarrow> int \<Rightarrow> int \<Rightarrow> u8 \<Rightarrow> lcd \<Rightarrow> lcd option" where
  "lcd_drawstring_size [] x y sz s = Some s"
| "lcd_drawstring_size (ch # str) x y sz s =
     Option.bind (lcd_drawchar_size ch x y sz s) (\<lambda>(w, s). lcd_drawstring_size str (x + w) y sz s)"

text \<open>\<open>lcd_blit_bitmap_scale\<close> sends its pixels without the buffer.\<close>

fun scale_rows :: "u16 \<Rightarrow> u16 \<Rightarrow> nat \<Rightarrow> nat \<Rightarrow> nat \<Rightarrow> u8 list \<Rightarrow> u16 list option" where
  "scale_rows fg bg sz w 0 b = Some []"
| "scale_rows fg bg sz w (Suc h) b =
     (if sz = 0 then scale_rows fg bg sz w h b
      else case blit_row fg bg w 0 0 b of
        None \<Rightarrow> None
      | Some (p, ptr) \<Rightarrow> map_option ((@) (concat (replicate sz (concat (map (replicate sz) p))))) (scale_rows fg bg sz w h ptr))"

definition lcd_blit_bitmap_scale :: "u16 \<Rightarrow> u16 \<Rightarrow> u16 \<Rightarrow> u16 \<Rightarrow> u16 \<Rightarrow> u8 list \<Rightarrow> lcd \<Rightarrow> lcd option" where
  "lcd_blit_bitmap_scale x y w h sz b s =
     map_option (\<lambda>p. lcd_send (map Lcd_Pixel p) (lcd_set_window (uint x) (uint y) (uint w * uint sz) (uint h * uint sz) LCD_RAMWR s))
       (scale_rows (foreground_color s) (background_color s) (unat sz) (unat w) (unat h) b)"

text \<open>A polyline: each entry moves the pen and draws unless it is transparent; two zero shifts end it.\<close>

fun lcd_vector_draw :: "int \<Rightarrow> int \<Rightarrow> (bool \<times> int \<times> int) list \<Rightarrow> lcd \<Rightarrow> lcd option" where
  "lcd_vector_draw x y [] s = None"
| "lcd_vector_draw x y ((transparent, shift_x, shift_y) # v) s =
     (if shift_x = 0 \<and> shift_y = 0 then Some s
      else Option.bind (if transparent then Some s else lcd_line x y (x + shift_x) (y + shift_y) s)
             (lcd_vector_draw (x + shift_x) (y + shift_y) v))"

section \<open>Reading back\<close>

definition RGB565 :: "u8 \<Rightarrow> u8 \<Rightarrow> u8 \<Rightarrow> u16" where
  "RGB565 r g b = push_bit 11 (ucast (g AND 0x1c)) OR push_bit 5 (ucast (b AND 0xf8)) OR ucast (r AND 0xf8) OR drop_bit 5 (ucast (g AND 0xe0))"

text \<open>
  \<open>lcd_read_memory\<close> turns the three bytes of a pixel into two in the buffer they arrive in, while the DMA still
  fills it. \<open>mem\<close> is the buffer, \<open>k\<close> the number of pixels done, \<open>len\<close> the bytes not yet turned.
\<close>

definition rx_pixel :: "nat \<Rightarrow> u8 list \<Rightarrow> u8 list" where
  "rx_pixel k mem =
     (let p = RGB565 (mem ! (3 * k)) (mem ! (3 * k + 1)) (mem ! (3 * k + 2))
      in mem[2 * k := ucast p, 2 * k + 1 := ucast (drop_bit 8 p)])"

text \<open>The inner loop; \<open>None\<close> when it runs out of the buffer.\<close>

function rx_process :: "u16 \<Rightarrow> u16 \<Rightarrow> nat \<Rightarrow> u8 list \<Rightarrow> (u16 \<times> nat \<times> u8 list) option" where
  "rx_process left len k mem =
     (if length mem < 3 * k + 3 then None
      else let mem = rx_pixel k mem; len = len - 3
           in if left < len then rx_process left len (k + 1) mem else Some (len, k + 1, mem))"
  by pat_completeness auto
termination by (relation "measure (\<lambda>(left, len, k, mem). length mem - 3 * k)") (auto simp: rx_pixel_def Let_def)

declare rx_process.simps [simp del]

definition dma_fill :: "u8 list \<Rightarrow> nat \<Rightarrow> nat \<Rightarrow> u8 list \<Rightarrow> u8 list" where
  "dma_fill data got now mem = take got mem @ drop got (take now data) @ drop now mem"

text \<open>
  The outer loop: the list holds what the counter of the DMA channel shows at each reading, the bytes still
  missing of \<open>full\<close>; \<open>got\<close> of them were there before. \<open>len\<close> and \<open>left\<close> are 16 bits wide. \<open>None\<close>: the list ends before the loop,
  or the loop leaves the buffer.
\<close>

fun rx_loop :: "nat \<Rightarrow> u8 list \<Rightarrow> u16 list \<Rightarrow> nat \<Rightarrow> u16 \<Rightarrow> nat \<Rightarrow> u8 list \<Rightarrow> u8 list option" where
  "rx_loop full data [] got len k mem = None"
| "rx_loop full data (rem # rems) got len k mem =
     (let now = full - unat rem; mem = dma_fill data got now mem; left = rem + 3
      in if left > len then rx_loop full data rems now len k mem
         else case rx_process left len k mem of
                None \<Rightarrow> None
              | Some (len, k, mem) \<Rightarrow> if len = 0 then Some mem else rx_loop full data rems now len k mem)"

definition lcd_read_memory :: "int \<Rightarrow> int \<Rightarrow> int \<Rightarrow> int \<Rightarrow> u8 list \<Rightarrow> u16 list \<Rightarrow> u8 list \<Rightarrow> lcd \<Rightarrow> (u8 list \<times> lcd) option" where
  "lcd_read_memory x y w h data rems mem s =
     (let len = word_of_int (w * h) :: u16; s = lcd_set_window x y w h LCD_RAMRD s; len = len * 3
      in map_option (\<lambda>mem. (mem, s)) (rx_loop (unat len) data rems 0 len 0 mem))"

section \<open>What is sent\<close>

text \<open>The four bytes of a window's side are the first and the last coordinate, high byte first.\<close>

lemma window_side_bytes:
  assumes "0 \<le> x" "0 \<le> x + w - 1" "x < 65536" "x + w - 1 < 65536"
  shows "map unat (window_side x w) = map nat [x div 256, x mod 256, (x + w - 1) div 256, (x + w - 1) mod 256]"
proof -
  have word: "map unat (word_bytes (rev16 (a OR push_bit 16 b))) = [unat a div 256, unat a mod 256, unat b div 256, unat b mod 256]"
    if "unat a < 65536" "unat b < 65536" for a b :: u32
  proof -
    have hi: "\<not> bit a n" "\<not> bit b n" if "16 \<le> n" for n
    proof -
      have "2 ^ 16 \<le> (2::nat) ^ n" using that by (intro power_increasing) auto
      then have "unat a < 2 ^ n" "unat b < 2 ^ n" using \<open>unat a < 65536\<close> \<open>unat b < 65536\<close> by auto
      then have "\<not> bit (unat a) n" "\<not> bit (unat b) n" by (simp_all add: bit_iff_odd)
      then show "\<not> bit a n" "\<not> bit b n" by (auto simp: bit_unsigned_iff dest: bit_imp_possible_bit)
    qed
    have ff: "(0x00FF00FF :: u32) = mask 8 OR push_bit 16 (mask 8)" by (simp add: mask_eq_exp_minus_1)
    have byte: "word_bytes (rev16 (a OR push_bit 16 b)) = [ucast (drop_bit 8 a), ucast a, ucast (drop_bit 8 b), ucast b]"
      unfolding word_bytes_def rev16_def ff
      by (simp; intro conjI; intro bit_eqI; auto simp: bit_simps hi)
    have small: "unat a div 256 < 256" "unat b div 256 < 256" using that by auto
    then show ?thesis
      unfolding byte by (simp add: unsigned_ucast_eq unsigned_drop_bit_eq drop_bit_eq_div take_bit_eq_mod unat_div_distrib)
  qed
  have n: "unat (word_of_int z :: u32) = nat z" if "0 \<le> z" "z < 65536" for z
    using that by (simp add: unsigned_of_int take_bit_int_eq_self)
  define e where "e = x + w - 1"
  have "0 \<le> e" "e < 65536" using assms by (simp_all add: e_def)
  then show ?thesis
    unfolding window_side_def e_def [symmetric] using assms(1,3)
    by (subst word) (simp_all add: n nat_div_distrib nat_mod_distrib)
qed

lemma fill_transfers_sum: "sum_list (fill_transfers len) = unat len" and fill_transfers_fit: "\<forall>n \<in> set (fill_transfers len). 0 < n \<and> n \<le> 65535"
proof (induction len rule: fill_transfers.induct)
  case (1 len)
  {
    case 1
    then show ?case
      using "1.IH" by (subst fill_transfers.simps) (auto simp: Let_def unat_sub word_less_nat_alt word_le_nat_alt)
  next
    case 2
    then show ?case
      using "1.IH" by (subst fill_transfers.simps) (auto simp: Let_def unat_gt_0 word_less_nat_alt word_le_nat_alt)
  }
qed

lemma concat_replicate: "concat (map (\<lambda>n. replicate n c) ns) = replicate (sum_list ns) c"
  by (induction ns) (simp_all add: replicate_add)

text \<open>A fill sends as many pixels as the rectangle has, in transfers the DMA counter can hold.\<close>

lemma lcd_fill_pixels:
  assumes "0 \<le> w" "0 \<le> h" "w * h < 2 ^ 32"
  shows "lcd_out (lcd_fill x y w h s) = lcd_out s @ window_events x y w h LCD_RAMWR @ replicate (nat (w * h)) (Lcd_Pixel (background_color s))"
proof -
  have "unat (word_of_int (w * h) :: u32) = nat (w * h)"
    using assms by (subst unsigned_of_int) (simp add: take_bit_int_eq_self)
  then show ?thesis
    unfolding lcd_fill_def lcd_set_window_def lcd_send_def Let_def concat_replicate fill_transfers_sum by simp
qed

text \<open>Both sequences are read to their end: every command with as many parameters as it announces.\<close>

lemma init_sequences:
  "map_option (map (\<lambda>e. case e of Lcd_Command c d \<Rightarrow> (unat c, length d) | _ \<Rightarrow> (0, 0))) (init_events ili9341_init_seq) =
     Some [(0x01, 0), (0x28, 0), (0xC0, 1), (0xC1, 1), (0xC5, 2), (0xC7, 1), (0x36, 1), (0x3A, 1), (0xB1, 2), (0x26, 1), (0xE0, 15), (0xE1, 15),
       (0xB7, 1), (0xB6, 3), (0xF6, 3), (0x11, 0), (0x29, 0)]"
  "map_option (map (\<lambda>e. case e of Lcd_Command c d \<Rightarrow> (unat c, length d) | _ \<Rightarrow> (0, 0))) (init_events ST7789V_init_seq) =
     Some [(0x01, 0), (0x28, 0), (0x36, 1), (0x3A, 1), (0xBB, 1), (0xC2, 2), (0x11, 0), (0x29, 0)]"
  by (simp_all add: ili9341_init_seq_def ST7789V_init_seq_def)

section \<open>Lines are nearest\<close>

lemma div_step:
  fixes s a b :: int
  assumes "0 \<le> a" "a \<le> b" "0 < b"
  shows "(s + a) div b = (if s mod b + a \<ge> b then s div b + 1 else s div b)"
    "(s + a) mod b = (if s mod b + a \<ge> b then s mod b + a - b else s mod b + a)"
proof -
  obtain q r where s: "s div b = q" "s mod b = r" "s = b * q + r" "0 \<le> r" "r < b"
    using assms by (metis mult_div_mod_eq pos_mod_bound pos_mod_sign)
  have "(b * q + r + a) div b = q + 1 \<and> (b * q + r + a) mod b = r + a - b" if "r + a \<ge> b"
  proof -
    have "b * q + r + a = (r + a - b) + (q + 1) * b" by (simp add: algebra_simps)
    moreover have "(r + a - b) div b = 0" by (rule div_pos_pos_trivial) (use that s(4,5) assms in linarith)+
    moreover have "(r + a - b) mod b = r + a - b" by (rule mod_pos_pos_trivial) (use that s(4,5) assms in linarith)+
    ultimately show ?thesis using assms by (simp only: div_mult_self1 mod_mult_self1) simp
  qed
  moreover have "(b * q + r + a) div b = q \<and> (b * q + r + a) mod b = r + a" if "\<not> r + a \<ge> b"
  proof -
    have "b * q + r + a = (r + a) + q * b" by simp
    then show ?thesis using that s(4,5) assms by (simp only: div_mult_self1 mod_mult_self1) (simp add: div_pos_pos_trivial mod_pos_pos_trivial)
  qed
  ultimately show "(s + a) div b = (if s mod b + a \<ge> b then s div b + 1 else s div b)"
    "(s + a) mod b = (if s mod b + a \<ge> b then s mod b + a - b else s mod b + a)"
    unfolding s(1,2) using s(3) by auto
qed

text \<open>The reference: on the longer side one pixel per unit, on the shorter one the nearest (at a tie the nearer to the start).\<close>

definition line_round :: "int \<Rightarrow> int \<Rightarrow> int \<Rightarrow> int" where
  "line_round a b i = (a * i + (b - 1) div 2) div b"

definition line_at :: "int \<Rightarrow> int \<Rightarrow> int \<Rightarrow> int \<Rightarrow> int \<Rightarrow> nat \<Rightarrow> int \<times> int" where
  "line_at x0 y0 dx dy sy i =
     (if dx > dy then (x0 + int i, y0 + sy * line_round dy dx (int i)) else (x0 + line_round dx dy (int i), y0 + sy * int i))"

fun line_tail :: "(nat \<Rightarrow> int \<times> int) \<Rightarrow> u16 \<Rightarrow> nat \<Rightarrow> nat \<Rightarrow> lcd_event list" where
  "line_tail p c i 0 = [Lcd_Pixel c]"
| "line_tail p c i (Suc n) =
     Lcd_Pixel c #
       (if snd (p (Suc i)) \<noteq> snd (p i) then window_events (fst (p (Suc i))) (snd (p (Suc i))) (DISPLAY_WIDTH - fst (p (Suc i))) 1 LCD_RAMWR else [])
     @ line_tail p c (Suc i) n"

lemma line_round_step:
  assumes "0 \<le> a" "a \<le> b" "0 < b"
  shows "line_round a b (i + 1) = (if (a * i + (b - 1) div 2) mod b + a \<ge> b then line_round a b i + 1 else line_round a b i)"
    "(a * (i + 1) + (b - 1) div 2) mod b =
      (if (a * i + (b - 1) div 2) mod b + a \<ge> b then (a * i + (b - 1) div 2) mod b + a - b else (a * i + (b - 1) div 2) mod b + a)"
  using div_step [OF assms, of "a * i + (b - 1) div 2"] by (simp_all add: line_round_def algebra_simps)

lemma line_round_ends: "0 < b \<Longrightarrow> line_round a b 0 = 0" "0 < b \<Longrightarrow> line_round a b b = a"
proof -
  assume b: "0 < b"
  then have "0 \<le> (b - 1) div 2" "(b - 1) div 2 < b" by auto
  then show "line_round a b 0 = 0" "line_round a b b = a" using b by (simp_all add: line_round_def)
qed

lemma line_round_near:
  assumes "0 < b"
  shows "2 * \<bar>b * line_round a b i - a * i\<bar> \<le> b"
proof -
  define s where "s = a * i + (b - 1) div 2"
  have s: "s = b * (s div b) + s mod b" "0 \<le> s mod b" "s mod b < b" using assms by (simp_all add: mult.commute)
  have h: "2 * ((b - 1) div 2) \<le> b - 1" "b - 2 \<le> 2 * ((b - 1) div 2)" by presburger+
  have "line_round a b i = s div b" by (simp add: line_round_def s_def)
  then have "b * line_round a b i = s - s mod b" using s(1) by (metis add_diff_cancel_right')
  then have "b * line_round a b i - a * i = (b - 1) div 2 - s mod b" by (simp only: s_def)
  moreover have "2 * \<bar>h - m\<bar> \<le> b" if "0 \<le> m" "m < b" "2 * h \<le> b - 1" "b - 2 \<le> 2 * h" for h m :: int using that by (cases "m \<le> h") auto
  then have "2 * \<bar>(b - 1) div 2 - s mod b\<bar> \<le> b" using s(2,3) h by blast
  ultimately show ?thesis by simp
qed

lemma line_loop_moves:
  assumes "\<not> (x0 = x1 \<and> y0 = y1)"
  shows
    "err > dx \<Longrightarrow> err < dy \<Longrightarrow> line_loop x1 y1 dx dy sy (x0 + 1) (y0 + sy) c (err - dy - dx) = Some es \<Longrightarrow>
      line_loop x1 y1 dx dy sy x0 y0 c err =
        Some (Lcd_Pixel c # window_events (x0 + 1) (y0 + sy) (DISPLAY_WIDTH - (x0 + 1)) 1 LCD_RAMWR @ es)"
    "err > dx \<Longrightarrow> \<not> err < dy \<Longrightarrow> line_loop x1 y1 dx dy sy (x0 + 1) y0 c (err - dy) = Some es \<Longrightarrow>
      line_loop x1 y1 dx dy sy x0 y0 c err = Some (Lcd_Pixel c # es)"
    "\<not> err > dx \<Longrightarrow> err < dy \<Longrightarrow> line_loop x1 y1 dx dy sy x0 (y0 + sy) c (err - dx) = Some es \<Longrightarrow>
      line_loop x1 y1 dx dy sy x0 y0 c err = Some (Lcd_Pixel c # window_events x0 (y0 + sy) (DISPLAY_WIDTH - x0) 1 LCD_RAMWR @ es)"
  using assms by (subst line_loop.simps, (auto simp: Let_def)[1])+

text \<open>The error term of the loop is the remainder of the rounded division.\<close>

lemma line_loop_flat:
  assumes "0 \<le> dy" "dy < D" "sy = 1 \<or> sy = -1" "i + n = nat D"
  shows "line_loop (x0 + D) (y0 + sy * dy) (- D) dy sy (x0 + int i) (y0 + sy * line_round dy D (int i)) c
       (D - 1 - (dy * int i + (D - 1) div 2) mod D) =
     Some (line_tail (line_at x0 y0 D dy sy) c i n)"
  using assms(4)
proof (induction n arbitrary: i)
  case 0
  then have "int i = D" using assms by auto
  then show ?case using assms by (subst line_loop.simps) (simp add: line_round_ends)
next
  case (Suc n)
  then have i: "int i < D" "Suc i + n = nat D" by auto
  define r q r' q' where "r = (dy * int i + (D - 1) div 2) mod D" and "q = line_round dy D (int i)"
    and "r' = (dy * (int i + 1) + (D - 1) div 2) mod D" and "q' = line_round dy D (int i + 1)"
  note names = r_def [symmetric] q_def [symmetric] r'_def [symmetric] q'_def [symmetric]
  have r: "0 \<le> r" "r < D" using assms by (auto simp: r_def)
  have suc: "int (Suc i) = int i + 1" by simp
  have at: "line_at x0 y0 D dy sy i = (x0 + int i, y0 + sy * q)" "line_at x0 y0 D dy sy (Suc i) = (x0 + int i + 1, y0 + sy * q')"
    using assms by (simp_all add: line_at_def q_def q'_def suc add.commute)
  have step: "q' = (if r + dy \<ge> D then q + 1 else q)" "r' = (if r + dy \<ge> D then r + dy - D else r + dy)"
    using line_round_step [of dy D "int i"] assms by (simp_all add: r_def q_def r'_def q'_def)
  have ih: "line_loop (x0 + D) (y0 + sy * dy) (- D) dy sy (x0 + int i + 1) (y0 + sy * q') c (D - 1 - r') =
      Some (line_tail (line_at x0 y0 D dy sy) c (Suc i) n)"
    using Suc.IH [OF i(2)] unfolding suc names by (simp add: add.assoc)
  have start: "\<not> (x0 + int i = x0 + D \<and> y0 + sy * q = y0 + sy * dy)" using i(1) by simp
  show ?case
  proof (cases "r + dy \<ge> D")
    case True
    have e: "D - 1 - r - dy - - D = D - 1 - r'" "y0 + sy * q + sy = y0 + sy * q'" using step True by (simp_all add: algebra_simps)
    show ?thesis
      unfolding names using line_loop_moves(1) [OF start, of "- D" "D - 1 - r" dy sy, unfolded e, OF _ _ ih] r True assms(1-3) at e(2)
      by (auto simp: algebra_simps)
  next
    case False
    have e: "D - 1 - r - dy = D - 1 - r'" "q = q'" using step False by simp_all
    show ?thesis
      unfolding names using line_loop_moves(2) [OF start, of "- D" "D - 1 - r" dy sy, unfolded e(1), OF _ _ ih [folded e(2)]] r False assms(1-3) at e(2)
      by auto
  qed
qed

lemma line_loop_steep:
  assumes "0 \<le> D" "D \<le> dy" "0 < dy" "sy = 1 \<or> sy = -1" "i + n = nat dy"
  shows "line_loop (x0 + D) (y0 + sy * dy) (- D) dy sy (x0 + line_round D dy (int i)) (y0 + sy * int i) c
       ((D * int i + (dy - 1) div 2) mod dy - (dy - 1)) =
     Some (line_tail (line_at x0 y0 D dy sy) c i n)"
  using assms(5)
proof (induction n arbitrary: i)
  case 0
  then have "int i = dy" using assms by auto
  then show ?case using assms by (subst line_loop.simps) (simp add: line_round_ends)
next
  case (Suc n)
  then have i: "int i < dy" "Suc i + n = nat dy" by auto
  define r q r' q' where "r = (D * int i + (dy - 1) div 2) mod dy" and "q = line_round D dy (int i)"
    and "r' = (D * (int i + 1) + (dy - 1) div 2) mod dy" and "q' = line_round D dy (int i + 1)"
  note names = r_def [symmetric] q_def [symmetric] r'_def [symmetric] q'_def [symmetric]
  have r: "0 \<le> r" "r < dy" using assms by (auto simp: r_def)
  have suc: "int (Suc i) = int i + 1" by simp
  have at: "line_at x0 y0 D dy sy i = (x0 + q, y0 + sy * int i)" "line_at x0 y0 D dy sy (Suc i) = (x0 + q', y0 + sy * int i + sy)"
    using assms by (simp_all add: line_at_def q_def q'_def suc distrib_left add.commute)
  have step: "q' = (if r + D \<ge> dy then q + 1 else q)" "r' = (if r + D \<ge> dy then r + D - dy else r + D)"
    using line_round_step [of D dy "int i"] assms by (simp_all add: r_def q_def r'_def q'_def)
  have ih: "line_loop (x0 + D) (y0 + sy * dy) (- D) dy sy (x0 + q') (y0 + sy * int i + sy) c (r' - (dy - 1)) =
      Some (line_tail (line_at x0 y0 D dy sy) c (Suc i) n)"
    using Suc.IH [OF i(2)] unfolding suc names by (simp add: distrib_left add.assoc)
  have start: "\<not> (x0 + q = x0 + D \<and> y0 + sy * int i = y0 + sy * dy)" using i(1) assms(4) by auto
  have move: "y0 + sy * int i + sy \<noteq> y0 + sy * int i" using assms(4) by auto
  show ?case
  proof (cases "r + D \<ge> dy")
    case True
    have e: "r - (dy - 1) - dy - - D = r' - (dy - 1)" "x0 + q + 1 = x0 + q'" using step True by simp_all
    show ?thesis
      unfolding names using line_loop_moves(1) [OF start, of "- D" "r - (dy - 1)" dy sy, unfolded e, OF _ _ ih] r True assms(1-4) at move
      by auto
  next
    case False
    have e: "r - (dy - 1) - - D = r' - (dy - 1)" "q = q'" using step False by simp_all
    show ?thesis
      unfolding names using line_loop_moves(3) [OF start, of "- D" "r - (dy - 1)" dy sy, unfolded e(1), OF _ _ ih [folded e(2)]] r False assms(1-4) at e(2) move
      by auto
  qed
qed

lemma line_at_ends:
  assumes "0 \<le> D" "0 \<le> dy"
  shows "line_at x0 y0 D dy sy 0 = (x0, y0)" "line_at x0 y0 D dy sy (nat (max D dy)) = (x0 + D, y0 + sy * dy)"
proof -
  show "line_at x0 y0 D dy sy 0 = (x0, y0)"
    using assms by (cases "dy = 0") (auto simp: line_at_def line_round_ends, auto simp: line_round_def)
  show "line_at x0 y0 D dy sy (nat (max D dy)) = (x0 + D, y0 + sy * dy)"
    using assms by (cases "dy = 0 \<and> D = 0") (auto simp: line_at_def line_round_ends max_def, auto simp: line_round_def)
qed

lemma sdiv_neg2: "0 \<le> (n::int) \<Longrightarrow> - n sdiv 2 = - (n div 2)"
  by (simp add: signed_divide_int_def sgn_if)

lemma line_loop_points:
  assumes "0 \<le> D" "0 \<le> dy" "sy = 1 \<or> sy = -1"
  shows "line_loop (x0 + D) (y0 + sy * dy) (- D) dy sy x0 y0 c (- (if - D + dy < 0 then - D else dy) sdiv 2) =
    Some (line_tail (line_at x0 y0 D dy sy) c 0 (nat (max D dy)))"
proof -
  consider (flat) "dy < D" | (steep) "D \<le> dy" "0 < dy" | (point) "D = 0" "dy = 0" using assms by linarith
  then show ?thesis
  proof cases
    case flat
    have e: "(D - 1) div 2 < D" "0 \<le> (D - 1) div 2" "D div 2 = D - 1 - (D - 1) div 2" using flat assms by presburger+
    then have "- (if - D + dy < 0 then - D else dy) sdiv 2 = D - 1 - (dy * int 0 + (D - 1) div 2) mod D"
      using flat assms by (simp add: signed_divide_int_def sgn_if)
    then show ?thesis
      using line_loop_flat [of dy D sy 0 "nat D" x0 y0 c] flat assms by (simp add: line_round_ends max_def)
  next
    case steep
    have e: "(dy - 1) div 2 < dy" "0 \<le> (dy - 1) div 2" "- (dy div 2) = (dy - 1) div 2 - (dy - 1)" using steep by presburger+
    then have "- (if - D + dy < 0 then - D else dy) sdiv 2 = (D * int 0 + (dy - 1) div 2) mod dy - (dy - 1)"
      using steep assms sdiv_neg2 [of dy] by simp
    then show ?thesis
      using line_loop_steep [of D dy sy 0 "nat dy" x0 y0 c] steep assms by (simp add: line_round_ends max_def)
  next
    case point
    then show ?thesis by (subst line_loop.simps) simp
  qed
qed

definition line_steps :: "int \<Rightarrow> int \<Rightarrow> int \<Rightarrow> int \<Rightarrow> nat" where
  "line_steps x0 y0 x1 y1 = nat (max \<bar>x1 - x0\<bar> \<bar>y1 - y0\<bar>)"

lemma line_at_near:
  assumes "0 \<le> D" "0 \<le> dy" "sy = 1 \<or> sy = -1" "line_at x0 y0 D dy sy i = (x, y)"
  shows "2 * \<bar>(x - x0) * (sy * dy) - (y - y0) * D\<bar> \<le> max D dy"
proof (cases "dy < D")
  case True
  then have xy: "x - x0 = int i" "y - y0 = sy * line_round dy D (int i)" using assms(4) by (auto simp: line_at_def)
  have "(x - x0) * (sy * dy) - (y - y0) * D = sy * (dy * int i - D * line_round dy D (int i))"
    unfolding xy by (simp add: algebra_simps)
  then show ?thesis using line_round_near [of D dy "int i"] True assms(2,3) by (auto simp: abs_mult abs_minus_commute)
next
  case False
  then have xy: "x - x0 = line_round D dy (int i)" "y - y0 = sy * int i" using assms(4) by (auto simp: line_at_def)
  have "(x - x0) * (sy * dy) - (y - y0) * D = sy * (dy * line_round D dy (int i) - D * int i)"
    unfolding xy by (simp add: algebra_simps)
  then show ?thesis
    using line_round_near [of dy D "int i"] False assms(1-3) by (cases "dy = 0") (auto simp: abs_mult)
qed

lemma line_at_adjacent:
  assumes "0 \<le> D" "0 \<le> dy" "sy = 1 \<or> sy = -1" "i < nat (max D dy)"
  shows "fst (line_at x0 y0 D dy sy (Suc i)) - fst (line_at x0 y0 D dy sy i) \<in> {0, 1}"
    "snd (line_at x0 y0 D dy sy (Suc i)) - snd (line_at x0 y0 D dy sy i) \<in> {0, sy}"
    "snd (line_at x0 y0 D dy sy (Suc i)) = snd (line_at x0 y0 D dy sy i) \<Longrightarrow>
     fst (line_at x0 y0 D dy sy (Suc i)) = fst (line_at x0 y0 D dy sy i) + 1"
proof -
  have s: "int (Suc i) = int i + 1" by simp
  have a: "line_round dy D (int i + 1) - line_round dy D (int i) \<in> {0, 1}" if "dy < D"
    using line_round_step(1) [of dy D "int i"] that assms(2) by auto
  have b: "line_round D dy (int i + 1) - line_round D dy (int i) \<in> {0, 1}" if "\<not> dy < D"
    using line_round_step(1) [of D dy "int i"] that assms by auto
  show "fst (line_at x0 y0 D dy sy (Suc i)) - fst (line_at x0 y0 D dy sy i) \<in> {0, 1}"
    "snd (line_at x0 y0 D dy sy (Suc i)) = snd (line_at x0 y0 D dy sy i) \<Longrightarrow>
     fst (line_at x0 y0 D dy sy (Suc i)) = fst (line_at x0 y0 D dy sy i) + 1"
    using b assms(3) unfolding line_at_def s by (auto split: if_splits)
  show "snd (line_at x0 y0 D dy sy (Suc i)) - snd (line_at x0 y0 D dy sy i) \<in> {0, sy}"
    using a assms(3) unfolding line_at_def s by (auto split: if_splits)
qed

text \<open>
  C19 A line between any two points is drawn in a bounded number of rounds. It starts at its left
  point and ends at the other one, takes one pixel per unit of the longer side, never strays
  from the ideal line by more than half a pixel, moves right or stays in each step, and sends a new window
  exactly when the row changes, so that the panel's own advance to the right fits within a row.
\<close>

theorem lcd_line_nearest:
  "\<exists>p n. lcd_line x0 y0 x1 y1 s =
      Some (lcd_send (window_events (fst (p 0)) (snd (p 0)) (DISPLAY_WIDTH - fst (p 0)) 1 LCD_RAMWR @ line_tail p (foreground_color s) 0 n) s) \<and>
    n = line_steps x0 y0 x1 y1 \<and>
    (p 0, p n) = (if x1 < x0 then ((x1, y1), (x0, y0)) else ((x0, y0), (x1, y1))) \<and>
    (\<forall>i x y. p i = (x, y) \<longrightarrow>
      2 * \<bar>(x - fst (p 0)) * (snd (p n) - snd (p 0)) - (y - snd (p 0)) * (fst (p n) - fst (p 0))\<bar> \<le> int n) \<and>
    (\<forall>i<n. fst (p (Suc i)) - fst (p i) \<in> {0, 1} \<and> \<bar>snd (p (Suc i)) - snd (p i)\<bar> \<le> 1 \<and>
      (snd (p (Suc i)) = snd (p i) \<longrightarrow> fst (p (Suc i)) = fst (p i) + 1))"
proof -
  obtain xa ya xb yb where ends: "(if x1 < x0 then (x1, y1, x0, y0) else (x0, y0, x1, y1)) = (xa, ya, xb, yb)" "xa \<le> xb"
    by (cases "x1 < x0") auto
  let ?D = "xb - xa" and ?dy = "\<bar>yb - ya\<bar>" and ?sy = "if yb - ya < 0 then -1 else 1 :: int"
  define p where "p = line_at xa ya ?D ?dy ?sy"
  define n where "n = nat (max ?D ?dy)"
  have pos: "0 \<le> ?D" "0 \<le> ?dy" "?sy = 1 \<or> ?sy = -1" "ya + ?sy * ?dy = yb" "xa + ?D = xb" using ends(2) by auto
  have at: "p 0 = (xa, ya)" "p n = (xb, yb)"
    using line_at_ends [OF pos(1,2), of xa ya ?sy] pos(4,5) by (simp_all add: p_def n_def)
  have line: "lcd_line x0 y0 x1 y1 s = Some (lcd_send (window_events xa ya (DISPLAY_WIDTH - xa) 1 LCD_RAMWR @ line_tail p (foreground_color s) 0 n) s)"
    by (simp only: lcd_line_def ends(1) prod.case Let_def line_loop_points [OF pos(1-3), of xa ya "foreground_color s", unfolded pos(4,5)]
        option.map p_def n_def)
  have near: "\<forall>i x y. p i = (x, y) \<longrightarrow> 2 * \<bar>(x - xa) * (yb - ya) - (y - ya) * (xb - xa)\<bar> \<le> int n"
    using line_at_near [OF pos(1-3), of xa ya] pos(4) pos(1) by (auto simp: p_def n_def)
  have adj: "\<forall>i<n. fst (p (Suc i)) - fst (p i) \<in> {0, 1} \<and> \<bar>snd (p (Suc i)) - snd (p i)\<bar> \<le> 1 \<and>
      (snd (p (Suc i)) = snd (p i) \<longrightarrow> fst (p (Suc i)) = fst (p i) + 1)"
  proof (intro allI impI)
    fix i assume "i < n"
    with line_at_adjacent [OF pos(1-3), of i xa ya] pos(3)
    show "fst (p (Suc i)) - fst (p i) \<in> {0, 1} \<and> \<bar>snd (p (Suc i)) - snd (p i)\<bar> \<le> 1 \<and>
      (snd (p (Suc i)) = snd (p i) \<longrightarrow> fst (p (Suc i)) = fst (p i) + 1)"
      by (auto simp: p_def n_def)
  qed
  have "n = line_steps x0 y0 x1 y1" "(p 0, p n) = (if x1 < x0 then ((x1, y1), (x0, y0)) else ((x0, y0), (x1, y1)))"
    using ends at by (auto simp: n_def line_steps_def split: if_splits)
  with line near adj at show ?thesis by (intro exI [of _ p] exI [of _ n]) simp
qed

section \<open>Bitmaps and glyphs\<close>

lemma test_high: "(0x80 AND push_bit m (x :: u8) \<noteq> 0) = bit x (7 - m)" if "m \<le> 7"
proof -
  have "(0x80 AND push_bit m x \<noteq> 0) = bit (push_bit m x) 7"
    using and_flag_iff [of 7 "0x80 :: u8" "push_bit m x"] by (simp add: and.commute)
  then show ?thesis using that by (simp add: bit_push_bit_iff)
qed

lemma div8_mid: "r mod 8 \<noteq> 0 \<Longrightarrow> (r + 7) div 8 = Suc (r div 8)" for r :: nat
proof -
  assume "r mod 8 \<noteq> 0"
  moreover obtain q m where "r = 8 * q + m" "r div 8 = q" "r mod 8 = m" "m < 8"
    by (metis mult_div_mod_eq mod_less_divisor zero_less_numeral)
  ultimately show ?thesis by (intro div_nat_eqI) auto
qed

lemma div8_start:
  assumes "r mod 8 = (0 :: nat)"
  shows "(r + 7) div 8 = r div 8" "Suc r mod 8 = 1" "Suc r div 8 = r div 8"
proof -
  obtain q where "r = 8 * q" using assms by (auto simp: mod_eq_0_iff_dvd)
  then show "(r + 7) div 8 = r div 8" "Suc r mod 8 = 1" "Suc r div 8 = r div 8"
    by (auto simp: mod_Suc div_Suc intro!: div_nat_eqI)
qed

definition pixel_of :: "u16 \<Rightarrow> u16 \<Rightarrow> u8 list \<Rightarrow> nat \<Rightarrow> u16" where
  "pixel_of fg bg b r = (if bit (b ! (r div 8)) (7 - r mod 8) then fg else bg)"

lemma and_seven: "(r AND 7 = 0) = (r mod 8 = (0 :: nat))"
proof -
  have "r AND 7 = take_bit 3 r" by (simp add: take_bit_eq_mask mask_eq_exp_minus_1)
  then show ?thesis by (simp add: take_bit_eq_mod)
qed

lemma div8_Suc: "(Suc r + 7) div 8 = Suc (r div 8)"
  by simp

lemma blit_row_mid:
  "r mod 8 \<noteq> 0 \<Longrightarrow> blit_row fg bg n (Suc r) (push_bit 1 bits) b = Some (p, c) \<Longrightarrow>
    blit_row fg bg (Suc n) r bits b = Some ((if 0x80 AND bits \<noteq> 0 then fg else bg) # p, c)"
  by (simp add: and_seven)

lemma blit_row_byte:
  "r mod 8 = 0 \<Longrightarrow> blit_row fg bg n (Suc r) (push_bit 1 x) b = Some (p, c) \<Longrightarrow>
    blit_row fg bg (Suc n) r bits (x # b) = Some ((if 0x80 AND x \<noteq> 0 then fg else bg) # p, c)"
  by (simp add: and_seven)

lemma blit_row_from:
  assumes "(r + n + 7) div 8 \<le> length b" "r mod 8 \<noteq> 0 \<Longrightarrow> bits = push_bit (r mod 8) (b ! (r div 8))"
  shows "blit_row fg bg n r bits (drop ((r + 7) div 8) b) = Some (map (pixel_of fg bg b) [r..<r + n], drop ((r + n + 7) div 8) b)"
  using assms
proof (induction n arbitrary: r bits)
  case (Suc n)
  have range: "map f [r..<r + Suc n] = f r # map f [Suc r..<Suc r + n]" "r + Suc n + 7 = Suc r + n + 7" for f :: "nat \<Rightarrow> u16"
    by (simp_all add: upt_conv_Cons del: upt_Suc)
  have len: "(Suc r + n + 7) div 8 \<le> length b" using Suc.prems(1) unfolding range(2) .
  have "(Suc r + 7) div 8 \<le> (Suc r + n + 7) div 8" by (rule div_le_mono) simp
  then have inside: "r div 8 < length b" using len unfolding div8_Suc by linarith
  show ?case
  proof (cases "r mod 8 = 0")
    case True
    then have at: "(r + 7) div 8 = r div 8" "Suc r mod 8 = 1" "Suc r div 8 = r div 8" by (rule div8_start)+
    have cons: "drop (r div 8) b = b ! (r div 8) # drop ((Suc r + 7) div 8) b"
      unfolding div8_Suc using inside by (simp add: Cons_nth_drop_Suc)
    have ih: "blit_row fg bg n (Suc r) (push_bit 1 (b ! (r div 8))) (drop ((Suc r + 7) div 8) b) =
        Some (map (pixel_of fg bg b) [Suc r..<Suc r + n], drop ((Suc r + n + 7) div 8) b)"
      by (rule Suc.IH [OF len]) (simp only: at)
    have "pixel_of fg bg b r = (if 0x80 AND b ! (r div 8) \<noteq> 0 then fg else bg)"
      using test_high [of 0 "b ! (r div 8)"] True by (simp add: pixel_of_def)
    then show ?thesis
      using blit_row_byte [OF True ih, of bits] by (simp only: at(1) cons range)
  next
    case False
    have "r mod 8 < 8" by simp
    then have at: "(r + 7) div 8 = (Suc r + 7) div 8" "r mod 8 \<le> 7" using div8_mid [OF False] div8_Suc [of r] by simp_all
    have bits: "bits = push_bit (r mod 8) (b ! (r div 8))" by (rule Suc.prems(2) [OF False])
    have "push_bit 1 bits = push_bit (Suc r mod 8) (b ! (Suc r div 8))" if "Suc r mod 8 \<noteq> 0"
    proof -
      have "Suc r mod 8 = 1 + r mod 8" "Suc r div 8 = r div 8" using that by (auto simp: mod_Suc div_Suc split: if_splits)
      then show ?thesis unfolding bits by (simp only: push_bit_push_bit)
    qed
    then have ih: "blit_row fg bg n (Suc r) (push_bit 1 bits) (drop ((Suc r + 7) div 8) b) =
        Some (map (pixel_of fg bg b) [Suc r..<Suc r + n], drop ((Suc r + n + 7) div 8) b)"
      by (rule Suc.IH [OF len])
    have "pixel_of fg bg b r = (if 0x80 AND bits \<noteq> 0 then fg else bg)"
      using test_high [OF at(2), of "b ! (r div 8)"] by (simp add: pixel_of_def bits)
    then show ?thesis
      using blit_row_mid [OF False ih] by (simp only: at(1) range)
  qed
qed simp

definition stride :: "nat \<Rightarrow> nat" where "stride w = (w + 7) div 8"

definition bitmap_pixels :: "u16 \<Rightarrow> u16 \<Rightarrow> nat \<Rightarrow> nat \<Rightarrow> u8 list \<Rightarrow> u16 list" where
  "bitmap_pixels fg bg w h b = concat (map (\<lambda>c. map (pixel_of fg bg (drop (c * stride w) b)) [0..<w]) [0..<h])"

lemma blit_row_pixels:
  "stride n \<le> length b \<Longrightarrow> blit_row fg bg n 0 bits b = Some (map (pixel_of fg bg b) [0..<n], drop (stride n) b)"
  using blit_row_from [of 0 n b bits fg bg] by (simp add: stride_def)

lemma bitmap_pixels_0: "bitmap_pixels fg bg w 0 b = []"
  by (simp add: bitmap_pixels_def)

lemma bitmap_pixels_Suc:
  "bitmap_pixels fg bg w (Suc h) b = map (pixel_of fg bg b) [0..<w] @ bitmap_pixels fg bg w h (drop (stride w) b)"
proof -
  have "[0..<Suc h] = 0 # map Suc [0..<h]" by (simp only: map_Suc_upt upt_conv_Cons)
  then show ?thesis by (simp add: bitmap_pixels_def comp_def add.commute)
qed

lemma blit_rows_pixels: "h * stride w \<le> length b \<Longrightarrow> blit_rows fg bg w h b = Some (bitmap_pixels fg bg w h b)"
proof (induction h arbitrary: b)
  case 0
  then show ?case by (simp add: bitmap_pixels_def)
next
  case (Suc h)
  then show ?case by (simp add: blit_row_pixels bitmap_pixels_Suc)
qed

lemma bitmap_pixels_length [simp]: "length (bitmap_pixels fg bg w h b) = w * h"
proof (induction h arbitrary: b)
  case (Suc h)
  then show ?case by (simp add: bitmap_pixels_Suc)
qed (simp add: bitmap_pixels_0)

definition bitmap_events :: "u16 \<Rightarrow> u16 \<Rightarrow> u16 \<Rightarrow> u16 \<Rightarrow> u8 list \<Rightarrow> lcd \<Rightarrow> lcd_event list" where
  "bitmap_events x y w h b s =
     window_events (uint x) (uint y) (uint w) (uint h) LCD_RAMWR @
     map Lcd_Pixel (bitmap_pixels (foreground_color s) (background_color s) (unat w) (unat h) b)"

lemma blit_bitmap_events:
  assumes "unat h * stride (unat w) \<le> length b" "unat w * unat h \<le> SPI_BUFFER_SIZE"
  shows "lcd_blit_bitmap x y w h b s = Some (lcd_send (bitmap_events x y w h b s) s)"
proof -
  have "nat (uint w * uint h) = unat w * unat h" by (simp add: nat_mult_distrib)
  then show ?thesis
    using assms by (simp add: lcd_blit_bitmap_def blit_rows_pixels lcd_bulk_def lcd_set_window_def lcd_send_def bitmap_events_def)
qed

text \<open>
  A bitmap whose bytes are there and whose pixels fit the buffer is drawn in full: the window is its
  rectangle, and the pixel of row \<open>c\<close> and column \<open>r\<close> has the foreground colour exactly if bit \<open>7 - r mod 8\<close> of byte
  \<open>r div 8\<close> of that row is set, each row starting with a new byte.
\<close>

theorem blit_bitmap_pixels:
  assumes "unat h * stride (unat w) \<le> length b" "unat w * unat h \<le> SPI_BUFFER_SIZE"
  shows "\<exists>p. lcd_blit_bitmap x y w h b s = Some (lcd_send (window_events (uint x) (uint y) (uint w) (uint h) LCD_RAMWR @ map Lcd_Pixel p) s) \<and>
    length p = unat w * unat h \<and>
    (\<forall>c r. c < unat h \<longrightarrow> r < unat w \<longrightarrow>
      p ! (c * unat w + r) =
        (if bit (b ! (c * stride (unat w) + r div 8)) (7 - r mod 8) then foreground_color s else background_color s))"
proof -
  have nth: "bitmap_pixels fg bg n m b ! (c * n + r) = (if bit (b ! (c * stride n + r div 8)) (7 - r mod 8) then fg else bg)"
    if "c < m" "r < n" "m * stride n \<le> length b" for fg bg n m c r b
    using that
  proof (induction m arbitrary: c b)
    case (Suc m)
    show ?case
    proof (cases c)
      case 0
      then show ?thesis using Suc.prems by (simp add: bitmap_pixels_Suc nth_append pixel_of_def)
    next
      case (Suc d)
      have d: "d < m" "m * stride n \<le> length (drop (stride n) b)" "stride n \<le> length b" using Suc Suc.prems by auto
      have "stride n + (d * stride n + r div 8) = c * stride n + r div 8" using Suc by simp
      then show ?thesis
        using Suc.IH [OF d(1) Suc.prems(2) d(2)] d(3) Suc by (simp add: bitmap_pixels_Suc nth_append add.assoc)
    qed
  qed simp
  show ?thesis
    using blit_bitmap_events [OF assms, of x y s] nth [OF _ _ assms(1)]
    by (intro exI [of _ "bitmap_pixels (foreground_color s) (background_color s) (unat w) (unat h) b"]) (simp add: bitmap_events_def)
qed

definition lcd_demo :: lcd where
  "lcd_demo = \<lparr>foreground_color = 0xFFFF, background_color = 0, lcd_palette = replicate 32 0, lcd_type_st7789v = False, font_small = False, lcd_out = []\<rparr>"

theorem blit_bitmap_pixels_witness:
  "\<exists>p. lcd_blit_bitmap 5 6 9 1 [0, 0x80] lcd_demo = Some (lcd_send (window_events 5 6 9 1 LCD_RAMWR @ map Lcd_Pixel p) lcd_demo) \<and> p ! 8 = 0xFFFF"
proof -
  have "unat (1 :: u16) * stride (unat (9 :: u16)) \<le> length [0, 0x80 :: u8]" "unat (9 :: u16) * unat (1 :: u16) \<le> SPI_BUFFER_SIZE"
    by (simp_all add: stride_def SPI_BUFFER_SIZE_def)
  from blit_bitmap_pixels [OF this, of 5 6 lcd_demo] obtain p where
    p: "lcd_blit_bitmap 5 6 9 1 [0, 0x80] lcd_demo = Some (lcd_send (window_events 5 6 9 1 LCD_RAMWR @ map Lcd_Pixel p) lcd_demo)"
      "\<forall>c r. c < 1 \<longrightarrow> r < 9 \<longrightarrow> p ! (c * 9 + r) = (if bit ([0, 0x80 :: u8] ! (c * stride 9 + r div 8)) (7 - r mod 8) then 0xFFFF else 0)"
    by (auto simp: lcd_demo_def)
  from p(2) [rule_format, of 0 8] have "p ! 8 = 0xFFFF" by simp
  with p(1) show ?thesis by blast
qed

theorem lcd_line_nearest_witness:
  "\<exists>p n. lcd_line 5 7 2 1 lcd_demo = Some (lcd_send (window_events 2 1 318 1 LCD_RAMWR @ line_tail p 0xFFFF 0 n) lcd_demo) \<and> n = 6 \<and> p n = (5, 7)"
  using lcd_line_nearest [of 5 7 2 1 lcd_demo] by (auto simp: line_steps_def lcd_demo_def DISPLAY_WIDTH_def)

section \<open>Printed text\<close>

definition printable :: "u8 \<Rightarrow> bool" where "printable ch = (0x16 \<le> unat ch \<and> unat ch \<le> 0x7E)"

definition glyph_of :: "bool \<Rightarrow> u8 \<Rightarrow> glyph" where
  "glyph_of small ch = (if small then x5x7_glyphs else x6x10_glyphs) ! (unat ch - 0x16)"

lemma bitmap_pixels_take: "stride w = 1 \<Longrightarrow> bitmap_pixels fg bg w h (take h b @ c) = bitmap_pixels fg bg w h b" if "h \<le> length b"
  using that
proof (induction h arbitrary: b)
  case (Suc h)
  then obtain x d where b: "b = x # d" by (cases b) auto
  have w: "r div 8 = 0" if "r < w" for r using that Suc.prems(1) by (auto simp: stride_def)
  show ?case
    using Suc.IH [OF Suc.prems(1), of d] Suc.prems b w by (auto simp: bitmap_pixels_Suc pixel_of_def)
qed (simp add: bitmap_pixels_0)

lemma font_glyph_of:
  assumes "printable ch"
  obtains w d where "font_width (font_height small) (font_bits small) (unat ch) = Some (of_nat w)"
    "font_data (font_height small) (font_bits small) (unat ch) = Some d" "font_height small \<le> length d"
    "take (font_height small) d = glyph_bytes (glyph_of small ch)" "w = fst (glyph_of small ch)" "3 \<le> w" "w \<le> 8"
proof -
  have ch: "0x16 \<le> unat ch" "unat ch \<le> 0x7E" using assms by (auto simp: printable_def)
  show ?thesis
  proof (cases small)
    case True
    from font_glyph [OF x5x7_glyphs_ok _ ch] obtain d where "font_data 7 x5x7_bits (unat ch) = Some d" "7 \<le> length d"
      "take 7 d = glyph_bytes (x5x7_glyphs ! (unat ch - 0x16))"
      "font_width 7 x5x7_bits (unat ch) = Some (of_nat (fst (x5x7_glyphs ! (unat ch - 0x16))))"
      "3 \<le> fst (x5x7_glyphs ! (unat ch - 0x16))" "fst (x5x7_glyphs ! (unat ch - 0x16)) \<le> 8"
      by (auto simp: x5x7_bits_def)
    then show ?thesis using True by (intro that) (auto simp: font_height_def font_bits_def glyph_of_def)
  next
    case False
    from font_glyph [OF x6x10_glyphs_ok _ ch] obtain d where "font_data 10 x6x10_bits (unat ch) = Some d" "10 \<le> length d"
      "take 10 d = glyph_bytes (x6x10_glyphs ! (unat ch - 0x16))"
      "font_width 10 x6x10_bits (unat ch) = Some (of_nat (fst (x6x10_glyphs ! (unat ch - 0x16))))"
      "3 \<le> fst (x6x10_glyphs ! (unat ch - 0x16))" "fst (x6x10_glyphs ! (unat ch - 0x16)) \<le> 8"
      by (auto simp: x6x10_bits_def)
    then show ?thesis using False by (intro that) (auto simp: font_height_def font_bits_def glyph_of_def)
  qed
qed

definition glyph_events :: "bool \<Rightarrow> u16 \<Rightarrow> u16 \<Rightarrow> u8 \<Rightarrow> lcd \<Rightarrow> lcd_event list" where
  "glyph_events small x y ch s =
     bitmap_events x y (of_nat (fst (glyph_of small ch))) (of_nat (font_height small)) (glyph_bytes (glyph_of small ch)) s"

lemma put_glyph_ok:
  assumes "printable ch"
  shows "put_glyph small x y ch s = Some (of_nat (fst (glyph_of small ch)), lcd_send (glyph_events small x y ch s) s)"
proof -
  obtain w d where d: "font_width (font_height small) (font_bits small) (unat ch) = Some (of_nat w)"
    "font_data (font_height small) (font_bits small) (unat ch) = Some d" "font_height small \<le> length d"
    "take (font_height small) d = glyph_bytes (glyph_of small ch)" "w = fst (glyph_of small ch)" "3 \<le> w" "w \<le> 8"
    by (rule font_glyph_of [OF assms])
  have w: "w = 3 \<or> w = 4 \<or> w = 5 \<or> w = 6 \<or> w = 7 \<or> w = 8" using d(6,7) by arith
  have h: "font_height small = 7 \<or> font_height small = 10" by (simp add: font_height_def)
  have uw: "unat (of_nat w :: u16) = w" "unat (of_nat (font_height small) :: u16) = font_height small" "stride w = 1"
    using w h by (auto simp: stride_def)
  have "lcd_blit_bitmap x y (of_nat w) (of_nat (font_height small)) d s = Some (lcd_send (bitmap_events x y (of_nat w) (of_nat (font_height small)) d s) s)"
    using w h d(3) by (intro blit_bitmap_events) (auto simp: uw SPI_BUFFER_SIZE_def)
  moreover have "bitmap_pixels fg bg w (font_height small) d = bitmap_pixels fg bg w (font_height small) (take (font_height small) d)" for fg bg
    using bitmap_pixels_take [OF d(3) uw(3), of fg bg "[]"] by simp
  ultimately show ?thesis
    by (simp add: put_glyph_def d(1,2,4,5) glyph_events_def bitmap_events_def uw[unfolded d(5)])
qed

text \<open>Where the glyphs of a text go: to the right by their widths, and at a newline back to the start, one line down.\<close>

fun text_events :: "bool \<Rightarrow> u16 \<Rightarrow> u16 \<Rightarrow> u16 \<Rightarrow> u8 list \<Rightarrow> lcd \<Rightarrow> lcd_event list" where
  "text_events small sx x y [] s = []"
| "text_events small sx x y (ch # str) s =
     (if ch = 0x0A then text_events small sx sx (y + font_str_height small) str s
      else glyph_events small x y ch s @ text_events small sx (x + of_nat (fst (glyph_of small ch))) y str s)"

fun text_end :: "bool \<Rightarrow> u16 \<Rightarrow> u16 \<Rightarrow> u16 \<Rightarrow> u8 list \<Rightarrow> u16 \<times> u16" where
  "text_end small sx x y [] = (x, y)"
| "text_end small sx x y (ch # str) =
     (if ch = 0x0A then text_end small sx sx (y + font_str_height small) str
      else text_end small sx (x + of_nat (fst (glyph_of small ch))) y str)"

lemma send_simps [simp]:
  "foreground_color (lcd_send es s) = foreground_color s" "background_color (lcd_send es s) = background_color s"
  "font_small (lcd_send es s) = font_small s" "lcd_send fs (lcd_send es s) = lcd_send (es @ fs) s" "lcd_send [] s = s"
  by (simp_all add: lcd_send_def)

lemma text_events_send [simp]: "text_events small sx x y str (lcd_send es s) = text_events small sx x y str s"
  by (induction small sx x y str s rule: text_events.induct) (simp_all add: glyph_events_def bitmap_events_def)

text \<open>
  C21 A text of newlines and characters from 0x16 to the tilde is drawn in full, in either font, with each glyph
  where the widths of those before it put it.
\<close>

theorem text_drawn:
  assumes "\<forall>ch \<in> set str. ch = 0x0A \<or> printable ch" "ps_state ps = 0"
  shows "lcd_puts ps str s =
    (case text_end (font_small s) (start_x ps) (cur_x ps) (cur_y ps) str of (x, y) \<Rightarrow>
       Some (ps\<lparr>cur_x := x, cur_y := y\<rparr>, lcd_send (text_events (font_small s) (start_x ps) (cur_x ps) (cur_y ps) str s) s))"
  using assms
proof (induction str arbitrary: ps s)
  case (Cons ch str)
  have "\<not> ch < 9" if "printable ch" using that by (simp add: printable_def word_less_nat_alt)
  with Cons show ?case
    by (auto simp: lcd_put_def put_char_def put_glyph_ok split: prod.splits)
qed simp

theorem text_drawn_witness:
  "lcd_puts \<lparr>start_x = 10, cur_x = 10, cur_y = 20, ps_state = 0\<rparr> [0x41, 0x0A, 0x42] lcd_demo =
     Some (\<lparr>start_x = 10, cur_x = 16, cur_y = 31, ps_state = 0\<rparr>,
           lcd_send (glyph_events False 10 20 0x41 lcd_demo @ glyph_events False 10 31 0x42 lcd_demo) lcd_demo)"
proof -
  have "\<forall>ch \<in> set [0x41, 0x0A, 0x42 :: u8]. ch = 0x0A \<or> printable ch" by (simp add: printable_def)
  moreover have "fst (glyph_of False 0x42) = 6"
    by (simp add: glyph_of_def x6x10_glyphs_def x6x10_0_def x6x10_1_def x6x10_2_def x6x10_3_def)
  moreover have "\<not> font_small lcd_demo" by (simp add: lcd_demo_def)
  ultimately show ?thesis
    using text_drawn [of "[0x41, 0x0A, 0x42]" "\<lparr>start_x = 10, cur_x = 10, cur_y = 20, ps_state = 0\<rparr>" lcd_demo]
    by (simp add: font_str_height_def)
qed

text \<open>Any other character but the colour codes reads outside the font: tabulators and returns before it, the rest behind it.\<close>

lemma put_outside_font:
  assumes "9 \<le> unat ch" "ch \<noteq> 0x0A" "\<not> printable ch" "ps_state ps = 0"
  shows "lcd_put ps ch s = None"
proof -
  have "length x5x7_bits = 105 * 7" "length x6x10_bits = 105 * 10"
    unfolding x5x7_bits_def x6x10_bits_def using x5x7_glyphs_ok x6x10_glyphs_ok
      concat_blocks(2) [of "map glyph_bytes x5x7_glyphs" 7 0] concat_blocks(2) [of "map glyph_bytes x6x10_glyphs" 10 0]
    by (auto simp: list_all_iff glyph_bytes_length)
  then have "font_data (font_height small) (font_bits small) (unat ch) = None" for small
    using assms(3) by (auto simp: font_data_def font_height_def font_bits_def printable_def FONT_START_CHAR_def)
  then show ?thesis
    using assms by (auto simp: lcd_put_def put_char_def put_glyph_def word_less_nat_alt split: option.splits)
qed

section \<open>Scaled glyphs\<close>

lemma repeat_each: "concat (map (\<lambda>i. replicate k (f i)) [0..<n]) = map (\<lambda>j. f (j div k)) [0..<n * k]"
proof (induction n)
  case (Suc n)
  have "[0..<Suc n * k] = [0..<n * k] @ [n * k..<n * k + k]" using upt_add_eq_append [of 0 "n * k" k] by (simp add: add.commute)
  moreover have "map (\<lambda>j. f (j div k)) [n * k..<n * k + k] = replicate k (f n)"
  proof (rule nth_equalityI)
    fix j assume "j < length (map (\<lambda>j. f (j div k)) [n * k..<n * k + k])"
    then have "j < k" by simp
    then have "(n * k + j) div k = n" by simp
    then show "map (\<lambda>j. f (j div k)) [n * k..<n * k + k] ! j = replicate k (f n) ! j" using \<open>j < k\<close> by simp
  qed simp
  ultimately show ?case using Suc by simp
qed simp

lemma char_row_from:
  "m + n \<le> 8 \<Longrightarrow> char_row fg bg k n (push_bit m x) = concat (map (\<lambda>r. replicate k (if bit x (7 - r) then fg else bg)) [m..<m + n])"
proof (induction n arbitrary: m)
  case (Suc n)
  have "[m..<m + Suc n] = m # [Suc m..<Suc m + n]" by (simp add: upt_conv_Cons del: upt_Suc)
  moreover have "push_bit 1 (push_bit m x) = push_bit (Suc m) x" by (simp only: push_bit_push_bit) simp
  moreover have "(0x80 AND push_bit m x \<noteq> 0) = bit x (7 - m)" using Suc.prems by (intro test_high) simp
  ultimately show ?case using Suc.IH [of "Suc m"] Suc.prems by (simp del: push_bit_push_bit upt_Suc)
qed simp

definition scaled_pixels :: "u16 \<Rightarrow> u16 \<Rightarrow> nat \<Rightarrow> nat \<Rightarrow> u8 list \<Rightarrow> nat \<Rightarrow> u16 list" where
  "scaled_pixels fg bg w h b k =
     concat (map (\<lambda>Y. map (\<lambda>X. if bit (b ! (Y div k)) (7 - X div k) then fg else bg) [0..<w * k]) [0..<h * k])"

lemma scaled_rows:
  assumes "w \<le> 8"
  shows "concat (map (\<lambda>c. concat (replicate k (char_row fg bg k w (d ! c)))) [0..<h]) = scaled_pixels fg bg w h d k"
proof -
  have row: "char_row fg bg k w x = map (\<lambda>X. if bit x (7 - X div k) then fg else bg) [0..<w * k]" for x
    using char_row_from [of 0 w fg bg k x] assms repeat_each [of k "\<lambda>r. if bit x (7 - r) then fg else bg" w] by simp
  have "concat (map (\<lambda>c. concat (replicate k (char_row fg bg k w (d ! c)))) [0..<h]) =
      concat (concat (map (\<lambda>c. replicate k (char_row fg bg k w (d ! c))) [0..<h]))"
    by (induction h) simp_all
  then show ?thesis
    unfolding repeat_each scaled_pixels_def by (simp add: row comp_def)
qed

lemma scaled_length: "length (scaled_pixels fg bg w h b k) = (w * k) * (h * k)"
  by (simp add: scaled_pixels_def length_concat comp_def sum_list_triv)

text \<open>
  Up to the size 3, the largest the firmware asks for, every printable character fits the buffer, and each of its
  pixels becomes a square. The advance is its width times the size.
\<close>

theorem drawchar_scaled:
  assumes "printable ch" "unat k \<le> 3"
  shows "lcd_drawchar_size ch x y k s =
    (let w = fst (glyph_of False ch); n = unat k
     in Some (int (w * n), lcd_send (window_events x y (int (w * n)) (int (10 * n)) LCD_RAMWR @
          map Lcd_Pixel (scaled_pixels (foreground_color s) (background_color s) w 10 (glyph_bytes (glyph_of False ch)) n)) s))"
proof -
  obtain w d where d: "font_width 10 x6x10_bits (unat ch) = Some (of_nat w)"
    "font_data 10 x6x10_bits (unat ch) = Some d" "10 \<le> length d"
    "take 10 d = glyph_bytes (glyph_of False ch)" "w = fst (glyph_of False ch)" "3 \<le> w" "w \<le> 8"
    using font_glyph_of [OF assms(1), of False] by (auto simp: font_height_def font_bits_def)
  have "w = 3 \<or> w = 4 \<or> w = 5 \<or> w = 6 \<or> w = 7 \<or> w = 8" using d(6,7) by arith
  then have uw: "unat (of_nat w :: u16) = w" "uint (of_nat w :: u16) = int w" by auto
  have n: "uint k = int (unat k)" by simp
  have same: "scaled_pixels fg bg w 10 d n = scaled_pixels fg bg w 10 (take 10 d) n" for fg bg n
  proof -
    have "Y div n < 10" if "Y < 10 * n" for Y using that by (simp add: less_mult_imp_div_less)
    then show ?thesis by (auto simp: scaled_pixels_def intro!: arg_cong [where f = concat])
  qed
  have "w * unat k \<le> 24" "10 * unat k \<le> 30" using d(7) assms(2) mult_le_mono [of w 8 "unat k" 3] by auto
  then have "(w * unat k) * (10 * unat k) \<le> 24 * 30" by (rule mult_le_mono)
  then have fits: "\<not> SPI_BUFFER_SIZE < (w * unat k) * (10 * unat k)" by (simp add: SPI_BUFFER_SIZE_def)
  have area: "nat (int w * int (unat k) * (10 * int (unat k))) = (w * unat k) * (10 * unat k)"
    by (simp add: nat_mult_distrib)
  show ?thesis
    unfolding lcd_drawchar_size_def d(1,2) option.case prod.case uw scaled_rows [OF d(7)] Let_def
    using fits area
    by (simp add: lcd_bulk_def scaled_length n lcd_set_window_def same [unfolded d(4)] d(5) [symmetric] del: of_nat_unat uint_nat)
qed

lemma drawchar_overrun: "lcd_drawchar_size 0x16 x y 4 s = None"
proof -
  have "printable 0x16" by (simp add: printable_def)
  obtain w d where f: "font_width (font_height False) (font_bits False) (unat (0x16 :: u8)) = Some (of_nat w)"
    "font_data (font_height False) (font_bits False) (unat (0x16 :: u8)) = Some d" "w = fst (glyph_of False 0x16)"
    by (rule font_glyph_of [OF \<open>printable 0x16\<close>, of False])
  then have d: "font_width 10 x6x10_bits (unat (0x16 :: u8)) = Some (of_nat w)" "font_data 10 x6x10_bits (unat (0x16 :: u8)) = Some d"
    "w = fst (glyph_of False 0x16)"
    by (simp_all only: font_height_def font_bits_def if_False)
  have "w = 8" by (simp add: d(3) glyph_of_def x6x10_glyphs_def x6x10_0_def)
  then show ?thesis
    unfolding lcd_drawchar_size_def d(1,2) option.case prod.case
    by (simp add: scaled_rows scaled_length lcd_bulk_def SPI_BUFFER_SIZE_def Let_def)
qed

section \<open>Reading while the DMA writes\<close>

definition rgb_at :: "u8 list \<Rightarrow> nat \<Rightarrow> u16" where
  "rgb_at data k = RGB565 (data ! (3 * k)) (data ! (3 * k + 1)) (data ! (3 * k + 2))"

text \<open>
  \<open>k\<close> pixels are turned, \<open>got\<close> bytes have arrived: the pixels lie in front, the bytes that wait lie where they
  arrived.
\<close>

definition rx_ok :: "u8 list \<Rightarrow> nat \<Rightarrow> nat \<Rightarrow> u8 list \<Rightarrow> bool" where
  "rx_ok data got k mem =
     (length data \<le> length mem \<and> got \<le> length data \<and> 3 * k \<le> got \<and>
      (\<forall>j. 3 * k \<le> j \<longrightarrow> j < got \<longrightarrow> mem ! j = data ! j) \<and>
      (\<forall>i<k. mem ! (2 * i) = ucast (rgb_at data i) \<and> mem ! (2 * i + 1) = ucast (drop_bit 8 (rgb_at data i))))"

lemma rx_ok_pixel:
  assumes "rx_ok data got k mem" "3 * k + 3 \<le> got"
  shows "rx_ok data got (k + 1) (rx_pixel k mem)"
proof -
  have "mem ! (3 * k) = data ! (3 * k)" "mem ! (3 * k + 1) = data ! (3 * k + 1)" "mem ! (3 * k + 2) = data ! (3 * k + 2)"
    using assms by (auto simp: rx_ok_def)
  then have p: "rx_pixel k mem = mem[2 * k := ucast (rgb_at data k), 2 * k + 1 := ucast (drop_bit 8 (rgb_at data k))]"
    by (simp add: rx_pixel_def rgb_at_def Let_def)
  have len: "2 * k + 1 < length mem" using assms by (auto simp: rx_ok_def)
  show ?thesis
    unfolding rx_ok_def
  proof (intro conjI allI impI)
    fix j assume "3 * (k + 1) \<le> j" "j < got"
    then show "rx_pixel k mem ! j = data ! j" using assms(1) by (auto simp: p rx_ok_def nth_list_update)
  next
    fix i assume "i < k + 1"
    then show "rx_pixel k mem ! (2 * i) = ucast (rgb_at data i)" "rx_pixel k mem ! (2 * i + 1) = ucast (drop_bit 8 (rgb_at data i))"
      using assms(1) len by (cases "i = k"; force simp: p rx_ok_def nth_list_update)+
  qed (use assms in \<open>auto simp: rx_ok_def p\<close>)
qed

lemma rx_ok_fill:
  assumes "rx_ok data got k mem" "got \<le> now" "now \<le> length data"
  shows "rx_ok data now k (dma_fill data got now mem)"
proof -
  have len: "length data \<le> length mem" "got \<le> length data" using assms(1) by (auto simp: rx_ok_def)
  have nth: "dma_fill data got now mem ! j = (if j < got then mem ! j else if j < now then data ! j else mem ! j)" if "j < length mem" for j
    using that len assms(2,3) by (auto simp: dma_fill_def nth_append min_def)
  have "length (dma_fill data got now mem) = length mem" using len assms(2,3) by (simp add: dma_fill_def)
  then show ?thesis
    using assms len nth by (auto simp: rx_ok_def)
qed

lemma unat_minus3: "3 \<le> unat (len :: u16) \<Longrightarrow> unat (len - 3) = unat len - 3"
  using unat_sub [of 3 len] by (simp add: word_le_nat_alt)

lemma unat_plus3: "unat (rem :: u16) + 3 < 65536 \<Longrightarrow> unat (rem + 3) = unat rem + 3"
  using unat_add_lem [of rem 3] by simp

lemma rx_process_ok:
  assumes "rx_ok data got k mem" "unat len = length data - 3 * k" "0 < unat len" "unat left \<le> unat len" "unat left = length data - got + 3"
  shows "\<exists>len' k' mem'. rx_process left len k mem = Some (len', k', mem') \<and>
    rx_ok data got k' mem' \<and> unat len' = length data - 3 * k' \<and> unat len' \<le> unat left \<and> k < k'"
  using assms
proof (induction left len k mem rule: rx_process.induct)
  case (1 left len k mem)
  have got: "got \<le> length data" "length data \<le> length mem" using "1.prems"(1) by (simp_all add: rx_ok_def)
  then have k: "3 * k + 3 \<le> got" using "1.prems"(2-5) by linarith
  then have room: "\<not> length mem < 3 * k + 3" using got by linarith
  have len: "unat (len - 3) = unat len - 3" using k got "1.prems"(2) by (intro unat_minus3) linarith
  have ok: "rx_ok data got (k + 1) (rx_pixel k mem)" "unat (len - 3) = length data - 3 * (k + 1)"
    using rx_ok_pixel [OF "1.prems"(1) k] "1.prems"(2) len by simp_all
  show ?case
  proof (cases "left < len - 3")
    case True
    then have "rx_process left len k mem = rx_process left (len - 3) (k + 1) (rx_pixel k mem)"
      using room by (subst rx_process.simps) (simp add: Let_def)
    moreover have "\<exists>len' k' mem'. rx_process left (len - 3) (k + 1) (rx_pixel k mem) = Some (len', k', mem') \<and>
        rx_ok data got k' mem' \<and> unat len' = length data - 3 * k' \<and> unat len' \<le> unat left \<and> k + 1 < k'"
      using True by (intro "1.IH" [OF room refl refl True ok _ _ "1.prems"(5)]) (auto simp: word_less_nat_alt)
    ultimately show ?thesis by auto
  next
    case False
    then have "rx_process left len k mem = Some (len - 3, k + 1, rx_pixel k mem)"
      using room by (subst rx_process.simps) (simp add: Let_def)
    then show ?thesis using ok False by (auto simp: word_less_nat_alt)
  qed
qed

text \<open>The counter never rises, and at last it is read twice as zero, or once when one pixel is left.\<close>

definition rx_readings :: "u16 list \<Rightarrow> nat \<Rightarrow> nat \<Rightarrow> bool" where
  "rx_readings rems m len =
     (sorted_wrt (\<ge>) (m # map unat rems) \<and> ((\<exists>init. rems = init @ [0, 0]) \<or> len = 3 \<and> (\<exists>init. rems = init @ [0])))"

lemma rx_loop_ok:
  assumes "rx_ok data got k mem" "unat len = length data - 3 * k" "3 dvd length data" "0 < unat len"
    "rx_readings rems (length data - got) (unat len)" "length data + 3 < 65536"
  shows "\<exists>mem'. rx_loop (length data) data rems got len k mem = Some mem' \<and> rx_ok data (length data) (length data div 3) mem'"
  using assms(1,2,4,5)
proof (induction rems arbitrary: got len k mem)
  case Nil
  then show ?case by (simp add: rx_readings_def)
next
  case (Cons rem rems)
  obtain n where n: "length data = 3 * n" using assms(3) by blast
  define now where "now = length data - unat rem"
  have got: "got \<le> length data" using Cons.prems(1) by (simp add: rx_ok_def)
  have rem: "unat rem \<le> length data - got" "sorted_wrt (\<ge>) (map unat (rem # rems))" using Cons.prems(4) by (auto simp: rx_readings_def)
  then have fill: "rx_ok data now k (dma_fill data got now mem)" "unat rem = length data - now" "got \<le> now" "now \<le> length data"
    using rx_ok_fill [OF Cons.prems(1)] got by (simp_all add: now_def)
  have left: "unat (rem + 3) = unat rem + 3" using fill(2) assms(6) by (intro unat_plus3) linarith
  have three: "3 \<le> unat len" using Cons.prems(2,3) n by presburger
  have more: "rx_readings rems (unat rem) len'" if "(\<exists>init. rems = init @ [0, 0]) \<or> len' = 3 \<and> (\<exists>init. rems = init @ [0])" for len'
    using that rem(2) by (simp add: rx_readings_def)
  have ends: "(\<exists>init. rems = init @ [0, 0]) \<or> rem = 0 \<and> rems = [0] \<or> unat len = 3 \<and> ((\<exists>init. rems = init @ [0]) \<or> rem = 0 \<and> rems = [])"
    using Cons.prems(4) by (auto simp: rx_readings_def Cons_eq_append_conv)
  show ?case
  proof (cases "rem + 3 > len")
    case True
    then have "unat rem + 3 > unat len" using left by (simp add: word_less_nat_alt)
    then have "rx_readings rems (unat rem) (unat len)" using ends three by (intro more) auto
    then have "\<exists>mem'. rx_loop (length data) data rems now len k (dma_fill data got now mem) = Some mem' \<and> rx_ok data (length data) (length data div 3) mem'"
      unfolding fill(2) by (intro Cons.IH [OF fill(1) Cons.prems(2,3)])
    then show ?thesis using True by (simp add: Let_def now_def [symmetric])
  next
    case False
    then have le: "unat (rem + 3) \<le> unat len" by (simp add: word_less_nat_alt)
    have "\<exists>len' k' mem'. rx_process (rem + 3) len k (dma_fill data got now mem) = Some (len', k', mem') \<and>
        rx_ok data now k' mem' \<and> unat len' = length data - 3 * k' \<and> unat len' \<le> unat (rem + 3) \<and> k < k'"
      using left fill(2) by (intro rx_process_ok [OF fill(1) Cons.prems(2,3) le]) simp
    then obtain len' k' mem' where p: "rx_process (rem + 3) len k (dma_fill data got now mem) = Some (len', k', mem')"
      and ok: "rx_ok data now k' mem'" "unat len' = length data - 3 * k'" "unat len' \<le> unat rem + 3" "k < k'"
      unfolding left by blast
    have loop: "rx_loop (length data) data (rem # rems) got len k mem =
        (if len' = 0 then Some mem' else rx_loop (length data) data rems now len' k' mem')"
      using False p by (simp add: Let_def now_def [symmetric])
    show ?thesis
    proof (cases "len' = 0")
      case True
      then have "k' = length data div 3" "now = length data" using ok(1,2) n by (auto simp: rx_ok_def)
      then show ?thesis using loop True ok(1) by auto
    next
      case False
      then have pos: "0 < unat len'" by (simp add: unat_gt_0)
      have "unat len' < unat len" "3 \<le> unat len'" using pos ok(2,4) Cons.prems(2,3) n by presburger+
      then have "rx_readings rems (unat rem) (unat len')" using ends ok(3) by (intro more) auto
      then show ?thesis
        using loop False pos Cons.IH [OF ok(1,2)] unfolding fill(2) by auto
    qed
  qed
qed

text \<open>
  C20 Reading \<open>n\<close> pixels back, up to 21844, ends with their 16 bit colours in front of the buffer, whatever the buffer held and
  however the transfer and the loop overlap: a pixel is turned only after its three bytes have arrived, and neither
  side overwrites what the other still needs. The counter of the channel never rises and is at last read as 0 twice.
  Above 21844 pixels the 16 bit lengths of the code wrap.
\<close>

theorem read_memory_pixels:
  assumes "0 < n" "n \<le> 21844" "w * h = int n" "length data = 3 * n" "3 * n \<le> length mem"
    and "sorted_wrt (\<ge>) (map unat (rems @ [0, 0]))" "\<forall>r \<in> set rems. unat r \<le> 3 * n"
  shows "\<exists>mem' s'. lcd_read_memory x y w h data (rems @ [0, 0]) mem s = Some (mem', s') \<and>
    (\<forall>i<n. mem' ! (2 * i) = ucast (rgb_at data i) \<and> mem' ! (2 * i + 1) = ucast (drop_bit 8 (rgb_at data i)))"
proof -
  have "rx_ok data 0 0 mem" using assms(4,5) by (simp add: rx_ok_def)
  moreover have len: "unat (word_of_int (w * h) * 3 :: u16) = 3 * n"
  proof -
    have "(word_of_int (w * h) * 3 :: u16) = of_nat (3 * n)" using assms(3) by simp
    then show ?thesis using assms(2) by (simp only: unat_of_nat) simp
  qed
  moreover have "rx_readings (rems @ [0, 0]) (length data - 0) (3 * n)"
    using assms(4,6,7) by (auto simp: rx_readings_def)
  ultimately obtain mem' where "rx_loop (length data) data (rems @ [0, 0]) 0 (word_of_int (w * h) * 3) 0 mem = Some mem'"
    "rx_ok data (length data) (length data div 3) mem'"
    using rx_loop_ok [of data 0 0 mem "word_of_int (w * h) * 3" "rems @ [0, 0]"] assms(1,2,4) by auto
  then show ?thesis using assms(4) len by (auto simp: lcd_read_memory_def rx_ok_def Let_def)
qed

theorem read_memory_pixels_witness:
  "\<exists>mem' s'. lcd_read_memory 0 0 2 1 [255, 0, 0, 0, 255, 0] [6, 1, 0, 0] [9, 9, 9, 9, 9, 9] lcd_demo = Some (mem', s') \<and>
     mem' ! 0 = 0xF8 \<and> mem' ! 1 = 0 \<and> mem' ! 2 = 7 \<and> mem' ! 3 = 0xE0"
proof -
  have r: "RGB565 255 0 0 = 0x00F8" "RGB565 0 255 0 = 0xE007" by (simp_all add: RGB565_def)
  from read_memory_pixels [of 2 2 1 "[255, 0, 0, 0, 255, 0]" "[9, 9, 9, 9, 9, 9]" "[6, 1]" 0 0 lcd_demo]
  obtain mem' s' where m: "lcd_read_memory 0 0 2 1 [255, 0, 0, 0, 255, 0] [6, 1, 0, 0] [9, 9, 9, 9, 9, 9] lcd_demo = Some (mem', s')"
    "\<forall>i<2. mem' ! (2 * i) = ucast (rgb_at [255, 0, 0, 0, 255, 0] i) \<and> mem' ! (2 * i + 1) = ucast (drop_bit 8 (rgb_at [255, 0, 0, 0, 255, 0] i))"
    by auto
  from m(2) [rule_format, of 0] m(2) [rule_format, of 1] m(1) show ?thesis by (simp add: rgb_at_def r)
qed

end
