(* ===== verification/Spec2Isabelle.thy ===== *)
theory Spec2Isabelle
  imports Nvx_Prelude Common_Text Packbits Chprintf Mailbox Event_Bus Scheduler Flash
    Config_Service State_Manager Shell_Service Stimulus Calibration Dsp
    Sweep_Service Sweep_Engine Pipeline Sweep_Lock Si5351 Si5351_Output
    Board_Events Ui_Input Ui_Core Ui_Keypad Menu_Tables Ui_Menu Shell_Commands
    Fonts Lcd
begin

text \<open>
  NanoVNA-X is the firmware of a hand-held vector network analyzer: it steps a synthesizer
  through the frequencies of a sweep, samples reference and receiver channels through an audio
  codec, turns the samples into reflection (S11) and transmission (S21), corrects them with a
  calibration, and shows them or hands them out over USB. This development models the
  C code under \<open>src/src\<close> and \<open>src/include\<close> that decides what is measured, stored and
  answered; registers, pixels and the third-party kernel are outside it.

  Parts and how they interact. A high-priority thread runs \<open>measurement_engine_tick\<close>: it serves pending shell
  commands, the user interface and the autosave, and then sweeps. The main thread reads
  lines from USB, finds the command and either runs it or hands it to the sweep thread.
  Components tell each other through the event bus. Settings live in \<open>config\<close> and
  \<open>current_props\<close>; they reach flash through the configuration service and the backup registers
  through the state manager.

  Theories, in the order of their imports.
  \<open>Nvx_Prelude\<close>: word types, C strings in arrays, digits of a radix, flags.
  \<open>Common_Text\<close>, \<open>Packbits\<close>: \<open>core/common.c\<close> (number parsers, command splitter, option lists, PackBits).
  \<open>Chprintf\<close>: \<open>sys/chprintf.c\<close> (integer, string and frequency conversions, bounded buffers).
  \<open>Mailbox\<close>, \<open>Event_Bus\<close>: the mailbox the firmware posts to, and \<open>sys/event_bus.c\<close>. The
  mailbox laws are the locale \<open>bounded_fifo\<close>.
  \<open>Scheduler\<close>: \<open>sys/scheduler.c\<close>.
  \<open>Flash\<close>, \<open>Config_Service\<close>: \<open>boards/STM32F072/flash.c\<close> and \<open>sys/config_service.c\<close>. The flash laws are the locale \<open>region_store\<close>.
  \<open>State_Manager\<close>: \<open>sys/state_manager.c\<close> with the default properties and the backup registers.
  \<open>Shell_Service\<close>: \<open>sys/shell_service.c\<close>, from the serial channel to the command.
  \<open>Freq_Grid\<close>, \<open>Stimulus\<close>: the range, grid and markers of \<open>runtime/runtime_entry.c\<close> and \<open>rf/sweep.c\<close>.
  \<open>Calibration\<close>: \<open>processing/calibration.c\<close> and the corrections of \<open>rf/sweep.c\<close>.
  \<open>Dsp\<close>: \<open>processing/dsp_backend.c\<close>, portable and Cortex-M4.
  \<open>Sweep_Service\<close>, \<open>Sweep_Engine\<close>: \<open>rf/sweep.c\<close>: shared state and capture, the state machine of one sweep.
  \<open>Pipeline\<close>: \<open>rf/pipeline.c\<close>: a sweep and the renormalization to another port impedance.
  \<open>Sweep_Lock\<close>: \<open>rf/measurement.c\<close> with the pipeline and the lock of a sweep in steps: the interleavings with the reading thread.
  \<open>Si5351\<close>, \<open>Si5351_Output\<close>: \<open>driver/si5351.c\<close>, the registers it writes and the frequencies the chip then puts out.
  \<open>Board_Events\<close>, \<open>Ui_Input\<close>, \<open>Ui_Core\<close>: \<open>driver/board_events.c\<close>, \<open>ui/core/hardware_input.c\<close>, \<open>ui/core/ui_core.c\<close>
  with the lever functions of \<open>ui/core/ui_controller.c\<close>: from an interrupt to the handler of the mode.
  \<open>Shell_Commands\<close>: \<open>sys/shell_commands.c\<close>, what each command line does, and \<open>vna_shell_execute_line\<close>.
  \<open>Fonts\<close>, \<open>Lcd\<close>: the bitmap fonts of \<open>ui/resources/fonts\<close> and \<open>driver/lcd.c\<close>: what is sent to the display.
  \<open>Ui_Keypad\<close>: \<open>ui/core/ui_keypad.c\<close>. \<open>Menu_Tables\<close>, \<open>Ui_Menu\<close>: the tables of \<open>ui/menus\<close> and \<open>ui/core/ui_menu_engine.c\<close>.

  The build. The model is the firmware \<open>src/Makefile\<close> builds for its default target, the STM32F072 board: with
  \<open>__VNA_Z_RENORMALIZATION__\<close>, which the Makefile defines, and the options of \<open>config_macros.h\<close> and \<open>nanovna.h\<close> for that board. Where
  the other board differs in data that the theorems quantify over (flash layout, fonts, synthesizers), both are in.

  Correspondence. A C global is a field of its component's record, a function is a
  definition of the same name from state to state (with its result in front), a struct or enum
  a record or datatype; names that clash with HOL carry a suffix or prefix. Unsigned integers are words of their
  width, so \<open>+\<close> wraps; an \<open>int\<close> that stays small is an \<open>int\<close>, and where its range matters the
  conversion is written out. C \<open>float\<close> is modelled as a real: rounding, overflow and NaN of binary32
  are not. An out-of-bounds access, a missing terminator or a call that does not return
  is \<open>None\<close>; failing operations return the values the code returns. A division by zero gives what the platform's
  routine gives: it is the field \<open>st_div0\<close> where a range can reach it, in the step of the markers; the plan of a scan of one point
  divides by zero too, which has no such field, and the theorems on the grid are for two points and more. Calls into other
  components that a component makes only for their effect are recorded in order (\<open>st_calls\<close>,
  the redraw flags, published events). Hardware and library functions
  are arguments: clock readings, flash programming success, interrupts of a capture, the
  synthesizer and codec, \<open>vna_sincosf\<close>, the serial channel.

  What the lemmas show. Text: exact round trips and bounds of parsing and printing, with the inputs on
  which the parsers go wrong. Event bus, scheduler, sweep lock: invariants under every
  interleaving of critical sections, and the runs on which two operations that are not one section
  interfere. Persistence: what a save stores is what a recall or a reset brings back, and
  what is left alone. Measurement: the grid is within half a hertz of equal spacing without overflow, the error-term
  solver inverts the error model, the two demodulators agree, a capture adds the blocks of one bandwidth,
  and the sweep machine equals nested loops and fills every selected cell; the synthesizer's registers give the
  wanted frequency up to the rounding of the divider in use, unless dividers of the band before are left standing; the
  renormalized reflection is that of the same load at the port impedance. The lock keeps readers out while a sweep writes, but not
  out of the slices of one sweep nor while the pipeline rewrites the first channel: both have their theorem.
  Display: lines are the nearest ones and end, text and bitmaps are drawn in full where they fit, up to 21844 pixels
  are read back safely while the transfer runs. Commands: what each keeps, and that all but three leave the sweep running.
  User interface: events are delivered once, what is reported pending is what is served, the keypad edits the text it
  shows, touches map to pixels and keys, and no sequence of inputs leads out of the menus.

  Bounds and fuel. Recursions over data are structural. The sweep loop is \<open>while_option\<close>,
  and \<open>sweep_is_nested_loop\<close> shows it always ends. Loops that wait for hardware run
  over the finite list of what the hardware does during the wait, and say in their text what the end of the list
  means. Nothing else uses fuel.

  Not modelled. Register access of the other drivers, the codec, the SD card, icons, the drawing of the plot and floating-point
  trace formats, the FFT and elementary functions (binary32 numerics), the start-up sequence and
  the ChibiOS kernel: they are hardware access, data, numerics of a type this model replaces
  by reals, or code of other projects. The float conversions of \<open>chprintf\<close> and \<open>my_atof\<close>
  are left out for the same reason.
\<close>

end
